(* ===== verification/Fms_Prelude.thy ===== *)
theory Fms_Prelude
  imports Main "HOL-Library.Word"
begin

text \<open>
  Shared ground of the development: the outcomes a C statement can have besides a value, the parts
  of the C library the sources call on strings and numbers (\<^verbatim>\<open>strchr\<close>, \<^verbatim>\<open>strrchr\<close>,
  \<^verbatim>\<open>strstr\<close>, \<^verbatim>\<open>strncmp\<close>, \<^verbatim>\<open>strspn\<close>, \<^verbatim>\<open>atoi\<close>, \<^verbatim>\<open>fgets\<close>, the \<open>%d\<close>/\<open>%x\<close>
  conversions of \<^verbatim>\<open>sprintf\<close>), and the generic list lemmas the components use.

  A C string is a \<open>string\<close> without its terminating NUL; a pointer into a string is the suffix that
  starts there, so the difference of two such pointers is a difference of lengths.
\<close>

unbundle bit_operations_syntax

named_theorems c_str \<open>facts about the string functions of the C library\<close>
named_theorems fms_wf \<open>well-formedness facts used as introduction rules\<close>

section \<open>Outcomes\<close>

text \<open>
  What the sources do on bad input is often a wild access. Every such access is a branch of the
  model: a definition returns \<open>Inl\<close> of the reason instead of a value.
  \<open>Would_block\<close> is a \<^verbatim>\<open>sem_wait\<close> on a semaphore whose value is zero: the thread does not proceed
  from that state. \<open>Relinked\<close> is a \<^verbatim>\<open>list_add\<close> of a node that is in a list already, which breaks
  the chain of that list.
\<close>

datatype c_err = Null_deref | Buf_overflow | Oob_access | Use_after_free | Would_block | Relinked

type_synonym 'a res = "c_err + 'a"

definition rbind :: "'a res \<Rightarrow> ('a \<Rightarrow> 'b res) \<Rightarrow> 'b res" where
  "rbind m f = (case m of Inl e \<Rightarrow> Inl e | Inr x \<Rightarrow> f x)"

lemma rbind_simps [simp]: "rbind (Inl e) f = Inl e" "rbind (Inr x) f = f x"
  by (simp_all add: rbind_def)

lemma rbind_eq_Inr [simp]: "rbind m f = Inr y \<longleftrightarrow> (\<exists>x. m = Inr x \<and> f x = Inr y)"
  by (cases m) simp_all

lemma rbind_cong [fundef_cong]:
  "m = m' \<Longrightarrow> (\<And>x. m' = Inr x \<Longrightarrow> f x = f' x) \<Longrightarrow> rbind m f = rbind m' f'"
  by (cases m') simp_all

definition deref :: "'a option \<Rightarrow> 'a res" where
  "deref p = (case p of None \<Rightarrow> Inl Null_deref | Some x \<Rightarrow> Inr x)"

lemma deref_simps [simp]: "deref None = Inl Null_deref" "deref (Some x) = Inr x"
  by (simp_all add: deref_def)

lemma deref_eq_Inr [simp]: "deref p = Inr x \<longleftrightarrow> p = Some x"
  by (cases p) simp_all

text \<open>An address is a natural number; 0 is the null pointer.\<close>

type_synonym addr = nat

definition load :: "(addr \<rightharpoonup> 'a) \<Rightarrow> addr \<Rightarrow> 'a res" where
  "load h a = (if a = 0 then Inl Null_deref
     else case h a of None \<Rightarrow> Inl Use_after_free | Some x \<Rightarrow> Inr x)"

lemma load_eq_Inr [simp]: "load h a = Inr x \<longleftrightarrow> a \<noteq> 0 \<and> h a = Some x"
  by (simp add: load_def split: option.splits)

lemma load_live: "a \<noteq> 0 \<Longrightarrow> h a = Some x \<Longrightarrow> load h a = Inr x"
  by simp

section \<open>Strings of the C library\<close>

text \<open>\<^verbatim>\<open>strchr(s, c)\<close> and \<^verbatim>\<open>strrchr(s, c)\<close>: the suffix from the first (last) occurrence on.\<close>

fun strchr :: "string \<Rightarrow> char \<Rightarrow> string option" where
  "strchr [] c = None"
| "strchr (x # s) c = (if x = c then Some (x # s) else strchr s c)"

fun strrchr :: "string \<Rightarrow> char \<Rightarrow> string option" where
  "strrchr [] c = None"
| "strrchr (x # s) c =
     (case strrchr s c of Some p \<Rightarrow> Some p | None \<Rightarrow> if x = c then Some (x # s) else None)"

definition is_pfx :: "string \<Rightarrow> string \<Rightarrow> bool" where
  "is_pfx p s \<longleftrightarrow> take (length p) s = p"

text \<open>\<^verbatim>\<open>strncmp(a, b, n) == 0\<close> on NUL-free strings.\<close>

definition strncmp_eq :: "string \<Rightarrow> string \<Rightarrow> nat \<Rightarrow> bool" where
  "strncmp_eq a b n \<longleftrightarrow> take n a = take n b"

text \<open>\<^verbatim>\<open>strstr(s, p)\<close>: the suffix at the first occurrence of \<open>p\<close>.\<close>

fun strstr :: "string \<Rightarrow> string \<Rightarrow> string option" where
  "strstr [] p = (if p = [] then Some [] else None)"
| "strstr (x # s) p = (if is_pfx p (x # s) then Some (x # s) else strstr s p)"

definition strspn :: "string \<Rightarrow> char list \<Rightarrow> nat" where
  "strspn s cs = length (takeWhile (\<lambda>c. c \<in> set cs) s)"

definition strcspn :: "string \<Rightarrow> char list \<Rightarrow> nat" where
  "strcspn s cs = length (takeWhile (\<lambda>c. c \<notin> set cs) s)"

lemma strncmp_eq_len [c_str]: "strncmp_eq p s (length p) \<longleftrightarrow> is_pfx p s"
  by (auto simp: strncmp_eq_def is_pfx_def)

lemma is_pfx_append [c_str, simp]: "is_pfx p (p @ s)"
  by (simp add: is_pfx_def)

lemma is_pfx_iff [c_str]: "is_pfx p s \<longleftrightarrow> (\<exists>r. s = p @ r)"
  unfolding is_pfx_def by (metis append_eq_conv_conj append_take_drop_id)

lemma strchr_None [c_str]: "strchr s c = None \<longleftrightarrow> c \<notin> set s"
  by (induction s) auto

lemma strrchr_None [c_str]: "strrchr s c = None \<longleftrightarrow> c \<notin> set s"
  by (induction s) (auto split: option.splits)

lemma strchr_Some [c_str]:
  "strchr s c = Some p \<longleftrightarrow> (\<exists>a b. s = a @ p \<and> p = c # b \<and> c \<notin> set a)"
proof (induction s)
  case (Cons x s)
  show ?case
  proof (cases "x = c")
    case True
    then show ?thesis by (auto simp: Cons_eq_append_conv)
  next
    case False
    with Cons show ?thesis by (auto simp: Cons_eq_append_conv)
  qed
qed simp

lemma strrchr_Some [c_str]:
  "strrchr s c = Some p \<longleftrightarrow> (\<exists>a b. s = a @ p \<and> p = c # b \<and> c \<notin> set b)"
proof (induction s)
  case (Cons x s)
  show ?case
  proof (cases "strrchr s c")
    case None
    then have "c \<notin> set s" by (simp add: strrchr_None)
    with None show ?thesis by (auto simp: Cons_eq_append_conv)
  next
    case (Some q)
    then have "c \<in> set s" using strrchr_None [of s c] by auto
    with Cons Some show ?thesis by (auto simp: Cons_eq_append_conv)
  qed
qed simp

lemma strstr_Some_iff [c_str]: "(\<exists>r. strstr s p = Some r) \<longleftrightarrow> (\<exists>a b. s = a @ p @ b)"
proof (induction s)
  case (Cons x s)
  then show ?case by (auto simp: is_pfx_iff Cons_eq_append_conv)
qed auto

section \<open>Numbers and lines\<close>

definition isspace :: "char \<Rightarrow> bool" where
  "isspace c \<longleftrightarrow> c \<in> set [CHR '' '', CHR 0x09, CHR 0x0A, CHR 0x0B, CHR 0x0C, CHR 0x0D]"

definition isdigit :: "char \<Rightarrow> bool" where
  "isdigit c \<longleftrightarrow> 48 \<le> (of_char c :: nat) \<and> (of_char c :: nat) \<le> 57"

definition digit_val :: "char \<Rightarrow> int" where
  "digit_val c = int (of_char c) - 48"

fun digits_val :: "int \<Rightarrow> string \<Rightarrow> int" where
  "digits_val acc [] = acc"
| "digits_val acc (c # s) = (if isdigit c then digits_val (10 * acc + digit_val c) s else acc)"

text \<open>
  \<^verbatim>\<open>atoi\<close>: leading white space, an optional sign, digits; the value is that of
  \<^verbatim>\<open>(int) strtol(s, NULL, 10)\<close>, that is, clamped to 64 bits and then truncated to 32.
\<close>

definition clamp64 :: "int \<Rightarrow> int" where
  "clamp64 v = max (- (2 ^ 63)) (min (2 ^ 63 - 1) v)"

definition to_int32 :: "int \<Rightarrow> int" where
  "to_int32 v = sint (word_of_int v :: 32 word)"

fun strtol10 :: "string \<Rightarrow> int" where
  "strtol10 (c # s) =
     (if c = CHR ''-'' then clamp64 (- digits_val 0 s)
      else if c = CHR ''+'' then clamp64 (digits_val 0 s)
      else clamp64 (digits_val 0 (c # s)))"
| "strtol10 [] = 0"

definition atoi :: "string \<Rightarrow> int" where
  "atoi s = to_int32 (strtol10 (dropWhile isspace s))"

text \<open>
  \<^verbatim>\<open>fgets(buf, n, fp)\<close> repeated until end of file: each chunk holds at most \<open>n - 1\<close> characters and
  ends after a newline. \<open>fgets_lines\<close> gives the chunks of the rest of a file.
\<close>

fun fgets1 :: "nat \<Rightarrow> string \<Rightarrow> string \<times> string" where
  "fgets1 0 s = ([], s)"
| "fgets1 (Suc k) [] = ([], [])"
| "fgets1 (Suc k) (c # s) =
     (if c = CHR 0x0A then ([c], s) else (let (l, r) = fgets1 k s in (c # l, r)))"

lemma fgets1_append: "fgets1 k s = (l, r) \<Longrightarrow> s = l @ r"
  by (induction k s arbitrary: l r rule: fgets1.induct) (auto split: if_splits prod.splits)

lemma fgets1_length: "fgets1 k s = (l, r) \<Longrightarrow> length l \<le> k"
  by (induction k s arbitrary: l r rule: fgets1.induct) (auto split: if_splits prod.splits)

lemma fgets1_progress: "fgets1 (Suc k) (c # s) = (l, r) \<Longrightarrow> length r < length (c # s)"
  by (auto split: if_splits prod.splits dest!: fgets1_append)

function fgets_lines :: "nat \<Rightarrow> string \<Rightarrow> string list" where
  "fgets_lines n s =
     (if n < 2 \<or> s = [] then []
      else (let (l, r) = fgets1 (n - 1) s in l # fgets_lines n r))"
  by pat_completeness auto
termination
proof (relation "measure (\<lambda>(n, s). length s)", goal_cases)
  case (2 n s x xa y)
  then obtain k c t where "n - 1 = Suc k" "s = c # t"
    by (cases "n - 1"; cases s) auto
  with 2 show ?case using fgets1_progress [of k c t xa y] by simp
qed simp

declare fgets_lines.simps [simp del]

lemma fgets_lines_concat: "2 \<le> n \<Longrightarrow> concat (fgets_lines n s) = s"
proof (induction n s rule: fgets_lines.induct)
  case (1 n s)
  show ?case
  proof (cases "s = []")
    case False
    obtain l r where lr: "fgets1 (n - 1) s = (l, r)" by (cases "fgets1 (n - 1) s")
    have "concat (fgets_lines n r) = r"
      using 1 False lr by simp
    then have "concat (fgets_lines n s) = l @ r"
      using False 1(2) lr by (simp add: fgets_lines.simps [of n s])
    then show ?thesis using fgets1_append [OF lr] by simp
  qed (simp add: fgets_lines.simps [of n "[]"])
qed

lemma fgets_lines_short: "l \<in> set (fgets_lines n s) \<Longrightarrow> length l < n"
proof (induction n s rule: fgets_lines.induct)
  case (1 n s)
  then have ne: "\<not> (n < 2 \<or> s = [])" by (subst (asm) (2) fgets_lines.simps) (auto split: if_splits)
  obtain k r where lr: "fgets1 (n - 1) s = (k, r)" by (cases "fgets1 (n - 1) s")
  from 1(2) ne lr have "l = k \<or> l \<in> set (fgets_lines n r)"
    by (subst (asm) fgets_lines.simps) simp
  then show ?case
    using 1(1) [OF ne] lr ne fgets1_length [OF lr] by auto
qed

text \<open>A text whose lines all fit the buffer is read back line by line.\<close>

definition is_line :: "nat \<Rightarrow> string \<Rightarrow> bool" where
  "is_line n l \<longleftrightarrow> length l < n \<and> l \<noteq> [] \<and> last l = CHR 0x0A \<and> CHR 0x0A \<notin> set (butlast l)"

lemma fgets1_line:
  "length l \<le> k \<Longrightarrow> CHR 0x0A \<notin> set l \<Longrightarrow> fgets1 (Suc k) (l @ CHR 0x0A # s) = (l @ [CHR 0x0A], s)"
proof (induction l arbitrary: k)
  case (Cons c l)
  then show ?case by (cases k) auto
qed simp

lemma fgets_lines_Cons:
  assumes "is_line n l"
  shows "fgets_lines n (l @ s) = l # fgets_lines n s"
proof -
  from assms obtain m where l: "l = m @ [CHR 0x0A]" "CHR 0x0A \<notin> set m"
    by (metis append_butlast_last_id is_line_def)
  obtain k where n: "n = Suc (Suc k)" "length m \<le> k"
    using assms l by (cases n; cases "n - 1") (auto simp: is_line_def)
  show ?thesis
    using fgets1_line [OF n(2) l(2), of s] l n by (subst fgets_lines.simps) simp
qed

lemma fgets_lines_unlines: "list_all (is_line n) ls \<Longrightarrow> fgets_lines n (concat ls) = ls"
  by (induction ls) (simp_all add: fgets_lines_Cons fgets_lines.simps [of n "[]"])

text \<open>Decimal and hexadecimal output.\<close>

definition digit_char :: "nat \<Rightarrow> char" where
  "digit_char d = (if d < 10 then char_of (48 + d) else char_of (87 + d))"

fun nat_str :: "nat \<Rightarrow> nat \<Rightarrow> string" where
  "nat_str b n = (if b < 2 \<or> n < b then [digit_char n] else nat_str b (n div b) @ [digit_char (n mod b)])"

declare nat_str.simps [simp del]

definition dec :: "int \<Rightarrow> string" where
  "dec i = (if i < 0 then CHR ''-'' # nat_str 10 (nat (- i)) else nat_str 10 (nat i))"

definition hex :: "nat \<Rightarrow> string" where
  "hex n = nat_str 16 n"

lemma digit_char_props: "d < 10 \<Longrightarrow> isdigit (digit_char d) \<and> digit_val (digit_char d) = int d"
  by (simp add: digit_char_def isdigit_def digit_val_def of_char_of)

lemma nat_str_digits: "c \<in> set (nat_str 10 n) \<Longrightarrow> isdigit c"
proof (induction n rule: less_induct)
  case (less n)
  show ?case
  proof (cases "n < 10")
    case True
    with less.prems show ?thesis by (simp add: nat_str.simps [of 10 n] digit_char_props)
  next
    case False
    with less.prems have "c \<in> set (nat_str 10 (n div 10)) \<or> c = digit_char (n mod 10)"
      by (subst (asm) nat_str.simps) auto
    with less.IH [of "n div 10"] False show ?thesis by (auto simp: digit_char_props)
  qed
qed

lemma digits_val_append:
  "list_all isdigit s \<Longrightarrow> digits_val a (s @ t) = digits_val (digits_val a s) t"
  by (induction s arbitrary: a) auto

lemma digits_val_stop: "t = [] \<or> \<not> isdigit (hd t) \<Longrightarrow> digits_val a t = a"
  by (cases t) auto

lemma digits_val_nat_str: "digits_val 0 (nat_str 10 n) = int n"
proof (induction n rule: less_induct)
  case (less n)
  show ?case
  proof (cases "n < 10")
    case True
    then show ?thesis by (simp add: nat_str.simps [of 10 n] digit_char_props)
  next
    case False
    then have "digits_val 0 (nat_str 10 n) = 10 * int (n div 10) + int (n mod 10)"
      using less.IH [of "n div 10"] nat_str_digits
      by (subst nat_str.simps) (simp add: digits_val_append list_all_iff digit_char_props)
    then show ?thesis by presburger
  qed
qed

lemma nat_str_Cons: "\<exists>c s. nat_str b n = c # s"
  by (subst nat_str.simps) (simp add: neq_Nil_conv [symmetric])

text \<open>\<^verbatim>\<open>atoi\<close> reads back what \<open>%d\<close> printed, whatever follows the digits.\<close>

lemma atoi_dec:
  assumes "n < 2 ^ 31" "t = [] \<or> \<not> isdigit (hd t)"
  shows "atoi (nat_str 10 n @ t) = int n"
proof -
  obtain c s where cs: "nat_str 10 n = c # s" using nat_str_Cons by blast
  then have c: "isdigit c" using nat_str_digits [of c n] by simp
  then have sp: "\<not> isspace c" "c \<noteq> CHR ''-''" "c \<noteq> CHR ''+''"
    by (auto simp: isspace_def isdigit_def)
  have "digits_val 0 (nat_str 10 n @ t) = int n"
    using assms(2) nat_str_digits by (simp add: digits_val_append list_all_iff digits_val_nat_str digits_val_stop)
  with cs have v: "digits_val 0 (c # s @ t) = int n" by simp
  have "atoi (nat_str 10 n @ t) = to_int32 (clamp64 (int n))"
    unfolding atoi_def cs using sp v by (simp del: digits_val.simps)
  moreover have "to_int32 (int n) = int n"
    using assms(1) unfolding to_int32_def int_word_sint by simp
  moreover have "clamp64 (int n) = int n" using assms(1) by (simp add: clamp64_def)
  ultimately show ?thesis by simp
qed

text \<open>\<open>%0wd\<close> and \<open>%0wx\<close>: padding with zeros on the left (after the sign).\<close>

definition pad0 :: "nat \<Rightarrow> string \<Rightarrow> string" where
  "pad0 w s = (case s of
       c # r \<Rightarrow> if c = CHR ''-'' then c # replicate (w - length s) CHR ''0'' @ r
               else replicate (w - length s) CHR ''0'' @ s
     | [] \<Rightarrow> replicate w CHR ''0'')"

section \<open>Lists\<close>

lemma filter_update_count:
  assumes "i < length xs"
  shows "length (filter P (xs[i := y])) + (if P (xs ! i) then 1 else 0)
       = length (filter P xs) + (if P y then 1 else 0)"
  using assms
proof (induction xs arbitrary: i)
  case (Cons x xs)
  then show ?case by (cases i) auto
qed simp

lemma remove1_notin_distinct: "distinct xs \<Longrightarrow> x \<notin> set (remove1 x xs)"
  by simp

end
