(* ===== verification/Fms_Ring.thy ===== *)
theory Fms_Ring
  imports Fms_Prelude
begin

text \<open>
  The bounded ring of \<^verbatim>\<open>include/fmd_ring.h\<close>: the queue every event travels through, from the event
  sources to the dispatcher and from the dispatcher to each agent. The ring is modelled with its
  index arithmetic; its contract is a bounded FIFO, stated as the locale \<open>bounded_fifo\<close> and proved
  for the code by the interpretation \<open>ring\<close>.
\<close>

section \<open>The contract: a bounded FIFO with C return codes\<close>

locale bounded_fifo =
  fixes empty :: "'q"
    and enq :: "'q \<Rightarrow> 'a \<Rightarrow> int \<times> 'q"
    and deq :: "'q \<Rightarrow> 'a option \<times> 'q"
    and stat :: "'q \<Rightarrow> int"
    and cap :: nat
    and abs :: "'q \<Rightarrow> 'a list"
    and invar :: "'q \<Rightarrow> bool"
  assumes invar_empty: "invar empty"
    and abs_empty: "abs empty = []"
    and abs_bound: "invar q \<Longrightarrow> length (abs q) \<le> cap"
    and stat_abs: "invar q \<Longrightarrow> stat q = int (length (abs q))"
    and enq_ok: "invar q \<Longrightarrow> length (abs q) < cap \<Longrightarrow>
       fst (enq q x) = 0 \<and> invar (snd (enq q x)) \<and> abs (snd (enq q x)) = abs q @ [x]"
    and enq_full: "invar q \<Longrightarrow> length (abs q) = cap \<Longrightarrow> enq q x = (-1, q)"
    and deq_ok: "invar q \<Longrightarrow> abs q = x # xs \<Longrightarrow>
       fst (deq q) = Some x \<and> invar (snd (deq q)) \<and> abs (snd (deq q)) = xs"
    and deq_empty: "invar q \<Longrightarrow> abs q = [] \<Longrightarrow> deq q = (None, q)"
begin

lemma enq_cases:
  assumes "invar q"
  obtains (ok) "length (abs q) < cap" "fst (enq q x) = 0" "invar (snd (enq q x))"
      "abs (snd (enq q x)) = abs q @ [x]"
  | (full) "length (abs q) = cap" "enq q x = (-1, q)"
  using assms abs_bound [OF assms] enq_ok [OF assms] enq_full [OF assms]
  by (metis nat_less_le)

lemma invar_enq: "invar q \<Longrightarrow> invar (snd (enq q x))"
  by (rule enq_cases) auto

lemma invar_deq: "invar q \<Longrightarrow> invar (snd (deq q))"
  by (cases "abs q") (auto simp: deq_empty deq_ok)

text \<open>Draining: dequeue \<open>n\<close> times and collect what came out.\<close>

primrec drain :: "nat \<Rightarrow> 'q \<Rightarrow> 'a option list \<times> 'q" where
  "drain 0 q = ([], q)"
| "drain (Suc n) q = (let (x, q1) = deq q; (xs, q2) = drain n q1 in (x # xs, q2))"

lemma drain_abs:
  "invar q \<Longrightarrow> n \<le> length (abs q) \<Longrightarrow>
     fst (drain n q) = map Some (take n (abs q)) \<and> abs (snd (drain n q)) = drop n (abs q) \<and>
     invar (snd (drain n q))"
proof (induction n arbitrary: q)
  case (Suc n)
  then obtain x xs where q: "abs q = x # xs" by (cases "abs q") auto
  obtain y q1 where d: "deq q = (y, q1)" by (cases "deq q")
  from deq_ok [OF Suc.prems(1) q] d have y: "y = Some x" "invar q1" "abs q1 = xs" by auto
  with Suc.IH [of q1] Suc.prems(2) q d show ?case
    by (auto simp: split_beta Let_def)
qed simp

text \<open>Filling: enqueue a whole list, stopping nowhere; the return codes are kept.\<close>

primrec fill :: "'a list \<Rightarrow> 'q \<Rightarrow> int list \<times> 'q" where
  "fill [] q = ([], q)"
| "fill (x # xs) q = (let (r, q1) = enq q x; (rs, q2) = fill xs q1 in (r # rs, q2))"

lemma fill_abs:
  "invar q \<Longrightarrow> length (abs q) + length xs \<le> cap \<Longrightarrow>
     fst (fill xs q) = replicate (length xs) 0 \<and> invar (snd (fill xs q)) \<and>
     abs (snd (fill xs q)) = abs q @ xs"
proof (induction xs arbitrary: q)
  case (Cons x xs)
  obtain r q1 where e: "enq q x = (r, q1)" by (cases "enq q x")
  from enq_ok [OF Cons.prems(1), of x] Cons.prems(2) e
  have "r = 0" "invar q1" "abs q1 = abs q @ [x]" by auto
  with Cons.IH [of q1] Cons.prems(2) e show ?case
    by (auto simp: split_beta Let_def)
qed simp

lemma fill_drain:
  assumes "invar q" "length (abs q) + length xs \<le> cap"
  shows "fst (drain (length (abs q) + length xs) (snd (fill xs q))) = map Some (abs q @ xs)"
  using fill_abs [OF assms] drain_abs [of "snd (fill xs q)" "length (abs q) + length xs"] by simp

end

section \<open>The code: \<^verbatim>\<open>include/fmd_ring.h\<close>\<close>

definition RING_SIZE :: int where
  "RING_SIZE = 128"

text \<open>
  \<^verbatim>\<open>ring_t\<close>: the two semaphores by their values, and the indices of the circular array. A slot is
  \<open>None\<close> when it holds a null pointer.
\<close>

record 'a ring_t =
  ring_contain :: nat
  ring_vaild :: nat
  front :: int
  rear :: int
  count :: int
  ring_item :: "'a option list"

definition ring_init :: "'a ring_t" where
  "ring_init = \<lparr>ring_contain = 0, ring_vaild = nat RING_SIZE, front = 0, rear = 0, count = 0,
     ring_item = replicate (nat RING_SIZE) None\<rparr>"

definition ring_stat :: "'a ring_t \<Rightarrow> int" where
  "ring_stat ring = count ring"

definition ring_add :: "'a ring_t \<Rightarrow> 'a \<Rightarrow> int \<times> 'a ring_t" where
  "ring_add ring p =
     (if ring_stat ring = RING_SIZE then (-1, ring)
      else (0, ring\<lparr>ring_item := (ring_item ring)[nat (rear ring) := Some p],
                     rear := (rear ring + 1) mod RING_SIZE,
                     count := count ring + 1\<rparr>))"

definition ring_del :: "'a ring_t \<Rightarrow> 'a option \<times> 'a ring_t" where
  "ring_del ring =
     (if ring_stat ring = 0 then (None, ring)
      else let cur_pos = front ring in
        (ring_item ring ! nat cur_pos,
         ring\<lparr>front := (front ring + 1) mod RING_SIZE, count := count ring - 1\<rparr>))"

section \<open>Representation\<close>

definition slot :: "'a ring_t \<Rightarrow> nat \<Rightarrow> 'a option" where
  "slot r i = ring_item r ! nat ((front r + int i) mod RING_SIZE)"

definition ring_abs :: "'a ring_t \<Rightarrow> 'a list" where
  "ring_abs r = map (\<lambda>i. the (slot r i)) [0..<nat (count r)]"

definition ring_inv :: "'a ring_t \<Rightarrow> bool" where
  "ring_inv r \<longleftrightarrow> length (ring_item r) = nat RING_SIZE \<and>
     0 \<le> front r \<and> front r < RING_SIZE \<and> 0 \<le> count r \<and> count r \<le> RING_SIZE \<and>
     rear r = (front r + count r) mod RING_SIZE \<and>
     list_all (\<lambda>i. slot r i \<noteq> None) [0..<nat (count r)]"

lemma ring_inv_slot: "ring_inv r \<Longrightarrow> i < nat (count r) \<Longrightarrow> slot r i \<noteq> None"
  by (auto simp: ring_inv_def list_all_iff)

lemma mod_add_shift: "((a + 1) mod m + b) mod m = (a + (b + 1)) mod (m :: int)"
  using mod_add_left_eq [of "a + 1" m b] by (simp add: add.assoc add.commute [of 1])

text \<open>Two live slots are different cells as long as their distance is less than the size.\<close>

lemma slot_index_inj:
  assumes "i < 128" "j < 128" "(f + int i) mod 128 = (f + int j) mod 128"
  shows "i = j"
proof -
  have "(int i - int j) mod 128 = 0"
    using assms(3) by (metis add_diff_cancel_left mod_diff_cong diff_self mod_0)
  then have "128 dvd (int i - int j)" by (simp add: dvd_eq_mod_eq_0)
  then have "int i - int j = 0"
    using dvd_imp_le_int [of "int i - int j" 128] assms(1,2) by linarith
  then show ?thesis by simp
qed

lemma slot_ring_add_old:
  assumes "ring_inv r" "count r \<noteq> RING_SIZE" "i < nat (count r)"
  shows "slot (snd (ring_add r x)) i = slot r i"
proof -
  have "(front r + int i) mod 128 \<noteq> (front r + int (nat (count r))) mod 128"
    using assms slot_index_inj [of i "nat (count r)" "front r"]
    by (fastforce simp: ring_inv_def RING_SIZE_def)
  then have "nat ((front r + int i) mod 128) \<noteq> nat (rear r)"
    using assms(1) by (auto simp: ring_inv_def RING_SIZE_def nat_eq_iff)
  then show ?thesis
    using assms(2) by (simp add: slot_def ring_add_def ring_stat_def RING_SIZE_def)
qed

lemma slot_ring_add_new:
  assumes "ring_inv r" "count r \<noteq> RING_SIZE"
  shows "slot (snd (ring_add r x)) (nat (count r)) = Some x"
  using assms by (simp add: slot_def ring_add_def ring_stat_def ring_inv_def RING_SIZE_def nat_less_iff)

lemma slot_ring_del:
  assumes "count r \<noteq> 0"
  shows "slot (snd (ring_del r)) i = slot r (Suc i)"
proof -
  have "((front r + 1) mod 128 + int i) mod 128 = (front r + int (Suc i)) mod 128"
    using mod_add_shift [of "front r" 128 "int i"] by (simp add: add.commute)
  then show ?thesis
    using assms by (simp add: slot_def ring_del_def ring_stat_def RING_SIZE_def Let_def)
qed

lemma ring_inv_init: "ring_inv (ring_init :: 'a ring_t)"
  by (simp add: ring_inv_def ring_init_def RING_SIZE_def)

lemma count_ring_add: "count r \<noteq> RING_SIZE \<Longrightarrow> count (snd (ring_add r x)) = count r + 1"
  by (simp add: ring_add_def ring_stat_def)

lemma count_ring_del: "count r \<noteq> 0 \<Longrightarrow> count (snd (ring_del r)) = count r - 1"
  by (simp add: ring_del_def ring_stat_def Let_def)

lemma ring_add_inv:
  assumes "ring_inv r"
  shows "ring_inv (snd (ring_add r x))"
proof (cases "count r = RING_SIZE")
  case True
  with assms show ?thesis by (simp add: ring_add_def ring_stat_def)
next
  case False
  have c: "0 \<le> count r" using assms by (simp add: ring_inv_def)
  have "slot (snd (ring_add r x)) i \<noteq> None" if "i < nat (count r + 1)" for i
    using that c slot_ring_add_old [OF assms False, of i x] slot_ring_add_new [OF assms False, of x]
      ring_inv_slot [OF assms, of i]
    by (cases "i = nat (count r)") auto
  moreover have "(rear r + 1) mod RING_SIZE = (front r + (count r + 1)) mod RING_SIZE"
    using assms mod_add_left_eq [of "front r + count r" RING_SIZE 1] by (simp add: ring_inv_def add.assoc)
  ultimately show ?thesis
    using assms False
    by (auto simp: ring_inv_def list_all_iff count_ring_add) (auto simp: ring_add_def ring_stat_def RING_SIZE_def)
qed

lemma ring_del_inv:
  assumes "ring_inv r"
  shows "ring_inv (snd (ring_del r))"
proof (cases "count r = 0")
  case True
  with assms show ?thesis by (simp add: ring_del_def ring_stat_def)
next
  case False
  have "slot (snd (ring_del r)) i \<noteq> None" if "i < nat (count r - 1)" for i
    using that slot_ring_del [OF False, of i] ring_inv_slot [OF assms, of "Suc i"] by auto
  moreover have "rear r = ((front r + 1) mod RING_SIZE + (count r - 1)) mod RING_SIZE"
    using assms mod_add_shift [of "front r" RING_SIZE "count r - 1"] by (simp add: ring_inv_def)
  ultimately show ?thesis
    using assms False
    by (auto simp: ring_inv_def list_all_iff count_ring_del)
      (auto simp: ring_del_def ring_stat_def Let_def RING_SIZE_def)
qed

lemma ring_abs_length: "ring_inv r \<Longrightarrow> length (ring_abs r) = nat (count r)"
  by (simp add: ring_abs_def)

lemma ring_abs_add:
  assumes "ring_inv r" "count r \<noteq> RING_SIZE"
  shows "ring_abs (snd (ring_add r x)) = ring_abs r @ [x]"
proof -
  have "nat (count r + 1) = Suc (nat (count r))"
    using assms(1) by (simp add: ring_inv_def nat_add_distrib)
  then show ?thesis
    using assms slot_ring_add_old [OF assms] slot_ring_add_new [OF assms]
    by (simp add: ring_abs_def count_ring_add)
qed

lemma ring_abs_del:
  assumes "ring_inv r" "ring_abs r = x # xs"
  shows "fst (ring_del r) = Some x \<and> ring_abs (snd (ring_del r)) = xs"
proof -
  have n: "nat (count r) = Suc (length xs)" using ring_abs_length [OF assms(1)] assms(2) by simp
  then have c: "count r \<noteq> 0" "nat (count r - 1) = length xs" by auto
  have s0: "the (slot r 0) = x" "map (\<lambda>i. the (slot r (Suc i))) [0..<length xs] = xs"
    using assms(2) by (simp_all add: ring_abs_def n upt_conv_Cons map_Suc_upt [symmetric] comp_def
        del: upt_Suc map_Suc_upt)
  moreover have "fst (ring_del r) = slot r 0"
    using c assms(1) by (simp add: ring_del_def ring_stat_def slot_def ring_inv_def Let_def)
  moreover have "slot r 0 \<noteq> None" using ring_inv_slot [OF assms(1), of 0] n by simp
  ultimately show ?thesis
    using c by (auto simp: ring_abs_def count_ring_del slot_ring_del)
qed

interpretation ring: bounded_fifo ring_init ring_add ring_del ring_stat "nat RING_SIZE" ring_abs ring_inv
proof (unfold_locales, goal_cases)
  case 1 show ?case by (rule ring_inv_init)
next
  case 2 show ?case by (simp add: ring_abs_def ring_init_def)
next
  case (3 q) then show ?case by (simp add: ring_abs_length) (simp add: ring_inv_def nat_mono)
next
  case (4 q) then show ?case by (simp add: ring_abs_length ring_stat_def) (simp add: ring_inv_def)
next
  case (5 q x)
  then have "count q \<noteq> RING_SIZE" by (auto simp: ring_abs_length RING_SIZE_def)
  with 5 show ?case by (simp add: ring_add_inv ring_abs_add) (simp add: ring_add_def ring_stat_def)
next
  case (6 q x)
  then have "count q = RING_SIZE" by (simp add: ring_abs_length RING_SIZE_def ring_inv_def)
  then show ?case by (simp add: ring_add_def ring_stat_def)
next
  case (7 q x xs) then show ?case by (simp add: ring_abs_del ring_del_inv)
next
  case (8 q)
  then have "count q = 0" using ring_abs_length [of q] by (auto simp: ring_inv_def)
  then show ?case by (simp add: ring_del_def ring_stat_def)
qed

end
