(* ===== verification/Fms_Channel.thy ===== *)
theory Fms_Channel
  imports Fms_Ring
begin

text \<open>
  The concurrent use of a ring. Event sources hand events to the dispatcher
  (\<^verbatim>\<open>fmd_queue_dispatch\<close> of \<^verbatim>\<open>evt_src.c\<close>) and the dispatcher hands them to agents
  (\<^verbatim>\<open>put_to_agent\<close> of \<^verbatim>\<open>fmd_queue.c\<close>) by the same producer sequence; the dispatcher
  (\<^verbatim>\<open>queue_start\<close>) and each agent (\<^verbatim>\<open>do_agent\<close>) take them out by the same consumer sequence.
  The sequences are modelled twice: as functions, for the handlers that call them in one go, and as
  an interleaving step relation over any number of threads, one step per semaphore, mutex or ring
  operation.
\<close>

section \<open>The sequences run without interruption\<close>

text \<open>\<^verbatim>\<open>put_to_agent\<close>: wait for room, add under the lock, post.\<close>

definition put_to_agent :: "'a ring_t \<Rightarrow> 'a \<Rightarrow> 'a ring_t res" where
  "put_to_agent ring event =
     (if ring_vaild ring = 0 then Inl Would_block
      else let ring1 = ring\<lparr>ring_vaild := ring_vaild ring - 1\<rparr>;
               ring2 = snd (ring_add ring1 event)
           in Inr (ring2\<lparr>ring_contain := ring_contain ring2 + 1\<rparr>))"

text \<open>\<^verbatim>\<open>fmd_queue_dispatch\<close>: the same sequence on the dispatcher's ring.\<close>

definition fmd_queue_dispatch :: "'a ring_t \<Rightarrow> 'a \<Rightarrow> 'a ring_t res" where
  "fmd_queue_dispatch ring pevt =
     (if ring_vaild ring = 0 then Inl Would_block
      else let ring1 = ring\<lparr>ring_vaild := ring_vaild ring - 1\<rparr>;
               ring2 = snd (ring_add ring1 pevt)
           in Inr (ring2\<lparr>ring_contain := ring_contain ring2 + 1\<rparr>))"

text \<open>The consumer sequence shared by the loops of \<^verbatim>\<open>queue_start\<close> and \<^verbatim>\<open>do_agent\<close>.\<close>

definition ring_take :: "'a ring_t \<Rightarrow> ('a option \<times> 'a ring_t) res" where
  "ring_take ring =
     (if ring_contain ring = 0 then Inl Would_block
      else let ring1 = ring\<lparr>ring_contain := ring_contain ring - 1\<rparr>;
               (evt, ring2) = ring_del ring1
           in Inr (evt, ring2\<lparr>ring_vaild := ring_vaild ring2 + 1\<rparr>))"

text \<open>A ring no thread is in the middle of: the semaphores agree with the count.\<close>

definition ring_quiet :: "'a ring_t \<Rightarrow> bool" where
  "ring_quiet r \<longleftrightarrow> ring_inv r \<and> ring_contain r = nat (count r) \<and>
     ring_vaild r + nat (count r) = nat RING_SIZE"

lemma ring_inv_sem [simp]:
  "ring_inv (r\<lparr>ring_vaild := v\<rparr>) = ring_inv r" "ring_inv (r\<lparr>ring_contain := c\<rparr>) = ring_inv r"
  "ring_abs (r\<lparr>ring_vaild := v\<rparr>) = ring_abs r" "ring_abs (r\<lparr>ring_contain := c\<rparr>) = ring_abs r"
  by (simp_all add: ring_inv_def ring_abs_def slot_def)

lemma ring_add_sem [simp]:
  "ring_vaild (snd (ring_add r x)) = ring_vaild r" "ring_contain (snd (ring_add r x)) = ring_contain r"
  by (simp_all add: ring_add_def)

lemma ring_del_sem [simp]:
  "ring_vaild (snd (ring_del r)) = ring_vaild r" "ring_contain (snd (ring_del r)) = ring_contain r"
  by (simp_all add: ring_del_def Let_def)

lemma ring_quiet_init: "ring_quiet (ring_init :: 'a ring_t)"
  by (simp add: ring_quiet_def ring_inv_init) (simp add: ring_init_def RING_SIZE_def)

lemma ring_quiet_len: "ring_quiet r \<Longrightarrow> length (ring_abs r) = nat (count r)"
  by (simp add: ring_quiet_def ring_abs_length)

lemma put_to_agent_ok:
  assumes "ring_quiet r" "length (ring_abs r) < nat RING_SIZE"
  obtains r' where "put_to_agent r x = Inr r'" "ring_quiet r'" "ring_abs r' = ring_abs r @ [x]"
proof -
  let ?r1 = "r\<lparr>ring_vaild := ring_vaild r - 1\<rparr>"
  let ?r' = "snd (ring_add ?r1 x)\<lparr>ring_contain := ring_contain r + 1\<rparr>"
  have c: "count r \<noteq> RING_SIZE" "0 \<le> count r" "ring_vaild r \<noteq> 0"
    using assms by (auto simp: ring_quiet_len ring_quiet_def ring_inv_def)
  have i: "ring_inv ?r1" using assms(1) by (simp add: ring_quiet_def)
  have "put_to_agent r x = Inr ?r'" using c by (simp add: put_to_agent_def Let_def)
  moreover have "ring_abs ?r' = ring_abs r @ [x]"
    using ring_abs_add [OF i, of x] c by simp
  moreover have "ring_vaild r - 1 + Suc (nat (count r)) = nat RING_SIZE"
    using assms(1) c unfolding ring_quiet_def by linarith
  with assms(1) c have "ring_quiet ?r'"
    using ring_add_inv [OF i, of x] by (simp add: ring_quiet_def count_ring_add nat_add_distrib)
  ultimately show ?thesis using that by blast
qed

lemma put_to_agent_full:
  "ring_quiet r \<Longrightarrow> length (ring_abs r) = nat RING_SIZE \<Longrightarrow> put_to_agent r x = Inl Would_block"
  by (simp add: put_to_agent_def ring_quiet_len) (simp add: ring_quiet_def)

lemma fmd_queue_dispatch_eq: "fmd_queue_dispatch = put_to_agent"
  by (simp add: fun_eq_iff fmd_queue_dispatch_def put_to_agent_def)

lemma ring_take_ok:
  assumes "ring_quiet r" "ring_abs r = x # xs"
  obtains r' where "ring_take r = Inr (Some x, r')" "ring_quiet r'" "ring_abs r' = xs"
proof -
  let ?r1 = "r\<lparr>ring_contain := ring_contain r - 1\<rparr>"
  let ?r' = "snd (ring_del ?r1)\<lparr>ring_vaild := ring_vaild r + 1\<rparr>"
  have n: "nat (count r) = Suc (length xs)" using assms ring_quiet_len [OF assms(1)] by simp
  then have c: "count r \<noteq> 0" "ring_contain r \<noteq> 0" using assms(1) by (auto simp: ring_quiet_def)
  have i: "ring_inv ?r1" "ring_abs ?r1 = x # xs" using assms by (simp_all add: ring_quiet_def)
  have "ring_take r = Inr (Some x, ?r')"
    using c ring_abs_del [OF i] by (simp add: ring_take_def split_beta Let_def)
  moreover have "ring_quiet ?r'"
    using assms(1) c n ring_del_inv [OF i(1)] by (simp add: ring_quiet_def count_ring_del nat_diff_distrib)
  ultimately show ?thesis using that ring_abs_del [OF i] by simp
qed

lemma ring_take_empty:
  "ring_quiet r \<Longrightarrow> ring_abs r = [] \<Longrightarrow> ring_take r = Inl Would_block"
  using ring_quiet_len [of r] by (simp add: ring_take_def ring_quiet_def)

section \<open>The sequences interleaved\<close>

text \<open>
  A thread's program counter names the statement it executes next. The producer's return code of
  \<^verbatim>\<open>ring_add\<close> is kept (the sources ignore it) and so is the pointer \<^verbatim>\<open>ring_del\<close> gave.
\<close>

datatype 'a pc =
    Idle
  | P_wait 'a | P_lock 'a | P_add 'a | P_unlock int | P_post
  | C_stat | C_wait | C_lock | C_del | C_unlock "'a option" | C_post

text \<open>
  \<open>added\<close> and \<open>taken\<close> record, for the statements below only, what was put into and taken out of the
  ring so far.
\<close>

record 'a chan =
  ch_ring :: "'a ring_t"
  ch_lock :: "nat option"
  ch_pcs :: "'a pc list"
  ch_added :: "'a list"
  ch_taken :: "'a list"

definition chan_init :: "nat \<Rightarrow> 'a chan" where
  "chan_init n = \<lparr>ch_ring = ring_init, ch_lock = None, ch_pcs = replicate n Idle,
     ch_added = [], ch_taken = []\<rparr>"

definition goto :: "nat \<Rightarrow> 'a pc \<Rightarrow> 'a chan \<Rightarrow> 'a chan" where
  "goto i p s = s\<lparr>ch_pcs := (ch_pcs s)[i := p]\<rparr>"

definition at :: "'a chan \<Rightarrow> nat \<Rightarrow> 'a pc \<Rightarrow> bool" where
  "at s i p \<longleftrightarrow> i < length (ch_pcs s) \<and> ch_pcs s ! i = p"

inductive chan_step :: "'a chan \<Rightarrow> 'a chan \<Rightarrow> bool" where
  produce: "at s i Idle \<Longrightarrow> chan_step s (goto i (P_wait x) s)"
| p_wait: "at s i (P_wait x) \<Longrightarrow> 0 < ring_vaild (ch_ring s) \<Longrightarrow>
    chan_step s (goto i (P_lock x) (s\<lparr>ch_ring := (ch_ring s)\<lparr>ring_vaild := ring_vaild (ch_ring s) - 1\<rparr>\<rparr>))"
| p_lock: "at s i (P_lock x) \<Longrightarrow> ch_lock s = None \<Longrightarrow>
    chan_step s (goto i (P_add x) (s\<lparr>ch_lock := Some i\<rparr>))"
| p_add: "at s i (P_add x) \<Longrightarrow> ring_add (ch_ring s) x = (rc, r) \<Longrightarrow>
    chan_step s (goto i (P_unlock rc)
      (s\<lparr>ch_ring := r, ch_added := ch_added s @ (if rc = 0 then [x] else [])\<rparr>))"
| p_unlock: "at s i (P_unlock rc) \<Longrightarrow> chan_step s (goto i P_post (s\<lparr>ch_lock := None\<rparr>))"
| p_post: "at s i P_post \<Longrightarrow>
    chan_step s (goto i Idle (s\<lparr>ch_ring := (ch_ring s)\<lparr>ring_contain := ring_contain (ch_ring s) + 1\<rparr>\<rparr>))"
| consume: "at s i Idle \<Longrightarrow> chan_step s (goto i C_stat s)"
| c_stat: "at s i C_stat \<Longrightarrow>
    chan_step s (goto i (if ring_stat (ch_ring s) \<noteq> 0 then C_wait else Idle) s)"
| c_wait: "at s i C_wait \<Longrightarrow> 0 < ring_contain (ch_ring s) \<Longrightarrow>
    chan_step s (goto i C_lock (s\<lparr>ch_ring := (ch_ring s)\<lparr>ring_contain := ring_contain (ch_ring s) - 1\<rparr>\<rparr>))"
| c_lock: "at s i C_lock \<Longrightarrow> ch_lock s = None \<Longrightarrow>
    chan_step s (goto i C_del (s\<lparr>ch_lock := Some i\<rparr>))"
| c_del: "at s i C_del \<Longrightarrow> ring_del (ch_ring s) = (p, r) \<Longrightarrow>
    chan_step s (goto i (C_unlock p)
      (s\<lparr>ch_ring := r, ch_taken := ch_taken s @ (case p of None \<Rightarrow> [] | Some x \<Rightarrow> [x])\<rparr>))"
| c_unlock: "at s i (C_unlock p) \<Longrightarrow> chan_step s (goto i C_post (s\<lparr>ch_lock := None\<rparr>))"
| c_post: "at s i C_post \<Longrightarrow>
    chan_step s (goto i Idle (s\<lparr>ch_ring := (ch_ring s)\<lparr>ring_vaild := ring_vaild (ch_ring s) + 1\<rparr>\<rparr>))"

inductive chan_reach :: "nat \<Rightarrow> 'a chan \<Rightarrow> bool" for n where
  start: "chan_reach n (chan_init n)"
| step: "chan_reach n s \<Longrightarrow> chan_step s t \<Longrightarrow> chan_reach n t"

section \<open>The invariant\<close>

definition cnt :: "('a pc \<Rightarrow> bool) \<Rightarrow> 'a chan \<Rightarrow> int" where
  "cnt P s = int (length (filter P (ch_pcs s)))"

definition in_lock :: "'a pc \<Rightarrow> bool" where
  "in_lock p \<longleftrightarrow> (case p of P_add _ \<Rightarrow> True | P_unlock _ \<Rightarrow> True | C_del \<Rightarrow> True | C_unlock _ \<Rightarrow> True | _ \<Rightarrow> False)"

definition has_slot :: "'a pc \<Rightarrow> bool" where
  "has_slot p \<longleftrightarrow> (case p of P_lock _ \<Rightarrow> True | P_add _ \<Rightarrow> True | C_unlock _ \<Rightarrow> True | C_post \<Rightarrow> True | _ \<Rightarrow> False)"

definition has_item :: "'a pc \<Rightarrow> bool" where
  "has_item p \<longleftrightarrow> (case p of P_unlock _ \<Rightarrow> True | P_post \<Rightarrow> True | C_lock \<Rightarrow> True | C_del \<Rightarrow> True | _ \<Rightarrow> False)"

definition pc_ok :: "'a pc \<Rightarrow> bool" where
  "pc_ok p \<longleftrightarrow> (case p of P_unlock rc \<Rightarrow> rc = 0 | C_unlock x \<Rightarrow> x \<noteq> None | _ \<Rightarrow> True)"

lemmas pc_class_defs = in_lock_def has_slot_def has_item_def pc_ok_def

text \<open>The mutex is held by exactly the thread that is inside the critical section.\<close>

definition lock_ok :: "nat option \<Rightarrow> 'a pc list \<Rightarrow> bool" where
  "lock_ok l ps \<longleftrightarrow> (\<forall>i < length ps. in_lock (ps ! i) \<longleftrightarrow> l = Some i) \<and>
     (case l of None \<Rightarrow> True | Some i \<Rightarrow> i < length ps)"

definition chan_inv :: "'a chan \<Rightarrow> bool" where
  "chan_inv s \<longleftrightarrow> ring_inv (ch_ring s) \<and>
     lock_ok (ch_lock s) (ch_pcs s) \<and>
     int (ring_vaild (ch_ring s)) + cnt has_slot s + count (ch_ring s) = RING_SIZE \<and>
     int (ring_contain (ch_ring s)) + cnt has_item s = count (ch_ring s) \<and>
     list_all pc_ok (ch_pcs s) \<and>
     ch_added s = ch_taken s @ ring_abs (ch_ring s)"

lemma goto_simps [simp]:
  "ch_ring (goto i p s) = ch_ring s" "ch_lock (goto i p s) = ch_lock s"
  "ch_added (goto i p s) = ch_added s" "ch_taken (goto i p s) = ch_taken s"
  "ch_pcs (goto i p s) = (ch_pcs s)[i := p]"
  by (simp_all add: goto_def)

lemma cnt_goto:
  assumes "at s i p"
  shows "cnt P (goto i q s) = cnt P s - (if P p then 1 else 0) + (if P q then 1 else 0)"
  using filter_update_count [of i "ch_pcs s" P q] assms
  by (auto simp: cnt_def goto_def at_def split: if_splits)

lemma cnt_field [simp]:
  "cnt P (s\<lparr>ch_ring := r\<rparr>) = cnt P s" "cnt P (s\<lparr>ch_lock := l\<rparr>) = cnt P s"
  "cnt P (s\<lparr>ch_ring := r, ch_added := a\<rparr>) = cnt P s" "cnt P (s\<lparr>ch_ring := r, ch_taken := a\<rparr>) = cnt P s"
  by (simp_all add: cnt_def)

lemma at_field [simp]:
  "at (s\<lparr>ch_ring := r\<rparr>) i p = at s i p" "at (s\<lparr>ch_lock := l\<rparr>) i p = at s i p"
  "at (s\<lparr>ch_ring := r, ch_added := a\<rparr>) i p = at s i p" "at (s\<lparr>ch_ring := r, ch_taken := a\<rparr>) i p = at s i p"
  by (simp_all add: at_def)

lemma cnt_nonneg: "0 \<le> cnt P s"
  by (simp add: cnt_def)

lemma cnt_pos: "at s i p \<Longrightarrow> P p \<Longrightarrow> 1 \<le> cnt P s"
  by (force simp: cnt_def at_def filter_empty_conv Suc_le_eq)

lemma chan_inv_add:
  assumes "chan_inv s" "at s i (P_add x)"
  shows "count (ch_ring s) \<noteq> RING_SIZE"
  using assms cnt_pos [OF assms(2), of has_slot] by (simp add: chan_inv_def has_slot_def)

lemma chan_inv_del:
  assumes "chan_inv s" "at s i C_del"
  shows "ring_abs (ch_ring s) \<noteq> []"
proof -
  have "1 \<le> count (ch_ring s)"
    using assms cnt_pos [OF assms(2), of has_item] by (simp add: chan_inv_def has_item_def)
  then show ?thesis using assms(1) ring_abs_length [of "ch_ring s"] by (auto simp: chan_inv_def)
qed

text \<open>A thread that moves without touching the lock, or that takes or releases it.\<close>

lemma lock_goto:
  assumes "lock_ok (ch_lock s) (ch_pcs s)" "at s i p" "in_lock q = in_lock p"
  shows "lock_ok (ch_lock s) ((ch_pcs s)[i := q])"
  using assms by (auto simp: lock_ok_def at_def nth_list_update split: option.splits)

lemma lock_take:
  assumes "lock_ok (ch_lock s) (ch_pcs s)" "at s i p" "in_lock q" "ch_lock s = None"
  shows "lock_ok (Some i) ((ch_pcs s)[i := q])"
  using assms by (auto simp: lock_ok_def at_def nth_list_update)

lemma lock_release:
  assumes "lock_ok (ch_lock s) (ch_pcs s)" "at s i p" "in_lock p" "\<not> in_lock q"
  shows "lock_ok None ((ch_pcs s)[i := q])"
  using assms by (auto simp: lock_ok_def at_def nth_list_update)

lemma pc_ok_goto: "list_all pc_ok ps \<Longrightarrow> pc_ok q \<Longrightarrow> list_all pc_ok (ps[i := q])"
  by (auto simp: list_all_iff dest!: set_update_subset_insert [THEN subsetD])

text \<open>A step on a semaphore, and a step that only moves the program counter.\<close>

lemma chan_inv_sem:
  assumes "chan_inv s" "at s i p" "in_lock q = in_lock p" "pc_ok q"
    and "int v + (if has_slot q then 1 else 0) = int (ring_vaild (ch_ring s)) + (if has_slot p then 1 else 0)"
    and "int c + (if has_item q then 1 else 0) = int (ring_contain (ch_ring s)) + (if has_item p then 1 else 0)"
  shows "chan_inv (goto i q (s\<lparr>ch_ring := (ch_ring s)\<lparr>ring_vaild := v, ring_contain := c\<rparr>\<rparr>))"
proof -
  have l: "lock_ok (ch_lock s) ((ch_pcs s)[i := q])"
    using assms(1-3) lock_goto [of s i p q] by (simp add: chan_inv_def)
  then show ?thesis
    using assms by (simp add: chan_inv_def cnt_goto pc_ok_goto)
qed

lemma chan_inv_move:
  assumes "chan_inv s" "at s i p" "in_lock q = in_lock p" "pc_ok q"
    and "has_slot q = has_slot p" "has_item q = has_item p"
  shows "chan_inv (goto i q s)"
  using chan_inv_sem [OF assms(1-4), of "ring_vaild (ch_ring s)" "ring_contain (ch_ring s)"] assms(5,6)
  by simp

lemma chan_inv_init: "chan_inv (chan_init n)"
proof -
  have "cnt has_slot (chan_init n) = 0" "cnt has_item (chan_init n) = 0" "ring_abs (ring_init :: 'a ring_t) = []"
    by (simp_all add: cnt_def chan_init_def has_slot_def has_item_def ring.abs_empty)
  then show ?thesis
    by (simp add: chan_inv_def ring_inv_init lock_ok_def in_lock_def pc_ok_def list_all_iff chan_init_def)
      (simp add: ring_init_def RING_SIZE_def)
qed

lemma chan_inv_step:
  assumes "chan_step s t" "chan_inv s"
  shows "chan_inv t"
  using assms
proof (cases rule: chan_step.cases)
  case (p_add i x rc r)
  have c: "count (ch_ring s) \<noteq> RING_SIZE" using chan_inv_add [OF assms(2) p_add(2)] .
  then have r: "rc = 0" "r = snd (ring_add (ch_ring s) x)"
    using p_add by (auto simp: ring_add_def ring_stat_def)
  show ?thesis
    using assms(2) p_add(1,2) c lock_goto [of s i "P_add x" "P_unlock rc"]
    by (simp add: chan_inv_def cnt_goto pc_class_defs r ring_add_inv ring_abs_add count_ring_add pc_ok_goto)
next
  case (c_del i p r)
  obtain y ys where y: "ring_abs (ch_ring s) = y # ys"
    using chan_inv_del [OF assms(2)] c_del by (cases "ring_abs (ch_ring s)") auto
  have inv: "ring_inv (ch_ring s)" using assms(2) by (simp add: chan_inv_def)
  have c: "count (ch_ring s) \<noteq> 0" using ring_abs_length [OF inv] y by auto
  have r: "p = Some y" "r = snd (ring_del (ch_ring s))" "ring_abs r = ys"
    using ring_abs_del [OF inv y] c_del by auto
  show ?thesis
    using assms(2) c_del(1,2) c y r ring_del_inv [OF inv] lock_goto [of s i "C_del" "C_unlock p"]
    by (simp add: chan_inv_def cnt_goto pc_class_defs count_ring_del pc_ok_goto)
next
  case (p_lock i x)
  then show ?thesis using assms(2) lock_take [of s i "P_lock x" "P_add x"]
    by (simp add: chan_inv_def cnt_goto pc_class_defs pc_ok_goto)
next
  case (c_lock i)
  then show ?thesis using assms(2) lock_take [of s i "C_lock" "C_del"]
    by (simp add: chan_inv_def cnt_goto pc_class_defs pc_ok_goto)
next
  case (p_unlock i rc)
  then show ?thesis using assms(2) lock_release [of s i "P_unlock rc" "P_post"]
    by (simp add: chan_inv_def cnt_goto pc_class_defs pc_ok_goto)
next
  case (c_unlock i p)
  then show ?thesis using assms(2) lock_release [of s i "C_unlock p" "C_post"]
    by (simp add: chan_inv_def cnt_goto pc_class_defs pc_ok_goto)
next
  case (c_stat i)
  then show ?thesis using assms(2) chan_inv_move [of s i C_stat]
    by (simp add: pc_class_defs)
next
  case (produce i x)
  then show ?thesis using assms(2) chan_inv_move [of s i Idle "P_wait x"] by (simp add: pc_class_defs)
next
  case (consume i)
  then show ?thesis using assms(2) chan_inv_move [of s i Idle C_stat] by (simp add: pc_class_defs)
next
  case (p_wait i x)
  then show ?thesis
    using assms(2) chan_inv_sem [of s i "P_wait x" "P_lock x" "ring_vaild (ch_ring s) - 1" "ring_contain (ch_ring s)"]
    by (simp add: pc_class_defs of_nat_diff)
next
  case (p_post i)
  then show ?thesis
    using assms(2) chan_inv_sem [of s i P_post Idle "ring_vaild (ch_ring s)" "ring_contain (ch_ring s) + 1"]
    by (simp add: pc_class_defs)
next
  case (c_wait i)
  then show ?thesis
    using assms(2) chan_inv_sem [of s i C_wait C_lock "ring_vaild (ch_ring s)" "ring_contain (ch_ring s) - 1"]
    by (simp add: pc_class_defs of_nat_diff)
next
  case (c_post i)
  then show ?thesis
    using assms(2) chan_inv_sem [of s i C_post Idle "ring_vaild (ch_ring s) + 1" "ring_contain (ch_ring s)"]
    by (simp add: pc_class_defs)
qed

lemma chan_reach_inv: "chan_reach n s \<Longrightarrow> chan_inv s"
  by (induction rule: chan_reach.induct) (auto intro: chan_inv_init chan_inv_step)

section \<open>What the threads can rely on\<close>

text \<open>Whether the next statement of thread \<open>i\<close> can run now: only the semaphores and the mutex make it wait.\<close>

definition enabled :: "'a chan \<Rightarrow> nat \<Rightarrow> bool" where
  "enabled s i \<longleftrightarrow> (case ch_pcs s ! i of
       P_wait _ \<Rightarrow> 0 < ring_vaild (ch_ring s)
     | C_wait \<Rightarrow> 0 < ring_contain (ch_ring s)
     | P_lock _ \<Rightarrow> ch_lock s = None
     | C_lock \<Rightarrow> ch_lock s = None
     | _ \<Rightarrow> True)"

lemma enabled_step:
  assumes "i < length (ch_pcs s)" "enabled s i"
  shows "\<exists>t. chan_step s t"
proof -
  have a: "at s i (ch_pcs s ! i)" using assms(1) by (simp add: at_def)
  show ?thesis
  proof (cases "ch_pcs s ! i")
    case (P_add x)
    obtain rc r where "ring_add (ch_ring s) x = (rc, r)" by (cases "ring_add (ch_ring s) x")
    then show ?thesis using a P_add by (metis chan_step.p_add)
  next
    case C_del
    obtain q r where "ring_del (ch_ring s) = (q, r)" by (cases "ring_del (ch_ring s)")
    then show ?thesis using a C_del by (metis chan_step.c_del)
  qed (use a assms(2) in \<open>auto simp: enabled_def intro: chan_step.intros\<close>)
qed

lemma quiet_counts:
  assumes "chan_inv s" "\<forall>p \<in> set (ch_pcs s). \<not> has_slot p \<and> \<not> has_item p"
  shows "int (ring_vaild (ch_ring s)) + int (length (ring_abs (ch_ring s))) = RING_SIZE"
    "ring_contain (ch_ring s) = length (ring_abs (ch_ring s))"
proof -
  have "cnt has_slot s = 0" "cnt has_item s = 0"
    using assms(2) by (auto simp: cnt_def filter_empty_conv)
  with assms(1) show "int (ring_vaild (ch_ring s)) + int (length (ring_abs (ch_ring s))) = RING_SIZE"
    "ring_contain (ch_ring s) = length (ring_abs (ch_ring s))"
    using ring_abs_length [of "ch_ring s"] by (auto simp: chan_inv_def)
qed

text \<open>If no thread that has something to do can go on, nobody is inside the critical section.\<close>

lemma stuck_pcs:
  assumes "chan_inv s" "\<forall>i < length (ch_pcs s). ch_pcs s ! i \<noteq> Idle \<longrightarrow> \<not> enabled s i"
    and "i < length (ch_pcs s)"
  shows "ch_pcs s ! i = Idle \<or> (\<exists>x. ch_pcs s ! i = P_wait x) \<or> ch_pcs s ! i = C_wait"
proof -
  have "ch_lock s = None"
  proof (rule ccontr)
    assume "ch_lock s \<noteq> None"
    then obtain j where j: "ch_lock s = Some j" by auto
    with assms(1) have "j < length (ch_pcs s)" "in_lock (ch_pcs s ! j)"
      by (simp_all add: chan_inv_def lock_ok_def)
    with assms(2) show False
      by (cases "ch_pcs s ! j") (auto simp: in_lock_def enabled_def)
  qed
  with assms(2,3) show ?thesis
    by (cases "ch_pcs s ! i") (auto simp: enabled_def)
qed

text \<open>
  Schedules, to reach concrete states: each entry names the thread that runs next and, for an idle
  thread, the event it wants to send (or \<open>None\<close>, to receive).
\<close>

definition run1 :: "nat \<times> 'a option \<Rightarrow> 'a chan \<Rightarrow> 'a chan option" where
  "run1 ic s = (let i = fst ic; r = ch_ring s in
     if length (ch_pcs s) \<le> i then None else
     (case ch_pcs s ! i of
        Idle \<Rightarrow> Some (goto i (case snd ic of Some x \<Rightarrow> P_wait x | None \<Rightarrow> C_stat) s)
      | P_wait x \<Rightarrow> if 0 < ring_vaild r
          then Some (goto i (P_lock x) (s\<lparr>ch_ring := r\<lparr>ring_vaild := ring_vaild r - 1\<rparr>\<rparr>)) else None
      | P_lock x \<Rightarrow> if ch_lock s = None then Some (goto i (P_add x) (s\<lparr>ch_lock := Some i\<rparr>)) else None
      | P_add x \<Rightarrow> (case ring_add r x of (rc, r') \<Rightarrow> Some (goto i (P_unlock rc)
          (s\<lparr>ch_ring := r', ch_added := ch_added s @ (if rc = 0 then [x] else [])\<rparr>)))
      | P_unlock rc \<Rightarrow> Some (goto i P_post (s\<lparr>ch_lock := None\<rparr>))
      | P_post \<Rightarrow> Some (goto i Idle (s\<lparr>ch_ring := r\<lparr>ring_contain := ring_contain r + 1\<rparr>\<rparr>))
      | C_stat \<Rightarrow> Some (goto i (if ring_stat r \<noteq> 0 then C_wait else Idle) s)
      | C_wait \<Rightarrow> if 0 < ring_contain r
          then Some (goto i C_lock (s\<lparr>ch_ring := r\<lparr>ring_contain := ring_contain r - 1\<rparr>\<rparr>)) else None
      | C_lock \<Rightarrow> if ch_lock s = None then Some (goto i C_del (s\<lparr>ch_lock := Some i\<rparr>)) else None
      | C_del \<Rightarrow> (case ring_del r of (p, r') \<Rightarrow> Some (goto i (C_unlock p)
          (s\<lparr>ch_ring := r', ch_taken := ch_taken s @ (case p of None \<Rightarrow> [] | Some x \<Rightarrow> [x])\<rparr>)))
      | C_unlock p \<Rightarrow> Some (goto i C_post (s\<lparr>ch_lock := None\<rparr>))
      | C_post \<Rightarrow> Some (goto i Idle (s\<lparr>ch_ring := r\<lparr>ring_vaild := ring_vaild r + 1\<rparr>\<rparr>))))"

fun run :: "(nat \<times> 'a option) list \<Rightarrow> 'a chan \<Rightarrow> 'a chan option" where
  "run [] s = Some s"
| "run (ic # l) s = (case run1 ic s of None \<Rightarrow> None | Some t \<Rightarrow> run l t)"

lemma run1_step:
  assumes "run1 (i, c) s = Some t"
  shows "chan_step s t"
proof -
  have a: "at s i (ch_pcs s ! i)" "i < length (ch_pcs s)"
    using assms by (auto simp: run1_def Let_def at_def split: if_splits)
  note [intro] = chan_step.intros
  show ?thesis
  proof (cases "ch_pcs s ! i")
    case Idle
    then show ?thesis using a assms by (cases c) (auto simp: run1_def Let_def)
  next
    case C_stat
    then show ?thesis using a assms chan_step.c_stat [of s i] by (simp add: run1_def Let_def)
  next
    case (P_wait x)
    then show ?thesis using a assms chan_step.p_wait [of s i x] by (simp add: run1_def Let_def split: if_splits)
  next
    case (P_add x)
    then show ?thesis using a assms chan_step.p_add [of s i x]
      by (cases "ring_add (ch_ring s) x") (auto simp: run1_def Let_def split: if_splits)
  next
    case P_post
    then show ?thesis using a assms chan_step.p_post [of s i] by (simp add: run1_def Let_def)
  next
    case C_wait
    then show ?thesis using a assms chan_step.c_wait [of s i] by (simp add: run1_def Let_def split: if_splits)
  next
    case C_del
    then show ?thesis using a assms chan_step.c_del [of s i]
      by (cases "ring_del (ch_ring s)") (simp add: run1_def Let_def)
  next
    case C_post
    then show ?thesis using a assms chan_step.c_post [of s i] by (simp add: run1_def Let_def)
  qed (use a assms in \<open>auto simp: run1_def Let_def split: if_splits prod.splits\<close>)
qed

lemma run_reach: "run l s = Some t \<Longrightarrow> chan_reach n s \<Longrightarrow> chan_reach n t"
  by (induction l s rule: run.induct)
    (auto split: option.splits intro: chan_reach.step run1_step)

lemma reach_run: "run l (chan_init n) \<noteq> None \<Longrightarrow> chan_reach n (the (run l (chan_init n)))"
  by (auto intro: run_reach [OF _ chan_reach.start])

text \<open>
  One event sent by thread 0 up to \<^verbatim>\<open>ring_add\<close>; sent and received by it up to \<^verbatim>\<open>ring_del\<close>; and sent by it,
  seen by both threads, and received by thread 0: thread 1 then waits on \<^verbatim>\<open>ring_contain\<close>.
\<close>

definition sched_add :: "(nat \<times> nat option) list" where
  "sched_add = replicate 3 (0, Some 7)"

definition sched_del :: "(nat \<times> nat option) list" where
  "sched_del = replicate 6 (0, Some 7) @ replicate 4 (0, None)"

definition sched_race :: "(nat \<times> nat option) list" where
  "sched_race = replicate 6 (0, Some 7) @ [(0, None), (0, None), (1, None), (1, None)] @ replicate 5 (0, None)"

text \<open>
  C9. Events are neither lost, duplicated nor reordered: in every reachable state of any number of
  threads, what was ever added to the ring is what was taken out followed by what is still queued,
  and at most 128 events are queued.
\<close>

theorem channel_fifo:
  assumes "chan_reach n s"
  shows "ch_added s = ch_taken s @ ring_abs (ch_ring s) \<and> length (ring_abs (ch_ring s)) \<le> nat RING_SIZE"
  using chan_reach_inv [OF assms] ring.abs_bound [of "ch_ring s"] by (simp add: chan_inv_def)

theorem channel_fifo_witness:
  "ch_taken (the (run sched_race (chan_init 2))) = [7] \<and>
   ch_added (the (run sched_race (chan_init 2))) =
     ch_taken (the (run sched_race (chan_init 2))) @ ring_abs (ch_ring (the (run sched_race (chan_init 2))))"
proof -
  have "run sched_race (chan_init 2) \<noteq> None" "ch_taken (the (run sched_race (chan_init 2))) = [7]" by code_simp+
  then show ?thesis using channel_fifo [OF reach_run, of sched_race 2] by blast
qed

text \<open>
  C10. The return codes the callers ignore never matter: when a producer has reached \<^verbatim>\<open>ring_add\<close> there is
  room (it returns 0), when a consumer has reached \<^verbatim>\<open>ring_del\<close> there is an event (it does not
  return NULL), and no two threads are inside the critical section.
\<close>

theorem channel_no_failure:
  assumes "chan_reach n s"
  shows "(at s i (P_add x) \<longrightarrow> fst (ring_add (ch_ring s) x) = 0) \<and>
    (at s i C_del \<longrightarrow> fst (ring_del (ch_ring s)) \<noteq> None) \<and>
    (at s i p \<longrightarrow> at s j q \<longrightarrow> in_lock p \<longrightarrow> in_lock q \<longrightarrow> i = j)"
proof (intro conjI impI)
  note inv = chan_reach_inv [OF assms]
  then have r: "ring_inv (ch_ring s)" by (simp add: chan_inv_def)
  { assume "at s i (P_add x)"
    then show "fst (ring_add (ch_ring s) x) = 0"
      using chan_inv_add [OF inv] by (simp add: ring_add_def ring_stat_def) }
  { assume "at s i C_del"
    then obtain y ys where "ring_abs (ch_ring s) = y # ys"
      using chan_inv_del [OF inv] by (cases "ring_abs (ch_ring s)") auto
    then show "fst (ring_del (ch_ring s)) \<noteq> None" using ring_abs_del [OF r] by simp }
  { assume "at s i p" "at s j q" "in_lock p" "in_lock q"
    then have "ch_lock s = Some i" "ch_lock s = Some j" using inv by (auto simp: chan_inv_def lock_ok_def at_def)
    then show "i = j" by simp }
qed

theorem channel_no_failure_witness:
  "fst (ring_add (ch_ring (the (run sched_add (chan_init 1)))) 7) = 0 \<and>
   fst (ring_del (ch_ring (the (run sched_del (chan_init 1))))) \<noteq> None"
proof
  have "run sched_add (chan_init 1) \<noteq> None" "at (the (run sched_add (chan_init 1))) 0 (P_add 7)" by code_simp+
  then show "fst (ring_add (ch_ring (the (run sched_add (chan_init 1)))) 7) = 0"
    using channel_no_failure [OF reach_run, of sched_add 1 0 7] by blast
  have "run sched_del (chan_init 1) \<noteq> None" "at (the (run sched_del (chan_init 1))) 0 C_del" by code_simp+
  then show "fst (ring_del (ch_ring (the (run sched_del (chan_init 1))))) \<noteq> None"
    using channel_no_failure [OF reach_run, of sched_del 1 0] by blast
qed

text \<open>
  C11. Deadlock freedom: in a reachable state where no thread with work can go on, either every such
  thread is a producer waiting on \<^verbatim>\<open>ring_vaild\<close> and the ring holds 128 events, or every such thread is
  a consumer waiting on \<^verbatim>\<open>ring_contain\<close> and the ring is empty.
\<close>

theorem channel_deadlock_free:
  assumes "chan_reach n s"
    and "\<forall>i < length (ch_pcs s). ch_pcs s ! i \<noteq> Idle \<longrightarrow> \<not> enabled s i"
  shows "(\<forall>p \<in> set (ch_pcs s). p = Idle \<or> (\<exists>x. p = P_wait x \<and> length (ring_abs (ch_ring s)) = nat RING_SIZE)) \<or>
    (\<forall>p \<in> set (ch_pcs s). p = Idle \<or> (p = C_wait \<and> ring_abs (ch_ring s) = []))"
proof -
  note inv = chan_reach_inv [OF assms(1)]
  note q = stuck_pcs [OF inv assms(2)]
  have pcs: "\<forall>p \<in> set (ch_pcs s). p = Idle \<or> (\<exists>x. p = P_wait x) \<or> p = C_wait"
  proof
    fix p assume "p \<in> set (ch_pcs s)"
    then obtain i where "i < length (ch_pcs s)" "p = ch_pcs s ! i" by (auto simp: in_set_conv_nth)
    with q [of i] show "p = Idle \<or> (\<exists>x. p = P_wait x) \<or> p = C_wait" by simp
  qed
  then have "\<forall>p \<in> set (ch_pcs s). \<not> has_slot p \<and> \<not> has_item p"
    by (auto simp: has_slot_def has_item_def)
  note c = quiet_counts [OF inv this]
  have full: "length (ring_abs (ch_ring s)) = nat RING_SIZE" if w: "P_wait x \<in> set (ch_pcs s)" for x
  proof -
    obtain i where "i < length (ch_pcs s)" "ch_pcs s ! i = P_wait x" using w by (auto simp: in_set_conv_nth)
    moreover have "\<not> enabled s i" using assms(2) calculation by simp
    ultimately have "ring_vaild (ch_ring s) = 0" by (simp add: enabled_def)
    with c(1) show ?thesis by linarith
  qed
  have empty: "ring_abs (ch_ring s) = []" if w: "C_wait \<in> set (ch_pcs s)"
  proof -
    obtain i where "i < length (ch_pcs s)" "ch_pcs s ! i = C_wait" using w by (auto simp: in_set_conv_nth)
    moreover have "\<not> enabled s i" using assms(2) calculation by simp
    ultimately have "ring_contain (ch_ring s) = 0" by (simp add: enabled_def)
    with c(2) show ?thesis by simp
  qed
  show ?thesis
  proof (cases "C_wait \<in> set (ch_pcs s)")
    case True
    then have "P_wait x \<notin> set (ch_pcs s)" for x using empty full [of x] by (auto simp: RING_SIZE_def)
    then show ?thesis using pcs empty [OF True] by auto
  next
    case False
    then show ?thesis using pcs full by auto
  qed
qed

theorem channel_deadlock_free_witness:
  "ch_pcs (the (run sched_race (chan_init 2))) = [Idle, C_wait] \<and>
   ring_abs (ch_ring (the (run sched_race (chan_init 2)))) = []"
proof -
  let ?s = "the (run sched_race (chan_init 2))"
  have p: "run sched_race (chan_init 2) \<noteq> None" "ch_pcs ?s = [Idle, C_wait]" "\<not> enabled ?s 1" by code_simp+
  then have "\<forall>i < length (ch_pcs ?s). ch_pcs ?s ! i \<noteq> Idle \<longrightarrow> \<not> enabled ?s i"
    by (simp add: less_Suc_eq)
  from channel_deadlock_free [OF reach_run [OF p(1)] this] p(2) show ?thesis by simp
qed

text \<open>
  Run without interruption on a ring no thread is inside of, \<^verbatim>\<open>put_to_agent\<close> (and
  \<^verbatim>\<open>fmd_queue_dispatch\<close>) appends the event unless 128 are queued, in which case it waits; the
  consumer sequence removes the oldest event unless none is queued; both leave the semaphores in
  step with the count.
\<close>

theorem put_take_refines_fifo:
  assumes "ring_quiet r"
  shows "(case put_to_agent r x of
       Inl e \<Rightarrow> e = Would_block \<and> length (ring_abs r) = nat RING_SIZE
     | Inr r' \<Rightarrow> length (ring_abs r) < nat RING_SIZE \<and> ring_quiet r' \<and> ring_abs r' = ring_abs r @ [x])
   \<and> fmd_queue_dispatch r x = put_to_agent r x
   \<and> (case ring_take r of
       Inl e \<Rightarrow> e = Would_block \<and> ring_abs r = []
     | Inr (p, r') \<Rightarrow> ring_quiet r' \<and> (\<exists>y. p = Some y \<and> ring_abs r = y # ring_abs r'))"
proof (intro conjI)
  have len: "length (ring_abs r) \<le> nat RING_SIZE" using assms ring.abs_bound by (auto simp: ring_quiet_def)
  show "case put_to_agent r x of
       Inl e \<Rightarrow> e = Would_block \<and> length (ring_abs r) = nat RING_SIZE
     | Inr r' \<Rightarrow> length (ring_abs r) < nat RING_SIZE \<and> ring_quiet r' \<and> ring_abs r' = ring_abs r @ [x]"
  proof (cases "length (ring_abs r) = nat RING_SIZE")
    case True then show ?thesis using put_to_agent_full [OF assms] by simp
  next
    case False
    then have "length (ring_abs r) < nat RING_SIZE" using len by simp
    then show ?thesis using put_to_agent_ok [OF assms, of x] by fastforce
  qed
  show "case ring_take r of
       Inl e \<Rightarrow> e = Would_block \<and> ring_abs r = []
     | Inr (p, r') \<Rightarrow> ring_quiet r' \<and> (\<exists>y. p = Some y \<and> ring_abs r = y # ring_abs r')"
  proof (cases "ring_abs r")
    case Nil then show ?thesis using ring_take_empty [OF assms] by simp
  next
    case (Cons y ys)
    then show ?thesis using ring_take_ok [OF assms, of y ys] by fastforce
  qed
qed (simp add: fmd_queue_dispatch_eq)

theorem put_take_refines_fifo_witness:
  "ring_quiet (ring_init :: nat ring_t) \<and> put_to_agent (ring_init :: nat ring_t) 3 \<noteq> Inl Would_block"
  using put_take_refines_fifo [OF ring_quiet_init, of "3 :: nat"]
  by (auto simp: ring_quiet_init ring.abs_empty RING_SIZE_def split: sum.splits)

end
