(* ===== verification/Fms_Esc.thy ===== *)
theory Fms_Esc
  imports Fms_Prelude
begin

text \<open>
  The event-class configuration: the association list of \<^verbatim>\<open>include/fmd_hash.h\<close> and the \<^verbatim>\<open>.esc\<close> reader of
  \<^verbatim>\<open>lib/libesc/esc_main.c\<close>, which fills the lists of fault and SERD classes the diagnosis uses. A list
  built with \<^verbatim>\<open>list_add\<close> is the HOL list from its head on.
\<close>

section \<open>\<^verbatim>\<open>include/fmd_hash.h\<close>\<close>

record fmd_hash =
  hash_key :: string
  hash_value :: "64 word"

fun hash_find :: "fmd_hash list \<Rightarrow> string \<Rightarrow> fmd_hash option" where
  "hash_find [] key = None"
| "hash_find (p # l) key = (if hash_key p = key then Some p else hash_find l key)"

definition hash_put :: "fmd_hash list \<Rightarrow> string \<Rightarrow> 64 word \<Rightarrow> int \<times> fmd_hash list" where
  "hash_put l key value =
     (case hash_find l key of
        Some _ \<Rightarrow> (-1, l)
      | None \<Rightarrow> (0, \<lparr>hash_key = key, hash_value = value\<rparr> # l))"

definition hash_get :: "fmd_hash list \<Rightarrow> string option \<Rightarrow> 64 word" where
  "hash_get l key = (case key of None \<Rightarrow> 0 | Some k \<Rightarrow>
     (case hash_find l k of Some p \<Rightarrow> hash_value p | None \<Rightarrow> 0))"

fun hash_get_key :: "fmd_hash list \<Rightarrow> 64 word \<Rightarrow> string option" where
  "hash_get_key l value =
     (if value = 0 then None else
      (case l of [] \<Rightarrow> None
       | p # r \<Rightarrow> if hash_value p = value then Some (hash_key p) else hash_get_key r value))"

declare hash_get_key.simps [simp del]

definition hash_ok :: "fmd_hash list \<Rightarrow> bool" where
  "hash_ok l \<longleftrightarrow> distinct (map hash_key l)"

lemma hash_find_key: "hash_find l k = Some p \<Longrightarrow> hash_key p = k \<and> p \<in> set l"
  by (induction l) (auto split: if_splits)

lemma hash_find_None: "hash_find l k = None \<longleftrightarrow> k \<notin> set (map hash_key l)"
  by (induction l) auto

lemma hash_find_in: "hash_ok l \<Longrightarrow> p \<in> set l \<Longrightarrow> hash_find l (hash_key p) = Some p"
  by (induction l) (auto simp: hash_ok_def)

lemma hash_ok_put: "hash_ok l \<Longrightarrow> hash_ok (snd (hash_put l k v))"
  by (auto simp: hash_put_def hash_ok_def hash_find_None split: option.splits)

lemma hash_get_put:
  "fst (hash_put l k v) = 0 \<Longrightarrow>
   hash_get (snd (hash_put l k v)) (Some k') = (if k = k' then v else hash_get l (Some k'))"
  by (auto simp: hash_put_def hash_get_def split: option.splits)

lemma hash_get_key_SomeD:
  "hash_get_key l v = Some k \<Longrightarrow> v \<noteq> 0 \<and> (\<exists>p \<in> set l. hash_key p = k \<and> hash_value p = v)"
proof (induction l)
  case Nil
  then show ?case by (subst (asm) hash_get_key.simps) (auto split: if_splits)
next
  case (Cons p l)
  then show ?case by (subst (asm) (2) hash_get_key.simps) (auto split: if_splits)
qed

text \<open>
  The class-name table: a second \<^verbatim>\<open>hash_put\<close> of a key is refused with -1 and changes nothing, a
  first one makes \<^verbatim>\<open>hash_get\<close> return its value for that key and what it returned before for every
  other, keys stay unique, and \<^verbatim>\<open>hash_get_key\<close> inverts \<^verbatim>\<open>hash_get\<close>: the key it returns for a value maps
  back to that value.
\<close>

theorem hash_table_correct:
  assumes "hash_ok l"
  shows "(case hash_put l k v of (rc, l') \<Rightarrow> hash_ok l' \<and>
      (if k \<in> set (map hash_key l) then rc = -1 \<and> l' = l
       else rc = 0 \<and> (\<forall>k'. hash_get l' (Some k') = (if k = k' then v else hash_get l (Some k')))))
    \<and> (\<forall>k'. hash_get_key l v = Some k' \<longrightarrow> hash_get l (Some k') = v)"
proof -
  have "hash_get l (Some k') = v" if "hash_get_key l v = Some k'" for k'
    using hash_get_key_SomeD [OF that] hash_find_in [OF assms] by (auto simp: hash_get_def)
  moreover have "hash_ok (snd (hash_put l k v))" by (rule hash_ok_put [OF assms])
  moreover have "k \<in> set (map hash_key l) \<Longrightarrow> hash_put l k v = (-1, l)"
    using hash_find_None [of l k] by (auto simp: hash_put_def split: option.splits)
  moreover have "k \<notin> set (map hash_key l) \<Longrightarrow> fst (hash_put l k v) = 0"
    using hash_find_None [of l k] by (simp add: hash_put_def)
  ultimately show ?thesis by (auto simp: split_beta hash_get_put)
qed

theorem hash_table_correct_witness:
  "hash_ok [\<lparr>hash_key = ''a'', hash_value = 1\<rparr>] \<and>
   hash_get (snd (hash_put [\<lparr>hash_key = ''a'', hash_value = 1\<rparr>] ''b'' 2)) (Some ''a'') = 1"
  using hash_table_correct [of "[\<lparr>hash_key = ''a'', hash_value = 1\<rparr>]" "''b''" 2]
  by (auto simp: hash_ok_def hash_get_def split_beta)

section \<open>\<^verbatim>\<open>lib/libesc/esc_main.c\<close>\<close>

definition CLASS_PATH :: nat where
  "CLASS_PATH = 64"

record fmd_serd_type =
  serd_eclass :: string
  serd_N :: "32 word"
  serd_T :: "32 word"

record fmd_esc =
  hash_clsname :: "fmd_hash list"
  list_event :: "string list"
  list_serd :: "fmd_serd_type list"
  list_fault :: "string list"

text \<open>
  The class field has 64 bytes and is filled by \<^verbatim>\<open>strncpy\<close> with the length of the source: a longer
  class writes past it, and one of 64 bytes leaves it without a terminator.
\<close>

definition esc_build_event :: "string \<Rightarrow> fmd_esc \<Rightarrow> fmd_esc res" where
  "esc_build_event eclass pesc =
     (if CLASS_PATH \<le> length eclass then Inl Buf_overflow
      else Inr (pesc\<lparr>list_event := eclass # list_event pesc\<rparr>))"

text \<open>
  \<^verbatim>\<open>strchr\<close> and \<^verbatim>\<open>strrchr\<close> are dereferenced without a check; without a brace, or with the brace first,
  the length given to \<^verbatim>\<open>strncpy\<close> is negative, that is, huge.
\<close>

definition esc_build_engine :: "string \<Rightarrow> fmd_esc \<Rightarrow> fmd_esc res" where
  "esc_build_engine eclass pesc =
     rbind (deref (strchr eclass (CHR ''=''))) (\<lambda>pN.
     rbind (deref (strrchr eclass (CHR ''=''))) (\<lambda>pT.
     (case strstr eclass ''{'' of
        None \<Rightarrow> Inl Buf_overflow
      | Some p \<Rightarrow>
          if length eclass - length p = 0 then Inl Buf_overflow
          else Inr (pesc\<lparr>list_serd :=
             \<lparr>serd_eclass = take (length eclass - length p - 1) eclass,
              serd_N = word_of_int (atoi (tl pN)),
              serd_T = word_of_int (atoi (tl pT) * 60 * 60)\<rparr> # list_serd pesc\<rparr>))))"

definition esc_build_fault :: "string \<Rightarrow> fmd_esc \<Rightarrow> fmd_esc res" where
  "esc_build_fault eclass pesc =
     (if CLASS_PATH \<le> length eclass then Inl Buf_overflow
      else Inr (pesc\<lparr>list_fault := eclass # list_fault pesc\<rparr>))"

text \<open>One line of the file, as \<^verbatim>\<open>fgets\<close> returned it; its last character is cut, newline or not.\<close>

definition esc_line :: "string \<Rightarrow> fmd_esc \<Rightarrow> fmd_esc res" where
  "esc_line line pesc =
     (let buf = butlast line in
      if strncmp_eq buf ''event '' 6 then esc_build_event (drop 6 buf) pesc
      else if strncmp_eq buf ''engine '' 7 then
        (if 64 \<le> length (drop 7 buf) then Inl Buf_overflow else esc_build_engine (drop 7 buf) pesc)
      else if strncmp_eq buf ''fault '' 6 then
        (if 64 \<le> length (drop 6 buf) then Inl Buf_overflow else esc_build_fault (drop 6 buf) pesc)
      else Inr pesc)"

fun esc_lines :: "string list \<Rightarrow> fmd_esc \<Rightarrow> fmd_esc res" where
  "esc_lines [] pesc = Inr pesc"
| "esc_lines (l # ls) pesc = rbind (esc_line l pesc) (esc_lines ls)"

text \<open>A file that cannot be opened (\<open>None\<close>) is skipped.\<close>

definition esc_parsefile :: "string option \<Rightarrow> fmd_esc \<Rightarrow> fmd_esc res" where
  "esc_parsefile fp pesc =
     (case fp of None \<Rightarrow> Inr pesc | Some content \<Rightarrow> esc_lines (fgets_lines 128 content) pesc)"

text \<open>
  The directory is the list of its entry names in \<^verbatim>\<open>readdir\<close> order (\<open>None\<close> when \<^verbatim>\<open>opendir\<close> fails); \<open>fs\<close>
  gives the contents of a file by its name.
\<close>

fun esc_entries :: "(string \<Rightarrow> string option) \<Rightarrow> string option \<Rightarrow> string list \<Rightarrow> fmd_esc \<Rightarrow> fmd_esc res" where
  "esc_entries fs suffix [] pesc = Inr pesc"
| "esc_entries fs suffix (d # ds) pesc =
     (if take 1 d = ''.'' then esc_entries fs suffix ds pesc
      else let p = strrchr d (CHR ''.'') in
        if suffix \<noteq> None \<and> (p = None \<or> p \<noteq> suffix) then esc_entries fs suffix ds pesc
        else if p = Some ''.esc'' then
          rbind (esc_parsefile (fs d) pesc) (esc_entries fs suffix ds)
        else esc_entries fs suffix ds pesc)"

definition esc_parsedir ::
  "(string \<Rightarrow> string option) \<Rightarrow> string list option \<Rightarrow> string option \<Rightarrow> fmd_esc \<Rightarrow> fmd_esc res" where
  "esc_parsedir fs dir suffix pesc =
     (case dir of None \<Rightarrow> Inr pesc | Some ds \<Rightarrow> esc_entries fs suffix ds pesc)"

definition esc_init :: fmd_esc where
  "esc_init = \<lparr>hash_clsname = [], list_event = [], list_serd = [], list_fault = []\<rparr>"

definition esc_main :: "(string \<Rightarrow> string option) \<Rightarrow> string list option \<Rightarrow> fmd_esc res" where
  "esc_main fs dir = esc_parsedir fs dir (Some ''.esc'') esc_init"

section \<open>Reading back what a configuration says\<close>

text \<open>The statements of a configuration and the lines that write them.\<close>

datatype esc_stmt = Sevent string | Sfault string | Sengine string nat nat | Sother string

definition esc_text :: "esc_stmt \<Rightarrow> string" where
  "esc_text st = (case st of
       Sevent c \<Rightarrow> ''event '' @ c
     | Sfault c \<Rightarrow> ''fault '' @ c
     | Sengine c n t \<Rightarrow> ''engine '' @ c @ '' {N='' @ nat_str 10 n @ '', T='' @ nat_str 10 t @ ''}''
     | Sother c \<Rightarrow> c) @ [CHR 0x0A]"

definition esc_add :: "esc_stmt \<Rightarrow> fmd_esc \<Rightarrow> fmd_esc" where
  "esc_add st pesc = (case st of
       Sevent c \<Rightarrow> pesc\<lparr>list_event := c # list_event pesc\<rparr>
     | Sfault c \<Rightarrow> pesc\<lparr>list_fault := c # list_fault pesc\<rparr>
     | Sengine c n t \<Rightarrow> pesc\<lparr>list_serd := \<lparr>serd_eclass = c, serd_N = of_nat n,
         serd_T = of_nat (t * 3600)\<rparr> # list_serd pesc\<rparr>
     | Sother c \<Rightarrow> pesc)"

definition class_ok :: "string \<Rightarrow> bool" where
  "class_ok c \<longleftrightarrow> CHR 0x0A \<notin> set c \<and> CHR ''='' \<notin> set c \<and> CHR ''{'' \<notin> set c \<and> length c < CLASS_PATH"

definition stmt_ok :: "esc_stmt \<Rightarrow> bool" where
  "stmt_ok st \<longleftrightarrow> (case st of
       Sevent c \<Rightarrow> class_ok c
     | Sfault c \<Rightarrow> class_ok c
     | Sengine c n t \<Rightarrow> class_ok c \<and> n < 2 ^ 31 \<and> t < 2 ^ 31 \<and> length (esc_text st) < 72
     | Sother c \<Rightarrow> CHR 0x0A \<notin> set c \<and> length c < 127 \<and> \<not> is_pfx ''event '' c \<and>
         \<not> is_pfx ''engine '' c \<and> \<not> is_pfx ''fault '' c)"

lemma strncmp_eq_const: "length p = n \<Longrightarrow> strncmp_eq s p n \<longleftrightarrow> is_pfx p s"
  by (auto simp: strncmp_eq_def is_pfx_def)

lemma strchr_append: "c \<notin> set a \<Longrightarrow> strchr (a @ c # s) c = Some (c # s)"
  by (induction a) auto

lemma strrchr_append: "c \<notin> set s \<Longrightarrow> strrchr (a @ c # s) c = Some (c # s)"
  by (subst strrchr_Some) auto

lemma strstr_char: "c \<notin> set a \<Longrightarrow> strstr (a @ c # s) [c] = Some (c # s)"
  by (induction a) (auto simp: is_pfx_def)

lemma nat_str_no: "\<not> isdigit c \<Longrightarrow> c \<notin> set (nat_str 10 n)"
  using nat_str_digits by blast

lemma esc_build_engine_text:
  assumes "class_ok c" "n < 2 ^ 31" "t < 2 ^ 31"
  shows "esc_build_engine (c @ '' {N='' @ nat_str 10 n @ '', T='' @ nat_str 10 t @ ''}'') pesc
       = Inr (esc_add (Sengine c n t) pesc)"
proof -
  let ?s = "c @ '' {N='' @ nat_str 10 n @ '', T='' @ nat_str 10 t @ ''}''"
  let ?b = "nat_str 10 t @ ''}''" and ?r = "nat_str 10 n @ '', T='' @ nat_str 10 t @ ''}''"
  have d: "\<not> isdigit (CHR ''='')" "\<not> isdigit (CHR ''}'')" "\<not> isdigit (CHR '','')" by (simp_all add: isdigit_def)
  have c: "CHR ''='' \<notin> set c" "CHR ''{'' \<notin> set c" using assms(1) by (simp_all add: class_ok_def)
  have "strchr ?s (CHR ''='') = Some (CHR ''='' # ?r)"
    using strchr_append [of "CHR ''=''" "c @ '' {N''" ?r] c by simp
  moreover have "strrchr ?s (CHR ''='') = Some (CHR ''='' # ?b)"
    using strrchr_append [of "CHR ''=''" ?b "c @ '' {N='' @ nat_str 10 n @ '', T''"] nat_str_no d by simp
  moreover have "strstr ?s ''{'' = Some (''{N='' @ ?r)"
    using strstr_char [of "CHR ''{''" "c @ '' ''" "''N='' @ ?r"] c by simp
  moreover have "atoi ?r = int n" using atoi_dec [OF assms(2), of "'', T='' @ ?b"] d by simp
  moreover have "atoi ?b = int t" using atoi_dec [OF assms(3), of "''}''"] d by simp
  moreover have "word_of_int (int t * 60 * 60) = (of_nat (t * 3600) :: 32 word)" by simp
  ultimately show ?thesis
    by (simp add: esc_build_engine_def esc_add_def)
qed

lemma esc_line_text: "stmt_ok st \<Longrightarrow> esc_line (esc_text st) pesc = Inr (esc_add st pesc)"
  using esc_build_engine_text
  by (cases st) (auto simp: esc_line_def esc_text_def stmt_ok_def class_ok_def CLASS_PATH_def
      strncmp_eq_const is_pfx_def esc_build_event_def esc_build_fault_def esc_add_def Let_def butlast_append)

lemma esc_text_line:
  assumes "stmt_ok st"
  shows "is_line 128 (esc_text st)"
proof -
  have "\<not> isdigit (CHR 0x0A)" by (simp add: isdigit_def)
  note nl = nat_str_no [OF this]
  show ?thesis
    using assms
    by (cases st) (auto simp: esc_text_def stmt_ok_def class_ok_def CLASS_PATH_def is_line_def nl butlast_append)
qed

lemma esc_lines_text:
  "list_all stmt_ok sts \<Longrightarrow> esc_lines (map esc_text sts) pesc = Inr (fold esc_add sts pesc)"
  by (induction sts arbitrary: pesc) (simp_all add: esc_line_text)

text \<open>
  C21. The \<^verbatim>\<open>.esc\<close> reader gives back the configuration that was written: on a file made of event, fault,
  engine and other lines within the buffer sizes, \<^verbatim>\<open>esc_parsefile\<close> runs without a wild access and adds
  exactly those statements, newest first, with the engine's N and its T in seconds.
\<close>

theorem esc_parse_roundtrip:
  assumes "list_all stmt_ok sts"
  shows "esc_parsefile (Some (concat (map esc_text sts))) pesc = Inr (fold esc_add sts pesc)"
  using assms fgets_lines_unlines [of 128 "map esc_text sts"] esc_lines_text [OF assms]
  by (simp add: esc_parsefile_def list_all_iff esc_text_line)

definition disk_esc :: "esc_stmt list" where
  "disk_esc = [Sother ''/**'', Sevent ''ereport.disk.unhealthy'', Sfault ''ereport.disk.badblocks'',
     Sengine ''ereport.disk.read_error'' 6 2]"

theorem esc_parse_roundtrip_witness:
  "list_all stmt_ok disk_esc \<and>
   esc_parsefile (Some (concat (map esc_text disk_esc))) esc_init = Inr (fold esc_add disk_esc esc_init) \<and>
   list_serd (fold esc_add disk_esc esc_init) = [\<lparr>serd_eclass = ''ereport.disk.read_error'', serd_N = 6, serd_T = 7200\<rparr>]"
proof (intro conjI)
  show ok: "list_all stmt_ok disk_esc"
    by (simp add: disk_esc_def stmt_ok_def class_ok_def esc_text_def CLASS_PATH_def is_pfx_def nat_str.simps)
  show "esc_parsefile (Some (concat (map esc_text disk_esc))) esc_init = Inr (fold esc_add disk_esc esc_init)"
    by (rule esc_parse_roundtrip [OF ok])
qed (simp add: disk_esc_def esc_add_def esc_init_def)

text \<open>
  Whatever the files contain, every string the reader stores fits its 64-byte field.
\<close>

definition esc_ok :: "fmd_esc \<Rightarrow> bool" where
  "esc_ok pesc \<longleftrightarrow> list_all (\<lambda>c. length c < CLASS_PATH) (list_event pesc @ list_fault pesc @
     map serd_eclass (list_serd pesc))"

lemma esc_build_engine_ok:
  assumes "esc_ok pesc" "length c < 64" "esc_build_engine c pesc = Inr pesc'"
  shows "esc_ok pesc'"
proof -
  obtain k n t where "pesc' = pesc\<lparr>list_serd := \<lparr>serd_eclass = take k c, serd_N = n, serd_T = t\<rparr> # list_serd pesc\<rparr>"
    using assms(3) by (fastforce simp: esc_build_engine_def split: option.splits if_splits)
  then show ?thesis using assms(1,2) by (simp add: esc_ok_def list_all_iff CLASS_PATH_def)
qed

lemma esc_line_ok:
  assumes "esc_ok pesc" "esc_line l pesc = Inr pesc'"
  shows "esc_ok pesc'"
proof -
  have "esc_build_event c pesc = Inr pesc' \<Longrightarrow> esc_ok pesc'" for c
    using assms(1) by (auto simp: esc_build_event_def esc_ok_def split: if_splits)
  moreover have "esc_build_fault c pesc = Inr pesc' \<Longrightarrow> esc_ok pesc'" for c
    using assms(1) by (auto simp: esc_build_fault_def esc_ok_def split: if_splits)
  ultimately show ?thesis
    using assms esc_build_engine_ok [OF assms(1), of "drop 7 (butlast l)"]
    by (auto simp: esc_line_def Let_def split: if_splits)
qed

lemma esc_lines_ok: "esc_ok pesc \<Longrightarrow> esc_lines ls pesc = Inr pesc' \<Longrightarrow> esc_ok pesc'"
  by (induction ls arbitrary: pesc) (auto dest: esc_line_ok)

lemma esc_lines_append: "esc_lines (ls @ ks) pesc = rbind (esc_lines ls pesc) (esc_lines ks)"
proof (induction ls arbitrary: pesc)
  case (Cons l ls)
  then show ?case by (cases "esc_line l pesc") simp_all
qed simp

text \<open>The entries the reader looks at, and the lines of a file that may be missing.\<close>

definition is_esc_name :: "string \<Rightarrow> bool" where
  "is_esc_name d \<longleftrightarrow> take 1 d \<noteq> ''.'' \<and> strrchr d (CHR ''.'') = Some ''.esc''"

definition file_lines :: "string option \<Rightarrow> string list" where
  "file_lines f = (case f of None \<Rightarrow> [] | Some c \<Rightarrow> fgets_lines 128 c)"

lemma esc_parsefile_lines: "esc_parsefile f = esc_lines (file_lines f)"
  by (cases f) (simp_all add: fun_eq_iff esc_parsefile_def file_lines_def)

lemma esc_entries_lines:
  "esc_entries fs (Some ''.esc'') ds pesc =
     esc_lines (concat (map (\<lambda>d. file_lines (fs d)) (filter is_esc_name ds))) pesc"
proof (induction ds arbitrary: pesc)
  case (Cons d ds)
  have "esc_entries fs (Some ''.esc'') (d # ds) pesc =
      (if is_esc_name d then rbind (esc_parsefile (fs d) pesc) (esc_entries fs (Some ''.esc'') ds)
       else esc_entries fs (Some ''.esc'') ds pesc)"
    by (auto simp: is_esc_name_def Let_def)
  moreover have "esc_entries fs (Some ''.esc'') ds =
      esc_lines (concat (map (\<lambda>d. file_lines (fs d)) (filter is_esc_name ds)))"
    using Cons.IH by blast
  ultimately show ?case by (simp add: esc_lines_append esc_parsefile_lines)
qed simp

text \<open>
  \<^verbatim>\<open>esc_main\<close> reads exactly the directory entries that do not start with a dot and whose last suffix
  is \<^verbatim>\<open>.esc\<close>, in directory order, as if their lines stood in one file; and when it completes, every
  class it stored is shorter than the 64-byte field it is kept in, whatever the files contain.
\<close>

theorem esc_main_reads:
  "esc_main fs (Some ds) =
     esc_lines (concat (map (\<lambda>d. file_lines (fs d)) (filter is_esc_name ds))) esc_init \<and>
   (case esc_main fs dir of Inl _ \<Rightarrow> True | Inr pesc \<Rightarrow> esc_ok pesc)"
proof -
  have "esc_ok esc_init" by (simp add: esc_ok_def esc_init_def)
  then show ?thesis
    by (cases dir) (auto simp: esc_main_def esc_parsedir_def esc_entries_lines split: sum.splits
        dest: esc_lines_ok)
qed

end
