(* ===== verification/Fms_Event.thy ===== *)
theory Fms_Event
  imports Fms_Channel Fms_Esc
begin

text \<open>
  The data the daemon shares between its threads: events (\<^verbatim>\<open>include/fmd_event.h\<close>), cases
  (\<^verbatim>\<open>include/fmd_case.h\<close>), agent modules (\<^verbatim>\<open>evt_agent.h\<close>) and the global \<^verbatim>\<open>fmd\<close>
  (\<^verbatim>\<open>include/fmd.h\<close>), with the constructors of \<^verbatim>\<open>lib/libfmd/fmd_event.c\<close> and
  \<^verbatim>\<open>lib/libfmd/fmd_nvpair.c\<close>.

  Events and cases live in heaps indexed by address, because the same event is reachable from a case,
  from a ring and from an agent at once; freeing removes the cell, and using a removed cell is the
  error \<open>Use_after_free\<close>. A \<^verbatim>\<open>list_head\<close> field is the list of the addresses it links, from the head
  on. \<^verbatim>\<open>calloc\<close> succeeds; \<^verbatim>\<open>time(NULL)\<close> is the argument \<open>now\<close> of a handler; what \<^verbatim>\<open>wr_log\<close> prints is not
  modelled.
\<close>

section \<open>Constants of \<^verbatim>\<open>include/fmd_event.h\<close> and \<^verbatim>\<open>include/fmd_case.h\<close>\<close>

definition LIST_RESULT_MASK :: int where "LIST_RESULT_MASK = 0x0001"
definition LIST_ISOLATED_FAILED :: int where "LIST_ISOLATED_FAILED = 0x0101"
definition LIST_ISOLATED_SUCCESS :: int where "LIST_ISOLATED_SUCCESS = 0x0102"
definition LIST_REPAIRED_FAILED :: int where "LIST_REPAIRED_FAILED = 0x0103"
definition LIST_REPAIRED_SUCCESS :: int where "LIST_REPAIRED_SUCCESS = 0x0104"
definition LIST_REPAIRED_MANUAL :: int where "LIST_REPAIRED_MANUAL = 0x0105"

definition AGENT_TODO :: int where "AGENT_TODO = 0x0301"
definition AGENT_TOLOG :: int where "AGENT_TOLOG = 0x0302"

definition EVENT_REPORT :: int where "EVENT_REPORT = 0x0200"
definition EVENT_SERD :: int where "EVENT_SERD = 0x0201"
definition EVENT_FAULT :: int where "EVENT_FAULT = 0x0202"
definition EVENT_LIST :: int where "EVENT_LIST = 0x0203"

definition EVENT_HANDLE_MODE_MANUAL :: int where "EVENT_HANDLE_MODE_MANUAL = 0"
definition EVENT_HANDLE_MODE_AUTO :: int where "EVENT_HANDLE_MODE_AUTO = 1"
definition EVENT_HANDLE_MODE_DEFINE :: int where "EVENT_HANDLE_MODE_DEFINE = 2"

definition CASE_CREATE :: int where "CASE_CREATE = 0"
definition CASE_FIRED :: int where "CASE_FIRED = 1"

lemmas result_consts = LIST_RESULT_MASK_def LIST_ISOLATED_FAILED_def LIST_ISOLATED_SUCCESS_def
  LIST_REPAIRED_FAILED_def LIST_REPAIRED_SUCCESS_def LIST_REPAIRED_MANUAL_def
lemmas event_consts = AGENT_TODO_def AGENT_TOLOG_def EVENT_REPORT_def EVENT_SERD_def EVENT_FAULT_def
  EVENT_LIST_def CASE_CREATE_def CASE_FIRED_def

section \<open>The records\<close>

text \<open>
  \<^verbatim>\<open>fmd_event_t\<close>. Counters and times are unbounded integers (their overflow is undefined in C and out
  of reach); the identifiers keep their 64 bits. \<open>ev_data\<close> and \<open>ev_p_case\<close> are pointers.
\<close>

record fmd_event =
  ev_dev_name :: string
  ev_dev_id :: "64 word"
  ev_evt_id :: "64 word"
  ev_class :: string
  ev_event_type :: int
  ev_N :: int
  ev_T :: int
  ev_repaired_N :: int
  ev_repaired_T :: int
  ev_create :: int
  ev_last_occur :: int
  ev_count :: int
  ev_refs :: int
  ev_flag :: int
  ev_agent_result :: int
  ev_p_case :: addr
  ev_handle_mode :: int
  ev_data :: addr

definition event_zero :: fmd_event where
  "event_zero = \<lparr>ev_dev_name = [], ev_dev_id = 0, ev_evt_id = 0, ev_class = [], ev_event_type = 0,
     ev_N = 0, ev_T = 0, ev_repaired_N = 0, ev_repaired_T = 0, ev_create = 0, ev_last_occur = 0,
     ev_count = 0, ev_refs = 0, ev_flag = 0, ev_agent_result = 0, ev_p_case = 0, ev_handle_mode = 0,
     ev_data = 0\<rparr>"

record fmd_case =
  cs_dev_name :: string
  cs_dev_id :: "64 word"
  cs_last_eclass :: string
  cs_flag :: int
  cs_total_count :: int
  cs_fire_counts :: int
  cs_create :: int
  cs_first_fire :: int
  cs_last_fire :: int
  cs_close :: int
  m_event_using :: int
  cs_event :: "addr list"

text \<open>
  \<^verbatim>\<open>agent_module_t\<close>: its subscriptions (\<^verbatim>\<open>list_eclass\<close>), its configuration and its ring. \<open>am_hand\<close> is the
  event its thread has taken out of the ring and is processing.
\<close>

record agent_module =
  am_mod_name :: string
  am_list_eclass :: "string list"
  am_evt_handle_mode :: int
  am_ring :: "addr ring_t"
  am_hand :: "addr option"

text \<open>
  The calls into sqlite, in order: values bound to a statement's parameters, steps and resets. The
  statement is named by the field of \<^verbatim>\<open>sqlite3_priv\<close> that holds it.
\<close>

datatype db_stmt = Stmt_cpu | Stmt_mem | Stmt_disk | Stmt_rep | Stmt_norep

datatype db_val = Txt string | Ptr addr | Num int

datatype db_call = Bind db_stmt nat db_val | Step db_stmt | Reset db_stmt

text \<open>
  \<^verbatim>\<open>fmd_t\<close> with its queue, the heaps, and two traces: the sqlite calls and the private data blocks
  given to \<^verbatim>\<open>free\<close>. \<open>f_priv\<close> is the set of prepared statements, \<open>None\<close> before the database is open.
\<close>

record fmd =
  f_events :: "addr \<rightharpoonup> fmd_event"
  f_cases :: "addr \<rightharpoonup> fmd_case"
  f_next :: addr
  f_list_case :: "addr list"
  f_list_repaired :: "addr list"
  f_list_agent :: "agent_module list"
  f_queue_ring :: "addr ring_t"
  f_esc :: fmd_esc
  f_priv :: "db_stmt list option"
  f_db :: "db_call list"
  f_data_freed :: "addr list"

section \<open>Heap access\<close>

definition ev :: "fmd \<Rightarrow> addr \<Rightarrow> fmd_event res" where
  "ev s a = load (f_events s) a"

definition cs :: "fmd \<Rightarrow> addr \<Rightarrow> fmd_case res" where
  "cs s a = load (f_cases s) a"

definition put_ev :: "addr \<Rightarrow> fmd_event \<Rightarrow> fmd \<Rightarrow> fmd" where
  "put_ev a e s = s\<lparr>f_events := (f_events s)(a \<mapsto> e)\<rparr>"

definition put_cs :: "addr \<Rightarrow> fmd_case \<Rightarrow> fmd \<Rightarrow> fmd" where
  "put_cs a c s = s\<lparr>f_cases := (f_cases s)(a \<mapsto> c)\<rparr>"

definition new_ev :: "fmd_event \<Rightarrow> fmd \<Rightarrow> addr \<times> fmd" where
  "new_ev e s = (f_next s, (put_ev (f_next s) e s)\<lparr>f_next := f_next s + 1\<rparr>)"

definition new_cs :: "fmd_case \<Rightarrow> fmd \<Rightarrow> addr \<times> fmd" where
  "new_cs c s = (f_next s, (put_cs (f_next s) c s)\<lparr>f_next := f_next s + 1\<rparr>)"

definition free_ev :: "addr \<Rightarrow> fmd \<Rightarrow> fmd res" where
  "free_ev a s = rbind (ev s a) (\<lambda>_. Inr (s\<lparr>f_events := (f_events s)(a := None)\<rparr>))"

definition free_cs :: "addr \<Rightarrow> fmd \<Rightarrow> fmd res" where
  "free_cs a s = rbind (cs s a) (\<lambda>_. Inr (s\<lparr>f_cases := (f_cases s)(a := None)\<rparr>))"

lemma ev_Inr [simp]: "ev s a = Inr e \<longleftrightarrow> a \<noteq> 0 \<and> f_events s a = Some e"
  by (simp add: ev_def)

lemma cs_Inr [simp]: "cs s a = Inr c \<longleftrightarrow> a \<noteq> 0 \<and> f_cases s a = Some c"
  by (simp add: cs_def)

lemma put_ev_simps [simp]:
  "f_events (put_ev a e s) = (f_events s)(a \<mapsto> e)" "f_cases (put_ev a e s) = f_cases s"
  "f_next (put_ev a e s) = f_next s" "f_list_case (put_ev a e s) = f_list_case s"
  "f_list_repaired (put_ev a e s) = f_list_repaired s" "f_list_agent (put_ev a e s) = f_list_agent s"
  "f_queue_ring (put_ev a e s) = f_queue_ring s" "f_esc (put_ev a e s) = f_esc s"
  "f_priv (put_ev a e s) = f_priv s" "f_db (put_ev a e s) = f_db s"
  "f_data_freed (put_ev a e s) = f_data_freed s"
  by (simp_all add: put_ev_def)

lemma put_cs_simps [simp]:
  "f_cases (put_cs a c s) = (f_cases s)(a \<mapsto> c)" "f_events (put_cs a c s) = f_events s"
  "f_next (put_cs a c s) = f_next s" "f_list_case (put_cs a c s) = f_list_case s"
  "f_list_repaired (put_cs a c s) = f_list_repaired s" "f_list_agent (put_cs a c s) = f_list_agent s"
  "f_queue_ring (put_cs a c s) = f_queue_ring s" "f_esc (put_cs a c s) = f_esc s"
  "f_priv (put_cs a c s) = f_priv s" "f_db (put_cs a c s) = f_db s"
  "f_data_freed (put_cs a c s) = f_data_freed s"
  by (simp_all add: put_cs_def)

lemma free_ev_Inr: "free_ev a s = Inr t \<longleftrightarrow> a \<noteq> 0 \<and> f_events s a \<noteq> None \<and> t = s\<lparr>f_events := (f_events s)(a := None)\<rparr>"
  by (auto simp: free_ev_def)

lemma free_cs_Inr: "free_cs a s = Inr t \<longleftrightarrow> a \<noteq> 0 \<and> f_cases s a \<noteq> None \<and> t = s\<lparr>f_cases := (f_cases s)(a := None)\<rparr>"
  by (auto simp: free_cs_def)

section \<open>\<^verbatim>\<open>lib/libfmd/fmd_nvpair.c\<close> and \<^verbatim>\<open>lib/libfmd/fmd_event.c\<close>\<close>

text \<open>\<^verbatim>\<open>nvlist_t\<close>: what an event source reports; a list of them is built with \<^verbatim>\<open>list_add\<close>.\<close>

record nvlist =
  nv_name :: string
  nv_dev_id :: "64 word"
  nv_value :: string
  nv_evt_id :: "64 word"
  nv_data :: addr

definition nvlist_alloc :: nvlist where
  "nvlist_alloc = \<lparr>nv_name = [], nv_dev_id = 0, nv_value = [], nv_evt_id = 0, nv_data = 0\<rparr>"

definition nvlist_head_alloc :: "nvlist list" where
  "nvlist_head_alloc = []"

definition nvlist_add_nvlist :: "nvlist list \<Rightarrow> nvlist \<Rightarrow> nvlist list" where
  "nvlist_add_nvlist head nvl = nvl # head"

definition REPAIRED_N :: int where "REPAIRED_N = 10"
definition REPAIRED_T :: int where "REPAIRED_T = 120"

definition fmd_create_ereport :: "int \<Rightarrow> string \<Rightarrow> nvlist \<Rightarrow> fmd \<Rightarrow> addr \<times> fmd" where
  "fmd_create_ereport now eclass p_nvl s =
     new_ev (event_zero\<lparr>ev_dev_name := nv_name p_nvl, ev_dev_id := nv_dev_id p_nvl,
       ev_evt_id := nv_evt_id p_nvl, ev_create := now, ev_class := eclass, ev_data := nv_data p_nvl,
       ev_repaired_N := REPAIRED_N, ev_repaired_T := REPAIRED_T\<rparr>) s"

text \<open>
  \<^verbatim>\<open>fmd_create_listevent\<close>: the class becomes \<^verbatim>\<open>list\<close> followed by the rest from the first dot on, in a
  buffer of 128 bytes.
\<close>

definition listevent_of :: "int \<Rightarrow> fmd_event \<Rightarrow> int \<Rightarrow> fmd_event res" where
  "listevent_of now e action =
     rbind (deref (strchr (ev_class e) (CHR ''.''))) (\<lambda>p.
       if 128 \<le> length (''list'' @ p) then Inl Buf_overflow
       else Inr (event_zero\<lparr>ev_dev_name := ev_dev_name e, ev_create := now, ev_class := ''list'' @ p,
         ev_agent_result := action, ev_dev_id := ev_dev_id e, ev_evt_id := ev_evt_id e,
         ev_repaired_N := ev_repaired_N e, ev_repaired_T := ev_repaired_T e, ev_refs := ev_refs e,
         ev_data := ev_data e\<rparr>))"

definition fmd_create_listevent :: "int \<Rightarrow> addr \<Rightarrow> int \<Rightarrow> fmd \<Rightarrow> (addr \<times> fmd) res" where
  "fmd_create_listevent now pevt action s =
     rbind (ev s pevt) (\<lambda>e. rbind (listevent_of now e action) (\<lambda>l. Inr (new_ev l s)))"

lemma listevent_of_ereport:
  assumes "is_pfx ''ereport.'' (ev_class e)" "length (ev_class e) < 128"
  obtains l where "listevent_of now e action = Inr l" "ev_class l = ''list.'' @ drop 8 (ev_class e)"
    "ev_dev_name l = ev_dev_name e" "ev_dev_id l = ev_dev_id e" "ev_evt_id l = ev_evt_id e"
    "ev_agent_result l = action" "length (ev_class l) < 128"
proof -
  obtain r where r: "ev_class e = ''ereport.'' @ r" using assms(1) by (auto simp: is_pfx_iff)
  then have "strchr (ev_class e) (CHR ''.'') = Some (CHR ''.'' # r)" by simp
  with assms(2) r that show ?thesis by (simp add: listevent_of_def)
qed

end
