(* ===== verification/Fms_Record.thy ===== *)
theory Fms_Record
  imports Fms_Event
begin

text \<open>
  The fault database of \<^verbatim>\<open>lib/libcase/ev_record.c\<close> and \<^verbatim>\<open>include/ev_record.h\<close>: the SQL texts built from
  the table descriptors, opening the database, and the handlers that store an event. Sqlite itself is
  not part of the sources: its return codes are arguments of the definitions, and what the code asks
  of it is the trace \<open>f_db\<close>. \<^verbatim>\<open>localtime\<close> is the argument \<open>lt\<close>.
\<close>

section \<open>Table descriptors\<close>

record db_fields =
  fld_name :: string
  fld_type :: string

record db_table_descriptor =
  tab_name :: string
  tab_fields :: "db_fields list"

definition dev_event_fields :: "db_fields list" where
  "dev_event_fields = [
     \<lparr>fld_name = ''id'', fld_type = ''INTEGER PRIMARY KEY''\<rparr>,
     \<lparr>fld_name = ''timestamp'', fld_type = ''TEXT''\<rparr>,
     \<lparr>fld_name = ''err_msg'', fld_type = ''TEXT''\<rparr>,
     \<lparr>fld_name = ''err_type'', fld_type = ''TEXT''\<rparr>,
     \<lparr>fld_name = ''dev_id'', fld_type = ''INTEGER''\<rparr>,
     \<lparr>fld_name = ''evt_id'', fld_type = ''INTEGER''\<rparr>,
     \<lparr>fld_name = ''detail'', fld_type = ''TEXT''\<rparr>,
     \<lparr>fld_name = ''evt_level'', fld_type = ''TEXT''\<rparr>]"

definition cpu_event_tab :: db_table_descriptor where
  "cpu_event_tab = \<lparr>tab_name = ''cpu_event'', tab_fields = dev_event_fields\<rparr>"

definition mem_event_tab :: db_table_descriptor where
  "mem_event_tab = \<lparr>tab_name = ''mem_event'', tab_fields = dev_event_fields\<rparr>"

definition disk_event_tab :: db_table_descriptor where
  "disk_event_tab = \<lparr>tab_name = ''disk_event'', tab_fields = dev_event_fields\<rparr>"

definition rep_record_fields :: "db_fields list" where
  "rep_record_fields = [
     \<lparr>fld_name = ''id'', fld_type = ''INTEGER PRIMARY KEY''\<rparr>,
     \<lparr>fld_name = ''device_name'', fld_type = ''TEXT''\<rparr>,
     \<lparr>fld_name = ''timestamp_rep'', fld_type = ''TEXT''\<rparr>,
     \<lparr>fld_name = ''timestamp_1'', fld_type = ''TEXT''\<rparr>,
     \<lparr>fld_name = ''timestamp_2'', fld_type = ''TEXT''\<rparr>,
     \<lparr>fld_name = ''err_type'', fld_type = ''TEXT''\<rparr>,
     \<lparr>fld_name = ''err_msg'', fld_type = ''TEXT''\<rparr>,
     \<lparr>fld_name = ''action'', fld_type = ''TEXT''\<rparr>,
     \<lparr>fld_name = ''err_count'', fld_type = ''INTEGER''\<rparr>,
     \<lparr>fld_name = ''dev_id'', fld_type = ''INTEGER''\<rparr>,
     \<lparr>fld_name = ''evt_id'', fld_type = ''INTEGER''\<rparr>]"

definition rep_record_tab :: db_table_descriptor where
  "rep_record_tab = \<lparr>tab_name = ''rep_event'', tab_fields = rep_record_fields\<rparr>"

definition norep_record_tab :: db_table_descriptor where
  "norep_record_tab = \<lparr>tab_name = ''norep_event'', tab_fields = rep_record_fields\<rparr>"

definition stmt_tab :: "db_stmt \<Rightarrow> db_table_descriptor" where
  "stmt_tab st = (case st of Stmt_cpu \<Rightarrow> cpu_event_tab | Stmt_mem \<Rightarrow> mem_event_tab
     | Stmt_disk \<Rightarrow> disk_event_tab | Stmt_rep \<Rightarrow> rep_record_tab | Stmt_norep \<Rightarrow> norep_record_tab)"

lemmas tab_defs = stmt_tab_def cpu_event_tab_def mem_event_tab_def disk_event_tab_def
  rep_record_tab_def norep_record_tab_def dev_event_fields_def rep_record_fields_def

section \<open>SQL texts\<close>

text \<open>The loop that writes the elements with a comma after each but the last.\<close>

fun sql_join :: "string list \<Rightarrow> string" where
  "sql_join [] = []"
| "sql_join [f] = f"
| "sql_join (f # fs) = f @ '', '' @ sql_join fs"

text \<open>The loop \<^verbatim>\<open>for (i = 1; i < num_fields; i++)\<close> that appends a placeholder per column.\<close>

fun sql_marks :: "nat \<Rightarrow> string" where
  "sql_marks 0 = []"
| "sql_marks (Suc 0) = ''?)''"
| "sql_marks (Suc n) = ''?, '' @ sql_marks n"

definition insert_sql :: "db_table_descriptor \<Rightarrow> string" where
  "insert_sql db_tab = ''INSERT INTO '' @ tab_name db_tab @ '' ('' @
     sql_join (map fld_name (tab_fields db_tab)) @ '') VALUES ( NULL, '' @
     sql_marks (length (tab_fields db_tab) - 1)"

definition create_sql :: "db_table_descriptor \<Rightarrow> string" where
  "create_sql db_tab = ''CREATE TABLE IF NOT EXISTS '' @ tab_name db_tab @ '' ('' @
     sql_join (map (\<lambda>f. fld_name f @ '' '' @ fld_type f) (tab_fields db_tab)) @ '')''"

definition SQLITE_OK :: int where "SQLITE_OK = 0"
definition SQLITE_BUSY :: int where "SQLITE_BUSY = 5"

text \<open>
  \<^verbatim>\<open>ras_prepare_stmt\<close> and \<^verbatim>\<open>rasdb_create_table\<close>: the text is built in a buffer of 1024 bytes; \<open>prep\<close> and
  \<open>exec\<close> are sqlite's answers to it.
\<close>

definition ras_prepare_stmt :: "(string \<Rightarrow> int) \<Rightarrow> db_table_descriptor \<Rightarrow> int res" where
  "ras_prepare_stmt prep db_tab =
     (if 1024 \<le> length (insert_sql db_tab) then Inl Buf_overflow else Inr (prep (insert_sql db_tab)))"

definition rasdb_create_table :: "(string \<Rightarrow> int) \<Rightarrow> db_table_descriptor \<Rightarrow> int res" where
  "rasdb_create_table exec db_tab =
     (if 1024 \<le> length (create_sql db_tab) then Inl Buf_overflow else Inr (exec (create_sql db_tab)))"

fun open_tables :: "(string \<Rightarrow> int) \<Rightarrow> (string \<Rightarrow> int) \<Rightarrow> db_stmt list \<Rightarrow> db_stmt list res" where
  "open_tables exec prep [] = Inr []"
| "open_tables exec prep (st # sts) =
     rbind (rasdb_create_table exec (stmt_tab st)) (\<lambda>rc.
     rbind (if rc = SQLITE_OK then ras_prepare_stmt prep (stmt_tab st) else Inr 1) (\<lambda>rc'.
     rbind (open_tables exec prep sts) (\<lambda>r. Inr (if rc' = SQLITE_OK then st # r else r))))"

text \<open>
  \<^verbatim>\<open>ras_event_opendb\<close>: \<open>rcs\<close> are the results of the successive attempts to open the file, which are
  repeated while sqlite is busy; when they run out the loop is still waiting.
\<close>

definition ras_event_opendb ::
  "int \<Rightarrow> int list \<Rightarrow> (string \<Rightarrow> int) \<Rightarrow> (string \<Rightarrow> int) \<Rightarrow> fmd \<Rightarrow> (int \<times> fmd) res" where
  "ras_event_opendb init_rc rcs exec prep s =
     (if init_rc \<noteq> SQLITE_OK then Inr (-1, s\<lparr>f_priv := Some []\<rparr>)
      else case dropWhile (\<lambda>rc. rc = SQLITE_BUSY) rcs of
        [] \<Rightarrow> Inl Would_block
      | rc # _ \<Rightarrow>
          if rc \<noteq> SQLITE_OK then Inr (-1, s\<lparr>f_priv := Some []\<rparr>)
          else rbind (open_tables exec prep [Stmt_cpu, Stmt_mem, Stmt_disk, Stmt_rep, Stmt_norep])
            (\<lambda>sts. Inr (0, s\<lparr>f_priv := Some sts\<rparr>)))"

section \<open>Storing an event\<close>

record tm =
  tm_year :: int
  tm_mon :: int
  tm_mday :: int
  tm_hour :: int
  tm_min :: int
  tm_sec :: int

definition time2string :: "(int \<Rightarrow> tm) \<Rightarrow> int \<Rightarrow> string" where
  "time2string lt t = (let m = lt t in
     pad0 4 (dec (tm_year m + 1900)) @ ''-'' @ pad0 2 (dec (tm_mon m + 1)) @ ''-'' @
     pad0 2 (dec (tm_mday m)) @ '' '' @ dec (tm_hour m) @ '':'' @ dec (tm_min m) @ '':'' @ dec (tm_sec m))"

definition has_stmt :: "fmd \<Rightarrow> db_stmt \<Rightarrow> bool" where
  "has_stmt s st = (case f_priv s of None \<Rightarrow> False | Some sts \<Rightarrow> st \<in> set sts)"

text \<open>\<^verbatim>\<open>sqlite3_bind_int\<close> takes an \<^verbatim>\<open>int\<close>: a 64-bit identifier loses its upper half.\<close>

definition int_arg :: "64 word \<Rightarrow> db_val" where
  "int_arg w = Num (to_int32 (sint w))"

definition bind_level :: "db_stmt \<Rightarrow> fmd_event \<Rightarrow> db_call list" where
  "bind_level st e =
     (if ev_event_type e = EVENT_SERD then [Bind st 7 (Txt ''Minor'')]
      else if ev_event_type e = EVENT_FAULT then [Bind st 7 (Txt ''Major'')]
      else [])"

definition dev_calls :: "(int \<Rightarrow> tm) \<Rightarrow> db_stmt \<Rightarrow> fmd_event \<Rightarrow> db_call list" where
  "dev_calls lt st e =
     [Bind st 1 (Txt (time2string lt (ev_create e))), Bind st 2 (Txt (ev_class e)),
      Bind st 3 (Num (ev_event_type e)), Bind st 4 (int_arg (ev_dev_id e)),
      Bind st 5 (int_arg (ev_evt_id e)), Bind st 6 (Ptr (ev_data e))] @ bind_level st e @
     [Step st, Reset st]"

text \<open>\<open>rc\<close> is sqlite's answer to the last call of a trace; the handlers return that of the reset.\<close>

definition ras_store_cpu_event :: "(int \<Rightarrow> tm) \<Rightarrow> (db_call list \<Rightarrow> int) \<Rightarrow> fmd_event \<Rightarrow> fmd \<Rightarrow> int \<times> fmd" where
  "ras_store_cpu_event lt rc e s =
     (if \<not> has_stmt s Stmt_cpu then (0, s)
      else let db = f_db s @ dev_calls lt Stmt_cpu e in (rc db, s\<lparr>f_db := db\<rparr>))"

definition ras_store_mem_event :: "(int \<Rightarrow> tm) \<Rightarrow> (db_call list \<Rightarrow> int) \<Rightarrow> fmd_event \<Rightarrow> fmd \<Rightarrow> int \<times> fmd" where
  "ras_store_mem_event lt rc e s =
     (if \<not> has_stmt s Stmt_mem then (0, s)
      else let db = f_db s @ dev_calls lt Stmt_mem e in (rc db, s\<lparr>f_db := db\<rparr>))"

definition ras_store_disk_event :: "(int \<Rightarrow> tm) \<Rightarrow> (db_call list \<Rightarrow> int) \<Rightarrow> fmd_event \<Rightarrow> fmd \<Rightarrow> int \<times> fmd" where
  "ras_store_disk_event lt rc e s =
     (if \<not> has_stmt s Stmt_disk then (0, s)
      else let db = f_db s @ dev_calls lt Stmt_disk e in (rc db, s\<lparr>f_db := db\<rparr>))"

definition rep_calls :: "(int \<Rightarrow> tm) \<Rightarrow> fmd_event \<Rightarrow> db_call list" where
  "rep_calls lt e =
     [Bind Stmt_rep 1 (Txt (ev_dev_name e)), Bind Stmt_rep 2 (Txt (time2string lt (ev_repaired_T e))),
      Bind Stmt_rep 3 (Txt (time2string lt (ev_create e))),
      Bind Stmt_rep 4 (Txt (time2string lt (ev_last_occur e))),
      Bind Stmt_rep 5 (Num (ev_event_type e)), Bind Stmt_rep 6 (Txt (ev_class e)),
      Bind Stmt_rep 7 (Txt ''offline''), Bind Stmt_rep 8 (Num (ev_count e)),
      Bind Stmt_rep 9 (int_arg (ev_dev_id e)), Bind Stmt_rep 10 (int_arg (ev_evt_id e)),
      Step Stmt_rep, Reset Stmt_rep]"

definition ras_store_rep_event :: "(int \<Rightarrow> tm) \<Rightarrow> (db_call list \<Rightarrow> int) \<Rightarrow> fmd_event \<Rightarrow> fmd \<Rightarrow> int \<times> fmd" where
  "ras_store_rep_event lt rc e s =
     (if \<not> has_stmt s Stmt_rep then (0, s)
      else let db = f_db s @ rep_calls lt e in (rc db, s\<lparr>f_db := db\<rparr>))"

text \<open>
  \<^verbatim>\<open>ras_store_norep_event\<close> tests the disk statement and then uses the one of \<^verbatim>\<open>rep_event\<close>; with a null
  statement sqlite does nothing (its calls return an error).
\<close>

definition ras_store_norep_event :: "(int \<Rightarrow> tm) \<Rightarrow> (db_call list \<Rightarrow> int) \<Rightarrow> fmd_event \<Rightarrow> fmd \<Rightarrow> int \<times> fmd" where
  "ras_store_norep_event lt rc e s =
     (if \<not> has_stmt s Stmt_disk then (0, s)
      else let db = f_db s @ rep_calls lt e in
        (rc db, if has_stmt s Stmt_rep then s\<lparr>f_db := db\<rparr> else s))"

text \<open>The table \<^verbatim>\<open>g_store_handler\<close> and its search.\<close>

definition g_store_handler :: "(string \<times> db_stmt) list" where
  "g_store_handler = [(''cpu'', Stmt_cpu), (''mem'', Stmt_mem), (''disk'', Stmt_disk)]"

definition store_handler ::
  "db_stmt \<Rightarrow> (int \<Rightarrow> tm) \<Rightarrow> (db_call list \<Rightarrow> int) \<Rightarrow> fmd_event \<Rightarrow> fmd \<Rightarrow> int \<times> fmd" where
  "store_handler st = (case st of Stmt_cpu \<Rightarrow> ras_store_cpu_event | Stmt_mem \<Rightarrow> ras_store_mem_event
     | _ \<Rightarrow> ras_store_disk_event)"

fun handler_search :: "(string \<times> db_stmt) list \<Rightarrow> string \<Rightarrow> db_stmt option" where
  "handler_search [] dev = None"
| "handler_search ((name, st) # hs) dev =
     (if strncmp_eq name dev (length name) then Some st else handler_search hs dev)"

definition ras_events_handle :: "(int \<Rightarrow> tm) \<Rightarrow> (db_call list \<Rightarrow> int) \<Rightarrow> fmd_event \<Rightarrow> fmd \<Rightarrow> int \<times> fmd" where
  "ras_events_handle lt rc e s =
     (case handler_search g_store_handler (ev_dev_name e) of
        Some st \<Rightarrow> store_handler st lt rc e s
      | None \<Rightarrow> (-1, s))"

section \<open>What is stored\<close>

lemma store_handler_db:
  assumes "handler_search g_store_handler d = Some st"
  shows "store_handler st lt rc e s =
    (if has_stmt s st then (rc (f_db s @ dev_calls lt st e), s\<lparr>f_db := f_db s @ dev_calls lt st e\<rparr>) else (0, s))"
  using assms by (auto simp: g_store_handler_def store_handler_def ras_store_cpu_event_def
      ras_store_mem_event_def ras_store_disk_event_def Let_def split: if_splits)

text \<open>Only the trace of sqlite calls changes.\<close>

lemma ras_events_handle_frame: "\<exists>db. snd (ras_events_handle lt rc e s) = s\<lparr>f_db := db\<rparr>"
proof (cases "handler_search g_store_handler (ev_dev_name e)")
  case (Some st)
  then show ?thesis
    by (cases "has_stmt s st") (auto simp: ras_events_handle_def store_handler_db intro: exI [of _ "f_db s"])
qed (auto simp: ras_events_handle_def intro: exI [of _ "f_db s"])

lemma ras_store_rep_event_frame: "\<exists>db. snd (ras_store_rep_event lt rc e s) = s\<lparr>f_db := db\<rparr>"
  by (auto simp: ras_store_rep_event_def Let_def intro: exI [of _ "f_db s"])

text \<open>
  The row a step writes: sqlite keeps a parameter's last binding over a reset, so the value of
  column \<open>i\<close> is the last one bound before the step.
\<close>

fun bound_value :: "db_call list \<Rightarrow> db_stmt \<Rightarrow> nat \<Rightarrow> db_val option" where
  "bound_value [] st i = None"
| "bound_value (c # db) st i = (case bound_value db st i of Some v \<Rightarrow> Some v | None \<Rightarrow>
     (case c of Bind st' j v \<Rightarrow> if st' = st \<and> j = i then Some v else None | _ \<Rightarrow> None))"

definition marks :: "string \<Rightarrow> nat" where
  "marks sql = length (filter (\<lambda>c. c = CHR ''?'') sql)"

lemma marks_append [simp]: "marks (a @ b) = marks a + marks b"
  by (simp add: marks_def)

lemma marks_sql_marks [simp]: "marks (sql_marks n) = n"
  by (induction n rule: sql_marks.induct) (simp_all add: marks_def)

text \<open>
  The SQL texts fit the 1024-byte buffers for every table of the program, so opening the database
  never overruns them; each INSERT has one placeholder per column besides the key, which are the
  parameters the handlers bind.
\<close>

theorem sql_texts_fit:
  "length (insert_sql (stmt_tab st)) < 1024 \<and> length (create_sql (stmt_tab st)) < 1024 \<and>
   marks (insert_sql (stmt_tab st)) = length (tab_fields (stmt_tab st)) - 1 \<and>
   (case ras_event_opendb init_rc rcs exec prep s of Inl e \<Rightarrow> e = Would_block | Inr _ \<Rightarrow> True)"
proof -
  have len: "length (insert_sql (stmt_tab st)) < 1024 \<and> length (create_sql (stmt_tab st)) < 1024" for st
    by (cases st) (simp_all add: insert_sql_def create_sql_def tab_defs numeral_eq_Suc)
  have "marks (insert_sql (stmt_tab st)) = length (tab_fields (stmt_tab st)) - 1"
    by (cases st) (simp_all add: insert_sql_def tab_defs, simp_all add: marks_def)
  moreover have ok: "\<exists>r. open_tables exec prep sts = Inr r" for sts
  proof (induction sts)
    case (Cons st sts)
    then show ?case using len [of st] by (auto simp: rasdb_create_table_def ras_prepare_stmt_def)
  qed simp
  moreover have "case ras_event_opendb init_rc rcs exec prep s of Inl e \<Rightarrow> e = Would_block | Inr _ \<Rightarrow> True"
  proof -
    obtain r where "open_tables exec prep [Stmt_cpu, Stmt_mem, Stmt_disk, Stmt_rep, Stmt_norep] = Inr r"
      using ok by blast
    then show ?thesis
      by (simp add: ras_event_opendb_def del: open_tables.simps split: list.split)
  qed
  ultimately show ?thesis using len by simp
qed

lemma bound_value_append:
  "bound_value (db @ xs) st i = (case bound_value xs st i of Some v \<Rightarrow> Some v | None \<Rightarrow> bound_value db st i)"
  by (induction db) (simp_all split: option.splits)

text \<open>
  C13. What a stored event leaves in the database: an event whose device name starts with \<^verbatim>\<open>cpu\<close>,
  \<^verbatim>\<open>mem\<close> or \<^verbatim>\<open>disk\<close> is stepped once into that device's table, with the event's own class, type and
  (truncated) identifiers bound whatever was stored before, and the other tables' bindings are
  untouched. The severity column is the event's own for SERD (Minor) and fault (Major) events; for any
  other type no severity is bound and the row repeats that of the previous event of the table.
\<close>

theorem stored_row:
  assumes "handler_search g_store_handler (ev_dev_name e) = Some st" "has_stmt s st"
    and "db = f_db (snd (ras_events_handle lt rc e s))"
  shows "bound_value db st 2 = Some (Txt (ev_class e)) \<and>
    bound_value db st 3 = Some (Num (ev_event_type e)) \<and>
    bound_value db st 4 = Some (int_arg (ev_dev_id e)) \<and> bound_value db st 5 = Some (int_arg (ev_evt_id e)) \<and>
    bound_value db st 7 = (if ev_event_type e = EVENT_SERD then Some (Txt ''Minor'')
      else if ev_event_type e = EVENT_FAULT then Some (Txt ''Major'') else bound_value (f_db s) st 7) \<and>
    (\<forall>st' i. st' \<noteq> st \<longrightarrow> bound_value db st' i = bound_value (f_db s) st' i) \<and>
    filter (\<lambda>c. c = Step st) db = filter (\<lambda>c. c = Step st) (f_db s) @ [Step st]"
proof -
  have db: "db = f_db s @ dev_calls lt st e"
    using assms by (simp add: ras_events_handle_def store_handler_db)
  have "st' \<noteq> st \<Longrightarrow> bound_value (dev_calls lt st e) st' i = None" for st' i
    by (simp add: dev_calls_def bind_level_def)
  then show ?thesis
    unfolding db bound_value_append
    by (simp add: dev_calls_def bind_level_def)
qed

definition rec_demo :: fmd where
  "rec_demo = \<lparr>f_events = (\<lambda>_. None), f_cases = (\<lambda>_. None), f_next = 1, f_list_case = [],
     f_list_repaired = [], f_list_agent = [], f_queue_ring = ring_init, f_esc = esc_init,
     f_priv = Some [Stmt_cpu], f_db = [], f_data_freed = []\<rparr>"

theorem stored_row_witness:
  "handler_search g_store_handler ''cpu3'' = Some Stmt_cpu \<and> has_stmt rec_demo Stmt_cpu \<and>
   bound_value (f_db (snd (ras_events_handle (\<lambda>_. \<lparr>tm_year = 70, tm_mon = 0, tm_mday = 1, tm_hour = 0,
     tm_min = 0, tm_sec = 0\<rparr>) (\<lambda>_. 0) (event_zero\<lparr>ev_dev_name := ''cpu3'', ev_class := ''ereport.cpu.x''\<rparr>) rec_demo)))
     Stmt_cpu 2 = Some (Txt ''ereport.cpu.x'')"
proof -
  let ?e = "event_zero\<lparr>ev_dev_name := ''cpu3'', ev_class := ''ereport.cpu.x''\<rparr>"
  have "handler_search g_store_handler (ev_dev_name ?e) = Some Stmt_cpu" "has_stmt rec_demo Stmt_cpu"
    by (simp_all add: g_store_handler_def strncmp_eq_def has_stmt_def rec_demo_def)
  from this stored_row [OF this refl] show ?thesis by simp
qed

end
