(* ===== verification/Fms_Dispatch.thy ===== *)
theory Fms_Dispatch
  imports Fms_Record
begin

text \<open>
  Subscription matching and hand-over to the agents: \<^verbatim>\<open>fmd_sub_matches\<close> and \<^verbatim>\<open>put_to_agents\<close> of
  \<^verbatim>\<open>fms/fmd_queue.c\<close>. They come before the cases because firing a case calls \<^verbatim>\<open>put_to_agents\<close>.
\<close>

section \<open>The code\<close>

text \<open>
  \<^verbatim>\<open>fmd_sub_matches\<close> returns -1 on a null argument (which its caller takes for a match), otherwise 1
  or 0. A subscription without a dot, or a class without one, is a null pointer given to \<^verbatim>\<open>strcmp\<close>.
\<close>

definition fmd_sub_matches :: "string option \<Rightarrow> string option \<Rightarrow> int res" where
  "fmd_sub_matches eclass sub =
     (case (eclass, sub) of
        (Some c, Some sb) \<Rightarrow>
          rbind (deref (strrchr sb (CHR ''.''))) (\<lambda>p.
          rbind (deref (strchr sb (CHR ''.''))) (\<lambda>p_sub_head.
          rbind (deref (strchr c (CHR ''.''))) (\<lambda>p_class_head.
            let size = length p_sub_head - length p in
            if p = ''.*'' then Inr (if strncmp_eq p_class_head p_sub_head size then 1 else 0)
            else Inr (if p_class_head = p_sub_head then 1 else 0))))
      | _ \<Rightarrow> Inr (-1))"

text \<open>The two nested loops of \<^verbatim>\<open>put_to_agents\<close>: the first agent with a matching subscription.\<close>

fun sub_search :: "string \<Rightarrow> string list \<Rightarrow> bool res" where
  "sub_search c [] = Inr False"
| "sub_search c (sb # sbs) =
     rbind (fmd_sub_matches (Some c) (Some sb)) (\<lambda>r. if r \<noteq> 0 then Inr True else sub_search c sbs)"

fun agent_search :: "string \<Rightarrow> agent_module list \<Rightarrow> nat option res" where
  "agent_search c [] = Inr None"
| "agent_search c (m # ms) =
     rbind (sub_search c (am_list_eclass m)) (\<lambda>hit.
       if hit then Inr (Some 0) else rbind (agent_search c ms) (\<lambda>r. Inr (map_option Suc r)))"

definition put_to_agents :: "addr \<Rightarrow> fmd \<Rightarrow> fmd res" where
  "put_to_agents p_evt s =
     rbind (ev s p_evt) (\<lambda>e.
     rbind (agent_search (ev_class e) (f_list_agent s)) (\<lambda>r.
       case r of
         None \<Rightarrow> Inr s
       | Some i \<Rightarrow>
           rbind (put_to_agent (am_ring (f_list_agent s ! i)) p_evt) (\<lambda>ring.
             Inr (s\<lparr>f_list_agent := (f_list_agent s)[i := (f_list_agent s ! i)\<lparr>am_ring := ring\<rparr>]\<rparr>))))"

section \<open>What a subscription means\<close>

text \<open>A subscription is usable when it has a dot.\<close>

definition sub_ok :: "string \<Rightarrow> bool" where
  "sub_ok sb \<longleftrightarrow> CHR ''.'' \<in> set sb"

lemma strchr_ex: "c \<in> set s \<Longrightarrow> \<exists>p. strchr s c = Some p"
  using strchr_None [of s c] by (cases "strchr s c") auto

lemma strrchr_ex: "c \<in> set s \<Longrightarrow> \<exists>p. strrchr s c = Some p"
  using strrchr_None [of s c] by (cases "strrchr s c") auto

text \<open>The specification: from the first dot on, equal, or equal up to the final \<^verbatim>\<open>.*\<close>.\<close>

definition from_dot :: "string \<Rightarrow> string" where
  "from_dot s = dropWhile (\<lambda>c. c \<noteq> CHR ''.'') s"

definition sub_spec :: "string \<Rightarrow> string \<Rightarrow> bool" where
  "sub_spec c sb \<longleftrightarrow>
     (if drop (length (from_dot sb) - 2) (from_dot sb) = ''.*''
      then is_pfx (take (length (from_dot sb) - 2) (from_dot sb)) (from_dot c)
      else from_dot c = from_dot sb)"

lemma strchr_from_dot: "CHR ''.'' \<in> set s \<Longrightarrow> strchr s (CHR ''.'') = Some (from_dot s)"
  by (induction s) (auto simp: from_dot_def)

lemma strrchr_suffix: "strrchr s c = Some p \<Longrightarrow> strchr s c = Some q \<Longrightarrow> \<exists>a. q = a @ p"
proof (induction s)
  case (Cons x s)
  then show ?case
    by (cases "x = c"; cases "strrchr s c")
      (auto simp: strrchr_None strchr_None strrchr_Some split: option.splits)
qed simp

lemma strrchr_dot_star: "strrchr s (CHR ''.'') = Some p \<Longrightarrow> strchr s (CHR ''.'') = Some q \<Longrightarrow>
    p = ''.*'' \<longleftrightarrow> drop (length q - 2) q = ''.*''"
proof -
  assume p: "strrchr s (CHR ''.'') = Some p" and q: "strchr s (CHR ''.'') = Some q"
  obtain a where a: "q = a @ p" using strrchr_suffix [OF p q] by blast
  obtain r where r: "p = CHR ''.'' # r" "CHR ''.'' \<notin> set r" using p by (auto simp: strrchr_Some)
  show ?thesis
  proof
    assume "drop (length q - 2) q = ''.*''"
    then obtain b where b: "q = b @ ''.*''" by (metis append_take_drop_id)
    then have "strrchr q (CHR ''.'') = Some ''.*''" by (simp add: strrchr_Some)
    moreover have "strrchr q (CHR ''.'') = Some p" using a r by (simp add: strrchr_Some)
    ultimately show "p = ''.*''" by simp
  qed (simp add: a)
qed

lemma fmd_sub_matches_spec:
  assumes "sub_ok sb" "CHR ''.'' \<in> set c"
  shows "fmd_sub_matches (Some c) (Some sb) = Inr (if sub_spec c sb then 1 else 0)"
proof -
  obtain p where p: "strrchr sb (CHR ''.'') = Some p"
    using assms(1) strrchr_ex [of "CHR ''.''" sb] by (auto simp: sub_ok_def)
  have q: "strchr sb (CHR ''.'') = Some (from_dot sb)" "strchr c (CHR ''.'') = Some (from_dot c)"
    using assms by (simp_all add: strchr_from_dot sub_ok_def)
  have star: "p = ''.*'' \<longleftrightarrow> drop (length (from_dot sb) - 2) (from_dot sb) = ''.*''"
    by (rule strrchr_dot_star [OF p q(1)])
  show ?thesis
  proof (cases "p = ''.*''")
    case True
    then have "length (drop (length (from_dot sb) - 2) (from_dot sb)) = 2" using star by simp
    then have "2 \<le> length (from_dot sb)" by simp
    then show ?thesis using True p q star
      by (auto simp: fmd_sub_matches_def sub_spec_def strncmp_eq_def is_pfx_def numeral_2_eq_2)
  qed (use p q star in \<open>auto simp: fmd_sub_matches_def sub_spec_def\<close>)
qed

definition wants :: "string \<Rightarrow> agent_module \<Rightarrow> bool" where
  "wants c m \<longleftrightarrow> list_ex (sub_spec c) (am_list_eclass m)"

lemma sub_search_spec:
  "list_all sub_ok sbs \<Longrightarrow> CHR ''.'' \<in> set c \<Longrightarrow> sub_search c sbs = Inr (list_ex (sub_spec c) sbs)"
  by (induction sbs) (simp_all add: fmd_sub_matches_spec)

text \<open>The index of the first agent that wants a class.\<close>

fun first_want :: "string \<Rightarrow> agent_module list \<Rightarrow> nat option" where
  "first_want c [] = None"
| "first_want c (m # ms) = (if wants c m then Some 0 else map_option Suc (first_want c ms))"

lemma agent_search_spec:
  "list_all (\<lambda>m. list_all sub_ok (am_list_eclass m)) ms \<Longrightarrow> CHR ''.'' \<in> set c \<Longrightarrow>
   agent_search c ms = Inr (first_want c ms)"
  by (induction ms) (simp_all add: sub_search_spec wants_def)

lemma first_want_Some:
  "first_want c ms = Some i \<Longrightarrow> i < length ms \<and> wants c (ms ! i) \<and> (\<forall>j < i. \<not> wants c (ms ! j))"
proof (induction ms arbitrary: i)
  case (Cons m ms)
  show ?case
  proof (cases "wants c m")
    case False
    with Cons.prems obtain k where k: "i = Suc k" "first_want c ms = Some k" by auto
    with Cons.IH [OF k(2)] False show ?thesis by (auto simp: less_Suc_eq_0_disj)
  qed (use Cons.prems in simp)
qed simp

lemma first_want_None: "first_want c ms = None \<longleftrightarrow> (\<forall>m \<in> set ms. \<not> wants c m)"
  by (induction ms) auto

text \<open>
  C12. Subscription matching: for a subscription with a dot and a class with a dot the code never makes
  a wild access; the part before the first dot plays no role; a subscription that ends in \<^verbatim>\<open>.*\<close> accepts
  exactly the classes that continue, from their first dot on, with what stands before the \<^verbatim>\<open>.*\<close>, and
  any other subscription only the class that is equal to it from there on.
\<close>

theorem sub_matches_correct:
  assumes "CHR ''.'' \<notin> set h" "CHR ''.'' \<notin> set h'" "m = [] \<or> hd m = CHR ''.''" "hd r = CHR ''.''" "r \<noteq> []"
  shows "fmd_sub_matches (Some (h' @ r)) (Some (h @ m @ ''.*'')) = Inr (if is_pfx m r then 1 else 0) \<and>
    (m \<noteq> [] \<longrightarrow> drop (length m - 2) m \<noteq> ''.*'' \<longrightarrow>
       fmd_sub_matches (Some (h' @ r)) (Some (h @ m)) = Inr (if r = m then 1 else 0))"
proof -
  have fd: "from_dot (a @ x) = x" if "CHR ''.'' \<notin> set a" "x \<noteq> []" "hd x = CHR ''.''" for a x
    using that by (induction a) (auto simp: from_dot_def neq_Nil_conv)
  have r: "from_dot (h' @ r) = r" "CHR ''.'' \<in> set (h' @ r)" using assms fd [of h' r] by (auto simp: neq_Nil_conv)
  have m1: "from_dot (h @ m @ ''.*'') = m @ ''.*''" using assms fd [of h "m @ ''.*''"] by (cases m) auto
  have "sub_ok (h @ m @ ''.*'')" by (simp add: sub_ok_def)
  then have "fmd_sub_matches (Some (h' @ r)) (Some (h @ m @ ''.*'')) = Inr (if is_pfx m r then 1 else 0)"
    using r by (simp add: fmd_sub_matches_spec sub_spec_def m1)
  moreover have "fmd_sub_matches (Some (h' @ r)) (Some (h @ m)) = Inr (if r = m then 1 else 0)"
    if "m \<noteq> []" "drop (length m - 2) m \<noteq> ''.*''"
  proof -
    have "sub_ok (h @ m)" "from_dot (h @ m) = m" using that assms fd [of h m] by (auto simp: sub_ok_def neq_Nil_conv)
    then show ?thesis using r that by (simp add: fmd_sub_matches_spec sub_spec_def)
  qed
  ultimately show ?thesis by blast
qed

theorem sub_matches_correct_witness:
  "fmd_sub_matches (Some ''ereport.cpumem.ce'') (Some ''ereport.cpu.*'') = Inr 1 \<and>
   fmd_sub_matches (Some ''ereport.disk.x'') (Some ''ereport.cpu.*'') = Inr 0"
  using sub_matches_correct [of "''ereport''" "''ereport''" "''.cpu''" "''.cpumem.ce''"]
    sub_matches_correct [of "''ereport''" "''ereport''" "''.cpu''" "''.disk.x''"]
  by (simp add: is_pfx_def)

end
