(* ===== verification/Fms_Case.thy ===== *)
theory Fms_Case
  imports Fms_Dispatch
begin

text \<open>
  The diagnosis of \<^verbatim>\<open>lib/libcase/fmd_case.c\<close>: one case per device, the events of a case by their event
  id, the SERD rule that decides when a case fires, and the removal of repaired cases.
\<close>

section \<open>The code\<close>

text \<open>What a handler takes from outside: the time, \<^verbatim>\<open>localtime\<close> and sqlite's return codes.\<close>

record env =
  e_now :: int
  e_lt :: "int \<Rightarrow> tm"
  e_rc :: "db_call list \<Rightarrow> int"

text \<open>
  \<^verbatim>\<open>case_to_db\<close> (its only call is commented out): the key and the value it writes to the case
  database that holds \<open>rnum\<close> records, both in buffers of 128 bytes.
\<close>

definition case_to_db :: "nat \<Rightarrow> fmd_case \<Rightarrow> (string \<times> string) res" where
  "case_to_db rnum pcase =
     (let key = (if strstr (cs_dev_name pcase) ''sd'' \<noteq> None \<or> strstr (cs_dev_name pcase) ''hd'' \<noteq> None
            then ''NO'' @ nat_str 10 (rnum + 1) @ ''-'' @ cs_dev_name pcase
            else ''NO'' @ nat_str 10 (rnum + 1) @ ''-'' @ cs_dev_name pcase @ dec (sint (cs_dev_id pcase)));
          value = ''eclass:'' @ cs_last_eclass pcase @ '', first time:'' @ dec (cs_create pcase) @
            '', last time:'' @ dec (cs_last_fire pcase) @ '', ereport total count:'' @
            dec (cs_total_count pcase mod 2 ^ 32) @ ''.''
      in if 128 \<le> length key \<or> 128 \<le> length value then Inl Buf_overflow else Inr (key, value))"

text \<open>\<^verbatim>\<open>last_eclass\<close> has 128 bytes.\<close>

definition case_new :: "env \<Rightarrow> fmd_event \<Rightarrow> fmd_case" where
  "case_new en e = \<lparr>cs_dev_name = ev_dev_name e, cs_dev_id = ev_dev_id e, cs_last_eclass = ev_class e,
     cs_flag = CASE_CREATE, cs_total_count = 0, cs_fire_counts = 0, cs_create = e_now en,
     cs_first_fire = 0, cs_last_fire = 0, cs_close = 0, m_event_using = 0, cs_event = []\<rparr>"

definition fmd_case_create :: "env \<Rightarrow> addr \<Rightarrow> fmd \<Rightarrow> (addr \<times> fmd) res" where
  "fmd_case_create en pevt s =
     rbind (ev s pevt) (\<lambda>e.
       if 128 \<le> length (ev_class e) then Inl Buf_overflow else Inr (new_cs (case_new en e) s))"

text \<open>The fault event a firing case sends: a copy of the event's identity.\<close>

definition fault_of :: "fmd_event \<Rightarrow> int \<Rightarrow> fmd_event" where
  "fault_of e refs = event_zero\<lparr>ev_dev_name := ev_dev_name e, ev_class := ev_class e,
     ev_dev_id := ev_dev_id e, ev_evt_id := ev_evt_id e, ev_data := ev_data e,
     ev_repaired_N := ev_repaired_N e, ev_repaired_T := ev_repaired_T e,
     ev_flag := AGENT_TODO, ev_event_type := EVENT_FAULT, ev_refs := refs\<rparr>"

definition fire_mark :: "env \<Rightarrow> fmd_case \<Rightarrow> fmd_case" where
  "fire_mark en c = c\<lparr>cs_first_fire := (if cs_fire_counts c = 0 then e_now en else cs_first_fire c),
     cs_last_fire := e_now en, cs_fire_counts := cs_fire_counts c + 1, cs_flag := CASE_FIRED\<rparr>"

definition fmd_case_fire :: "env \<Rightarrow> addr \<Rightarrow> addr \<Rightarrow> fmd \<Rightarrow> fmd res" where
  "fmd_case_fire en pcase pevt s =
     rbind (ev s pevt) (\<lambda>e.
     rbind (cs s pcase) (\<lambda>c.
       let c' = fire_mark en c;
           (pfault, s1) = new_ev (fault_of e (cs_fire_counts c')) s
       in put_to_agents pfault (put_cs pcase c' s1)))"

definition fmd_case_canfire :: "env \<Rightarrow> fmd_event \<Rightarrow> bool" where
  "fmd_case_canfire en e \<longleftrightarrow>
     ev_event_type e = EVENT_FAULT \<or> (ev_N e \<le> ev_count e \<and> ev_T e > e_now en - ev_create e)"

text \<open>The search of a case's event list, and of the case list.\<close>

fun find_event :: "fmd \<Rightarrow> addr list \<Rightarrow> 64 word \<Rightarrow> addr option res" where
  "find_event s [] i = Inr None"
| "find_event s (p # ps) i =
     rbind (ev s p) (\<lambda>e. if ev_evt_id e = i then Inr (Some p) else find_event s ps i)"

fun find_case :: "fmd \<Rightarrow> addr list \<Rightarrow> string \<Rightarrow> 64 word \<Rightarrow> addr option res" where
  "find_case s [] name i = Inr None"
| "find_case s (p # ps) name i =
     rbind (cs s p) (\<lambda>c. if cs_dev_name c = name \<and> cs_dev_id c = i then Inr (Some p) else find_case s ps name i)"

text \<open>
  \<^verbatim>\<open>fmd_event_add\<close>: a known event id only counts up the event already in the case; a new one is
  linked at the head. Either way the case counts it, is pinned, and fires if the listed event allows.
\<close>

definition event_link :: "env \<Rightarrow> addr \<Rightarrow> addr \<Rightarrow> fmd \<Rightarrow> (addr \<times> fmd) res" where
  "event_link en pcase pevt s =
     rbind (cs s pcase) (\<lambda>c.
     rbind (ev s pevt) (\<lambda>e.
     rbind (find_event s (cs_event c) (ev_evt_id e)) (\<lambda>hit.
       case hit of
         Some p \<Rightarrow> rbind (ev s p) (\<lambda>pe.
             Inr (p, put_ev p (pe\<lparr>ev_count := ev_count pe + 1, ev_last_occur := ev_create e\<rparr>) s))
       | None \<Rightarrow>
           if 128 \<le> length (ev_class e) then Inl Buf_overflow
           else Inr (pevt,
             put_ev pevt (e\<lparr>ev_count := ev_count e + 1, ev_create := e_now en, ev_last_occur := e_now en\<rparr>)
               (put_cs pcase (c\<lparr>cs_event := pevt # cs_event c, cs_last_eclass := ev_class e\<rparr>) s)))))"

definition fmd_event_add :: "env \<Rightarrow> addr \<Rightarrow> addr \<Rightarrow> fmd \<Rightarrow> fmd res" where
  "fmd_event_add en pcase pevt s =
     rbind (ev s pevt) (\<lambda>e.
     rbind (event_link en pcase pevt (put_ev pevt (e\<lparr>ev_p_case := pcase\<rparr>) s)) (\<lambda>(p_event, s1).
     rbind (cs s1 pcase) (\<lambda>c.
     rbind (ev s1 p_event) (\<lambda>pe.
       let s2 = put_cs pcase (c\<lparr>cs_total_count := cs_total_count c + 1,
                 m_event_using := m_event_using c + 1\<rparr>) s1
       in if fmd_case_canfire en pe then fmd_case_fire en pcase pevt s2 else Inr s2))))"

definition add_case_list :: "env \<Rightarrow> addr \<Rightarrow> fmd \<Rightarrow> fmd res" where
  "add_case_list en pevt s =
     rbind (ev s pevt) (\<lambda>e.
     rbind (find_case s (f_list_case s) (ev_dev_name e) (ev_dev_id e)) (\<lambda>hit.
       case hit of
         Some p_case \<Rightarrow> fmd_event_add en p_case pevt s
       | None \<Rightarrow>
           rbind (fmd_case_create en pevt s) (\<lambda>(p_new_case, s1).
             fmd_event_add en p_new_case pevt (s1\<lparr>f_list_case := p_new_case # f_list_case s1\<rparr>))))"

text \<open>
  The classification at the start of \<^verbatim>\<open>fmd_case_insert\<close>: fault classes first, then SERD classes (which
  win), both by prefix; N and T come from the first SERD entry that matches, converted from 32-bit
  unsigned to \<^verbatim>\<open>int\<close> and \<^verbatim>\<open>time_t\<close>.
\<close>

definition classify :: "fmd_esc \<Rightarrow> fmd_event \<Rightarrow> fmd_event" where
  "classify esc e =
     (let e1 = (if list_ex (\<lambda>c. strncmp_eq c (ev_class e) (length c)) (list_fault esc)
            then e\<lparr>ev_event_type := EVENT_FAULT\<rparr> else e);
          e2 = (case find (\<lambda>sd. strncmp_eq (serd_eclass sd) (ev_class e) (length (serd_eclass sd))) (list_serd esc) of
              Some sd \<Rightarrow> e1\<lparr>ev_N := sint (serd_N sd), ev_T := uint (serd_T sd), ev_event_type := EVENT_SERD\<rparr>
            | None \<Rightarrow> e1)
      in if ev_event_type e2 = 0 then e2\<lparr>ev_event_type := EVENT_REPORT\<rparr> else e2)"

definition fmd_case_insert :: "env \<Rightarrow> addr \<Rightarrow> fmd \<Rightarrow> fmd res" where
  "fmd_case_insert en pevt s =
     rbind (ev s pevt) (\<lambda>e.
       let e' = classify (f_esc s) e;
           s1 = snd (ras_events_handle (e_lt en) (e_rc en) e' (put_ev pevt e' s))
       in rbind (add_case_list en pevt s1) (put_to_agents pevt))"

text \<open>
  \<^verbatim>\<open>fmd_case_find_and_delete\<close>. The inner test \<^verbatim>\<open>list_empty(pos)\<close> looks at the case's own link in the
  global list, which is never empty while the case is linked (lemma \<open>linked_not_empty\<close> of the list
  theory), so the case is not freed in that branch, whether it still has events or not.
\<close>

fun free_events :: "addr list \<Rightarrow> fmd \<Rightarrow> fmd res" where
  "free_events [] s = Inr s"
| "free_events (p # ps) s = rbind (free_ev p s) (free_events ps)"

definition case_isolate :: "env \<Rightarrow> fmd_event \<Rightarrow> addr \<Rightarrow> fmd_case \<Rightarrow> fmd \<Rightarrow> fmd res" where
  "case_isolate en e p c s =
     (let s1 = snd (ras_store_rep_event (e_lt en) (e_rc en) e s)
      in rbind (free_events (cs_event c) s1) (\<lambda>s2.
           free_cs p (s2\<lparr>f_list_case := remove1 p (f_list_case s2)\<rparr>)))"

fun case_delete_loop :: "env \<Rightarrow> fmd_event \<Rightarrow> addr list \<Rightarrow> fmd \<Rightarrow> (int \<times> fmd) res" where
  "case_delete_loop en e [] s = Inr (-1, s)"
| "case_delete_loop en e (p # ps) s =
     rbind (cs s p) (\<lambda>c.
       if m_event_using c > 0 then case_delete_loop en e ps s
       else if cs_dev_name c = ev_dev_name e \<and> cs_dev_id c = ev_dev_id e then
         (if ev_agent_result e = LIST_ISOLATED_SUCCESS then
            rbind (case_isolate en e p c s) (\<lambda>s1. Inr (0, s1))
          else
            rbind (find_event s (cs_event c) (ev_evt_id e)) (\<lambda>hit.
              case hit of
                Some q \<Rightarrow> rbind (free_ev q s) (\<lambda>s1.
                    Inr (0, put_cs p (c\<lparr>cs_event := remove1 q (cs_event c)\<rparr>) s1))
              | None \<Rightarrow> case_delete_loop en e ps s))
       else case_delete_loop en e ps s)"

definition fmd_case_find_and_delete :: "env \<Rightarrow> addr \<Rightarrow> fmd \<Rightarrow> (int \<times> fmd) res" where
  "fmd_case_find_and_delete en pevt s =
     rbind (ev s pevt) (\<lambda>e. case_delete_loop en e (f_list_case s) s)"

end
