(* ===== verification/Fms_Queue.thy ===== *)
theory Fms_Queue
  imports Fms_Case
begin

text \<open>
  The daemon's loops over the shared state: the dispatcher of \<^verbatim>\<open>fms/fmd_queue.c\<close>, the hand-over from
  the event sources (\<^verbatim>\<open>evt_handle\<close> of \<^verbatim>\<open>evt_modules/evtlib/evt_src.c\<close>) and the agents' loop
  (\<^verbatim>\<open>do_agent\<close> and \<^verbatim>\<open>agent_ring_put\<close> of \<^verbatim>\<open>evt_modules/evtlib/evt_agent.c\<close>).
\<close>

section \<open>Event sources\<close>

text \<open>
  \<^verbatim>\<open>evt_handle\<close>: every reported item with a class becomes an event in the dispatcher's ring; an item
  without one is skipped. \<open>None\<close> is a probe that returned no list.
\<close>

definition src_post :: "env \<Rightarrow> nvlist \<Rightarrow> fmd \<Rightarrow> fmd res" where
  "src_post en nvl s =
     (if nv_value nvl = [] then Inr s
      else let (evt, s1) = fmd_create_ereport (e_now en) (nv_value nvl) nvl s
           in rbind (fmd_queue_dispatch (f_queue_ring s1) evt) (\<lambda>r. Inr (s1\<lparr>f_queue_ring := r\<rparr>)))"

fun evt_handle :: "env \<Rightarrow> nvlist list \<Rightarrow> fmd \<Rightarrow> fmd res" where
  "evt_handle en [] s = Inr s"
| "evt_handle en (nvl # head) s = rbind (src_post en nvl s) (evt_handle en head)"

definition do_evtsrc :: "env \<Rightarrow> nvlist list option \<Rightarrow> fmd \<Rightarrow> fmd res" where
  "do_evtsrc en rawevt s = (case rawevt of None \<Rightarrow> Inr s | Some head \<Rightarrow> evt_handle en head s)"

section \<open>The dispatcher\<close>

definition event_disp_dest :: "fmd_event \<Rightarrow> int \<times> fmd_event" where
  "event_disp_dest e =
     (if strncmp_eq (ev_class e) ''ereport.'' 8 then (1, e\<lparr>ev_flag := AGENT_TOLOG\<rparr>) else (-1, e))"

definition fmd_proc_event :: "env \<Rightarrow> addr \<Rightarrow> fmd \<Rightarrow> fmd res" where
  "fmd_proc_event en p_event s =
     rbind (ev s p_event) (\<lambda>e.
       let (ret, e') = event_disp_dest e; s1 = put_ev p_event e' s
       in if ret > 0 then fmd_case_insert en p_event s1 else Inr s1)"

definition DELETE_CIRCLE :: nat where
  "DELETE_CIRCLE = 20"

text \<open>\<^verbatim>\<open>list_del(&pevt->ev_repaired_list); def_free(pevt)\<close>\<close>

definition repaired_drop :: "addr \<Rightarrow> fmd \<Rightarrow> fmd res" where
  "repaired_drop p s = free_ev p (s\<lparr>f_list_repaired := remove1 p (f_list_repaired s)\<rparr>)"

text \<open>The body of the loop of \<^verbatim>\<open>queue_delete_proc\<close> for one listed event.\<close>

definition delete_one :: "env \<Rightarrow> addr \<Rightarrow> fmd \<Rightarrow> fmd res" where
  "delete_one en p s =
     rbind (ev s p) (\<lambda>e.
       if (ev_agent_result e AND LIST_RESULT_MASK) \<noteq> 0 then
         (if ev_agent_result e = LIST_ISOLATED_FAILED then
            rbind (fmd_case_find_and_delete en p s) (\<lambda>(rc, s1).
              if rc \<noteq> 0 then repaired_drop p (s1\<lparr>f_data_freed := f_data_freed s1 @ [ev_data e]\<rparr>)
              else Inr s1)
          else Inr s)
       else if ev_agent_result e = LIST_ISOLATED_SUCCESS then
         rbind (fmd_case_find_and_delete en p s) (\<lambda>(rc, s1). Inr s1)
       else if ev_repaired_T e \<le> e_now en - ev_create e \<and> ev_refs e < ev_repaired_N e then
         rbind (fmd_case_find_and_delete en p s) (\<lambda>(rc, s1). repaired_drop p s1)
       else Inr s)"

fun delete_loop :: "env \<Rightarrow> addr list \<Rightarrow> fmd \<Rightarrow> fmd res" where
  "delete_loop en [] s = Inr s"
| "delete_loop en (p # ps) s = rbind (delete_one en p s) (delete_loop en ps)"

definition queue_delete_proc :: "env \<Rightarrow> fmd \<Rightarrow> fmd res" where
  "queue_delete_proc en s = delete_loop en (f_list_repaired s) s"

text \<open>
  One pass of the inner loop of \<^verbatim>\<open>queue_start\<close>: take one event and process it (the log line reads the
  event before the null test). \<open>queue_drain\<close> repeats it while the ring is not empty, at most \<open>n\<close> times.
\<close>

definition queue_one :: "env \<Rightarrow> fmd \<Rightarrow> fmd res" where
  "queue_one en s =
     rbind (ring_take (f_queue_ring s)) (\<lambda>(evt, r).
     rbind (deref evt) (\<lambda>p. fmd_proc_event en p (s\<lparr>f_queue_ring := r\<rparr>)))"

fun queue_drain :: "env \<Rightarrow> nat \<Rightarrow> fmd \<Rightarrow> fmd res" where
  "queue_drain en 0 s = Inr s"
| "queue_drain en (Suc n) s =
     (if ring_stat (f_queue_ring s) \<noteq> 0 then rbind (queue_one en s) (queue_drain en n) else Inr s)"

text \<open>One round of \<^verbatim>\<open>queue_start\<close> from its label \<^verbatim>\<open>RETRY\<close>, with the round counter.\<close>

definition queue_round :: "env \<Rightarrow> nat \<Rightarrow> fmd \<Rightarrow> (nat \<times> fmd) res" where
  "queue_round en rnd s =
     rbind (queue_drain en (nat (ring_stat (f_queue_ring s))) s) (\<lambda>s1.
       if rnd + 1 = DELETE_CIRCLE then rbind (queue_delete_proc en s1) (\<lambda>s2. Inr (0, s2))
       else Inr (rnd + 1, s1))"

section \<open>The agents\<close>

text \<open>The test of \<^verbatim>\<open>agent_ring_put\<close>: the listed name is compared over the length of the new one only.\<close>

definition same_result :: "fmd_event \<Rightarrow> fmd_event \<Rightarrow> bool" where
  "same_result p e \<longleftrightarrow> strncmp_eq (ev_dev_name p) (ev_dev_name e) (length (ev_dev_name e)) \<and>
     ev_dev_id p = ev_dev_id e \<and> ev_evt_id p = ev_evt_id e \<and> ev_agent_result p = ev_agent_result e"

fun repaired_find :: "fmd \<Rightarrow> addr list \<Rightarrow> fmd_event \<Rightarrow> addr option res" where
  "repaired_find s [] e = Inr None"
| "repaired_find s (p # ps) e =
     rbind (ev s p) (\<lambda>pe. if same_result pe e then Inr (Some p) else repaired_find s ps e)"

definition agent_ring_put :: "addr \<Rightarrow> fmd \<Rightarrow> fmd res" where
  "agent_ring_put pevt s =
     rbind (ev s pevt) (\<lambda>e.
     rbind (repaired_find s (f_list_repaired s) e) (\<lambda>hit.
       case hit of
         Some p \<Rightarrow> rbind (ev s p) (\<lambda>pe.
           free_ev pevt (put_ev p (pe\<lparr>ev_create := ev_create e, ev_refs := ev_refs e,
             ev_count := ev_count pe + 1\<rparr>) s))
       | None \<Rightarrow> Inr (put_ev pevt (e\<lparr>ev_count := 1\<rparr>)
           (s\<lparr>f_list_repaired := f_list_repaired s @ [pevt]\<rparr>))))"

text \<open>
  One pass of the loop of \<^verbatim>\<open>do_agent\<close> in two parts, because other threads run between them: taking the
  event out of the agent's ring, and handling it. The agent's \<^verbatim>\<open>evt_handle\<close> either returns nothing or
  the list event of an action, and may overwrite the event's type, as the agents of the repository do
  with \<^verbatim>\<open>EVENT_LIST\<close>; \<open>act\<close> is that choice.
\<close>

definition agent_take :: "nat \<Rightarrow> fmd \<Rightarrow> fmd res" where
  "agent_take i s =
     (if length (f_list_agent s) \<le> i \<or> am_hand (f_list_agent s ! i) \<noteq> None then Inl Would_block
      else let m = f_list_agent s ! i in
        rbind (ring_take (am_ring m)) (\<lambda>(evt, r).
        rbind (deref evt) (\<lambda>p.
          Inr (s\<lparr>f_list_agent := (f_list_agent s)[i := m\<lparr>am_ring := r, am_hand := Some p\<rparr>]\<rparr>))))"

definition case_unpin :: "addr \<Rightarrow> fmd \<Rightarrow> fmd res" where
  "case_unpin p s = rbind (cs s p) (\<lambda>c. Inr (put_cs p (c\<lparr>m_event_using := m_event_using c - 1\<rparr>) s))"

definition agent_done :: "nat \<Rightarrow> fmd \<Rightarrow> fmd" where
  "agent_done i s = s\<lparr>f_list_agent := (f_list_agent s)[i := (f_list_agent s ! i)\<lparr>am_hand := None\<rparr>]\<rparr>"

definition agent_finish :: "(fmd_event \<Rightarrow> int option \<times> int) \<Rightarrow> env \<Rightarrow> nat \<Rightarrow> fmd \<Rightarrow> fmd res" where
  "agent_finish act en i s =
     (if length (f_list_agent s) \<le> i then Inl Would_block
      else case am_hand (f_list_agent s ! i) of
        None \<Rightarrow> Inl Would_block
      | Some p \<Rightarrow>
          rbind (ev s p) (\<lambda>e.
            let e0 = e\<lparr>ev_handle_mode := am_evt_handle_mode (f_list_agent s ! i)\<rparr>;
                (result, etype) = act e0;
                e' = e0\<lparr>ev_event_type := etype\<rparr>;
                s1 = put_ev p e' s
            in rbind (case result of
                  None \<Rightarrow> Inr (None, s1)
                | Some action \<Rightarrow> rbind (fmd_create_listevent (e_now en) p action s1) (\<lambda>(l, s2). Inr (Some l, s2)))
               (\<lambda>(eresult, s2).
               rbind (if ev_flag e' \<noteq> AGENT_TODO then case_unpin (ev_p_case e') s2 else Inr s2) (\<lambda>s3.
                 case eresult of
                   None \<Rightarrow> Inr (agent_done i s3)
                 | Some l \<Rightarrow> agent_ring_put l (agent_done i s3)))))"

section \<open>The whole daemon, one atomic piece at a time\<close>

datatype move = Post nvlist | Process | Take nat | Finish nat | Sweep

fun sys_exec :: "(fmd_event \<Rightarrow> int option \<times> int) \<Rightarrow> env \<Rightarrow> move \<Rightarrow> fmd \<Rightarrow> fmd res" where
  "sys_exec act en (Post nvl) s = src_post en nvl s"
| "sys_exec act en Process s = queue_one en s"
| "sys_exec act en (Take i) s = agent_take i s"
| "sys_exec act en (Finish i) s = agent_finish act en i s"
| "sys_exec act en Sweep s = queue_delete_proc en s"

text \<open>
  The items sources report: the class fits the 128-byte field it comes in, with its terminator.
\<close>

definition move_ok :: "move \<Rightarrow> bool" where
  "move_ok m \<longleftrightarrow> (case m of Post nvl \<Rightarrow> length (nv_value nvl) < 128 | _ \<Rightarrow> True)"

definition fmd_init :: "fmd_esc \<Rightarrow> agent_module list \<Rightarrow> db_stmt list option \<Rightarrow> fmd" where
  "fmd_init esc agents priv = \<lparr>f_events = (\<lambda>_. None), f_cases = (\<lambda>_. None), f_next = 1,
     f_list_case = [], f_list_repaired = [], f_list_agent = agents, f_queue_ring = ring_init,
     f_esc = esc, f_priv = priv, f_db = [], f_data_freed = []\<rparr>"

text \<open>An agent as \<^verbatim>\<open>agent_init\<close> leaves it, with usable subscriptions.\<close>

definition agent_fresh :: "agent_module \<Rightarrow> bool" where
  "agent_fresh m \<longleftrightarrow> am_ring m = ring_init \<and> am_hand m = None \<and> list_all sub_ok (am_list_eclass m)"

inductive sys_reach :: "fmd_esc \<Rightarrow> agent_module list \<Rightarrow> db_stmt list option \<Rightarrow> fmd \<Rightarrow> bool"
  for esc agents priv where
  init: "sys_reach esc agents priv (fmd_init esc agents priv)"
| step: "sys_reach esc agents priv s \<Longrightarrow> move_ok m \<Longrightarrow> sys_exec act en m s = Inr t \<Longrightarrow>
    sys_reach esc agents priv t"

end
