(* ===== verification/Fms_Safety.thy ===== *)
theory Fms_Safety
  imports Fms_Queue "HOL-Library.Multiset"
begin

text \<open>
  Memory safety of the daemon: the same event is reachable from a case, an agent's ring and an agent's
  hands, and the dispatcher frees cases and events while agents run. The counter \<^verbatim>\<open>m_event_using\<close> of a
  case is what keeps this safe. The invariant \<open>fmd_ok\<close> says how, every move of the daemon preserves it,
  and no move of a reachable state makes a wild access.
\<close>

section \<open>The invariant\<close>

definition hand :: "agent_module \<Rightarrow> addr list" where
  "hand m = (case am_hand m of None \<Rightarrow> [] | Some p \<Rightarrow> [p])"

text \<open>The events the agents hold: in their rings and in their hands.\<close>

definition held :: "agent_module \<Rightarrow> addr list" where
  "held m = ring_abs (am_ring m) @ hand m"

definition inflight :: "fmd \<Rightarrow> addr list" where
  "inflight s = concat (map held (f_list_agent s))"

text \<open>The events of the dispatcher's ring and of the repaired list.\<close>

definition waiting :: "fmd \<Rightarrow> addr list" where
  "waiting s = ring_abs (f_queue_ring s) @ f_list_repaired s"

definition linked :: "fmd \<Rightarrow> addr \<Rightarrow> bool" where
  "linked s x \<longleftrightarrow> (\<exists>p \<in> set (f_list_case s). \<exists>c. f_cases s p = Some c \<and> x \<in> set (cs_event c))"

text \<open>An agent that handles \<open>x\<close> will unpin case \<open>p\<close>; how many such events are on their way.\<close>

definition unpins :: "fmd \<Rightarrow> addr \<Rightarrow> addr \<Rightarrow> bool" where
  "unpins s p x \<longleftrightarrow> (case f_events s x of None \<Rightarrow> False | Some e \<Rightarrow> ev_flag e \<noteq> AGENT_TODO \<and> ev_p_case e = p)"

definition pins :: "fmd \<Rightarrow> addr \<Rightarrow> nat" where
  "pins s p = size (filter_mset (unpins s p) (mset (inflight s)))"

definition class_fit :: "fmd_event \<Rightarrow> bool" where
  "class_fit e \<longleftrightarrow> is_pfx ''ereport.'' (ev_class e) \<and> length (ev_class e) < 128"

definition heap_ok :: "fmd \<Rightarrow> bool" where
  "heap_ok s \<longleftrightarrow> 0 < f_next s \<and> (\<forall>a. f_events s a \<noteq> None \<longrightarrow> 0 < a \<and> a < f_next s) \<and>
     (\<forall>a. f_cases s a \<noteq> None \<longrightarrow> 0 < a \<and> a < f_next s)"

definition listed_ok :: "fmd \<Rightarrow> addr \<Rightarrow> addr \<Rightarrow> bool" where
  "listed_ok s p q \<longleftrightarrow> (\<exists>e. f_events s q = Some e \<and> ev_p_case e = p \<and> ev_flag e = AGENT_TOLOG)"

definition case_ok :: "fmd \<Rightarrow> addr \<Rightarrow> bool" where
  "case_ok s p \<longleftrightarrow> (\<exists>c. f_cases s p = Some c \<and> distinct (cs_event c) \<and>
     int (pins s p) \<le> m_event_using c \<and> (\<forall>q \<in> set (cs_event c). listed_ok s p q))"

definition flight_ok :: "fmd \<Rightarrow> addr \<Rightarrow> bool" where
  "flight_ok s x \<longleftrightarrow> (\<exists>e. f_events s x = Some e \<and> class_fit e \<and>
     (ev_flag e = AGENT_TODO \<or> (ev_flag e = AGENT_TOLOG \<and> ev_p_case e \<in> set (f_list_case s))))"

definition wait_ok :: "fmd \<Rightarrow> addr \<Rightarrow> bool" where
  "wait_ok s x \<longleftrightarrow> (\<exists>e. f_events s x = Some e \<and> ev_flag e = 0 \<and> length (ev_class e) < 128)"

definition agent_ok :: "agent_module \<Rightarrow> bool" where
  "agent_ok m \<longleftrightarrow> ring_quiet (am_ring m) \<and> list_all sub_ok (am_list_eclass m)"

definition fmd_ok :: "fmd \<Rightarrow> bool" where
  "fmd_ok s \<longleftrightarrow> heap_ok s \<and> distinct (f_list_case s) \<and> (\<forall>p \<in> set (f_list_case s). case_ok s p) \<and>
     (\<forall>x \<in> set (inflight s). flight_ok s x) \<and> (\<forall>m \<in> set (f_list_agent s). agent_ok m) \<and>
     ring_quiet (f_queue_ring s) \<and> distinct (waiting s) \<and> (\<forall>x \<in> set (waiting s). wait_ok s x)"

text \<open>An event only the running handler knows.\<close>

definition own :: "fmd \<Rightarrow> addr \<Rightarrow> bool" where
  "own s p \<longleftrightarrow> f_events s p \<noteq> None \<and> p \<notin> set (inflight s) \<and> p \<notin> set (waiting s) \<and> \<not> linked s p"

section \<open>Steps that keep what the invariant looks at\<close>

definition ev_core :: "fmd_event \<Rightarrow> int \<times> addr \<times> string" where
  "ev_core e = (ev_flag e, ev_p_case e, ev_class e)"

definition same_lists :: "fmd \<Rightarrow> fmd \<Rightarrow> bool" where
  "same_lists s t \<longleftrightarrow> f_list_case t = f_list_case s \<and> f_list_repaired t = f_list_repaired s \<and>
     f_list_agent t = f_list_agent s \<and> f_queue_ring t = f_queue_ring s"

lemma same_lists_inflight: "same_lists s t \<Longrightarrow> inflight t = inflight s \<and> waiting t = waiting s"
  by (simp add: same_lists_def inflight_def waiting_def)

text \<open>What the invariant looks at when it looks at an event.\<close>

definition shared :: "fmd \<Rightarrow> addr \<Rightarrow> bool" where
  "shared s x \<longleftrightarrow> x \<in> set (inflight s) \<or> x \<in> set (waiting s) \<or> linked s x"

text \<open>The shared events keep their core in \<open>t\<close>; the cases keep their events and stay pinned.\<close>

definition keeps :: "fmd \<Rightarrow> fmd \<Rightarrow> bool" where
  "keeps s t \<longleftrightarrow>
     (\<forall>x e. f_events s x = Some e \<longrightarrow> shared s x \<longrightarrow>
        (\<exists>e'. f_events t x = Some e' \<and> ev_core e' = ev_core e)) \<and>
     (\<forall>p \<in> set (f_list_case s). \<forall>c. f_cases s p = Some c \<longrightarrow>
        (\<exists>c'. f_cases t p = Some c' \<and> cs_event c' = cs_event c \<and> m_event_using c \<le> m_event_using c'))"

lemma keepsD:
  assumes "keeps s t"
  shows "f_events s x = Some e \<Longrightarrow> shared s x \<Longrightarrow> \<exists>e'. f_events t x = Some e' \<and> ev_core e' = ev_core e"
    and "p \<in> set (f_list_case s) \<Longrightarrow> f_cases s p = Some c \<Longrightarrow>
      \<exists>c'. f_cases t p = Some c' \<and> cs_event c' = cs_event c \<and> m_event_using c \<le> m_event_using c'"
  using assms unfolding keeps_def by blast+

lemma fmd_ok_alive:
  assumes "fmd_ok s" "shared s x"
  shows "\<exists>e. f_events s x = Some e"
  using assms by (fastforce simp: shared_def fmd_ok_def flight_ok_def wait_ok_def linked_def case_ok_def listed_ok_def)

lemma pins_keeps:
  assumes "fmd_ok s" "same_lists s t" "keeps s t"
  shows "pins t p = pins s p"
proof -
  have "unpins t p x = unpins s p x" if x: "x \<in> set (inflight s)" for x
  proof -
    have sh: "shared s x" using x by (simp add: shared_def)
    then obtain e where e: "f_events s x = Some e" using fmd_ok_alive [OF assms(1)] by blast
    with keepsD(1) [OF assms(3) e sh] show ?thesis by (auto simp: unpins_def ev_core_def)
  qed
  then have "filter_mset (unpins t p) (mset (inflight s)) = filter_mset (unpins s p) (mset (inflight s))"
    by (intro filter_mset_cong) auto
  then show ?thesis
    using same_lists_inflight [OF assms(2)] by (simp add: pins_def)
qed

lemma case_ok_keeps:
  assumes "fmd_ok s" "same_lists s t" "keeps s t" "p \<in> set (f_list_case s)"
  shows "case_ok t p"
proof -
  obtain c where c: "f_cases s p = Some c" "distinct (cs_event c)" "int (pins s p) \<le> m_event_using c"
      "\<forall>q \<in> set (cs_event c). listed_ok s p q"
    using assms(1,4) by (auto simp: fmd_ok_def case_ok_def)
  obtain c' where c': "f_cases t p = Some c'" "cs_event c' = cs_event c" "m_event_using c \<le> m_event_using c'"
    using keepsD(2) [OF assms(3,4) c(1)] by blast
  have "listed_ok t p q" if q: "q \<in> set (cs_event c)" for q
  proof -
    have sh: "shared s q" using q c(1) assms(4) by (auto simp: shared_def linked_def)
    obtain e where e: "f_events s q = Some e" "ev_p_case e = p" "ev_flag e = AGENT_TOLOG"
      using c(4) q by (auto simp: listed_ok_def)
    with keepsD(1) [OF assms(3) e(1) sh] show ?thesis by (auto simp: listed_ok_def ev_core_def)
  qed
  then show ?thesis using c c' pins_keeps [OF assms(1-3)] by (auto simp: case_ok_def)
qed

lemma fmd_ok_keeps:
  assumes "fmd_ok s" "same_lists s t" "keeps s t" "heap_ok t"
  shows "fmd_ok t"
proof -
  note l = same_lists_inflight [OF assms(2)]
  have f: "flight_ok t x" if x: "x \<in> set (inflight s)" for x
  proof -
    obtain e where e: "f_events s x = Some e" "class_fit e"
        "ev_flag e = AGENT_TODO \<or> (ev_flag e = AGENT_TOLOG \<and> ev_p_case e \<in> set (f_list_case s))"
      using assms(1) x by (auto simp: fmd_ok_def flight_ok_def)
    then obtain e' where "f_events t x = Some e'" "ev_core e' = ev_core e"
      using keepsD(1) [OF assms(3) e(1)] x by (auto simp: shared_def)
    with e assms(2) show ?thesis by (auto simp: flight_ok_def ev_core_def class_fit_def same_lists_def)
  qed
  have w: "wait_ok t x" if x: "x \<in> set (waiting s)" for x
  proof -
    obtain e where e: "f_events s x = Some e" "ev_flag e = 0" "length (ev_class e) < 128"
      using assms(1) x by (auto simp: fmd_ok_def wait_ok_def)
    then obtain e' where "f_events t x = Some e'" "ev_core e' = ev_core e"
      using keepsD(1) [OF assms(3) e(1)] x by (auto simp: shared_def)
    with e show ?thesis by (auto simp: wait_ok_def ev_core_def)
  qed
  show ?thesis
    using assms(1,2,4) l f w case_ok_keeps [OF assms(1-3)] by (simp add: fmd_ok_def same_lists_def)
qed

lemma own_keeps:
  assumes "own s p" "same_lists s t" "f_events t p \<noteq> None"
    and "\<And>q c'. q \<in> set (f_list_case s) \<Longrightarrow> f_cases t q = Some c' \<Longrightarrow> \<exists>c. f_cases s q = Some c \<and> cs_event c' = cs_event c"
  shows "own t p"
  using assms same_lists_inflight [OF assms(2)]
  by (fastforce simp: own_def linked_def same_lists_def)

lemma same_lists_simps [simp]:
  "same_lists s (put_ev a e s)" "same_lists s (put_cs a c s)" "same_lists s (snd (new_ev e s))"
  "same_lists s (s\<lparr>f_db := db\<rparr>)" "same_lists s (s\<lparr>f_data_freed := fr\<rparr>)"
  by (simp_all add: same_lists_def new_ev_def)

text \<open>Writing an event's other fields; writing an own event; a new event; writing a case.\<close>

lemma fmd_ok_put_core:
  assumes "fmd_ok s" "f_events s a = Some e" "ev_core e' = ev_core e"
  shows "fmd_ok (put_ev a e' s)"
  using assms(1)
proof (rule fmd_ok_keeps)
  show "keeps s (put_ev a e' s)" using assms(2,3) by (auto simp: keeps_def)
  show "heap_ok (put_ev a e' s)" using assms(1,2) by (auto simp: fmd_ok_def heap_ok_def)
qed simp

lemma fmd_ok_put_own:
  assumes "fmd_ok s" "own s p"
  shows "fmd_ok (put_ev p e s)" "own (put_ev p e s) p"
proof -
  have "\<not> shared s p" using assms(2) by (auto simp: own_def shared_def)
  then have "keeps s (put_ev p e s)" by (auto simp: keeps_def)
  moreover have "heap_ok (put_ev p e s)" using assms by (auto simp: fmd_ok_def heap_ok_def own_def)
  ultimately show "fmd_ok (put_ev p e s)" using fmd_ok_keeps [OF assms(1)] by simp
  show "own (put_ev p e s) p" using assms(2) by (rule own_keeps) auto
qed

lemma fmd_ok_new_ev:
  assumes "fmd_ok s" "new_ev e s = (a, t)"
  shows "fmd_ok t" "own t a" "f_events t a = Some e" "a \<noteq> 0" "f_events t = (f_events s)(a \<mapsto> e)" "same_lists s t"
    "f_cases t = f_cases s" "f_events s a = None" "f_esc t = f_esc s"
proof -
  have t: "a = f_next s" "t = (put_ev a e s)\<lparr>f_next := a + 1\<rparr>" using assms(2) by (auto simp: new_ev_def)
  have fresh: "f_events s a = None" using assms(1) t by (auto simp: fmd_ok_def heap_ok_def)
  have sl: "same_lists s t" by (simp add: same_lists_def t)
  have nsh: "\<not> shared s a" using fmd_ok_alive [OF assms(1), of a] fresh by auto
  have "keeps s t" using nsh by (auto simp: keeps_def t(2))
  moreover have "heap_ok t" using assms(1) t by (fastforce simp: fmd_ok_def heap_ok_def less_Suc_eq)
  ultimately show "fmd_ok t" using fmd_ok_keeps [OF assms(1) sl] by simp
  show "own t a" using nsh same_lists_inflight [OF sl]
    by (auto simp: own_def shared_def linked_def t(2))
  show "f_events t a = Some e" "f_events t = (f_events s)(a \<mapsto> e)" "f_cases t = f_cases s"
    "f_esc t = f_esc s" by (simp_all add: t(2))
  show "a \<noteq> 0" using assms(1) t by (simp add: fmd_ok_def heap_ok_def)
  show "same_lists s t" "f_events s a = None" by fact+
qed

lemma fmd_ok_put_cs:
  assumes "fmd_ok s" "f_cases s p = Some c" "cs_event c' = cs_event c" "m_event_using c \<le> m_event_using c'"
  shows "fmd_ok (put_cs p c' s)" "own s x \<Longrightarrow> own (put_cs p c' s) x" "pins (put_cs p c' s) q = pins s q"
proof -
  have k: "keeps s (put_cs p c' s)" using assms(2-) by (auto simp: keeps_def)
  moreover have "heap_ok (put_cs p c' s)" using assms(1,2) by (auto simp: fmd_ok_def heap_ok_def)
  ultimately show "fmd_ok (put_cs p c' s)" using fmd_ok_keeps [OF assms(1)] by simp
  show "own s x \<Longrightarrow> own (put_cs p c' s) x"
    by (rule own_keeps) (use assms(2,3) in \<open>auto simp: own_def split: if_splits\<close>)
  show "pins (put_cs p c' s) q = pins s q" using pins_keeps [OF assms(1) _ k] by simp
qed

lemma fmd_ok_put_db:
  assumes "fmd_ok s"
  shows "fmd_ok (s\<lparr>f_db := db\<rparr>)" "own s x \<Longrightarrow> own (s\<lparr>f_db := db\<rparr>) x"
    "fmd_ok (s\<lparr>f_data_freed := fr\<rparr>)"
proof -
  have "keeps s (s\<lparr>f_db := db\<rparr>)" "keeps s (s\<lparr>f_data_freed := fr\<rparr>)"
    "heap_ok (s\<lparr>f_db := db\<rparr>)" "heap_ok (s\<lparr>f_data_freed := fr\<rparr>)"
    using assms by (auto simp: keeps_def fmd_ok_def heap_ok_def)
  then show "fmd_ok (s\<lparr>f_db := db\<rparr>)" "fmd_ok (s\<lparr>f_data_freed := fr\<rparr>)"
    using fmd_ok_keeps [OF assms] by simp_all
  show "own s x \<Longrightarrow> own (s\<lparr>f_db := db\<rparr>) x"
    by (rule own_keeps) (auto simp: own_def)
qed

section \<open>Handing over to an agent\<close>

lemma mset_concat_update:
  "i < length ms \<Longrightarrow> mset (f m') + B = mset (f (ms ! i)) + A \<Longrightarrow>
   mset (concat (map f (ms[i := m']))) + B = mset (concat (map f ms)) + A"
proof (induction ms arbitrary: i)
  case (Cons m ms)
  show ?case
  proof (cases i)
    case 0
    with Cons.prems have "mset (f m') + B = mset (f m) + A" by simp
    then have "mset (f m') + B + mset (concat (map f ms)) = mset (f m) + A + mset (concat (map f ms))" by simp
    with 0 show ?thesis by (simp add: ac_simps)
  next
    case (Suc j)
    with Cons.IH [of j] Cons.prems
    have "mset (concat (map f (ms[j := m']))) + B = mset (concat (map f ms)) + A" by simp
    with Suc show ?thesis by (simp add: add.assoc)
  qed
qed simp

lemma unpins_agents [simp]: "unpins (s\<lparr>f_list_agent := as\<rparr>) = unpins s"
  by (simp add: fun_eq_iff unpins_def)

lemma fmd_ok_agents:
  assumes "fmd_ok s" "\<forall>m \<in> set as. agent_ok m"
    and "\<forall>x \<in> set (inflight (s\<lparr>f_list_agent := as\<rparr>)). flight_ok s x"
    and "\<And>p c. p \<in> set (f_list_case s) \<Longrightarrow> f_cases s p = Some c \<Longrightarrow>
      int (pins (s\<lparr>f_list_agent := as\<rparr>) p) \<le> m_event_using c"
  shows "fmd_ok (s\<lparr>f_list_agent := as\<rparr>)"
proof -
  have "case_ok (s\<lparr>f_list_agent := as\<rparr>) p" if "p \<in> set (f_list_case s)" for p
    using assms(1,4) that by (fastforce simp: fmd_ok_def case_ok_def listed_ok_def)
  then show ?thesis
    using assms by (simp add: fmd_ok_def heap_ok_def flight_ok_def wait_ok_def waiting_def)
qed

lemma fmd_ok_nz: "fmd_ok s \<Longrightarrow> f_events s p = Some e \<Longrightarrow> p \<noteq> 0"
  by (auto simp: fmd_ok_def heap_ok_def)

lemma fmd_ok_case_nz: "fmd_ok s \<Longrightarrow> f_cases s p = Some c \<Longrightarrow> p \<noteq> 0"
  by (auto simp: fmd_ok_def heap_ok_def)

lemma fmd_ok_pins: "fmd_ok s \<Longrightarrow> p \<in> set (f_list_case s) \<Longrightarrow> f_cases s p = Some c \<Longrightarrow> int (pins s p) \<le> m_event_using c"
  by (fastforce simp: fmd_ok_def case_ok_def)

lemma class_fit_dot: "class_fit e \<Longrightarrow> CHR ''.'' \<in> set (ev_class e)"
  by (auto simp: class_fit_def is_pfx_iff)

lemma pins_mset:
  "mset (inflight (s\<lparr>f_list_agent := as\<rparr>)) = add_mset x (mset (inflight s)) \<Longrightarrow>
   pins (s\<lparr>f_list_agent := as\<rparr>) p = pins s p + (if unpins s p x then 1 else 0)"
  by (simp add: pins_def)

text \<open>
  An event may be handed over when it asks for an action, or when its case is pinned once more than
  there are events on their way.
\<close>

definition may_send :: "fmd \<Rightarrow> addr \<Rightarrow> bool" where
  "may_send s p \<longleftrightarrow> (\<exists>e. f_events s p = Some e \<and> class_fit e \<and>
     (ev_flag e = AGENT_TODO \<or> (ev_flag e = AGENT_TOLOG \<and> ev_p_case e \<in> set (f_list_case s) \<and>
       (\<exists>c. f_cases s (ev_p_case e) = Some c \<and> int (pins s (ev_p_case e)) < m_event_using c))))"

lemma put_to_agents_ok:
  assumes "fmd_ok s" "may_send s p"
  shows "put_to_agents p s = Inl Would_block \<or>
    (\<exists>as. put_to_agents p s = Inr (s\<lparr>f_list_agent := as\<rparr>) \<and> fmd_ok (s\<lparr>f_list_agent := as\<rparr>) \<and>
      (mset (inflight (s\<lparr>f_list_agent := as\<rparr>)) = mset (inflight s) \<or>
       mset (inflight (s\<lparr>f_list_agent := as\<rparr>)) = add_mset p (mset (inflight s))))"
proof -
  obtain e where e: "f_events s p = Some e" "class_fit e" using assms(2) by (auto simp: may_send_def)
  have nz: "ev s p = Inr e" using e fmd_ok_nz [OF assms(1) e(1)] by simp
  have search: "agent_search (ev_class e) (f_list_agent s) = Inr (first_want (ev_class e) (f_list_agent s))"
    using assms(1) class_fit_dot [OF e(2)] by (intro agent_search_spec) (auto simp: fmd_ok_def agent_ok_def list_all_iff)
  show ?thesis
  proof (cases "first_want (ev_class e) (f_list_agent s)")
    case None
    then have "put_to_agents p s = Inr (s\<lparr>f_list_agent := f_list_agent s\<rparr>)"
      using None by (simp add: put_to_agents_def nz search)
    then show ?thesis using assms(1) by (intro disjI2 exI [of _ "f_list_agent s"]) simp
  next
    case (Some i)
    let ?m = "f_list_agent s ! i"
    have i: "i < length (f_list_agent s)" using first_want_Some [OF Some] by simp
    then have ok: "agent_ok ?m" using assms(1) by (simp add: fmd_ok_def)
    then have q: "ring_quiet (am_ring ?m)" by (simp add: agent_ok_def)
    show ?thesis
    proof (cases "length (ring_abs (am_ring ?m)) = nat RING_SIZE")
      case True
      then show ?thesis using Some put_to_agent_full [OF q True] by (simp add: put_to_agents_def nz search)
    next
      case False
      then have "length (ring_abs (am_ring ?m)) < nat RING_SIZE"
        using q ring.abs_bound [of "am_ring ?m"] by (auto simp: ring_quiet_def)
      then obtain r' where r': "put_to_agent (am_ring ?m) p = Inr r'" "ring_quiet r'"
          "ring_abs r' = ring_abs (am_ring ?m) @ [p]"
        using put_to_agent_ok [OF q] by blast
      let ?as = "(f_list_agent s)[i := ?m\<lparr>am_ring := r'\<rparr>]"
      have put: "put_to_agents p s = Inr (s\<lparr>f_list_agent := ?as\<rparr>)"
        using Some r' by (simp add: put_to_agents_def nz search)
      have "mset (held (?m\<lparr>am_ring := r'\<rparr>)) + {#} = mset (held ?m) + {#p#}"
        using r' by (simp add: held_def hand_def)
      from mset_concat_update [where f = held, OF i this]
      have fl: "mset (inflight (s\<lparr>f_list_agent := ?as\<rparr>)) = add_mset p (mset (inflight s))"
        by (simp add: inflight_def)
      have agents: "\<forall>m \<in> set ?as. agent_ok m"
        using assms(1) ok r' by (auto simp: fmd_ok_def agent_ok_def dest!: set_update_subset_insert [THEN subsetD])
      have "set (inflight (s\<lparr>f_list_agent := ?as\<rparr>)) = insert p (set (inflight s))"
        using fl by (metis set_mset_add_mset_insert set_mset_mset)
      then have flight: "\<forall>x \<in> set (inflight (s\<lparr>f_list_agent := ?as\<rparr>)). flight_ok s x"
        using assms by (auto simp: fmd_ok_def flight_ok_def may_send_def)
      have "int (pins (s\<lparr>f_list_agent := ?as\<rparr>) q) \<le> m_event_using c"
        if "q \<in> set (f_list_case s)" "f_cases s q = Some c" for q c
        using fmd_ok_pins [OF assms(1) that] that assms(2) e pins_mset [OF fl, of q]
        by (auto simp: may_send_def unpins_def)
      from fmd_ok_agents [OF assms(1) agents flight this] put fl show ?thesis by blast
    qed
  qed
qed

text \<open>A handler that either waits or ends well.\<close>

definition safely :: "('a \<Rightarrow> bool) \<Rightarrow> 'a res \<Rightarrow> bool" where
  "safely P r = (case r of Inl e \<Rightarrow> e = Would_block | Inr x \<Rightarrow> P x)"

lemma safely_simps [simp]: "safely P (Inr x) = P x" "safely P (Inl e) \<longleftrightarrow> e = Would_block"
  by (simp_all add: safely_def)

lemma safely_bind: "safely P r \<Longrightarrow> (\<And>x. P x \<Longrightarrow> safely Q (f x)) \<Longrightarrow> safely Q (rbind r f)"
  by (cases r) simp_all

lemma safely_mono: "safely P r \<Longrightarrow> (\<And>x. P x \<Longrightarrow> Q x) \<Longrightarrow> safely Q r"
  by (cases r) simp_all

text \<open>After the hand-over: nothing but the agents changed, and at most this event joined those on their way.\<close>

definition sent :: "fmd \<Rightarrow> addr \<Rightarrow> fmd \<Rightarrow> bool" where
  "sent s p t \<longleftrightarrow> fmd_ok t \<and> (\<exists>as. t = s\<lparr>f_list_agent := as\<rparr>) \<and>
     (\<forall>q. pins t q \<le> pins s q + (if unpins s q p then 1 else 0))"

lemma put_to_agents_safe: "fmd_ok s \<Longrightarrow> may_send s p \<Longrightarrow> safely (sent s p) (put_to_agents p s)"
  using put_to_agents_ok [of s p] by (auto simp: sent_def pins_def)

section \<open>Adding an event to its case\<close>

lemma find_event_find:
  "(\<forall>q \<in> set ps. q \<noteq> 0 \<and> f_events s q \<noteq> None) \<Longrightarrow>
   find_event s ps i = Inr (find (\<lambda>q. ev_evt_id (the (f_events s q)) = i) ps)"
proof (induction ps)
  case (Cons q ps)
  then obtain e where "f_events s q = Some e" "ev s q = Inr e" by auto
  with Cons show ?case by simp
qed simp

lemma find_case_find:
  "(\<forall>q \<in> set ps. q \<noteq> 0 \<and> f_cases s q \<noteq> None) \<Longrightarrow>
   find_case s ps n i = Inr (find (\<lambda>q. cs_dev_name (the (f_cases s q)) = n \<and> cs_dev_id (the (f_cases s q)) = i) ps)"
proof (induction ps)
  case (Cons q ps)
  then obtain c where "f_cases s q = Some c" "cs s q = Inr c" by auto
  with Cons show ?case by simp
qed simp

lemma fmd_ok_caseD:
  assumes "fmd_ok s" "q \<in> set (f_list_case s)"
  obtains c where "f_cases s q = Some c" "cs s q = Inr c" "distinct (cs_event c)"
    "\<forall>x \<in> set (cs_event c). listed_ok s q x" "\<forall>x \<in> set (cs_event c). x \<noteq> 0 \<and> f_events s x \<noteq> None"
proof -
  obtain c where c: "f_cases s q = Some c" "distinct (cs_event c)" "\<forall>x \<in> set (cs_event c). listed_ok s q x"
    using assms by (auto simp: fmd_ok_def case_ok_def)
  have "\<forall>x \<in> set (cs_event c). x \<noteq> 0 \<and> f_events s x \<noteq> None"
    using c(3) fmd_ok_nz [OF assms(1)] by (fastforce simp: listed_ok_def)
  moreover have "cs s q = Inr c" using c(1) fmd_ok_case_nz [OF assms(1)] by simp
  ultimately show ?thesis using that c by blast
qed

lemma put_ev_put_cs: "put_ev p e (put_cs q c s) = put_cs q c (put_ev p e s)"
  by (simp add: put_ev_def put_cs_def)

lemma unpins_put_cs [simp]: "unpins (put_cs q c s) = unpins s"
  by (simp add: fun_eq_iff unpins_def)

lemma inflight_put [simp]:
  "inflight (put_cs q c s) = inflight s" "waiting (put_cs q c s) = waiting s"
  "inflight (put_ev p e s) = inflight s" "waiting (put_ev p e s) = waiting s"
  by (simp_all add: inflight_def waiting_def)

lemma fmd_ok_link:
  assumes "fmd_ok s" "own s p" "f_events s p = Some e" "ev_p_case e = q" "ev_flag e = AGENT_TOLOG"
    and "q \<in> set (f_list_case s)" "f_cases s q = Some c"
  shows "fmd_ok (put_cs q (c\<lparr>cs_event := p # cs_event c, cs_last_eclass := l\<rparr>) s)"
proof -
  let ?t = "put_cs q (c\<lparr>cs_event := p # cs_event c, cs_last_eclass := l\<rparr>) s"
  have np: "p \<notin> set (cs_event c)" using assms(2,6,7) by (auto simp: own_def linked_def)
  have "case_ok ?t x" if "x \<in> set (f_list_case s)" for x
  proof (cases "x = q")
    case True
    have "case_ok s q" using assms(1,6) by (simp add: fmd_ok_def)
    with True np assms(3-7) show ?thesis by (auto simp: case_ok_def listed_ok_def pins_def)
  next
    case False
    have "case_ok s x" using assms(1) that by (simp add: fmd_ok_def)
    with False show ?thesis by (auto simp: case_ok_def listed_ok_def pins_def)
  qed
  then show ?thesis
    using assms(1,7) by (auto simp: fmd_ok_def heap_ok_def flight_ok_def wait_ok_def)
qed

text \<open>The state after linking: the event has its core, its case is there.\<close>

definition linked_in :: "fmd \<Rightarrow> addr \<Rightarrow> fmd_event \<Rightarrow> addr \<Rightarrow> fmd \<Rightarrow> bool" where
  "linked_in s p e q t \<longleftrightarrow> fmd_ok t \<and> f_list_case t = f_list_case s \<and>
     (\<exists>e'. f_events t p = Some e' \<and> ev_core e' = ev_core e) \<and> (\<exists>c'. f_cases t q = Some c')"

lemma event_link_safe:
  assumes "fmd_ok s" "own s p" "f_events s p = Some e" "ev_p_case e = q" "ev_flag e = AGENT_TOLOG"
    and "q \<in> set (f_list_case s)" "class_fit e"
  shows "safely (\<lambda>(p', t). linked_in s p e q t \<and> (\<exists>e'. f_events t p' = Some e')) (event_link en q p s)"
proof -
  obtain c where c: "f_cases s q = Some c" "cs s q = Inr c"
      "\<forall>x \<in> set (cs_event c). x \<noteq> 0 \<and> f_events s x \<noteq> None"
    using fmd_ok_caseD [OF assms(1,6)] by metis
  have e: "ev s p = Inr e" using assms(3) fmd_ok_nz [OF assms(1,3)] by simp
  note f = find_event_find [OF c(3), of "ev_evt_id e"]
  show ?thesis
  proof (cases "find (\<lambda>x. ev_evt_id (the (f_events s x)) = ev_evt_id e) (cs_event c)")
    case None
    let ?e = "e\<lparr>ev_count := ev_count e + 1, ev_create := e_now en, ev_last_occur := e_now en\<rparr>"
    let ?c = "c\<lparr>cs_event := p # cs_event c, cs_last_eclass := ev_class e\<rparr>"
    have "fmd_ok (put_cs q ?c (put_ev p ?e s))"
      using fmd_ok_put_own [OF assms(1,2), of ?e] assms(4-6) c(1) by (intro fmd_ok_link [where e = ?e]) auto
    moreover have "event_link en q p s = Inr (p, put_cs q ?c (put_ev p ?e s))"
      using assms(7) None by (simp add: event_link_def c(2) e f class_fit_def put_ev_put_cs)
    ultimately show ?thesis by (simp add: linked_in_def ev_core_def)
  next
    case (Some x)
    then have x: "x \<in> set (cs_event c)" by (auto simp: find_Some_iff)
    then obtain pe where pe: "f_events s x = Some pe" "ev s x = Inr pe" using c(3) by auto
    let ?e = "pe\<lparr>ev_count := ev_count pe + 1, ev_last_occur := ev_create e\<rparr>"
    have "fmd_ok (put_ev x ?e s)" using fmd_ok_put_core [OF assms(1) pe(1)] by (simp add: ev_core_def)
    moreover have "event_link en q p s = Inr (x, put_ev x ?e s)"
      using Some by (simp add: event_link_def c(2) e f pe(2))
    moreover have "x \<noteq> p" using x assms(2,6) c(1) by (auto simp: own_def linked_def)
    ultimately show ?thesis using assms(3) c(1) by (simp add: linked_in_def)
  qed
qed

lemma fmd_case_fire_safe:
  assumes "fmd_ok s" "f_events s p = Some e" "class_fit e" "f_cases s q = Some c" "q \<in> set (f_list_case s)"
  shows "safely (\<lambda>t. fmd_ok t \<and> f_list_case t = f_list_case s \<and> f_events t p = Some e \<and> pins t q \<le> pins s q \<and>
      (\<exists>c'. f_cases t q = Some c' \<and> m_event_using c' = m_event_using c)) (fmd_case_fire en q p s)"
proof -
  let ?c = "fire_mark en c"
  obtain a s1 where n: "new_ev (fault_of e (cs_fire_counts ?c)) s = (a, s1)"
    by (cases "new_ev (fault_of e (cs_fire_counts ?c)) s")
  note n1 = fmd_ok_new_ev [OF assms(1) n]
  have c1: "f_cases s1 q = Some c" using n1(7) assms(4) by simp
  note c2 = fmd_ok_put_cs [OF n1(1) c1, of ?c, unfolded fire_mark_def, simplified]
  let ?s2 = "put_cs q ?c s1"
  have pins1: "pins s1 q = pins s q"
  proof (rule pins_keeps [OF assms(1) n1(6)])
    show "keeps s s1" using fmd_ok_alive [OF assms(1)] n1(5,7,8) by (auto simp: keeps_def)
  qed
  have ok2: "fmd_ok ?s2" "pins ?s2 q = pins s q" using c2 pins1 by (simp_all add: fire_mark_def)
  have "f_events ?s2 a = Some (fault_of e (cs_fire_counts ?c))" using n1(3) by simp
  then have "may_send ?s2 a" "\<not> unpins ?s2 q a"
    using assms(3) by (auto simp: may_send_def fault_of_def class_fit_def unpins_def)
  note sent = put_to_agents_safe [OF ok2(1) this(1)]
  have "fmd_case_fire en q p s = put_to_agents a ?s2"
    using assms(2,4) fmd_ok_nz [OF assms(1,2)] fmd_ok_case_nz [OF assms(1,4)]
    by (simp add: fmd_case_fire_def ev_def cs_def load_def n Let_def)
  moreover have "p \<noteq> a" using n1(8) assms(2) by auto
  then have "sent ?s2 a t \<Longrightarrow> fmd_ok t \<and> f_list_case t = f_list_case s \<and> f_events t p = Some e \<and>
      pins t q \<le> pins s q \<and> (\<exists>c'. f_cases t q = Some c' \<and> m_event_using c' = m_event_using c)" for t
    using n1(5,6) assms(2) ok2(2) \<open>\<not> unpins ?s2 q a\<close>
    by (auto simp: sent_def same_lists_def fire_mark_def dest: spec [of _ q])
  ultimately show ?thesis using safely_mono [OF sent] by simp
qed

text \<open>After \<^verbatim>\<open>fmd_event_add\<close> the event may be handed to an agent.\<close>

lemma fmd_event_add_safe:
  assumes "fmd_ok s" "own s p" "f_events s p = Some e" "ev_flag e = AGENT_TOLOG"
    and "q \<in> set (f_list_case s)" "class_fit e"
  shows "safely (\<lambda>t. fmd_ok t \<and> may_send t p) (fmd_event_add en q p s)"
proof -
  let ?e = "e\<lparr>ev_p_case := q\<rparr>"
  let ?s0 = "put_ev p ?e s"
  have s0: "fmd_ok ?s0" "own ?s0 p" using fmd_ok_put_own [OF assms(1,2)] by simp_all
  have link: "safely (\<lambda>(p', t). linked_in ?s0 p ?e q t \<and> (\<exists>e'. f_events t p' = Some e')) (event_link en q p ?s0)"
    using s0 assms by (intro event_link_safe) (auto simp: class_fit_def)
  have rest: "safely (\<lambda>t. fmd_ok t \<and> may_send t p)
      (rbind (cs s1 q) (\<lambda>c. rbind (ev s1 p') (\<lambda>pe.
         let s2 = put_cs q (c\<lparr>cs_total_count := cs_total_count c + 1, m_event_using := m_event_using c + 1\<rparr>) s1
         in if fmd_case_canfire en pe then fmd_case_fire en q p s2 else Inr s2)))"
    if l: "linked_in ?s0 p ?e q s1" and pe: "f_events s1 p' = Some pe" for p' s1 pe
  proof -
    obtain c where c: "f_cases s1 q = Some c" "cs s1 q = Inr c"
      using l fmd_ok_case_nz by (auto simp: linked_in_def)
    have pe': "ev s1 p' = Inr pe" using l pe fmd_ok_nz by (auto simp: linked_in_def)
    let ?c = "c\<lparr>cs_total_count := cs_total_count c + 1, m_event_using := m_event_using c + 1\<rparr>"
    let ?s2 = "put_cs q ?c s1"
    have ok1: "fmd_ok s1" "q \<in> set (f_list_case s1)" using l assms(5) by (simp_all add: linked_in_def)
    have ok2: "fmd_ok ?s2" "pins ?s2 q = pins s1 q" using fmd_ok_put_cs [OF ok1(1) c(1)] by simp_all
    obtain e2 where e2: "f_events ?s2 p = Some e2" "ev_core e2 = ev_core ?e"
      using l by (auto simp: linked_in_def)
    then have fit: "class_fit e2" "ev_flag e2 = AGENT_TOLOG" "ev_p_case e2 = q"
      using assms(4,6) by (simp_all add: ev_core_def class_fit_def)
    have lt: "int (pins s1 q) < m_event_using ?c" using fmd_ok_pins [OF ok1 c(1)] by simp
    have "safely (\<lambda>t. fmd_ok t \<and> may_send t p) (fmd_case_fire en q p ?s2)"
      by (rule safely_mono [OF fmd_case_fire_safe [OF ok2(1) e2(1) fit(1)]])
        (use c ok1 ok2 lt fit e2 in \<open>auto simp: may_send_def\<close>)
    moreover have "may_send ?s2 p" using e2(1) fit lt ok1 ok2(2) by (auto simp: may_send_def)
    ultimately show ?thesis using ok2(1) by (simp add: c(2) pe' Let_def)
  qed
  have "ev s p = Inr e" using assms(3) fmd_ok_nz [OF assms(1,3)] by simp
  then show ?thesis unfolding fmd_event_add_def
    by (simp only: rbind_simps) (rule safely_bind [OF link], use rest in auto)
qed

lemma pins_unlisted:
  assumes "fmd_ok s" "q \<notin> set (f_list_case s)"
  shows "pins s q = 0"
proof -
  have "\<not> unpins s q x" if "x \<in> set (inflight s)" for x
    using assms that by (fastforce simp: fmd_ok_def flight_ok_def unpins_def)
  then have "filter_mset (unpins s q) (mset (inflight s)) = filter_mset (\<lambda>_. False) (mset (inflight s))"
    by (intro filter_mset_cong) auto
  then show ?thesis by (simp add: pins_def)
qed

lemma fmd_ok_new_case:
  assumes "fmd_ok s" "new_cs c s = (a, s1)" "cs_event c = []" "m_event_using c = 0"
  defines "t \<equiv> s1\<lparr>f_list_case := a # f_list_case s1\<rparr>"
  shows "fmd_ok t" "own s x \<Longrightarrow> own t x" "f_events t = f_events s" "a \<in> set (f_list_case t)"
proof -
  have a: "a = f_next s" and s1: "s1 = (put_cs a c s)\<lparr>f_next := a + 1\<rparr>" using assms(2) by (auto simp: new_cs_def)
  have fresh: "f_cases s a = None" using assms(1) a by (auto simp: fmd_ok_def heap_ok_def)
  then have na: "a \<notin> set (f_list_case s)" using assms(1) by (auto simp: fmd_ok_def case_ok_def)
  have fl: "inflight t = inflight s" "waiting t = waiting s" "unpins t = unpins s"
    by (simp_all add: t_def s1 inflight_def waiting_def unpins_def fun_eq_iff)
  then have pins: "pins t = pins s" by (intro ext) (simp only: pins_def)
  have "case_ok t q" if "q \<in> set (f_list_case t)" for q
  proof (cases "q = a")
    case True
    then show ?thesis using pins_unlisted [OF assms(1) na] assms(3,4) pins by (simp add: case_ok_def t_def s1)
  next
    case False
    then have "case_ok s q" using that assms(1) by (simp add: fmd_ok_def t_def s1)
    then show ?thesis using False pins by (simp add: case_ok_def listed_ok_def t_def s1)
  qed
  moreover have "heap_ok t" using assms(1) a by (fastforce simp: fmd_ok_def heap_ok_def t_def s1 less_Suc_eq)
  moreover have "flight_ok t x" if "flight_ok s x" for x using that by (auto simp: flight_ok_def t_def s1)
  ultimately show "fmd_ok t"
    using assms(1) fl na by (simp add: fmd_ok_def wait_ok_def) (simp add: t_def s1)
  show "own s x \<Longrightarrow> own t x"
    using fl na assms(3) by (auto simp: own_def linked_def t_def s1)
  show "f_events t = f_events s" "a \<in> set (f_list_case t)" by (simp_all add: t_def s1)
qed

lemma add_case_list_safe:
  assumes "fmd_ok s" "own s p" "f_events s p = Some e" "ev_flag e = AGENT_TOLOG" "class_fit e"
  shows "safely (\<lambda>t. fmd_ok t \<and> may_send t p) (add_case_list en p s)"
proof -
  have e: "ev s p = Inr e" using assms(3) fmd_ok_nz [OF assms(1,3)] by simp
  have alive: "\<forall>q \<in> set (f_list_case s). q \<noteq> 0 \<and> f_cases s q \<noteq> None"
    using assms(1) fmd_ok_case_nz [OF assms(1)] by (fastforce simp: fmd_ok_def case_ok_def)
  note f = find_case_find [OF alive]
  show ?thesis
  proof (cases "find (\<lambda>q. cs_dev_name (the (f_cases s q)) = ev_dev_name e \<and>
      cs_dev_id (the (f_cases s q)) = ev_dev_id e) (f_list_case s)")
    case None
    obtain a s1 where n: "new_cs (case_new en e) s = (a, s1)" by (cases "new_cs (case_new en e) s")
    note n1 = fmd_ok_new_case [OF assms(1) n]
    have "safely (\<lambda>t. fmd_ok t \<and> may_send t p) (fmd_event_add en a p (s1\<lparr>f_list_case := a # f_list_case s1\<rparr>))"
      using n1 assms(2-5) by (intro fmd_event_add_safe [where e = e]) (simp_all add: case_new_def)
    then show ?thesis
      using assms(5) None by (simp add: add_case_list_def fmd_case_create_def e f class_fit_def n)
  next
    case (Some q)
    then have "q \<in> set (f_list_case s)" by (auto simp: find_Some_iff)
    from fmd_event_add_safe [OF assms(1-4) this assms(5)] show ?thesis
      using Some by (simp add: add_case_list_def e f)
  qed
qed

lemma classify_core: "ev_core (classify esc e) = ev_core e"
  by (simp add: classify_def ev_core_def Let_def split: option.split)

lemma fmd_case_insert_safe:
  assumes "fmd_ok s" "own s p" "f_events s p = Some e" "ev_flag e = AGENT_TOLOG" "class_fit e"
  shows "safely fmd_ok (fmd_case_insert en p s)"
proof -
  let ?e = "classify (f_esc s) e"
  obtain db where db: "snd (ras_events_handle (e_lt en) (e_rc en) ?e (put_ev p ?e s)) = (put_ev p ?e s)\<lparr>f_db := db\<rparr>"
    using ras_events_handle_frame by blast
  let ?s = "(put_ev p ?e s)\<lparr>f_db := db\<rparr>"
  note o = fmd_ok_put_own [OF assms(1,2), of ?e]
  note o1 = fmd_ok_put_db(1,2) [OF o(1), where db = db]
  have "ev_flag ?e = AGENT_TOLOG" "class_fit ?e"
    using classify_core [of "f_esc s" e] assms(4,5) by (simp_all add: ev_core_def class_fit_def)
  then have "safely (\<lambda>t. fmd_ok t \<and> may_send t p) (add_case_list en p ?s)"
    using o1(1) o1(2) [OF o(2)] by (intro add_case_list_safe [where e = ?e]) simp_all
  then have "safely fmd_ok (rbind (add_case_list en p ?s) (put_to_agents p))"
    by (rule safely_bind) (rule safely_mono [OF put_to_agents_safe], auto simp: sent_def)
  moreover have "ev s p = Inr e" using assms(3) fmd_ok_nz [OF assms(1,3)] by simp
  ultimately show ?thesis by (simp only: fmd_case_insert_def rbind_simps Let_def db)
qed

section \<open>The dispatcher and the sources\<close>

lemma linked_flag:
  assumes "fmd_ok s" "linked s p"
  shows "\<exists>e. f_events s p = Some e \<and> ev_flag e = AGENT_TOLOG"
proof -
  obtain q c where q: "q \<in> set (f_list_case s)" "f_cases s q = Some c" "p \<in> set (cs_event c)"
    using assms(2) by (auto simp: linked_def)
  obtain c' where "f_cases s q = Some c'" "\<forall>x \<in> set (cs_event c'). listed_ok s q x"
    using fmd_ok_caseD [OF assms(1) q(1)] by metis
  with q show ?thesis by (auto simp: listed_ok_def)
qed

text \<open>Taking an event out of the dispatcher's ring makes it the handler's own.\<close>

lemma fmd_ok_take:
  assumes "fmd_ok s" "ring_abs (f_queue_ring s) = p # xs" "ring_quiet r" "ring_abs r = xs"
  defines "t \<equiv> s\<lparr>f_queue_ring := r\<rparr>"
  shows "fmd_ok t" "own t p" "wait_ok t p"
proof -
  have w: "waiting s = p # waiting t" by (simp add: waiting_def t_def assms(2,4))
  have fl: "inflight t = inflight s" "unpins t = unpins s" by (simp_all add: t_def inflight_def unpins_def fun_eq_iff)
  then have pins: "pins t = pins s" by (intro ext) (simp only: pins_def)
  have d: "distinct (p # waiting t)" "wait_ok s p" using assms(1) w by (simp_all add: fmd_ok_def)
  have "case_ok t q" if "case_ok s q" for q using that pins by (simp add: case_ok_def listed_ok_def t_def)
  moreover have "flight_ok t x" if "flight_ok s x" for x using that by (simp add: flight_ok_def t_def)
  moreover have "wait_ok t x" if "wait_ok s x" for x using that by (simp add: wait_ok_def t_def)
  moreover have "heap_ok t" using assms(1) by (simp add: fmd_ok_def heap_ok_def t_def)
  ultimately show "fmd_ok t" using assms(1,3) w fl by (simp add: fmd_ok_def) (simp add: t_def)
  have fl0: "\<exists>e. f_events s p = Some e \<and> ev_flag e = 0" using d(2) by (auto simp: wait_ok_def)
  then have "p \<notin> set (inflight s)" "\<not> linked s p"
    using assms(1) linked_flag [OF assms(1), of p] by (auto simp: fmd_ok_def flight_ok_def event_consts)
  then show "own t p" using d fl fl0 by (auto simp: own_def linked_def t_def)
  show "wait_ok t p" using d(2) by (simp add: wait_ok_def t_def)
qed

lemma fmd_proc_event_safe:
  assumes "fmd_ok s" "own s p" "wait_ok s p"
  shows "safely fmd_ok (fmd_proc_event en p s)"
proof -
  obtain e where e: "f_events s p = Some e" "length (ev_class e) < 128" using assms(3) by (auto simp: wait_ok_def)
  have ev: "ev s p = Inr e" using e(1) fmd_ok_nz [OF assms(1) e(1)] by simp
  let ?e = "e\<lparr>ev_flag := AGENT_TOLOG\<rparr>"
  show ?thesis
  proof (cases "strncmp_eq (ev_class e) ''ereport.'' 8")
    case True
    then have "class_fit ?e" using e(2) by (simp add: class_fit_def strncmp_eq_const)
    then have "safely fmd_ok (fmd_case_insert en p (put_ev p ?e s))"
      using fmd_ok_put_own [OF assms(1,2), of ?e] by (intro fmd_case_insert_safe [where e = ?e]) simp_all
    with True show ?thesis by (simp add: fmd_proc_event_def ev event_disp_dest_def)
  next
    case False
    then show ?thesis using fmd_ok_put_own [OF assms(1,2), of e]
      by (simp add: fmd_proc_event_def ev event_disp_dest_def)
  qed
qed

lemma queue_one_safe:
  assumes "fmd_ok s"
  shows "safely fmd_ok (queue_one en s)"
proof -
  have q: "ring_quiet (f_queue_ring s)" using assms by (simp add: fmd_ok_def)
  show ?thesis
  proof (cases "ring_abs (f_queue_ring s)")
    case Nil
    then show ?thesis using ring_take_empty [OF q] by (simp add: queue_one_def)
  next
    case (Cons p xs)
    then obtain r where r: "ring_take (f_queue_ring s) = Inr (Some p, r)" "ring_quiet r" "ring_abs r = xs"
      using ring_take_ok [OF q] by blast
    note t = fmd_ok_take [OF assms Cons r(2,3)]
    from fmd_proc_event_safe [OF t] show ?thesis by (simp add: queue_one_def r(1))
  qed
qed

text \<open>A new event at the end of the dispatcher's ring, or of the repaired list.\<close>

lemma fmd_ok_wait:
  assumes "fmd_ok s" "own s p" "wait_ok s p" "ring_quiet r" "mset (ring_abs r @ l) = add_mset p (mset (waiting s))"
  defines "t \<equiv> s\<lparr>f_queue_ring := r, f_list_repaired := l\<rparr>"
  shows "fmd_ok t"
proof -
  have fl: "inflight t = inflight s" "unpins t = unpins s" by (simp_all add: t_def inflight_def unpins_def fun_eq_iff)
  then have pins: "pins t = pins s" by (intro ext) (simp only: pins_def)
  have w: "mset (waiting t) = mset (p # waiting s)" using assms(5) by (simp add: waiting_def t_def)
  then have "set (waiting t) = insert p (set (waiting s))" by (metis list.simps(15) set_mset_mset)
  moreover have "distinct (waiting t)"
    using w assms(1,2) by (metis mset_eq_imp_distinct_iff distinct.simps(2) fmd_ok_def own_def)
  moreover have "case_ok t q" if "case_ok s q" for q using that pins by (simp add: case_ok_def listed_ok_def t_def)
  moreover have "flight_ok t x" if "flight_ok s x" for x using that by (simp add: flight_ok_def t_def)
  moreover have "wait_ok t x" if "wait_ok s x" for x using that by (simp add: wait_ok_def t_def)
  moreover have "heap_ok t" using assms(1) by (simp add: fmd_ok_def heap_ok_def t_def)
  ultimately show "fmd_ok t" using assms(1,3,4) fl by (simp add: fmd_ok_def) (simp add: t_def)
qed

lemma src_post_safe:
  assumes "fmd_ok s" "length (nv_value nvl) < 128"
  shows "safely fmd_ok (src_post en nvl s)"
proof (cases "nv_value nvl = []")
  case False
  obtain p s1 where n: "fmd_create_ereport (e_now en) (nv_value nvl) nvl s = (p, s1)"
    by (cases "fmd_create_ereport (e_now en) (nv_value nvl) nvl s")
  note n1 = fmd_ok_new_ev [OF assms(1) n [unfolded fmd_create_ereport_def]]
  have w: "wait_ok s1 p" using n1(3) assms(2) by (simp add: wait_ok_def event_zero_def)
  have q: "ring_quiet (f_queue_ring s1)" using n1(1) by (simp add: fmd_ok_def)
  show ?thesis
  proof (cases "length (ring_abs (f_queue_ring s1)) = nat RING_SIZE")
    case True
    then show ?thesis using put_to_agent_full [OF q True] False
      by (simp add: src_post_def n fmd_queue_dispatch_eq)
  next
    case f: False
    then have "length (ring_abs (f_queue_ring s1)) < nat RING_SIZE"
      using ring.abs_bound [of "f_queue_ring s1"] q by (auto simp: ring_quiet_def)
    then obtain r where r: "put_to_agent (f_queue_ring s1) p = Inr r" "ring_quiet r"
        "ring_abs r = ring_abs (f_queue_ring s1) @ [p]"
      using put_to_agent_ok [OF q] by blast
    have "fmd_ok (s1\<lparr>f_queue_ring := r, f_list_repaired := f_list_repaired s1\<rparr>)"
      using n1(1,2) w r(2,3) by (intro fmd_ok_wait) (simp_all add: waiting_def)
    then show ?thesis using False r(1) by (simp add: src_post_def n fmd_queue_dispatch_eq)
  qed
qed (use assms in \<open>simp add: src_post_def\<close>)

section \<open>Deleting cases and events\<close>

lemma fmd_ok_free:
  assumes "fmd_ok s" "\<forall>x \<in> Q. \<not> shared s x"
  shows "fmd_ok (s\<lparr>f_events := f_events s |` (- Q)\<rparr>)"
  using assms(1)
proof (rule fmd_ok_keeps)
  show "same_lists s (s\<lparr>f_events := f_events s |` (- Q)\<rparr>)" by (simp add: same_lists_def)
  show "keeps s (s\<lparr>f_events := f_events s |` (- Q)\<rparr>)" using assms(2) by (auto simp: keeps_def restrict_map_def)
  show "heap_ok (s\<lparr>f_events := f_events s |` (- Q)\<rparr>)"
    using assms(1) by (auto simp: fmd_ok_def heap_ok_def restrict_map_def)
qed

text \<open>The events of an unpinned case are known to nobody else.\<close>

lemma listed_private:
  assumes "fmd_ok s" "p \<in> set (f_list_case s)" "f_cases s p = Some c" "m_event_using c \<le> 0" "x \<in> set (cs_event c)"
  shows "x \<notin> set (inflight s)" "x \<notin> set (waiting s)"
    "p' \<in> set (f_list_case s) \<Longrightarrow> f_cases s p' = Some c' \<Longrightarrow> x \<in> set (cs_event c') \<Longrightarrow> p' = p"
proof -
  have l: "listed_ok s p x" using assms fmd_ok_caseD [OF assms(1,2)] by (metis option.inject)
  then have u: "unpins s p x" by (auto simp: listed_ok_def unpins_def event_consts)
  have "pins s p = 0" using fmd_ok_pins [OF assms(1-3)] assms(4) by simp
  then show "x \<notin> set (inflight s)" using u by (auto simp: pins_def filter_mset_eq_conv size_eq_0_iff_empty)
  show "x \<notin> set (waiting s)" using l assms(1) by (auto simp: fmd_ok_def wait_ok_def listed_ok_def event_consts)
  assume "p' \<in> set (f_list_case s)" "f_cases s p' = Some c'" "x \<in> set (cs_event c')"
  then have "listed_ok s p' x" using fmd_ok_caseD [OF assms(1)] by (metis option.inject)
  with l show "p' = p" by (auto simp: listed_ok_def)
qed

lemma fmd_ok_drop_case:
  assumes "fmd_ok s" "p \<in> set (f_list_case s)" "f_cases s p = Some c" "m_event_using c \<le> 0"
  shows "fmd_ok (s\<lparr>f_list_case := remove1 p (f_list_case s), f_cases := (f_cases s)(p := None)\<rparr>)"
proof -
  let ?t = "s\<lparr>f_list_case := remove1 p (f_list_case s), f_cases := (f_cases s)(p := None)\<rparr>"
  have fl: "inflight ?t = inflight s" "waiting ?t = waiting s" "unpins ?t = unpins s"
    by (simp_all add: inflight_def waiting_def unpins_def fun_eq_iff)
  then have pins: "pins ?t = pins s" by (intro ext) (simp only: pins_def)
  have d: "distinct (f_list_case s)" using assms(1) by (simp add: fmd_ok_def)
  have "pins s p = 0" using fmd_ok_pins [OF assms(1-3)] assms(4) by simp
  then have np: "\<not> unpins s p x" if "x \<in> set (inflight s)" for x
    using that by (auto simp: pins_def filter_mset_eq_conv size_eq_0_iff_empty)
  have "flight_ok ?t x" if x: "x \<in> set (inflight s)" for x
  proof -
    have "flight_ok s x" using assms(1) x by (simp add: fmd_ok_def)
    with np [OF x] show ?thesis using d by (auto simp: flight_ok_def unpins_def event_consts)
  qed
  moreover have "case_ok ?t q" if "q \<in> set (remove1 p (f_list_case s))" for q
  proof -
    have "q \<noteq> p" "case_ok s q" using that d assms(1) by (auto simp: fmd_ok_def)
    then show ?thesis using pins by (simp add: case_ok_def listed_ok_def)
  qed
  moreover have "heap_ok ?t" using assms(1) by (auto simp: fmd_ok_def heap_ok_def)
  ultimately show ?thesis using assms(1) fl d by (simp add: fmd_ok_def wait_ok_def)
qed

lemma fmd_ok_unlink:
  assumes "fmd_ok s" "p \<in> set (f_list_case s)" "f_cases s p = Some c"
  shows "fmd_ok (put_cs p (c\<lparr>cs_event := remove1 q (cs_event c)\<rparr>) s)"
proof -
  let ?t = "put_cs p (c\<lparr>cs_event := remove1 q (cs_event c)\<rparr>) s"
  have pins: "pins ?t = pins s" by (simp add: fun_eq_iff pins_def)
  have "case_ok ?t x" if "x \<in> set (f_list_case s)" for x
  proof -
    have "case_ok s x" using that assms(1) by (simp add: fmd_ok_def)
    then show ?thesis using pins assms(3) set_remove1_subset [of q "cs_event c"]
      by (auto simp: case_ok_def listed_ok_def)
  qed
  then show ?thesis
    using assms(1,3) by (auto simp: fmd_ok_def heap_ok_def flight_ok_def wait_ok_def)
qed

lemma free_events_eq:
  "distinct ps \<Longrightarrow> (\<forall>q \<in> set ps. q \<noteq> 0 \<and> f_events s q \<noteq> None) \<Longrightarrow>
   free_events ps s = Inr (s\<lparr>f_events := f_events s |` (- set ps)\<rparr>)"
proof (induction ps arbitrary: s)
  case (Cons q ps)
  let ?t = "s\<lparr>f_events := (f_events s)(q := None)\<rparr>"
  have "free_ev q s = Inr ?t" using Cons.prems by (simp add: free_ev_Inr)
  then have "free_events (q # ps) s = free_events ps ?t" by simp
  also have "\<dots> = Inr (?t\<lparr>f_events := f_events ?t |` (- set ps)\<rparr>)"
    by (rule Cons.IH) (use Cons.prems in auto)
  also have "f_events ?t |` (- set ps) = f_events s |` (- set (q # ps))"
    by (auto simp: fun_eq_iff restrict_map_def)
  finally show ?case by simp
qed (simp add: restrict_map_def)

text \<open>What a deletion leaves alone: the waiting events and where they wait.\<close>

definition waits_kept :: "fmd \<Rightarrow> fmd \<Rightarrow> bool" where
  "waits_kept s t \<longleftrightarrow> f_list_repaired t = f_list_repaired s \<and> f_queue_ring t = f_queue_ring s \<and>
     (\<forall>x \<in> set (waiting s). f_events t x = f_events s x)"

lemma case_isolate_ok:
  assumes "fmd_ok s" "p \<in> set (f_list_case s)" "f_cases s p = Some c" "m_event_using c \<le> 0"
  shows "\<exists>t. case_isolate en e p c s = Inr t \<and> fmd_ok t \<and> waits_kept s t \<and>
    f_list_case t = remove1 p (f_list_case s) \<and> f_cases t p = None"
proof -
  obtain db where db: "snd (ras_store_rep_event (e_lt en) (e_rc en) e s) = s\<lparr>f_db := db\<rparr>"
    using ras_store_rep_event_frame by blast
  let ?s1 = "s\<lparr>f_db := db\<rparr>"
  have ok1: "fmd_ok ?s1" by (rule fmd_ok_put_db [OF assms(1)])
  let ?d = "?s1\<lparr>f_list_case := remove1 p (f_list_case s), f_cases := (f_cases s)(p := None)\<rparr>"
  have okd: "fmd_ok ?d" using fmd_ok_drop_case [OF ok1, of p c] assms by simp
  let ?Q = "set (cs_event c)"
  let ?t = "?d\<lparr>f_events := f_events ?d |` (- ?Q)\<rparr>"
  have priv: "x \<notin> set (inflight s)" "x \<notin> set (waiting s)" if "x \<in> ?Q" for x
    using listed_private(1,2) [OF assms that] by blast+
  have d: "distinct (f_list_case s)" using assms(1) by (simp add: fmd_ok_def)
  have "\<not> shared ?d x" if "x \<in> ?Q" for x
    using priv [OF that] listed_private(3) [OF assms that] d
    by (auto simp: shared_def linked_def inflight_def waiting_def)
  then have okt: "fmd_ok ?t" using fmd_ok_free [OF okd] by blast
  have ev: "distinct (cs_event c)" "\<forall>x \<in> ?Q. x \<noteq> 0 \<and> f_events ?s1 x \<noteq> None"
    by (rule fmd_ok_caseD [OF assms(1,2)]; use assms(3) in simp)+
  have "case_isolate en e p c s = Inr ?t"
    using free_events_eq [OF ev] assms(3) fmd_ok_case_nz [OF assms(1,3)]
    by (simp add: case_isolate_def db Let_def free_cs_Inr)
  moreover have "waits_kept s ?t" using priv(2) by (auto simp: waits_kept_def restrict_map_def)
  ultimately show ?thesis using okt by auto
qed

lemma put_cs_events: "put_cs p c (s\<lparr>f_events := h\<rparr>) = (put_cs p c s)\<lparr>f_events := h\<rparr>"
  by (simp add: put_cs_def)

lemma case_drop_event_ok:
  assumes "fmd_ok s" "p \<in> set (f_list_case s)" "f_cases s p = Some c" "m_event_using c \<le> 0" "q \<in> set (cs_event c)"
  shows "\<exists>s1. free_ev q s = Inr s1 \<and> fmd_ok (put_cs p (c\<lparr>cs_event := remove1 q (cs_event c)\<rparr>) s1) \<and>
    waits_kept s (put_cs p (c\<lparr>cs_event := remove1 q (cs_event c)\<rparr>) s1)"
proof -
  let ?c = "c\<lparr>cs_event := remove1 q (cs_event c)\<rparr>"
  obtain c0 where c0: "f_cases s p = Some c0" "distinct (cs_event c0)"
      "\<forall>x \<in> set (cs_event c0). x \<noteq> 0 \<and> f_events s x \<noteq> None"
    using fmd_ok_caseD [OF assms(1,2)] by metis
  then have d: "distinct (cs_event c)" and q: "q \<noteq> 0" "f_events s q \<noteq> None" using assms(3,5) by auto
  note priv = listed_private [OF assms]
  have ok: "fmd_ok (put_cs p ?c s)" by (rule fmd_ok_unlink [OF assms(1-3)])
  have "\<not> shared (put_cs p ?c s) q"
    using priv d by (auto simp: shared_def linked_def split: if_splits)
  then have "fmd_ok ((put_cs p ?c s)\<lparr>f_events := f_events (put_cs p ?c s) |` (- {q})\<rparr>)"
    using fmd_ok_free [OF ok, of "{q}"] by simp
  moreover have "f_events s |` (- {q}) = (f_events s)(q := None)" by (auto simp: fun_eq_iff restrict_map_def)
  ultimately have "fmd_ok (put_cs p ?c (s\<lparr>f_events := (f_events s)(q := None)\<rparr>))"
    by (simp add: put_cs_events)
  moreover have "free_ev q s = Inr (s\<lparr>f_events := (f_events s)(q := None)\<rparr>)" using q by (simp add: free_ev_Inr)
  ultimately show ?thesis using priv(2) by (auto simp: waits_kept_def)
qed

lemma case_delete_loop_ok:
  assumes "fmd_ok s" "set ps \<subseteq> set (f_list_case s)"
  shows "\<exists>rc t. case_delete_loop en e ps s = Inr (rc, t) \<and> fmd_ok t \<and> waits_kept s t"
  using assms(2)
proof (induction ps)
  case (Cons p ps)
  then have p: "p \<in> set (f_list_case s)" by simp
  obtain c where c: "f_cases s p = Some c" "cs s p = Inr c"
      "\<forall>x \<in> set (cs_event c). x \<noteq> 0 \<and> f_events s x \<noteq> None"
    using fmd_ok_caseD [OF assms(1) p] by metis
  note f = find_event_find [OF c(3), of "ev_evt_id e"]
  let ?hit = "find (\<lambda>x. ev_evt_id (the (f_events s x)) = ev_evt_id e) (cs_event c)"
  have "case_delete_loop en e (p # ps) s = case_delete_loop en e ps s"
    if "m_event_using c > 0 \<or> \<not> (cs_dev_name c = ev_dev_name e \<and> cs_dev_id c = ev_dev_id e) \<or>
      (ev_agent_result e \<noteq> LIST_ISOLATED_SUCCESS \<and> ?hit = None)"
    using that by (auto simp: c(2) f)
  then consider (isolate) "m_event_using c \<le> 0" "cs_dev_name c = ev_dev_name e \<and> cs_dev_id c = ev_dev_id e"
      "ev_agent_result e = LIST_ISOLATED_SUCCESS"
    | (drop) q where "m_event_using c \<le> 0" "cs_dev_name c = ev_dev_name e \<and> cs_dev_id c = ev_dev_id e"
      "ev_agent_result e \<noteq> LIST_ISOLATED_SUCCESS" "?hit = Some q"
    | (skip) "case_delete_loop en e (p # ps) s = case_delete_loop en e ps s"
    by (meson linorder_not_le not_Some_eq)
  then show ?case
  proof cases
    case isolate
    obtain t where "case_isolate en e p c s = Inr t" "fmd_ok t" "waits_kept s t"
      using case_isolate_ok [OF assms(1) p c(1) isolate(1)] by blast
    with isolate show ?thesis by (simp add: c(2))
  next
    case drop
    then have "q \<in> set (cs_event c)" by (auto simp: find_Some_iff)
    then obtain s1 where "free_ev q s = Inr s1" "fmd_ok (put_cs p (c\<lparr>cs_event := remove1 q (cs_event c)\<rparr>) s1)"
        "waits_kept s (put_cs p (c\<lparr>cs_event := remove1 q (cs_event c)\<rparr>) s1)"
      using case_drop_event_ok [OF assms(1) p c(1) drop(1)] by blast
    with drop show ?thesis by (simp add: c(2) f)
  next
    case skip
    then show ?thesis using Cons by auto
  qed
qed (use assms(1) in \<open>simp add: waits_kept_def\<close>)

lemma fmd_case_find_and_delete_ok:
  assumes "fmd_ok s" "f_events s p = Some e"
  shows "\<exists>rc t. fmd_case_find_and_delete en p s = Inr (rc, t) \<and> fmd_ok t \<and> waits_kept s t"
proof -
  have "ev s p = Inr e" using assms fmd_ok_nz by simp
  then show ?thesis
    using case_delete_loop_ok [OF assms(1), of "f_list_case s" en e]
    by (simp only: fmd_case_find_and_delete_def rbind_simps)
qed

lemma repaired_drop_ok:
  assumes "fmd_ok s" "p \<in> set (f_list_repaired s)"
  shows "\<exists>t. repaired_drop p s = Inr t \<and> fmd_ok t \<and> f_list_repaired t = remove1 p (f_list_repaired s)"
proof -
  let ?s1 = "s\<lparr>f_list_repaired := remove1 p (f_list_repaired s)\<rparr>"
  have pw: "p \<in> set (waiting s)" "distinct (waiting s)" using assms by (simp_all add: waiting_def fmd_ok_def)
  obtain e where e: "f_events s p = Some e" "ev_flag e = 0"
    using assms(1) pw(1) by (auto simp: fmd_ok_def wait_ok_def)
  have fl: "inflight ?s1 = inflight s" "unpins ?s1 = unpins s" by (simp_all add: inflight_def unpins_def fun_eq_iff)
  then have pins: "pins ?s1 = pins s" by (intro ext) (simp only: pins_def)
  have w: "set (waiting ?s1) = set (waiting s) - {p}" "distinct (waiting ?s1)"
    using pw assms(2) by (auto simp: waiting_def)
  have "case_ok ?s1 q" if "case_ok s q" for q using that pins by (simp add: case_ok_def listed_ok_def)
  moreover have "flight_ok ?s1 x" if "flight_ok s x" for x using that by (simp add: flight_ok_def)
  ultimately have ok1: "fmd_ok ?s1"
    using assms(1) fl w by (simp add: fmd_ok_def heap_ok_def wait_ok_def)
  have "p \<notin> set (inflight s)" using assms(1) e by (auto simp: fmd_ok_def flight_ok_def event_consts)
  then have "\<not> shared ?s1 p"
    using linked_flag [OF ok1, of p] fl w e by (auto simp: shared_def event_consts)
  then have "fmd_ok (?s1\<lparr>f_events := f_events ?s1 |` (- {p})\<rparr>)" using fmd_ok_free [OF ok1, of "{p}"] by simp
  moreover have "f_events s |` (- {p}) = (f_events s)(p := None)" by (auto simp: fun_eq_iff restrict_map_def)
  moreover have "repaired_drop p s = Inr (?s1\<lparr>f_events := (f_events s)(p := None)\<rparr>)"
    using e fmd_ok_nz [OF assms(1) e(1)] by (simp add: repaired_drop_def free_ev_Inr)
  ultimately show ?thesis by simp
qed

lemma delete_one_ok:
  assumes "fmd_ok s" "p \<in> set (f_list_repaired s)"
  shows "\<exists>t. delete_one en p s = Inr t \<and> fmd_ok t \<and>
    (f_list_repaired t = f_list_repaired s \<or> f_list_repaired t = remove1 p (f_list_repaired s))"
proof -
  obtain e where e: "f_events s p = Some e"
    using fmd_ok_alive [OF assms(1), of p] assms(2) by (auto simp: shared_def waiting_def)
  then have ev: "ev s p = Inr e" using fmd_ok_nz [OF assms(1)] by simp
  obtain rc t where t: "fmd_case_find_and_delete en p s = Inr (rc, t)" "fmd_ok t" "waits_kept s t"
    using fmd_case_find_and_delete_ok [OF assms(1) e] by blast
  let ?t = "t\<lparr>f_data_freed := f_data_freed t @ [ev_data e]\<rparr>"
  have l: "f_list_repaired t = f_list_repaired s" using t(3) by (simp add: waits_kept_def)
  then obtain u where u: "repaired_drop p t = Inr u" "fmd_ok u" "f_list_repaired u = remove1 p (f_list_repaired s)"
    using repaired_drop_ok [OF t(2), of p] assms(2) by auto
  have "fmd_ok ?t" by (rule fmd_ok_put_db(3) [OF t(2)])
  then obtain v where v: "repaired_drop p ?t = Inr v" "fmd_ok v" "f_list_repaired v = remove1 p (f_list_repaired s)"
    using repaired_drop_ok [of ?t p] assms(2) l by auto
  show ?thesis
    using assms(1) t(2) l u v by (simp add: delete_one_def ev t(1))
qed

lemma delete_loop_ok:
  "fmd_ok s \<Longrightarrow> set ps \<subseteq> set (f_list_repaired s) \<Longrightarrow> distinct ps \<Longrightarrow> \<exists>t. delete_loop en ps s = Inr t \<and> fmd_ok t"
proof (induction ps arbitrary: s)
  case (Cons p ps)
  then obtain t where t: "delete_one en p s = Inr t" "fmd_ok t"
      "f_list_repaired t = f_list_repaired s \<or> f_list_repaired t = remove1 p (f_list_repaired s)"
    using delete_one_ok [of s p en] by auto
  have "distinct (f_list_repaired s)" using Cons.prems(1) by (auto simp: fmd_ok_def waiting_def)
  then have "set ps \<subseteq> set (f_list_repaired t)" using t(3) Cons.prems(2,3) by auto
  then show ?case using Cons.IH [OF t(2)] Cons.prems(3) t(1) by simp
qed simp

lemma queue_delete_proc_ok: "fmd_ok s \<Longrightarrow> \<exists>t. queue_delete_proc en s = Inr t \<and> fmd_ok t"
  unfolding queue_delete_proc_def by (rule delete_loop_ok) (auto simp: fmd_ok_def waiting_def)

section \<open>The agents\<close>

lemma agent_take_safe:
  assumes "fmd_ok s"
  shows "safely fmd_ok (agent_take i s)"
proof (cases "length (f_list_agent s) \<le> i \<or> am_hand (f_list_agent s ! i) \<noteq> None")
  case False
  let ?m = "f_list_agent s ! i"
  have i: "i < length (f_list_agent s)" and h: "am_hand ?m = None" using False by auto
  have ok: "agent_ok ?m" using assms i by (simp add: fmd_ok_def)
  then have q: "ring_quiet (am_ring ?m)" by (simp add: agent_ok_def)
  show ?thesis
  proof (cases "ring_abs (am_ring ?m)")
    case Nil
    then show ?thesis using False ring_take_empty [OF q] by (simp add: agent_take_def)
  next
    case (Cons p xs)
    then obtain r where r: "ring_take (am_ring ?m) = Inr (Some p, r)" "ring_quiet r" "ring_abs r = xs"
      using ring_take_ok [OF q] by blast
    let ?as = "(f_list_agent s)[i := ?m\<lparr>am_ring := r, am_hand := Some p\<rparr>]"
    have "mset (held (?m\<lparr>am_ring := r, am_hand := Some p\<rparr>)) + {#} = mset (held ?m) + {#}"
      using r(3) h Cons by (simp add: held_def hand_def)
    from mset_concat_update [where f = held, OF i this]
    have fl: "mset (inflight (s\<lparr>f_list_agent := ?as\<rparr>)) = mset (inflight s)" by (simp add: inflight_def)
    then have "set (inflight (s\<lparr>f_list_agent := ?as\<rparr>)) = set (inflight s)" by (metis set_mset_mset)
    moreover have "pins (s\<lparr>f_list_agent := ?as\<rparr>) x = pins s x" for x using fl by (simp add: pins_def)
    moreover have "\<forall>m \<in> set ?as. agent_ok m"
      using assms ok r by (auto simp: fmd_ok_def agent_ok_def dest!: set_update_subset_insert [THEN subsetD])
    ultimately have "fmd_ok (s\<lparr>f_list_agent := ?as\<rparr>)"
      using assms fmd_ok_pins [OF assms] by (intro fmd_ok_agents) (auto simp: fmd_ok_def)
    then show ?thesis using False r(1) by (simp add: agent_take_def)
  qed
qed (simp add: agent_take_def)

lemma agent_done_simps [simp]:
  "f_events (agent_done i s) = f_events s" "f_cases (agent_done i s) = f_cases s"
  by (simp_all add: agent_done_def)

lemma agent_done_ok:
  assumes "fmd_ok s" "i < length (f_list_agent s)" "am_hand (f_list_agent s ! i) = Some p"
  shows "fmd_ok (agent_done i s)" "own s x \<Longrightarrow> own (agent_done i s) x"
    "pins (agent_done i s) q + (if unpins s q p then 1 else 0) = pins s q" "p \<in> set (inflight s)"
proof -
  let ?m = "f_list_agent s ! i"
  let ?as = "(f_list_agent s)[i := ?m\<lparr>am_hand := None\<rparr>]"
  let ?t = "s\<lparr>f_list_agent := ?as\<rparr>"
  have t: "agent_done i s = ?t" by (simp add: agent_done_def)
  have "mset (held (?m\<lparr>am_hand := None\<rparr>)) + {#p#} = mset (held ?m) + {#}"
    using assms(3) by (simp add: held_def hand_def)
  from mset_concat_update [where f = held, OF assms(2) this]
  have fl: "mset (inflight s) = add_mset p (mset (inflight ?t))" by (simp add: inflight_def)
  then have set: "set (inflight s) = insert p (set (inflight ?t))" by (metis set_mset_add_mset_insert set_mset_mset)
  then show "p \<in> set (inflight s)" by simp
  have pins: "pins ?t q + (if unpins s q p then 1 else 0) = pins s q" for q using fl by (simp add: pins_def)
  then show "pins (agent_done i s) q + (if unpins s q p then 1 else 0) = pins s q" by (simp add: t)
  have "\<forall>m \<in> set ?as. agent_ok m"
    using assms(1,2) by (auto simp: fmd_ok_def agent_ok_def dest!: set_update_subset_insert [THEN subsetD])
  moreover have "int (pins ?t q) \<le> m_event_using c" if "q \<in> set (f_list_case s)" "f_cases s q = Some c" for q c
    using fmd_ok_pins [OF assms(1) that] pins [of q] by (simp split: if_splits)
  ultimately show "fmd_ok (agent_done i s)"
    unfolding t using assms(1) set by (intro fmd_ok_agents) (auto simp: fmd_ok_def)
  show "own s x \<Longrightarrow> own (agent_done i s) x"
    using set by (auto simp: t own_def linked_def waiting_def)
qed

lemma fmd_ok_put_using:
  assumes "fmd_ok s" "f_cases s q = Some c" "int (pins s q) \<le> n"
  shows "fmd_ok (put_cs q (c\<lparr>m_event_using := n\<rparr>) s)" "own s x \<Longrightarrow> own (put_cs q (c\<lparr>m_event_using := n\<rparr>) s) x"
proof -
  let ?t = "put_cs q (c\<lparr>m_event_using := n\<rparr>) s"
  have pins: "pins ?t = pins s" by (simp add: fun_eq_iff pins_def)
  have "case_ok ?t x" if "x \<in> set (f_list_case s)" for x
  proof -
    have "case_ok s x" using that assms(1) by (simp add: fmd_ok_def)
    then show ?thesis using pins assms(2,3) by (auto simp: case_ok_def listed_ok_def)
  qed
  then show "fmd_ok ?t"
    using assms(1,2) by (auto simp: fmd_ok_def heap_ok_def flight_ok_def wait_ok_def)
  show "own s x \<Longrightarrow> own ?t x"
    by (rule own_keeps) (use assms(2) in \<open>auto simp: own_def split: if_splits\<close>)
qed

lemma repaired_find_find:
  "(\<forall>q \<in> set ps. q \<noteq> 0 \<and> f_events s q \<noteq> None) \<Longrightarrow>
   repaired_find s ps e = Inr (find (\<lambda>q. same_result (the (f_events s q)) e) ps)"
proof (induction ps)
  case (Cons q ps)
  then obtain e where "f_events s q = Some e" "ev s q = Inr e" by auto
  with Cons show ?case by simp
qed simp

lemma agent_ring_put_ok:
  assumes "fmd_ok s" "own s l" "wait_ok s l"
  shows "\<exists>t. agent_ring_put l s = Inr t \<and> fmd_ok t"
proof -
  obtain e where e: "f_events s l = Some e" "ev_flag e = 0" "length (ev_class e) < 128"
    using assms(3) by (auto simp: wait_ok_def)
  then have ev: "ev s l = Inr e" using fmd_ok_nz [OF assms(1)] by simp
  have alive: "\<forall>q \<in> set (f_list_repaired s). q \<noteq> 0 \<and> f_events s q \<noteq> None"
    using fmd_ok_alive [OF assms(1)] fmd_ok_nz [OF assms(1)] by (fastforce simp: shared_def waiting_def)
  note f = repaired_find_find [OF alive, of e]
  show ?thesis
  proof (cases "find (\<lambda>q. same_result (the (f_events s q)) e) (f_list_repaired s)")
    case None
    let ?e = "e\<lparr>ev_count := 1\<rparr>"
    let ?s = "put_ev l ?e s"
    have "fmd_ok (?s\<lparr>f_queue_ring := f_queue_ring s, f_list_repaired := f_list_repaired s @ [l]\<rparr>)"
      using fmd_ok_put_own [OF assms(1,2), of ?e] e assms(1)
      by (intro fmd_ok_wait) (auto simp: wait_ok_def waiting_def fmd_ok_def)
    moreover have "agent_ring_put l s = Inr (?s\<lparr>f_queue_ring := f_queue_ring s, f_list_repaired := f_list_repaired s @ [l]\<rparr>)"
      using None by (simp add: agent_ring_put_def ev f put_ev_def)
    ultimately show ?thesis by blast
  next
    case (Some p)
    then have p: "p \<in> set (f_list_repaired s)" by (auto simp: find_Some_iff)
    then obtain pe where pe: "f_events s p = Some pe" "ev s p = Inr pe" using alive by auto
    let ?e = "pe\<lparr>ev_create := ev_create e, ev_refs := ev_refs e, ev_count := ev_count pe + 1\<rparr>"
    have ok: "fmd_ok (put_ev p ?e s)" using fmd_ok_put_core [OF assms(1) pe(1)] by (simp add: ev_core_def)
    have "l \<noteq> p" using p assms(2) by (auto simp: own_def waiting_def)
    then have l: "f_events (put_ev p ?e s) l = Some e" using e(1) by simp
    have "\<not> shared (put_ev p ?e s) l" using assms(2) by (auto simp: own_def shared_def linked_def)
    then have "fmd_ok ((put_ev p ?e s)\<lparr>f_events := f_events (put_ev p ?e s) |` (- {l})\<rparr>)"
      using fmd_ok_free [OF ok, of "{l}"] by simp
    moreover have "f_events (put_ev p ?e s) |` (- {l}) = (f_events (put_ev p ?e s))(l := None)"
      by (auto simp: fun_eq_iff restrict_map_def)
    moreover have "agent_ring_put l s = free_ev l (put_ev p ?e s)"
      using Some by (simp add: agent_ring_put_def ev f pe(2))
    ultimately show ?thesis using l fmd_ok_nz [OF assms(1) e(1)] by (auto simp: free_ev_Inr)
  qed
qed

text \<open>Unpinning the case and letting go of the event.\<close>

lemma agent_unpin_ok:
  assumes "fmd_ok s" "i < length (f_list_agent s)" "am_hand (f_list_agent s ! i) = Some p" "f_events s p = Some e"
  shows "\<exists>t. (if ev_flag e \<noteq> AGENT_TODO then case_unpin (ev_p_case e) s else Inr s) = Inr t \<and>
    fmd_ok (agent_done i t) \<and> (\<forall>x. own s x \<longrightarrow> own (agent_done i t) x) \<and> f_events (agent_done i t) = f_events s"
proof (cases "ev_flag e = AGENT_TODO")
  case True
  then show ?thesis using agent_done_ok [OF assms(1-3)] by auto
next
  case False
  note d = agent_done_ok [OF assms(1-3)]
  let ?q = "ev_p_case e" and ?d = "agent_done i s"
  have "flight_ok s p" using assms(1) d(4) by (simp add: fmd_ok_def)
  then have q: "?q \<in> set (f_list_case s)" using False assms(4) by (auto simp: flight_ok_def)
  obtain c where c: "f_cases s ?q = Some c" "cs s ?q = Inr c" using fmd_ok_caseD [OF assms(1) q] by metis
  have "unpins s ?q p" using assms(4) False by (simp add: unpins_def)
  then have "int (pins ?d ?q) \<le> m_event_using c - 1"
    using fmd_ok_pins [OF assms(1) q c(1)] d(3) [of ?q] by simp
  moreover have "f_cases ?d ?q = Some c" using c(1) by (simp add: agent_done_def)
  ultimately have u: "fmd_ok (put_cs ?q (c\<lparr>m_event_using := m_event_using c - 1\<rparr>) ?d)"
    "own ?d x \<Longrightarrow> own (put_cs ?q (c\<lparr>m_event_using := m_event_using c - 1\<rparr>) ?d) x" for x
    using fmd_ok_put_using [OF d(1)] by blast+
  let ?t = "put_cs ?q (c\<lparr>m_event_using := m_event_using c - 1\<rparr>) s"
  have comm: "agent_done i ?t = put_cs ?q (c\<lparr>m_event_using := m_event_using c - 1\<rparr>) ?d"
    by (simp add: agent_done_def put_cs_def)
  have "case_unpin ?q s = Inr ?t" by (simp add: case_unpin_def c(2))
  then show ?thesis using False u d(2) by (auto simp: comm)
qed

lemma agent_finish_safe:
  assumes "fmd_ok s"
  shows "safely fmd_ok (agent_finish act en i s)"
proof (cases "length (f_list_agent s) \<le> i \<or> am_hand (f_list_agent s ! i) = None")
  case False
  then obtain p where i: "i < length (f_list_agent s)" and p: "am_hand (f_list_agent s ! i) = Some p" by auto
  have fl: "p \<in> set (inflight s)" by (rule agent_done_ok(4) [OF assms i p])
  then obtain e where e: "f_events s p = Some e" "class_fit e" using assms by (auto simp: fmd_ok_def flight_ok_def)
  have ev: "ev s p = Inr e" using e(1) fmd_ok_nz [OF assms e(1)] by simp
  obtain r0 ty where r: "act (e\<lparr>ev_handle_mode := am_evt_handle_mode (f_list_agent s ! i)\<rparr>) = (r0, ty)" by fastforce
  let ?e = "e\<lparr>ev_handle_mode := am_evt_handle_mode (f_list_agent s ! i), ev_event_type := ty\<rparr>"
  let ?s = "put_ev p ?e s"
  have ok: "fmd_ok ?s" using fmd_ok_put_core [OF assms e(1)] by (simp add: ev_core_def)
  have hi: "i < length (f_list_agent ?s)" "am_hand (f_list_agent ?s ! i) = Some p" using i p by simp_all
  have fin: "agent_finish act en i s =
    rbind (case r0 of None \<Rightarrow> Inr (None, ?s)
        | Some action \<Rightarrow> rbind (fmd_create_listevent (e_now en) p action ?s) (\<lambda>(l, s2). Inr (Some l, s2)))
      (\<lambda>(r, s2). rbind (if ev_flag ?e \<noteq> AGENT_TODO then case_unpin (ev_p_case ?e) s2 else Inr s2) (\<lambda>s3.
         case r of None \<Rightarrow> Inr (agent_done i s3) | Some l \<Rightarrow> agent_ring_put l (agent_done i s3)))"
    using i p by (simp add: agent_finish_def ev Let_def r)
  show ?thesis
  proof (cases r0)
    case None
    have "f_events ?s p = Some ?e" by simp
    from agent_unpin_ok [OF ok hi this] obtain t where
      "(if ev_flag ?e \<noteq> AGENT_TODO then case_unpin (ev_p_case ?e) ?s else Inr ?s) = Inr t" "fmd_ok (agent_done i t)"
      by blast
    then show ?thesis unfolding fin None by simp
  next
    case (Some action)
    have fit: "is_pfx ''ereport.'' (ev_class ?e)" "length (ev_class ?e) < 128" using e(2) by (simp_all add: class_fit_def)
    obtain le where le: "listevent_of (e_now en) ?e action = Inr le" "length (ev_class le) < 128"
      using listevent_of_ereport [OF fit, of "e_now en" action] by metis
    have fl0: "ev_flag le = 0" using le(1) by (auto simp: listevent_of_def event_zero_def split: if_splits)
    obtain l s2 where n: "new_ev le ?s = (l, s2)" by (cases "new_ev le ?s")
    note n1 = fmd_ok_new_ev [OF ok n]
    have create: "fmd_create_listevent (e_now en) p action ?s = Inr (l, s2)"
      using fmd_ok_nz [OF assms e(1)] by (simp add: fmd_create_listevent_def ev_def load_def le(1) n)
    have "p \<noteq> l" using n1(8) by auto
    then have "f_events s2 p = Some ?e" using n1(5) by simp
    moreover have "i < length (f_list_agent s2)" "am_hand (f_list_agent s2 ! i) = Some p"
      using n1(6) i p by (simp_all add: same_lists_def)
    ultimately obtain t where t: "(if ev_flag ?e \<noteq> AGENT_TODO then case_unpin (ev_p_case ?e) s2 else Inr s2) = Inr t"
        "fmd_ok (agent_done i t)" "own (agent_done i t) l" "f_events (agent_done i t) = f_events s2"
      using agent_unpin_ok [OF n1(1), of i p ?e] n1(2) by blast
    have "wait_ok (agent_done i t) l" using t(4) n1(3) fl0 le(2) by (simp add: wait_ok_def)
    from agent_ring_put_ok [OF t(2,3) this] show ?thesis
      unfolding fin Some using create t(1) by auto
  qed
qed (auto simp: agent_finish_def)

section \<open>Every reachable state\<close>

lemma fmd_ok_init:
  assumes "list_all agent_fresh agents"
  shows "fmd_ok (fmd_init esc agents priv)"
proof -
  have "ring_abs (ring_init :: addr ring_t) = []" by (rule ring.abs_empty)
  then have "inflight (fmd_init esc agents priv) = []" "waiting (fmd_init esc agents priv) = []"
    using assms by (auto simp: inflight_def waiting_def fmd_init_def held_def hand_def agent_fresh_def list_all_iff)
  then show ?thesis
    using assms by (simp add: fmd_ok_def) (auto simp: fmd_init_def heap_ok_def ring_quiet_init agent_ok_def
        agent_fresh_def list_all_iff)
qed

lemma sys_exec_safe:
  assumes "fmd_ok s" "move_ok m"
  shows "safely fmd_ok (sys_exec act en m s)"
proof (cases m)
  case (Post nvl)
  then show ?thesis using assms src_post_safe by (simp add: move_ok_def)
next
  case Sweep
  obtain t where "queue_delete_proc en s = Inr t" "fmd_ok t" using queue_delete_proc_ok [OF assms(1)] by blast
  with Sweep show ?thesis by simp
qed (use assms(1) queue_one_safe agent_take_safe agent_finish_safe in simp_all)

lemma sys_reach_ok: "sys_reach esc agents priv s \<Longrightarrow> list_all agent_fresh agents \<Longrightarrow> fmd_ok s"
proof (induction rule: sys_reach.induct)
  case init
  then show ?case by (rule fmd_ok_init)
next
  case (step s m act en t)
  then have "safely fmd_ok (Inr t)" using sys_exec_safe [of s m act en] by metis
  then show ?case by simp
qed

text \<open>Sequences of moves, to reach concrete states: one agent for the cpu classes and one fault class.\<close>

fun sys_run :: "(fmd_event \<Rightarrow> int option \<times> int) \<Rightarrow> env \<Rightarrow> move list \<Rightarrow> fmd \<Rightarrow> fmd res" where
  "sys_run act en [] s = Inr s"
| "sys_run act en (m # ms) s = rbind (sys_exec act en m s) (sys_run act en ms)"

lemma sys_run_reach:
  "sys_reach esc agents priv s \<Longrightarrow> list_all move_ok ms \<Longrightarrow> \<not> isl (sys_run act en ms s) \<Longrightarrow>
   sys_reach esc agents priv (projr (sys_run act en ms s))"
proof (induction ms arbitrary: s)
  case (Cons m ms)
  then obtain t where "sys_exec act en m s = Inr t" by (cases "sys_exec act en m s") auto
  with Cons show ?case by (auto intro: sys_reach.step)
qed simp

definition demo_env :: env where
  "demo_env = \<lparr>e_now = 1000, e_lt = (\<lambda>_. \<lparr>tm_year = -1898, tm_mon = 6, tm_mday = 6, tm_hour = 1, tm_min = 2, tm_sec = 3\<rparr>),
     e_rc = (\<lambda>_. 0)\<rparr>"

definition demo_act :: "fmd_event \<Rightarrow> int option \<times> int" where
  "demo_act e = (if ev_flag e = AGENT_TODO then (Some LIST_ISOLATED_SUCCESS, EVENT_LIST) else (None, ev_event_type e))"

definition demo_nvl :: nvlist where
  "demo_nvl = \<lparr>nv_name = ''cpu'', nv_dev_id = 3, nv_value = ''ereport.cpu.mc_ue'', nv_evt_id = 9, nv_data = 0\<rparr>"

definition demo_agents :: "agent_module list" where
  "demo_agents = [\<lparr>am_mod_name = ''cpumem_agent.so'', am_list_eclass = [''ereport.cpu.*''], am_evt_handle_mode = 1,
     am_ring = ring_init, am_hand = None\<rparr>]"

definition demo_esc :: fmd_esc where
  "demo_esc = esc_init\<lparr>list_fault := [''ereport.cpu.mc_ue'']\<rparr>"

definition demo_init :: fmd where
  "demo_init = fmd_init demo_esc demo_agents (Some [Stmt_cpu, Stmt_rep])"

definition demo_res :: "fmd res" where
  "demo_res = sys_run demo_act demo_env [Post demo_nvl, Process] demo_init"

definition demo_sent :: fmd where
  "demo_sent = projr demo_res"

lemma demo_fresh: "list_all agent_fresh demo_agents"
  by (simp add: demo_agents_def agent_fresh_def sub_ok_def)

lemma demo_eval:
  "case demo_res of
     Inl _ \<Rightarrow> False
   | Inr s \<Rightarrow> f_list_case s = [2] \<and> map_option m_event_using (f_cases s 2) = Some 1 \<and>
       \<not> isl (sys_exec demo_act demo_env (Take 0) s)"
  by code_simp

lemma demo_sent_facts:
  "\<not> isl demo_res" "f_list_case demo_sent = [2]"
  "map_option m_event_using (f_cases demo_sent 2) = Some 1"
  "\<not> isl (sys_exec demo_act demo_env (Take 0) demo_sent)"
proof -
  obtain s where s: "demo_res = Inr s" using demo_eval by (auto split: sum.splits)
  note e = demo_eval [unfolded s, unfolded sum.case]
  have d: "demo_sent = s" by (simp add: demo_sent_def s)
  show "\<not> isl demo_res" by (simp add: s)
  show "f_list_case demo_sent = [2]" "map_option m_event_using (f_cases demo_sent 2) = Some 1"
    "\<not> isl (sys_exec demo_act demo_env (Take 0) demo_sent)" unfolding d using e by blast+
qed

lemma demo_reach: "sys_reach demo_esc demo_agents (Some [Stmt_cpu, Stmt_rep]) demo_sent"
proof -
  have "list_all move_ok [Post demo_nvl, Process]" by (simp add: move_ok_def demo_nvl_def)
  then show ?thesis
    using demo_sent_facts(1) unfolding demo_sent_def demo_res_def demo_init_def by (intro sys_run_reach sys_reach.init)
qed





end
