(* ===== verification/Fms_Diagnosis.thy ===== *)
theory Fms_Diagnosis
  imports Fms_Safety
begin

text \<open>
  What the diagnosis computes. The cases and their event lists implement a table of counters, one per
  device and event id; processing an event adds one to its counter and to no other, and decides from the
  counter whether the case fires. The clean-up removes from the repaired list exactly the entries it should.
\<close>

section \<open>The abstract view: a counter per device and event\<close>

definition key_is :: "fmd \<Rightarrow> string \<Rightarrow> 64 word \<Rightarrow> addr \<Rightarrow> bool" where
  "key_is s n i q \<longleftrightarrow> cs_dev_name (the (f_cases s q)) = n \<and> cs_dev_id (the (f_cases s q)) = i"

definition case_of :: "fmd \<Rightarrow> string \<Rightarrow> 64 word \<Rightarrow> addr option" where
  "case_of s n i = find (key_is s n i) (f_list_case s)"

definition listed :: "fmd \<Rightarrow> addr \<Rightarrow> 64 word \<Rightarrow> addr option" where
  "listed s q j = find (\<lambda>x. ev_evt_id (the (f_events s x)) = j) (cs_event (the (f_cases s q)))"

definition occ :: "fmd \<Rightarrow> string \<Rightarrow> 64 word \<Rightarrow> 64 word \<Rightarrow> int" where
  "occ s n i j = (case case_of s n i of None \<Rightarrow> 0 | Some q \<Rightarrow>
     (case listed s q j of None \<Rightarrow> 0 | Some x \<Rightarrow> ev_count (the (f_events s x))))"

definition fires :: "fmd \<Rightarrow> string \<Rightarrow> 64 word \<Rightarrow> int" where
  "fires s n i = (case case_of s n i of None \<Rightarrow> 0 | Some q \<Rightarrow> cs_fire_counts (the (f_cases s q)))"

text \<open>Two states that look the same.\<close>

definition same_cases :: "fmd \<Rightarrow> fmd \<Rightarrow> bool" where
  "same_cases s t \<longleftrightarrow> f_list_case t = f_list_case s \<and>
     (\<forall>q \<in> set (f_list_case s). \<exists>c c'. f_cases s q = Some c \<and> f_cases t q = Some c' \<and>
        cs_dev_name c' = cs_dev_name c \<and> cs_dev_id c' = cs_dev_id c \<and> cs_event c' = cs_event c) \<and>
     (\<forall>x. linked s x \<longrightarrow> (\<exists>e e'. f_events s x = Some e \<and> f_events t x = Some e' \<and>
        ev_evt_id e' = ev_evt_id e \<and> ev_count e' = ev_count e))"

lemma find_cong_set: "(\<And>x. x \<in> set xs \<Longrightarrow> P x = Q x) \<Longrightarrow> find P xs = find Q xs"
  by (induction xs) auto

lemma same_casesD:
  assumes "same_cases s t"
  shows "f_list_case t = f_list_case s"
    and "q \<in> set (f_list_case s) \<Longrightarrow> \<exists>c c'. f_cases s q = Some c \<and> f_cases t q = Some c' \<and>
      cs_dev_name c' = cs_dev_name c \<and> cs_dev_id c' = cs_dev_id c \<and> cs_event c' = cs_event c"
    and "linked s x \<Longrightarrow> \<exists>e e'. f_events s x = Some e \<and> f_events t x = Some e' \<and>
      ev_evt_id e' = ev_evt_id e \<and> ev_count e' = ev_count e"
  using assms by (simp_all add: same_cases_def)

lemma same_cases_case_of:
  assumes "same_cases s t"
  shows "case_of t n i = case_of s n i"
proof -
  have "key_is t n i q = key_is s n i q" if "q \<in> set (f_list_case s)" for q
    using assms that by (fastforce simp: same_cases_def key_is_def)
  then show ?thesis using assms by (auto simp: case_of_def same_cases_def intro: find_cong_set)
qed

lemma same_cases_listed:
  assumes "same_cases s t" "q \<in> set (f_list_case s)"
  shows "listed t q j = listed s q j"
proof -
  obtain c c' where c: "f_cases s q = Some c" "f_cases t q = Some c'" "cs_event c' = cs_event c"
    using assms by (fastforce simp: same_cases_def)
  have "ev_evt_id (the (f_events t x)) = ev_evt_id (the (f_events s x))" if "x \<in> set (cs_event c)" for x
  proof -
    have "linked s x" using assms(2) c(1) that by (auto simp: linked_def)
    then show ?thesis using assms(1) by (fastforce simp: same_cases_def)
  qed
  then show ?thesis using c by (auto simp: listed_def intro: find_cong_set)
qed

lemma case_of_in: "case_of s n i = Some q \<Longrightarrow> q \<in> set (f_list_case s) \<and> key_is s n i q"
  by (auto simp: case_of_def find_Some_iff)

lemma listed_in: "listed s q j = Some x \<Longrightarrow> x \<in> set (cs_event (the (f_cases s q))) \<and> ev_evt_id (the (f_events s x)) = j"
  by (auto simp: listed_def find_Some_iff)

lemma same_cases_occ:
  assumes "same_cases s t"
  shows "occ t n i j = occ s n i j"
proof (cases "case_of s n i")
  case (Some q)
  then have q: "q \<in> set (f_list_case s)" using case_of_in by blast
  have l: "listed t q j = listed s q j" by (rule same_cases_listed [OF assms q])
  have "ev_count (the (f_events t x)) = ev_count (the (f_events s x))" if "listed s q j = Some x" for x
  proof -
    have "x \<in> set (cs_event (the (f_cases s q)))" using listed_in [OF that] by simp
    moreover have "f_cases s q \<noteq> None" using assms q by (fastforce simp: same_cases_def)
    ultimately have "linked s x" using q unfolding linked_def by force
    then show ?thesis using assms by (fastforce simp: same_cases_def)
  qed
  then show ?thesis using Some l by (simp add: occ_def same_cases_case_of [OF assms] split: option.splits)
qed (simp add: occ_def same_cases_case_of [OF assms])

lemma same_cases_linked: "same_cases s t \<Longrightarrow> linked s x \<Longrightarrow> linked t x"
  using same_casesD(1,2) [of s t] by (fastforce simp: linked_def)

lemma same_cases_trans:
  assumes st: "same_cases s t" and tu: "same_cases t u"
  shows "same_cases s u"
  unfolding same_cases_def
proof (intro conjI ballI allI impI)
  show "f_list_case u = f_list_case s" using same_casesD(1) [OF st] same_casesD(1) [OF tu] by simp
next
  fix q assume q: "q \<in> set (f_list_case s)"
  then have "q \<in> set (f_list_case t)" using same_casesD(1) [OF st] by simp
  from same_casesD(2) [OF st q] same_casesD(2) [OF tu this]
  show "\<exists>c c'. f_cases s q = Some c \<and> f_cases u q = Some c' \<and>
      cs_dev_name c' = cs_dev_name c \<and> cs_dev_id c' = cs_dev_id c \<and> cs_event c' = cs_event c" by auto
next
  fix x assume x: "linked s x"
  from same_casesD(3) [OF st x] same_casesD(3) [OF tu same_cases_linked [OF st x]]
  show "\<exists>e e'. f_events s x = Some e \<and> f_events u x = Some e' \<and>
      ev_evt_id e' = ev_evt_id e \<and> ev_count e' = ev_count e" by auto
qed

text \<open>Steps that leave the listed events alone and only touch other fields of the cases.\<close>

lemma same_casesI:
  assumes "fmd_ok s" "f_list_case t = f_list_case s" "\<And>x. linked s x \<Longrightarrow> f_events t x = f_events s x"
    and "\<And>q c. q \<in> set (f_list_case s) \<Longrightarrow> f_cases s q = Some c \<Longrightarrow> \<exists>c'. f_cases t q = Some c' \<and>
      cs_dev_name c' = cs_dev_name c \<and> cs_dev_id c' = cs_dev_id c \<and> cs_event c' = cs_event c"
  shows "same_cases s t"
  unfolding same_cases_def
proof (intro conjI ballI allI impI)
  fix q assume q: "q \<in> set (f_list_case s)"
  then obtain c where "f_cases s q = Some c" using fmd_ok_caseD [OF assms(1)] by metis
  with assms(4) [OF q this] show "\<exists>c c'. f_cases s q = Some c \<and> f_cases t q = Some c' \<and>
      cs_dev_name c' = cs_dev_name c \<and> cs_dev_id c' = cs_dev_id c \<and> cs_event c' = cs_event c" by blast
next
  fix x assume x: "linked s x"
  with linked_flag [OF assms(1) x] assms(3) [OF x]
  show "\<exists>e e'. f_events s x = Some e \<and> f_events t x = Some e' \<and>
      ev_evt_id e' = ev_evt_id e \<and> ev_count e' = ev_count e" by auto
qed (rule assms(2))

lemma same_cases_own: "fmd_ok s \<Longrightarrow> own s p \<Longrightarrow> same_cases s (put_ev p e s)"
  by (rule same_casesI) (auto simp: own_def)

lemma same_cases_put_cs:
  assumes "fmd_ok s" "f_cases s q = Some c" "cs_dev_name c' = cs_dev_name c" "cs_dev_id c' = cs_dev_id c"
    "cs_event c' = cs_event c"
  shows "same_cases s (put_cs q c' s)"
  using assms by (intro same_casesI) auto

lemma same_cases_new_ev:
  assumes "fmd_ok s" "new_ev e s = (a, t)"
  shows "same_cases s t"
proof -
  note n = fmd_ok_new_ev [OF assms]
  have "x \<noteq> a" if "linked s x" for x using linked_flag [OF assms(1) that] n(8) by auto
  then show ?thesis using n(5-7) by (intro same_casesI [OF assms(1)]) (auto simp: same_lists_def)
qed

lemma same_cases_other:
  assumes "fmd_ok s"
  shows "same_cases s (s\<lparr>f_list_agent := as\<rparr>)" "same_cases s (s\<lparr>f_db := db\<rparr>)" "same_cases s (s\<lparr>f_queue_ring := r\<rparr>)"
  by (rule same_casesI [OF assms]; simp)+

lemma put_to_agents_agents: "put_to_agents p s = Inr t \<Longrightarrow> \<exists>as. t = s\<lparr>f_list_agent := as\<rparr>"
  by (auto simp: put_to_agents_def split: option.splits intro: exI [of _ "f_list_agent s"])

section \<open>Adding an event adds one\<close>

text \<open>The effect on the table of counters, and where the event was counted.\<close>

definition counted :: "fmd \<Rightarrow> string \<Rightarrow> 64 word \<Rightarrow> 64 word \<Rightarrow> addr \<Rightarrow> fmd \<Rightarrow> bool" where
  "counted s n i j q t \<longleftrightarrow> case_of t n i = Some q \<and> listed t q j \<noteq> None \<and> occ t n i j = occ s n i j + 1 \<and>
     (\<forall>n' i' j'. (n', i', j') \<noteq> (n, i, j) \<longrightarrow> occ t n' i' j' = occ s n' i' j')"

lemma same_cases_counted: "counted s n i j q t \<Longrightarrow> same_cases t u \<Longrightarrow> counted s n i j q u"
  using same_cases_case_of [of t u] same_cases_occ [of t u] same_cases_listed [of t u q j]
  by (auto simp: counted_def dest: case_of_in)

lemma counted_same_cases: "same_cases r s \<Longrightarrow> counted s n i j q t \<Longrightarrow> counted r n i j q t"
  using same_cases_occ [of r s] by (simp add: counted_def)

text \<open>A first occurrence: the event becomes the head of the case's list.\<close>

lemma counted_new:
  assumes "fmd_ok s" "own s p" "q \<in> set (f_list_case s)" "f_cases s q = Some c"
    and "case_of s (cs_dev_name c) (cs_dev_id c) = Some q" "listed s q (ev_evt_id e) = None" "ev_count e = 1"
    and "cs_dev_name c' = cs_dev_name c" "cs_dev_id c' = cs_dev_id c" "cs_event c' = p # cs_event c"
  shows "counted s (cs_dev_name c) (cs_dev_id c) (ev_evt_id e) q (put_cs q c' (put_ev p e s))"
    "listed (put_cs q c' (put_ev p e s)) q (ev_evt_id e) = Some p"
proof -
  let ?t = "put_cs q c' (put_ev p e s)"
  have key: "key_is ?t = key_is s" using assms(4,8,9) by (auto simp: key_is_def fun_eq_iff)
  then have co: "case_of ?t = case_of s" by (intro ext) (simp add: case_of_def)
  have np: "x \<noteq> p" if "x \<in> set (cs_event d)" "f_cases s r = Some d" "r \<in> set (f_list_case s)" for x r d
    using assms(2) that by (auto simp: own_def linked_def)
  have lq: "listed ?t q j = (if j = ev_evt_id e then Some p else listed s q j)" for j
  proof -
    have "find (\<lambda>x. ev_evt_id (the (((f_events s)(p \<mapsto> e)) x)) = j) (cs_event c) =
        find (\<lambda>x. ev_evt_id (the (f_events s x)) = j) (cs_event c)"
      using np [OF _ assms(4,3)] by (intro find_cong_set) auto
    then show ?thesis using assms(4,10) by (simp add: listed_def)
  qed
  then show l: "listed ?t q (ev_evt_id e) = Some p" by simp
  have lr: "listed ?t r j = listed s r j" if r: "r \<noteq> q" "r \<in> set (f_list_case s)" for r j
  proof -
    obtain d where d: "f_cases s r = Some d" using fmd_ok_caseD [OF assms(1) r(2)] by metis
    then show ?thesis using r np [OF _ d r(2)] by (auto simp: listed_def intro: find_cong_set)
  qed
  have cnt: "ev_count (the (f_events ?t x)) = ev_count (the (f_events s x))"
    if y: "listed s r j = Some x" "r \<in> set (f_list_case s)" for r j x
  proof -
    obtain d where d: "f_cases s r = Some d" using fmd_ok_caseD [OF assms(1) y(2)] by metis
    then have "x \<noteq> p" using listed_in [OF y(1)] np [OF _ d y(2)] by simp
    then show ?thesis by simp
  qed
  have "occ ?t n' i' j' = occ s n' i' j'"
    if ne: "(n', i', j') \<noteq> (cs_dev_name c, cs_dev_id c, ev_evt_id e)" for n' i' j'
  proof (cases "case_of s n' i'")
    case (Some r)
    then have r: "r \<in> set (f_list_case s)" "key_is s n' i' r" using case_of_in by blast+
    have "listed ?t r j' = listed s r j'"
      using lq [of j'] lr [of r j'] r ne assms(4) by (cases "r = q") (auto simp: key_is_def)
    then show ?thesis using cnt [of r j'] r(1) by (simp add: occ_def co Some split: option.splits)
  qed (simp add: occ_def co)
  then show "counted s (cs_dev_name c) (cs_dev_id c) (ev_evt_id e) q ?t"
    using assms(5-7) l by (simp add: counted_def co occ_def)
qed

text \<open>A repeated occurrence: the listed event counts up.\<close>

lemma counted_hit:
  assumes "fmd_ok s" "q \<in> set (f_list_case s)" "f_cases s q = Some c"
    and "case_of s (cs_dev_name c) (cs_dev_id c) = Some q" "listed s q j = Some x" "f_events s x = Some pe"
    and "ev_evt_id pe' = ev_evt_id pe" "ev_count pe' = ev_count pe + 1"
  shows "counted s (cs_dev_name c) (cs_dev_id c) j q (put_ev x pe' s)"
    "listed (put_ev x pe' s) q j = Some x"
proof -
  let ?t = "put_ev x pe' s"
  have "key_is ?t = key_is s" by (simp add: key_is_def fun_eq_iff)
  then have co: "case_of ?t = case_of s" by (intro ext) (simp add: case_of_def)
  have "(ev_evt_id (the (f_events ?t y)) = k) = (ev_evt_id (the (f_events s y)) = k)" for y k
    using assms(6,7) by simp
  then have l: "listed ?t = listed s" by (simp add: listed_def fun_eq_iff)
  then show "listed ?t q j = Some x" using assms(5) by simp
  have xq: "x \<in> set (cs_event c)" "ev_evt_id pe = j" using listed_in [OF assms(5)] assms(3,6) by simp_all
  have px: "ev_p_case pe = q" using fmd_ok_caseD [OF assms(1,2)] assms(3,6) xq(1)
    by (metis (no_types, lifting) listed_ok_def option.inject)
  have ne: "y \<noteq> x" if y: "listed s r k = Some y" "r \<in> set (f_list_case s)" "r \<noteq> q \<or> k \<noteq> j" for r k y
  proof
    assume yx: "y = x"
    obtain d where d: "f_cases s r = Some d" "\<forall>z \<in> set (cs_event d). listed_ok s r z"
      using fmd_ok_caseD [OF assms(1) y(2)] by metis
    have "x \<in> set (cs_event d)" "ev_evt_id pe = k" using listed_in [OF y(1)] yx d(1) assms(6) by simp_all
    then show False using d(2) y(3) px xq(2) assms(6) by (auto simp: listed_ok_def)
  qed
  have "occ ?t n' i' j' = occ s n' i' j'" if d: "(n', i', j') \<noteq> (cs_dev_name c, cs_dev_id c, j)" for n' i' j'
  proof (cases "case_of s n' i'")
    case (Some r)
    then have r: "r \<in> set (f_list_case s)" "key_is s n' i' r" using case_of_in by blast+
    then have "r \<noteq> q \<or> j' \<noteq> j" using d assms(3) by (auto simp: key_is_def)
    then have "y \<noteq> x" if "listed s r j' = Some y" for y using ne [OF that r(1)] by blast
    then show ?thesis by (simp add: occ_def co Some l split: option.splits)
  qed (simp add: occ_def co)
  then show "counted s (cs_dev_name c) (cs_dev_id c) j q ?t"
    using assms(4-6,8) by (simp add: counted_def co l occ_def)
qed

lemma event_link_counted:
  assumes "fmd_ok s" "own s p" "f_events s p = Some e" "q \<in> set (f_list_case s)" "f_cases s q = Some c"
    and "case_of s (cs_dev_name c) (cs_dev_id c) = Some q" "ev_count e = 0" "event_link en q p s = Inr (p', t)"
  shows "counted s (cs_dev_name c) (cs_dev_id c) (ev_evt_id e) q t \<and> listed t q (ev_evt_id e) = Some p' \<and>
    (\<exists>c'. f_cases t q = Some c' \<and> cs_fire_counts c' = cs_fire_counts c \<and> cs_total_count c' = cs_total_count c)"
proof -
  have cq: "cs s q = Inr c" using fmd_ok_case_nz [OF assms(1,5)] assms(5) by simp
  have al: "\<forall>x \<in> set (cs_event c). x \<noteq> 0 \<and> f_events s x \<noteq> None"
    by (rule fmd_ok_caseD [OF assms(1,4)]) (use assms(5) in simp)
  have e: "ev s p = Inr e" using assms(3) fmd_ok_nz [OF assms(1,3)] by simp
  have f: "find_event s (cs_event c) (ev_evt_id e) = Inr (listed s q (ev_evt_id e))"
    using find_event_find [OF al] assms(5) by (simp add: listed_def)
  show ?thesis
  proof (cases "listed s q (ev_evt_id e)")
    case None
    let ?e = "e\<lparr>ev_count := ev_count e + 1, ev_create := e_now en, ev_last_occur := e_now en\<rparr>"
    let ?c = "c\<lparr>cs_event := p # cs_event c, cs_last_eclass := ev_class e\<rparr>"
    have t: "p' = p" "t = put_cs q ?c (put_ev p ?e s)"
      using assms(8) None by (auto simp: event_link_def cq e f put_ev_put_cs split: if_splits)
    have "counted s (cs_dev_name c) (cs_dev_id c) (ev_evt_id ?e) q t" "listed t q (ev_evt_id ?e) = Some p"
      unfolding t using assms(7) None by (intro counted_new [OF assms(1,2,4-6)]; simp)+
    then show ?thesis by (simp add: t)
  next
    case (Some x)
    then have "x \<in> set (cs_event c)" using listed_in [OF Some] assms(5) by simp
    then obtain pe where pe: "f_events s x = Some pe" "ev s x = Inr pe" using al by auto
    let ?e = "pe\<lparr>ev_count := ev_count pe + 1, ev_last_occur := ev_create e\<rparr>"
    have t: "p' = x" "t = put_ev x ?e s" using assms(8) Some by (auto simp: event_link_def cq e f pe(2))
    have "counted s (cs_dev_name c) (cs_dev_id c) (ev_evt_id e) q t" "listed t q (ev_evt_id e) = Some x"
      unfolding t using pe(1) by (intro counted_hit [OF assms(1,4-6) Some]; simp)+
    then show ?thesis using assms(5) by (simp add: t)
  qed
qed

text \<open>Firing leaves the counters alone and marks the case.\<close>

lemma fmd_case_fire_effect:
  assumes "fmd_ok s" "f_events s p = Some e" "f_cases s q = Some c" "fmd_case_fire en q p s = Inr t"
  shows "same_cases s t \<and> f_cases t q = Some (fire_mark en c) \<and> (\<forall>x. f_events s x \<noteq> None \<longrightarrow> f_events t x = f_events s x)"
proof -
  let ?c = "fire_mark en c"
  obtain a s1 where n: "new_ev (fault_of e (cs_fire_counts ?c)) s = (a, s1)"
    by (cases "new_ev (fault_of e (cs_fire_counts ?c)) s")
  note n1 = fmd_ok_new_ev [OF assms(1) n]
  have "fmd_case_fire en q p s = put_to_agents a (put_cs q ?c s1)"
    using assms(2,3) fmd_ok_nz [OF assms(1,2)] fmd_ok_case_nz [OF assms(1,3)]
    by (simp add: fmd_case_fire_def ev_def cs_def load_def n Let_def)
  then obtain as where t: "t = (put_cs q ?c s1)\<lparr>f_list_agent := as\<rparr>"
    using assms(4) put_to_agents_agents by metis
  have c1: "f_cases s1 q = Some c" using n1(7) assms(3) by simp
  have ok: "fmd_ok (put_cs q ?c s1)" by (rule fmd_ok_put_cs [OF n1(1) c1]) (simp_all add: fire_mark_def)
  have "same_cases s1 (put_cs q ?c s1)" by (rule same_cases_put_cs [OF n1(1) c1]) (simp_all add: fire_mark_def)
  from same_cases_trans [OF same_cases_trans [OF same_cases_new_ev [OF assms(1) n] this] same_cases_other(1) [OF ok]]
  show ?thesis using n1(5,8) by (auto simp: t)
qed

text \<open>The listed event an occurrence was counted in, and the effect of a whole insertion.\<close>

definition listed_event :: "fmd \<Rightarrow> string \<Rightarrow> 64 word \<Rightarrow> 64 word \<Rightarrow> fmd_event" where
  "listed_event s n i j = the (f_events s (the (listed s (the (case_of s n i)) j)))"

definition inserted :: "env \<Rightarrow> fmd \<Rightarrow> fmd_event \<Rightarrow> fmd \<Rightarrow> bool" where
  "inserted en s e t \<longleftrightarrow> (let n = ev_dev_name e; i = ev_dev_id e; j = ev_evt_id e in
     (\<exists>q. counted s n i j q t) \<and>
     fires t n i = fires s n i + (if fmd_case_canfire en (listed_event t n i j) then 1 else 0))"

lemma fmd_event_add_inserted:
  assumes "fmd_ok s" "own s p" "f_events s p = Some e" "ev_flag e = AGENT_TOLOG" "class_fit e" "ev_count e = 0"
    and "q \<in> set (f_list_case s)" "f_cases s q = Some c" "cs_dev_name c = ev_dev_name e" "cs_dev_id c = ev_dev_id e"
    and "case_of s (cs_dev_name c) (cs_dev_id c) = Some q" "fmd_event_add en q p s = Inr t"
  shows "inserted en s e t"
proof -
  let ?e = "e\<lparr>ev_p_case := q\<rparr>"
  let ?s0 = "put_ev p ?e s" and ?n = "cs_dev_name c" and ?i = "cs_dev_id c" and ?j = "ev_evt_id e"
  have s0: "fmd_ok ?s0" "own ?s0 p" "same_cases s ?s0"
    using fmd_ok_put_own [OF assms(1,2)] same_cases_own [OF assms(1,2)] by simp_all
  have ev: "ev s p = Inr e" using assms(3) fmd_ok_nz [OF assms(1,3)] by simp
  obtain p' s1 c1 pe where s1: "event_link en q p ?s0 = Inr (p', s1)" "cs s1 q = Inr c1" "ev s1 p' = Inr pe"
    and t: "(if fmd_case_canfire en pe then fmd_case_fire en q p
        (put_cs q (c1\<lparr>cs_total_count := cs_total_count c1 + 1, m_event_using := m_event_using c1 + 1\<rparr>) s1)
      else Inr (put_cs q (c1\<lparr>cs_total_count := cs_total_count c1 + 1, m_event_using := m_event_using c1 + 1\<rparr>) s1)) = Inr t"
    using assms(12) by (auto simp: fmd_event_add_def ev Let_def)
  let ?c2 = "c1\<lparr>cs_total_count := cs_total_count c1 + 1, m_event_using := m_event_using c1 + 1\<rparr>"
  let ?s2 = "put_cs q ?c2 s1"
  have link: "linked_in ?s0 p ?e q s1"
    using event_link_safe [OF s0(1,2), of ?e q en] assms(4,5,7) s1(1) by (simp add: class_fit_def)
  have cnt: "counted ?s0 ?n ?i ?j q s1" "listed s1 q ?j = Some p'" "cs_fire_counts c1 = cs_fire_counts c"
    using event_link_counted [OF s0(1,2), of ?e q c en p' s1] assms(6-8,11) s1 same_cases_case_of [OF s0(3)] by auto
  have ok1: "fmd_ok s1" and c1: "f_cases s1 q = Some c1" and pe: "f_events s1 p' = Some pe"
    using link s1 by (simp_all add: linked_in_def)
  have ok2: "fmd_ok ?s2" by (rule fmd_ok_put_cs [OF ok1 c1]) simp_all
  have sc2: "same_cases s1 ?s2" by (rule same_cases_put_cs [OF ok1 c1]) simp_all
  obtain e2 where e2: "f_events ?s2 p = Some e2" using link by (auto simp: linked_in_def)
  have fin: "same_cases ?s2 t \<and> f_events t p' = Some pe \<and> (\<exists>c'. f_cases t q = Some c' \<and>
      cs_fire_counts c' = cs_fire_counts c + (if fmd_case_canfire en pe then 1 else 0))"
  proof (cases "fmd_case_canfire en pe")
    case True
    then have "fmd_case_fire en q p ?s2 = Inr t" using t by simp
    from fmd_case_fire_effect [OF ok2 e2 _ this] True pe cnt(3) show ?thesis by (auto simp: fire_mark_def)
  next
    case False
    then show ?thesis using t pe cnt(3) same_casesI [OF ok2, of ?s2] by auto
  qed
  have sc: "same_cases s1 t" using same_cases_trans [OF sc2] fin by blast
  have ct: "counted s ?n ?i ?j q t"
    by (rule counted_same_cases [OF s0(3) same_cases_counted [OF cnt(1) sc]])
  have "listed t q ?j = Some p'"
    using same_cases_listed [OF sc, of q ?j] cnt(2) case_of_in cnt(1) by (auto simp: counted_def)
  then have "listed_event t ?n ?i ?j = pe" using ct fin by (simp add: listed_event_def counted_def)
  then show ?thesis
    using ct fin assms(8,11) by (auto simp: inserted_def Let_def fires_def counted_def assms(9,10) [symmetric])
qed

lemma same_cases_inserted:
  assumes "same_cases r s" "inserted en s e t" "fires r (ev_dev_name e) (ev_dev_id e) = fires s (ev_dev_name e) (ev_dev_id e)"
  shows "inserted en r e t"
  using assms counted_same_cases [OF assms(1)] unfolding inserted_def Let_def by metis

text \<open>A new, empty case at the head of the list changes no counter.\<close>

lemma new_case_view:
  assumes "fmd_ok s" "case_of s (ev_dev_name e) (ev_dev_id e) = None" "new_cs (case_new en e) s = (a, s1)"
  defines "t \<equiv> s1\<lparr>f_list_case := a # f_list_case s1\<rparr>"
  shows "occ t n i j = occ s n i j" "case_of t (ev_dev_name e) (ev_dev_id e) = Some a"
    "f_cases t a = Some (case_new en e)"
proof -
  have a: "a = f_next s" and s1: "s1 = (put_cs a (case_new en e) s)\<lparr>f_next := a + 1\<rparr>"
    using assms(3) by (auto simp: new_cs_def)
  have "f_cases s a = None" using assms(1) a by (auto simp: fmd_ok_def heap_ok_def)
  then have na: "a \<notin> set (f_list_case s)" using assms(1) by (auto simp: fmd_ok_def case_ok_def)
  show fa: "f_cases t a = Some (case_new en e)" by (simp add: t_def s1)
  have old: "find (key_is t n i) (f_list_case s) = case_of s n i" for n i
    using na by (auto simp: case_of_def key_is_def t_def s1 intro!: find_cong_set)
  have co: "case_of t n i = (if (n, i) = (ev_dev_name e, ev_dev_id e) then Some a else case_of s n i)" for n i
  proof -
    have "f_list_case t = a # f_list_case s" by (simp add: t_def s1)
    moreover have "key_is t n i a \<longleftrightarrow> (n, i) = (ev_dev_name e, ev_dev_id e)"
      using fa by (auto simp: key_is_def case_new_def)
    ultimately show ?thesis using old [of n i] by (simp add: case_of_def [of t])
  qed
  then show "case_of t (ev_dev_name e) (ev_dev_id e) = Some a" by simp
  show "occ t n i j = occ s n i j"
  proof (cases "(n, i) = (ev_dev_name e, ev_dev_id e)")
    case True
    then show ?thesis using assms(2) fa by (simp add: occ_def co listed_def case_new_def)
  next
    case False
    then have c: "case_of t n i = case_of s n i" by (auto simp: co)
    have "q \<noteq> a" if "case_of s n i = Some q" for q using case_of_in [OF that] na by auto
    then show ?thesis using c by (auto simp: occ_def listed_def t_def s1 split: option.splits)
  qed
qed

lemma add_case_list_inserted:
  assumes "fmd_ok s" "own s p" "f_events s p = Some e" "ev_flag e = AGENT_TOLOG" "class_fit e" "ev_count e = 0"
    and "add_case_list en p s = Inr t"
  shows "inserted en s e t"
proof -
  have e: "ev s p = Inr e" using assms(3) fmd_ok_nz [OF assms(1,3)] by simp
  have alive: "\<forall>q \<in> set (f_list_case s). q \<noteq> 0 \<and> f_cases s q \<noteq> None"
    using assms(1) fmd_ok_case_nz [OF assms(1)] by (fastforce simp: fmd_ok_def case_ok_def)
  have f: "find_case s (f_list_case s) (ev_dev_name e) (ev_dev_id e) = Inr (case_of s (ev_dev_name e) (ev_dev_id e))"
    using find_case_find [OF alive] by (simp add: case_of_def key_is_def [abs_def])
  show ?thesis
  proof (cases "case_of s (ev_dev_name e) (ev_dev_id e)")
    case None
    obtain a s1 where n: "new_cs (case_new en e) s = (a, s1)" by (cases "new_cs (case_new en e) s")
    let ?s1 = "s1\<lparr>f_list_case := a # f_list_case s1\<rparr>"
    note n1 = fmd_ok_new_case [OF assms(1) n] and v = new_case_view [OF assms(1) None n]
    have "fmd_event_add en a p ?s1 = Inr t"
      using assms(5,7) None by (simp add: add_case_list_def fmd_case_create_def e f class_fit_def n)
    then have "inserted en ?s1 e t"
      using assms(2-6) n1 v(2,3) by (intro fmd_event_add_inserted [of ?s1 p e a "case_new en e"]) (simp_all add: case_new_def)
    moreover have "fires ?s1 (ev_dev_name e) (ev_dev_id e) = fires s (ev_dev_name e) (ev_dev_id e)"
      using None v(2,3) by (simp add: fires_def case_new_def)
    ultimately show ?thesis using v(1) by (auto simp: inserted_def Let_def counted_def)
  next
    case (Some q)
    then have q: "q \<in> set (f_list_case s)" "key_is s (ev_dev_name e) (ev_dev_id e) q" using case_of_in by blast+
    obtain c where c: "f_cases s q = Some c" using alive q(1) by auto
    have "fmd_event_add en q p s = Inr t" using assms(7) Some by (simp add: add_case_list_def e f)
    then show ?thesis
      using q(2) c Some by (intro fmd_event_add_inserted [OF assms(1-6) q(1) c]) (simp_all add: key_is_def)
  qed
qed

lemma fires_same: "f_list_case t = f_list_case s \<Longrightarrow> f_cases t = f_cases s \<Longrightarrow> fires t n i = fires s n i"
  by (simp add: fires_def case_of_def key_is_def [abs_def] split: option.split)

text \<open>Handing the event over afterwards changes nothing the view shows.\<close>

lemma inserted_agents:
  assumes "inserted en s e t" "fmd_ok t"
  shows "inserted en s e (t\<lparr>f_list_agent := as\<rparr>)"
proof -
  have sc: "same_cases t (t\<lparr>f_list_agent := as\<rparr>)" by (rule same_cases_other [OF assms(2)])
  have "listed_event (t\<lparr>f_list_agent := as\<rparr>) n i j = listed_event t n i j" for n i j
    by (simp add: listed_event_def listed_def case_of_def key_is_def [abs_def])
  moreover obtain q where q: "counted s (ev_dev_name e) (ev_dev_id e) (ev_evt_id e) q t"
    and f: "fires t (ev_dev_name e) (ev_dev_id e) = fires s (ev_dev_name e) (ev_dev_id e) +
      (if fmd_case_canfire en (listed_event t (ev_dev_name e) (ev_dev_id e) (ev_evt_id e)) then 1 else 0)"
    using assms(1) by (auto simp: inserted_def Let_def)
  moreover have "fires (t\<lparr>f_list_agent := as\<rparr>) n i = fires t n i" for n i by (rule fires_same) simp_all
  ultimately show ?thesis
    using same_cases_counted [OF q sc] by (auto simp: inserted_def Let_def)
qed

lemma fmd_case_insert_inserted:
  assumes "fmd_ok s" "own s p" "f_events s p = Some e" "ev_flag e = AGENT_TOLOG" "class_fit e" "ev_count e = 0"
    and "fmd_case_insert en p s = Inr t"
  shows "inserted en s (classify (f_esc s) e) t"
proof -
  let ?e = "classify (f_esc s) e"
  obtain db where db: "snd (ras_events_handle (e_lt en) (e_rc en) ?e (put_ev p ?e s)) = (put_ev p ?e s)\<lparr>f_db := db\<rparr>"
    using ras_events_handle_frame by blast
  let ?s = "(put_ev p ?e s)\<lparr>f_db := db\<rparr>"
  note o = fmd_ok_put_own [OF assms(1,2), of ?e]
  note o1 = fmd_ok_put_db(1,2) [OF o(1), where db = db]
  have core: "ev_flag ?e = AGENT_TOLOG" "class_fit ?e" "ev_count ?e = 0"
    using classify_core [of "f_esc s" e] assms(4-6)
    by (simp_all add: ev_core_def class_fit_def) (simp add: classify_def Let_def split: option.split)
  have "ev s p = Inr e" using assms(3) fmd_ok_nz [OF assms(1,3)] by simp
  then obtain u where u: "add_case_list en p ?s = Inr u" "put_to_agents p u = Inr t"
    using assms(7) by (auto simp: fmd_case_insert_def Let_def db)
  have okd: "fmd_ok ?s" "own ?s p" using o1(1) o1(2) [OF o(2)] by simp_all
  have "fmd_ok u" using add_case_list_safe [OF okd, of ?e en] core u(1) by simp
  moreover have "inserted en ?s ?e u"
    using u(1) core by (intro add_case_list_inserted [OF okd]) simp_all
  moreover obtain as where "t = u\<lparr>f_list_agent := as\<rparr>" using put_to_agents_agents [OF u(2)] by blast
  ultimately have "inserted en ?s ?e t" using inserted_agents by blast
  moreover have "same_cases s ?s"
    using same_cases_trans [OF same_cases_own [OF assms(1,2)] same_cases_other(2) [OF o(1)]] .
  ultimately show ?thesis using same_cases_inserted fires_same [of ?s s] by simp
qed

text \<open>
  C3. The diagnosis refines a table of counters. When the dispatcher processes the oldest event of its ring
  (a first-hand \<^verbatim>\<open>ereport\<close>) in a reachable state, the counter of exactly that device and event id goes up by
  one and every other counter stays; and the case's fire count goes up by one exactly if the listed event
  is of a fault class, or has reached its N within T seconds of being first listed.
\<close>

theorem diagnosis_counts:
  assumes "list_all agent_fresh agents" "sys_reach esc agents priv s"
    and "ring_abs (f_queue_ring s) = p # xs" "f_events s p = Some e" "is_pfx ''ereport.'' (ev_class e)"
    and "ev_count e = 0" "queue_one en s = Inr t"
    and "n = ev_dev_name e" "i = ev_dev_id e" "j = ev_evt_id e"
  shows "occ t n i j = occ s n i j + 1 \<and>
    (\<forall>n' i' j'. (n', i', j') \<noteq> (n, i, j) \<longrightarrow> occ t n' i' j' = occ s n' i' j') \<and>
    (let le = listed_event t n i j in ev_count le = occ t n i j \<and>
       fires t n i = fires s n i + (if ev_event_type le = EVENT_FAULT \<or>
         (ev_N le \<le> occ t n i j \<and> e_now en - ev_create le < ev_T le) then 1 else 0))"
proof -
  note ok = sys_reach_ok [OF assms(2,1)]
  have q: "ring_quiet (f_queue_ring s)" using ok by (simp add: fmd_ok_def)
  obtain r where r: "ring_take (f_queue_ring s) = Inr (Some p, r)" "ring_quiet r" "ring_abs r = xs"
    using ring_take_ok [OF q assms(3)] by blast
  let ?s1 = "s\<lparr>f_queue_ring := r\<rparr>" and ?e = "e\<lparr>ev_flag := AGENT_TOLOG\<rparr>"
  note o = fmd_ok_take [OF ok assms(3) r(2,3)]
  have pre: "strncmp_eq (ev_class e) ''ereport.'' 8" using assms(5) by (simp add: strncmp_eq_const)
  have ev: "ev ?s1 p = Inr e" using assms(4) fmd_ok_nz [OF ok assms(4)] by simp
  let ?s2 = "put_ev p ?e ?s1"
  have ins: "fmd_case_insert en p ?s2 = Inr t"
    using assms(7) pre by (simp add: queue_one_def r(1) fmd_proc_event_def ev event_disp_dest_def)
  have s2: "fmd_ok ?s2" "own ?s2 p" using fmd_ok_put_own [OF o(1,2)] by simp_all
  have fit: "class_fit ?e" using o(3) assms(4,5) by (auto simp: wait_ok_def class_fit_def)
  have cl: "ev_dev_name (classify x ?e) = n" "ev_dev_id (classify x ?e) = i" "ev_evt_id (classify x ?e) = j" for x
    by (simp_all add: classify_def Let_def assms(8-10) split: option.split)
  have sc: "same_cases s ?s2"
    using same_cases_trans [OF same_cases_other(3) [OF ok] same_cases_own [OF o(1,2)]] .
  have "inserted en ?s2 (classify (f_esc ?s2) ?e) t"
    using ins fit assms(6) by (intro fmd_case_insert_inserted [OF s2]) simp_all
  then have "inserted en s (classify (f_esc ?s2) ?e) t"
    using sc fires_same [of ?s2 s] by (intro same_cases_inserted [OF sc]) simp_all
  then obtain q where c: "counted s n i j q t" and
    f: "fires t n i = fires s n i + (if fmd_case_canfire en (listed_event t n i j) then 1 else 0)"
    by (auto simp: inserted_def Let_def cl)
  have "ev_count (listed_event t n i j) = occ t n i j"
    using c by (auto simp: counted_def listed_event_def occ_def)
  then show ?thesis using c f by (auto simp: counted_def Let_def fmd_case_canfire_def)
qed

lemma demo_posted:
  obtains s where "src_post demo_env demo_nvl demo_init = Inr s" "ring_abs (f_queue_ring s) = [1]"
    "sys_reach demo_esc demo_agents (Some [Stmt_cpu, Stmt_rep]) s"
    "\<exists>e. f_events s 1 = Some e \<and> ev_class e = ''ereport.cpu.mc_ue'' \<and> ev_count e = 0 \<and>
       ev_dev_name e = ''cpu'' \<and> ev_dev_id e = 3 \<and> ev_evt_id e = 9"
proof -
  obtain r where r: "put_to_agent (ring_init :: addr ring_t) 1 = Inr r" "ring_abs r = [1]"
    using put_to_agent_ok [OF ring_quiet_init, of "1 :: addr"] by (auto simp: ring.abs_empty RING_SIZE_def)
  let ?s = "(snd (fmd_create_ereport (e_now demo_env) (nv_value demo_nvl) demo_nvl demo_init))\<lparr>f_queue_ring := r\<rparr>"
  have p: "src_post demo_env demo_nvl demo_init = Inr ?s"
    using r(1) by (simp add: src_post_def demo_nvl_def fmd_create_ereport_def new_ev_def demo_init_def
        fmd_init_def fmd_queue_dispatch_eq)
  have "sys_exec demo_act demo_env (Post demo_nvl) demo_init = Inr ?s" using p by simp
  then have "sys_reach demo_esc demo_agents (Some [Stmt_cpu, Stmt_rep]) ?s"
    using sys_reach.step [OF sys_reach.init, of "Post demo_nvl"] by (simp add: demo_init_def move_ok_def demo_nvl_def)
  then show ?thesis
    using that [OF p] r(2) by (simp add: fmd_create_ereport_def new_ev_def demo_init_def fmd_init_def demo_nvl_def event_zero_def)
qed

theorem diagnosis_counts_witness:
  "\<exists>s t. ring_abs (f_queue_ring s) = [1] \<and> queue_one demo_env s = Inr t \<and>
     occ t ''cpu'' 3 9 = occ s ''cpu'' 3 9 + 1"
proof -
  obtain s e where s: "src_post demo_env demo_nvl demo_init = Inr s" "ring_abs (f_queue_ring s) = [1]"
    "sys_reach demo_esc demo_agents (Some [Stmt_cpu, Stmt_rep]) s"
    and e: "f_events s 1 = Some e" "ev_class e = ''ereport.cpu.mc_ue''" "ev_count e = 0"
      "ev_dev_name e = ''cpu''" "ev_dev_id e = 3" "ev_evt_id e = 9"
    by (rule demo_posted) blast
  have "\<not> isl (rbind (src_post demo_env demo_nvl demo_init) (queue_one demo_env))"
    using demo_sent_facts(1) by (auto simp: demo_res_def rbind_def split: sum.splits)
  then obtain t where t: "queue_one demo_env s = Inr t" using s(1) by (cases "queue_one demo_env s") auto
  have "is_pfx ''ereport.'' (ev_class e)" using e(2) by (simp add: is_pfx_def)
  from diagnosis_counts [OF demo_fresh s(3,2) e(1) this e(3) t refl refl refl] s(2) t show ?thesis
    using e(4-6) by auto
qed

section \<open>The clean-up\<close>

text \<open>An entry of the repaired list that has been quiet long enough.\<close>

definition expired :: "env \<Rightarrow> fmd_event \<Rightarrow> bool" where
  "expired en e \<longleftrightarrow> ev_agent_result e AND LIST_RESULT_MASK = 0 \<and> ev_agent_result e \<noteq> LIST_ISOLATED_SUCCESS \<and>
     ev_repaired_T e \<le> e_now en - ev_create e \<and> ev_refs e < ev_repaired_N e"

lemma remove1_filter: "distinct xs \<Longrightarrow> remove1 p xs = filter (\<lambda>x. x \<noteq> p) xs"
proof (induction xs)
  case (Cons x xs)
  have "filter (\<lambda>y. y \<noteq> p) xs = xs" if "x = p" using Cons.prems that by (intro filter_True) auto
  with Cons show ?case by simp
qed simp

lemma repaired_drop_effect:
  "repaired_drop p s = Inr t \<Longrightarrow> f_list_repaired t = remove1 p (f_list_repaired s) \<and> f_queue_ring t = f_queue_ring s \<and>
     f_events t = (f_events s)(p := None)"
  by (auto simp: repaired_drop_def free_ev_Inr)

lemma delete_one_effect:
  assumes "fmd_ok s" "p \<in> set (f_list_repaired s)" "f_events s p = Some e" "delete_one en p s = Inr t"
  shows "(\<forall>x \<in> set (waiting s). x \<noteq> p \<longrightarrow> f_events t x = f_events s x) \<and> f_queue_ring t = f_queue_ring s \<and>
    (f_list_repaired t = f_list_repaired s \<or> f_list_repaired t = remove1 p (f_list_repaired s)) \<and>
    (ev_agent_result e \<noteq> LIST_ISOLATED_FAILED \<longrightarrow>
       f_list_repaired t = (if expired en e then remove1 p (f_list_repaired s) else f_list_repaired s))"
proof -
  have ev: "ev s p = Inr e" using assms(3) fmd_ok_nz [OF assms(1,3)] by simp
  obtain rc u where u: "fmd_case_find_and_delete en p s = Inr (rc, u)" "waits_kept s u"
    using fmd_case_find_and_delete_ok [OF assms(1,3)] by blast
  have lu: "f_list_repaired u = f_list_repaired s" "f_queue_ring u = f_queue_ring s"
    "\<forall>x \<in> set (waiting s). f_events u x = f_events s x" using u(2) by (simp_all add: waits_kept_def)
  have d: "repaired_drop p v = Inr t \<Longrightarrow> f_list_repaired v = f_list_repaired s \<Longrightarrow> f_queue_ring v = f_queue_ring s \<Longrightarrow>
      f_events v = f_events u \<Longrightarrow> (\<forall>x \<in> set (waiting s). x \<noteq> p \<longrightarrow> f_events t x = f_events s x) \<and>
      f_queue_ring t = f_queue_ring s \<and> f_list_repaired t = remove1 p (f_list_repaired s)" for v
    using repaired_drop_effect [of p v t] lu(3) by auto
  consider (failed) "ev_agent_result e AND LIST_RESULT_MASK \<noteq> 0" "ev_agent_result e = LIST_ISOLATED_FAILED"
    | (odd) "ev_agent_result e AND LIST_RESULT_MASK \<noteq> 0" "ev_agent_result e \<noteq> LIST_ISOLATED_FAILED"
    | (isolated) "ev_agent_result e AND LIST_RESULT_MASK = 0" "ev_agent_result e = LIST_ISOLATED_SUCCESS"
    | (quiet) "expired en e"
    | (early) "ev_agent_result e AND LIST_RESULT_MASK = 0" "ev_agent_result e \<noteq> LIST_ISOLATED_SUCCESS" "\<not> expired en e"
    by blast
  then show ?thesis
  proof cases
    case failed
    then show ?thesis
      using assms(4) d [of "u\<lparr>f_data_freed := f_data_freed u @ [ev_data e]\<rparr>"] lu
      by (auto simp: delete_one_def ev u(1) split: if_splits)
  next
    case odd
    then show ?thesis using assms(4) by (simp add: delete_one_def ev expired_def)
  next
    case isolated
    then show ?thesis using assms(4) lu by (auto simp: delete_one_def ev u(1) expired_def)
  next
    case quiet
    then show ?thesis using assms(4) d [of u] lu
      by (auto simp: delete_one_def ev u(1) expired_def result_consts)
  next
    case early
    then show ?thesis using assms(4) by (auto simp: delete_one_def ev expired_def split: if_splits)
  qed
qed

lemma delete_loop_effect:
  assumes "fmd_ok s" "set ps \<subseteq> set (f_list_repaired s)" "distinct ps" "delete_loop en ps s = Inr t"
  shows "\<exists>D \<subseteq> set ps. f_list_repaired t = filter (\<lambda>p. p \<notin> D) (f_list_repaired s) \<and>
    (\<forall>p \<in> set ps. \<forall>e. f_events s p = Some e \<longrightarrow> ev_agent_result e \<noteq> LIST_ISOLATED_FAILED \<longrightarrow> p \<in> D \<longleftrightarrow> expired en e)"
  using assms
proof (induction ps arbitrary: s)
  case (Cons p ps)
  obtain u where u: "delete_one en p s = Inr u" "delete_loop en ps u = Inr t" using Cons.prems(4) by auto
  have p: "p \<in> set (f_list_repaired s)" using Cons.prems(2) by simp
  obtain e where e: "f_events s p = Some e"
    using fmd_ok_alive [OF Cons.prems(1), of p] p by (auto simp: shared_def waiting_def)
  note eff = delete_one_effect [OF Cons.prems(1) p e u(1)]
  have ds: "distinct (f_list_repaired s)" using Cons.prems(1) by (auto simp: fmd_ok_def waiting_def)
  have oku: "fmd_ok u" using delete_one_ok [OF Cons.prems(1) p, of en] u(1) by auto
  define dropped where "dropped \<longleftrightarrow> f_list_repaired u \<noteq> f_list_repaired s"
  have lu: "f_list_repaired u = filter (\<lambda>x. x \<notin> (if dropped then {p} else {})) (f_list_repaired s)"
    using eff remove1_filter [OF ds, of p] by (auto simp: dropped_def)
  have "remove1 p (f_list_repaired s) \<noteq> f_list_repaired s" using p ds by (metis remove1_notin_distinct)
  then have ex: "ev_agent_result e \<noteq> LIST_ISOLATED_FAILED \<Longrightarrow> dropped \<longleftrightarrow> expired en e"
    using eff by (auto simp: dropped_def)
  have sub: "set ps \<subseteq> set (f_list_repaired u)" using lu Cons.prems(2,3) by auto
  obtain D where D: "D \<subseteq> set ps" "f_list_repaired t = filter (\<lambda>x. x \<notin> D) (f_list_repaired u)"
      "\<forall>x \<in> set ps. \<forall>e. f_events u x = Some e \<longrightarrow> ev_agent_result e \<noteq> LIST_ISOLATED_FAILED \<longrightarrow> x \<in> D \<longleftrightarrow> expired en e"
    using Cons.IH [OF oku sub _ u(2)] Cons.prems(3) by auto
  have same: "f_events u x = f_events s x" if "x \<in> set ps" for x
    using eff that Cons.prems(2,3) by (auto simp: waiting_def)
  let ?D = "(if dropped then {p} else {}) \<union> D"
  have "f_list_repaired t = filter (\<lambda>x. x \<notin> ?D) (f_list_repaired s)"
    using D(2) by (simp add: lu)
  moreover have "\<forall>x \<in> set (p # ps). \<forall>e. f_events s x = Some e \<longrightarrow> ev_agent_result e \<noteq> LIST_ISOLATED_FAILED \<longrightarrow>
      x \<in> ?D \<longleftrightarrow> expired en e"
  proof (intro ballI allI impI)
    fix x e' assume x: "x \<in> set (p # ps)" "f_events s x = Some e'" "ev_agent_result e' \<noteq> LIST_ISOLATED_FAILED"
    show "x \<in> ?D \<longleftrightarrow> expired en e'"
    proof (cases "x = p")
      case True
      then show ?thesis using x e ex D(1) Cons.prems(3) by auto
    next
      case False
      then have "x \<in> set ps" using x(1) by simp
      then show ?thesis using False D(3) same [of x] x(2,3) by auto
    qed
  qed
  moreover have "?D \<subseteq> set (p # ps)" using D(1) by auto
  ultimately show ?case by blast
qed (auto intro: exI [of _ "{}"])

text \<open>
  C4. What one clean-up run does to the repaired list in a reachable state: it always completes, keeps the
  order, and, failed isolations aside, removes exactly the entries with an even result other than
  isolated-success that are at least \<^verbatim>\<open>repaired_T\<close> old and were seen fewer than \<^verbatim>\<open>repaired_N\<close> times. In particular
  an entry for a successful isolation is never removed.
\<close>

theorem cleanup_removes_expired:
  assumes "list_all agent_fresh agents" "sys_reach esc agents priv s"
  shows "\<exists>t D. queue_delete_proc en s = Inr t \<and> f_list_repaired t = filter (\<lambda>p. p \<notin> D) (f_list_repaired s) \<and>
    (\<forall>p \<in> set (f_list_repaired s). \<exists>e. f_events s p = Some e \<and>
       (ev_agent_result e \<noteq> LIST_ISOLATED_FAILED \<longrightarrow> p \<in> D \<longleftrightarrow> expired en e) \<and>
       (ev_agent_result e = LIST_ISOLATED_SUCCESS \<longrightarrow> p \<notin> D))"
proof -
  note ok = sys_reach_ok [OF assms(2,1)]
  obtain t where t: "queue_delete_proc en s = Inr t" using queue_delete_proc_ok [OF ok] by blast
  have d: "distinct (f_list_repaired s)" using ok by (auto simp: fmd_ok_def waiting_def)
  obtain D where D: "f_list_repaired t = filter (\<lambda>p. p \<notin> D) (f_list_repaired s)"
    "\<forall>p \<in> set (f_list_repaired s). \<forall>e. f_events s p = Some e \<longrightarrow> ev_agent_result e \<noteq> LIST_ISOLATED_FAILED \<longrightarrow>
       p \<in> D \<longleftrightarrow> expired en e"
    using delete_loop_effect [OF ok _ d] t by (force simp: queue_delete_proc_def)
  have "\<exists>e. f_events s p = Some e \<and> (ev_agent_result e \<noteq> LIST_ISOLATED_FAILED \<longrightarrow> p \<in> D \<longleftrightarrow> expired en e) \<and>
       (ev_agent_result e = LIST_ISOLATED_SUCCESS \<longrightarrow> p \<notin> D)" if p: "p \<in> set (f_list_repaired s)" for p
  proof -
    obtain e where e: "f_events s p = Some e" using fmd_ok_alive [OF ok, of p] p by (auto simp: shared_def waiting_def)
    then show ?thesis using D(2) p by (auto simp: expired_def result_consts)
  qed
  then show ?thesis using t D(1) by blast
qed

text \<open>The fault event of the demonstration handled by its agent: one successful isolation is listed.\<close>

definition demo_moves :: "move list" where
  "demo_moves = [Post demo_nvl, Process, Take 0, Finish 0]"

definition demo_done :: fmd where
  "demo_done = projr (sys_run demo_act demo_env demo_moves demo_init)"

lemma demo_done_eval:
  "case sys_run demo_act demo_env demo_moves demo_init of
     Inl _ \<Rightarrow> False
   | Inr s \<Rightarrow> f_list_repaired s = [4] \<and> map_option ev_agent_result (f_events s 4) = Some LIST_ISOLATED_SUCCESS"
  by code_simp

lemma demo_done_facts:
  "sys_reach demo_esc demo_agents (Some [Stmt_cpu, Stmt_rep]) demo_done" "f_list_repaired demo_done = [4]"
  "map_option ev_agent_result (f_events demo_done 4) = Some LIST_ISOLATED_SUCCESS"
proof -
  obtain s where s: "sys_run demo_act demo_env demo_moves demo_init = Inr s"
    using demo_done_eval by (auto split: sum.splits)
  note e = demo_done_eval [unfolded s, unfolded sum.case]
  have d: "demo_done = s" by (simp add: demo_done_def s)
  have "list_all move_ok demo_moves" by (simp add: demo_moves_def move_ok_def demo_nvl_def)
  then show "sys_reach demo_esc demo_agents (Some [Stmt_cpu, Stmt_rep]) demo_done"
    using sys_run_reach [OF sys_reach.init, of demo_moves demo_act demo_env demo_esc demo_agents] s
    by (metis demo_done_def demo_init_def sum.disc(2))
  show "f_list_repaired demo_done = [4]" "map_option ev_agent_result (f_events demo_done 4) = Some LIST_ISOLATED_SUCCESS"
    unfolding d using e by blast+
qed

theorem cleanup_removes_expired_witness:
  "\<exists>t. queue_delete_proc demo_env demo_done = Inr t \<and> f_list_repaired t = [4]"
  using cleanup_removes_expired [OF demo_fresh demo_done_facts(1), of demo_env] demo_done_facts(2,3) by auto

end
