(* ===== verification/Fms_Progress.thy ===== *)
theory Fms_Progress
  imports Fms_Diagnosis
begin

text \<open>
  The dispatcher gets through its queue: what one event costs in free places of the agents' rings, and that
  the loop of \<^verbatim>\<open>queue_start\<close> ends with an empty ring when there are enough of them. The only operation that
  can hold the dispatcher up is the hand-over to an agent whose ring is full.
\<close>

section \<open>Free places\<close>

definition free_slots :: "nat \<Rightarrow> fmd \<Rightarrow> bool" where
  "free_slots k s \<longleftrightarrow> (\<forall>m\<in>set (f_list_agent s). k \<le> ring_vaild (am_ring m))"

text \<open>
  \<open>prompt j s r\<close>: the operation that gave \<open>r\<close> in \<open>s\<close> fills at most \<open>j\<close> places of any agent's ring, leaves the
  dispatcher's ring alone, and did not block if there were \<open>j\<close> places.
\<close>

definition prompt :: "nat \<Rightarrow> fmd \<Rightarrow> fmd res \<Rightarrow> bool" where
  "prompt j s r \<longleftrightarrow>
     (case r of
        Inl e \<Rightarrow> e = Would_block \<longrightarrow> \<not> free_slots j s
      | Inr t \<Rightarrow> f_queue_ring t = f_queue_ring s \<and> (\<forall>k. free_slots (k + j) s \<longrightarrow> free_slots k t))"

lemma free_slots_mono: "free_slots k s \<Longrightarrow> j \<le> k \<Longrightarrow> free_slots j s"
  by (fastforce simp: free_slots_def)

lemma prompt_same:
  "prompt j s' r \<Longrightarrow> f_queue_ring s' = f_queue_ring s \<Longrightarrow> f_list_agent s' = f_list_agent s \<Longrightarrow> prompt j s r"
  by (simp add: prompt_def free_slots_def split: sum.splits)

lemma prompt_Inr: "f_queue_ring t = f_queue_ring s \<Longrightarrow> f_list_agent t = f_list_agent s \<Longrightarrow> prompt j s (Inr t)"
  by (auto simp: prompt_def free_slots_def)

lemma prompt_read:
  "r \<noteq> Inl Would_block \<Longrightarrow> (\<And>x. r = Inr x \<Longrightarrow> prompt j s (f x)) \<Longrightarrow> prompt j s (rbind r f)"
  by (cases r) (simp_all add: prompt_def)

lemma prompt_bind:
  assumes "prompt i s r" "\<And>t. r = Inr t \<Longrightarrow> prompt j t (f t)"
  shows "prompt (i + j) s (rbind r f)"
proof (cases r)
  case (Inl e)
  then show ?thesis using assms(1) free_slots_mono [of "i + j" s i] by (auto simp: prompt_def)
next
  case (Inr t)
  note b = assms(2) [OF Inr]
  have t: "f_queue_ring t = f_queue_ring s" "\<And>k. free_slots (k + i) s \<Longrightarrow> free_slots k t"
    using assms(1) Inr by (simp_all add: prompt_def)
  have "free_slots (k + (i + j)) s \<Longrightarrow> free_slots (k + j) t" for k
    using t(2) [of "k + j"] by (simp add: ac_simps)
  with b t(1) show ?thesis
    by (cases "f t") (auto simp: Inr prompt_def dest: spec [of _ 0] intro: t(2) simp: add.commute)
qed

lemma load_no_block: "ev s a \<noteq> Inl Would_block" "cs s a \<noteq> Inl Would_block"
  by (simp_all add: ev_def cs_def load_def split: option.splits)

lemma rbind_eq_Inl: "rbind r f = Inl e \<longleftrightarrow> r = Inl e \<or> (\<exists>x. r = Inr x \<and> f x = Inl e)"
  by (cases r) auto

lemma find_no_block: "find_event s l i \<noteq> Inl Would_block" "find_case s l n d \<noteq> Inl Would_block"
  by (induction l) (auto simp: rbind_eq_Inl load_no_block split: if_splits)

lemma sub_search_no_block: "sub_search c l \<noteq> Inl Would_block"
proof (induction l)
  case (Cons sb l)
  have "fmd_sub_matches (Some c) (Some sb) \<noteq> Inl Would_block"
    by (auto simp: fmd_sub_matches_def deref_def Let_def split: option.splits)
  with Cons show ?case by (auto simp: rbind_eq_Inl split: if_splits)
qed simp

lemma agent_search_range:
  "agent_search c ms \<noteq> Inl Would_block" "agent_search c ms = Inr (Some i) \<Longrightarrow> i < length ms"
proof (induction ms arbitrary: i)
  case (Cons m ms)
  { case 1 show ?case using Cons.IH(1) by (auto simp: rbind_eq_Inl sub_search_no_block split: if_splits) }
  { case 2 then show ?case using Cons.IH(2) by (auto split: if_splits) }
qed simp_all

section \<open>The cost of an event\<close>

lemma put_to_agents_prompt: "prompt 1 s (put_to_agents p s)"
  unfolding put_to_agents_def
proof (intro prompt_read load_no_block agent_search_range)
  fix e r
  assume "agent_search (ev_class e) (f_list_agent s) = Inr r"
  then have i: "r = Some i \<Longrightarrow> i < length (f_list_agent s)" for i using agent_search_range(2) by blast
  show "prompt 1 s (case r of None \<Rightarrow> Inr s
       | Some i \<Rightarrow> rbind (put_to_agent (am_ring (f_list_agent s ! i)) p) (\<lambda>ring.
             Inr (s\<lparr>f_list_agent := (f_list_agent s)[i := (f_list_agent s ! i)\<lparr>am_ring := ring\<rparr>]\<rparr>)))"
  proof (cases r)
    case (Some i)
    let ?r = "am_ring (f_list_agent s ! i)"
    have m: "f_list_agent s ! i \<in> set (f_list_agent s)" using i [OF Some] by simp
    show ?thesis
    proof (cases "ring_vaild ?r = 0")
      case True
      then have "\<not> free_slots 1 s" using m by (fastforce simp: free_slots_def)
      then show ?thesis using Some True by (simp add: put_to_agent_def prompt_def)
    next
      case False
      then obtain r' where r': "put_to_agent ?r p = Inr r'" "ring_vaild r' = ring_vaild ?r - 1"
        by (auto simp: put_to_agent_def Let_def ring_add_def split: if_splits)
      have "free_slots k (s\<lparr>f_list_agent := (f_list_agent s)[i := (f_list_agent s ! i)\<lparr>am_ring := r'\<rparr>]\<rparr>)"
        if "free_slots (k + 1) s" for k
        using that m r'(2) by (fastforce simp: free_slots_def dest: subsetD [OF set_update_subset_insert])
      then show ?thesis using Some r'(1) by (simp add: prompt_def)
    qed
  qed (simp add: prompt_Inr)
qed
lemma put_frames [simp]:
  "f_list_agent (put_ev p e s) = f_list_agent s" "f_queue_ring (put_ev p e s) = f_queue_ring s"
  "f_list_agent (put_cs q c s) = f_list_agent s" "f_queue_ring (put_cs q c s) = f_queue_ring s"
  by (simp_all add: put_ev_def put_cs_def)

lemma new_frames:
  "new_ev e s = (p, t) \<Longrightarrow> f_list_agent t = f_list_agent s \<and> f_queue_ring t = f_queue_ring s"
  "new_cs c s = (p, t) \<Longrightarrow> f_list_agent t = f_list_agent s \<and> f_queue_ring t = f_queue_ring s"
  by (auto simp: new_ev_def new_cs_def)

lemma fmd_case_fire_prompt: "prompt 1 s (fmd_case_fire en q p s)"
proof -
  have "prompt 1 s (let c' = fire_mark en c; (pfault, s1) = new_ev (fault_of e (cs_fire_counts c')) s
       in put_to_agents pfault (put_cs q c' s1))" for e c
  proof -
    obtain l t where n: "new_ev (fault_of e (cs_fire_counts (fire_mark en c))) s = (l, t)" by fastforce
    show ?thesis using new_frames(1) [OF n] prompt_same [OF put_to_agents_prompt, of "put_cs q (fire_mark en c) t" s]
      by (simp add: n)
  qed
  then show ?thesis unfolding fmd_case_fire_def by (intro prompt_read load_no_block)
qed

lemma event_link_frame:
  "event_link en q p s \<noteq> Inl Would_block"
  "event_link en q p s = Inr (x, t) \<Longrightarrow> f_list_agent t = f_list_agent s \<and> f_queue_ring t = f_queue_ring s"
proof -
  show "event_link en q p s \<noteq> Inl Would_block"
    unfolding event_link_def rbind_eq_Inl
    by (auto simp: load_no_block find_no_block rbind_eq_Inl split: option.splits if_splits)
  assume "event_link en q p s = Inr (x, t)"
  then obtain c e hit where "(case hit of
         Some p' \<Rightarrow> rbind (ev s p') (\<lambda>pe.
             Inr (p', put_ev p' (pe\<lparr>ev_count := ev_count pe + 1, ev_last_occur := ev_create e\<rparr>) s))
       | None \<Rightarrow>
           if 128 \<le> length (ev_class e) then Inl Buf_overflow
           else Inr (p,
             put_ev p (e\<lparr>ev_count := ev_count e + 1, ev_create := e_now en, ev_last_occur := e_now en\<rparr>)
               (put_cs q (c\<lparr>cs_event := p # cs_event c, cs_last_eclass := ev_class e\<rparr>) s))) = Inr (x, t)"
    unfolding event_link_def rbind_eq_Inr by blast
  then show "f_list_agent t = f_list_agent s \<and> f_queue_ring t = f_queue_ring s"
    by (cases hit) (auto split: if_splits)
qed

lemma fmd_event_add_prompt: "prompt 1 s (fmd_event_add en q p s)"
  unfolding fmd_event_add_def
proof (intro prompt_read load_no_block event_link_frame)
  fix e x
  assume "event_link en q p (put_ev p (e\<lparr>ev_p_case := q\<rparr>) s) = Inr x"
  then obtain p' t where x: "x = (p', t)" and t: "f_list_agent t = f_list_agent s" "f_queue_ring t = f_queue_ring s"
    using event_link_frame(2) [of en q p] by (cases x) fastforce
  have "prompt 1 s (rbind (cs t q) (\<lambda>c. rbind (ev t p') (\<lambda>pe.
       let s2 = put_cs q (c\<lparr>cs_total_count := cs_total_count c + 1, m_event_using := m_event_using c + 1\<rparr>) t
       in if fmd_case_canfire en pe then fmd_case_fire en q p s2 else Inr s2)))"
    using t by (intro prompt_read load_no_block) (simp add: Let_def prompt_Inr prompt_same [OF fmd_case_fire_prompt] del: One_nat_def)
  then show "prompt 1 s (case x of (p_event, s1) \<Rightarrow> rbind (cs s1 q) (\<lambda>c. rbind (ev s1 p_event) (\<lambda>pe.
       let s2 = put_cs q (c\<lparr>cs_total_count := cs_total_count c + 1, m_event_using := m_event_using c + 1\<rparr>) s1
       in if fmd_case_canfire en pe then fmd_case_fire en q p s2 else Inr s2)))"
    by (simp add: x)
qed

lemma add_case_list_prompt: "prompt 1 s (add_case_list en p s)"
  unfolding add_case_list_def
proof (intro prompt_read load_no_block find_no_block)
  fix e hit
  have "prompt 1 s (rbind (fmd_case_create en p s) (\<lambda>(q, s1). fmd_event_add en q p (s1\<lparr>f_list_case := q # f_list_case s1\<rparr>)))"
  proof (rule prompt_read)
    show "fmd_case_create en p s \<noteq> Inl Would_block"
      by (simp add: fmd_case_create_def rbind_eq_Inl load_no_block)
    fix x
    assume "fmd_case_create en p s = Inr x"
    then have "f_list_agent (snd x) = f_list_agent s \<and> f_queue_ring (snd x) = f_queue_ring s"
      by (auto simp: fmd_case_create_def new_cs_def split: if_splits)
    then show "prompt 1 s (case x of (q, s1) \<Rightarrow> fmd_event_add en q p (s1\<lparr>f_list_case := q # f_list_case s1\<rparr>))"
      by (cases x) (simp add: prompt_same [OF fmd_event_add_prompt] del: One_nat_def)
  qed
  then show "prompt 1 s (case hit of Some p_case \<Rightarrow> fmd_event_add en p_case p s
     | None \<Rightarrow> rbind (fmd_case_create en p s) (\<lambda>(q, s1). fmd_event_add en q p (s1\<lparr>f_list_case := q # f_list_case s1\<rparr>)))"
    by (cases hit) (simp_all add: fmd_event_add_prompt del: One_nat_def)
qed

lemma fmd_proc_event_prompt: "prompt 2 s (fmd_proc_event en p s)"
proof -
  have "prompt 2 t (fmd_case_insert en p t)" for t
    unfolding fmd_case_insert_def
  proof (intro prompt_read load_no_block)
    fix e
    let ?e = "classify (f_esc t) e"
    obtain db where db: "snd (ras_events_handle (e_lt en) (e_rc en) ?e (put_ev p ?e t)) = (put_ev p ?e t)\<lparr>f_db := db\<rparr>"
      using ras_events_handle_frame by blast
    have "prompt 2 u (rbind (add_case_list en p u) (put_to_agents p))" for u
      using prompt_bind [OF add_case_list_prompt put_to_agents_prompt] by (simp only: one_add_one)
    from prompt_same [OF this] show "prompt 2 t (let e' = ?e; s1 = snd (ras_events_handle (e_lt en) (e_rc en) e' (put_ev p e' t))
        in rbind (add_case_list en p s1) (put_to_agents p))"
      by (simp add: db Let_def)
  qed
  then have "prompt 2 s (fmd_case_insert en p (put_ev p e s))" for e by (rule prompt_same) simp_all
  then show ?thesis unfolding fmd_proc_event_def
    by (intro prompt_read load_no_block) (simp add: event_disp_dest_def prompt_Inr)
qed

section \<open>The round\<close>

lemma queue_one_prompt:
  assumes "fmd_ok s" "ring_abs (f_queue_ring s) = p # xs" "free_slots (k + 2) s"
  obtains t where "queue_one en s = Inr t" "fmd_ok t" "ring_abs (f_queue_ring t) = xs" "free_slots k t"
proof -
  have q: "ring_quiet (f_queue_ring s)" using assms(1) by (simp add: fmd_ok_def)
  obtain r where r: "ring_take (f_queue_ring s) = Inr (Some p, r)" "ring_abs r = xs"
    using ring_take_ok [OF q assms(2)] by blast
  let ?s = "s\<lparr>f_queue_ring := r\<rparr>"
  have one: "queue_one en s = fmd_proc_event en p ?s" by (simp add: queue_one_def r(1))
  have free: "free_slots (k + 2) ?s" "free_slots 2 ?s"
    using assms(3) free_slots_mono [of "k + 2" ?s 2] by (simp_all add: free_slots_def)
  have pr: "prompt 2 ?s (queue_one en s)" unfolding one by (rule fmd_proc_event_prompt)
  show ?thesis
  proof (cases "queue_one en s")
    case (Inl e)
    then have "e = Would_block" using queue_one_safe [OF assms(1), of en] by simp
    then show ?thesis using pr free(2) Inl by (simp add: prompt_def)
  next
    case (Inr t)
    then show ?thesis using that [OF Inr] queue_one_safe [OF assms(1), of en] pr free(1) r(2) by (simp add: prompt_def)
  qed
qed

lemma queue_drain_empties:
  assumes "fmd_ok s" "length (ring_abs (f_queue_ring s)) \<le> n" "free_slots (2 * length (ring_abs (f_queue_ring s))) s"
  shows "\<exists>t. queue_drain en n s = Inr t \<and> fmd_ok t \<and> ring_abs (f_queue_ring t) = []"
  using assms
proof (induction n arbitrary: s)
  case (Suc n)
  have q: "ring_quiet (f_queue_ring s)" using Suc.prems(1) by (simp add: fmd_ok_def)
  show ?case
  proof (cases "ring_abs (f_queue_ring s)")
    case Nil
    then have "ring_stat (f_queue_ring s) = 0"
      using ring_quiet_len [OF q] q by (simp add: ring_stat_def ring_quiet_def ring_inv_def)
    then show ?thesis using Suc.prems(1) Nil by simp
  next
    case (Cons p xs)
    then have st: "ring_stat (f_queue_ring s) \<noteq> 0"
      using ring_quiet_len [OF q] by (auto simp: ring_stat_def)
    have "free_slots (2 * length xs + 2) s" using Suc.prems(3) Cons by simp
    from queue_one_prompt [OF Suc.prems(1) Cons this] obtain t where t: "queue_one en s = Inr t" "fmd_ok t"
      "ring_abs (f_queue_ring t) = xs" "free_slots (2 * length xs) t" by blast
    from Suc.IH [OF t(2)] t(3,4) Suc.prems(2) Cons show ?thesis using st by (simp add: t(1))
  qed
qed simp

text \<open>
  C5. The dispatcher's loop ends. In every reachable state in which the ring of each agent has two free places
  for every event that waits, a round of \<^verbatim>\<open>queue_start\<close> returns, whatever the configuration, the cases and the
  clock: after as many passes as events waited the ring is empty, and the clean-up that is due every
  twentieth round has run.
\<close>

theorem queue_round_returns:
  assumes "list_all agent_fresh agents" "sys_reach esc agents priv s"
    and "free_slots (2 * length (ring_abs (f_queue_ring s))) s"
  shows "\<exists>t. queue_drain en (nat (ring_stat (f_queue_ring s))) s = Inr t \<and> ring_abs (f_queue_ring t) = [] \<and>
    (\<exists>u. queue_round en rnd s = Inr (if rnd + 1 = DELETE_CIRCLE then 0 else rnd + 1, u) \<and>
       (if rnd + 1 = DELETE_CIRCLE then queue_delete_proc en t = Inr u else u = t))"
proof -
  have ok: "fmd_ok s" by (rule sys_reach_ok [OF assms(2,1)])
  then have q: "ring_quiet (f_queue_ring s)" by (simp add: fmd_ok_def)
  then have "length (ring_abs (f_queue_ring s)) = nat (ring_stat (f_queue_ring s))"
    by (simp add: ring_quiet_len ring_stat_def)
  then obtain t where t: "queue_drain en (nat (ring_stat (f_queue_ring s))) s = Inr t" "fmd_ok t" "ring_abs (f_queue_ring t) = []"
    using queue_drain_empties [OF ok _ assms(3)] by auto
  obtain u where u: "queue_delete_proc en t = Inr u" using queue_delete_proc_ok [OF t(2)] by blast
  show ?thesis by (rule exI [of _ t]) (auto simp: t queue_round_def u)
qed

theorem queue_round_returns_witness:
  "\<exists>s t u. ring_abs (f_queue_ring s) = [1] \<and> queue_drain demo_env (nat (ring_stat (f_queue_ring s))) s = Inr t \<and>
     ring_abs (f_queue_ring t) = [] \<and> queue_round demo_env 19 s = Inr (0, u) \<and> queue_delete_proc demo_env t = Inr u"
proof -
  obtain s where s: "src_post demo_env demo_nvl demo_init = Inr s" "ring_abs (f_queue_ring s) = [1]"
    "sys_reach demo_esc demo_agents (Some [Stmt_cpu, Stmt_rep]) s"
    by (rule demo_posted)
  have "f_list_agent s = demo_agents"
    using s(1) by (auto simp: src_post_def fmd_create_ereport_def new_ev_def demo_init_def fmd_init_def put_ev_def split: if_splits)
  then have "free_slots (2 * length (ring_abs (f_queue_ring s))) s"
    by (simp add: free_slots_def s(2) demo_agents_def ring_init_def RING_SIZE_def)
  from queue_round_returns [OF demo_fresh s(3) this, of demo_env 19] s(2) show ?thesis
    by (auto simp: DELETE_CIRCLE_def)
qed

end
