(* ===== verification/Fms_List.thy ===== *)
theory Fms_List
  imports Fms_Prelude
begin

text \<open>
  The intrusive circular list of \<^verbatim>\<open>include/list.h\<close>, at the level of its two pointers. The sources use
  it for every collection of the daemon (cases, events of a case, agents, subscriptions, timers); the
  other theories work with the sequence of linked addresses, which is what \<open>dlist\<close> relates to the heap.
  The variant with a single head (\<^verbatim>\<open>hlist\<close>), which has no user in the sources, is in \<open>Fms_Hlist\<close>.
\<close>

section \<open>The code\<close>

text \<open>\<^verbatim>\<open>struct list_head\<close> cells, by address.\<close>

record list_heap =
  lnext :: "addr \<Rightarrow> addr"
  lprev :: "addr \<Rightarrow> addr"

definition set_next :: "addr \<Rightarrow> addr \<Rightarrow> list_heap \<Rightarrow> list_heap" where
  "set_next a v h = h\<lparr>lnext := (lnext h)(a := v)\<rparr>"

definition set_prev :: "addr \<Rightarrow> addr \<Rightarrow> list_heap \<Rightarrow> list_heap" where
  "set_prev a v h = h\<lparr>lprev := (lprev h)(a := v)\<rparr>"

definition LIST_POISON :: addr where "LIST_POISON = 0"

definition INIT_LIST_HEAD :: "addr \<Rightarrow> list_heap \<Rightarrow> list_heap" where
  "INIT_LIST_HEAD p h = set_prev p p (set_next p p h)"

definition list_add_between :: "addr \<Rightarrow> addr \<Rightarrow> addr \<Rightarrow> list_heap \<Rightarrow> list_heap" where
  "list_add_between new1 prev next h =
     set_next prev new1 (set_prev new1 prev (set_next new1 next (set_prev next new1 h)))"

definition list_add :: "addr \<Rightarrow> addr \<Rightarrow> list_heap \<Rightarrow> list_heap" where
  "list_add new1 head h = list_add_between new1 head (lnext h head) h"

definition list_add_tail :: "addr \<Rightarrow> addr \<Rightarrow> list_heap \<Rightarrow> list_heap" where
  "list_add_tail new1 head h = list_add_between new1 (lprev h head) head h"

definition list_del_between :: "addr \<Rightarrow> addr \<Rightarrow> list_heap \<Rightarrow> list_heap" where
  "list_del_between prev next h = set_next prev next (set_prev next prev h)"

definition list_del :: "addr \<Rightarrow> list_heap \<Rightarrow> list_heap" where
  "list_del entry h =
     set_prev entry LIST_POISON (set_next entry LIST_POISON
       (list_del_between (lprev h entry) (lnext h entry) h))"

definition list_del_init :: "addr \<Rightarrow> list_heap \<Rightarrow> list_heap" where
  "list_del_init entry h = INIT_LIST_HEAD entry (list_del_between (lprev h entry) (lnext h entry) h)"

definition list_move :: "addr \<Rightarrow> addr \<Rightarrow> list_heap \<Rightarrow> list_heap" where
  "list_move l head h = list_add l head (list_del_between (lprev h l) (lnext h l) h)"

definition list_move_tail :: "addr \<Rightarrow> addr \<Rightarrow> list_heap \<Rightarrow> list_heap" where
  "list_move_tail l head h = list_add_tail l head (list_del_between (lprev h l) (lnext h l) h)"

definition list_empty :: "addr \<Rightarrow> list_heap \<Rightarrow> bool" where
  "list_empty head h \<longleftrightarrow> lnext h head = head"

definition list_empty_careful :: "addr \<Rightarrow> list_heap \<Rightarrow> bool" where
  "list_empty_careful head h \<longleftrightarrow> (let next = lnext h head in next = head \<and> next = lprev h head)"

definition list_splice_at :: "addr \<Rightarrow> addr \<Rightarrow> list_heap \<Rightarrow> list_heap" where
  "list_splice_at l head h =
     (let first = lnext h l; last = lprev h l; at1 = lnext h head
      in set_prev at1 last (set_next last at1 (set_next head first (set_prev first head h))))"

definition list_splice :: "addr \<Rightarrow> addr \<Rightarrow> list_heap \<Rightarrow> list_heap" where
  "list_splice l head h = (if \<not> list_empty l h then list_splice_at l head h else h)"

definition list_splice_init :: "addr \<Rightarrow> addr \<Rightarrow> list_heap \<Rightarrow> list_heap" where
  "list_splice_init l head h =
     (if \<not> list_empty l h then INIT_LIST_HEAD l (list_splice_at l head h) else h)"

text \<open>
  \<^verbatim>\<open>list_for_each(pos, head)\<close>: the cursor's values, from \<open>pos\<close> on, for at most \<open>n\<close> iterations; \<open>None\<close> when
  the loop has not reached the head by then.
\<close>

fun walk :: "nat \<Rightarrow> (addr \<Rightarrow> addr) \<Rightarrow> addr \<Rightarrow> addr \<Rightarrow> addr list option" where
  "walk n nx head pos =
     (if pos = head then Some []
      else case n of 0 \<Rightarrow> None | Suc k \<Rightarrow> map_option (\<lambda>xs. pos # xs) (walk k nx head (nx pos)))"

definition list_for_each :: "nat \<Rightarrow> addr \<Rightarrow> list_heap \<Rightarrow> addr list option" where
  "list_for_each n head h = walk n (lnext h) head (lnext h head)"

definition list_for_each_prev :: "nat \<Rightarrow> addr \<Rightarrow> list_heap \<Rightarrow> addr list option" where
  "list_for_each_prev n head h = walk n (lprev h) head (lprev h head)"

text \<open>
  \<^verbatim>\<open>list_for_each_safe(pos, n, head)\<close> around a body that may change the heap: the successor is read
  before the body runs.
\<close>

fun safe_loop :: "(addr \<Rightarrow> list_heap \<Rightarrow> list_heap) \<Rightarrow> nat \<Rightarrow> addr \<Rightarrow> addr \<Rightarrow> addr \<Rightarrow> list_heap \<Rightarrow> list_heap option" where
  "safe_loop body fuel head pos n h =
     (if pos = head then Some h
      else case fuel of 0 \<Rightarrow> None
        | Suc k \<Rightarrow> let h1 = body pos h in safe_loop body k head n (lnext h1 n) h1)"

definition list_for_each_safe ::
  "(addr \<Rightarrow> list_heap \<Rightarrow> list_heap) \<Rightarrow> nat \<Rightarrow> addr \<Rightarrow> list_heap \<Rightarrow> list_heap option" where
  "list_for_each_safe body fuel head h =
     (let pos = lnext h head in safe_loop body fuel head pos (lnext h pos) h)"

declare walk.simps [simp del] safe_loop.simps [simp del]

section \<open>Segments\<close>

named_theorems list_code \<open>definitions of the pointer operations\<close>

lemmas [list_code] = set_next_def set_prev_def list_add_between_def list_add_def list_add_tail_def
  list_del_between_def list_del_def list_del_init_def INIT_LIST_HEAD_def list_splice_at_def

text \<open>\<open>seg h a xs b\<close>: the cells from \<open>a\<close> through \<open>xs\<close> to \<open>b\<close> are linked in both directions.\<close>

fun seg :: "list_heap \<Rightarrow> addr \<Rightarrow> addr list \<Rightarrow> addr \<Rightarrow> bool" where
  "seg h a [] b \<longleftrightarrow> lnext h a = b \<and> lprev h b = a"
| "seg h a (x # xs) b \<longleftrightarrow> lnext h a = x \<and> lprev h x = a \<and> seg h x xs b"

text \<open>\<open>dlist h head xs\<close>: \<open>head\<close> is the head of a circular list of exactly the cells \<open>xs\<close>, in order.\<close>

definition dlist :: "list_heap \<Rightarrow> addr \<Rightarrow> addr list \<Rightarrow> bool" where
  "dlist h head xs \<longleftrightarrow> distinct (head # xs) \<and> seg h head xs head"

lemma seg_append [simp]: "seg h a (xs @ y # ys) b \<longleftrightarrow> seg h a xs y \<and> seg h y ys b"
  by (induction xs arbitrary: a) auto

lemma seg_frame:
  assumes "seg h a xs b" "\<And>z. z \<in> set (a # xs) \<Longrightarrow> lnext h' z = lnext h z"
    "\<And>z. z \<in> set (xs @ [b]) \<Longrightarrow> lprev h' z = lprev h z"
  shows "seg h' a xs b"
  using assms by (induction xs arbitrary: a) auto

lemma seg_first: "seg h a xs b \<Longrightarrow> lnext h a = hd (xs @ [b])"
  by (cases xs) auto

lemma seg_last: "seg h a xs b \<Longrightarrow> lprev h b = last (a # xs)"
  by (induction xs arbitrary: a) auto

text \<open>A circle with the head removed is one segment; two neighbours split it.\<close>

lemma dlist_insert:
  assumes d: "dlist h head (xs @ ys)" and n: "n \<notin> set (head # xs @ ys)"
    and pq: "p = last (head # xs)" "q = hd (ys @ [head])"
  shows "dlist (list_add_between n p q h) head (xs @ n # ys)"
proof -
  let ?h = "list_add_between n p q h"
  have s: "seg h head (xs @ ys) head" and ds: "distinct (head # xs @ ys)"
    using d by (simp_all add: dlist_def)
  have left: "seg ?h head xs n"
  proof (cases xs rule: rev_cases)
    case Nil
    then show ?thesis using n pq by (auto simp: list_code)
  next
    case (snoc zs z)
    with s ds have "seg h head zs z" by (cases ys) auto
    then have "seg ?h head zs z"
      by (rule seg_frame) (use snoc n ds pq in \<open>auto simp: list_code hd_append split: if_splits dest: hd_in_set\<close>)
    then show ?thesis using snoc pq n ds by (auto simp: list_code hd_append split: if_splits)
  qed
  have right: "seg ?h n ys head"
  proof (cases ys)
    case Nil
    then show ?thesis using n pq by (auto simp: list_code)
  next
    case (Cons z zs)
    with s have "seg h z zs head" by simp
    then have "seg ?h z zs head"
      by (rule seg_frame) (use Cons n ds pq in \<open>auto simp: list_code split: if_splits dest: last_in_set\<close>)
    then show ?thesis using Cons pq n ds by (auto simp: list_code split: if_splits)
  qed
  show ?thesis using left right ds n by (auto simp: dlist_def)
qed


lemma dlist_remove:
  assumes d: "dlist h head (xs @ n # ys)"
  shows "dlist (list_del_between (lprev h n) (lnext h n) h) head (xs @ ys)"
proof -
  have s1: "seg h head xs n" and s2: "seg h n ys head" and ds: "distinct (head # xs @ n # ys)"
    using d by (simp_all add: dlist_def)
  define p q where pq: "p = last (head # xs)" "q = hd (ys @ [head])"
  have pn: "lprev h n = p" and qn: "lnext h n = q"
    using seg_last [OF s1] seg_first [OF s2] pq by auto
  let ?h = "list_del_between p q h"
  have "seg ?h head (xs @ ys) head"
  proof (cases ys)
    case Nil
    show ?thesis
    proof (cases xs rule: rev_cases)
      case Nil
      then show ?thesis using \<open>ys = []\<close> pq by (simp add: list_code)
    next
      case (snoc zs z)
      with s1 have "seg h head zs z" by simp
      then have "seg ?h head zs z"
        by (rule seg_frame) (use snoc Nil ds pq in \<open>auto simp: list_code\<close>)
      then show ?thesis using snoc Nil pq ds by (auto simp: list_code)
    qed
  next
    case (Cons z zs)
    with s2 have "seg h z zs head" by simp
    then have r: "seg ?h z zs head"
      by (rule seg_frame) (use Cons ds pq in \<open>auto simp: list_code split: if_splits dest: last_in_set\<close>)
    have "seg ?h head xs z"
    proof (cases xs rule: rev_cases)
      case Nil
      then show ?thesis using Cons pq by (simp add: list_code)
    next
      case (snoc ws w)
      with s1 have "seg h head ws w" by simp
      then have "seg ?h head ws w"
        by (rule seg_frame) (use snoc Cons ds pq in \<open>auto simp: list_code\<close>)
      then show ?thesis using snoc Cons pq ds by (auto simp: list_code)
    qed
    with r Cons show ?thesis by simp
  qed
  with ds pn qn show ?thesis by (simp add: dlist_def)
qed

text \<open>Writing the links of a cell outside a list leaves the list alone.\<close>

lemma dlist_frame:
  assumes "dlist h head xs" "\<And>z. z \<in> set (head # xs) \<Longrightarrow> lnext h' z = lnext h z \<and> lprev h' z = lprev h z"
  shows "dlist h' head xs"
  using assms seg_frame [of h head xs head h'] by (auto simp: dlist_def)

lemma dlist_init: "dlist (INIT_LIST_HEAD p h) p []"
  by (simp add: dlist_def list_code)

lemma dlist_add: "dlist h head xs \<Longrightarrow> n \<notin> set (head # xs) \<Longrightarrow> dlist (list_add n head h) head (n # xs)"
  using dlist_insert [of h head "[]" xs n head "lnext h head"]
  by (simp add: list_add_def dlist_def seg_first)

lemma dlist_add_tail:
  "dlist h head xs \<Longrightarrow> n \<notin> set (head # xs) \<Longrightarrow> dlist (list_add_tail n head h) head (xs @ [n])"
  using dlist_insert [of h head xs "[]" n "lprev h head" head] seg_last [of h head xs head]
  by (simp add: list_add_tail_def dlist_def del: last.simps)

lemma dlist_del_between:
  assumes "dlist h head xs" "n \<in> set xs"
  shows "dlist (list_del_between (lprev h n) (lnext h n) h) head (remove1 n xs)"
proof -
  obtain as bs where x: "xs = as @ n # bs" "n \<notin> set as" using assms(2) split_list_first by metis
  with dlist_remove [of h head as n bs] assms(1) show ?thesis by (simp add: remove1_append)
qed

lemma dlist_del:
  assumes "dlist h head xs" "n \<in> set xs"
  shows "dlist (list_del n h) head (remove1 n xs)"
  by (rule dlist_frame [OF dlist_del_between [OF assms]])
    (use assms in \<open>auto simp: list_del_def set_next_def set_prev_def dlist_def notin_set_remove1\<close>)

lemma dlist_del_init:
  assumes "dlist h head xs" "n \<in> set xs"
  shows "dlist (list_del_init n h) head (remove1 n xs) \<and> dlist (list_del_init n h) n []"
proof
  show "dlist (list_del_init n h) head (remove1 n xs)"
    by (rule dlist_frame [OF dlist_del_between [OF assms]])
      (use assms in \<open>auto simp: list_del_init_def INIT_LIST_HEAD_def set_next_def set_prev_def dlist_def notin_set_remove1\<close>)
qed (simp add: list_del_init_def dlist_init)

lemma dlist_move:
  assumes "dlist h head xs" "n \<in> set xs"
  shows "dlist (list_move n head h) head (n # remove1 n xs)"
    "dlist (list_move_tail n head h) head (remove1 n xs @ [n])"
  using assms dlist_add [OF dlist_del_between [OF assms], of n] dlist_add_tail [OF dlist_del_between [OF assms], of n]
  by (auto simp: list_move_def list_move_tail_def dlist_def)

lemma dlist_empty_iff: "dlist h head xs \<Longrightarrow> list_empty head h \<longleftrightarrow> xs = []"
  by (cases xs) (auto simp: list_empty_def dlist_def)

lemma dlist_empty_careful_iff: "dlist h head xs \<Longrightarrow> list_empty_careful head h \<longleftrightarrow> xs = []"
  by (cases xs) (auto simp: list_empty_careful_def dlist_def)

text \<open>The link of a cell inside a list never looks empty.\<close>

lemma linked_not_empty:
  assumes "dlist h head xs" "x \<in> set xs"
  shows "\<not> list_empty x h"
proof -
  obtain as bs where x: "xs = as @ x # bs" using assms(2) by (metis split_list)
  with assms have "seg h x bs head" "x \<noteq> head" "x \<notin> set bs" by (auto simp: dlist_def)
  then show ?thesis by (cases bs) (auto simp: list_empty_def)
qed

section \<open>Iteration\<close>

lemma walk_seg:
  "seg h a xs b \<Longrightarrow> distinct (xs @ [b]) \<Longrightarrow> length xs \<le> n \<Longrightarrow> walk n (lnext h) b (lnext h a) = Some xs"
proof (induction xs arbitrary: a n)
  case Nil
  then show ?case by (simp add: walk.simps)
next
  case (Cons x xs)
  then show ?case by (cases n) (simp_all add: walk.simps [of _ _ b x])
qed

lemma walk_seg_prev:
  "seg h a xs b \<Longrightarrow> distinct (a # xs) \<Longrightarrow> length xs \<le> n \<Longrightarrow> walk n (lprev h) a (lprev h b) = Some (rev xs)"
proof (induction xs arbitrary: b n rule: rev_induct)
  case Nil
  then show ?case by (simp add: walk.simps)
next
  case (snoc x xs)
  then show ?case by (cases n) (simp_all add: walk.simps [of _ _ a x])
qed

lemma list_for_each_dlist: "dlist h head xs \<Longrightarrow> length xs \<le> n \<Longrightarrow> list_for_each n head h = Some xs"
  unfolding list_for_each_def dlist_def by (rule walk_seg) auto

lemma list_for_each_prev_dlist:
  "dlist h head xs \<Longrightarrow> length xs \<le> n \<Longrightarrow> list_for_each_prev n head h = Some (rev xs)"
  unfolding list_for_each_prev_def dlist_def by (rule walk_seg_prev) auto

text \<open>
  The pattern of every clean-up loop of the daemon: delete the cells that satisfy \<open>P\<close> while iterating
  with \<^verbatim>\<open>list_for_each_safe\<close>.
\<close>

definition del_if :: "(addr \<Rightarrow> bool) \<Rightarrow> addr \<Rightarrow> list_heap \<Rightarrow> list_heap" where
  "del_if P p h = (if P p then list_del p h else h)"

lemma safe_loop_del:
  assumes "dlist h head (ks @ xs)" "list_all (\<lambda>x. \<not> P x) ks" "length xs \<le> n"
    "pos = hd (xs @ [head])" "nx = lnext h pos"
  shows "\<exists>h'. safe_loop (del_if P) n head pos nx h = Some h' \<and> dlist h' head (ks @ filter (\<lambda>x. \<not> P x) xs)"
  using assms
proof (induction xs arbitrary: ks n h pos nx)
  case Nil
  then show ?case by (simp add: safe_loop.simps)
next
  case (Cons x xs)
  then obtain m where n: "n = Suc m" "length xs \<le> m" by (cases n) auto
  from Cons.prems(1) have ne: "x \<noteq> head" and sg: "seg h x xs head" by (auto simp: dlist_def)
  then have nx: "nx = hd (xs @ [head])" using Cons.prems(4,5) seg_first [OF sg] by simp
  let ?h = "del_if P x h" and ?ks = "if P x then ks else ks @ [x]"
  have d: "dlist ?h head (?ks @ xs)"
  proof (cases "P x")
    case True
    with Cons.prems(2) have "x \<notin> set ks" by (auto simp: list_all_iff)
    then show ?thesis using dlist_del [OF Cons.prems(1), of x] True by (simp add: del_if_def remove1_append)
  next
    case False
    then show ?thesis using Cons.prems(1) by (simp add: del_if_def)
  qed
  have "list_all (\<lambda>x. \<not> P x) ?ks" using Cons.prems(2) by simp
  from Cons.IH [OF d this n(2) nx refl] ne Cons.prems(4) n show ?case
    by (auto simp: safe_loop.simps [of _ "Suc m" head x] Let_def)
qed

lemma list_for_each_safe_del:
  assumes "dlist h head xs" "length xs \<le> n"
  shows "\<exists>h'. list_for_each_safe (del_if P) n head h = Some h' \<and> dlist h' head (filter (\<lambda>x. \<not> P x) xs)"
  using safe_loop_del [of h head "[]" xs P n "lnext h head"] assms seg_first [of h head xs head]
  by (simp add: list_for_each_safe_def Let_def dlist_def)

section \<open>The contract of a list\<close>

text \<open>
  What the components rely on: a representation relation with the laws of the operations they call.
  A client that starts from an empty list and adds cells that are not linked, or removes linked ones,
  gets exactly the sequence the operations describe, and a loop over the list visits exactly it.
\<close>

datatype list_op = Add_head addr | Add_tail addr | Del addr

fun op_ok :: "addr \<Rightarrow> list_op \<Rightarrow> addr list \<Rightarrow> bool" where
  "op_ok head (Add_head n) xs \<longleftrightarrow> n \<noteq> head \<and> n \<notin> set xs"
| "op_ok head (Add_tail n) xs \<longleftrightarrow> n \<noteq> head \<and> n \<notin> set xs"
| "op_ok head (Del n) xs \<longleftrightarrow> n \<in> set xs"

fun op_abs :: "list_op \<Rightarrow> addr list \<Rightarrow> addr list" where
  "op_abs (Add_head n) xs = n # xs"
| "op_abs (Add_tail n) xs = xs @ [n]"
| "op_abs (Del n) xs = remove1 n xs"

fun ops_ok :: "addr \<Rightarrow> list_op list \<Rightarrow> addr list \<Rightarrow> bool" where
  "ops_ok head [] xs \<longleftrightarrow> True"
| "ops_ok head (a # as) xs \<longleftrightarrow> op_ok head a xs \<and> ops_ok head as (op_abs a xs)"

fun run_ops :: "addr \<Rightarrow> list_op list \<Rightarrow> list_heap \<Rightarrow> list_heap" where
  "run_ops head [] h = h"
| "run_ops head (Add_head n # as) h = run_ops head as (list_add n head h)"
| "run_ops head (Add_tail n # as) h = run_ops head as (list_add_tail n head h)"
| "run_ops head (Del n # as) h = run_ops head as (list_del n h)"

locale sequence_list =
  fixes repr :: "'h \<Rightarrow> addr \<Rightarrow> addr list \<Rightarrow> bool"
    and init :: "addr \<Rightarrow> 'h \<Rightarrow> 'h"
    and add :: "addr \<Rightarrow> addr \<Rightarrow> 'h \<Rightarrow> 'h"
    and add_tail :: "addr \<Rightarrow> addr \<Rightarrow> 'h \<Rightarrow> 'h"
    and del :: "addr \<Rightarrow> 'h \<Rightarrow> 'h"
    and each :: "nat \<Rightarrow> addr \<Rightarrow> 'h \<Rightarrow> addr list option"
  assumes repr_init: "repr (init p h) p []"
    and repr_add: "repr h p xs \<Longrightarrow> n \<notin> set (p # xs) \<Longrightarrow> repr (add n p h) p (n # xs)"
    and repr_add_tail: "repr h p xs \<Longrightarrow> n \<notin> set (p # xs) \<Longrightarrow> repr (add_tail n p h) p (xs @ [n])"
    and repr_del: "repr h p xs \<Longrightarrow> n \<in> set xs \<Longrightarrow> repr (del n h) p (remove1 n xs)"
    and repr_each: "repr h p xs \<Longrightarrow> length xs \<le> k \<Longrightarrow> each k p h = Some xs"
begin

fun exec1 :: "addr \<Rightarrow> list_op \<Rightarrow> 'h \<Rightarrow> 'h" where
  "exec1 p (Add_head n) h = add n p h"
| "exec1 p (Add_tail n) h = add_tail n p h"
| "exec1 p (Del n) h = del n h"

lemma exec1_repr: "repr h p xs \<Longrightarrow> op_ok p a xs \<Longrightarrow> repr (exec1 p a h) p (op_abs a xs)"
  by (cases a) (simp_all add: repr_add repr_add_tail repr_del)

lemma execs_repr:
  "repr h p xs \<Longrightarrow> ops_ok p as xs \<Longrightarrow> repr (fold (exec1 p) as h) p (fold op_abs as xs)"
  by (induction as arbitrary: h xs) (simp_all add: exec1_repr)

lemma each_after:
  assumes "ops_ok p as []" "length (fold op_abs as []) \<le> k"
  shows "each k p (fold (exec1 p) as (init p h)) = Some (fold op_abs as [])"
  using execs_repr [OF repr_init assms(1)] assms(2) repr_each by blast

end

interpretation dl: sequence_list dlist INIT_LIST_HEAD list_add list_add_tail list_del list_for_each
  by unfold_locales
    (use dlist_init dlist_add dlist_add_tail dlist_del list_for_each_dlist in blast)+

lemma run_ops_fold: "run_ops head as h = fold (dl.exec1 head) as h"
  by (induction head as h rule: run_ops.induct) simp_all

text \<open>
  C23. The pointer list implements a sequence: after \<^verbatim>\<open>INIT_LIST_HEAD\<close> and any series of \<^verbatim>\<open>list_add\<close> and
  \<^verbatim>\<open>list_add_tail\<close> of cells that are not linked and \<^verbatim>\<open>list_del\<close> of linked ones, \<^verbatim>\<open>list_for_each\<close> stops and
  visits exactly the cells the series describes, in order; the backward loop visits them in reverse; and
  deleting the cells that satisfy a test inside \<^verbatim>\<open>list_for_each_safe\<close> leaves exactly the others.
\<close>

theorem list_is_sequence:
  assumes "ops_ok head ops []" "length (fold op_abs ops []) \<le> n"
  shows "let h = run_ops head ops (INIT_LIST_HEAD head h0); xs = fold op_abs ops [] in
    list_for_each n head h = Some xs \<and> list_for_each_prev n head h = Some (rev xs) \<and>
    (list_empty head h \<longleftrightarrow> xs = []) \<and>
    (\<forall>P. \<exists>h'. list_for_each_safe (del_if P) n head h = Some h' \<and>
       list_for_each n head h' = Some (filter (\<lambda>x. \<not> P x) xs))"
proof -
  let ?h = "run_ops head ops (INIT_LIST_HEAD head h0)" and ?xs = "fold op_abs ops []"
  have d: "dlist ?h head ?xs"
    using dl.execs_repr [OF dl.repr_init assms(1)] by (simp add: run_ops_fold)
  have "\<exists>h'. list_for_each_safe (del_if P) n head ?h = Some h' \<and>
      list_for_each n head h' = Some (filter (\<lambda>x. \<not> P x) ?xs)" for P
    using list_for_each_safe_del [OF d assms(2), of P] assms(2) list_for_each_dlist
    by (meson le_trans length_filter_le)
  then show ?thesis
    using list_for_each_dlist [OF d assms(2)] list_for_each_prev_dlist [OF d assms(2)] dlist_empty_iff [OF d]
    by (simp add: Let_def)
qed

lemma list_is_sequence_witness:
  "list_for_each 5 9 (run_ops 9 [Add_head 1, Add_tail 2, Add_head 3, Del 1]
     (INIT_LIST_HEAD 9 \<lparr>lnext = (\<lambda>_. 0), lprev = (\<lambda>_. 0)\<rparr>)) = Some [3, 2]"
  using list_is_sequence [of 9 "[Add_head 1, Add_tail 2, Add_head 3, Del 1]" 5 "\<lparr>lnext = (\<lambda>_. 0), lprev = (\<lambda>_. 0)\<rparr>"]
  by (simp add: Let_def)

text \<open>Joining two lists.\<close>

lemma dlist_splice:
  assumes d: "dlist h head xs" "dlist h l ys" and dj: "set (head # xs) \<inter> set (l # ys) = {}"
  shows "dlist (list_splice l head h) head (ys @ xs)"
proof (cases ys)
  case Nil
  then show ?thesis using d dlist_empty_iff [OF d(2)] by (simp add: list_splice_def)
next
  case (Cons y ys')
  define z where z: "z = last ys"
  define q where q: "q = hd (xs @ [head])"
  have ne: "\<not> list_empty l h" using dlist_empty_iff [OF d(2)] Cons by simp
  have ptr: "lnext h l = y" "lprev h l = z" "lnext h head = q"
    using d Cons seg_last [of h l ys l] seg_first [of h head xs head] z q by (auto simp: dlist_def)
  let ?h = "list_splice_at l head h"
  have zin: "z \<in> set ys" using Cons z by simp
  have qout: "q \<notin> set ys" using dj q Cons by (cases xs) auto
  have hn: "lnext ?h = (lnext h)(head := y, z := q)" and hp: "lprev ?h = (lprev h)(y := head, q := z)"
    using ptr by (simp_all add: list_splice_at_def set_next_def set_prev_def Let_def)
  have hz: "head \<noteq> z" "y \<noteq> q" "head \<notin> set ys" "distinct ys" using zin qout dj d(2) Cons by (auto simp: dlist_def)
  have "seg ?h head ys q"
  proof (cases ys' rule: rev_cases)
    case Nil
    then show ?thesis using Cons z hz by (simp add: hn hp)
  next
    case (snoc ws w)
    with Cons z have w: "w = z" "ys = y # ws @ [z]" by simp_all
    with d(2) have "seg h y ws z" by (simp add: dlist_def)
    then have "seg ?h y ws z"
      by (rule seg_frame) (use w hz qout in \<open>auto simp: hn hp\<close>)
    then show ?thesis using w hz by (auto simp: hn hp)
  qed
  moreover have "seg ?h q xs' head" if xs: "xs = q # xs'" for xs'
  proof (rule seg_frame [of h])
    show "seg h q xs' head" using d(1) xs by (simp add: dlist_def)
  qed (use xs zin Cons dj d(1) in \<open>auto simp: hn hp dlist_def\<close>)
  ultimately have "seg ?h head (ys @ xs) head"
    using q by (cases xs) auto
  then show ?thesis using ne d dj by (auto simp: list_splice_def dlist_def)
qed

end
