(* ===== verification/Fms_Hlist.thy ===== *)
theory Fms_Hlist
  imports Fms_List
begin

text \<open>
  The list with a single head of \<^verbatim>\<open>include/list.h\<close> (\<^verbatim>\<open>hlist\<close>): a node points to the next node and to the place that points to it, which is
  the head's \<^verbatim>\<open>first\<close> or another node's \<^verbatim>\<open>next\<close>. The operations are shown to be those of a sequence.
\<close>

section \<open>The code\<close>

text \<open>A place that holds a pointer to a node; \<^verbatim>\<open>pprev\<close> is such a place or null.\<close>

datatype place = First addr | Next addr

record hlist_heap =
  hl_at :: "place \<Rightarrow> addr"
  hl_pprev :: "addr \<Rightarrow> place option"

definition set_at :: "place \<Rightarrow> addr \<Rightarrow> hlist_heap \<Rightarrow> hlist_heap" where
  "set_at l v h = h\<lparr>hl_at := (hl_at h)(l := v)\<rparr>"

definition set_pprev :: "addr \<Rightarrow> place option \<Rightarrow> hlist_heap \<Rightarrow> hlist_heap" where
  "set_pprev n v h = h\<lparr>hl_pprev := (hl_pprev h)(n := v)\<rparr>"

definition INIT_HLIST_HEAD :: "addr \<Rightarrow> hlist_heap \<Rightarrow> hlist_heap" where
  "INIT_HLIST_HEAD p h = set_at (First p) 0 h"

definition INIT_HLIST_NODE :: "addr \<Rightarrow> hlist_heap \<Rightarrow> hlist_heap" where
  "INIT_HLIST_NODE n h = set_pprev n None (set_at (Next n) 0 h)"

definition hlist_unhashed :: "addr \<Rightarrow> hlist_heap \<Rightarrow> bool" where
  "hlist_unhashed n h \<longleftrightarrow> hl_pprev h n = None"

definition hlist_empty :: "addr \<Rightarrow> hlist_heap \<Rightarrow> bool" where
  "hlist_empty p h \<longleftrightarrow> hl_at h (First p) = 0"

definition hlist_unlink :: "addr \<Rightarrow> hlist_heap \<Rightarrow> hlist_heap res" where
  "hlist_unlink n h =
     (let next = hl_at h (Next n) in
      rbind (deref (hl_pprev h n)) (\<lambda>l.
        let h1 = set_at l next h in Inr (if next \<noteq> 0 then set_pprev next (Some l) h1 else h1)))"

definition hlist_del :: "addr \<Rightarrow> hlist_heap \<Rightarrow> hlist_heap res" where
  "hlist_del n h = rbind (hlist_unlink n h) (\<lambda>h1. Inr (set_pprev n None (set_at (Next n) LIST_POISON h1)))"

definition hlist_del_init :: "addr \<Rightarrow> hlist_heap \<Rightarrow> hlist_heap res" where
  "hlist_del_init n h =
     (if hl_pprev h n \<noteq> None then rbind (hlist_unlink n h) (\<lambda>h1. Inr (INIT_HLIST_NODE n h1)) else Inr h)"

definition hlist_add_head :: "addr \<Rightarrow> addr \<Rightarrow> hlist_heap \<Rightarrow> hlist_heap" where
  "hlist_add_head n p h =
     (let first = hl_at h (First p); h1 = set_at (Next n) first h;
          h2 = (if first \<noteq> 0 then set_pprev first (Some (Next n)) h1 else h1)
      in set_pprev n (Some (First p)) (set_at (First p) n h2))"

definition hlist_add_before :: "addr \<Rightarrow> addr \<Rightarrow> hlist_heap \<Rightarrow> hlist_heap res" where
  "hlist_add_before n next h =
     (let h1 = set_pprev n (hl_pprev h next) h; h2 = set_at (Next n) next h1; h3 = set_pprev next (Some (Next n)) h2
      in rbind (deref (hl_pprev h3 n)) (\<lambda>l. Inr (set_at l n h3)))"

text \<open>It is the second node that is put behind the first.\<close>

definition hlist_add_after :: "addr \<Rightarrow> addr \<Rightarrow> hlist_heap \<Rightarrow> hlist_heap" where
  "hlist_add_after n next h =
     (let h1 = set_at (Next next) (hl_at h (Next n)) h; h2 = set_at (Next n) next h1; h3 = set_pprev next (Some (Next n)) h2;
          after = hl_at h3 (Next next)
      in if after \<noteq> 0 then set_pprev after (Some (Next next)) h3 else h3)"

text \<open>The nodes \<^verbatim>\<open>hlist_for_each\<close> visits, from the place \<open>l\<close> on, for at most \<open>fuel\<close> nodes.\<close>

fun hwalk :: "nat \<Rightarrow> hlist_heap \<Rightarrow> place \<Rightarrow> addr list option" where
  "hwalk fuel h l =
     (if hl_at h l = 0 then Some []
      else case fuel of 0 \<Rightarrow> None | Suc k \<Rightarrow> map_option (\<lambda>xs. hl_at h l # xs) (hwalk k h (Next (hl_at h l))))"

definition hlist_for_each :: "nat \<Rightarrow> addr \<Rightarrow> hlist_heap \<Rightarrow> addr list option" where
  "hlist_for_each fuel p h = hwalk fuel h (First p)"

declare hwalk.simps [simp del]

section \<open>Chains\<close>

text \<open>\<open>hseg h l xs\<close>: from the place \<open>l\<close> the nodes \<open>xs\<close> follow; \<open>hend l xs\<close> is the place after them.\<close>

fun hseg :: "hlist_heap \<Rightarrow> place \<Rightarrow> addr list \<Rightarrow> bool" where
  "hseg h l [] \<longleftrightarrow> True"
| "hseg h l (x # xs) \<longleftrightarrow> hl_at h l = x \<and> x \<noteq> 0 \<and> hl_pprev h x = Some l \<and> hseg h (Next x) xs"

definition hend :: "place \<Rightarrow> addr list \<Rightarrow> place" where
  "hend l xs = (if xs = [] then l else Next (last xs))"

definition hlist :: "hlist_heap \<Rightarrow> addr \<Rightarrow> addr list \<Rightarrow> bool" where
  "hlist h p xs \<longleftrightarrow> hseg h (First p) xs \<and> hl_at h (hend (First p) xs) = 0 \<and> distinct xs"

lemma hend_simps [simp]: "hend l [] = l" "hend l (x # xs) = hend (Next x) xs" "hend l (xs @ ys) = hend (hend l xs) ys"
  by (auto simp: hend_def)

lemma hseg_append [simp]: "hseg h l (xs @ ys) \<longleftrightarrow> hseg h l xs \<and> hseg h (hend l xs) ys"
  by (induction xs arbitrary: l) auto

text \<open>The places a chain goes through, and that it depends on nothing else.\<close>

fun hplaces :: "place \<Rightarrow> addr list \<Rightarrow> place set" where
  "hplaces l [] = {}"
| "hplaces l (x # xs) = insert l (hplaces (Next x) xs)"

lemma hplaces_iff: "k \<in> hplaces l xs \<longleftrightarrow> xs \<noteq> [] \<and> k = l \<or> k \<in> Next ` set (butlast xs)"
  by (induction xs arbitrary: l) auto

lemma hend_places: "distinct xs \<Longrightarrow> l \<notin> Next ` set xs \<Longrightarrow> hend l xs \<notin> hplaces l xs"
proof (induction xs arbitrary: l)
  case (Cons x xs)
  then have "hend (Next x) xs \<notin> hplaces (Next x) xs" by auto
  moreover have "hend (Next x) xs \<noteq> l" using Cons.prems by (auto simp: hend_def)
  ultimately show ?case by simp
qed simp

lemma hseg_cong:
  "\<forall>k \<in> hplaces l xs. hl_at h' k = hl_at h k \<Longrightarrow> \<forall>x \<in> set xs. hl_pprev h' x = hl_pprev h x \<Longrightarrow> hseg h' l xs = hseg h l xs"
  by (induction xs arbitrary: l) auto

lemma hseg_nonnull: "hseg h l xs \<Longrightarrow> 0 \<notin> set xs"
  by (induction xs arbitrary: l) auto

lemmas hl_code = set_at_def set_pprev_def INIT_HLIST_HEAD_def INIT_HLIST_NODE_def hlist_unlink_def Let_def

text \<open>A chain to its end.\<close>

definition joins :: "hlist_heap \<Rightarrow> place \<Rightarrow> addr list \<Rightarrow> bool" where
  "joins h l ys \<longleftrightarrow> hseg h l ys \<and> hl_at h (hend l ys) = 0"

lemma joins_Cons: "joins h l (y # ys) \<longleftrightarrow> hl_at h l = y \<and> y \<noteq> 0 \<and> hl_pprev h y = Some l \<and> joins h (Next y) ys"
  by (simp add: joins_def)

lemma joins_nonnull: "joins h l ys \<Longrightarrow> 0 \<notin> set ys"
  by (auto simp: joins_def dest: hseg_nonnull)

lemma joins_head: "joins h l ys \<Longrightarrow> hl_at h l = (if ys = [] then 0 else hd ys)"
  by (cases ys) (simp_all add: joins_def)

lemma joins_first: "joins h l ys \<Longrightarrow> ys \<noteq> [] \<Longrightarrow> hl_pprev h (hd ys) = Some l"
  by (cases ys) (simp_all add: joins_def)

lemma hlist_split: "hlist h p (xs @ ys) \<longleftrightarrow> hseg h (First p) xs \<and> joins h (hend (First p) xs) ys \<and> distinct (xs @ ys)"
  by (auto simp: hlist_def joins_def)

lemma hlist_joins: "hlist h p xs \<longleftrightarrow> joins h (First p) xs \<and> distinct xs"
  using hlist_split [of h p "[]" xs] by simp

lemma first_places [simp]: "First p \<notin> Next ` A"
  by auto

lemma hseg_before:
  assumes "hseg h (First p) xs" "distinct xs" "\<forall>x \<in> set xs. hl_pprev h' x = hl_pprev h x"
    "\<forall>k. k \<noteq> hend (First p) xs \<longrightarrow> k \<notin> Next ` A \<longrightarrow> hl_at h' k = hl_at h k" "A \<inter> set xs = {}"
  shows "hseg h' (First p) xs"
proof -
  have "hl_at h' k = hl_at h k" if "k \<in> hplaces (First p) xs" for k
  proof -
    have "k \<noteq> hend (First p) xs" using hend_places [OF assms(2) first_places, of p] that by auto
    moreover have "k \<notin> Next ` A" using that assms(5) by (auto simp: hplaces_iff dest: in_set_butlastD)
    ultimately show ?thesis using assms(4) by blast
  qed
  then show ?thesis using assms(1,3) hseg_cong [of "First p" xs h' h] by blast
qed

lemma joins_cong:
  assumes "joins h l ys" "hl_at h' l' = hl_at h l" "ys \<noteq> [] \<Longrightarrow> hl_pprev h' (hd ys) = Some l'"
    "\<forall>y \<in> set ys. hl_at h' (Next y) = hl_at h (Next y)" "\<forall>y \<in> set (tl ys). hl_pprev h' y = hl_pprev h y"
  shows "joins h' l' ys"
proof (cases ys)
  case Nil
  then show ?thesis using assms by (simp add: joins_def)
next
  case (Cons y ys')
  have "\<forall>k \<in> hplaces (Next y) ys'. hl_at h' k = hl_at h k" using assms(4) Cons in_set_butlastD [of _ ys'] by (auto simp: hplaces_iff)
  then have "hseg h' (Next y) ys' = hseg h (Next y) ys'" using assms(5) Cons by (intro hseg_cong) auto
  moreover have "hl_at h' (hend (Next y) ys') = hl_at h (hend (Next y) ys')" using assms(4) Cons by (auto simp: hend_def)
  ultimately show ?thesis using assms Cons by (simp add: joins_def)
qed

lemma hend_fresh: "distinct (xs @ ys) \<Longrightarrow> \<forall>y \<in> set ys. hend (First p) xs \<noteq> Next y"
proof (cases "xs = []")
  case False
  assume "distinct (xs @ ys)"
  then have "last xs \<notin> set ys" using last_in_set [OF False] by auto
  then show ?thesis using False by (auto simp: hend_def)
qed auto

lemma hd_tl_distinct: "distinct ys \<Longrightarrow> ys = [] \<or> hd ys \<in> set ys \<and> hd ys \<notin> set (tl ys) \<and> set (tl ys) \<subseteq> set ys"
  by (cases ys) auto

section \<open>The operations are those of a sequence\<close>

lemma hlist_init: "hlist (INIT_HLIST_HEAD p h) p []" "hlist_unhashed n (INIT_HLIST_NODE n h)"
  by (simp_all add: hlist_def hl_code hlist_unhashed_def)

lemma hlist_empty_iff: "hlist h p xs \<Longrightarrow> hlist_empty p h \<longleftrightarrow> xs = []"
  by (cases xs) (auto simp: hlist_def hlist_empty_def)

lemma hlist_add_head_seq:
  assumes "hlist h p xs" "n \<noteq> 0" "n \<notin> set xs"
  shows "hlist (hlist_add_head n p h) p (n # xs)"
proof -
  have j: "joins h (First p) xs" and d: "distinct xs" using assms(1) by (simp_all add: hlist_joins)
  let ?h = "hlist_add_head n p h"
  have "joins ?h (Next n) xs"
  proof (rule joins_cong [OF j])
    show "xs \<noteq> [] \<Longrightarrow> hl_pprev ?h (hd xs) = Some (Next n)"
      using joins_head [OF j] joins_nonnull [OF j] assms(3) by (cases xs) (auto simp: hlist_add_head_def hl_code)
    show "\<forall>y \<in> set (tl xs). hl_pprev ?h y = hl_pprev h y"
      using joins_head [OF j] d assms(3) by (cases xs) (auto simp: hlist_add_head_def hl_code)
  qed (use assms in \<open>auto simp: hlist_add_head_def hl_code\<close>)
  then show ?thesis using assms d by (auto simp: hlist_joins joins_Cons hlist_add_head_def hl_code)
qed

text \<open>What unlinking changes: the place before the node and the node after it.\<close>

lemma hlist_unlink_seq:
  assumes "hlist h p (xs @ n # ys)"
  shows "\<exists>h'. hlist_unlink n h = Inr h' \<and> hlist h' p (xs @ ys) \<and> hl_pprev h' n = hl_pprev h n"
proof -
  let ?l = "hend (First p) xs" and ?next = "hl_at h (Next n)"
  have x: "hseg h (First p) xs" and l: "hl_pprev h n = Some ?l" "hl_at h ?l = n" and j: "joins h (Next n) ys" and d: "distinct (xs @ n # ys)"
    using assms by (auto simp: hlist_split joins_Cons)
  define h' where "h' = (if ?next \<noteq> 0 then set_pprev ?next (Some ?l) (set_at ?l ?next h) else set_at ?l ?next h)"
  have nx: "?next = (if ys = [] then 0 else hd ys)" using joins_head [OF j] .
  have at: "hl_at h' = (hl_at h)(?l := ?next)" by (simp add: h'_def hl_code)
  have pp: "hl_pprev h' = (if ys = [] then hl_pprev h else (hl_pprev h)(hd ys := Some ?l))"
    using joins_nonnull [OF j] nx by (cases ys) (auto simp: h'_def hl_code)
  have ln: "\<forall>y \<in> set (n # ys). ?l \<noteq> Next y" by (rule hend_fresh [OF d])
  have t: "ys = [] \<or> hd ys \<in> set ys \<and> hd ys \<notin> set (tl ys) \<and> set (tl ys) \<subseteq> set ys" using d by (intro hd_tl_distinct) simp
  have "joins h' ?l ys"
    by (rule joins_cong [OF j]) (use at pp ln t in \<open>auto split: if_splits\<close>)
  moreover have "hseg h' (First p) xs"
    by (rule hseg_before [OF x, where A = "{}"]) (use at pp d in \<open>auto split: if_splits\<close>)
  moreover have "hl_pprev h' n = hl_pprev h n" using pp d by (cases ys) auto
  ultimately show ?thesis using d l by (auto simp: hlist_split hlist_unlink_def h'_def Let_def)
qed


text \<open>A node that is out of the list does not matter to it.\<close>

lemma hlist_outside:
  assumes "hlist h p xs" "n \<notin> set xs"
  shows "hlist (set_at (Next n) v h) p xs" "hlist (set_pprev n w h) p xs"
proof -
  have n: "Next n \<notin> hplaces (First p) xs" "Next n \<noteq> hend (First p) xs"
    using assms(2) by (auto simp: hplaces_iff hend_def dest: in_set_butlastD)
  have "hseg (set_at (Next n) v h) (First p) xs = hseg h (First p) xs" by (rule hseg_cong) (use n in \<open>auto simp: hl_code\<close>)
  then show "hlist (set_at (Next n) v h) p xs" using assms n by (auto simp: hlist_def hl_code)
  have "hseg (set_pprev n w h) (First p) xs = hseg h (First p) xs" by (rule hseg_cong) (use assms(2) in \<open>auto simp: hl_code\<close>)
  then show "hlist (set_pprev n w h) p xs" using assms by (auto simp: hlist_def hl_code)
qed

lemma hlist_del_seq:
  assumes "hlist h p (xs @ n # ys)"
  shows "\<exists>h'. hlist_del n h = Inr h' \<and> hlist h' p (xs @ ys) \<and> hlist_unhashed n h'"
    "\<exists>h'. hlist_del_init n h = Inr h' \<and> hlist h' p (xs @ ys) \<and> hlist_unhashed n h'"
proof -
  obtain h' where u: "hlist_unlink n h = Inr h'" "hlist h' p (xs @ ys)" "hl_pprev h' n = hl_pprev h n" using hlist_unlink_seq [OF assms] by blast
  have n: "n \<notin> set (xs @ ys)" "hl_pprev h n \<noteq> None" using assms by (auto simp: hlist_split joins_Cons)
  have o: "hlist (set_pprev n None (set_at (Next n) v h')) p (xs @ ys)" for v
    using hlist_outside n(1) u(2) by blast
  show "\<exists>h'. hlist_del n h = Inr h' \<and> hlist h' p (xs @ ys) \<and> hlist_unhashed n h'"
    using o u(1) by (auto simp: hlist_del_def hlist_unhashed_def set_pprev_def)
  show "\<exists>h'. hlist_del_init n h = Inr h' \<and> hlist h' p (xs @ ys) \<and> hlist_unhashed n h'"
    using o u(1) n(2) by (auto simp: hlist_del_init_def INIT_HLIST_NODE_def hlist_unhashed_def set_pprev_def)
qed

lemma hlist_del_init_unhashed: "hlist_unhashed n h \<Longrightarrow> hlist_del_init n h = Inr h"
  by (simp add: hlist_unhashed_def hlist_del_init_def)

lemma hlist_del_unhashed: "hlist_unhashed n h \<Longrightarrow> hlist_del n h = Inl Null_deref"
  by (simp add: hlist_unhashed_def hlist_del_def hlist_unlink_def Let_def)

lemma hlist_add_before_seq:
  assumes "hlist h p (xs @ m # ys)" "n \<noteq> 0" "n \<notin> set (xs @ m # ys)"
  shows "\<exists>h'. hlist_add_before n m h = Inr h' \<and> hlist h' p (xs @ n # m # ys)"
proof -
  let ?l = "hend (First p) xs"
  have x: "hseg h (First p) xs" and m: "hl_pprev h m = Some ?l" "hl_at h ?l = m" "m \<noteq> 0" and j: "joins h (Next m) ys"
    and d: "distinct (xs @ m # ys)" using assms by (auto simp: hlist_split joins_Cons)
  define h' where "h' = set_at ?l n (set_pprev m (Some (Next n)) (set_at (Next n) m (set_pprev n (Some ?l) h)))"
  have at: "hl_at h' = (hl_at h)(Next n := m, ?l := n)" and pp: "hl_pprev h' = (hl_pprev h)(n := Some ?l, m := Some (Next n))"
    by (simp_all add: h'_def hl_code)
  have ln: "\<forall>y \<in> set (n # m # ys). ?l \<noteq> Next y" by (rule hend_fresh) (use d assms(3) in auto)
  have t: "ys = [] \<or> hd ys \<in> set ys \<and> hd ys \<notin> set (tl ys) \<and> set (tl ys) \<subseteq> set ys" using d by (intro hd_tl_distinct) simp
  have "joins h' (Next m) ys"
    by (rule joins_cong [OF j]) (use at pp ln t d assms(3) joins_first [OF j] in auto)
  moreover have "hseg h' (First p) xs"
    by (rule hseg_before [OF x, where A = "{n}"]) (use at pp d assms(3) in auto)
  ultimately have "hlist h' p (xs @ n # m # ys)" using at pp ln d assms m by (auto simp: hlist_split joins_Cons)
  moreover have "hlist_add_before n m h = Inr h'" using m assms(3) by (auto simp: hlist_add_before_def h'_def set_pprev_def set_at_def Let_def)
  ultimately show ?thesis by blast
qed

lemma hlist_add_after_seq:
  assumes "hlist h p (xs @ n # ys)" "m \<noteq> 0" "m \<notin> set (xs @ n # ys)"
  shows "hlist (hlist_add_after n m h) p (xs @ n # m # ys)"
proof -
  let ?l = "hend (First p) xs" and ?h = "hlist_add_after n m h"
  have x: "hseg h (First p) xs" and n: "hl_pprev h n = Some ?l" "hl_at h ?l = n" "n \<noteq> 0" and j: "joins h (Next n) ys"
    and d: "distinct (xs @ n # ys)" using assms by (auto simp: hlist_split joins_Cons)
  have nx: "hl_at h (Next n) = (if ys = [] then 0 else hd ys)" using joins_head [OF j] .
  have nm: "n \<noteq> m" using assms(3) by auto
  have at: "hl_at ?h = (hl_at h)(Next m := hl_at h (Next n), Next n := m)" using nm by (auto simp: hlist_add_after_def hl_code)
  have pp: "hl_pprev ?h = (if ys = [] then (hl_pprev h)(m := Some (Next n)) else (hl_pprev h)(m := Some (Next n), hd ys := Some (Next m)))"
    using nx nm joins_nonnull [OF j] by (cases ys) (auto simp: hlist_add_after_def hl_code)
  have ln: "\<forall>y \<in> set (n # m # ys). ?l \<noteq> Next y" by (rule hend_fresh) (use d assms(3) in auto)
  have t: "ys = [] \<or> hd ys \<in> set ys \<and> hd ys \<notin> set (tl ys) \<and> set (tl ys) \<subseteq> set ys" using d by (intro hd_tl_distinct) simp
  have "joins ?h (Next m) ys"
    by (rule joins_cong [OF j]) (use at pp ln t d assms(3) nm in auto)
  moreover have "hseg ?h (First p) xs"
    by (rule hseg_before [OF x, where A = "{n, m}"]) (use at pp d t assms(3) in auto)
  ultimately show ?thesis using at pp ln d assms n nm by (cases ys) (auto simp: hlist_split joins_Cons)
qed

text \<open>The loop visits the nodes of the list, in order, and ends.\<close>

lemma hwalk_joins: "joins h l xs \<Longrightarrow> length xs \<le> fuel \<Longrightarrow> hwalk fuel h l = Some xs"
proof (induction xs arbitrary: l fuel)
  case Nil
  then show ?case by (subst hwalk.simps) (simp add: joins_def)
next
  case (Cons x xs)
  then obtain k where "fuel = Suc k" "length xs \<le> k" by (cases fuel) auto
  with Cons show ?case by (subst hwalk.simps) (simp add: joins_Cons)
qed

lemma hlist_for_each_seq: "hlist h p xs \<Longrightarrow> length xs \<le> fuel \<Longrightarrow> hlist_for_each fuel p h = Some xs"
  by (simp add: hlist_for_each_def hlist_joins hwalk_joins)

end
