(* ===== verification/Fms_Config.thy ===== *)
theory Fms_Config
  imports Fms_Queue
begin

text \<open>
  Configuration and start-up of the plug-ins: the agents' configuration files and their update at run
  time (\<^verbatim>\<open>evt_modules/evtlib/evt_agent.c\<close>), the event sources' interval (\<^verbatim>\<open>evt_src.c\<close>), the loading of
  the plug-in directory (\<^verbatim>\<open>fmd_module.c\<close>) and the one-second timer loop of \<^verbatim>\<open>fms/main.c\<close>.

  The file system is a function from paths to what \<^verbatim>\<open>fopen(path, "r")\<close> finds there.
\<close>

section \<open>Agent configuration\<close>

datatype fopen_res = Opened string | No_entry | Open_error

definition MAXLINE :: nat where "MAXLINE = 1024"

definition NAME_LEN :: nat where "NAME_LEN = 128"

definition WHITESPACE :: "char list" where
  "WHITESPACE = [CHR '' '', CHR 0x09, CHR 0x0A, CHR 0x0D, CHR 0x0C]"

definition DELIMS :: "char list" where
  "DELIMS = [CHR '','', CHR '':'', CHR '' '', CHR 0x09, CHR 0x0A, CHR 0x0D, CHR 0x0C]"

definition COMMENTCHAR :: char where "COMMENTCHAR = CHR ''#''"

definition AGENT_KEY_EVT_HANDLE_MODE :: string where
  "AGENT_KEY_EVT_HANDLE_MODE = ''event_handle_mode''"

text \<open>\<^verbatim>\<open>conf_add_sub\<close> links the new subscription at the head.\<close>

definition conf_add_sub :: "string \<Rightarrow> string list \<Rightarrow> string list" where
  "conf_add_sub eclass subs = eclass # subs"

text \<open>
  \<^verbatim>\<open>strrchr(path, '.'); sprintf(pdot + 1, "conf")\<close> in the caller's buffer of 128 bytes.
\<close>

definition conf_path :: "string \<Rightarrow> string res" where
  "conf_path so_full_path =
     rbind (deref (strrchr so_full_path (CHR ''.''))) (\<lambda>pdot.
       let conf_name = take (length so_full_path - length pdot + 1) so_full_path @ ''conf''
       in if NAME_LEN \<le> length conf_name then Inl Buf_overflow else Inr conf_name)"

text \<open>
  One line of \<^verbatim>\<open>agent_module_conf\<close>: the last character is cut off, newline or not, and the rest from
  column 10 on is the class.
\<close>

definition sub_line :: "string \<Rightarrow> string list \<Rightarrow> string list" where
  "sub_line buf subs =
     (if strncmp_eq buf ''subscribe '' 10 then conf_add_sub (drop 10 (butlast buf)) subs else subs)"

definition agent_module_conf :: "(string \<Rightarrow> fopen_res) \<Rightarrow> string \<Rightarrow> agent_module \<Rightarrow> (int \<times> agent_module) res" where
  "agent_module_conf fs so_full_path m =
     rbind (conf_path so_full_path) (\<lambda>conf_name.
       let m1 = m\<lparr>am_list_eclass := []\<rparr>
       in case fs conf_name of
         Opened txt \<Rightarrow> Inr (0, m1\<lparr>am_list_eclass := fold sub_line (fgets_lines NAME_LEN txt) []\<rparr>)
       | _ \<Rightarrow> Inr (-1, m1))"

text \<open>\<^verbatim>\<open>set_evt_handle_mode\<close> and the table of directives. The argument is the \<^verbatim>\<open>evt_handle_mode\<close> field.\<close>

definition mode_table :: "(string \<times> int) list" where
  "mode_table = [(''manual'', EVENT_HANDLE_MODE_MANUAL), (''auto'', EVENT_HANDLE_MODE_AUTO),
     (''define'', EVENT_HANDLE_MODE_DEFINE)]"

definition set_evt_handle_mode :: "int \<Rightarrow> string \<Rightarrow> int \<times> int" where
  "set_evt_handle_mode conf opt =
     (case map_of mode_table opt of Some v \<Rightarrow> (0, v) | None \<Rightarrow> (-1, conf))"

definition g_directives :: "(string \<times> (int \<Rightarrow> string \<Rightarrow> int \<times> int)) list" where
  "g_directives = [(AGENT_KEY_EVT_HANDLE_MODE, set_evt_handle_mode)]"

definition get_directive :: "string \<Rightarrow> (int \<Rightarrow> string \<Rightarrow> int \<times> int) option" where
  "get_directive name = map_of g_directives name"

text \<open>The body of the loop of \<^verbatim>\<open>parse_config\<close> on one line, with the error count and the mode.\<close>

definition parse_line :: "string \<Rightarrow> int \<times> int \<Rightarrow> int \<times> int" where
  "parse_line buf st =
     (let (errcount, mode) = st;
          bp = takeWhile (\<lambda>c. c \<noteq> COMMENTCHAR) (drop (strspn buf WHITESPACE) buf)
      in if bp = [] then st
         else let dirlength = strcspn bp WHITESPACE in
           case get_directive (take dirlength bp) of
             None \<Rightarrow> (errcount + 1, mode)
           | Some set_func \<Rightarrow>
               let bp2 = drop dirlength bp; bp3 = drop (strspn bp2 DELIMS) bp2
               in if bp3 = [] then st
                  else let (rc, mode') = set_func mode (take (strcspn bp3 DELIMS) bp3)
                       in (if rc \<noteq> 0 then errcount + 1 else errcount, mode'))"

definition parse_config :: "int \<Rightarrow> fopen_res \<Rightarrow> int \<times> int" where
  "parse_config mode f =
     (case f of
        No_entry \<Rightarrow> (0, mode)
      | Open_error \<Rightarrow> (-1, mode)
      | Opened txt \<Rightarrow>
          let (errcount, mode') = fold parse_line (fgets_lines MAXLINE txt) (0, mode)
          in (if errcount \<noteq> 0 then -1 else 0, mode'))"

text \<open>\<^verbatim>\<open>so_full_path\<close> up to its last dot, followed by \<^verbatim>\<open>_mod.conf\<close>, in a buffer of \<^verbatim>\<open>MAXLINE\<close> bytes.\<close>

definition mod_conf_path :: "string \<Rightarrow> string res" where
  "mod_conf_path so_full_path =
     rbind (deref (strrchr so_full_path (CHR ''.''))) (\<lambda>pdot.
       let conf_name = take (length so_full_path - length pdot) so_full_path @ ''_mod.conf''
       in if MAXLINE \<le> length conf_name then Inl Buf_overflow else Inr conf_name)"

definition agent_module_conf2 :: "(string \<Rightarrow> fopen_res) \<Rightarrow> string \<Rightarrow> agent_module \<Rightarrow> (int \<times> agent_module) res" where
  "agent_module_conf2 fs so_full_path m =
     rbind (mod_conf_path so_full_path) (\<lambda>conf_name.
       let (rc, mode) = parse_config EVENT_HANDLE_MODE_AUTO (fs conf_name)
       in Inr (if rc \<noteq> 0 then -1 else 0, m\<lparr>am_evt_handle_mode := mode\<rparr>))"

text \<open>
  \<^verbatim>\<open>update_conf\<close>. \<open>io_create\<close>, \<open>io_mkstemp\<close>, \<open>io_fdopen\<close> and \<open>io_rename\<close> say whether those calls succeed.
  The loop keeps the mode, the text written to the temporary file and the number of lines replaced;
  \<open>None\<close> is the jump to \<^verbatim>\<open>out\<close>. When \<^verbatim>\<open>rename\<close> fails, \<^verbatim>\<open>out\<close> closes both streams a second time.
\<close>

record upd_io =
  io_create :: bool
  io_mkstemp :: bool
  io_fdopen :: bool
  io_rename :: bool

definition upd_line ::
  "(int \<Rightarrow> string \<Rightarrow> int \<times> int) \<Rightarrow> string \<Rightarrow> string \<Rightarrow> string \<Rightarrow> int \<times> string \<times> nat \<Rightarrow> (int \<times> string \<times> nat) option" where
  "upd_line set_func direct val buf st =
     (let (mode, out, direct_update) = st;
          bp = drop (strspn buf WHITESPACE) buf
      in if bp = [] \<or> hd bp = COMMENTCHAR then Some (mode, out @ buf, direct_update)
         else if take (strcspn bp WHITESPACE) bp = direct then
           let (rc, mode') = set_func mode val
           in if rc \<noteq> 0 then None
              else Some (mode', out @ direct @ '' '' @ val @ [CHR 0x0A], direct_update + 1)
         else Some (mode, out @ buf, direct_update))"

fun upd_lines ::
  "(int \<Rightarrow> string \<Rightarrow> int \<times> int) \<Rightarrow> string \<Rightarrow> string \<Rightarrow> string list \<Rightarrow> int \<times> string \<times> nat \<Rightarrow> (int \<times> string \<times> nat) option" where
  "upd_lines set_func direct val [] st = Some st"
| "upd_lines set_func direct val (l # ls) st =
     (case upd_line set_func direct val l st of
        None \<Rightarrow> None | Some st' \<Rightarrow> upd_lines set_func direct val ls st')"

definition upd_finish ::
  "(int \<Rightarrow> string \<Rightarrow> int \<times> int) \<Rightarrow> string \<Rightarrow> string \<Rightarrow> int \<times> string \<times> nat \<Rightarrow> (int \<times> string) option" where
  "upd_finish set_func direct val st =
     (let (mode, out, direct_update) = st
      in if direct_update = 0 then
           let (rc, mode') = set_func mode val
           in if rc \<noteq> 0 then None else Some (mode', out @ direct @ '' '' @ val @ [CHR 0x0A])
         else Some (mode, out))"

definition update_text ::
  "(int \<Rightarrow> string \<Rightarrow> int \<times> int) \<Rightarrow> string \<Rightarrow> string \<Rightarrow> int \<Rightarrow> string \<Rightarrow> (int \<times> string) option" where
  "update_text set_func direct val mode txt =
     (case upd_lines set_func direct val (fgets_lines MAXLINE txt) (mode, [], 0) of
        None \<Rightarrow> None | Some st \<Rightarrow> upd_finish set_func direct val st)"

definition update_conf ::
  "upd_io \<Rightarrow> int \<Rightarrow> string \<Rightarrow> string \<Rightarrow> string \<Rightarrow> (string \<Rightarrow> fopen_res) \<Rightarrow> (int \<times> int \<times> (string \<Rightarrow> fopen_res)) res" where
  "update_conf io mode cfgfile direct val fs =
     (case get_directive direct of
        None \<Rightarrow> Inr (-1, mode, fs)
      | Some set_func \<Rightarrow>
          let fs1 = (if fs cfgfile = No_entry \<and> io_create io then fs(cfgfile := Opened []) else fs)
          in case fs1 cfgfile of
            Opened txt \<Rightarrow>
              if MAXLINE \<le> length cfgfile + 6 then Inl Buf_overflow
              else if \<not> io_mkstemp io \<or> \<not> io_fdopen io then Inr (-1, mode, fs1)
              else (case update_text set_func direct val mode txt of
                  None \<Rightarrow> Inr (-1, mode, fs1)
                | Some (mode', out) \<Rightarrow>
                    if io_rename io then Inr (0, mode', fs1(cfgfile := Opened out))
                    else Inl Use_after_free)
          | _ \<Rightarrow> Inr (-1, mode, fs1))"

section \<open>Modules and their loading\<close>

text \<open>
  \<^verbatim>\<open>fmd_timer_t\<close> with the name of the module it is part of; interval and ticks have 32 bits. A module in
  \<^verbatim>\<open>fmd.fmd_module\<close> is an event source or an agent; the agent itself is the entry of \<open>f_list_agent\<close> with
  its name.
\<close>

record fmd_timer =
  tm_module :: string
  interval :: "32 word"
  ticks :: "32 word"

datatype fmd_module = Mod_evtsrc string int | Mod_agent string

fun mod_name :: "fmd_module \<Rightarrow> string" where
  "mod_name (Mod_evtsrc n i) = n"
| "mod_name (Mod_agent n) = n"

record daemon =
  d_fmd :: fmd
  d_timer :: "fmd_timer list"
  d_module :: "fmd_module list"

text \<open>\<^verbatim>\<open>agent_init\<close>: \<open>None\<close> is the null pointer it returns when a configuration file is not usable.\<close>

definition agent_new :: "string \<Rightarrow> agent_module" where
  "agent_new so_path = \<lparr>am_mod_name = so_path, am_list_eclass = [], am_evt_handle_mode = 0,
     am_ring = ring_init, am_hand = None\<rparr>"

definition agent_init :: "(string \<Rightarrow> fopen_res) \<Rightarrow> string \<Rightarrow> fmd \<Rightarrow> (fmd_module option \<times> fmd) res" where
  "agent_init fs so_path s =
     rbind (agent_module_conf2 fs so_path (agent_new so_path)) (\<lambda>(rc, m).
       if rc \<noteq> 0 then Inr (None, s)
       else rbind (agent_module_conf fs so_path m) (\<lambda>(rc, m).
         if rc < 0 then Inr (None, s)
         else Inr (Some (Mod_agent so_path), s\<lparr>f_list_agent := m # f_list_agent s\<rparr>)))"

text \<open>\<^verbatim>\<open>src_module_conf\<close>: the first line that starts with \<^verbatim>\<open>interval\<close> and a blank.\<close>

definition src_module_conf :: "(string \<Rightarrow> fopen_res) \<Rightarrow> string \<Rightarrow> (int \<times> int) res" where
  "src_module_conf fs so_full_path =
     rbind (conf_path so_full_path) (\<lambda>conf_name.
       case fs conf_name of
         Opened txt \<Rightarrow>
           (case find (\<lambda>buf. strncmp_eq buf ''interval '' 9) (fgets_lines 64 txt) of
              Some buf \<Rightarrow> Inr (0, atoi (drop 9 buf))
            | None \<Rightarrow> Inr (-1, 0))
       | _ \<Rightarrow> Inr (-1, 0))"

definition timer_init :: "string \<Rightarrow> int \<Rightarrow> fmd_timer list \<Rightarrow> fmd_timer list" where
  "timer_init name mod_interval timers =
     \<lparr>tm_module = name, interval = word_of_int mod_interval, ticks = 0\<rparr> # timers"

definition evtsrc_init :: "(string \<Rightarrow> fopen_res) \<Rightarrow> string \<Rightarrow> fmd_timer list \<Rightarrow> (fmd_module option \<times> fmd_timer list) res" where
  "evtsrc_init fs full_path timers =
     rbind (src_module_conf fs full_path) (\<lambda>(rc, mod_interval).
       if rc < 0 then Inr (None, timers)
       else Inr (Some (Mod_evtsrc full_path mod_interval), timer_init full_path mod_interval timers))"

text \<open>
  What \<^verbatim>\<open>dlopen\<close> and \<^verbatim>\<open>dlsym\<close> give for a shared object. Every plug-in's \<^verbatim>\<open>fmd_module_init\<close> calls
  \<^verbatim>\<open>evtsrc_init\<close> or \<^verbatim>\<open>agent_init\<close> with the path.
\<close>

datatype so_kind = So_bad | So_evtsrc | So_agent

definition fmd_module_init :: "(string \<Rightarrow> fopen_res) \<Rightarrow> so_kind \<Rightarrow> string \<Rightarrow> daemon \<Rightarrow> (fmd_module option \<times> daemon) res" where
  "fmd_module_init fs kind path d =
     (case kind of
        So_bad \<Rightarrow> Inr (None, d)
      | So_evtsrc \<Rightarrow> rbind (evtsrc_init fs path (d_timer d)) (\<lambda>(m, ts). Inr (m, d\<lparr>d_timer := ts\<rparr>))
      | So_agent \<Rightarrow> rbind (agent_init fs path (d_fmd d)) (\<lambda>(m, s). Inr (m, d\<lparr>d_fmd := s\<rparr>)))"

definition fmd_init_module :: "(string \<Rightarrow> fopen_res) \<Rightarrow> (string \<Rightarrow> so_kind) \<Rightarrow> string \<Rightarrow> daemon \<Rightarrow> (int \<times> daemon) res" where
  "fmd_init_module fs dl so_full_path d =
     rbind (fmd_module_init fs (dl so_full_path) so_full_path d) (\<lambda>(p_module, d1).
       case p_module of
         None \<Rightarrow> Inr (-1, d1)
       | Some m \<Rightarrow> Inr (0, d1\<lparr>d_module := m # d_module d1\<rparr>))"

definition SO_DIR :: string where "SO_DIR = ''/usr/lib/fms/plugins''"

definition is_so :: "string \<Rightarrow> bool" where
  "is_so d_name \<longleftrightarrow> strrchr d_name (CHR ''.'') = Some ''.so''"

text \<open>
  The loop of \<^verbatim>\<open>fmd_module_load\<close> over the directory. The path is written to its buffer of 128 bytes
  before the extension is looked at.
\<close>

fun load_entries :: "(string \<Rightarrow> fopen_res) \<Rightarrow> (string \<Rightarrow> so_kind) \<Rightarrow> string list \<Rightarrow> daemon \<Rightarrow> daemon res" where
  "load_entries fs dl [] d = Inr d"
| "load_entries fs dl (d_name # es) d =
     (if take 1 d_name = ''.'' then load_entries fs dl es d
      else let so_full_path = SO_DIR @ ''/'' @ d_name in
        if 128 \<le> length so_full_path then Inl Buf_overflow
        else if \<not> is_so d_name then load_entries fs dl es d
        else rbind (fmd_init_module fs dl so_full_path d) (\<lambda>(ret, d1). load_entries fs dl es d1))"

definition fmd_module_load ::
  "(string \<Rightarrow> fopen_res) \<Rightarrow> (string \<Rightarrow> so_kind) \<Rightarrow> string list option \<Rightarrow> daemon \<Rightarrow> (int \<times> daemon) res" where
  "fmd_module_load fs dl dir d =
     (case dir of
        None \<Rightarrow> Inr (-1, d)
      | Some es \<Rightarrow> rbind (load_entries fs dl es d) (\<lambda>d1. Inr (0, d1)))"

text \<open>\<^verbatim>\<open>fmd_module_name\<close>: the last component of a path without its extension.\<close>

definition fmd_module_name :: "string \<Rightarrow> string res" where
  "fmd_module_name path =
     rbind (deref (strrchr path (CHR ''/''))) (\<lambda>pslash.
     rbind (deref (strrchr (tl pslash) (CHR ''.''))) (\<lambda>pdot.
       Inr (take (length (tl pslash) - length pdot) (tl pslash))))"

definition fmd_get_module_by_name :: "fmd_module list \<Rightarrow> string option \<Rightarrow> fmd_module option" where
  "fmd_get_module_by_name mods name =
     (case name of None \<Rightarrow> None
      | Some n \<Rightarrow> find (\<lambda>mp. strstr (mod_name mp) n \<noteq> None) mods)"

text \<open>
  \<^verbatim>\<open>agent_module_update_conf\<close>: the new mode goes to the agent found by name. The module found is
  taken for an agent without a test: on an event source the write would hit another structure.
\<close>

definition set_agent_mode :: "string \<Rightarrow> int \<Rightarrow> fmd \<Rightarrow> fmd" where
  "set_agent_mode name mode s = s\<lparr>f_list_agent :=
     map (\<lambda>m. if am_mod_name m = name then m\<lparr>am_evt_handle_mode := mode\<rparr> else m) (f_list_agent s)\<rparr>"

definition agent_mode :: "string \<Rightarrow> fmd \<Rightarrow> int" where
  "agent_mode name s = (case find (\<lambda>m. am_mod_name m = name) (f_list_agent s) of
     Some m \<Rightarrow> am_evt_handle_mode m | None \<Rightarrow> 0)"

definition agent_module_update_conf ::
  "upd_io \<Rightarrow> string option \<Rightarrow> string option \<Rightarrow> string option \<Rightarrow> string option \<Rightarrow>
   (string \<Rightarrow> fopen_res) \<Rightarrow> daemon \<Rightarrow> (int \<times> (string \<Rightarrow> fopen_res) \<times> daemon) res" where
  "agent_module_update_conf io mod_nm cpath direct val fs d =
     (case (mod_nm, direct, val) of
        (Some mn, Some dr, Some v) \<Rightarrow>
          if strstr mn ''agent'' = None then Inr (-1, fs, d)
          else (case fmd_get_module_by_name (d_module d) (Some mn) of
            None \<Rightarrow> Inr (-1, fs, d)
          | Some (Mod_evtsrc n i) \<Rightarrow> Inl Oob_access
          | Some (Mod_agent n) \<Rightarrow>
              rbind (case cpath of
                  Some cp \<Rightarrow> if MAXLINE \<le> length (cp @ ''/'' @ mn @ ''_mod.conf'') then Inl Buf_overflow
                            else Inr (cp @ ''/'' @ mn @ ''_mod.conf'')
                | None \<Rightarrow> mod_conf_path n) (\<lambda>conf_name.
              rbind (update_conf io (agent_mode n (d_fmd d)) conf_name dr v fs) (\<lambda>(rc, mode, fs').
                Inr (if rc \<noteq> 0 then -1 else 0, fs', d\<lparr>d_fmd := set_agent_mode n mode (d_fmd d)\<rparr>))))
      | _ \<Rightarrow> Inr (-1, fs, d))"

section \<open>The timer loop of \<^verbatim>\<open>main\<close>\<close>

text \<open>
  One pass over the timers per second: the modules whose timer fires (their threads are signalled)
  and the timers afterwards.
\<close>

definition timer_tick :: "fmd_timer \<Rightarrow> bool \<times> fmd_timer" where
  "timer_tick t =
     (let t1 = t\<lparr>ticks := ticks t + 1\<rparr>
      in if ticks t1 = interval t1 then (True, t1\<lparr>ticks := 0\<rparr>) else (False, t1))"

definition main_pass :: "fmd_timer list \<Rightarrow> string list \<times> fmd_timer list" where
  "main_pass ts =
     (map tm_module (filter (\<lambda>t. fst (timer_tick t)) ts), map (\<lambda>t. snd (timer_tick t)) ts)"

text \<open>The number of signals a module gets in \<open>n\<close> passes.\<close>

fun main_run :: "nat \<Rightarrow> fmd_timer list \<Rightarrow> string list list \<times> fmd_timer list" where
  "main_run 0 ts = ([], ts)"
| "main_run (Suc n) ts =
     (let (fired, ts1) = main_pass ts; (rest, ts2) = main_run n ts1 in (fired # rest, ts2))"

section \<open>The timers\<close>

text \<open>The period of a timer in passes. An interval of 0 is only met when the counter has wrapped around.\<close>

definition period :: "fmd_timer \<Rightarrow> nat" where
  "period t = (if interval t = 0 then 2 ^ 32 else unat (interval t))"

lemma period_pos: "0 < period t"
  by (simp add: period_def unat_gt_0)

lemma period_le: "period t \<le> 2 ^ 32"
  using unsigned_less [of "interval t", where ?'a = nat] by (simp add: period_def)

lemma of_nat_period: "(of_nat (period t) :: 32 word) = interval t"
  by (simp add: period_def)

lemma timer_tick_at:
  assumes "ticks t = of_nat (k mod period t)"
  shows "fst (timer_tick t) \<longleftrightarrow> period t dvd Suc k"
    "snd (timer_tick t) = t\<lparr>ticks := of_nat (Suc k mod period t)\<rparr>"
proof -
  let ?p = "period t"
  have lt: "k mod ?p < ?p" using period_pos by simp
  have eq: "(of_nat (Suc (k mod ?p)) :: 32 word) = interval t \<longleftrightarrow> Suc (k mod ?p) = ?p"
  proof -
    have "(of_nat (Suc (k mod ?p)) :: 32 word) = of_nat ?p \<longleftrightarrow> Suc (k mod ?p) mod 2 ^ 32 = ?p mod 2 ^ 32"
      unfolding word_of_nat_eq_iff by (simp add: take_bit_eq_mod)
    also have "\<dots> \<longleftrightarrow> Suc (k mod ?p) = ?p"
    proof (cases "?p = 2 ^ 32")
      case True
      then show ?thesis using lt by (auto simp: mod_Suc)
    next
      case False
      then show ?thesis using lt period_le [of t] by simp
    qed
    finally show ?thesis by (simp add: of_nat_period)
  qed
  have tk: "ticks t + 1 = of_nat (Suc (k mod ?p))" using assms by (simp add: add.commute)
  have c: "ticks t + 1 = interval t \<longleftrightarrow> Suc (k mod ?p) = ?p" by (simp only: tk eq)
  have dv: "Suc (k mod ?p) = ?p \<longleftrightarrow> ?p dvd Suc k"
    by (metis dvd_eq_mod_eq_0 mod_Suc nat.distinct(1) period_pos)
  show "fst (timer_tick t) \<longleftrightarrow> ?p dvd Suc k"
    unfolding timer_tick_def Let_def using c dv by simp
  show "snd (timer_tick t) = t\<lparr>ticks := of_nat (Suc k mod ?p)\<rparr>"
    unfolding timer_tick_def Let_def using c by (simp add: tk mod_Suc del: of_nat_Suc)
qed

definition timer_at :: "nat \<Rightarrow> fmd_timer \<Rightarrow> fmd_timer" where
  "timer_at k t = t\<lparr>ticks := of_nat (k mod period t)\<rparr>"

lemma timer_at_simps [simp]: "period (timer_at k t) = period t" "tm_module (timer_at k t) = tm_module t"
  by (simp_all add: timer_at_def period_def)

lemma timer_tick_timer_at:
  "fst (timer_tick (timer_at k t)) \<longleftrightarrow> period t dvd Suc k" "snd (timer_tick (timer_at k t)) = timer_at (Suc k) t"
  using timer_tick_at [of "timer_at k t" k] by (simp_all add: timer_at_def period_def)

lemma main_run_at:
  "main_run n (map (timer_at k) ts) =
     (map (\<lambda>j. map tm_module (filter (\<lambda>t. period t dvd Suc (k + j)) ts)) [0..<n], map (timer_at (k + n)) ts)"
proof (induction n arbitrary: k)
  case (Suc n)
  have up: "[0..<Suc n] = 0 # map Suc [0..<n]" by (simp add: upt_conv_Cons map_Suc_upt del: upt_Suc)
  show ?case
    by (simp add: main_pass_def Suc.IH [of "Suc k"] filter_map comp_def timer_tick_timer_at up del: upt_Suc)
qed simp

text \<open>
  Every timer fires periodically: after start-up, pass \<open>k\<close> (from 1) of the loop of \<^verbatim>\<open>main\<close> signals exactly the
  modules whose period divides \<open>k\<close>, where the period is the configured interval taken as an unsigned 32-bit
  number, and \<open>2 ^ 32\<close> for an interval of 0; in \<open>n\<close> passes a timer fires \<open>n div period\<close> times.
\<close>

theorem timer_period:
  assumes "list_all (\<lambda>t. ticks t = 0) ts"
  shows "fst (main_run n ts) = map (\<lambda>k. map tm_module (filter (\<lambda>t. period t dvd k) ts)) [1..<Suc n] \<and>
    (t \<in> set ts \<longrightarrow> length (filter (\<lambda>k. period t dvd k) [1..<Suc n]) = n div period t)"
proof -
  have "map (timer_at 0) ts = ts"
    using assms by (auto simp: list_all_iff timer_at_def intro!: map_idI)
  then have "fst (main_run n ts) = map (\<lambda>j. map tm_module (filter (\<lambda>t. period t dvd Suc j) ts)) [0..<n]"
    using main_run_at [of n 0 ts] by simp
  moreover have "[1..<Suc n] = map Suc [0..<n]" by (simp add: map_Suc_upt)
  moreover have "length (filter (\<lambda>k. p dvd k) [1..<Suc n]) = n div p" if "0 < p" for p
  proof (induction n)
    case (Suc n)
    have "[1..<Suc (Suc n)] = [1..<Suc n] @ [Suc n]" by simp
    then show ?case using Suc by (simp add: div_Suc dvd_eq_mod_eq_0 del: upt_Suc)
  qed simp
  ultimately show ?thesis using period_pos [of t] by simp
qed

theorem timer_period_witness:
  "fst (main_run 5 [\<lparr>tm_module = ''disk'', interval = 2, ticks = 0\<rparr>, \<lparr>tm_module = ''cpu'', interval = 1, ticks = 0\<rparr>]) =
     [[''cpu''], [''disk'', ''cpu''], [''cpu''], [''disk'', ''cpu''], [''cpu'']]"
  using timer_period [of "[\<lparr>tm_module = ''disk'', interval = 2, ticks = 0\<rparr>, \<lparr>tm_module = ''cpu'', interval = 1, ticks = 0\<rparr>]" 5]
  by (simp add: period_def upt_rec)

section \<open>Updating a configuration file\<close>

text \<open>The lines \<^verbatim>\<open>update_conf\<close> replaces, and what it puts in their place.\<close>

definition sets_mode :: "string \<Rightarrow> bool" where
  "sets_mode l \<longleftrightarrow> (let bp = drop (strspn l WHITESPACE) l in
     bp \<noteq> [] \<and> hd bp \<noteq> COMMENTCHAR \<and> take (strcspn bp WHITESPACE) bp = AGENT_KEY_EVT_HANDLE_MODE)"

definition mode_line :: "string \<Rightarrow> string" where
  "mode_line v = AGENT_KEY_EVT_HANDLE_MODE @ '' '' @ v @ [CHR 0x0A]"

definition new_lines :: "string \<Rightarrow> string list \<Rightarrow> string list" where
  "new_lines v ls = map (\<lambda>l. if sets_mode l then mode_line v else l) ls @
     (if list_ex sets_mode ls then [] else [mode_line v])"

lemma upd_lines_result:
  assumes "map_of mode_table v = Some m"
  shows "upd_lines set_evt_handle_mode AGENT_KEY_EVT_HANDLE_MODE v ls (mode, out, n) =
    Some (if list_ex sets_mode ls then m else mode,
      out @ concat (map (\<lambda>l. if sets_mode l then mode_line v else l) ls), n + length (filter sets_mode ls))"
proof (induction ls arbitrary: mode out n)
  case (Cons l ls)
  have "upd_line set_evt_handle_mode AGENT_KEY_EVT_HANDLE_MODE v l (mode, out, n) =
      (if sets_mode l then Some (m, out @ mode_line v, n + 1) else Some (mode, out @ l, n))"
    using assms by (simp add: upd_line_def sets_mode_def Let_def set_evt_handle_mode_def mode_line_def)
  then show ?case using Cons by simp
qed simp

lemma update_text_result:
  assumes "map_of mode_table v = Some m" "list_all (is_line MAXLINE) ls"
  shows "update_text set_evt_handle_mode AGENT_KEY_EVT_HANDLE_MODE v mode (concat ls) = Some (m, concat (new_lines v ls))"
  using assms
  by (auto simp: update_text_def fgets_lines_unlines upd_lines_result upd_finish_def set_evt_handle_mode_def
      new_lines_def mode_line_def filter_empty_conv list_ex_iff)

lemma mode_table_cases:
  assumes "map_of mode_table v = Some m"
  obtains "v = ''manual''" "m = 0" | "v = ''auto''" "m = 1" | "v = ''define''" "m = 2"
  using assms by (auto simp: mode_table_def EVENT_HANDLE_MODE_MANUAL_def EVENT_HANDLE_MODE_AUTO_def
      EVENT_HANDLE_MODE_DEFINE_def split: if_splits)

lemma mode_line_is_line: "map_of mode_table v = Some m \<Longrightarrow> is_line MAXLINE (mode_line v)"
  by (erule mode_table_cases) (simp_all add: is_line_def mode_line_def AGENT_KEY_EVT_HANDLE_MODE_def MAXLINE_def)

lemma new_lines_are_lines:
  "map_of mode_table v = Some m \<Longrightarrow> list_all (is_line MAXLINE) ls \<Longrightarrow> list_all (is_line MAXLINE) (new_lines v ls)"
  using mode_line_is_line [of v m] by (auto simp: new_lines_def list_all_iff)

lemma parse_mode_line:
  assumes "map_of mode_table v = Some m"
  shows "parse_line (mode_line v) (e, mode) = (e, m)"
  using assms
  by (rule mode_table_cases) (simp_all add: parse_line_def mode_line_def AGENT_KEY_EVT_HANDLE_MODE_def COMMENTCHAR_def
      strspn_def strcspn_def WHITESPACE_def DELIMS_def get_directive_def g_directives_def set_evt_handle_mode_def
      mode_table_def EVENT_HANDLE_MODE_MANUAL_def EVENT_HANDLE_MODE_AUTO_def EVENT_HANDLE_MODE_DEFINE_def)

lemma takeWhile_nested:
  "takeWhile P (takeWhile Q xs) \<noteq> takeWhile P xs \<Longrightarrow> takeWhile P (takeWhile Q xs) = takeWhile Q xs"
  by (induction xs) (auto split: if_splits)

lemma take_strcspn: "take (strcspn s ws) s = takeWhile (\<lambda>c. c \<notin> set ws) s"
  by (simp add: strcspn_def takeWhile_eq_take [symmetric])

lemma parse_other_line:
  assumes "\<not> sets_mode l"
  shows "snd (parse_line l st) = snd st"
proof -
  define bp where "bp = drop (strspn l WHITESPACE) l"
  define c where "c = takeWhile (\<lambda>x. x \<noteq> COMMENTCHAR) bp"
  have "get_directive (take (strcspn c WHITESPACE) c) = None \<or> c = [] \<or> drop (strcspn c WHITESPACE) c = []"
  proof (cases "take (strcspn c WHITESPACE) c = AGENT_KEY_EVT_HANDLE_MODE \<and> c \<noteq> []")
    case True
    with assms have "take (strcspn c WHITESPACE) c \<noteq> take (strcspn bp WHITESPACE) bp"
      unfolding sets_mode_def bp_def [symmetric] Let_def c_def by (cases bp) auto
    then have "take (strcspn c WHITESPACE) c = c"
      unfolding take_strcspn c_def by (rule takeWhile_nested)
    then have "drop (strcspn c WHITESPACE) c = []"
      by (metis append_self_conv append_take_drop_id)
    then show ?thesis by blast
  qed (auto simp: get_directive_def g_directives_def)
  then show ?thesis
    unfolding parse_line_def bp_def [symmetric] c_def [symmetric] Let_def
    by (cases st) (auto split: option.splits simp: strspn_def)
qed

lemma parse_keeps: "list_all (\<lambda>l. \<not> sets_mode l) ls \<Longrightarrow> snd (fold parse_line ls st) = snd st"
  by (induction ls arbitrary: st) (simp_all add: parse_other_line)

lemma parse_sets:
  assumes "map_of mode_table v = Some m" "\<forall>l \<in> set ls. sets_mode l \<longrightarrow> l = mode_line v" "mode_line v \<in> set ls"
  shows "snd (fold parse_line ls st) = m"
  using assms(2,3)
proof (induction ls rule: rev_induct)
  case (snoc l ls)
  show ?case
  proof (cases "l = mode_line v")
    case True
    then show ?thesis using parse_mode_line [OF assms(1)] by (cases "fold parse_line ls st") simp
  next
    case False
    with snoc show ?thesis by (simp add: parse_other_line)
  qed
qed simp

text \<open>
  C22. Changing the handling mode at run time is durable and touches nothing else: on a file of complete
  lines (of any number, with comments, blank lines, unknown directives and earlier settings) \<^verbatim>\<open>update_conf\<close> with a legal
  value succeeds, sets the mode, and leaves a file from which \<^verbatim>\<open>parse_config\<close> reads that mode again whatever
  the mode was before; every line that does not set the mode is kept, in order. With any other value, or any
  other directive, it fails and neither the mode nor the file changes.
\<close>

theorem update_conf_roundtrip:
  assumes "list_all (is_line MAXLINE) ls" "fs cfg = Opened (concat ls)" "length cfg + 6 < MAXLINE"
    and "io_mkstemp io" "io_fdopen io" "io_rename io"
  shows "(\<forall>m. map_of mode_table v = Some m \<longrightarrow>
      (\<exists>ls'. update_conf io mode cfg AGENT_KEY_EVT_HANDLE_MODE v fs = Inr (0, m, fs(cfg := Opened (concat ls'))) \<and>
        (\<forall>mode0. snd (parse_config mode0 (Opened (concat ls'))) = m) \<and>
        filter (\<lambda>l. \<not> sets_mode l) ls' = filter (\<lambda>l. \<not> sets_mode l) ls)) \<and>
    (map_of mode_table v = None \<longrightarrow> update_conf io mode cfg AGENT_KEY_EVT_HANDLE_MODE v fs = Inr (-1, mode, fs)) \<and>
    (d \<noteq> AGENT_KEY_EVT_HANDLE_MODE \<longrightarrow> update_conf io mode cfg d v fs = Inr (-1, mode, fs))"
proof (intro conjI impI allI)
  fix m assume m: "map_of mode_table v = Some m"
  have sl: "sets_mode (mode_line v)"
    using m by (rule mode_table_cases) (simp_all add: sets_mode_def mode_line_def AGENT_KEY_EVT_HANDLE_MODE_def
      COMMENTCHAR_def strspn_def strcspn_def WHITESPACE_def)
  have "snd (parse_config mode0 (Opened (concat (new_lines v ls)))) = m" for mode0
  proof -
    have "\<forall>l \<in> set (new_lines v ls). sets_mode l \<longrightarrow> l = mode_line v" "mode_line v \<in> set (new_lines v ls)"
      by (auto simp: new_lines_def list_ex_iff)
    from parse_sets [OF m this, of "(0, mode0)"] show ?thesis
      using fgets_lines_unlines [OF new_lines_are_lines [OF m assms(1)]]
      by (auto simp: parse_config_def split: prod.splits)
  qed
  moreover have "filter (\<lambda>l. \<not> sets_mode l) (new_lines v ls) = filter (\<lambda>l. \<not> sets_mode l) ls"
  proof -
    have "filter (\<lambda>l. \<not> sets_mode l) (map (\<lambda>l. if sets_mode l then mode_line v else l) ls) = filter (\<lambda>l. \<not> sets_mode l) ls"
      using sl by (induction ls) auto
    then show ?thesis using sl by (simp add: new_lines_def)
  qed
  moreover have "update_conf io mode cfg AGENT_KEY_EVT_HANDLE_MODE v fs = Inr (0, m, fs(cfg := Opened (concat (new_lines v ls))))"
    using assms update_text_result [OF m assms(1)] by (simp add: update_conf_def get_directive_def g_directives_def Let_def)
  ultimately show "\<exists>ls'. update_conf io mode cfg AGENT_KEY_EVT_HANDLE_MODE v fs = Inr (0, m, fs(cfg := Opened (concat ls'))) \<and>
        (\<forall>mode0. snd (parse_config mode0 (Opened (concat ls'))) = m) \<and>
        filter (\<lambda>l. \<not> sets_mode l) ls' = filter (\<lambda>l. \<not> sets_mode l) ls" by blast
next
  assume n: "map_of mode_table v = None"
  then have bad: "set_evt_handle_mode mode v = (-1, mode)" by (simp add: set_evt_handle_mode_def)
  have ul: "upd_lines set_evt_handle_mode AGENT_KEY_EVT_HANDLE_MODE v ks (mode, out, 0) \<in>
      {None, Some (mode, out @ concat ks, 0)}" for ks out
  proof (induction ks arbitrary: out)
    case (Cons k ks)
    from bad have "upd_line set_evt_handle_mode AGENT_KEY_EVT_HANDLE_MODE v k (mode, out, 0) \<in> {None, Some (mode, out @ k, 0)}"
      by (simp add: upd_line_def Let_def)
    then show ?case using Cons [of "out @ k"] by auto
  qed simp
  have "update_text set_evt_handle_mode AGENT_KEY_EVT_HANDLE_MODE v mode t = None" for t
    using bad ul [of "fgets_lines MAXLINE t" "[]"] by (auto simp: update_text_def upd_finish_def)
  then show "update_conf io mode cfg AGENT_KEY_EVT_HANDLE_MODE v fs = Inr (-1, mode, fs)"
    using assms by (simp add: update_conf_def get_directive_def g_directives_def Let_def)
qed (simp add: update_conf_def get_directive_def g_directives_def)

definition demo_conf :: "string list" where
  "demo_conf = [''# mode'' @ [CHR 0x0A], [CHR 0x0A], ''  event_handle_mode manual'' @ [CHR 0x0A], ''other x'' @ [CHR 0x0A]]"

theorem update_conf_roundtrip_witness:
  "\<exists>ls'. update_conf \<lparr>io_create = True, io_mkstemp = True, io_fdopen = True, io_rename = True\<rparr> 0 ''c''
      AGENT_KEY_EVT_HANDLE_MODE ''define'' (\<lambda>_. Opened (concat demo_conf)) =
      Inr (0, 2, (\<lambda>_. Opened (concat demo_conf))(''c'' := Opened (concat ls'))) \<and>
    snd (parse_config 1 (Opened (concat ls'))) = 2"
proof -
  have "map_of mode_table ''define'' = Some 2" by code_simp
  moreover have "list_all (is_line MAXLINE) demo_conf" by code_simp
  ultimately show ?thesis
    using update_conf_roundtrip [of demo_conf "\<lambda>_. Opened (concat demo_conf)" "''c''"
      "\<lparr>io_create = True, io_mkstemp = True, io_fdopen = True, io_rename = True\<rparr>" "''define''" 0 "[]"]
    by (auto simp: MAXLINE_def)
qed

section \<open>Loading the plug-ins\<close>

text \<open>A subscription file is usable when every class it subscribes to has a dot.\<close>

definition subs_usable :: "fopen_res \<Rightarrow> bool" where
  "subs_usable f \<longleftrightarrow> (case f of
     Opened txt \<Rightarrow> list_all (\<lambda>l. strncmp_eq l ''subscribe '' 10 \<longrightarrow> CHR ''.'' \<in> set (drop 10 (butlast l))) (fgets_lines NAME_LEN txt)
   | _ \<Rightarrow> True)"

text \<open>The plug-ins that come up: their configuration can be read.\<close>

definition comes_up :: "(string \<Rightarrow> fopen_res) \<Rightarrow> (string \<Rightarrow> so_kind) \<Rightarrow> string \<Rightarrow> bool" where
  "comes_up fs dl p = (let stem = take (length p - 3) p in
     case dl p of
       So_bad \<Rightarrow> False
     | So_evtsrc \<Rightarrow> (case fs (stem @ ''.conf'') of
           Opened txt \<Rightarrow> list_ex (\<lambda>l. strncmp_eq l ''interval '' 9) (fgets_lines 64 txt) | _ \<Rightarrow> False)
     | So_agent \<Rightarrow> fst (parse_config EVENT_HANDLE_MODE_AUTO (fs (stem @ ''_mod.conf''))) = 0 \<and>
         (case fs (stem @ ''.conf'') of Opened txt \<Rightarrow> True | _ \<Rightarrow> False))"

lemma strrchr_append_some: "strrchr s c = Some q \<Longrightarrow> strrchr (a @ s) c = Some q"
  by (induction a) simp_all

lemma so_paths:
  assumes "is_so e" "p = SO_DIR @ ''/'' @ e" "length e < 105"
  shows "conf_path p = Inr (take (length p - 3) p @ ''.conf'')"
    "mod_conf_path p = Inr (take (length p - 3) p @ ''_mod.conf'')"
proof -
  have s: "strrchr p (CHR ''.'') = Some ''.so''"
    using assms(1,2) strrchr_append_some [of e "CHR ''.''" "''.so''" "SO_DIR @ ''/''"] by (simp add: is_so_def)
  then obtain a where a: "p = a @ ''.so''" by (auto simp: strrchr_Some)
  have l: "length p < 126" using assms(2,3) by (simp add: SO_DIR_def)
  have t: "take (length p - 3 + 1) p = a @ ''.''" "take (length p - 3) p = a" using a by simp_all
  show "conf_path p = Inr (take (length p - 3) p @ ''.conf'')"
    using s l t a by (simp add: conf_path_def NAME_LEN_def)
  show "mod_conf_path p = Inr (take (length p - 3) p @ ''_mod.conf'')"
    using s l t a by (simp add: mod_conf_path_def MAXLINE_def)
qed

lemma sub_lines_ok:
  "list_all (\<lambda>l. strncmp_eq l ''subscribe '' 10 \<longrightarrow> CHR ''.'' \<in> set (drop 10 (butlast l))) ls \<Longrightarrow>
   list_all sub_ok subs \<Longrightarrow> list_all sub_ok (fold sub_line ls subs)"
  by (induction ls arbitrary: subs) (simp_all add: sub_line_def conf_add_sub_def sub_ok_def)

lemma agent_init_result:
  assumes "is_so e" "p = SO_DIR @ ''/'' @ e" "length e < 105" "subs_usable (fs (take (length p - 3) p @ ''.conf''))"
    and "dl p = So_agent"
  shows "if comes_up fs dl p
    then \<exists>m. agent_fresh m \<and> agent_init fs p s = Inr (Some (Mod_agent p), s\<lparr>f_list_agent := m # f_list_agent s\<rparr>)
    else agent_init fs p s = Inr (None, s)"
proof -
  let ?c = "take (length p - 3) p @ ''.conf''" and ?m = "take (length p - 3) p @ ''_mod.conf''"
  obtain rc mode where pc: "parse_config EVENT_HANDLE_MODE_AUTO (fs ?m) = (rc, mode)" by fastforce
  show ?thesis
  proof (cases "fs ?c")
    case (Opened cnt1)
    then have "list_all sub_ok (fold sub_line (fgets_lines NAME_LEN cnt1) [])"
      using assms(4) sub_lines_ok by (simp add: subs_usable_def)
    then have "agent_fresh ((agent_new p)\<lparr>am_evt_handle_mode := mode, am_list_eclass := fold sub_line (fgets_lines NAME_LEN cnt1) []\<rparr>)"
      by (simp add: agent_fresh_def agent_new_def)
    then show ?thesis using Opened pc assms(5) so_paths [OF assms(1-3)]
      by (auto simp: comes_up_def Let_def agent_init_def agent_module_conf2_def agent_module_conf_def)
  qed (use pc assms(5) so_paths [OF assms(1-3)] in
      \<open>simp_all add: comes_up_def Let_def agent_init_def agent_module_conf2_def agent_module_conf_def\<close>)
qed

lemma list_ex_find: "list_ex P xs \<longleftrightarrow> find P xs \<noteq> None"
  by (auto simp: find_None_iff list_ex_iff)

lemma evtsrc_init_result:
  assumes "is_so e" "p = SO_DIR @ ''/'' @ e" "length e < 105" "dl p = So_evtsrc"
  shows "if comes_up fs dl p
    then \<exists>i. evtsrc_init fs p ts = Inr (Some (Mod_evtsrc p i), timer_init p i ts)
    else evtsrc_init fs p ts = Inr (None, ts)"
proof (cases "fs (take (length p - 3) p @ ''.conf'')")
  case (Opened cnt1)
  then show ?thesis using assms(4) so_paths(1) [OF assms(1-3)]
    by (cases "find (\<lambda>l. strncmp_eq l ''interval '' 9) (fgets_lines 64 cnt1)")
      (simp_all add: comes_up_def evtsrc_init_def src_module_conf_def Let_def list_ex_find)
qed (use assms(4) so_paths(1) [OF assms(1-3)] in
    \<open>simp_all add: comes_up_def evtsrc_init_def src_module_conf_def Let_def\<close>)

text \<open>What start-up keeps: the daemon is in its initial state but for the agents, all fresh; timers are at 0.\<close>

definition starting :: "fmd_esc \<Rightarrow> db_stmt list option \<Rightarrow> daemon \<Rightarrow> bool" where
  "starting esc priv d \<longleftrightarrow> d_fmd d = fmd_init esc (f_list_agent (d_fmd d)) priv \<and>
     list_all agent_fresh (f_list_agent (d_fmd d)) \<and> list_all (\<lambda>t. ticks t = 0) (d_timer d)"

lemma fmd_init_upd: "(fmd_init esc agents priv)\<lparr>f_list_agent := ms\<rparr> = fmd_init esc ms priv"
  by (simp add: fmd_init_def)

lemma init_module_result:
  assumes e: "is_so e" "p = SO_DIR @ ''/'' @ e" "length e < 105" "subs_usable (fs (take (length p - 3) p @ ''.conf''))"
    and s: "starting esc priv d"
  obtains d1 where "fmd_init_module fs dl p d = Inr (if comes_up fs dl p then 0 else -1, d1)" "starting esc priv d1"
    "map mod_name (d_module d1) = (if comes_up fs dl p then [p] else []) @ map mod_name (d_module d)"
proof (cases "dl p")
  case So_bad
  then show ?thesis using s that [of d] by (simp add: fmd_init_module_def fmd_module_init_def comes_up_def Let_def)
next
  case So_evtsrc
  from evtsrc_init_result [where dl = dl, OF e(1-3) So_evtsrc, of fs "d_timer d"] show ?thesis
    using s that So_evtsrc
    by (cases "comes_up fs dl p")
      (fastforce simp: fmd_init_module_def fmd_module_init_def starting_def timer_init_def)+
next
  case So_agent
  note r = agent_init_result [where dl = dl and fs = fs, OF e So_agent, of "d_fmd d"]
  show ?thesis
  proof (cases "comes_up fs dl p")
    case True
    with r obtain m where m: "agent_fresh m"
      "agent_init fs p (d_fmd d) = Inr (Some (Mod_agent p), (d_fmd d)\<lparr>f_list_agent := m # f_list_agent (d_fmd d)\<rparr>)"
      by auto
    define s1 where "s1 = (d_fmd d)\<lparr>f_list_agent := m # f_list_agent (d_fmd d)\<rparr>"
    obtain as where as: "d_fmd d = fmd_init esc as priv" "list_all agent_fresh as" "f_list_agent (d_fmd d) = as"
      using s unfolding starting_def by blast
    then have "s1 = fmd_init esc (m # as) priv" unfolding s1_def by (simp only: fmd_init_upd)
    then have fi: "s1 = fmd_init esc (f_list_agent s1) priv" "list_all agent_fresh (f_list_agent s1)"
      using m(1) as(2) by (simp_all add: fmd_init_def)
    show ?thesis
    proof (rule that [of "d\<lparr>d_fmd := s1, d_module := Mod_agent p # d_module d\<rparr>"])
      show "fmd_init_module fs dl p d = Inr (if comes_up fs dl p then 0 else -1, d\<lparr>d_fmd := s1, d_module := Mod_agent p # d_module d\<rparr>)"
        using True So_agent m(2) by (simp add: fmd_init_module_def fmd_module_init_def s1_def)
      show "starting esc priv (d\<lparr>d_fmd := s1, d_module := Mod_agent p # d_module d\<rparr>)"
        using fi s by (simp add: starting_def)
    qed (simp add: True)
  next
    case False
    with r show ?thesis using s that [of d] So_agent by (simp add: fmd_init_module_def fmd_module_init_def)
  qed
qed

text \<open>The state in which the entries of a directory leave a daemon that is starting.\<close>

lemma load_entries_ready:
  assumes "list_all (\<lambda>e. length e < 105) es" "\<forall>path. subs_usable (fs path)" "starting esc priv d"
  shows "\<exists>d'. load_entries fs dl es d = Inr d' \<and> starting esc priv d' \<and> map mod_name (d_module d') =
      rev (filter (comes_up fs dl) (map (\<lambda>e. SO_DIR @ ''/'' @ e) (filter (\<lambda>e. take 1 e \<noteq> ''.'' \<and> is_so e) es)))
      @ map mod_name (d_module d)"
  using assms(1,3)
proof (induction es arbitrary: d)
  case (Cons e es)
  let ?p = "SO_DIR @ ''/'' @ e"
  show ?case
  proof (cases "take 1 e \<noteq> ''.'' \<and> is_so e")
    case True
    obtain d1 where d1: "fmd_init_module fs dl ?p d = Inr (if comes_up fs dl ?p then 0 else -1, d1)"
      "starting esc priv d1" "map mod_name (d_module d1) = (if comes_up fs dl ?p then [?p] else []) @ map mod_name (d_module d)"
      using init_module_result [of e ?p fs esc priv d dl] True Cons.prems assms(2) by auto
    have "load_entries fs dl (e # es) d = load_entries fs dl es d1"
      using True Cons.prems d1(1) by (simp add: SO_DIR_def Let_def)
    then show ?thesis using Cons.IH [of d1] Cons.prems d1 True by auto
  next
    case False
    then have "load_entries fs dl (e # es) d = load_entries fs dl es d"
      using Cons.prems by (auto simp: SO_DIR_def Let_def)
    then show ?thesis using Cons.IH [of d] Cons.prems False by auto
  qed
qed simp

text \<open>
  Loading the plug-in directory completes when every entry's name is shorter than 105 characters (a
  longer name of a plug-in overruns the path buffer when its configuration file is opened). The modules that
  result are exactly the visible shared objects whose configuration can be read, the last one first, and
  if every subscribed class has a dot, the daemon is in an initial state with fresh agents: the state
  from which the safety theorems start; and all timers start at 0.
\<close>

theorem module_load_ready:
  assumes "list_all (\<lambda>e. length e < 105) es" "\<forall>path. subs_usable (fs path)" "starting esc priv d"
  shows "\<exists>d' agents. fmd_module_load fs dl (Some es) d = Inr (0, d') \<and>
    d_fmd d' = fmd_init esc agents priv \<and> list_all agent_fresh agents \<and> list_all (\<lambda>t. ticks t = 0) (d_timer d') \<and>
    map mod_name (d_module d') =
      rev (filter (comes_up fs dl) (map (\<lambda>e. SO_DIR @ ''/'' @ e) (filter (\<lambda>e. take 1 e \<noteq> ''.'' \<and> is_so e) es)))
      @ map mod_name (d_module d)"
  using load_entries_ready [OF assms, of dl] by (auto simp: fmd_module_load_def starting_def)

definition demo_text :: string where
  "demo_text = ''interval 5'' @ [CHR 0x0A] @ ''subscribe event.disk.*'' @ [CHR 0x0A]"

definition demo_fs :: "string \<Rightarrow> fopen_res" where
  "demo_fs p = (if strstr p ''_mod'' \<noteq> None then No_entry else Opened demo_text)"

definition demo_dl :: "string \<Rightarrow> so_kind" where
  "demo_dl p = (if strstr p ''agent'' \<noteq> None then So_agent else So_evtsrc)"

definition demo_daemon :: daemon where
  "demo_daemon = \<lparr>d_fmd = fmd_init esc_init [] None, d_timer = [], d_module = []\<rparr>"

definition demo_dir :: "string list" where
  "demo_dir = [''.'', ''evtsrc.disk.so'', ''disk.conf'', ''agent.disk.so'']"

theorem module_load_ready_witness:
  "\<exists>d'. fmd_module_load demo_fs demo_dl (Some demo_dir) demo_daemon = Inr (0, d') \<and>
     list_all agent_fresh (f_list_agent (d_fmd d')) \<and>
     map mod_name (d_module d') = [''/usr/lib/fms/plugins/agent.disk.so'', ''/usr/lib/fms/plugins/evtsrc.disk.so'']"
proof -
  have "subs_usable No_entry" "subs_usable (Opened demo_text)" by code_simp+
  then have "\<forall>path. subs_usable (demo_fs path)" by (simp add: demo_fs_def)
  moreover have "list_all (\<lambda>e. length e < 105) demo_dir" by code_simp
  moreover have "starting esc_init None demo_daemon"
    by (simp add: starting_def demo_daemon_def fmd_init_def)
  moreover have "filter (comes_up demo_fs demo_dl) (map (\<lambda>e. SO_DIR @ ''/'' @ e) (filter (\<lambda>e. take 1 e \<noteq> ''.'' \<and> is_so e) demo_dir))
      = [''/usr/lib/fms/plugins/evtsrc.disk.so'', ''/usr/lib/fms/plugins/agent.disk.so'']" by code_simp
  ultimately show ?thesis
    using module_load_ready [of demo_dir demo_fs "esc_init" None demo_daemon demo_dl]
    by (auto simp: demo_daemon_def fmd_init_def)
qed

end
