(* ===== verification/Fms_Timer.thy ===== *)
theory Fms_Timer
  imports Fms_Config
begin

text \<open>
  How the timers of \<^verbatim>\<open>main\<close> drive the event sources: \<^verbatim>\<open>fmd_timer_fire\<close> (\<^verbatim>\<open>fms/fmd_common.c\<close>) signals the condition on which
  the thread of the source waits in \<^verbatim>\<open>evtsrc_start\<close> (\<^verbatim>\<open>evtlib/evt_src.c\<close>). Nothing records a signal, so that one which comes while
  the source is at work is lost.
\<close>

section \<open>The thread of a source\<close>

text \<open>
  Before the lock, in \<^verbatim>\<open>pthread_cond_wait\<close> with the lock released, woken but without the lock yet, and in \<^verbatim>\<open>do_evtsrc\<close>. The counters of
  the signals, of the lost ones and of the probes are the model's.
\<close>

datatype src_pc = Src_lock | Src_wait | Src_woken | Src_probe

record src_thread =
  src_pc :: src_pc
  src_signals :: nat
  src_lost :: nat
  src_probes :: nat

definition src_started :: src_thread where
  "src_started = \<lparr>src_pc = Src_lock, src_signals = 0, src_lost = 0, src_probes = 0\<rparr>"

definition fmd_timer_fire :: "src_thread \<Rightarrow> src_thread" where
  "fmd_timer_fire s =
     (if src_pc s = Src_wait then s\<lparr>src_pc := Src_woken, src_signals := src_signals s + 1\<rparr>
      else s\<lparr>src_signals := src_signals s + 1, src_lost := src_lost s + 1\<rparr>)"

definition evtsrc_start :: "src_thread \<Rightarrow> src_thread option" where
  "evtsrc_start s =
     (case src_pc s of
        Src_lock \<Rightarrow> Some (s\<lparr>src_pc := Src_wait\<rparr>)
      | Src_wait \<Rightarrow> None
      | Src_woken \<Rightarrow> Some (s\<lparr>src_pc := Src_probe, src_probes := src_probes s + 1\<rparr>)
      | Src_probe \<Rightarrow> Some (s\<lparr>src_pc := Src_lock\<rparr>))"

inductive src_reach :: "src_thread \<Rightarrow> bool" where
  started: "src_reach src_started"
| fire: "src_reach s \<Longrightarrow> src_reach (fmd_timer_fire s)"
| thread: "src_reach s \<Longrightarrow> evtsrc_start s = Some s' \<Longrightarrow> src_reach s'"

text \<open>
  Under every interleaving each signal is lost or starts one probe; so there are never more probes than signals, and a probe never
  starts on its own.
\<close>

lemma src_signals_account:
  "src_reach s \<Longrightarrow> src_signals s = src_lost s + src_probes s + (if src_pc s = Src_woken then 1 else 0)"
  by (induction rule: src_reach.induct)
    (auto simp: src_started_def fmd_timer_fire_def evtsrc_start_def split: src_pc.splits if_splits)

text \<open>The thread is blocked only while it waits, and a signal wakes it there.\<close>

lemma src_blocked: "evtsrc_start s = None \<longleftrightarrow> src_pc s = Src_wait"
  "src_pc s = Src_wait \<Longrightarrow> src_lost (fmd_timer_fire s) = src_lost s \<and> (\<exists>s'. evtsrc_start (fmd_timer_fire s) = Some s' \<and> src_pc s' = Src_probe)"
  by (auto simp: evtsrc_start_def fmd_timer_fire_def split: src_pc.splits)

section \<open>How often a source is probed\<close>

text \<open>
  Pass by pass: \<open>p\<close> is the period of the timer, \<open>c\<close> the passes a probe takes. The state is the number of passes the
  source is still at work and the number of probes begun.
\<close>

definition src_pass :: "nat \<Rightarrow> nat \<Rightarrow> nat \<Rightarrow> nat \<times> nat \<Rightarrow> nat \<times> nat" where
  "src_pass p c k s = (if p dvd k \<and> fst s - 1 = 0 then (c, snd s + 1) else (fst s - 1, snd s))"

fun src_passes :: "nat \<Rightarrow> nat \<Rightarrow> nat \<Rightarrow> nat \<times> nat" where
  "src_passes p c 0 = (0, 0)"
| "src_passes p c (Suc n) = src_pass p c (Suc n) (src_passes p c n)"

text \<open>The number of periods from one probe to the next.\<close>

definition stride :: "nat \<Rightarrow> nat \<Rightarrow> nat" where
  "stride p c = max 1 ((c + p - 1) div p)"

lemma stride_least:
  assumes "0 < p"
  shows "c \<le> stride p c * p" "0 < j \<Longrightarrow> c \<le> j * p \<Longrightarrow> stride p c \<le> j"
proof -
  have "c + p - 1 < ((c + p - 1) div p + 1) * p" using dividend_less_div_times [OF assms, of "c + p - 1"] by (simp add: algebra_simps)
  then have "c \<le> ((c + p - 1) div p) * p" using assms by (simp add: algebra_simps)
  also have "\<dots> \<le> stride p c * p" by (simp add: stride_def)
  finally show "c \<le> stride p c * p" .
  assume j: "0 < j" "c \<le> j * p"
  then have "c + p - 1 < (j + 1) * p" using assms by simp
  then have "(c + p - 1) div p < j + 1" using assms by (simp add: less_mult_imp_div_less)
  then show "stride p c \<le> j" using j(1) by (simp add: stride_def)
qed

lemma src_passes_at:
  assumes "0 < p"
  shows "src_passes p c n = (if n < p then (0, 0) else (c - (n - p) mod (stride p c * p), (n - p) div (stride p c * p) + 1))"
proof (induction n)
  case 0
  then show ?case using assms by simp
next
  case (Suc n)
  let ?m = "stride p c * p"
  have m: "0 < ?m" using assms by (simp add: stride_def)
  consider "Suc n < p" | "Suc n = p" | "p \<le> n" by linarith
  then show ?case
  proof cases
    case 1
    then show ?thesis using Suc by (auto simp: src_pass_def dest: dvd_imp_le)
  next
    case 2
    then show ?thesis using Suc by (auto simp: src_pass_def)
  next
    case 3
    define d where "d = n - p"
    let ?r = "d mod ?m"
    have n: "Suc n - p = Suc d" using 3 by (simp add: d_def)
    have dv: "p dvd Suc n \<longleftrightarrow> p dvd Suc ?r"
    proof -
      have "p dvd Suc n \<longleftrightarrow> p dvd Suc d" using 3 n by (metis dvd_add_right_iff dvd_refl le_SucI le_add_diff_inverse)
      also have "Suc d = ?m * (d div ?m) + Suc ?r" by simp
      also have "p dvd \<dots> \<longleftrightarrow> p dvd Suc ?r" by (rule dvd_add_right_iff) simp
      finally show ?thesis .
    qed
    have start: "p dvd Suc n \<and> c - ?r - 1 = 0 \<longleftrightarrow> Suc ?r = ?m"
    proof
      assume a: "p dvd Suc n \<and> c - ?r - 1 = 0"
      then obtain j where j: "Suc ?r = j * p" using dv by (metis dvd_def mult.commute)
      then have "stride p c \<le> j" using a stride_least(2) [OF assms, of j c] by (cases j) auto
      then have "?m \<le> Suc ?r" using j by simp
      then show "Suc ?r = ?m" using mod_less_divisor [OF m, of d] by simp
    next
      assume "Suc ?r = ?m"
      then show "p dvd Suc n \<and> c - ?r - 1 = 0" using dv stride_least(1) [OF assms, of c] by auto
    qed
    have s: "src_passes p c n = (c - ?r, d div ?m + 1)" using Suc.IH 3 by (simp add: d_def)
    show ?thesis
    proof (cases "Suc ?r = ?m")
      case True
      then have "src_passes p c (Suc n) = (c, d div ?m + 2)" using start s by (simp add: src_pass_def)
      then show ?thesis using 3 n True by (simp add: mod_Suc div_Suc)
    next
      case False
      then have "src_passes p c (Suc n) = (c - Suc ?r, d div ?m + 1)" using start s by (auto simp: src_pass_def)
      then show ?thesis using 3 n False by (simp add: mod_Suc div_Suc)
    qed
  qed
qed

text \<open>
  A source whose probe takes no longer than its period is probed at every signal; one whose probe takes \<open>k\<close> periods, rounded up, at every
  \<open>k\<close>-th only.
\<close>

lemma src_probe_pace:
  "0 < p \<Longrightarrow> snd (src_passes p c n) = (if n < p then 0 else (n - p) div (stride p c * p) + 1)"
  "0 < p \<Longrightarrow> c \<le> p \<Longrightarrow> snd (src_passes p c n) = n div p"
proof -
  assume p: "0 < p"
  show *: "snd (src_passes p c n) = (if n < p then 0 else (n - p) div (stride p c * p) + 1)" by (simp add: src_passes_at [OF p])
  assume "c \<le> p"
  then have "stride p c = 1" using stride_least(2) [OF p, of 1 c] by (simp add: stride_def)
  then show "snd (src_passes p c n) = n div p" using * p le_div_geq [of p n] by simp
qed

end
