(* ===== verification/Fms_Bitfield.thy ===== *)
theory Fms_Bitfield
  imports Fms_Prelude
begin

text \<open>
  The table-driven decoder of machine-check status bits: \<^verbatim>\<open>evtsrc/cpumem/bitfield.c\<close> with the tables
  and the model-specific decoder of \<^verbatim>\<open>evtsrc/cpumem/haswell.c\<close>.

  The array of messages the decoders fill (\<^verbatim>\<open>struct mc_msg mm[MCE_MSG_MAXNUM]\<close>) is a function from
  indices; every write goes through \<open>mm_wr\<close>, which is the error \<open>Oob_access\<close> outside of the array. A table
  entry that C leaves as a null pointer is \<open>None\<close>.
\<close>

section \<open>Messages\<close>

record mc_msg =
  mm_name :: string
  mm_id :: "64 word"
  mm_mnemonic :: "string option"
  mm_desc :: "string option"
  mm_mem_ch :: int
  mm_clevel :: int
  mm_ctype :: int
  mm_flags :: "64 word"

definition mc_zero :: mc_msg where
  "mc_zero = \<lparr>mm_name = [], mm_id = 0, mm_mnemonic = None, mm_desc = None, mm_mem_ch = 0, mm_clevel = 0,
     mm_ctype = 0, mm_flags = 0\<rparr>"

definition MCE_MSG_MAXNUM :: nat where "MCE_MSG_MAXNUM = 64"

type_synonym mm_array = "nat \<Rightarrow> mc_msg"

definition mm_wr :: "nat \<Rightarrow> (mc_msg \<Rightarrow> mc_msg) \<Rightarrow> mm_array \<Rightarrow> mm_array res" where
  "mm_wr i f mm = (if i < MCE_MSG_MAXNUM then Inr (mm(i := f (mm i))) else Inl Oob_access)"

definition MCI_STATUS_UC :: "64 word" where "MCI_STATUS_UC = push_bit 61 1"
definition MCI_STATUS_MISCV :: "64 word" where "MCI_STATUS_MISCV = push_bit 59 1"
definition MCI_STATUS_ADDRV :: "64 word" where "MCI_STATUS_ADDRV = push_bit 58 1"

definition FMS_MCI_STATUS_UC :: "64 word \<Rightarrow> string" where
  "FMS_MCI_STATUS_UC status = (if status AND MCI_STATUS_UC \<noteq> 0 then ''_uc'' else ''_ce'')"

section \<open>\<^verbatim>\<open>bitfield.c\<close>\<close>

record field =
  start_bit :: nat
  str :: "string option list"

definition FIELD :: "nat \<Rightarrow> string option list \<Rightarrow> field" where
  "FIELD b names = \<lparr>start_bit = b, str = names\<rparr>"

definition SBITFIELD :: "nat \<Rightarrow> string \<Rightarrow> field" where
  "SBITFIELD b s = \<lparr>start_bit = b, str = [None, Some s]\<rparr>"

text \<open>\<^verbatim>\<open>EXTRACT(v, a, b)\<close>: bits \<open>a\<close> to \<open>b\<close>.\<close>

definition EXTRACT :: "64 word \<Rightarrow> nat \<Rightarrow> nat \<Rightarrow> 64 word" where
  "EXTRACT v a b = drop_bit a v AND (push_bit (1 + (b - a)) 1 - 1)"

definition test_prefix :: "nat \<Rightarrow> 32 word \<Rightarrow> bool" where
  "test_prefix nr value \<longleftrightarrow> drop_bit nr value = 1"

text \<open>
  \<^verbatim>\<open>bitmask\<close>: the loop doubles the mask until it covers the argument; 63 rounds give all ones, so the
  fuel of 64 is enough (lemma \<open>bitmask_covers\<close>).
\<close>

fun mask_loop :: "nat \<Rightarrow> 64 word \<Rightarrow> 64 word \<Rightarrow> 64 word" where
  "mask_loop n m i =
     (if m < i then case n of 0 \<Rightarrow> m | Suc k \<Rightarrow> mask_loop k (push_bit 1 m OR 1) i else m)"

declare mask_loop.simps [simp del]

definition bitmask :: "64 word \<Rightarrow> 64 word" where
  "bitmask i = mask_loop 64 1 i"

text \<open>The value of a field, and the string it selects (\<open>None\<close> where the loop goes on with the next field).\<close>

definition field_val :: "64 word \<Rightarrow> field \<Rightarrow> nat" where
  "field_val status f = unat (drop_bit (start_bit f) status AND bitmask (of_nat (length (str f) - 1)))"

definition field_str :: "64 word \<Rightarrow> bool \<Rightarrow> field \<Rightarrow> string option" where
  "field_str status is_mnemonic f =
     (let v = field_val status f;
          s = (if v < length (str f) then str f ! v else None)
      in case s of
           Some t \<Rightarrow> Some t
         | None \<Rightarrow> if v = 0 then None
                  else Some (if \<not> is_mnemonic then ''<'' @ nat_str 10 (start_bit f) @ '':'' @ hex v @ ''>'' else ''unknown''))"

fun bf_loop ::
  "64 word \<Rightarrow> string option \<Rightarrow> string \<Rightarrow> bool \<Rightarrow> field list \<Rightarrow> nat \<times> mm_array \<Rightarrow> (nat \<times> mm_array) res" where
  "bf_loop status buf type is_mnemonic [] st = Inr st"
| "bf_loop status buf type is_mnemonic (f # fs) (mn, mm) =
     (case field_str status is_mnemonic f of
        None \<Rightarrow> bf_loop status buf type is_mnemonic fs (mn, mm)
      | Some s \<Rightarrow>
          if MCE_MSG_MAXNUM \<le> mn then Inr (mn, mm)
          else rbind (mm_wr mn (\<lambda>m.
              if \<not> is_mnemonic then m\<lparr>mm_desc := Some ((case buf of Some b \<Rightarrow> b | None \<Rightarrow> []) @ s)\<rparr>
              else m\<lparr>mm_mnemonic := Some (type @ FMS_MCI_STATUS_UC status), mm_name := ''cpu''\<rparr>) mm)
            (\<lambda>mm'. bf_loop status buf type is_mnemonic fs (mn + 1, mm')))"

definition decode_bitfield ::
  "64 word \<Rightarrow> field list \<Rightarrow> string option \<Rightarrow> string \<Rightarrow> bool \<Rightarrow> nat \<times> mm_array \<Rightarrow> (nat \<times> mm_array) res" where
  "decode_bitfield status flds buf type is_mnemonic st =
     rbind (bf_loop status buf type is_mnemonic flds st) (\<lambda>(mn, mm).
       Inr (if \<not> is_mnemonic then mn else fst st, mm))"

section \<open>\<^verbatim>\<open>haswell.c\<close>\<close>

text \<open>An array initialiser with designated indices.\<close>

definition sparse :: "nat \<Rightarrow> (nat \<times> string) list \<Rightarrow> string option list" where
  "sparse n entries = map (map_of entries) [0..<n]"

definition fms_pcu_1 :: "string option list" where
  "fms_pcu_1 = sparse 0x82 [
    (0x00, ''pcu_none''), (0x09, ''pcu_mmct''), (0x0D, ''pcu_mifsst''), (0x0E, ''pcu_mcust''),
    (0x13, ''pcu_mdtt''), (0x15, ''pcu_mdcrat''), (0x1E, ''pcu_mvimlfim''), (0x25, ''pcu_msct''),
    (0x29, ''pcu_mvvmlfs''), (0x2B, ''pcu_mpwhcd''), (0x2C, ''pcu_mpwhcu''), (0x39, ''pcu_mpwhcus''),
    (0x44, ''pcu_mcvf''), (0x45, ''pcu_mimn''), (0x46, ''pcu_mvrdf''), (0x47, ''pcu_memnpc''),
    (0x48, ''pcu_msrrimf''), (0x49, ''pcu_mswrvmf''), (0x4B, ''pcu_mbvtd0''), (0x4C, ''pcu_mbvtd1''),
    (0x4D, ''pcu_mbvtd2''), (0x4E, ''pcu_mbvtd3''), (0x4F, ''pcu_msce''), (0x52, ''pcu_mfcovf''),
    (0x53, ''pcu_mfcocf''), (0x57, ''pcu_msprf''), (0x58, ''pcu_msirf''), (0x59, ''pcu_msarf''),
    (0x60, ''pcu_miprep''), (0x61, ''pcu_mipreq''), (0x62, ''pcu_miprsq''), (0x63, ''pcu_miprsp''),
    (0x64, ''pcu_mipsc''), (0x67, ''pcu_mhirbat''), (0x68, ''pcu_mirst''), (0x69, ''pcu_mhfcd''),
    (0x6A, ''pcu_mmpct''), (0x70, ''pcu_mwtps''), (0x71, ''pcu_mwtpcm''), (0x72, ''pcu_mwtpsm''),
    (0x7C, ''pcu_mbrcis''), (0x7D, ''pcu_mmtota''), (0x81, ''pcu_mrdtth'')]"

definition fms_pcu_mc4 :: "field list" where
  "fms_pcu_mc4 = [FIELD 24 fms_pcu_1]"

definition fms_qpi :: "string option list" where
  "fms_qpi = sparse 0x32 [
    (0x02, ''qpi_plddba''), (0x03, ''qpi_pldlbr''), (0x10, ''qpi_lldcefr''), (0x11, ''qpi_relasoce''),
    (0x12, ''qpi_uoup''), (0x13, ''qpi_llce''), (0x15, ''qpi_ruuv''), (0x20, ''qpi_pldqir''),
    (0x21, ''qpi_lfdsh''), (0x22, ''qpi_pdir''), (0x23, ''qpi_lfcf''), (0x30, ''qpi_rdcea''),
    (0x31, ''qpi_rdcew'')]"

definition fms_qpi_mc :: "field list" where
  "fms_qpi_mc = [FIELD 16 fms_qpi]"

definition fms_memctrl_mc9 :: "field list" where
  "fms_memctrl_mc9 = [
    SBITFIELD 16 ''mc_d3addr_parity'',
    SBITFIELD 17 ''mc_uha_wd'',
    SBITFIELD 18 ''mc_uha_dbe'',
    SBITFIELD 19 ''mc_cps'',
    SBITFIELD 20 ''mc_ups'',
    SBITFIELD 21 ''mc_cspare'',
    SBITFIELD 22 ''mc_uspare'',
    SBITFIELD 23 ''mc_memrd'',
    SBITFIELD 24 ''mc_wdb_parity'',
    SBITFIELD 25 ''mc_d4caddr_parity'']"

definition pcu_1 :: "string option list" where
  "pcu_1 = sparse 0x82 [
    (0x00, ''No Error''), (0x09, ''MC_MESSAGE_CHANNEL_TIMEOUT''), (0x0D, ''MC_IMC_FORCE_SR_S3_TIMEOUT''),
    (0x0E, ''MC_CPD_UNCPD_SD_TIMEOUT''), (0x13, ''MC_DMI_TRAINING_TIMEOUT''),
    (0x15, ''MC_DMI_CPU_RESET_ACK_TIMEOUT''), (0x1E, ''MC_VR_ICC_MAX_LT_FUSED_ICC_MAX''),
    (0x25, ''MC_SVID_COMMAN_TIMEOUT''), (0x29, ''MC_VR_VOUT_MAC_LT_FUSED_SVID''),
    (0x2B, ''MC_PKGC_WATCHDOG_HANG_CBZ_DOWN''), (0x2C, ''MC_PKGC_WATCHDOG_HANG_CBZ_UP''),
    (0x39, ''MC_PKGC_WATCHDOG_HANG_C3_UP_SF''), (0x44, ''MC_CRITICAL_VR_FAILED''),
    (0x45, ''MC_ICC_MAX_NOTSUPPORTED''), (0x46, ''MC_VID_RAMP_DOWN_FAILED''),
    (0x47, ''MC_EXCL_MODE_NO_PMREQ_CMP''), (0x48, ''MC_SVID_READ_REG_ICC_MAX_FAILED''),
    (0x49, ''MC_SVID_WRITE_REG_VOUT_MAX_FAILED''), (0x4B, ''MC_BOOT_VID_TIMEOUT_DRAM_0''),
    (0x4C, ''MC_BOOT_VID_TIMEOUT_DRAM_1''), (0x4D, ''MC_BOOT_VID_TIMEOUT_DRAM_2''),
    (0x4E, ''MC_BOOT_VID_TIMEOUT_DRAM_3''), (0x4F, ''MC_SVID_COMMAND_ERROR''),
    (0x52, ''MC_FIVR_CATAS_OVERVOL_FAULT''), (0x53, ''MC_FIVR_CATAS_OVERCUR_FAULT''),
    (0x57, ''MC_SVID_PKGC_REQUEST_FAILED''), (0x58, ''MC_SVID_IMON_REQUEST_FAILED''),
    (0x59, ''MC_SVID_ALERT_REQUEST_FAILED''), (0x60, ''MC_INVALID_PKGS_REQ_PCH''),
    (0x61, ''MC_INVALID_PKGS_REQ_QPI''), (0x62, ''MC_INVALID_PKGS_RSP_QPI''),
    (0x63, ''MC_INVALID_PKGS_RSP_PCH''), (0x64, ''MC_INVALID_PKG_STATE_CONFIG''),
    (0x67, ''MC_HA_IMC_RW_BLOCK_ACK_TIMEOUT''), (0x68, ''MC_IMC_RW_SMBUS_TIMEOUT''),
    (0x69, ''MC_HA_FAILSTS_CHANGE_DETECTED''), (0x6A, ''MC_MSGCH_PMREQ_CMP_TIMEOUT''),
    (0x70, ''MC_WATCHDOG_TIMEOUT_PKGC_SLAVE''), (0x71, ''MC_WATCHDOG_TIMEOUT_PKGC_MASTER''),
    (0x72, ''MC_WATCHDOG_TIMEOUT_PKGS_MASTER''), (0x7C, ''MC_BIOS_RST_CPL_INVALID_SEQ''),
    (0x7D, ''MC_MORE_THAN_ONE_TXT_AGENT''), (0x81, ''MC_RECOVERABLE_DIE_THERMAL_TOO_HOT'')]"

definition pcu_mc4 :: "field list" where
  "pcu_mc4 = [FIELD 24 pcu_1]"

definition qpi :: "string option list" where
  "qpi = sparse 0x32 [
    (0x02, ''Intel QPI physical layer detected drift buffer alarm''),
    (0x03, ''Intel QPI physical layer detected latency buffer rollover''),
    (0x10, ''Intel QPI link layer detected control error from R3QPI''),
    (0x11, ''Rx entered LLR abort state on CRC error''), (0x12, ''Unsupported or undefined packet''),
    (0x13, ''Intel QPI link layer control error''), (0x15, ''RBT used un-initialized value''),
    (0x20, ''Intel QPI physical layer detected a QPI in-band reset but aborted initialization''),
    (0x21, ''Link failover data self healing''), (0x22, ''Phy detected in-band reset (no width change)''),
    (0x23, ''Link failover clock failover''),
    (0x30, ''Rx detected CRC error - successful LLR after Phy re-init''),
    (0x31, ''Rx detected CRC error - successful LLR wihout Phy re-init'')]"

definition qpi_mc :: "field list" where
  "qpi_mc = [FIELD 16 qpi]"

definition memctrl_mc9 :: "field list" where
  "memctrl_mc9 = [
    SBITFIELD 16 ''DDR3 address parity error'',
    SBITFIELD 17 ''Uncorrected HA write data error'',
    SBITFIELD 18 ''Uncorrected HA data byte enable error'',
    SBITFIELD 19 ''Corrected patrol scrub error'',
    SBITFIELD 20 ''Uncorrected patrol scrub error'',
    SBITFIELD 21 ''Corrected spare error'',
    SBITFIELD 22 ''Uncorrected spare error'',
    SBITFIELD 23 ''Corrected memory read error'',
    SBITFIELD 24 ''iMC write data buffer parity error'',
    SBITFIELD 25 ''DDR4 command address parity error'']"

definition pcu_prefix :: "64 word \<Rightarrow> string" where
  "pcu_prefix status =
     (let code = EXTRACT status 0 15 AND NOT (push_bit 12 1);
          buf = (if code = 0x402 \<or> code = 0x403 then ''Internal errors ''
                 else if code = 0x406 then ''Intel TXT errors ''
                 else if code = 0x407 then ''Other UBOX Internal errors '' else [])
      in if EXTRACT status 16 19 \<noteq> 0 then buf @ ''PCU internal error '' else buf)"

definition two_passes :: "64 word \<Rightarrow> string option \<Rightarrow> string \<Rightarrow> field list \<Rightarrow> field list \<Rightarrow> nat \<times> mm_array \<Rightarrow> (nat \<times> mm_array) res" where
  "two_passes status buf type fms flds st =
     rbind (decode_bitfield status fms buf type True st) (decode_bitfield status flds buf [] False)"

definition hsw_decode_model :: "nat \<Rightarrow> 64 word \<Rightarrow> nat \<times> mm_array \<Rightarrow> (nat \<times> mm_array) res" where
  "hsw_decode_model bank status st =
     (if bank = 4 then two_passes status (Some (pcu_prefix status)) ''pcu'' fms_pcu_mc4 pcu_mc4 st
      else if bank \<in> set [5, 20, 21] then two_passes status None ''qpi'' fms_qpi_mc qpi_mc st
      else if bank \<in> set [9..<17] then two_passes status None ''mc'' fms_memctrl_mc9 memctrl_mc9 st
      else Inr st)"

section \<open>The mask\<close>

lemma mask_step: "(mask m :: 64 word) * 2 OR 1 = mask (Suc m)"
  by (simp add: mask_Suc_double or.commute mult.commute)

lemma mask_loop_covers: "64 \<le> m + n \<Longrightarrow> i \<le> mask_loop n (mask m) i"
proof (induction n arbitrary: m)
  case 0
  then have "(mask m :: 64 word) = - 1" by (intro bit_word_eqI) (auto simp: bit_simps)
  then show ?case by (simp add: mask_loop.simps)
next
  case (Suc n)
  then show ?case using Suc.IH [of "Suc m"]
    by (simp add: mask_loop.simps [of "Suc n"] mask_step not_less)
qed

lemma bitmask_covers: "i \<le> bitmask i"
  using mask_loop_covers [of 1 64 i] by (simp add: bitmask_def)

section \<open>Mnemonics and descriptions go together\<close>

text \<open>Two tables are parallel when they have the same fields with names at the same places.\<close>

definition parallel :: "field list \<Rightarrow> field list \<Rightarrow> bool" where
  "parallel fs gs \<longleftrightarrow> list_all2 (\<lambda>f g. start_bit f = start_bit g \<and>
     map (\<lambda>x. x = None) (str f) = map (\<lambda>x. x = None) (str g)) fs gs"

lemma sparse_pattern: "map fst a = map fst b \<Longrightarrow> map (\<lambda>x. x = None) (sparse n a) = map (\<lambda>x. x = None) (sparse n b)"
  unfolding sparse_def by (simp add: map_of_eq_None_iff) (metis list.set_map)

lemma tables_parallel:
  "parallel fms_pcu_mc4 pcu_mc4" "parallel fms_qpi_mc qpi_mc" "parallel fms_memctrl_mc9 memctrl_mc9"
  unfolding parallel_def fms_pcu_mc4_def pcu_mc4_def fms_qpi_mc_def qpi_mc_def FIELD_def
    fms_pcu_1_def pcu_1_def fms_qpi_def qpi_def
  by (simp add: sparse_pattern) (simp add: sparse_pattern, simp add: fms_memctrl_mc9_def memctrl_mc9_def SBITFIELD_def)

definition hit :: "64 word \<Rightarrow> field \<Rightarrow> bool" where
  "hit status f \<longleftrightarrow> (let v = field_val status f in v \<noteq> 0 \<or> (v < length (str f) \<and> str f ! v \<noteq> None))"

lemma field_str_hit: "field_str status b f = None \<longleftrightarrow> \<not> hit status f"
  by (auto simp: field_str_def hit_def Let_def split: option.splits)

lemma hit_cong:
  assumes "start_bit f = start_bit g" "map (\<lambda>x. x = None) (str f) = map (\<lambda>x. x = None) (str g)"
  shows "hit status f \<longleftrightarrow> hit status g"
proof -
  have l: "length (str f) = length (str g)" using assms(2) by (metis length_map)
  then have v: "field_val status f = field_val status g" using assms(1) by (simp add: field_val_def)
  have n: "str f ! i = None \<longleftrightarrow> str g ! i = None" if "i < length (str f)" for i
    using arg_cong [OF assms(2), of "\<lambda>xs. xs ! i"] that l by simp
  show ?thesis unfolding hit_def Let_def v l using n [of "field_val status g"] l by metis
qed

lemma parallel_hits: "parallel fs gs \<Longrightarrow> length (filter (hit status) fs) = length (filter (hit status) gs)"
  unfolding parallel_def
proof (induction rule: list_all2_induct)
  case (Cons f fs g gs)
  then show ?case using hit_cong [of f g status] by simp
qed simp

lemma bf_loop_result:
  assumes "mn + length fs \<le> MCE_MSG_MAXNUM"
  shows "\<exists>mm'. bf_loop status buf type b fs (mn, mm) = Inr (mn + length (filter (hit status) fs), mm') \<and>
    (\<forall>i. if mn \<le> i \<and> i < mn + length (filter (hit status) fs)
       then (if b then mm' i = (mm i)\<lparr>mm_mnemonic := Some (type @ FMS_MCI_STATUS_UC status), mm_name := ''cpu''\<rparr>
             else \<exists>d. mm' i = (mm i)\<lparr>mm_desc := Some d\<rparr>)
       else mm' i = mm i)"
  using assms
proof (induction fs arbitrary: mn mm)
  case (Cons f fs)
  show ?case
  proof (cases "hit status f")
    case False
    then have "field_str status b f = None" by (simp add: field_str_hit)
    with False Cons.IH [of mn mm] Cons.prems show ?thesis by simp
  next
    case True
    then obtain t where t: "field_str status b f = Some t" using field_str_hit by blast
    define g where "g m = (if \<not> b then m\<lparr>mm_desc := Some ((case buf of Some b \<Rightarrow> b | None \<Rightarrow> []) @ t)\<rparr>
      else m\<lparr>mm_mnemonic := Some (type @ FMS_MCI_STATUS_UC status), mm_name := ''cpu''\<rparr>)" for m :: mc_msg
    have "bf_loop status buf type b (f # fs) (mn, mm) = bf_loop status buf type b fs (Suc mn, mm(mn := g (mm mn)))"
      using t Cons.prems by (simp add: mm_wr_def g_def)
    moreover have le: "Suc mn + length fs \<le> MCE_MSG_MAXNUM" using Cons.prems by simp
    moreover from Cons.IH [OF le, of "mm(mn := g (mm mn))"]
    obtain mm' where mm': "bf_loop status buf type b fs (Suc mn, mm(mn := g (mm mn))) = Inr (Suc mn + length (filter (hit status) fs), mm')"
      "\<forall>i. if Suc mn \<le> i \<and> i < Suc mn + length (filter (hit status) fs)
       then (if b then mm' i = ((mm(mn := g (mm mn))) i)\<lparr>mm_mnemonic := Some (type @ FMS_MCI_STATUS_UC status), mm_name := ''cpu''\<rparr>
             else \<exists>d. mm' i = ((mm(mn := g (mm mn))) i)\<lparr>mm_desc := Some d\<rparr>)
       else mm' i = (mm(mn := g (mm mn))) i" by blast
    moreover have "mm' mn = g (mm mn)" using mm'(2) [rule_format, of mn] by simp
    moreover have "if mn \<le> i \<and> i < mn + Suc (length (filter (hit status) fs))
       then (if b then mm' i = (mm i)\<lparr>mm_mnemonic := Some (type @ FMS_MCI_STATUS_UC status), mm_name := ''cpu''\<rparr>
             else \<exists>d. mm' i = (mm i)\<lparr>mm_desc := Some d\<rparr>)
       else mm' i = mm i" for i
    proof (cases "i = mn")
      case True
      then show ?thesis using \<open>mm' mn = g (mm mn)\<close> by (auto simp: g_def)
    next
      case False
      then have eq: "mn \<le> i \<and> i < mn + Suc (length (filter (hit status) fs)) \<longleftrightarrow>
          Suc mn \<le> i \<and> i < Suc mn + length (filter (hit status) fs)" by auto
      have u: "(mm(mn := g (mm mn))) i = mm i" using False by simp
      show ?thesis using spec [OF mm'(2), of i] unfolding eq u .
    qed
    ultimately show ?thesis using True by simp
  qed
qed auto

text \<open>A message as the two passes leave it.\<close>

definition model_msg :: "string \<Rightarrow> 64 word \<Rightarrow> mc_msg \<Rightarrow> bool" where
  "model_msg type status m \<longleftrightarrow> (\<exists>d. m = mc_zero\<lparr>mm_mnemonic := Some (type @ FMS_MCI_STATUS_UC status),
     mm_name := ''cpu'', mm_desc := Some d\<rparr>)"

lemma two_passes_result:
  assumes p: "parallel fms flds" and n: "mn + length flds \<le> MCE_MSG_MAXNUM" and z: "\<forall>i \<ge> mn. mm i = mc_zero"
  shows "\<exists>mm'. two_passes status buf type fms flds (mn, mm) = Inr (mn + length (filter (hit status) flds), mm') \<and>
    (\<forall>i. if mn \<le> i \<and> i < mn + length (filter (hit status) flds) then model_msg type status (mm' i) else mm' i = mm i)"
proof -
  let ?k = "length (filter (hit status) flds)"
  have l: "length fms = length flds" using p by (simp add: parallel_def list_all2_lengthD)
  obtain m1 where m1: "bf_loop status buf type True fms (mn, mm) = Inr (mn + ?k, m1)"
    "\<And>i. if mn \<le> i \<and> i < mn + ?k
       then m1 i = (mm i)\<lparr>mm_mnemonic := Some (type @ FMS_MCI_STATUS_UC status), mm_name := ''cpu''\<rparr> else m1 i = mm i"
    using bf_loop_result [of mn fms status buf type True mm] n l parallel_hits [OF p, of status] by auto
  obtain m2 where m2: "bf_loop status buf [] False flds (mn, m1) = Inr (mn + ?k, m2)"
    "\<And>i. if mn \<le> i \<and> i < mn + ?k then \<exists>d. m2 i = (m1 i)\<lparr>mm_desc := Some d\<rparr> else m2 i = m1 i"
    using bf_loop_result [of mn flds status buf "[]" False m1] n by auto
  have "if mn \<le> i \<and> i < mn + ?k then model_msg type status (m2 i) else m2 i = mm i" for i
    using m1(2) [of i] m2(2) [of i] z by (auto simp: model_msg_def)
  then show ?thesis using m1(1) m2(1) by (simp add: two_passes_def decode_bitfield_def)
qed

lemma hsw_decode_complete:
  "\<exists>k type mm'. hsw_decode_model bank status (0, \<lambda>_. mc_zero) = Inr (k, mm') \<and> k \<le> 10 \<and>
     type \<in> {''pcu'', ''qpi'', ''mc''} \<and>
     (\<forall>i. if i < k then model_msg type status (mm' i) else mm' i = mc_zero)"
proof -
  define Q where "Q r \<longleftrightarrow> (\<exists>k type mm'. r = Inr (k, mm') \<and> k \<le> 10 \<and> type \<in> {''pcu'', ''qpi'', ''mc''} \<and>
    (\<forall>i. if i < k then model_msg type status (mm' i) else mm' i = mc_zero))" for r :: "(nat \<times> mm_array) res"
  have r: "Q (two_passes status buf type fms flds (0, \<lambda>_. mc_zero))"
    if "parallel fms flds" "length flds \<le> 10" "type \<in> {''pcu'', ''qpi'', ''mc''}" for buf type fms flds
  proof -
    from two_passes_result [OF that(1), of 0 "\<lambda>_. mc_zero" status buf type] that(2)
    obtain mm' where "two_passes status buf type fms flds (0, \<lambda>_. mc_zero) = Inr (length (filter (hit status) flds), mm')"
      "\<forall>i. if i < length (filter (hit status) flds) then model_msg type status (mm' i) else mm' i = mc_zero"
      by (auto simp: MCE_MSG_MAXNUM_def)
    moreover have "length (filter (hit status) flds) \<le> 10" using that(2) length_filter_le [of "hit status" flds] by linarith
    ultimately show ?thesis unfolding Q_def using that(3) by blast
  qed
  have l: "length pcu_mc4 \<le> 10" "length qpi_mc \<le> 10" "length memctrl_mc9 \<le> 10"
    by (simp_all add: pcu_mc4_def qpi_mc_def memctrl_mc9_def)
  have "Q (Inr (0, \<lambda>_. mc_zero))" unfolding Q_def by auto
  then have "Q (hsw_decode_model bank status (0, \<lambda>_. mc_zero))"
    unfolding hsw_decode_model_def
    using r [OF tables_parallel(1) l(1)] r [OF tables_parallel(2) l(2)] r [OF tables_parallel(3) l(3)] by simp
  then show ?thesis unfolding Q_def .
qed

text \<open>
  C26. The model-specific decoder is safe and its two passes agree: for every bank and status it adds at
  most 10 messages, writes nothing else, never leaves the array, and every message it adds has both the mnemonic
  (\<^verbatim>\<open>pcu\<close>, \<^verbatim>\<open>qpi\<close> or \<^verbatim>\<open>mc\<close> with the suffix of the status) and a description.
\<close>

theorem hsw_messages_complete:
  "\<exists>k type mm'. hsw_decode_model bank status (0, \<lambda>_. mc_zero) = Inr (k, mm') \<and> k \<le> 10 \<and>
     type \<in> {''pcu'', ''qpi'', ''mc''} \<and>
     (\<forall>i. if i < k then model_msg type status (mm' i) else mm' i = mc_zero)"
  by (rule hsw_decode_complete)

end
