(* ===== verification/Fms_Mce.thy ===== *)
theory Fms_Mce
  imports Fms_Bitfield Fms_Queue
begin

text \<open>
  The cpu and memory event source: from machine-check records to event reports. CPU identification
  (\<^verbatim>\<open>evtlib/cpumem.c\<close>, \<^verbatim>\<open>evtsrc/cpumem/intel.c\<close>), architectural decoding (\<^verbatim>\<open>evtsrc/cpumem/p4.c\<close>) and the
  probe (\<^verbatim>\<open>evtsrc/cpumem/cpumem_evtsrc.c\<close>).

  What \<^verbatim>\<open>read\<close> delivers from the device is the list of records in its buffer. \<^verbatim>\<open>dmi_decodeaddr\<close> is a
  parameter \<open>dmi\<close> here: it gives the memory device for an address.
\<close>

section \<open>CPU identification\<close>

datatype cputype = CPU_GENERIC | CPU_P6OLD | CPU_CORE2 | CPU_K8 | CPU_P4 | CPU_NEHALEM | CPU_DUNNINGTON
  | CPU_TULSA | CPU_INTEL | CPU_XEON75XX | CPU_SANDY_BRIDGE | CPU_SANDY_BRIDGE_EP | CPU_IVY_BRIDGE
  | CPU_IVY_BRIDGE_EPEX | CPU_HASWELL | CPU_HASWELL_EPEX | CPU_BROADWELL | CPU_KNIGHTS_LANDING | CPU_ATOM

text \<open>\<^verbatim>\<open>CASE_INTEL_CPUS\<close> leaves out the Atom, the K8 and the generic cpu.\<close>

definition is_intel_cpu :: "cputype \<Rightarrow> bool" where
  "is_intel_cpu t \<longleftrightarrow> t \<notin> set [CPU_GENERIC, CPU_K8, CPU_ATOM]"

text \<open>The bit fields of \<^verbatim>\<open>struct cpuid1\<close>, lowest first.\<close>

definition cpuid_bits :: "32 word \<Rightarrow> nat \<Rightarrow> nat \<Rightarrow> nat" where
  "cpuid_bits v lo n = unat (take_bit n (drop_bit lo v))"

definition parse_cpuid :: "32 word \<Rightarrow> nat \<times> nat" where
  "parse_cpuid cpuid =
     (let family0 = cpuid_bits cpuid 8 4;
          family = (if family0 = 0xF then family0 + cpuid_bits cpuid 20 8 else family0);
          model0 = cpuid_bits cpuid 4 4;
          model = (if family = 6 \<or> family = 0xF then model0 + 16 * cpuid_bits cpuid 16 4 else model0)
      in (family, model))"

definition select_intel_cputype :: "nat \<Rightarrow> nat \<Rightarrow> cputype" where
  "select_intel_cputype family model =
     (if family = 15 then (if model = 6 then CPU_TULSA else CPU_P4)
      else if family = 6 \<and> model < 0xF then CPU_P6OLD
      else if family = 6 \<and> (model = 0xF \<or> model = 0x17) then CPU_CORE2
      else if family = 6 \<and> model = 0x1D then CPU_DUNNINGTON
      else if family = 6 \<and> model \<in> set [0x1A, 0x2C, 0x1E, 0x25] then CPU_NEHALEM
      else if family = 6 \<and> model \<in> set [0x2E, 0x2F] then CPU_XEON75XX
      else if family = 6 \<and> model = 0x2A then CPU_SANDY_BRIDGE
      else if family = 6 \<and> model = 0x2D then CPU_SANDY_BRIDGE_EP
      else if family = 6 \<and> model = 0x3A then CPU_IVY_BRIDGE
      else if family = 6 \<and> model = 0x3E then CPU_IVY_BRIDGE_EPEX
      else if family = 6 \<and> model \<in> set [0x3C, 0x45, 0x46] then CPU_HASWELL
      else if family = 6 \<and> model = 0x3F then CPU_HASWELL_EPEX
      else if family = 6 \<and> model \<in> set [0x3D, 0x4F, 0x56] then CPU_BROADWELL
      else if family = 6 \<and> model = 0x57 then CPU_KNIGHTS_LANDING
      else if family = 6 \<and> model \<in> set [0x1C, 0x26, 0x27, 0x35, 0x36, 0x37, 0x4A, 0x4C, 0x4D, 0x5A, 0x5D] then CPU_ATOM
      else if family = 6 \<and> model > 0x1A then CPU_INTEL
      else if family > 6 then CPU_INTEL
      else if family = 6 then CPU_P6OLD else CPU_GENERIC)"

definition X86_VENDOR_INTEL :: "8 word" where "X86_VENDOR_INTEL = 0"

definition setup_cpuid :: "8 word \<Rightarrow> 32 word \<Rightarrow> cputype" where
  "setup_cpuid cpuvendor cpuid =
     (let (family, model) = parse_cpuid cpuid
      in if cpuvendor = X86_VENDOR_INTEL then select_intel_cputype family model else CPU_GENERIC)"

section \<open>Architectural decoding\<close>

text \<open>
  The string tables of \<^verbatim>\<open>p4.c\<close>. The test of \<^verbatim>\<open>get_LL_str\<close> is off by one: index 4 reads past its table.
\<close>

definition get_TT_str :: "nat \<Rightarrow> string" where
  "get_TT_str t = (let TT = [''Instruction'', ''Data'', ''Generic'', ''Unknown'']
     in if length TT \<le> t then ''UNKNOWN'' else TT ! t)"

definition get_LL_str :: "nat \<Rightarrow> string res" where
  "get_LL_str ll = (let LL = [''Level-0'', ''Level-1'', ''Level-2'', ''Level-3'']
     in if ll > length LL then Inr ''UNKNOWN'' else if ll < length LL then Inr (LL ! ll) else Inl Oob_access)"

definition get_RRRR_str :: "nat \<Rightarrow> string" where
  "get_RRRR_str rrrr = (let RRRR = [''Generic'', ''Read'', ''Write'', ''Data-Read'', ''Data-Write'',
       ''Instruction-Fetch'', ''Prefetch'', ''Eviction'', ''Snoop'']
     in if rrrr < length RRRR then RRRR ! rrrr else ''UNKNOWN'')"

definition get_PP_str :: "nat \<Rightarrow> string" where
  "get_PP_str pp = (let PP = [''Local-CPU-originated-request'', ''Responed-to-request'',
       ''Observed-error-as-third-party'', ''Generic'']
     in if length PP \<le> pp then ''UNKNOWN'' else PP ! pp)"

definition get_T_str :: "nat \<Rightarrow> string" where
  "get_T_str t = (let T = [''Request-did-not-timeout'', ''Request-timed-out'']
     in if length T \<le> t then ''UNKNOWN'' else T ! t)"

definition get_II_str :: "nat \<Rightarrow> string" where
  "get_II_str i = (let II = [''Memory-access'', ''Reserved'', ''IO'', ''Other-transaction'']
     in if length II \<le> i then ''UNKNOWN'' else II ! i)"

text \<open>\<^verbatim>\<open>(mca & MASK) >> SHIFT\<close> for a field of \<open>n\<close> bits from bit \<open>lo\<close>.\<close>

definition mca_field :: "32 word \<Rightarrow> nat \<Rightarrow> nat \<Rightarrow> nat" where
  "mca_field mca lo n = unat (drop_bit lo mca AND mask n)"

definition fms_decode_base_mca :: "nat \<Rightarrow> 64 word \<Rightarrow> mc_msg \<Rightarrow> mc_msg" where
  "fms_decode_base_mca no status m =
     (let msg = [''none'', ''unclassified'', ''mrom_parity'', ''external'', ''frc'', ''internal_parity'', ''smm_hcav'']
      in if length msg \<le> no then m
         else m\<lparr>mm_mnemonic := Some (msg ! no @ FMS_MCI_STATUS_UC status), mm_name := ''cpu''\<rparr>)"

definition FMS_CPUMEM_PAGE_ERROR :: "64 word" where "FMS_CPUMEM_PAGE_ERROR = 1"
definition FMS_CPUMEM_UC :: "64 word" where "FMS_CPUMEM_UC = 2"
definition FMS_CPUMEM_YELLOW :: "64 word" where "FMS_CPUMEM_YELLOW = 4"

definition mmm_mnemonic :: "string list" where
  "mmm_mnemonic = [''GEN'', ''RD'', ''WR'', ''AC'', ''MS'', ''RES5'', ''RES6'', ''RES7'']"

definition mmm_desc :: "string list" where
  "mmm_desc = [''Generic undefined request'', ''Memory read error'', ''Memory write error'', ''Address/Command error'',
     ''Memory scrubbing error'', ''Reserved 5'', ''Reserved 6'', ''Reserved 7'']"

definition decode_memory_controller :: "32 word \<Rightarrow> 64 word \<Rightarrow> mc_msg \<Rightarrow> mc_msg" where
  "decode_memory_controller mca status m =
     (let c = mca_field mca 0 4; k = mca_field mca 4 3;
          channel = (if c = 0xF then ''unspecified'' else nat_str 10 c);
          ch = (if c = 0xF then -1 else int c);
          m1 = m\<lparr>mm_desc := Some (''MEMORY CONTROLLER '' @ mmm_mnemonic ! k @ ''_CHANNEL'' @ channel @ ''_ERR; '' @ mmm_desc ! k)\<rparr>;
          m2 = (if status AND MCI_STATUS_ADDRV \<noteq> 0 \<and> status AND MCI_STATUS_UC = 0
                then m1\<lparr>mm_flags := mm_flags m1 OR FMS_CPUMEM_PAGE_ERROR, mm_mnemonic := Some ''mempage''\<rparr>
                else m1\<lparr>mm_mnemonic := Some (''mem'' @ FMS_MCI_STATUS_UC status)\<rparr>)
      in m2\<lparr>mm_name := ''memory'', mm_mem_ch := ch\<rparr>)"

text \<open>The branches of \<^verbatim>\<open>decode_mca\<close> after the common part; the last one leaves the message as it is.\<close>

definition mca_cache_generic :: "32 word \<Rightarrow> 64 word \<Rightarrow> mc_msg \<Rightarrow> mc_msg res" where
  "mca_cache_generic mca status m =
     rbind (get_LL_str (mca_field mca 0 2)) (\<lambda>level.
       Inr (m\<lparr>mm_mnemonic := Some (''cache'' @ FMS_MCI_STATUS_UC status),
         mm_desc := Some (level @ '' Generic cache hierarchy error''), mm_clevel := int (mca_field mca 0 2),
         mm_ctype := -1, mm_name := ''cpu'', mm_id := ucast ((mca AND 3) OR 0xC)\<rparr>))"

definition mca_tlb :: "32 word \<Rightarrow> 64 word \<Rightarrow> mc_msg \<Rightarrow> mc_msg res" where
  "mca_tlb mca status m =
     (let typenum = mca_field mca 2 2; levelnum = mca_field mca 0 2
      in rbind (get_LL_str levelnum) (\<lambda>level.
           Inr (m\<lparr>mm_desc := Some (get_TT_str typenum @ '' TLB '' @ level @ '' Error''),
             mm_mnemonic := Some (''tlb'' @ FMS_MCI_STATUS_UC status), mm_clevel := int levelnum,
             mm_ctype := int typenum, mm_name := ''cpu'', mm_id := ucast (mca AND 0xF)\<rparr>)))"

definition mca_cache :: "32 word \<Rightarrow> 64 word \<Rightarrow> mc_msg \<Rightarrow> mc_msg res" where
  "mca_cache mca status m =
     (let typenum = mca_field mca 2 2; levelnum = mca_field mca 0 2; rrrrnum = mca_field mca 4 4
      in rbind (get_LL_str levelnum) (\<lambda>level.
           Inr (m\<lparr>mm_desc := Some (get_TT_str typenum @ '' CACHE '' @ level @ '' '' @ get_RRRR_str rrrrnum @ '' Error''),
             mm_mnemonic := Some (''cache'' @ FMS_MCI_STATUS_UC status), mm_clevel := int levelnum,
             mm_ctype := int typenum, mm_name := ''cpu'', mm_id := ucast (mca AND 0xF)\<rparr>)))"

definition mca_internal :: "32 word \<Rightarrow> 64 word \<Rightarrow> mc_msg \<Rightarrow> mc_msg" where
  "mca_internal mca status m =
     (if mca = 0x400
      then m\<lparr>mm_desc := Some ''Internal Timer error'',
        mm_mnemonic := Some (''internal_timer'' @ FMS_MCI_STATUS_UC status), mm_name := ''cpu''\<rparr>
      else m\<lparr>mm_desc := Some (''Internal unclassified error: '' @ hex (unat (mca AND 0xFFFF))),
        mm_mnemonic := Some (''internal_unclassified'' @ FMS_MCI_STATUS_UC status), mm_name := ''cpu''\<rparr>)"

definition io_mca :: "64 word \<Rightarrow> string" where
  "io_mca misc = ''; IO MCA reported by root port '' @ hex (unat (EXTRACT misc 32 39)) @ '':'' @
     pad0 2 (hex (unat (EXTRACT misc 24 31))) @ '':'' @ pad0 2 (hex (unat (EXTRACT misc 19 23))) @ ''.'' @
     hex (unat (EXTRACT misc 16 18))"

definition mca_bus :: "32 word \<Rightarrow> 64 word \<Rightarrow> 64 word \<Rightarrow> int \<Rightarrow> int \<Rightarrow> mc_msg \<Rightarrow> mc_msg res" where
  "mca_bus mca status misc cpu socket m =
     rbind (get_LL_str (mca_field mca 0 2)) (\<lambda>level.
       let desc = ''BUS error: '' @ dec socket @ '' '' @ dec cpu @ '' '' @ level @ '' '' @
             get_PP_str (mca_field mca 9 2) @ '' '' @ get_RRRR_str (mca_field mca 4 4) @ '' '' @
             get_II_str (mca_field mca 2 2) @ '' '' @ get_T_str (mca_field mca 8 1);
           desc' = (if status AND MCI_STATUS_MISCV \<noteq> 0 \<and> status AND 0xEFFF = 0x0E0B then desc @ io_mca misc else desc)
       in Inr (m\<lparr>mm_desc := Some desc', mm_mnemonic := Some (''bus'' @ FMS_MCI_STATUS_UC status), mm_name := ''cpu'',
            mm_id := ucast (mca AND 3)\<rparr>))"

definition base_desc :: "string list" where
  "base_desc = [''No Error'', ''Unclassified'', ''Microcode ROM parity error'', ''External error'', ''FRC error'',
     ''Internal parity error'', ''SMM Handler Code Access Violation'']"

definition mca_message :: "32 word \<Rightarrow> 64 word \<Rightarrow> 64 word \<Rightarrow> int \<Rightarrow> int \<Rightarrow> mc_msg \<Rightarrow> mc_msg res" where
  "mca_message mca status misc cpu socket m =
     (if unat mca < length base_desc
      then Inr (fms_decode_base_mca (unat mca) status (m\<lparr>mm_desc := Some (base_desc ! unat mca)\<rparr>))
      else if drop_bit 2 mca = 3 then mca_cache_generic mca status m
      else if test_prefix 4 mca then mca_tlb mca status m
      else if test_prefix 8 mca then mca_cache mca status m
      else if test_prefix 10 mca then Inr (mca_internal mca status m)
      else if test_prefix 11 mca then mca_bus mca status misc cpu socket m
      else if test_prefix 7 mca then Inr (decode_memory_controller mca status m)
      else Inr m)"

definition mca_code :: "64 word \<Rightarrow> 32 word" where
  "mca_code status = ucast (status AND 0xFFFF) AND NOT (push_bit 12 1)"

definition decode_mca :: "64 word \<Rightarrow> 64 word \<Rightarrow> int \<Rightarrow> int \<Rightarrow> nat \<times> mm_array \<Rightarrow> (nat \<times> mm_array) res" where
  "decode_mca status misc cpu socket st =
     (let (mn, mm) = st; mca = mca_code status
      in if mca = 0 then Inr st
         else if MCE_MSG_MAXNUM \<le> mn then Inr st
         else rbind (mca_message mca status misc cpu socket (mm mn)) (\<lambda>m.
              rbind (mm_wr mn (\<lambda>_. m) mm) (\<lambda>mm'. Inr (mn + 1, mm'))))"

section \<open>Records\<close>

text \<open>\<^verbatim>\<open>struct mce\<close> of the kernel interface, with the offsets of the fields the source tests.\<close>

record mce =
  mce_status :: "64 word"
  mce_misc :: "64 word"
  mce_addr :: "64 word"
  mce_mcgstatus :: "64 word"
  mce_ip :: "64 word"
  mce_tsc :: "64 word"
  mce_time :: "64 word"
  mce_cpuvendor :: "8 word"
  mce_cpuid :: "32 word"
  mce_cs :: "8 word"
  mce_bank :: "8 word"
  mce_cpu :: "8 word"
  mce_finished :: "8 word"
  mce_extcpu :: "32 word"
  mce_socketid :: "32 word"
  mce_apicid :: "32 word"
  mce_mcgcap :: "64 word"

definition offsetof_cpuid :: nat where "offsetof_cpuid = 60"
definition offsetof_socketid :: nat where "offsetof_socketid = 72"
definition offsetof_apicid :: nat where "offsetof_apicid = 76"

definition MCE_THERMAL_BANK :: "8 word" where "MCE_THERMAL_BANK = 128"
definition MCG_TES_P :: "64 word" where "MCG_TES_P = push_bit 11 1"

record fms_cpumem =
  cm_socketid :: "32 word"
  cm_cpu :: "32 word"
  cm_status :: "64 word"
  cm_misc :: "64 word"
  cm_addr :: "64 word"
  cm_maddr :: "64 word"
  cm_mcgstatus :: "64 word"
  cm_ip :: "64 word"
  cm_tsc :: "64 word"
  cm_time :: "64 word"
  cm_apicid :: "32 word"
  cm_cpuid :: "32 word"
  cm_mcgcap :: "64 word"
  cm_mnemonic :: string
  cm_desc :: string
  cm_memdev :: addr
  cm_flags :: "64 word"
  cm_cs :: "8 word"
  cm_bank :: "8 word"
  cm_cpuvendor :: "8 word"
  cm_mem_ch :: int
  cm_clevel :: int
  cm_ctype :: int
  cm_fname :: string
  cm_dev_id :: "64 word"
  cm_fid :: "64 word"
  cm_cputype :: cputype

definition mce_cpu_no :: "mce \<Rightarrow> 32 word" where
  "mce_cpu_no m = (if mce_extcpu m \<noteq> 0 then mce_extcpu m else ucast (mce_cpu m))"

definition decode_thermal :: "mce \<Rightarrow> int \<Rightarrow> nat \<times> mm_array \<Rightarrow> (nat \<times> mm_array) res" where
  "decode_thermal log cpu st =
     (let (mn, mm) = st
      in if MCE_MSG_MAXNUM \<le> mn then Inr st
         else let mm1 = mm(0 := (mm 0)\<lparr>mm_name := ''cpu''\<rparr>)
           in if mce_status log AND 1 \<noteq> 0
              then rbind (mm_wr mn (\<lambda>m. m\<lparr>mm_mnemonic := Some ''tmp_high'', mm_desc := Some (''Processor '' @ dec cpu @
                    '' heated above trip temperature. Throttling enabled.'')\<rparr>) mm1) (\<lambda>mm2.
                  Inr (mn + 1, mm2(0 := (mm2 0)\<lparr>mm_id := 1\<rparr>)))
              else rbind (mm_wr mn (\<lambda>m. m\<lparr>mm_mnemonic := Some ''tmp_low'', mm_desc := Some (''Processor '' @ dec cpu @
                    '' below trip temperature. Throttling disabled.'')\<rparr>) mm1) (\<lambda>mm2. Inr (mn + 1, mm2)))"

definition decode_intel_mc :: "mce \<Rightarrow> cputype \<Rightarrow> nat \<Rightarrow> nat \<times> mm_array \<Rightarrow> (nat \<times> mm_array) res" where
  "decode_intel_mc log cputype reclen st =
     (let socket = (if reclen > offsetof_socketid then sint (mce_socketid log) else -1);
          cpu = sint (mce_cpu_no log)
      in if mce_bank log = MCE_THERMAL_BANK then decode_thermal log cpu st
         else rbind (if cputype = CPU_HASWELL_EPEX then hsw_decode_model (unat (mce_bank log)) (mce_status log) st else Inr st)
           (decode_mca (mce_status log) (mce_misc log) cpu socket))"

section \<open>The probe\<close>

definition mce_prepare :: "int \<Rightarrow> mce \<Rightarrow> cputype \<Rightarrow> mce \<times> cputype" where
  "mce_prepare now m cputype =
     (if mce_time m = 0 then m\<lparr>mce_time := word_of_int now\<rparr> else m,
      if mce_cpuid m \<noteq> 0 then setup_cpuid (mce_cpuvendor m) (mce_cpuid m) else cputype)"

definition PAGE_SIZE :: "64 word" where "PAGE_SIZE = push_bit 12 1"

definition dump_flags :: "mce \<Rightarrow> 64 word" where
  "dump_flags m =
     (let uc = mce_status m AND MCI_STATUS_UC \<noteq> 0;
          f = (if uc then FMS_CPUMEM_UC else 0)
      in if (mce_mcgcap m = 0 \<or> mce_mcgcap m AND MCG_TES_P \<noteq> 0) \<and> \<not> uc \<and> drop_bit 53 (mce_status m) AND 3 = 2
         then f OR FMS_CPUMEM_YELLOW else f)"

text \<open>The body of the loop of \<^verbatim>\<open>dump_mce\<close> for one message; copying from a null mnemonic or description fails.\<close>

definition dump_one :: "(64 word \<Rightarrow> addr) \<Rightarrow> mce \<Rightarrow> nat \<Rightarrow> cputype \<Rightarrow> mc_msg \<Rightarrow> fms_cpumem res" where
  "dump_one dmi m recordlen cputype mm =
     rbind (deref (mm_mnemonic mm)) (\<lambda>mnemonic.
     rbind (deref (mm_desc mm)) (\<lambda>desc.
       let cpu = ucast (mce_cpu_no m) :: 64 word;
           page = mm_flags mm AND FMS_CPUMEM_PAGE_ERROR \<noteq> 0;
           maddr = (if page then mce_addr m AND NOT (PAGE_SIZE - 1) else 0)
       in Inr \<lparr>cm_socketid = (if recordlen \<ge> offsetof_socketid then mce_socketid m else 0),
            cm_cpu = mce_cpu_no m, cm_status = mce_status m, cm_misc = mce_misc m, cm_addr = mce_addr m,
            cm_maddr = maddr, cm_mcgstatus = mce_mcgstatus m, cm_ip = mce_ip m, cm_tsc = mce_tsc m,
            cm_time = mce_time m, cm_apicid = (if recordlen \<ge> offsetof_apicid then mce_apicid m else 0),
            cm_cpuid = (if recordlen \<ge> offsetof_cpuid \<and> mce_cpuid m \<noteq> 0 then mce_cpuid m else 0),
            cm_mcgcap = (if recordlen \<ge> offsetof_cpuid then mce_mcgcap m else 0),
            cm_mnemonic = take 127 mnemonic, cm_desc = take 1023 desc,
            cm_memdev = (if mce_addr m \<noteq> 0 then dmi (mce_addr m) else 0),
            cm_flags = (if page then dump_flags m OR FMS_CPUMEM_PAGE_ERROR else dump_flags m),
            cm_cs = mce_cs m, cm_bank = mce_bank m,
            cm_cpuvendor = (if recordlen \<ge> offsetof_cpuid \<and> mce_cpuid m \<noteq> 0 then mce_cpuvendor m else 0),
            cm_mem_ch = mm_mem_ch mm, cm_clevel = mm_clevel mm, cm_ctype = mm_ctype mm, cm_fname = mm_name mm,
            cm_dev_id = (if mm_name mm = ''cpu'' then cpu else 0),
            cm_fid = (if page then maddr else mm_id mm OR push_bit 32 cpu), cm_cputype = cputype\<rparr>))"

fun dump_list :: "(64 word \<Rightarrow> addr) \<Rightarrow> mce \<Rightarrow> nat \<Rightarrow> cputype \<Rightarrow> mc_msg list \<Rightarrow> fms_cpumem list res" where
  "dump_list dmi m recordlen cputype [] = Inr []"
| "dump_list dmi m recordlen cputype (x # xs) =
     rbind (dump_one dmi m recordlen cputype x) (\<lambda>c.
     rbind (dump_list dmi m recordlen cputype xs) (\<lambda>cs1. Inr (c # cs1)))"

definition dump_mce :: "(64 word \<Rightarrow> addr) \<Rightarrow> mce \<Rightarrow> nat \<Rightarrow> cputype \<Rightarrow> fms_cpumem list res" where
  "dump_mce dmi m recordlen cputype =
     rbind (if is_intel_cpu cputype then decode_intel_mc m cputype recordlen (0, \<lambda>_. mc_zero) else Inr (0, \<lambda>_. mc_zero))
       (\<lambda>(mm_num, mm). dump_list dmi m recordlen cputype (map mm [0..<mm_num]))"

text \<open>
  \<^verbatim>\<open>cpumem_fm_event_post\<close>: the item is linked at the head. The private data is the copy of the record at a
  fresh address. The name goes through \<^verbatim>\<open>sprintf\<close> as a format; the names the decoders give have no conversions.
\<close>

record mce_src =
  s_cputype :: cputype
  s_next :: addr
  s_data :: "addr \<rightharpoonup> fms_cpumem"

definition fullclass :: "fms_cpumem \<Rightarrow> string" where
  "fullclass cm = take 127 (''ereport'' @ ''.cpu.'' @ cm_mnemonic cm)"

definition cpumem_fm_event_post :: "nvlist list \<Rightarrow> fms_cpumem \<Rightarrow> mce_src \<Rightarrow> nvlist list \<times> mce_src" where
  "cpumem_fm_event_post head cm s =
     (nvlist_add_nvlist head (nvlist_alloc\<lparr>nv_name := cm_fname cm, nv_dev_id := cm_dev_id cm, nv_value := fullclass cm,
        nv_evt_id := cm_fid cm, nv_data := s_next s\<rparr>),
      s\<lparr>s_next := s_next s + 1, s_data := (s_data s)(s_next s \<mapsto> cm)\<rparr>)"

fun post_all :: "fms_cpumem list \<Rightarrow> nvlist list \<times> mce_src \<Rightarrow> nvlist list \<times> mce_src" where
  "post_all [] st = st"
| "post_all (c # cs1) (head, s) = post_all cs1 (cpumem_fm_event_post head c s)"

fun mce_records ::
  "(64 word \<Rightarrow> addr) \<Rightarrow> int \<Rightarrow> nat \<Rightarrow> mce list \<Rightarrow> nvlist list \<times> mce_src \<Rightarrow> (nvlist list \<times> mce_src) res" where
  "mce_records dmi now recordlen [] st = Inr st"
| "mce_records dmi now recordlen (m # ms) (head, s) =
     (let (m1, cputype) = mce_prepare now m (s_cputype s)
      in rbind (dump_mce dmi m1 recordlen cputype) (\<lambda>fc.
           mce_records dmi now recordlen ms (post_all fc (head, s\<lparr>s_cputype := cputype\<rparr>))))"

text \<open>
  \<^verbatim>\<open>process_mcefd\<close>: \<open>len\<close> is what \<^verbatim>\<open>read\<close> returned, \<open>buf\<close> the records in the buffer.
\<close>

definition process_mcefd ::
  "(64 word \<Rightarrow> addr) \<Rightarrow> int \<Rightarrow> nat \<Rightarrow> int \<Rightarrow> mce list \<Rightarrow> mce_src \<Rightarrow> (nvlist list option \<times> mce_src) res" where
  "process_mcefd dmi now recordlen len buf s =
     (if recordlen = 0 \<or> len \<le> 0 then Inr (None, s)
      else rbind (mce_records dmi now recordlen (take (nat len div recordlen) buf) (nvlist_head_alloc, s))
        (\<lambda>(head, s1). Inr (Some head, s1)))"

section \<open>Which codes are decoded\<close>

text \<open>The compound error codes of the manuals that \<^verbatim>\<open>decode_mca\<close> knows, as ranges.\<close>

definition documented :: "nat \<Rightarrow> bool" where
  "documented c \<longleftrightarrow> c < 7 \<or> (12 \<le> c \<and> c < 32) \<or> (128 \<le> c \<and> c < 512) \<or> (1024 \<le> c \<and> c < 4096)"

lemma nat_div_eq_iff:
  "0 < d \<Longrightarrow> x div d = q \<longleftrightarrow> q * d \<le> x \<and> x < Suc q * d" for x :: nat
  using less_eq_div_iff_mult_less_eq [of d q x] div_less_iff_less_mult [of d x "Suc q"] by linarith

lemma prefix_range: "drop_bit n (w :: 32 word) = 1 \<longleftrightarrow> 2 ^ n \<le> unat w \<and> unat w < 2 ^ Suc n"
proof -
  have "drop_bit n w = 1 \<longleftrightarrow> unat (drop_bit n w) = 1" by (simp add: word_unat_eq_iff)
  also have "\<dots> \<longleftrightarrow> unat w div 2 ^ n = 1"
    unfolding unat_drop_bit_eq by (simp add: drop_bit_eq_div)
  also have "\<dots> \<longleftrightarrow> 2 ^ n \<le> unat w \<and> unat w < 2 * 2 ^ n"
    by (subst nat_div_eq_iff) auto
  finally show ?thesis by simp
qed

lemma cache_range: "drop_bit 2 (w :: 32 word) = 3 \<longleftrightarrow> 12 \<le> unat w \<and> unat w < 16"
proof -
  have "drop_bit 2 w = 3 \<longleftrightarrow> unat (drop_bit 2 w) = 3" by (simp add: word_unat_eq_iff)
  also have "\<dots> \<longleftrightarrow> unat w div 4 = 3"
    unfolding unat_drop_bit_eq by (simp add: drop_bit_eq_div)
  also have "\<dots> \<longleftrightarrow> 12 \<le> unat w \<and> unat w < 16" by (subst nat_div_eq_iff) auto
  finally show ?thesis .
qed

lemma mca_field_lt: "mca_field mca lo n < 2 ^ n"
proof -
  have "unat (drop_bit lo mca AND mask n) = take_bit n (unat (drop_bit lo mca))"
    by (simp add: take_bit_eq_mask [symmetric] unsigned_take_bit_eq)
  then show ?thesis by (simp add: mca_field_def)
qed

lemma get_LL_str_ok: "\<exists>t. get_LL_str (mca_field mca 0 2) = Inr t"
  using mca_field_lt [of mca 0 2] by (simp add: get_LL_str_def Let_def)

text \<open>A message \<^verbatim>\<open>dump_mce\<close> can copy: both texts are there, the mnemonic is short, the id is below 16.\<close>

definition msg_ok :: "mc_msg \<Rightarrow> bool" where
  "msg_ok m \<longleftrightarrow> (\<exists>mn d. mm_mnemonic m = Some mn \<and> mm_desc m = Some d \<and> length mn \<le> 24) \<and>
     mm_name m \<in> {''cpu'', ''memory''} \<and> (\<forall>k \<ge> 4. \<not> bit (mm_id m) k)"

lemma uc_len [simp]: "length (FMS_MCI_STATUS_UC status) = 3"
  by (simp add: FMS_MCI_STATUS_UC_def)

lemma low_bits: "4 \<le> k \<Longrightarrow> \<not> bit (ucast (w AND 0xF :: 32 word) :: 64 word) k"
  "4 \<le> k \<Longrightarrow> \<not> bit (ucast (w AND 3 :: 32 word) :: 64 word) k"
  "4 \<le> k \<Longrightarrow> \<not> bit (ucast ((w AND 3) OR 0xC :: 32 word) :: 64 word) k"
proof -
  have n: "(0xF :: 32 word) = mask 4" "(3 :: 32 word) = mask 2" "(0xC :: 32 word) = push_bit 2 (mask 2)"
    by (simp_all add: mask_eq_exp_minus_1)
  show "4 \<le> k \<Longrightarrow> \<not> bit (ucast (w AND 0xF :: 32 word) :: 64 word) k"
    "4 \<le> k \<Longrightarrow> \<not> bit (ucast (w AND 3 :: 32 word) :: 64 word) k"
    "4 \<le> k \<Longrightarrow> \<not> bit (ucast ((w AND 3) OR 0xC :: 32 word) :: 64 word) k"
    unfolding n by (auto simp: bit_simps)
qed

lemma base_mca_ok:
  assumes "c < 7"
  shows "msg_ok (fms_decode_base_mca c status (mc_zero\<lparr>mm_desc := Some d\<rparr>))"
proof -
  have "c \<in> {0, 1, 2, 3, 4, 5, 6}" using assms by auto
  then show ?thesis by (auto simp: fms_decode_base_mca_def msg_ok_def mc_zero_def)
qed

lemma mca_message_result:
  "if documented (unat mca) then \<exists>m. mca_message mca status misc cpu socket mc_zero = Inr m \<and> msg_ok m
   else mca_message mca status misc cpu socket mc_zero = Inr mc_zero"
proof -
  obtain l where l: "get_LL_str (mca_field mca 0 2) = Inr l" using get_LL_str_ok by blast
  note defs = mca_message_def test_prefix_def prefix_range cache_range base_desc_def documented_def
  consider "unat mca < 7" | "12 \<le> unat mca \<and> unat mca < 16" | "16 \<le> unat mca \<and> unat mca < 32"
    | "128 \<le> unat mca \<and> unat mca < 256" | "256 \<le> unat mca \<and> unat mca < 512"
    | "1024 \<le> unat mca \<and> unat mca < 2048" | "2048 \<le> unat mca \<and> unat mca < 4096" | "\<not> documented (unat mca)"
    unfolding documented_def by linarith
  then show ?thesis
  proof cases
    case 1
    then show ?thesis using base_mca_ok [OF 1] by (simp add: defs)
  next
    case 2
    then show ?thesis using l low_bits(3) [of _ mca]
      by (simp add: defs mca_cache_generic_def msg_ok_def mc_zero_def)
  next
    case 3
    then show ?thesis using l low_bits(1) [of _ mca]
      by (simp add: defs mca_tlb_def Let_def msg_ok_def mc_zero_def)
  next
    case 4
    then show ?thesis
      by (simp add: defs decode_memory_controller_def Let_def msg_ok_def mc_zero_def)
  next
    case 5
    then show ?thesis using l low_bits(1) [of _ mca]
      by (simp add: defs mca_cache_def Let_def msg_ok_def mc_zero_def)
  next
    case 6
    then show ?thesis by (simp add: defs mca_internal_def msg_ok_def mc_zero_def)
  next
    case 7
    then show ?thesis using l low_bits(2) [of _ mca]
      by (simp add: defs mca_bus_def Let_def msg_ok_def mc_zero_def)
  next
    case 8
    then show ?thesis by (auto simp: defs)
  qed
qed

section \<open>What a record becomes\<close>

lemma model_msg_ok: "model_msg type status m \<Longrightarrow> type \<in> {''pcu'', ''qpi'', ''mc''} \<Longrightarrow> msg_ok m"
  by (auto simp: model_msg_def msg_ok_def mc_zero_def)

lemma decode_mca_result:
  assumes ok: "\<forall>i < n. msg_ok (mm i)" and z: "\<forall>i \<ge> n. mm i = mc_zero" and n: "n < MCE_MSG_MAXNUM"
  shows "\<exists>k mm'. decode_mca status misc cpu socket (n, mm) = Inr (k, mm') \<and>
    (if documented (unat (mca_code status)) then \<forall>i < k. msg_ok (mm' i) else \<exists>i < k. mm_mnemonic (mm' i) = None)"
proof (cases "mca_code status = 0")
  case True
  then show ?thesis using ok by (simp add: decode_mca_def documented_def)
next
  case False
  from z have "mm n = mc_zero" by simp
  with mca_message_result [of "mca_code status" status misc cpu socket]
  obtain m where m: "mca_message (mca_code status) status misc cpu socket (mm n) = Inr m"
    "if documented (unat (mca_code status)) then msg_ok m else m = mc_zero" by (auto split: if_splits)
  then have "decode_mca status misc cpu socket (n, mm) = Inr (n + 1, mm(n := m))"
    using False n by (simp add: decode_mca_def mm_wr_def)
  moreover have "if documented (unat (mca_code status)) then \<forall>i < n + 1. msg_ok ((mm(n := m)) i)
      else \<exists>i < n + 1. mm_mnemonic ((mm(n := m)) i) = None"
    using m(2) ok by (auto simp: less_Suc_eq mc_zero_def split: if_splits)
  ultimately show ?thesis by blast
qed

text \<open>The records \<^verbatim>\<open>dump_mce\<close> cannot handle: a code outside the known ranges, in a bank other than the thermal one.\<close>

definition bad_record :: "mce \<Rightarrow> bool" where
  "bad_record m \<longleftrightarrow> mce_bank m \<noteq> MCE_THERMAL_BANK \<and> \<not> documented (unat (mca_code (mce_status m)))"

lemma decode_intel_mc_result:
  "\<exists>k mm. decode_intel_mc m t reclen (0, \<lambda>_. mc_zero) = Inr (k, mm) \<and>
    (if bad_record m then \<exists>i < k. mm_mnemonic (mm i) = None else \<forall>i < k. msg_ok (mm i))"
proof (cases "mce_bank m = MCE_THERMAL_BANK")
  case True
  then show ?thesis
    by (auto simp: decode_intel_mc_def decode_thermal_def Let_def mm_wr_def MCE_MSG_MAXNUM_def bad_record_def msg_ok_def mc_zero_def bit_1_iff)
next
  case False
  obtain n mm where nm: "(if t = CPU_HASWELL_EPEX then hsw_decode_model (unat (mce_bank m)) (mce_status m) (0, \<lambda>_. mc_zero)
      else Inr (0, \<lambda>_. mc_zero)) = Inr (n, mm)" "n \<le> 10" "\<forall>i < n. msg_ok (mm i)" "\<forall>i \<ge> n. mm i = mc_zero"
  proof (cases "t = CPU_HASWELL_EPEX")
    case True
    from hsw_decode_complete [of "unat (mce_bank m)" "mce_status m"] obtain k type mm where
      k: "hsw_decode_model (unat (mce_bank m)) (mce_status m) (0, \<lambda>_. mc_zero) = Inr (k, mm)" "k \<le> 10"
      "type \<in> {''pcu'', ''qpi'', ''mc''}"
      "\<And>i. if i < k then model_msg type (mce_status m) (mm i) else mm i = mc_zero" by blast
    have "\<forall>i < k. msg_ok (mm i)" "\<forall>i \<ge> k. mm i = mc_zero"
      using k(4) model_msg_ok [OF _ k(3)] by (meson, meson leD)
    with True k(1,2) that show ?thesis by simp
  qed (use that [of 0 "\<lambda>_. mc_zero"] in simp)
  then have "n < MCE_MSG_MAXNUM" by (simp add: MCE_MSG_MAXNUM_def)
  from decode_mca_result [OF nm(3,4) this] show ?thesis
    using nm(1) False unfolding decode_intel_mc_def bad_record_def Let_def by fastforce
qed

text \<open>What the rest of the daemon may rely on in an event of this source.\<close>

definition cm_ok :: "mce \<Rightarrow> fms_cpumem \<Rightarrow> bool" where
  "cm_ok m c \<longleftrightarrow> length (cm_mnemonic c) \<le> 24 \<and> cm_fname c \<in> {''cpu'', ''memory''} \<and>
     cm_dev_id c = (if cm_fname c = ''cpu'' then ucast (mce_cpu_no m) else 0) \<and>
     (if cm_flags c AND FMS_CPUMEM_PAGE_ERROR \<noteq> 0 then cm_fid c = mce_addr m AND NOT 0xFFF
      else drop_bit 32 (cm_fid c) = ucast (mce_cpu_no m))"

lemma dump_flags_page: "dump_flags m AND FMS_CPUMEM_PAGE_ERROR = 0"
  by (simp add: dump_flags_def Let_def FMS_CPUMEM_UC_def FMS_CPUMEM_YELLOW_def FMS_CPUMEM_PAGE_ERROR_def)

lemma fid_high:
  assumes "\<forall>k \<ge> 4. \<not> bit (i :: 64 word) k"
  shows "drop_bit 32 (i OR push_bit 32 (ucast (c :: 32 word))) = (ucast c :: 64 word)"
  using assms by (intro bit_word_eqI) (auto simp: bit_simps dest: bit_imp_le_length)

lemma dump_one_ok:
  assumes "msg_ok mm"
  shows "\<exists>c. dump_one dmi m reclen t mm = Inr c \<and> cm_ok m c"
proof -
  obtain mn d where mn: "mm_mnemonic mm = Some mn" "mm_desc mm = Some d" "length mn \<le> 24"
    "mm_name mm \<in> {''cpu'', ''memory''}" "\<forall>k \<ge> 4. \<not> bit (mm_id mm) k" using assms by (auto simp: msg_ok_def)
  have pg: "PAGE_SIZE - 1 = 0xFFF" by (simp add: PAGE_SIZE_def)
  show ?thesis
    using mn fid_high [OF mn(5), of "mce_cpu_no m"] dump_flags_page [of m]
    by (auto simp: dump_one_def Let_def cm_ok_def pg FMS_CPUMEM_PAGE_ERROR_def word_bw_comms bit.conj_disj_distrib2)
qed

lemma dump_list_ok:
  "list_all msg_ok xs \<Longrightarrow> \<exists>cms. dump_list dmi m reclen t xs = Inr cms \<and> list_all (cm_ok m) cms"
proof (induction xs)
  case (Cons x xs)
  then show ?case using dump_one_ok [of x dmi m reclen t] by auto
qed simp

lemma dump_one_error: "dump_one dmi m reclen t x = Inl e \<Longrightarrow> e = Null_deref"
  by (cases "mm_mnemonic x"; cases "mm_desc x") (simp_all add: dump_one_def Let_def)

lemma dump_list_null:
  "x \<in> set xs \<Longrightarrow> mm_mnemonic x = None \<Longrightarrow> dump_list dmi m reclen t xs = Inl Null_deref"
proof (induction xs)
  case (Cons y ys)
  show ?case
  proof (cases "dump_one dmi m reclen t y")
    case (Inl e)
    then show ?thesis using dump_one_error [OF Inl] by simp
  next
    case (Inr c)
    then have "x \<noteq> y" using Cons.prems(2) by (auto simp: dump_one_def)
    then show ?thesis using Cons Inr by simp
  qed
qed simp

lemma dump_mce_exact:
  "if is_intel_cpu t \<and> bad_record m then dump_mce dmi m reclen t = Inl Null_deref
   else \<exists>cms. dump_mce dmi m reclen t = Inr cms \<and> list_all (cm_ok m) cms"
proof (cases "is_intel_cpu t")
  case True
  from decode_intel_mc_result [of m t reclen] obtain k mm where
    k: "decode_intel_mc m t reclen (0, \<lambda>_. mc_zero) = Inr (k, mm)"
    "if bad_record m then \<exists>i < k. mm_mnemonic (mm i) = None else \<forall>i < k. msg_ok (mm i)" by blast
  have d: "dump_mce dmi m reclen t = dump_list dmi m reclen t (map mm [0..<k])"
    using True k(1) by (simp add: dump_mce_def)
  show ?thesis
  proof (cases "bad_record m")
    case True
    then obtain i where "i < k" "mm_mnemonic (mm i) = None" using k(2) by auto
    then have "dump_list dmi m reclen t (map mm [0..<k]) = Inl Null_deref"
      by (intro dump_list_null [of "mm i"]) auto
    with d True \<open>is_intel_cpu t\<close> show ?thesis by simp
  next
    case False
    then have "list_all msg_ok (map mm [0..<k])" using k(2) by (simp add: list_all_iff)
    with d False show ?thesis using dump_list_ok by simp
  qed
qed (simp add: dump_mce_def)

text \<open>
  C24. Decoding one machine-check record is exact: it fails, with a copy from a null pointer, exactly for an
  Intel cpu when the code is outside the documented ranges in a bank that is not the thermal one; otherwise it gives
  records that name \<^verbatim>\<open>cpu\<close> or \<^verbatim>\<open>memory\<close> with a mnemonic of at most 24 characters, the right device id, and an event
  id that is the page address of a page error and has the cpu number in its high half otherwise.
\<close>

theorem mce_dump_exact:
  "if is_intel_cpu t \<and> bad_record m then dump_mce dmi m reclen t = Inl Null_deref
   else \<exists>cms. dump_mce dmi m reclen t = Inr cms \<and> list_all (cm_ok m) cms"
  by (rule dump_mce_exact)

section \<open>The probe as an event source of the daemon\<close>

text \<open>An item the dispatcher accepts, with its private data in place.\<close>

definition item_ok :: "mce_src \<Rightarrow> nvlist \<Rightarrow> bool" where
  "item_ok s nvl \<longleftrightarrow> move_ok (Post nvl) \<and> is_pfx ''ereport.cpu.'' (nv_value nvl) \<and>
     nv_name nvl \<in> {''cpu'', ''memory''} \<and> nv_data nvl < s_next s \<and>
     (\<exists>c. s_data s (nv_data nvl) = Some c \<and> nv_value nvl = ''ereport.cpu.'' @ cm_mnemonic c \<and>
        nv_dev_id nvl = cm_dev_id c \<and> nv_evt_id nvl = cm_fid c)"

lemma post_ok:
  assumes "cm_ok m c" "list_all (item_ok s) head"
  shows "case cpumem_fm_event_post head c s of (head', s') \<Rightarrow> list_all (item_ok s') head'"
proof -
  have v: "fullclass c = ''ereport.cpu.'' @ cm_mnemonic c" "length (fullclass c) < 128"
    using assms(1) by (simp_all add: fullclass_def cm_ok_def)
  have "list_all (item_ok (s\<lparr>s_next := s_next s + 1, s_data := (s_data s)(s_next s \<mapsto> c)\<rparr>)) head"
    using assms(2) unfolding list_all_iff item_ok_def by force
  then show ?thesis
    using v assms(1) by (simp add: cpumem_fm_event_post_def nvlist_add_nvlist_def item_ok_def move_ok_def cm_ok_def is_pfx_def)
qed

lemma post_all_ok:
  "list_all (cm_ok m) cms \<Longrightarrow> list_all (item_ok s) head \<Longrightarrow>
   case post_all cms (head, s) of (head', s') \<Rightarrow> list_all (item_ok s') head'"
proof (induction cms arbitrary: head s)
  case (Cons c cms)
  obtain h1 s1 where p: "cpumem_fm_event_post head c s = (h1, s1)" by fastforce
  have "list_all (item_ok s1) h1" using post_ok [of m c s head] Cons.prems p by simp
  then show ?case using Cons.IH [of s1 h1] Cons.prems p by simp
qed simp

lemma mce_records_ok:
  "\<forall>m \<in> set ms. \<not> bad_record m \<Longrightarrow> list_all (item_ok s) head \<Longrightarrow>
   \<exists>head' s'. mce_records dmi now reclen ms (head, s) = Inr (head', s') \<and> list_all (item_ok s') head'"
proof (induction ms arbitrary: head s)
  case (Cons m ms)
  obtain m1 t where p: "mce_prepare now m (s_cputype s) = (m1, t)" by fastforce
  then have "\<not> bad_record m1" using Cons.prems(1) by (auto simp: mce_prepare_def bad_record_def split: if_splits)
  then obtain cms where c: "dump_mce dmi m1 reclen t = Inr cms" "list_all (cm_ok m1) cms"
    using dump_mce_exact [of t m1 dmi reclen] by (auto split: if_splits)
  have "list_all (item_ok (s\<lparr>s_cputype := t\<rparr>)) head" using Cons.prems(2) by (simp add: item_ok_def list_all_iff)
  from post_all_ok [OF c(2) this] obtain h1 s1 where
    "post_all cms (head, s\<lparr>s_cputype := t\<rparr>) = (h1, s1)" "list_all (item_ok s1) h1" by (auto split: prod.splits)
  then show ?case using Cons.IH [of s1 h1] Cons.prems(1) p c(1) by simp
qed simp

text \<open>
  C25. The cpu and memory source meets the dispatcher's requirements: if no record in the buffer is of the kind
  that cannot be decoded, the probe completes, and every item it posts fits the 128-byte class field, is an
  \<^verbatim>\<open>ereport.cpu\<close> class, names \<^verbatim>\<open>cpu\<close> or \<^verbatim>\<open>memory\<close>, and carries its own record, with the record's device and event ids.
\<close>

theorem mce_probe_acceptable:
  assumes "\<forall>m \<in> set buf. \<not> bad_record m"
  shows "\<exists>r s'. process_mcefd dmi now reclen len buf s = Inr (r, s') \<and>
    (case r of None \<Rightarrow> s' = s | Some head \<Rightarrow> list_all (item_ok s') head)"
proof (cases "reclen = 0 \<or> len \<le> 0")
  case False
  have "\<forall>m \<in> set (take (nat len div reclen) buf). \<not> bad_record m" using assms by (meson in_set_takeD)
  from mce_records_ok [OF this, of s "[]" dmi now reclen] False show ?thesis
    by (auto simp: process_mcefd_def nvlist_head_alloc_def)
qed (simp add: process_mcefd_def)

definition demo_mce :: mce where
  "demo_mce = \<lparr>mce_status = 0x8C000000000000C1, mce_misc = 0, mce_addr = 0x12345678, mce_mcgstatus = 0, mce_ip = 0,
     mce_tsc = 0, mce_time = 5, mce_cpuvendor = 0, mce_cpuid = 0x306F2, mce_cs = 0, mce_bank = 7, mce_cpu = 3,
     mce_finished = 1, mce_extcpu = 3, mce_socketid = 0, mce_apicid = 0, mce_mcgcap = 0\<rparr>"

theorem mce_probe_acceptable_witness:
  "\<exists>r s'. process_mcefd (\<lambda>_. 0) 9 88 88 [demo_mce] \<lparr>s_cputype = CPU_GENERIC, s_next = 1, s_data = (\<lambda>_. None)\<rparr> = Inr (r, s') \<and>
    (case r of None \<Rightarrow> False | Some head \<Rightarrow> list_all (item_ok s') head)"
proof -
  have "\<forall>m \<in> set [demo_mce]. \<not> bad_record m"
    by (simp add: bad_record_def demo_mce_def MCE_THERMAL_BANK_def documented_def mca_code_def)
  from mce_probe_acceptable [OF this, of "\<lambda>_. 0" 9 88 88 "\<lparr>s_cputype = CPU_GENERIC, s_next = 1, s_data = (\<lambda>_. None)\<rparr>"]
  show ?thesis by (auto simp: process_mcefd_def split: option.splits)
qed

text \<open>The record of the example is a corrected memory read error on a Haswell: a page error.\<close>

lemma demo_mce_item:
  "case process_mcefd (\<lambda>_. 0) 9 88 88 [demo_mce] \<lparr>s_cputype = CPU_GENERIC, s_next = 1, s_data = (\<lambda>_. None)\<rparr> of
     Inr (Some head, s') \<Rightarrow> map nv_value head = [''ereport.cpu.mempage''] \<and> map nv_evt_id head = [0x12345000]
   | _ \<Rightarrow> False"
  by code_simp

end
