(* ===== verification/Fms_Dmi.thy ===== *)
theory Fms_Dmi
  imports Fms_Prelude
begin

text \<open>
  The SMBIOS tables of the memory devices: \<^verbatim>\<open>evtsrc/cpumem/dmi.c\<close> and \<^verbatim>\<open>dmi_getstring\<close> of
  \<^verbatim>\<open>evtlib/cpumem.c\<close>, on the bytes of the mapped memory.

  \<open>mem\<close> holds the mapped bytes from the table on; reading past them is \<open>Oob_access\<close>. A pointer to an entry
  is its offset in \<open>mem\<close>, and a null pointer is \<open>None\<close>. Opening and mapping \<^verbatim>\<open>/dev/mem\<close> are system calls: what
  they deliver are the arguments of the definitions. \<^verbatim>\<open>qsort\<close> of the C library is the parameter \<open>qs\<close>.
\<close>

section \<open>Bytes\<close>

type_synonym memory = "8 word list"

definition rd :: "memory \<Rightarrow> nat \<Rightarrow> nat res" where
  "rd mem i = (if i < length mem then Inr (unat (mem ! i)) else Inl Oob_access)"

text \<open>Little-endian numbers of \<open>n\<close> bytes.\<close>

fun rd_le :: "memory \<Rightarrow> nat \<Rightarrow> nat \<Rightarrow> nat res" where
  "rd_le mem i 0 = Inr 0"
| "rd_le mem i (Suc n) = rbind (rd mem i) (\<lambda>b. rbind (rd_le mem (i + 1) n) (\<lambda>r. Inr (b + 256 * r)))"

text \<open>\<^verbatim>\<open>checksum\<close>: the sum of the bytes modulo 256; a negative length sums nothing.\<close>

fun checksum :: "memory \<Rightarrow> nat \<Rightarrow> nat \<Rightarrow> nat res" where
  "checksum mem i 0 = Inr 0"
| "checksum mem i (Suc n) = rbind (rd mem i) (\<lambda>b. rbind (checksum mem (i + 1) n) (\<lambda>r. Inr ((b + r) mod 256)))"

text \<open>
  The search for the anchor \<^verbatim>\<open>_SM_\<close> on paragraph boundaries of the segment \<open>mem\<close>, from offset \<open>p\<close>;
  \<open>entry_length\<close> is a signed \<^verbatim>\<open>char\<close> at offset 5.
\<close>

definition is_anchor :: "memory \<Rightarrow> nat \<Rightarrow> bool res" where
  "is_anchor mem p =
     (if p + 4 \<le> length mem \<and> map unat (take 4 (drop p mem)) = [95, 83, 77, 95] then
        rbind (rd mem (p + 5)) (\<lambda>l.
          rbind (checksum mem p (if l < 128 then l else 0)) (\<lambda>c. Inr (c = 0)))
      else if p + 4 \<le> length mem then Inr False else Inl Oob_access)"

function find_anchor :: "memory \<Rightarrow> nat \<Rightarrow> nat \<Rightarrow> nat option res" where
  "find_anchor mem p q =
     (if q \<le> p then Inr None
      else rbind (is_anchor mem p) (\<lambda>hit. if hit then Inr (Some p) else find_anchor mem (p + 0x10) q))"
  by pat_completeness auto
termination by (relation "measure (\<lambda>(mem, p, q). q - p)") auto

declare find_anchor.simps [simp del]

section \<open>Entries\<close>

text \<open>\<^verbatim>\<open>while (s < end-1 && *s) s++\<close>\<close>

function skip_str :: "memory \<Rightarrow> nat \<Rightarrow> nat \<Rightarrow> nat res" where
  "skip_str mem e s =
     (if s + 1 < e then rbind (rd mem s) (\<lambda>b. if b \<noteq> 0 then skip_str mem e (s + 1) else Inr s) else Inr s)"
  by pat_completeness auto
termination by (relation "measure (\<lambda>(mem, e, s). e - s)") auto

declare skip_str.simps [simp del]

lemma skip_str_ge: "skip_str mem e s = Inr t \<Longrightarrow> s \<le> t"
proof (induction mem e s rule: skip_str.induct)
  case (1 mem e s)
  show ?case
  proof (cases "s + 1 < e")
    case True
    with 1(2) obtain b where b: "rd mem s = Inr b" "(if b \<noteq> 0 then skip_str mem e (s + 1) else Inr s) = Inr t"
      by (subst (asm) skip_str.simps) auto
    with 1(1) [OF True b(1)] show ?thesis by (cases "b = 0") auto
  next
    case False
    with 1(2) show ?thesis by (subst (asm) skip_str.simps) simp
  qed
qed

text \<open>The loop over the strings of an entry: the offset of the final zero, or \<open>None\<close> when truncated.\<close>

function set_walk :: "memory \<Rightarrow> nat \<Rightarrow> nat \<Rightarrow> nat option res" where
  "set_walk mem e s =
     rbind (skip_str mem e s) (\<lambda>t.
       if e \<le> t + 1 then Inr None
       else rbind (rd mem (t + 1)) (\<lambda>b. if b \<noteq> 0 then set_walk mem e (t + 1) else Inr (Some (t + 1))))"
  by pat_completeness auto
termination
  by (relation "measure (\<lambda>(mem, e, s). e - s)") (auto dest!: skip_str_ge)

declare set_walk.simps [simp del]

text \<open>\<^verbatim>\<open>check_entry\<close>: \<open>None\<close> is the result 0, otherwise the next entry.\<close>

definition check_entry :: "memory \<Rightarrow> nat \<Rightarrow> nat option \<Rightarrow> nat option option res" where
  "check_entry mem dmi_length e =
     (case e of
        None \<Rightarrow> Inr None
      | Some p \<Rightarrow>
          rbind (rd mem (p + 1)) (\<lambda>len.
          rbind (set_walk mem dmi_length (p + len)) (\<lambda>r.
            case r of None \<Rightarrow> Inr None
            | Some s \<Rightarrow> Inr (Some (if dmi_length \<le> s then None else Some (s + 1))))))"

text \<open>The entries both loops of \<^verbatim>\<open>dmi.c\<close> visit: \<^verbatim>\<open>for (i = 0; i < numentries; i++, e = next)\<close> until \<^verbatim>\<open>check_entry\<close> fails.\<close>

fun entry_loop :: "memory \<Rightarrow> nat \<Rightarrow> nat \<Rightarrow> nat option \<Rightarrow> nat list res" where
  "entry_loop mem dmi_length 0 e = Inr []"
| "entry_loop mem dmi_length (Suc n) e =
     rbind (check_entry mem dmi_length e) (\<lambda>r.
       case (e, r) of
         (Some p, Some next) \<Rightarrow> rbind (entry_loop mem dmi_length n next) (\<lambda>ps. Inr (p # ps))
       | _ \<Rightarrow> Inr [])"

definition e_type :: "memory \<Rightarrow> nat \<Rightarrow> nat res" where "e_type mem p = rd mem p"
definition e_length :: "memory \<Rightarrow> nat \<Rightarrow> nat res" where "e_length mem p = rd mem (p + 1)"
definition e_handle :: "memory \<Rightarrow> nat \<Rightarrow> nat res" where "e_handle mem p = rd_le mem (p + 2) 2"

text \<open>\<^verbatim>\<open>fill_handles\<close>: the array has \<^verbatim>\<open>0xffff\<close> slots, so the handle \<^verbatim>\<open>0xffff\<close> is written past its end.\<close>

fun fill_handles :: "memory \<Rightarrow> nat list \<Rightarrow> (nat \<Rightarrow> nat option) \<Rightarrow> (nat \<Rightarrow> nat option) res" where
  "fill_handles mem [] h = Inr h"
| "fill_handles mem (p # ps) h =
     rbind (e_handle mem p) (\<lambda>k.
       if 0xFFFF \<le> k then Inl Buf_overflow else fill_handles mem ps (h(k := Some p)))"

definition DMI_MEMORY_ARRAY :: nat where "DMI_MEMORY_ARRAY = 16"
definition DMI_MEMORY_DEVICE :: nat where "DMI_MEMORY_DEVICE = 17"
definition DMI_MEMORY_ARRAY_ADDR :: nat where "DMI_MEMORY_ARRAY_ADDR = 19"
definition DMI_MEMORY_MAPPED_ADDR :: nat where "DMI_MEMORY_MAPPED_ADDR = 20"

text \<open>\<^verbatim>\<open>dmi_collect\<close>; the size of a memory device is the half-word at offset 12.\<close>

fun dmi_collect :: "memory \<Rightarrow> nat \<Rightarrow> nat \<Rightarrow> nat list \<Rightarrow> nat list res" where
  "dmi_collect mem ty minsize [] = Inr []"
| "dmi_collect mem ty minsize (p # ps) =
     rbind (e_type mem p) (\<lambda>t.
     rbind (e_length mem p) (\<lambda>l.
     rbind (if t = ty \<and> minsize \<le> l \<and> ty = DMI_MEMORY_DEVICE
            then rbind (rd_le mem (p + 12) 2) (\<lambda>sz. Inr (sz \<noteq> 0))
            else Inr (t = ty \<and> minsize \<le> l)) (\<lambda>keep.
     rbind (dmi_collect mem ty minsize ps) (\<lambda>r. Inr (if keep then p # r else r)))))"

text \<open>
  \<^verbatim>\<open>dmi_get_memdev_addr64\<close> and \<^verbatim>\<open>dmi_get_memarray_addr64\<close>: the extended addresses at the offsets of the packed
  structures, from the given length on.
\<close>

definition kb_start :: "nat \<Rightarrow> nat" where
  "kb_start sa = (sa div 4) * 4096 + (sa mod 4) * 1024"

definition kb_end :: "nat \<Rightarrow> nat" where
  "kb_end ea = (ea div 4) * 4096 + (ea mod 4) * 1024 + 0x3FF"

definition get_addr64 :: "nat \<Rightarrow> nat \<Rightarrow> memory \<Rightarrow> nat \<Rightarrow> (nat \<times> nat) res" where
  "get_addr64 minlen off mem p =
     rbind (rd_le mem (p + 4) 4) (\<lambda>sa.
     rbind (rd_le mem (p + 8) 4) (\<lambda>ea.
     rbind (e_length mem p) (\<lambda>len.
       if minlen \<le> len \<and> sa = 0xFFFFFFFF
       then rbind (rd_le mem (p + off) 8) (\<lambda>s. rbind (rd_le mem (p + off + 8) 8) (\<lambda>e. Inr (s, e)))
       else Inr (kb_start sa, kb_end ea))))"

definition dmi_get_memdev_addr64 :: "memory \<Rightarrow> nat \<Rightarrow> (nat \<times> nat) res" where
  "dmi_get_memdev_addr64 = get_addr64 0x23 19"

definition dmi_get_memarray_addr64 :: "memory \<Rightarrow> nat \<Rightarrow> (nat \<times> nat) res" where
  "dmi_get_memarray_addr64 = get_addr64 0x1F 18"

definition s64 :: "nat \<Rightarrow> int" where
  "s64 v = sint (of_nat v :: 64 word)"

text \<open>The comparison both \<^verbatim>\<open>cmp_range\<close> and \<^verbatim>\<open>cmp_arr_range\<close> make of two ranges: a start with an end.\<close>

definition cmp_ranges :: "nat \<times> nat \<Rightarrow> nat \<times> nat \<Rightarrow> int" where
  "cmp_ranges a b =
     (let asa = fst a; bea = snd b; res = sint (of_nat asa - of_nat bea :: 64 word)
      in if s64 asa < 0 \<and> s64 bea > 0 then 1
         else if s64 asa > 0 \<and> s64 bea < 0 then -1
         else if res > 0 then 1 else if res < 0 then -1 else 0)"

fun load_ranges :: "(nat \<Rightarrow> (nat \<times> nat) res) \<Rightarrow> nat list \<Rightarrow> (nat \<times> (nat \<times> nat)) list res" where
  "load_ranges get [] = Inr []"
| "load_ranges get (p # ps) = rbind (get p) (\<lambda>r. rbind (load_ranges get ps) (\<lambda>rs. Inr ((p, r) # rs)))"

definition sort_ranges ::
  "((nat \<times> (nat \<times> nat) \<Rightarrow> nat \<times> (nat \<times> nat) \<Rightarrow> int) \<Rightarrow> (nat \<times> (nat \<times> nat)) list \<Rightarrow> (nat \<times> (nat \<times> nat)) list) \<Rightarrow>
   (nat \<Rightarrow> (nat \<times> nat) res) \<Rightarrow> nat list \<Rightarrow> nat list res" where
  "sort_ranges qs get ps =
     rbind (load_ranges get ps) (\<lambda>rs. Inr (map fst (qs (\<lambda>a b. cmp_ranges (snd a) (snd b)) rs)))"

section \<open>The tables\<close>

record dmi_tables =
  dmi_ranges :: "nat list"
  dmi_dimms :: "nat list"
  dmi_arrays :: "nat list"
  dmi_array_ranges :: "nat list"
  handle_to_entry :: "nat \<Rightarrow> nat option"

text \<open>
  \<^verbatim>\<open>collect_dmi_dimms\<close> after \<^verbatim>\<open>fill_handles\<close>: the minimal sizes are those of the packed structures up to
  \<^verbatim>\<open>dev_handle\<close> (14), \<^verbatim>\<open>device_locator\<close> (17), \<^verbatim>\<open>location\<close> (5) and \<^verbatim>\<open>array_handle\<close> (14).
\<close>

definition collect_dmi_dimms ::
  "((nat \<times> (nat \<times> nat) \<Rightarrow> nat \<times> (nat \<times> nat) \<Rightarrow> int) \<Rightarrow> (nat \<times> (nat \<times> nat)) list \<Rightarrow> (nat \<times> (nat \<times> nat)) list) \<Rightarrow>
   memory \<Rightarrow> nat \<Rightarrow> nat \<Rightarrow> dmi_tables res" where
  "collect_dmi_dimms qs mem dmi_length numentries =
     rbind (entry_loop mem dmi_length numentries (Some 0)) (\<lambda>es.
     rbind (fill_handles mem es (\<lambda>_. None)) (\<lambda>h.
     rbind (dmi_collect mem DMI_MEMORY_MAPPED_ADDR 14 es) (\<lambda>rs0.
     rbind (sort_ranges qs (dmi_get_memdev_addr64 mem) rs0) (\<lambda>rs.
     rbind (dmi_collect mem DMI_MEMORY_DEVICE 17 es) (\<lambda>ds.
     rbind (dmi_collect mem DMI_MEMORY_ARRAY 5 es) (\<lambda>as.
     rbind (dmi_collect mem DMI_MEMORY_ARRAY_ADDR 14 es) (\<lambda>ars0.
     rbind (sort_ranges qs (dmi_get_memarray_addr64 mem) ars0) (\<lambda>ars.
       Inr \<lparr>dmi_ranges = rs, dmi_dimms = ds, dmi_arrays = as, dmi_array_ranges = ars, handle_to_entry = h\<rparr>))))))))"

text \<open>\<^verbatim>\<open>dmi_getstring\<close>: string number \<open>number\<close> of an entry, as an offset; 0 is the empty string (\<open>Inl ()\<close>).\<close>

function nul_from :: "memory \<Rightarrow> nat \<Rightarrow> nat res" where
  "nul_from mem s =
     (if s < length mem then (if mem ! s = 0 then Inr s else nul_from mem (s + 1)) else Inl Oob_access)"
  by pat_completeness auto
termination by (relation "measure (\<lambda>(mem, s). length mem - s)") auto

declare nul_from.simps [simp del]

fun getstring_loop :: "memory \<Rightarrow> nat \<Rightarrow> nat \<Rightarrow> nat option res" where
  "getstring_loop mem 0 s = Inr None"
| "getstring_loop mem (Suc n) s =
     (if n = 0 then Inr (Some s)
      else rbind (nul_from mem s) (\<lambda>t. rbind (rd mem (t + 1)) (\<lambda>b.
        if b \<noteq> 0 then getstring_loop mem n (t + 1) else Inr None)))"

definition cstr :: "memory \<Rightarrow> nat \<Rightarrow> (8 word list) res" where
  "cstr mem s = rbind (nul_from mem s) (\<lambda>t. Inr (take (t - s) (drop s mem)))"

definition dmi_getstring :: "memory \<Rightarrow> nat \<Rightarrow> nat \<Rightarrow> (8 word list) option res" where
  "dmi_getstring mem p number =
     rbind (e_length mem p) (\<lambda>len.
       if number = 0 then Inr (Some [])
       else rbind (getstring_loop mem number (p + len)) (\<lambda>r.
         case r of None \<Rightarrow> Inr None | Some s \<Rightarrow> rbind (cstr mem s) (\<lambda>t. Inr (Some t))))"

text \<open>
  \<^verbatim>\<open>dmi_sanity_check\<close>: neighbouring ranges must not overlap, one range does not serve more than two devices,
  and the locators (the string number at offset 16) are there and distinct.
\<close>

fun ranges_disjoint :: "memory \<Rightarrow> nat list \<Rightarrow> nat \<Rightarrow> nat option res" where
  "ranges_disjoint mem (p # q # ps) numranges =
     rbind (dmi_get_memdev_addr64 mem p) (\<lambda>(s_addr, e_addr).
     rbind (dmi_get_memdev_addr64 mem q) (\<lambda>(s_addr1, e_addr1).
       if s_addr1 \<le> e_addr then Inr None
       else ranges_disjoint mem (q # ps) (if e_addr \<le> s_addr1 then numranges + 1 else numranges)))"
| "ranges_disjoint mem ps numranges = Inr (Some numranges)"

definition locator :: "memory \<Rightarrow> nat \<Rightarrow> (8 word list) option res" where
  "locator mem p = rbind (rd mem (p + 16)) (dmi_getstring mem p)"

fun locators_unique :: "memory \<Rightarrow> nat list \<Rightarrow> (8 word list) list \<Rightarrow> bool res" where
  "locators_unique mem [] seen = Inr True"
| "locators_unique mem (p # ps) seen =
     rbind (locator mem p) (\<lambda>l.
       case l of None \<Rightarrow> Inr False
       | Some loc \<Rightarrow> if loc \<in> set seen then Inr False else locators_unique mem ps (seen @ [loc]))"

definition dmi_sanity_check :: "memory \<Rightarrow> dmi_tables \<Rightarrow> bool res" where
  "dmi_sanity_check mem t =
     (if dmi_ranges t = [] then Inr False
      else rbind (ranges_disjoint mem (dmi_ranges t) 0) (\<lambda>r.
        case r of None \<Rightarrow> Inr False
        | Some numranges \<Rightarrow>
            if numranges = 1 \<and> length (dmi_dimms t) > 2 then Inr False
            else locators_unique mem (dmi_dimms t) []))"

text \<open>\<^verbatim>\<open>dmi_find_addr\<close> and \<^verbatim>\<open>dmi_decodeaddr\<close>: the handle of a range's device is the half-word at offset 12.\<close>

fun find_devs :: "memory \<Rightarrow> (nat \<Rightarrow> nat option) \<Rightarrow> nat \<Rightarrow> nat list \<Rightarrow> nat list res" where
  "find_devs mem h addr [] = Inr []"
| "find_devs mem h addr (p # ps) =
     rbind (dmi_get_memdev_addr64 mem p) (\<lambda>(s_addr, e_addr).
       if addr < s_addr \<or> e_addr \<le> addr then find_devs mem h addr ps
       else rbind (rd_le mem (p + 12) 2) (\<lambda>k.
         if 0xFFFF \<le> k then Inl Oob_access
         else rbind (find_devs mem h addr ps) (\<lambda>r. Inr (case h k of Some d \<Rightarrow> d # r | None \<Rightarrow> r))))"

definition dmi_find_addr :: "memory \<Rightarrow> dmi_tables \<Rightarrow> nat \<Rightarrow> nat list res" where
  "dmi_find_addr mem t addr = find_devs mem (handle_to_entry t) addr (dmi_ranges t)"

definition dmi_decodeaddr :: "memory \<Rightarrow> dmi_tables \<Rightarrow> nat \<Rightarrow> nat option res" where
  "dmi_decodeaddr mem t addr = rbind (dmi_find_addr mem t addr) (\<lambda>devs. Inr (case devs of [] \<Rightarrow> None | d # _ \<Rightarrow> Some d))"

definition checkdmi ::
  "((nat \<times> (nat \<times> nat) \<Rightarrow> nat \<times> (nat \<times> nat) \<Rightarrow> int) \<Rightarrow> (nat \<times> (nat \<times> nat)) list \<Rightarrow> (nat \<times> (nat \<times> nat)) list) \<Rightarrow>
   (memory \<times> nat \<times> nat) option \<Rightarrow> (dmi_tables \<times> bool) option res" where
  "checkdmi qs opened =
     (case opened of
        None \<Rightarrow> Inr None
      | Some (mem, dmi_length, numentries) \<Rightarrow>
          rbind (collect_dmi_dimms qs mem dmi_length numentries) (\<lambda>t.
          rbind (dmi_sanity_check mem t) (\<lambda>ok. Inr (Some (t, ok)))))"

section \<open>No wild access while the tables are read\<close>

lemma rd_ok: "i < length mem \<Longrightarrow> \<exists>b. rd mem i = Inr b"
  by (simp add: rd_def)

lemma rd_le_ok: "i + n \<le> length mem \<Longrightarrow> \<exists>v. rd_le mem i n = Inr v"
proof (induction n arbitrary: i)
  case (Suc n)
  then obtain b where "rd mem i = Inr b" using rd_ok [of i mem] by auto
  moreover obtain v where "rd_le mem (i + 1) n = Inr v" using Suc.IH [of "i + 1"] Suc.prems by auto
  ultimately show ?case by simp
qed simp

lemma skip_str_ok: "e \<le> length mem \<Longrightarrow> \<exists>t. skip_str mem e s = Inr t \<and> s \<le> t"
proof (induction mem e s rule: skip_str.induct)
  case (1 mem e s)
  show ?case
  proof (cases "s + 1 < e")
    case True
    then obtain b where b: "rd mem s = Inr b" using rd_ok [of s mem] 1(2) by auto
    show ?thesis
    proof (cases "b = 0")
      case False
      with 1(1) [OF True b False 1(2)] show ?thesis
        using True b by (auto simp: skip_str.simps [of mem e s])
    qed (use True b in \<open>simp add: skip_str.simps [of mem e s]\<close>)
  qed (simp add: skip_str.simps [of mem e s])
qed

lemma set_walk_ok:
  "e \<le> length mem \<Longrightarrow> \<exists>r. set_walk mem e s = Inr r \<and> (\<forall>z. r = Some z \<longrightarrow> s < z \<and> z < e)"
proof (induction mem e s rule: set_walk.induct)
  case (1 mem e s)
  obtain t where t: "skip_str mem e s = Inr t" "s \<le> t" using skip_str_ok [OF 1(2)] by blast
  show ?case
  proof (cases "e \<le> t + 1")
    case False
    then obtain b where b: "rd mem (t + 1) = Inr b" using rd_ok [of "t + 1" mem] 1(2) by auto
    show ?thesis
    proof (cases "b = 0")
      case nz: False
      from 1(1) [OF t(1) False b nz 1(2)] t show ?thesis
        using False b nz by (fastforce simp: set_walk.simps [of mem e s])
    qed (use False t b in \<open>simp add: set_walk.simps [of mem e s]\<close>)
  qed (use t in \<open>simp add: set_walk.simps [of mem e s]\<close>)
qed

text \<open>What a visited entry is good for: its formatted area and one byte more lie inside the table.\<close>

definition good_entry :: "memory \<Rightarrow> nat \<Rightarrow> nat \<Rightarrow> bool" where
  "good_entry mem len p \<longleftrightarrow> p + 4 \<le> length mem \<and> (\<exists>l. e_length mem p = Inr l \<and> p + l < len)"

lemma check_entry_ok:
  assumes "len + 4 \<le> length mem" "p \<le> len"
  shows "\<exists>r. check_entry mem len (Some p) = Inr r \<and>
    (case r of Some next \<Rightarrow> good_entry mem len p \<and> (\<forall>q. next = Some q \<longrightarrow> q \<le> len) | None \<Rightarrow> True)"
proof -
  obtain l where l: "rd mem (p + 1) = Inr l" using rd_ok [of "p + 1" mem] assms by auto
  obtain r where r: "set_walk mem len (p + l) = Inr r" "\<forall>z. r = Some z \<longrightarrow> p + l < z \<and> z < len"
    using set_walk_ok [of len mem "p + l"] assms by auto
  show ?thesis using l r assms
    by (auto simp: check_entry_def good_entry_def e_length_def split: option.splits)
qed

lemma entry_loop_ok:
  assumes "len + 4 \<le> length mem" "\<forall>p. e = Some p \<longrightarrow> p \<le> len"
  shows "\<exists>es. entry_loop mem len n e = Inr es \<and> list_all (good_entry mem len) es"
  using assms(2)
proof (induction n arbitrary: e)
  case (Suc n)
  show ?case
  proof (cases e)
    case None
    then show ?thesis by (simp add: check_entry_def)
  next
    case (Some p)
    then have "p \<le> len" using Suc.prems by simp
    from check_entry_ok [OF assms(1) this] obtain r where r: "check_entry mem len (Some p) = Inr r"
      "case r of Some next \<Rightarrow> good_entry mem len p \<and> (\<forall>q. next = Some q \<longrightarrow> q \<le> len) | None \<Rightarrow> True" by blast
    show ?thesis
    proof (cases r)
      case None
      then show ?thesis using Some r by simp
    next
      case (Some nx)
      with r Suc.IH [of nx] show ?thesis using \<open>e = Some p\<close> by auto
    qed
  qed
qed simp

lemma rd_lt: "rd mem i = Inr b \<Longrightarrow> b < 256"
  using unsigned_less [of "mem ! i", where ?'a = nat] by (auto simp: rd_def split: if_splits)

lemma rd_le_lt: "rd_le mem i n = Inr v \<Longrightarrow> v < 256 ^ n"
proof (induction n arbitrary: i v)
  case (Suc n)
  then obtain b r where "rd mem i = Inr b" "rd_le mem (i + 1) n = Inr r" "v = b + 256 * r" by auto
  with Suc.IH [of "i + 1" r] rd_lt [of mem i b] show ?case by simp
qed simp

lemma fill_handles_ok:
  "list_all (good_entry mem len) es \<Longrightarrow>
   (\<exists>h'. fill_handles mem es h = Inr h') \<or>
   (fill_handles mem es h = Inl Buf_overflow \<and> (\<exists>p \<in> set es. e_handle mem p = Inr 0xFFFF))"
proof (induction es arbitrary: h)
  case (Cons p ps)
  then obtain k where k: "e_handle mem p = Inr k"
    using rd_le_ok [of "p + 2" 2 mem] by (auto simp: e_handle_def good_entry_def)
  then have "k < 65536" using rd_le_lt [of mem "p + 2" 2 k] by (simp add: e_handle_def)
  then show ?case using k Cons by (cases "k = 0xFFFF") auto
qed simp

definition sized :: "memory \<Rightarrow> nat \<Rightarrow> nat \<Rightarrow> nat \<Rightarrow> bool" where
  "sized mem len n p \<longleftrightarrow> p + 4 \<le> length mem \<and> (\<exists>l. e_length mem p = Inr l \<and> n \<le> l \<and> p + l < len)"

lemma dmi_collect_ok:
  assumes "len \<le> length mem" "ty = DMI_MEMORY_DEVICE \<Longrightarrow> 14 \<le> minsize"
  shows "list_all (good_entry mem len) es \<Longrightarrow>
    \<exists>r. dmi_collect mem ty minsize es = Inr r \<and> list_all (sized mem len minsize) r"
proof (induction es)
  case (Cons p ps)
  then obtain l where l: "e_length mem p = Inr l" "p + l < len" "p + 4 \<le> length mem" by (auto simp: good_entry_def)
  obtain t where t: "e_type mem p = Inr t" using rd_ok [of p mem] l(3) by (auto simp: e_type_def)
  have "\<exists>sz. rd_le mem (p + 12) 2 = Inr sz" if "minsize \<le> l" "ty = DMI_MEMORY_DEVICE"
    using that assms l rd_le_ok [of "p + 12" 2 mem] by force
  then obtain keep where "(if t = ty \<and> minsize \<le> l \<and> ty = DMI_MEMORY_DEVICE
      then rbind (rd_le mem (p + 12) 2) (\<lambda>sz. Inr (sz \<noteq> 0)) else Inr (t = ty \<and> minsize \<le> l)) = Inr keep"
    "keep \<longrightarrow> minsize \<le> l"
  proof (cases "t = ty \<and> minsize \<le> l \<and> ty = DMI_MEMORY_DEVICE")
    case True
    with \<open>minsize \<le> l \<Longrightarrow> ty = DMI_MEMORY_DEVICE \<Longrightarrow> \<exists>sz. rd_le mem (p + 12) 2 = Inr sz\<close>
    obtain sz where "rd_le mem (p + 12) 2 = Inr sz" by auto
    with True that [of "sz \<noteq> 0"] show ?thesis by simp
  next
    case False
    with that [of "t = ty \<and> minsize \<le> l"] show ?thesis by simp
  qed
  moreover obtain r where "dmi_collect mem ty minsize ps = Inr r" "list_all (sized mem len minsize) r"
    using Cons by auto
  moreover have "keep \<Longrightarrow> sized mem len minsize p" using calculation(2) l by (auto simp: sized_def)
  ultimately show ?case using t l(1) by auto
qed simp

lemma get_addr64_ok:
  assumes "sized mem len 14 p" "len + 4 \<le> length mem" "off + 16 \<le> minlen + 4"
  shows "\<exists>r. get_addr64 minlen off mem p = Inr r"
proof -
  obtain l where l: "e_length mem p = Inr l" "14 \<le> l" "p + l < len" using assms(1) by (auto simp: sized_def)
  obtain sa ea where "rd_le mem (p + 4) 4 = Inr sa" "rd_le mem (p + 8) 4 = Inr ea"
    using l assms rd_le_ok [of "p + 4" 4 mem] rd_le_ok [of "p + 8" 4 mem] by auto
  moreover have "\<exists>s. rd_le mem (p + off) 8 = Inr s" "\<exists>e. rd_le mem (p + off + 8) 8 = Inr e" if "minlen \<le> l"
    using l assms that rd_le_ok [of "p + off" 8 mem] rd_le_ok [of "p + off + 8" 8 mem] by auto
  ultimately show ?thesis using l(1) by (auto simp: get_addr64_def)
qed

lemma load_ranges_ok:
  "list_all (\<lambda>p. \<exists>r. get p = Inr r) ps \<Longrightarrow> \<exists>rs. load_ranges get ps = Inr rs \<and> map fst rs = ps"
  by (induction ps) auto

lemma sort_ranges_ok:
  assumes "list_all (\<lambda>p. \<exists>r. get p = Inr r) ps" "\<forall>c xs. set (qs c xs) = set xs"
  shows "\<exists>r. sort_ranges qs get ps = Inr r \<and> set r = set ps"
proof -
  obtain rs where rs: "load_ranges get ps = Inr rs" "map fst rs = ps" using load_ranges_ok [OF assms(1)] by blast
  have "set (map fst (qs (\<lambda>a b. cmp_ranges (snd a) (snd b)) rs)) = set ps"
    using assms(2) rs(2) by (metis list.set_map)
  then show ?thesis using rs(1) by (simp add: sort_ranges_def)
qed

lemma collect_dmi_safe:
  assumes "dmi_length + 4 \<le> length mem" "\<forall>c xs. set (qs c xs) = set xs"
  shows "(\<exists>t. collect_dmi_dimms qs mem dmi_length n = Inr t \<and>
      list_all (sized mem dmi_length 14) (dmi_ranges t) \<and> list_all (sized mem dmi_length 17) (dmi_dimms t)) \<or>
    (collect_dmi_dimms qs mem dmi_length n = Inl Buf_overflow \<and>
      (\<exists>es. entry_loop mem dmi_length n (Some 0) = Inr es \<and> (\<exists>p \<in> set es. e_handle mem p = Inr 0xFFFF)))"
proof -
  obtain es where es: "entry_loop mem dmi_length n (Some 0) = Inr es" "list_all (good_entry mem dmi_length) es"
    using entry_loop_ok [OF assms(1), of "Some 0" n] by auto
  have le: "dmi_length \<le> length mem" using assms(1) by simp
  obtain rs0 ds as ars0 where c:
    "dmi_collect mem DMI_MEMORY_MAPPED_ADDR 14 es = Inr rs0" "list_all (sized mem dmi_length 14) rs0"
    "dmi_collect mem DMI_MEMORY_DEVICE 17 es = Inr ds" "list_all (sized mem dmi_length 17) ds"
    "dmi_collect mem DMI_MEMORY_ARRAY 5 es = Inr as"
    "dmi_collect mem DMI_MEMORY_ARRAY_ADDR 14 es = Inr ars0" "list_all (sized mem dmi_length 14) ars0"
    using dmi_collect_ok [OF le _ es(2), of DMI_MEMORY_MAPPED_ADDR 14] dmi_collect_ok [OF le _ es(2), of DMI_MEMORY_DEVICE 17]
      dmi_collect_ok [OF le _ es(2), of DMI_MEMORY_ARRAY 5] dmi_collect_ok [OF le _ es(2), of DMI_MEMORY_ARRAY_ADDR 14]
    by (auto simp: DMI_MEMORY_DEVICE_def DMI_MEMORY_ARRAY_def)
  obtain rs where rs: "sort_ranges qs (dmi_get_memdev_addr64 mem) rs0 = Inr rs" "set rs = set rs0"
    using sort_ranges_ok [of "dmi_get_memdev_addr64 mem" rs0 qs] assms(2) c(2) get_addr64_ok [OF _ assms(1), where off = 19 and minlen = "0x23"]
    by (auto simp: list_all_iff dmi_get_memdev_addr64_def)
  obtain ars where ars: "sort_ranges qs (dmi_get_memarray_addr64 mem) ars0 = Inr ars"
    using sort_ranges_ok [of "dmi_get_memarray_addr64 mem" ars0 qs] assms(2) c(7) get_addr64_ok [OF _ assms(1), where off = 18 and minlen = "0x1F"]
    by (auto simp: list_all_iff dmi_get_memarray_addr64_def)
  from fill_handles_ok [OF es(2), of "\<lambda>_. None"] show ?thesis
  proof
    assume "\<exists>h'. fill_handles mem es (\<lambda>_. None) = Inr h'"
    then obtain h where h: "fill_handles mem es (\<lambda>_. None) = Inr h" by blast
    have "collect_dmi_dimms qs mem dmi_length n =
        Inr \<lparr>dmi_ranges = rs, dmi_dimms = ds, dmi_arrays = as, dmi_array_ranges = ars, handle_to_entry = h\<rparr>"
      unfolding collect_dmi_dimms_def by (simp add: es h c rs ars)
    moreover have "list_all (sized mem dmi_length 14) rs" using c(2) rs(2) by (simp add: list_all_iff)
    ultimately show ?thesis using c(4) by simp
  next
    assume "fill_handles mem es (\<lambda>_. None) = Inl Buf_overflow \<and> (\<exists>p \<in> set es. e_handle mem p = Inr 0xFFFF)"
    then show ?thesis using es by (simp add: collect_dmi_dimms_def)
  qed
qed


section \<open>Reading back a table\<close>

text \<open>A structure as firmware writes it: header, formatted area, strings, each ended by a zero, and a final zero.\<close>

record smb =
  sm_type :: "8 word"
  sm_handle_lo :: "8 word"
  sm_handle_hi :: "8 word"
  sm_body :: "8 word list"
  sm_strings :: "8 word list list"

definition string_set :: "8 word list list \<Rightarrow> 8 word list" where
  "string_set ss = concat (map (\<lambda>s. s @ [0]) (if ss = [] then [[]] else ss)) @ [0]"

definition smb_bytes :: "smb \<Rightarrow> 8 word list" where
  "smb_bytes x = [sm_type x, of_nat (4 + length (sm_body x)), sm_handle_lo x, sm_handle_hi x] @ sm_body x @ string_set (sm_strings x)"

definition smb_ok :: "smb \<Rightarrow> bool" where
  "smb_ok x \<longleftrightarrow> length (sm_body x) < 252 \<and> list_all (\<lambda>s. s \<noteq> [] \<and> 0 \<notin> set s) (sm_strings x)"

fun offsets :: "nat \<Rightarrow> smb list \<Rightarrow> nat list" where
  "offsets o1 [] = []"
| "offsets o1 (x # xs) = o1 # offsets (o1 + length (smb_bytes x)) xs"

lemma rd_append: "rd (pre @ b # post) (length pre) = Inr (unat b)"
  by (simp add: rd_def)

lemma rd_at: "mem = pre @ b # post \<Longrightarrow> i = length pre \<Longrightarrow> rd mem i = Inr (unat b)"
  by (simp add: rd_append)

lemma skip_str_string:
  "mem = pre @ str1 @ 0 # post \<Longrightarrow> 0 \<notin> set str1 \<Longrightarrow> length pre + length str1 + 1 < e \<Longrightarrow>
   skip_str mem e (length pre) = Inr (length pre + length str1)"
proof (induction str1 arbitrary: pre)
  case Nil
  then have "rd mem (length pre) = Inr 0" using rd_at [of mem pre 0 post] by simp
  then show ?case using Nil by (subst skip_str.simps) simp
next
  case (Cons c cs1)
  then have r: "rd mem (length pre) = Inr (unat c)" using rd_at [of mem pre c "cs1 @ 0 # post"] by simp
  moreover have "unat c \<noteq> 0" using Cons.prems(2) by (auto simp: unat_eq_0)
  moreover have "skip_str mem e (length (pre @ [c])) = Inr (length (pre @ [c]) + length cs1)"
    using Cons.prems by (intro Cons.IH) auto
  ultimately show ?case using Cons.prems(3) by (simp add: skip_str.simps [of mem e "length pre"])
qed

text \<open>The strings may be of any content but empty, except for a single empty one.\<close>

lemma set_walk_strings:
  assumes "list_all (\<lambda>s. 0 \<notin> set s) ss" "list_all (\<lambda>s. s \<noteq> []) (tl ss)" "ss \<noteq> []"
    "mem = pre @ concat (map (\<lambda>s. s @ [0]) ss) @ 0 # post"
    "length pre + length (concat (map (\<lambda>s. s @ [0]) ss)) < e"
  shows "set_walk mem e (length pre) = Inr (Some (length pre + length (concat (map (\<lambda>s. s @ [0 :: 8 word]) ss))))"
  using assms
proof (induction ss arbitrary: pre)
  case (Cons s ss)
  have sk: "skip_str mem e (length pre) = Inr (length pre + length s)"
    by (rule skip_str_string [of mem pre s "concat (map (\<lambda>s. s @ [0]) ss) @ 0 # post"]) (use Cons.prems in auto)
  have t: "\<not> e \<le> length pre + length s + 1" using Cons.prems(5) by simp
  show ?case
  proof (cases ss)
    case Nil
    then have "rd mem (length pre + length s + 1) = Inr 0"
      using rd_at [of mem "pre @ s @ [0]" 0 post] Cons.prems(4) by simp
    then show ?thesis using sk t Nil by (simp add: set_walk.simps [of mem e])
  next
    case (Cons s2 ss2)
    then obtain c r where c: "s2 = c # r" "c \<noteq> 0" using Cons.prems(1,2) by (cases s2) auto
    have "rd mem (length pre + length s + 1) = Inr (unat c)"
      by (rule rd_at [of mem "pre @ s @ [0]" c "r @ 0 # concat (map (\<lambda>s. s @ [0]) ss2) @ 0 # post"])
        (use Cons.prems(4) Cons c in auto)
    moreover have "unat c \<noteq> 0" using c(2) by (simp add: unat_eq_0)
    moreover have "set_walk mem e (length (pre @ s @ [0])) =
        Inr (Some (length (pre @ s @ [0]) + length (concat (map (\<lambda>s. s @ [0 :: 8 word]) ss))))"
      by (rule Cons.IH) (use Cons.prems Cons in auto)
    ultimately show ?thesis using sk t by (simp add: set_walk.simps [of mem e "length pre"])
  qed
qed simp

lemma set_walk_string_set:
  assumes "list_all (\<lambda>s. s \<noteq> [] \<and> 0 \<notin> set s) ss" "mem = pre @ string_set ss @ post"
    "length pre + length (string_set ss) \<le> e"
  shows "set_walk mem e (length pre) = Inr (Some (length pre + length (string_set ss) - 1))"
proof -
  let ?ss = "if ss = [] then [[]] else ss"
  have "set_walk mem e (length pre) = Inr (Some (length pre + length (concat (map (\<lambda>s. s @ [0 :: 8 word]) ?ss))))"
    by (rule set_walk_strings [of ?ss]) (use assms in \<open>auto simp: string_set_def list_all_iff dest: list.set_sel(2)\<close>)
  then show ?thesis by (simp add: string_set_def)
qed

lemma check_entry_smb:
  assumes "smb_ok x" "mem = pre @ smb_bytes x @ post" "length pre + length (smb_bytes x) \<le> len"
  shows "check_entry mem len (Some (length pre)) = Inr (Some (Some (length pre + length (smb_bytes x))))"
proof -
  let ?l = "4 + length (sm_body x)"
  have l: "unat (of_nat ?l :: 8 word) = ?l" unfolding unsigned_of_nat
    using assms(1) by (simp add: smb_ok_def take_bit_eq_mod)
  have "rd mem (length pre + 1) = Inr (unat (of_nat ?l :: 8 word))"
    by (rule rd_at [of mem "pre @ [sm_type x]" _ "sm_handle_lo x # sm_handle_hi x # sm_body x @ string_set (sm_strings x) @ post"])
      (use assms(2) in \<open>simp_all add: smb_bytes_def\<close>)
  then have r: "rd mem (length pre + 1) = Inr ?l" using l by simp
  define hd1 where "hd1 = pre @ [sm_type x, of_nat ?l, sm_handle_lo x, sm_handle_hi x] @ sm_body x"
  have h: "length hd1 = length pre + ?l" "mem = hd1 @ string_set (sm_strings x) @ post"
    "length hd1 + length (string_set (sm_strings x)) = length pre + length (smb_bytes x)"
    using assms(2) by (simp_all add: hd1_def smb_bytes_def)
  have "set_walk mem len (length hd1) = Inr (Some (length hd1 + length (string_set (sm_strings x)) - 1))"
    by (rule set_walk_string_set) (use assms h in \<open>simp_all add: smb_ok_def\<close>)
  moreover have "0 < length (smb_bytes x)" by (simp add: smb_bytes_def)
  ultimately show ?thesis using r h assms(3) by (simp add: check_entry_def)
qed

lemma entry_loop_smb:
  assumes "list_all smb_ok xs" "mem = pre @ concat (map smb_bytes xs) @ post"
    "length pre + length (concat (map smb_bytes xs)) \<le> len"
  shows "entry_loop mem len (length xs) (Some (length pre)) = Inr (offsets (length pre) xs)"
  using assms
proof (induction xs arbitrary: pre)
  case (Cons x xs)
  have "check_entry mem len (Some (length pre)) = Inr (Some (Some (length pre + length (smb_bytes x))))"
    by (rule check_entry_smb [of x mem pre "concat (map smb_bytes xs) @ post"]) (use Cons.prems in auto)
  moreover have "entry_loop mem len (length xs) (Some (length (pre @ smb_bytes x))) = Inr (offsets (length (pre @ smb_bytes x)) xs)"
    by (rule Cons.IH) (use Cons.prems in auto)
  ultimately show ?case by simp
qed simp

lemma nul_from_string: "mem = pre @ str1 @ 0 # post \<Longrightarrow> 0 \<notin> set str1 \<Longrightarrow> nul_from mem (length pre) = Inr (length pre + length str1)"
proof (induction str1 arbitrary: pre)
  case Nil
  then show ?case by (subst nul_from.simps) simp
next
  case (Cons c cs1)
  then have "nul_from mem (length (pre @ [c])) = Inr (length (pre @ [c]) + length cs1)"
    by (intro Cons.IH) auto
  moreover have "mem ! length pre = c" "length pre < length mem" using Cons.prems(1) by simp_all
  ultimately show ?case using Cons.prems(2) by (subst nul_from.simps) auto
qed

lemma cstr_string:
  assumes "mem = pre @ str1 @ 0 # post" "0 \<notin> set str1"
  shows "cstr mem (length pre) = Inr str1"
proof -
  have "drop (length pre) mem = str1 @ 0 # post" using assms(1) by simp
  then show ?thesis using nul_from_string [OF assms] by (simp add: cstr_def)
qed

text \<open>The \<open>k\<close>-th string, counted from 0, starts behind the ones before it.\<close>

lemma getstring_loop_strings:
  assumes "list_all (\<lambda>s. s \<noteq> [] \<and> 0 \<notin> set s) ss"
    "mem = pre @ concat (map (\<lambda>s. s @ [0]) ss) @ 0 # post" "ss \<noteq> []"
  shows "getstring_loop mem (Suc k) (length pre) =
    Inr (if k < length ss then Some (length pre + length (concat (map (\<lambda>s. s @ [0 :: 8 word]) (take k ss)))) else None)"
  using assms
proof (induction ss arbitrary: pre k)
  case (Cons s ss)
  show ?case
  proof (cases k)
    case (Suc j)
    have n: "nul_from mem (length pre) = Inr (length pre + length s)"
      by (rule nul_from_string [of mem pre s "concat (map (\<lambda>s. s @ [0]) ss) @ 0 # post"]) (use Cons.prems in auto)
    show ?thesis
    proof (cases ss)
      case Nil
      then have "rd mem (length pre + length s + 1) = Inr 0"
        using rd_at [of mem "pre @ s @ [0]" 0 post] Cons.prems(2) by simp
      then show ?thesis using n Suc Nil by simp
    next
      case (Cons s2 ss2)
      then obtain c r where c: "s2 = c # r" "c \<noteq> 0" using Cons.prems(1) by (cases s2) auto
      have "rd mem (length pre + length s + 1) = Inr (unat c)"
        by (rule rd_at [of mem "pre @ s @ [0]" c "r @ 0 # concat (map (\<lambda>s. s @ [0]) ss2) @ 0 # post"])
          (use Cons.prems(2) Cons c in auto)
      moreover have "unat c \<noteq> 0" using c(2) by (simp add: unat_eq_0)
      moreover have "getstring_loop mem (Suc j) (length (pre @ s @ [0])) =
          Inr (if j < length ss then Some (length (pre @ s @ [0]) + length (concat (map (\<lambda>s. s @ [0 :: 8 word]) (take j ss)))) else None)"
        by (rule Cons.IH) (use Cons.prems Cons in auto)
      ultimately show ?thesis using n Suc by (simp del: getstring_loop.simps(2) add: getstring_loop.simps(2) [of mem "Suc j"])
    qed
  qed simp
qed simp

lemma dmi_getstring_smb:
  assumes "smb_ok x" "mem = pre @ smb_bytes x @ post" "sm_strings x \<noteq> []"
  shows "dmi_getstring mem (length pre) (Suc k) = Inr (if k < length (sm_strings x) then Some (sm_strings x ! k) else None)"
proof -
  let ?l = "4 + length (sm_body x)" and ?ss = "sm_strings x"
  define hd1 where "hd1 = pre @ [sm_type x, of_nat ?l, sm_handle_lo x, sm_handle_hi x] @ sm_body x"
  have l: "unat (of_nat ?l :: 8 word) = ?l" unfolding unsigned_of_nat
    using assms(1) by (simp add: smb_ok_def take_bit_eq_mod)
  have "rd mem (length pre + 1) = Inr (unat (of_nat ?l :: 8 word))"
    by (rule rd_at [of mem "pre @ [sm_type x]" _ "sm_handle_lo x # sm_handle_hi x # sm_body x @ string_set ?ss @ post"])
      (use assms(2) in \<open>simp_all add: smb_bytes_def\<close>)
  then have e: "e_length mem (length pre) = Inr ?l" using l by (simp add: e_length_def)
  have h: "length hd1 = length pre + ?l" "mem = hd1 @ concat (map (\<lambda>s. s @ [0]) ?ss) @ 0 # post"
    using assms(2,3) by (simp_all add: hd1_def smb_bytes_def string_set_def)
  have ok: "list_all (\<lambda>s. s \<noteq> [] \<and> 0 \<notin> set s) ?ss" using assms(1) by (simp add: smb_ok_def)
  have g: "getstring_loop mem (Suc k) (length pre + ?l) =
      Inr (if k < length ?ss then Some (length hd1 + length (concat (map (\<lambda>s. s @ [0]) (take k ?ss)))) else None)"
    using getstring_loop_strings [OF ok h(2) assms(3), of k] h(1) by simp
  have "cstr mem (length hd1 + length (concat (map (\<lambda>s. s @ [0]) (take k ?ss)))) = Inr (?ss ! k)" if k: "k < length ?ss"
  proof -
    have sp: "?ss = take k ?ss @ ?ss ! k # drop (Suc k) ?ss" using k by (simp add: id_take_nth_drop)
    have "concat (map (\<lambda>s. s @ [0]) ?ss) = concat (map (\<lambda>s. s @ [0]) (take k ?ss)) @ (?ss ! k @ [0]) @
        concat (map (\<lambda>s. s @ [0]) (drop (Suc k) ?ss))"
      by (subst (1) sp) (simp del: append_assoc add: append_assoc [symmetric])
    then have "mem = (hd1 @ concat (map (\<lambda>s. s @ [0]) (take k ?ss))) @ ?ss ! k @ 0 #
        (concat (map (\<lambda>s. s @ [0]) (drop (Suc k) ?ss)) @ 0 # post)" using h(2) by simp
    from cstr_string [OF this] show ?thesis using ok k by (simp add: list_all_length)
  qed
  then show ?thesis using e g by (auto simp: dmi_getstring_def simp del: getstring_loop.simps)
qed

text \<open>
  C28. A well-formed SMBIOS table is read back exactly: with the announced number of structures the walk visits
  every structure once, in order, at the place it was written, whatever follows the table in memory, and
  \<^verbatim>\<open>dmi_getstring\<close> returns for every structure with strings the string of each number from 1 on, and a null
  pointer for a number it does not have.
\<close>

theorem dmi_table_roundtrip:
  assumes "list_all smb_ok xs" "mem = concat (map smb_bytes xs) @ post" "dmi_length = length (concat (map smb_bytes xs))"
  shows "entry_loop mem dmi_length (length xs) (Some 0) = Inr (offsets 0 xs) \<and>
    (\<forall>i < length xs. sm_strings (xs ! i) \<noteq> [] \<longrightarrow>
      (\<forall>k. dmi_getstring mem (length (concat (map smb_bytes (take i xs)))) (Suc k) =
        Inr (if k < length (sm_strings (xs ! i)) then Some (sm_strings (xs ! i) ! k) else None)))"
proof (intro conjI allI impI)
  show "entry_loop mem dmi_length (length xs) (Some 0) = Inr (offsets 0 xs)"
    using entry_loop_smb [of xs mem "[]" post dmi_length] assms by simp
next
  fix i k assume i: "i < length xs" "sm_strings (xs ! i) \<noteq> []"
  have sp: "xs = take i xs @ xs ! i # drop (Suc i) xs" using i(1) by (simp add: id_take_nth_drop)
  have "concat (map smb_bytes xs) = concat (map smb_bytes (take i xs)) @ smb_bytes (xs ! i) @ concat (map smb_bytes (drop (Suc i) xs))"
    by (subst (1) sp) (simp del: append_assoc add: append_assoc [symmetric])
  then have "mem = concat (map smb_bytes (take i xs)) @ smb_bytes (xs ! i) @ (concat (map smb_bytes (drop (Suc i) xs)) @ post)"
    using assms(2) by simp
  moreover have "smb_ok (xs ! i)" using assms(1) i(1) by (simp add: list_all_length)
  ultimately show "dmi_getstring mem (length (concat (map smb_bytes (take i xs)))) (Suc k) =
      Inr (if k < length (sm_strings (xs ! i)) then Some (sm_strings (xs ! i) ! k) else None)"
    using dmi_getstring_smb i(2) by blast
qed

section \<open>From an address to its device\<close>

text \<open>The range an entry describes and the handle of its device.\<close>

definition range_is :: "memory \<Rightarrow> nat \<Rightarrow> nat \<times> nat \<times> nat \<Rightarrow> bool" where
  "range_is mem p r \<longleftrightarrow> dmi_get_memdev_addr64 mem p = Inr (fst r, fst (snd r)) \<and> rd_le mem (p + 12) 2 = Inr (snd (snd r))"

definition serves :: "(nat \<Rightarrow> nat option) \<Rightarrow> nat \<Rightarrow> nat \<times> nat \<times> nat \<Rightarrow> bool" where
  "serves h addr r \<longleftrightarrow> fst r \<le> addr \<and> addr < fst (snd r) \<and> h (snd (snd r)) \<noteq> None"

text \<open>
  C29. The lookup of an address finds exactly the devices of the ranges that cover it, in the order of the
  ranges, skipping ranges whose handle belongs to no entry. A range covers the addresses from its start up to but
  not including its end, although the end is the last byte of the range: an address there is never found.
\<close>

theorem dmi_find_addr_exact:
  assumes "list_all2 (range_is mem) (dmi_ranges t) rs" "list_all (\<lambda>r. snd (snd r) < 0xFFFF) rs"
  shows "dmi_find_addr mem t addr =
      Inr (map (\<lambda>r. the (handle_to_entry t (snd (snd r)))) (filter (serves (handle_to_entry t) addr) rs)) \<and>
    (dmi_decodeaddr mem t addr = Inr None \<longleftrightarrow> filter (serves (handle_to_entry t) addr) rs = [])"
proof -
  have "find_devs mem (handle_to_entry t) addr ps =
      Inr (map (\<lambda>r. the (handle_to_entry t (snd (snd r)))) (filter (serves (handle_to_entry t) addr) rs))"
    if "list_all2 (range_is mem) ps rs" "list_all (\<lambda>r. snd (snd r) < 0xFFFF) rs" for ps rs
    using that
  proof (induction rule: list_all2_induct)
    case (Cons p ps r rs)
    then show ?case
      by (cases "handle_to_entry t (snd (snd r))") (auto simp: range_is_def serves_def)
  qed simp
  from this [OF assms] show ?thesis
    by (auto simp: dmi_find_addr_def dmi_decodeaddr_def split: list.splits)
qed

text \<open>Two structures: a memory device with handle 5 and locator \<open>A1\<close>, and the range 1 MB to 2 MB mapped to it.\<close>

definition demo_smb :: "smb list" where
  "demo_smb = [
     \<lparr>sm_type = 17, sm_handle_lo = 5, sm_handle_hi = 0, sm_body = [0, 0, 0, 0, 64, 0, 64, 0, 1, 0, 9, 0, 1], sm_strings = [[65, 49]]\<rparr>,
     \<lparr>sm_type = 20, sm_handle_lo = 6, sm_handle_hi = 0, sm_body = [0, 4, 0, 0, 255, 7, 0, 0, 5, 0], sm_strings = []\<rparr>]"

definition demo_mem :: memory where
  "demo_mem = concat (map smb_bytes demo_smb) @ [0, 0, 0, 0]"

lemma demo_smb_ok: "list_all smb_ok demo_smb"
  by (simp add: demo_smb_def smb_ok_def)

theorem dmi_table_roundtrip_witness:
  "entry_loop demo_mem (length (concat (map smb_bytes demo_smb))) 2 (Some 0) = Inr [0, 21] \<and>
   dmi_getstring demo_mem 0 1 = Inr (Some [65, 49])"
proof -
  have "offsets 0 demo_smb = [0, 21]" by (simp add: demo_smb_def smb_bytes_def string_set_def)
  moreover have "length demo_smb = 2" "sm_strings (demo_smb ! 0) = [[65, 49]]" by (simp_all add: demo_smb_def)
  ultimately show ?thesis
    using dmi_table_roundtrip [OF demo_smb_ok demo_mem_def refl]
    by (auto dest!: spec [where x = 0])
qed

lemma demo_mem_eq:
  "demo_mem = [17, 17, 5, 0, 0, 0, 0, 0, 64, 0, 64, 0, 1, 0, 9, 0, 1, 65, 49, 0, 0,
     20, 14, 6, 0, 0, 4, 0, 0, 255, 7, 0, 0, 5, 0, 0, 0, 0, 0, 0, 0]"
  by (simp add: demo_mem_def demo_smb_def smb_bytes_def string_set_def)

lemma demo_len: "length (concat (map smb_bytes demo_smb)) = 37"
  by (simp add: demo_smb_def smb_bytes_def string_set_def)

lemma demo_entries: "entry_loop demo_mem 37 2 (Some 0) = Inr [0, 21]"
proof -
  have "length demo_smb = 2" "offsets 0 demo_smb = [0, 21]"
    by (simp_all add: demo_smb_def smb_bytes_def string_set_def)
  moreover have "entry_loop demo_mem 37 (length demo_smb) (Some (length ([] :: memory))) = Inr (offsets (length ([] :: memory)) demo_smb)"
    by (rule entry_loop_smb [OF demo_smb_ok, where post = "[0, 0, 0, 0]"]) (simp add: demo_mem_def, simp add: demo_len)
  ultimately show ?thesis by simp
qed

lemma rd_le_numeral:
  "rd_le mem i (numeral n) = rbind (rd mem i) (\<lambda>b. rbind (rd_le mem (i + 1) (pred_numeral n)) (\<lambda>r. Inr (b + 256 * r)))"
  by (simp add: numeral_eq_Suc)

lemma demo_reads:
  "dmi_get_memdev_addr64 demo_mem 21 = Inr (0x100000, 0x1FFFFF)" "rd_le demo_mem 33 2 = Inr 5"
  "e_handle demo_mem 0 = Inr 5" "e_handle demo_mem 21 = Inr 6" "rd_le demo_mem 12 2 = Inr 1"
  "e_type demo_mem 0 = Inr 17" "e_type demo_mem 21 = Inr 20" "e_length demo_mem 0 = Inr 17" "e_length demo_mem 21 = Inr 14"
  by (simp_all add: dmi_get_memdev_addr64_def get_addr64_def e_handle_def e_type_def e_length_def rd_le_numeral rd_def demo_mem_eq
      kb_start_def kb_end_def)

lemma demo_tables:
  "\<exists>t. collect_dmi_dimms (\<lambda>c xs. xs) demo_mem 37 2 = Inr t \<and> dmi_ranges t = [21] \<and> handle_to_entry t 5 = Some 0"
  by (simp add: collect_dmi_dimms_def demo_entries demo_reads sort_ranges_def DMI_MEMORY_MAPPED_ADDR_def DMI_MEMORY_DEVICE_def
      DMI_MEMORY_ARRAY_def DMI_MEMORY_ARRAY_ADDR_def)


theorem dmi_find_addr_exact_witness:
  "\<exists>t. collect_dmi_dimms (\<lambda>c xs. xs) demo_mem 37 2 = Inr t \<and>
     dmi_find_addr demo_mem t 0x100000 = Inr [0] \<and> dmi_decodeaddr demo_mem t 0x1FFFFF = Inr None"
proof -
  obtain t where t: "collect_dmi_dimms (\<lambda>c xs. xs) demo_mem 37 2 = Inr t"
    "dmi_ranges t = [21]" "handle_to_entry t 5 = Some 0" using demo_tables by blast
  have r: "list_all2 (range_is demo_mem) (dmi_ranges t) [(0x100000, 0x1FFFFF, 5)]"
    using demo_reads(1,2) t(2) by (simp add: range_is_def)
  show ?thesis
    using dmi_find_addr_exact [OF r, of "0x100000"] dmi_find_addr_exact [OF r, of "0x1FFFFF"] t
    by (auto simp: serves_def)
qed

end
