(* ===== verification/Fms_Text.thy ===== *)
theory Fms_Text
  imports Fms_Prelude
begin

text \<open>
  More of the C library on strings, for the components that read numbers from file names and from
  sysfs: \<^verbatim>\<open>strsep\<close>, \<^verbatim>\<open>strtol\<close> in base 16, buffers of a fixed size and the padded conversions of
  \<^verbatim>\<open>printf\<close>; and that hexadecimal numbers are read back as they were printed.
\<close>

definition char_at :: "string \<Rightarrow> nat \<Rightarrow> char" where
  "char_at s i = (if i < length s then s ! i else CHR 0x00)"

text \<open>\<open>%-wd\<close> pads on the right, \<open>%wd\<close> on the left.\<close>

definition pad_right :: "nat \<Rightarrow> string \<Rightarrow> string" where
  "pad_right w s = s @ replicate (w - length s) CHR '' ''"

definition pad_left :: "nat \<Rightarrow> string \<Rightarrow> string" where
  "pad_left w s = replicate (w - length s) CHR '' '' @ s"

section \<open>Names and numbers\<close>

text \<open>\<^verbatim>\<open>strsep\<close> repeated until the string is used up: the pieces between delimiters, empty ones included.\<close>

fun strsep_all :: "char list \<Rightarrow> string \<Rightarrow> string list" where
  "strsep_all ds [] = [[]]"
| "strsep_all ds (c # s) =
     (if c \<in> set ds then [] # strsep_all ds s
      else (case strsep_all ds s of t # ts \<Rightarrow> (c # t) # ts | [] \<Rightarrow> [[c]]))"

definition hex_digit :: "char \<Rightarrow> int option" where
  "hex_digit c =
     (let n = (of_char c :: nat)
      in if 48 \<le> n \<and> n \<le> 57 then Some (int n - 48)
         else if 97 \<le> n \<and> n \<le> 102 then Some (int n - 87)
         else if 65 \<le> n \<and> n \<le> 70 then Some (int n - 55) else None)"

fun hex_val :: "int \<Rightarrow> string \<Rightarrow> int" where
  "hex_val acc [] = acc"
| "hex_val acc (c # s) = (case hex_digit c of None \<Rightarrow> acc | Some d \<Rightarrow> hex_val (16 * acc + d) s)"

text \<open>\<^verbatim>\<open>strtol(s, NULL, 16)\<close>: white space, a sign, an optional \<open>0x\<close> before a digit, the digits.\<close>

definition skip_0x :: "string \<Rightarrow> string" where
  "skip_0x s = (if length s > 2 \<and> s ! 0 = CHR ''0'' \<and> (s ! 1 = CHR ''x'' \<or> s ! 1 = CHR ''X'') \<and> hex_digit (s ! 2) \<noteq> None
     then drop 2 s else s)"

definition strtol16 :: "string \<Rightarrow> int" where
  "strtol16 s =
     (case dropWhile isspace s of
        [] \<Rightarrow> 0
      | c # r \<Rightarrow> if c = CHR ''-'' then clamp64 (- hex_val 0 (skip_0x r))
                else if c = CHR ''+'' then clamp64 (hex_val 0 (skip_0x r))
                else clamp64 (hex_val 0 (skip_0x (c # r))))"

text \<open>A directive \<open>%d\<close> of \<^verbatim>\<open>scanf\<close>: \<open>None\<close> when no number is there. The conversion is that of \<^verbatim>\<open>strtol\<close>.\<close>

definition scan_d :: "string \<Rightarrow> int option" where
  "scan_d s =
     (let t = dropWhile isspace s; u = (if t \<noteq> [] \<and> hd t \<in> {CHR ''-'', CHR ''+''} then tl t else t)
      in if u \<noteq> [] \<and> isdigit (hd u) then Some (atoi s) else None)"

text \<open>Plain characters of a \<^verbatim>\<open>scanf\<close> format: a blank skips white space; the rest of the input, or \<open>None\<close> at a mismatch.\<close>

fun scan_lit :: "string \<Rightarrow> string \<Rightarrow> string option" where
  "scan_lit [] s = Some s"
| "scan_lit (f # fs) s =
     (if f = CHR '' '' then scan_lit fs (dropWhile isspace s)
      else case s of [] \<Rightarrow> None | c # cs' \<Rightarrow> if c = f then scan_lit fs cs' else None)"

definition fits :: "nat \<Rightarrow> string \<Rightarrow> string res" where
  "fits n s = (if length s < n then Inr s else Inl Buf_overflow)"

section \<open>The length of printed numbers\<close>

lemma nat_str_length: "n < b ^ Suc k \<Longrightarrow> 2 \<le> b \<Longrightarrow> length (nat_str b n) \<le> Suc k"
proof (induction k arbitrary: n)
  case 0
  then show ?case by (subst nat_str.simps) simp
next
  case (Suc k)
  show ?case
  proof (cases "n < b")
    case False
    have "n div b < b ^ Suc k" using Suc.prems by (simp add: less_mult_imp_div_less mult.commute)
    with Suc.IH [OF this Suc.prems(2)] False Suc.prems(2) show ?thesis by (subst nat_str.simps) simp
  qed (subst nat_str.simps, simp)
qed

lemma nat_str_le: "n < b ^ Suc k \<Longrightarrow> 2 \<le> b \<Longrightarrow> Suc k \<le> m \<Longrightarrow> length (nat_str b n) \<le> m"
  using nat_str_length le_trans by blast

lemma dec_le: "0 \<le> i \<Longrightarrow> i < 10 ^ Suc k \<Longrightarrow> Suc k \<le> m \<Longrightarrow> length (dec i) \<le> m"
  by (simp add: dec_def nat_str_le nat_less_iff)

lemma dec_le_neg: "- (10 ^ Suc k) < i \<Longrightarrow> i < 10 ^ Suc k \<Longrightarrow> length (dec i) \<le> Suc (Suc k)"
  using nat_str_length [of "nat (- i)" 10 k] dec_le [of i k "Suc k"]
  by (cases "i < 0") (simp_all add: dec_def nat_less_iff)

lemma pad0_length: "length (pad0 w s) = max w (length s)"
  by (cases s) (auto simp: pad0_def max_def)

section \<open>Reading hexadecimal numbers back\<close>

lemma strsep_all_token:
  "set t \<inter> set ds = {} \<Longrightarrow> d \<in> set ds \<Longrightarrow> strsep_all ds (t @ d # s) = t # strsep_all ds s"
  by (induction t) auto

lemma strsep_all_last: "set t \<inter> set ds = {} \<Longrightarrow> strsep_all ds t = [t]"
  by (induction t) auto

lemma hex_val_append:
  "list_all (\<lambda>c. hex_digit c \<noteq> None) s \<Longrightarrow> hex_val a (s @ t) = hex_val (hex_val a s) t"
  by (induction s arbitrary: a) (auto split: option.splits)

lemma hex_digit_char: "d < 16 \<Longrightarrow> hex_digit (digit_char d) = Some (int d)"
  by (auto simp: hex_digit_def digit_char_def of_char_of Let_def)

lemma nat_str16_digits: "c \<in> set (nat_str 16 n) \<Longrightarrow> \<exists>d<16. c = digit_char d"
proof (induction n rule: less_induct)
  case (less n)
  show ?case
  proof (cases "n < 16")
    case True
    with less.prems show ?thesis by (auto simp: nat_str.simps [of 16 n])
  next
    case False
    with less.prems have "c \<in> set (nat_str 16 (n div 16)) \<or> c = digit_char (n mod 16)"
      by (subst (asm) nat_str.simps) auto
    moreover have "n mod 16 < 16" "n div 16 < n" using False by simp_all
    ultimately show ?thesis using less.IH [of "n div 16"] by blast
  qed
qed

lemma hex_val_nat_str: "hex_val 0 (nat_str 16 n) = int n"
proof (induction n rule: less_induct)
  case (less n)
  show ?case
  proof (cases "n < 16")
    case True
    then show ?thesis by (simp add: nat_str.simps [of 16 n] hex_digit_char)
  next
    case False
    have "list_all (\<lambda>c. hex_digit c \<noteq> None) (nat_str 16 (n div 16))"
      using nat_str16_digits by (fastforce simp: list_all_iff hex_digit_char)
    with False have "hex_val 0 (nat_str 16 n) = 16 * int (n div 16) + int (n mod 16)"
      using less.IH [of "n div 16"] by (subst nat_str.simps) (simp add: hex_val_append hex_digit_char)
    then show ?thesis by presburger
  qed
qed

definition plain_digit :: "char \<Rightarrow> bool" where
  "plain_digit c \<longleftrightarrow> c \<notin> set [CHR ''-'', CHR ''+'', CHR '':'', CHR ''.'', CHR ''x'', CHR ''X''] \<and> \<not> isspace c"

lemma plain_digits: "list_all (\<lambda>d. plain_digit (digit_char d)) [0..<16]"
  by code_simp

lemma digit_char_plain: "d < 16 \<Longrightarrow> plain_digit (digit_char d)"
  using plain_digits by (simp add: list_all_iff)

lemma strtol16_digits:
  assumes "list_all plain_digit s" "s \<noteq> []" "hex_val 0 s = int n" "n < 2 ^ 32"
  shows "strtol16 s = int n"
proof -
  obtain c r where s: "s = c # r" using assms(2) by (cases s) auto
  have "skip_0x s = s" using assms(1) unfolding skip_0x_def list_all_length by (auto simp: plain_digit_def)
  moreover have "clamp64 (int n) = int n" using assms(4) by (simp add: clamp64_def)
  moreover have "dropWhile isspace s = c # r" "c \<noteq> CHR ''-''" "c \<noteq> CHR ''+''"
    using assms(1) s by (auto simp: plain_digit_def)
  ultimately show ?thesis using assms(3) s by (simp add: strtol16_def del: hex_val.simps)
qed

lemma hex_zeros: "hex_val 0 (replicate k CHR ''0'' @ s) = hex_val 0 s"
  by (induction k) (simp_all add: hex_digit_def)

lemma strtol16_pad0_hex:
  assumes "n < 2 ^ 32"
  shows "strtol16 (pad0 w (hex n)) = int n" "list_all plain_digit (pad0 w (hex n))"
proof -
  have d: "list_all plain_digit (hex n)"
    using nat_str16_digits digit_char_plain by (fastforce simp: list_all_iff hex_def)
  obtain c r where h: "hex n = c # r" unfolding hex_def using nat_str_Cons by blast
  then have p: "pad0 w (hex n) = replicate (w - length (hex n)) CHR ''0'' @ hex n"
    using d by (auto simp: pad0_def plain_digit_def)
  have z: "plain_digit CHR ''0''" by code_simp
  show a: "list_all plain_digit (pad0 w (hex n))" using d z by (auto simp: p list_all_iff)
  show "strtol16 (pad0 w (hex n)) = int n"
  proof (rule strtol16_digits [OF a _ _ assms])
    show "pad0 w (hex n) \<noteq> []" unfolding p using h by simp
    show "hex_val 0 (pad0 w (hex n)) = int n" unfolding p hex_zeros by (simp add: hex_def hex_val_nat_str)
  qed
qed

lemma scan_d_dec:
  assumes "n < 2 ^ 31" "t = [] \<or> \<not> isdigit (hd t)"
  shows "scan_d (nat_str 10 n @ t) = Some (int n)"
proof -
  obtain c r where n: "nat_str 10 n = c # r" using nat_str_Cons by blast
  then have "isdigit c" using nat_str_digits [of c n] by simp
  then have "\<not> isspace c" "c \<noteq> CHR ''-''" "c \<noteq> CHR ''+''" by (auto simp: isspace_def isdigit_def)
  then show ?thesis using n \<open>isdigit c\<close> atoi_dec [OF assms] by (simp add: scan_d_def)
qed

end
