(* ===== verification/Fms_Topo.thy ===== *)
theory Fms_Topo
  imports Fms_Text
begin

text \<open>
  The topology tree of \<^verbatim>\<open>lib/libtopo/topo_tree.c\<close>: the nodes of \<^verbatim>\<open>include/topo_tree.h\<close>, the
  device descriptions of \<^verbatim>\<open>include/fmd_topo.h\<close>, the construction of the tree from the three
  device lists (\<^verbatim>\<open>fmd_topo_tree\<close>) and the text \<^verbatim>\<open>print_topo_tree\<close> writes.

  A list of nodes is a HOL list in list order (\<^verbatim>\<open>list_add\<close> is \<open>#\<close>). Beside each list head a node
  has a pointer to the first element ever added (\<^verbatim>\<open>mb->chip\<close>, \<^verbatim>\<open>chp->core\<close>, ...); it is set exactly
  when the first element is added and never cleared, so that the test of it for NULL is the test of
  the list for being empty. The parent, child, next and reference fields of a node stay zero.

  Every level is built the same way, by searching the children for a value and adding a new child
  at the head when there is none. The locale \<open>keyed_level\<close> states what a level needs of the level
  below and gives the effect on the set of paths; it is interpreted once per level of the tree.
\<close>

section \<open>Device descriptions\<close>

text \<open>The bit fields of \<^verbatim>\<open>fmd_topo.h\<close> keep their widths.\<close>

record topo_cpu =
  processor :: int
  cpu_flag :: int
  cpu_system :: "8 word"
  cpu_chassis :: "8 word"
  cpu_board :: "8 word"
  cpu_socket :: "8 word"
  cpu_core :: "8 word"
  cpu_thread :: "8 word"
  cpu_topoclass :: "5 word"

record topo_mem =
  mem_start :: "64 word"
  mem_end :: "64 word"
  mem_system :: "8 word"
  mem_chassis :: "8 word"
  mem_board :: "8 word"
  mem_socket :: "8 word"
  mem_controller :: "8 word"
  mem_dimm :: "8 word"
  mem_topoclass :: "5 word"

record topo_pci =
  pci_system :: "8 word"
  pci_chassis :: "8 word"
  pci_board :: "8 word"
  pci_hostbridge :: "8 word"
  pci_slot :: "8 word"
  pci_func :: "4 word"
  pci_subdomain :: "2 word"
  pci_subbus :: "8 word"
  pci_subslot :: "3 word"
  pci_subfunc :: "2 word"
  pci_topoclass :: "5 word"
  pci_name :: "string option"
  dev_icon :: "string option"

record topo_storage =
  storage_system :: "8 word"
  storage_chassis :: "8 word"
  storage_board :: "8 word"
  storage_hostbridge :: "8 word"
  storage_slot :: "8 word"
  storage_func :: "8 word"
  storage_host :: "8 word"
  storage_channel :: "8 word"
  storage_target :: "8 word"
  storage_lun :: "8 word"
  storage_topoclass :: "5 word"
  storage_name :: "string option"
  storage_icon :: "string option"

section \<open>Nodes\<close>

definition TOPO_NODE_BOUND :: int where "TOPO_NODE_BOUND = 4"

definition TOPO_NODE_LINKED :: int where "TOPO_NODE_LINKED = 8"

record tnode =
  tn_name :: string
  tn_value :: int
  tn_state :: int
  tn_fflags :: int

definition topo_tnode_alloc :: "string \<Rightarrow> int \<Rightarrow> tnode" where
  "topo_tnode_alloc name v =
     \<lparr>tn_name = name, tn_value = v, tn_state = TOPO_NODE_LINKED, tn_fflags = 1\<rparr>"

record thread_t =
  th_tnode :: tnode

record core_t =
  co_tnode :: tnode
  ht_head :: "thread_t list"

record dimm_t =
  dimm_size :: "64 word"
  di_tnode :: tnode

record memcontroller_t =
  mc_tnode :: tnode
  dimm_head :: "dimm_t list"

record chip_t =
  ch_tnode :: tnode
  core_head :: "core_t list"
  mctl_head :: "memcontroller_t list"

datatype func_t = Func (fn_tnode: tnode) (fn_hb_head: "hostbridge_t list")
  and slot_t = Slot (sl_tnode: tnode) (func_head: "func_t list")
  and hostbridge_t = Hostbridge (hb_tnode: tnode) (slot_head: "slot_t list")

record motherboard_t =
  mb_tnode :: tnode
  chip_head :: "chip_t list"
  hb_head :: "hostbridge_t list"

record systemboard_t =
  sb_tnode :: tnode

record chassis_t =
  ca_tnode :: tnode
  ca_mb :: "motherboard_t option"
  ca_sb :: "systemboard_t option"

text \<open>The \<^verbatim>\<open>topo_*_alloc\<close> functions, each with the value its callers store at once.\<close>

definition topo_chassis_alloc :: "int \<Rightarrow> chassis_t" where
  "topo_chassis_alloc v = \<lparr>ca_tnode = topo_tnode_alloc ''chassis'' v, ca_mb = None, ca_sb = None\<rparr>"

definition topo_motherboard_alloc :: "int \<Rightarrow> motherboard_t" where
  "topo_motherboard_alloc v =
     \<lparr>mb_tnode = topo_tnode_alloc ''motherboard'' v, chip_head = [], hb_head = []\<rparr>"

definition topo_chip_alloc :: "int \<Rightarrow> chip_t" where
  "topo_chip_alloc v = \<lparr>ch_tnode = topo_tnode_alloc ''chip'' v, core_head = [], mctl_head = []\<rparr>"

definition topo_core_alloc :: "int \<Rightarrow> core_t" where
  "topo_core_alloc v = \<lparr>co_tnode = topo_tnode_alloc ''core'' v, ht_head = []\<rparr>"

definition topo_mctl_alloc :: "int \<Rightarrow> memcontroller_t" where
  "topo_mctl_alloc v = \<lparr>mc_tnode = topo_tnode_alloc ''memory-controller'' v, dimm_head = []\<rparr>"

definition topo_dimm_alloc :: "int \<Rightarrow> dimm_t" where
  "topo_dimm_alloc v = \<lparr>dimm_size = 0, di_tnode = topo_tnode_alloc ''dimm'' v\<rparr>"

definition topo_thread_alloc :: "int \<Rightarrow> thread_t" where
  "topo_thread_alloc v = \<lparr>th_tnode = topo_tnode_alloc ''thread'' v\<rparr>"

definition topo_hostbridge_alloc :: "int \<Rightarrow> hostbridge_t" where
  "topo_hostbridge_alloc v = Hostbridge (topo_tnode_alloc ''hostbridge'' v) []"

definition topo_slot_alloc :: "int \<Rightarrow> slot_t" where
  "topo_slot_alloc v = Slot (topo_tnode_alloc ''slot'' v) []"

definition topo_func_alloc :: "int \<Rightarrow> func_t" where
  "topo_func_alloc v = Func (topo_tnode_alloc ''func'' v) []"

definition topo_systemboard_alloc :: systemboard_t where
  "topo_systemboard_alloc = \<lparr>sb_tnode = topo_tnode_alloc ''systemboard'' 1\<rparr>"

abbreviation thread_val :: "thread_t \<Rightarrow> int" where "thread_val t \<equiv> tn_value (th_tnode t)"
abbreviation core_val :: "core_t \<Rightarrow> int" where "core_val c \<equiv> tn_value (co_tnode c)"
abbreviation dimm_val :: "dimm_t \<Rightarrow> int" where "dimm_val d \<equiv> tn_value (di_tnode d)"
abbreviation mctl_val :: "memcontroller_t \<Rightarrow> int" where "mctl_val m \<equiv> tn_value (mc_tnode m)"
abbreviation chip_val :: "chip_t \<Rightarrow> int" where "chip_val c \<equiv> tn_value (ch_tnode c)"
abbreviation func_val :: "func_t \<Rightarrow> int" where "func_val f \<equiv> tn_value (fn_tnode f)"
abbreviation slot_val :: "slot_t \<Rightarrow> int" where "slot_val s \<equiv> tn_value (sl_tnode s)"
abbreviation bridge_val :: "hostbridge_t \<Rightarrow> int" where "bridge_val h \<equiv> tn_value (hb_tnode h)"
abbreviation chassis_val :: "chassis_t \<Rightarrow> int" where "chassis_val c \<equiv> tn_value (ca_tnode c)"

section \<open>Searching and adding children\<close>

text \<open>
  \<open>on_first\<close> is the search loop of every level: the first child with the value is handed to the
  rest of the body, \<open>None\<close> when the search ends with a null pointer. \<open>find_or_add\<close> adds a new child
  at the head in that case.
\<close>

fun on_first :: "('a \<Rightarrow> bool) \<Rightarrow> ('a \<Rightarrow> 'a) \<Rightarrow> 'a list \<Rightarrow> 'a list option" where
  "on_first p f [] = None"
| "on_first p f (x # xs) = (if p x then Some (f x # xs) else map_option ((#) x) (on_first p f xs))"

definition find_or_add :: "('a \<Rightarrow> int) \<Rightarrow> int \<Rightarrow> 'a \<Rightarrow> ('a \<Rightarrow> 'a) \<Rightarrow> 'a list \<Rightarrow> 'a list" where
  "find_or_add key k fresh f xs =
     (case on_first (\<lambda>x. key x = k) f xs of Some ys \<Rightarrow> ys | None \<Rightarrow> f fresh # xs)"

section \<open>The three passes of fmd_topo_tree\<close>

text \<open>
  One cpu. A thread that is not the first of its core is bound, the first is linked. A chassis that
  already has a motherboard gets a system board when it is visited again.
\<close>

definition visit_core :: "topo_cpu \<Rightarrow> core_t \<Rightarrow> core_t" where
  "visit_core c cop = cop\<lparr>ht_head :=
     (if ht_head cop = [] then [topo_thread_alloc (processor c)]
      else find_or_add thread_val (processor c)
        (let t = topo_thread_alloc (processor c)
         in t\<lparr>th_tnode := (th_tnode t)\<lparr>tn_state := TOPO_NODE_BOUND\<rparr>\<rparr>) id (ht_head cop))\<rparr>"

definition visit_chip :: "topo_cpu \<Rightarrow> chip_t \<Rightarrow> chip_t" where
  "visit_chip c chp = chp\<lparr>core_head :=
     find_or_add core_val (uint (cpu_core c)) (topo_core_alloc (uint (cpu_core c)))
       (visit_core c) (core_head chp)\<rparr>"

definition visit_boards :: "topo_cpu \<Rightarrow> chassis_t \<Rightarrow> chassis_t" where
  "visit_boards c ccp =
     (case ca_mb ccp of
        None \<Rightarrow> ccp\<lparr>ca_mb := Some (topo_motherboard_alloc (uint (cpu_board c)))\<rparr>
      | Some mb \<Rightarrow> if ca_sb ccp = None then ccp\<lparr>ca_sb := Some topo_systemboard_alloc\<rparr> else ccp)"

definition visit_mb :: "topo_cpu \<Rightarrow> motherboard_t \<Rightarrow> motherboard_t" where
  "visit_mb c mb = mb\<lparr>chip_head :=
     find_or_add chip_val (uint (cpu_socket c)) (topo_chip_alloc (uint (cpu_socket c)))
       (visit_chip c) (chip_head mb)\<rparr>"

definition visit_chassis :: "topo_cpu \<Rightarrow> chassis_t \<Rightarrow> chassis_t" where
  "visit_chassis c ccp =
     (let ccp = visit_boards c ccp in ccp\<lparr>ca_mb := map_option (visit_mb c) (ca_mb ccp)\<rparr>)"

definition topo_cpu_step :: "topo_cpu \<Rightarrow> chassis_t list \<Rightarrow> chassis_t list" where
  "topo_cpu_step c root =
     find_or_add chassis_val (uint (cpu_chassis c)) (topo_chassis_alloc (uint (cpu_chassis c)))
       (visit_chassis c) root"

text \<open>One pci device: bus, slot and function, and the same below the function for a sub-bus.\<close>

definition visit_subslot :: "topo_pci \<Rightarrow> slot_t \<Rightarrow> slot_t" where
  "visit_subslot p s = Slot (sl_tnode s)
     (find_or_add func_val (uint (pci_subfunc p)) (topo_func_alloc (uint (pci_subfunc p))) id (func_head s))"

definition visit_subbus :: "topo_pci \<Rightarrow> hostbridge_t \<Rightarrow> hostbridge_t" where
  "visit_subbus p h = Hostbridge (hb_tnode h)
     (find_or_add slot_val (uint (pci_subslot p)) (topo_slot_alloc (uint (pci_subslot p)))
       (visit_subslot p) (slot_head h))"

definition has_sub :: "topo_pci \<Rightarrow> bool" where
  "has_sub p \<longleftrightarrow> \<not> (pci_subbus p = 0 \<and> pci_subdomain p = 0)"

definition visit_func :: "topo_pci \<Rightarrow> func_t \<Rightarrow> func_t" where
  "visit_func p f = Func (fn_tnode f)
     (if has_sub p
      then find_or_add bridge_val (uint (pci_subbus p)) (topo_hostbridge_alloc (uint (pci_subbus p)))
             (visit_subbus p) (fn_hb_head f)
      else fn_hb_head f)"

definition visit_slot :: "topo_pci \<Rightarrow> slot_t \<Rightarrow> slot_t" where
  "visit_slot p s = Slot (sl_tnode s)
     (find_or_add func_val (uint (pci_func p)) (topo_func_alloc (uint (pci_func p)))
       (visit_func p) (func_head s))"

definition visit_bridge :: "topo_pci \<Rightarrow> hostbridge_t \<Rightarrow> hostbridge_t" where
  "visit_bridge p h = Hostbridge (hb_tnode h)
     (find_or_add slot_val (uint (pci_slot p)) (topo_slot_alloc (uint (pci_slot p)))
       (visit_slot p) (slot_head h))"

definition pci_visit_mb :: "topo_pci \<Rightarrow> motherboard_t \<Rightarrow> motherboard_t" where
  "pci_visit_mb p mb = mb\<lparr>hb_head :=
     find_or_add bridge_val (uint (pci_hostbridge p)) (topo_hostbridge_alloc (uint (pci_hostbridge p)))
       (visit_bridge p) (hb_head mb)\<rparr>"

text \<open>
  The chassis a device names: the first one with that value. A device whose chassis (or its
  motherboard) is not there ends the construction with -1.
\<close>

definition find_chassis :: "int \<Rightarrow> chassis_t list \<Rightarrow> chassis_t option" where
  "find_chassis k root = find (\<lambda>c. chassis_val c = k) root"

definition set_mb :: "(motherboard_t \<Rightarrow> motherboard_t) \<Rightarrow> chassis_t \<Rightarrow> chassis_t" where
  "set_mb f c = c\<lparr>ca_mb := map_option f (ca_mb c)\<rparr>"

definition topo_pci_step :: "topo_pci \<Rightarrow> chassis_t list \<Rightarrow> chassis_t list option" where
  "topo_pci_step p root =
     (case find_chassis (uint (pci_chassis p)) root of
        None \<Rightarrow> None
      | Some csp \<Rightarrow>
          if ca_mb csp = None then None
          else on_first (\<lambda>c. chassis_val c = uint (pci_chassis p)) (set_mb (pci_visit_mb p)) root)"

text \<open>One memory module: the chip must be there, the controller and the module are added.\<close>

definition visit_mctl :: "topo_mem \<Rightarrow> memcontroller_t \<Rightarrow> memcontroller_t" where
  "visit_mctl m pmctl = pmctl\<lparr>dimm_head :=
     find_or_add dimm_val (uint (mem_dimm m))
       ((topo_dimm_alloc (uint (mem_dimm m)))\<lparr>dimm_size := mem_end m - mem_start m\<rparr>) id (dimm_head pmctl)\<rparr>"

definition mem_visit_chip :: "topo_mem \<Rightarrow> chip_t \<Rightarrow> chip_t" where
  "mem_visit_chip m chp = chp\<lparr>mctl_head :=
     find_or_add mctl_val (uint (mem_controller m)) (topo_mctl_alloc (uint (mem_controller m)))
       (visit_mctl m) (mctl_head chp)\<rparr>"

definition topo_mem_step :: "topo_mem \<Rightarrow> chassis_t list \<Rightarrow> chassis_t list option" where
  "topo_mem_step m root =
     (case find_chassis (uint (mem_chassis m)) root of
        None \<Rightarrow> None
      | Some mcsp \<Rightarrow>
          (case ca_mb mcsp of
             None \<Rightarrow> None
           | Some mb \<Rightarrow>
               (case on_first (\<lambda>c. chip_val c = uint (mem_socket m)) (mem_visit_chip m) (chip_head mb) of
                  None \<Rightarrow> None
                | Some chips \<Rightarrow>
                    on_first (\<lambda>c. chassis_val c = uint (mem_chassis m))
                      (set_mb (\<lambda>mb. mb\<lparr>chip_head := chips\<rparr>)) root)))"

text \<open>A pass ends at the first device that fails, with the tree built so far.\<close>

fun topo_pass :: "('d \<Rightarrow> chassis_t list \<Rightarrow> chassis_t list option) \<Rightarrow> 'd list \<Rightarrow> chassis_t list \<Rightarrow> int \<times> chassis_t list" where
  "topo_pass step [] root = (0, root)"
| "topo_pass step (d # ds) root =
     (case step d root of None \<Rightarrow> (-1, root) | Some root' \<Rightarrow> topo_pass step ds root')"

record fmd_topo =
  list_cpu :: "topo_cpu list"
  list_mem :: "topo_mem list"
  list_pci :: "topo_pci list"
  list_pci_host :: "topo_pci list"
  list_pci_bridge :: "topo_pci list"
  list_storage :: "topo_storage list"
  tp_root :: "chassis_t list option"

definition fmd_topo_tree :: "fmd_topo \<Rightarrow> int \<times> chassis_t list" where
  "fmd_topo_tree tp =
     (let root = fold topo_cpu_step (list_cpu tp) [];
          (r, root) = topo_pass topo_pci_step (list_pci tp) root
      in if r \<noteq> 0 then (r, root) else topo_pass topo_mem_step (list_mem tp) root)"

definition topo_tree_create :: "fmd_topo \<Rightarrow> int \<times> fmd_topo" where
  "topo_tree_create tp =
     (let (r, root) = fmd_topo_tree tp
      in (if r \<noteq> 0 then -1 else 0, tp\<lparr>tp_root := Some root\<rparr>))"

section \<open>Printing\<close>

definition print_topo_thread :: "core_t \<Rightarrow> string list" where
  "print_topo_thread cp =
     map (\<lambda>tp. ''|       |       |       |--thread '' @ pad_right 3 (dec (thread_val tp)) @
                ''   |       |       |       |'') (ht_head cp)"

definition print_topo_dimm :: "memcontroller_t \<Rightarrow> string list" where
  "print_topo_dimm mcp =
     map (\<lambda>dp. ''|       |       |   -- dimm'' @ pad_right 4 (dec (dimm_val dp)) @ '':'' @
                pad_left 10 (dec (sint (dimm_size dp))) @ '' kB   |       |       |'') (dimm_head mcp)"

definition print_topo_core :: "chip_t \<Rightarrow> string list" where
  "print_topo_core chp =
     concat (map (\<lambda>cp.
       [''|       |       |-------------------------------|       |       |'',
        ''|       |       | core'' @ pad_right 3 (dec (core_val cp)) @ ''                       |       |       |'',
        ''|       |       |       |---------------|       |       |       |''] @
       print_topo_thread cp @
       [''|       |       |       |---------------|       |       |       |'',
        ''|       |       |-------------------------------|       |       |'',
        ''|       |                                               |       |'']) (core_head chp)) @
     concat (map (\<lambda>mcp.
       [''|       |       |-------------------------------|       |       |'',
        ''|       |       |memory-controller              |       |       |''] @
       print_topo_dimm mcp @
       [''|       |       |-------------------------------|       |       |'']) (mctl_head chp))"

definition print_topo_motherboard :: "motherboard_t \<Rightarrow> string list" where
  "print_topo_motherboard mb =
     concat (map (\<lambda>chp.
       [''|       |-----------------------------------------------|       |'',
        ''|       | socket'' @ pad_right 3 (dec (chip_val chp)) @ ''                                     |       |''] @
       print_topo_core chp @
       [''|       |-----------------------------------------------|       |'',
        ''|                                                               |'']) (chip_head mb))"

definition print_topo_chassis :: "chassis_t \<Rightarrow> string list res" where
  "print_topo_chassis csp =
     rbind (deref (ca_mb csp)) (\<lambda>mb. Inr (
       [''|---------------------------------------------------------------|'',
        ''| node'' @ pad_right 3 (dec (chassis_val csp)) @ ''                                                       |''] @
       print_topo_motherboard mb @
       [''|---------------------------------------------------------------|'', '''']))"

text \<open>
  \<open>tot\<close> and \<open>exist\<close> are the variables of the loop; \<^verbatim>\<open>tp_root\<close> is NULL until the tree is created.
\<close>

fun print_chassis_loop :: "int \<Rightarrow> chassis_t list \<Rightarrow> nat \<Rightarrow> bool \<Rightarrow> string list res" where
  "print_chassis_loop i [] tot exist =
     Inr (if exist then []
          else [''node'' @ dec i @ '' does not exist! node index range : 0 - '' @ dec (int tot) @ '' ''])"
| "print_chassis_loop i (csp # root) tot exist =
     (if chassis_val csp = i
      then rbind (print_topo_chassis csp) (\<lambda>out.
             rbind (print_chassis_loop i root (tot + 1) True) (\<lambda>rest. Inr (out @ rest)))
      else print_chassis_loop i root (tot + 1) exist)"

definition print_topo_tree :: "fmd_topo \<Rightarrow> int \<Rightarrow> string list res" where
  "print_topo_tree tp i = rbind (deref (tp_root tp)) (\<lambda>root. print_chassis_loop i root 0 False)"

section \<open>Levels of the tree\<close>

text \<open>
  What a list of nodes holds, as a map from paths: the node's value first, then a path in the view
  of the node itself.
\<close>

definition level :: "('a \<Rightarrow> int) \<Rightarrow> ('a \<Rightarrow> 'q \<rightharpoonup> 'r) \<Rightarrow> 'a list \<Rightarrow> int \<times> 'q \<rightharpoonup> 'r" where
  "level key view xs = (\<lambda>(k, q). case find (\<lambda>x. key x = k) xs of None \<Rightarrow> None | Some x \<Rightarrow> view x q)"

definition at_key :: "int \<Rightarrow> ('q \<rightharpoonup> 'r) \<Rightarrow> int \<times> 'q \<rightharpoonup> 'r" where
  "at_key k m = (\<lambda>(k', q). if k' = k then m q else None)"

definition unique :: "('a \<Rightarrow> int) \<Rightarrow> ('a \<Rightarrow> bool) \<Rightarrow> 'a list \<Rightarrow> bool" where
  "unique key ok xs \<longleftrightarrow> distinct (map key xs) \<and> list_all ok xs"

lemma on_first_None: "on_first p f xs = None \<longleftrightarrow> (\<forall>x\<in>set xs. \<not> p x)"
  by (induction xs) auto

lemma on_first_split:
  assumes "on_first p f xs = Some ys"
  obtains as x bs where "xs = as @ x # bs" "\<forall>a\<in>set as. \<not> p a" "p x" "ys = as @ f x # bs"
  using assms
proof (induction xs arbitrary: ys thesis)
  case (Cons z xs)
  show ?case
  proof (cases "p z")
    case True
    with Cons.prems show ?thesis by (intro Cons.prems(1) [of "[]" z xs]) auto
  next
    case False
    with Cons.prems(2) obtain zs where zs: "on_first p f xs = Some zs" "ys = z # zs" by auto
    obtain as x bs where "xs = as @ x # bs" "\<forall>a\<in>set as. \<not> p a" "p x" "zs = as @ f x # bs"
      by (rule Cons.IH [OF _ zs(1)])
    with False zs(2) show ?thesis by (intro Cons.prems(1) [of "z # as" x bs]) auto
  qed
qed simp

lemma find_split: "(\<forall>a\<in>set as. \<not> p a) \<Longrightarrow> find p (as @ xs) = find p xs"
  by (induction as) auto

lemma find_keep:
  "\<not> p x \<Longrightarrow> \<not> p y \<Longrightarrow> find p (as @ x # bs) = find p (as @ y # bs)"
  by (induction as) auto

lemma at_key_empty [simp]: "at_key k Map.empty = Map.empty"
  by (auto simp: at_key_def fun_eq_iff)

lemma at_key_upd [simp]: "at_key k [q \<mapsto> r] = [(k, q) \<mapsto> r]"
  by (auto simp: at_key_def fun_eq_iff)

lemma level_Nil [simp]: "level key view [] = Map.empty"
  by (auto simp: level_def)

text \<open>Replacing the first node with a value, and what that does to the level.\<close>

lemma on_first_map_key:
  assumes "on_first (\<lambda>x. key x = k) f xs = Some ys" "\<And>x. x \<in> set xs \<Longrightarrow> key (f x) = key x"
  shows "map key ys = map key xs"
  using assms by (auto elim!: on_first_split)

lemma level_on_first:
  assumes "on_first (\<lambda>x. key x = k) f xs = Some ys" "find (\<lambda>x. key x = k) xs = Some x"
    and "key (f x) = key x" "view (f x) = e ++ view x"
  shows "level key view ys = at_key k e ++ level key view xs"
proof -
  from assms(1) obtain as z bs where s: "xs = as @ z # bs" "\<forall>a\<in>set as. key a \<noteq> k" "key z = k"
      "ys = as @ f z # bs"
    by (auto elim: on_first_split)
  then have z: "z = x" using assms(2) by (simp add: find_split)
  have "level key view ys (k', q) = (at_key k e ++ level key view xs) (k', q)" for k' q
  proof (cases "k' = k")
    case True
    then show ?thesis
      using s z assms(3,4) by (simp add: level_def at_key_def find_split map_add_def
          split: option.splits)
  next
    case False
    have "find (\<lambda>x. key x = k') ys = find (\<lambda>x. key x = k') xs"
      unfolding s by (rule find_keep) (use False s(3) z assms(3) in auto)
    then show ?thesis using False by (simp add: level_def at_key_def map_add_def split: option.splits)
  qed
  then show ?thesis by auto
qed

lemma unique_on_first:
  assumes "on_first (\<lambda>x. key x = k) f xs = Some ys" "find (\<lambda>x. key x = k) xs = Some x"
    and "key (f x) = key x" "ok x \<Longrightarrow> ok (f x)" "unique key ok xs"
  shows "unique key ok ys"
proof -
  from assms(1) obtain as z bs where s: "xs = as @ z # bs" "\<forall>a\<in>set as. key a \<noteq> k" "key z = k"
      "ys = as @ f z # bs"
    by (auto elim: on_first_split)
  then have "z = x" using assms(2) by (simp add: find_split)
  with s assms(3-5) show ?thesis by (simp add: unique_def)
qed

lemma on_first_find:
  assumes "on_first (\<lambda>x. key x = k) f xs = Some ys"
  obtains x where "find (\<lambda>x. key x = k) xs = Some x" "key x = k" "x \<in> set xs"
  using assms by (auto elim!: on_first_split simp: find_split)

text \<open>
  A level whose children are searched and added. \<open>val v\<close> is the value the device \<open>v\<close> has at this
  level, \<open>visit v\<close> what the code does with the child, \<open>eff v\<close> the paths this adds below the child;
  paths that are there already keep what they hold.
\<close>

locale keyed_level =
  fixes key :: "'a \<Rightarrow> int"
    and view :: "'a \<Rightarrow> 'q \<rightharpoonup> 'r"
    and val :: "'v \<Rightarrow> int"
    and fresh :: "int \<Rightarrow> 'a"
    and visit :: "'v \<Rightarrow> 'a \<Rightarrow> 'a"
    and eff :: "'v \<Rightarrow> 'q \<rightharpoonup> 'r"
    and ok :: "'a \<Rightarrow> bool"
  assumes key_fresh: "key (fresh (val v)) = val v"
    and key_visit: "key (visit v x) = key x"
    and view_fresh: "eff v ++ view (fresh (val v)) = eff v"
    and view_visit: "view (visit v x) = eff v ++ view x"
    and ok_fresh: "ok (visit v (fresh (val v)))"
    and ok_visit: "ok x \<Longrightarrow> ok (visit v x)"
begin

lemma level_find_or_add:
  "level key view (find_or_add key (val v) (fresh (val v)) (visit v) xs)
     = at_key (val v) (eff v) ++ level key view xs"
proof (cases "on_first (\<lambda>x. key x = val v) (visit v) xs")
  case None
  then have n: "find (\<lambda>x. key x = val v) xs = None" by (simp add: find_None_iff on_first_None)
  have "level key view (visit v (fresh (val v)) # xs) (k', q)
      = (at_key (val v) (eff v) ++ level key view xs) (k', q)" for k' q
    using n view_fresh [of v]
    by (cases "k' = val v") (auto simp: level_def at_key_def key_visit key_fresh view_visit map_add_def
        split: option.splits)
  with None show ?thesis unfolding find_or_add_def by auto
next
  case (Some ys)
  then obtain x where "find (\<lambda>x. key x = val v) xs = Some x" by (rule on_first_find)
  from level_on_first [where key = key and view = view, OF Some this key_visit view_visit] Some
  show ?thesis by (simp add: find_or_add_def)
qed

lemma unique_find_or_add:
  assumes "unique key ok xs"
  shows "unique key ok (find_or_add key (val v) (fresh (val v)) (visit v) xs)"
proof (cases "on_first (\<lambda>x. key x = val v) (visit v) xs")
  case None
  then have "val v \<notin> key ` set xs" by (auto simp: on_first_None)
  with None assms show ?thesis
    by (simp add: find_or_add_def unique_def key_visit key_fresh ok_fresh)
next
  case (Some ys)
  then obtain x where "find (\<lambda>x. key x = val v) xs = Some x" by (rule on_first_find)
  from unique_on_first [where key = key and ok = ok, OF Some this key_visit ok_visit assms] Some
  show ?thesis by (simp add: find_or_add_def)
qed

lemma keys_find_or_add:
  "key ` set (find_or_add key (val v) (fresh (val v)) (visit v) xs) = insert (val v) (key ` set xs)"
proof (cases "on_first (\<lambda>x. key x = val v) (visit v) xs")
  case None
  then show ?thesis by (simp add: find_or_add_def key_visit key_fresh)
next
  case (Some ys)
  then have "map key ys = map key xs" by (rule on_first_map_key) (rule key_visit)
  then have "key ` set ys = key ` set xs" by (metis list.set_map)
  moreover have "val v \<in> key ` set xs" using Some by (auto elim: on_first_split)
  ultimately show ?thesis using Some by (auto simp: find_or_add_def)
qed

end

lemma find_or_add_nonempty [simp]: "find_or_add key k n f xs \<noteq> []"
  by (auto simp: find_or_add_def elim: on_first_split split: option.splits)

section \<open>Well-formed trees\<close>

text \<open>
  Every node has the name of its level, a value that fits the bit field it came from, is linked and
  present; the children of a node have different values and, except for a function without a
  sub-bus and a chip without memory, there is at least one. The oldest thread of a core (the last of the
  list) is linked, all others are bound.
\<close>

definition node_ok :: "string \<Rightarrow> nat \<Rightarrow> tnode \<Rightarrow> bool" where
  "node_ok name w t \<longleftrightarrow> tn_name t = name \<and> 0 \<le> tn_value t \<and> tn_value t < 2 ^ w \<and>
     tn_state t = TOPO_NODE_LINKED \<and> tn_fflags t = 1"

definition thread_ok :: "thread_t \<Rightarrow> bool" where
  "thread_ok t \<longleftrightarrow> tn_name (th_tnode t) = ''thread'' \<and> tn_fflags (th_tnode t) = 1"

fun states_ok :: "thread_t list \<Rightarrow> bool" where
  "states_ok [] \<longleftrightarrow> False"
| "states_ok [t] \<longleftrightarrow> tn_state (th_tnode t) = TOPO_NODE_LINKED"
| "states_ok (t # ts) \<longleftrightarrow> tn_state (th_tnode t) = TOPO_NODE_BOUND \<and> states_ok ts"

definition core_ok :: "core_t \<Rightarrow> bool" where
  "core_ok c \<longleftrightarrow> node_ok ''core'' 8 (co_tnode c) \<and> unique thread_val thread_ok (ht_head c) \<and>
     states_ok (ht_head c)"

definition dimm_ok :: "dimm_t \<Rightarrow> bool" where
  "dimm_ok d \<longleftrightarrow> node_ok ''dimm'' 8 (di_tnode d)"

definition mctl_ok :: "memcontroller_t \<Rightarrow> bool" where
  "mctl_ok m \<longleftrightarrow> node_ok ''memory-controller'' 8 (mc_tnode m) \<and> dimm_head m \<noteq> [] \<and>
     unique dimm_val dimm_ok (dimm_head m)"

definition chip_ok :: "chip_t \<Rightarrow> bool" where
  "chip_ok c \<longleftrightarrow> node_ok ''chip'' 8 (ch_tnode c) \<and> core_head c \<noteq> [] \<and>
     unique core_val core_ok (core_head c) \<and> unique mctl_val mctl_ok (mctl_head c)"

definition subfunc_ok :: "func_t \<Rightarrow> bool" where
  "subfunc_ok f \<longleftrightarrow> node_ok ''func'' 2 (fn_tnode f) \<and> fn_hb_head f = []"

definition subslot_ok :: "slot_t \<Rightarrow> bool" where
  "subslot_ok s \<longleftrightarrow> node_ok ''slot'' 3 (sl_tnode s) \<and> func_head s \<noteq> [] \<and>
     unique func_val subfunc_ok (func_head s)"

definition subbus_ok :: "hostbridge_t \<Rightarrow> bool" where
  "subbus_ok h \<longleftrightarrow> node_ok ''hostbridge'' 8 (hb_tnode h) \<and> slot_head h \<noteq> [] \<and>
     unique slot_val subslot_ok (slot_head h)"

definition func_ok :: "func_t \<Rightarrow> bool" where
  "func_ok f \<longleftrightarrow> node_ok ''func'' 4 (fn_tnode f) \<and> unique bridge_val subbus_ok (fn_hb_head f)"

definition slot_ok :: "slot_t \<Rightarrow> bool" where
  "slot_ok s \<longleftrightarrow> node_ok ''slot'' 8 (sl_tnode s) \<and> func_head s \<noteq> [] \<and>
     unique func_val func_ok (func_head s)"

definition bridge_ok :: "hostbridge_t \<Rightarrow> bool" where
  "bridge_ok h \<longleftrightarrow> node_ok ''hostbridge'' 8 (hb_tnode h) \<and> slot_head h \<noteq> [] \<and>
     unique slot_val slot_ok (slot_head h)"

definition mb_ok :: "motherboard_t \<Rightarrow> bool" where
  "mb_ok m \<longleftrightarrow> node_ok ''motherboard'' 8 (mb_tnode m) \<and> chip_head m \<noteq> [] \<and>
     unique chip_val chip_ok (chip_head m) \<and> unique bridge_val bridge_ok (hb_head m)"

definition chassis_ok :: "chassis_t \<Rightarrow> bool" where
  "chassis_ok c \<longleftrightarrow> node_ok ''chassis'' 8 (ca_tnode c) \<and>
     (case ca_mb c of None \<Rightarrow> False | Some mb \<Rightarrow> mb_ok mb) \<and>
     (case ca_sb c of None \<Rightarrow> True | Some sb \<Rightarrow> sb_tnode sb = topo_tnode_alloc ''systemboard'' 1)"

abbreviation root_ok :: "chassis_t list \<Rightarrow> bool" where
  "root_ok \<equiv> unique chassis_val chassis_ok"

section \<open>What a tree holds\<close>

definition leaves :: "('a \<Rightarrow> int) \<Rightarrow> ('a \<Rightarrow> 'r) \<Rightarrow> 'a list \<Rightarrow> int \<rightharpoonup> 'r" where
  "leaves key f xs = (\<lambda>k. map_option f (find (\<lambda>x. key x = k) xs))"

definition core_threads :: "core_t \<Rightarrow> int \<rightharpoonup> unit" where
  "core_threads c = leaves thread_val (\<lambda>_. ()) (ht_head c)"

definition chip_cpus :: "chip_t \<Rightarrow> int \<times> int \<rightharpoonup> unit" where
  "chip_cpus c = level core_val core_threads (core_head c)"

definition mctl_dimms :: "memcontroller_t \<Rightarrow> int \<rightharpoonup> 64 word" where
  "mctl_dimms m = leaves dimm_val dimm_size (dimm_head m)"

definition chip_dimms :: "chip_t \<Rightarrow> int \<times> int \<rightharpoonup> 64 word" where
  "chip_dimms c = level mctl_val mctl_dimms (mctl_head c)"

definition subslot_funcs :: "slot_t \<Rightarrow> int \<rightharpoonup> unit" where
  "subslot_funcs s = leaves func_val (\<lambda>_. ()) (func_head s)"

definition subbus_funcs :: "hostbridge_t \<Rightarrow> int \<times> int \<rightharpoonup> unit" where
  "subbus_funcs h = level slot_val subslot_funcs (slot_head h)"

definition func_subs :: "func_t \<Rightarrow> (int \<times> int \<times> int) option \<rightharpoonup> unit" where
  "func_subs f = (\<lambda>q. case q of None \<Rightarrow> Some () | Some p \<Rightarrow> level bridge_val subbus_funcs (fn_hb_head f) p)"

definition slot_funcs :: "slot_t \<Rightarrow> int \<times> (int \<times> int \<times> int) option \<rightharpoonup> unit" where
  "slot_funcs s = level func_val func_subs (func_head s)"

definition bridge_funcs :: "hostbridge_t \<Rightarrow> int \<times> int \<times> (int \<times> int \<times> int) option \<rightharpoonup> unit" where
  "bridge_funcs h = level slot_val slot_funcs (slot_head h)"

definition on_mb :: "(motherboard_t \<Rightarrow> 'q \<rightharpoonup> 'r) \<Rightarrow> chassis_t \<Rightarrow> 'q \<rightharpoonup> 'r" where
  "on_mb f c = (case ca_mb c of None \<Rightarrow> Map.empty | Some mb \<Rightarrow> f mb)"

definition mb_cpus :: "motherboard_t \<Rightarrow> int \<times> int \<times> int \<rightharpoonup> unit" where
  "mb_cpus m = level chip_val chip_cpus (chip_head m)"

definition mb_dimms :: "motherboard_t \<Rightarrow> int \<times> int \<times> int \<rightharpoonup> 64 word" where
  "mb_dimms m = level chip_val chip_dimms (chip_head m)"

definition mb_funcs :: "motherboard_t \<Rightarrow> int \<times> int \<times> int \<times> (int \<times> int \<times> int) option \<rightharpoonup> unit" where
  "mb_funcs m = level bridge_val bridge_funcs (hb_head m)"

text \<open>
  Threads by chassis, socket, core and processor number; functions by domain, bus, slot, function
  and, below a bridge, sub-bus, sub-slot and sub-function; the size of a module by chassis, socket,
  controller and module number.
\<close>

definition tree_cpus :: "chassis_t list \<Rightarrow> int \<times> int \<times> int \<times> int \<rightharpoonup> unit" where
  "tree_cpus = level chassis_val (on_mb mb_cpus)"

definition tree_dimms :: "chassis_t list \<Rightarrow> int \<times> int \<times> int \<times> int \<rightharpoonup> 64 word" where
  "tree_dimms = level chassis_val (on_mb mb_dimms)"

definition tree_funcs :: "chassis_t list \<Rightarrow> int \<times> int \<times> int \<times> int \<times> (int \<times> int \<times> int) option \<rightharpoonup> unit" where
  "tree_funcs = level chassis_val (on_mb mb_funcs)"

definition cpu_path :: "topo_cpu \<Rightarrow> int \<times> int \<times> int \<times> int" where
  "cpu_path c = (uint (cpu_chassis c), uint (cpu_socket c), uint (cpu_core c), processor c)"

definition mem_path :: "topo_mem \<Rightarrow> int \<times> int \<times> int \<times> int" where
  "mem_path m = (uint (mem_chassis m), uint (mem_socket m), uint (mem_controller m), uint (mem_dimm m))"

definition sub_path :: "topo_pci \<Rightarrow> int \<times> int \<times> int" where
  "sub_path p = (uint (pci_subbus p), uint (pci_subslot p), uint (pci_subfunc p))"

definition sub_opts :: "topo_pci \<Rightarrow> (int \<times> int \<times> int) option set" where
  "sub_opts p = (if has_sub p then {None, Some (sub_path p)} else {None})"

definition func_paths :: "topo_pci \<Rightarrow> (int \<times> int \<times> int \<times> int \<times> (int \<times> int \<times> int) option) set" where
  "func_paths p = (\<lambda>q. (uint (pci_chassis p), uint (pci_hostbridge p), uint (pci_slot p), uint (pci_func p), q))
     ` sub_opts p"

section \<open>The levels of the three passes\<close>

lemma on_first_id: "on_first p id xs = Some ys \<Longrightarrow> ys = xs"
  by (auto elim!: on_first_split)

lemma leaves_add:
  assumes "key n = k"
  shows "leaves key f (find_or_add key k n id xs) = [k \<mapsto> f n] ++ leaves key f xs"
proof (cases "on_first (\<lambda>x. key x = k) id xs")
  case None
  then have "find (\<lambda>x. key x = k) xs = None" by (simp add: on_first_None find_None_iff)
  with None assms show ?thesis
    by (auto simp: find_or_add_def leaves_def fun_eq_iff map_add_def split: option.splits)
next
  case (Some ys)
  then obtain x where "find (\<lambda>x. key x = k) xs = Some x" by (rule on_first_find)
  with Some show ?thesis
    by (auto simp: find_or_add_def leaves_def fun_eq_iff map_add_def dest: on_first_id split: option.splits)
qed

lemma unique_add:
  "key n = k \<Longrightarrow> ok n \<Longrightarrow> unique key ok xs \<Longrightarrow> unique key ok (find_or_add key k n id xs)"
  by (auto simp: find_or_add_def unique_def on_first_None dest: on_first_id split: option.splits)

lemma unique_Nil [simp]: "unique key ok []"
  by (simp add: unique_def)

lemma tnode_alloc_simps [simp]:
  "tn_name (topo_tnode_alloc n v) = n" "tn_value (topo_tnode_alloc n v) = v"
  "tn_state (topo_tnode_alloc n v) = TOPO_NODE_LINKED" "tn_fflags (topo_tnode_alloc n v) = 1"
  by (simp_all add: topo_tnode_alloc_def)

lemma alloc_simps [simp]:
  "ca_tnode (topo_chassis_alloc v) = topo_tnode_alloc ''chassis'' v"
  "ca_mb (topo_chassis_alloc v) = None" "ca_sb (topo_chassis_alloc v) = None"
  "mb_tnode (topo_motherboard_alloc v) = topo_tnode_alloc ''motherboard'' v"
  "chip_head (topo_motherboard_alloc v) = []" "hb_head (topo_motherboard_alloc v) = []"
  "ch_tnode (topo_chip_alloc v) = topo_tnode_alloc ''chip'' v"
  "core_head (topo_chip_alloc v) = []" "mctl_head (topo_chip_alloc v) = []"
  "co_tnode (topo_core_alloc v) = topo_tnode_alloc ''core'' v" "ht_head (topo_core_alloc v) = []"
  "mc_tnode (topo_mctl_alloc v) = topo_tnode_alloc ''memory-controller'' v"
  "dimm_head (topo_mctl_alloc v) = []"
  "di_tnode (topo_dimm_alloc v) = topo_tnode_alloc ''dimm'' v" "dimm_size (topo_dimm_alloc v) = 0"
  "th_tnode (topo_thread_alloc v) = topo_tnode_alloc ''thread'' v"
  "hb_tnode (topo_hostbridge_alloc v) = topo_tnode_alloc ''hostbridge'' v"
  "slot_head (topo_hostbridge_alloc v) = []"
  "sl_tnode (topo_slot_alloc v) = topo_tnode_alloc ''slot'' v" "func_head (topo_slot_alloc v) = []"
  "fn_tnode (topo_func_alloc v) = topo_tnode_alloc ''func'' v" "fn_hb_head (topo_func_alloc v) = []"
  "sb_tnode topo_systemboard_alloc = topo_tnode_alloc ''systemboard'' 1"
  by (simp_all add: topo_chassis_alloc_def topo_motherboard_alloc_def topo_chip_alloc_def
      topo_core_alloc_def topo_mctl_alloc_def topo_dimm_alloc_def topo_thread_alloc_def
      topo_hostbridge_alloc_def topo_slot_alloc_def topo_func_alloc_def topo_systemboard_alloc_def)

lemma uint_lt [simp]: "uint (w :: 'a::len word) < 2 ^ LENGTH('a)"
  by (rule uint_lt2p)

lemma uint_lt_num [simp]:
  "uint (a :: 8 word) < 256" "uint (b :: 4 word) < 16" "uint (c :: 3 word) < 8" "uint (d :: 2 word) < 4"
  using uint_lt2p [of a] uint_lt2p [of b] uint_lt2p [of c] uint_lt2p [of d] by simp_all

lemma node_ok_alloc:
  "0 \<le> v \<Longrightarrow> v < 2 ^ w \<Longrightarrow> node_ok name w (topo_tnode_alloc name v)"
  by (simp add: node_ok_def)

lemma node_ok_uint [simp]:
  "node_ok name 8 (topo_tnode_alloc name (uint (a :: 8 word)))"
  "node_ok name 4 (topo_tnode_alloc name (uint (b :: 4 word)))"
  "node_ok name 3 (topo_tnode_alloc name (uint (c :: 3 word)))"
  "node_ok name 2 (topo_tnode_alloc name (uint (d :: 2 word)))"
  by (simp_all add: node_ok_alloc)

text \<open>Which fields a visit changes.\<close>

lemma visit_simps [simp]:
  "co_tnode (visit_core c x) = co_tnode x"
  "ch_tnode (visit_chip c y) = ch_tnode y" "mctl_head (visit_chip c y) = mctl_head y"
  "core_head (visit_chip c y) = find_or_add core_val (uint (cpu_core c))
     (topo_core_alloc (uint (cpu_core c))) (visit_core c) (core_head y)"
  "mb_tnode (visit_mb c m) = mb_tnode m" "hb_head (visit_mb c m) = hb_head m"
  "chip_head (visit_mb c m) = find_or_add chip_val (uint (cpu_socket c))
     (topo_chip_alloc (uint (cpu_socket c))) (visit_chip c) (chip_head m)"
  "ca_tnode (visit_boards c z) = ca_tnode z" "ca_tnode (visit_chassis c z) = ca_tnode z"
  by (simp_all add: visit_core_def visit_chip_def visit_mb_def visit_boards_def visit_chassis_def
      Let_def split: option.splits)

subsection \<open>Cpus\<close>

lemma core_threads_visit: "core_threads (visit_core c x) = [processor c \<mapsto> ()] ++ core_threads x"
  by (auto simp: visit_core_def core_threads_def leaves_add Let_def)
    (auto simp: leaves_def fun_eq_iff map_add_def)

lemma states_ok_Cons: "ts \<noteq> [] \<Longrightarrow> states_ok (t # ts) \<longleftrightarrow> tn_state (th_tnode t) = TOPO_NODE_BOUND \<and> states_ok ts"
  by (cases ts) auto

lemma core_ok_visit:
  assumes "node_ok ''core'' 8 (co_tnode x)" "unique thread_val thread_ok (ht_head x)"
    and "ht_head x = [] \<or> states_ok (ht_head x)"
  shows "core_ok (visit_core c x)"
proof (cases "ht_head x")
  case Nil
  with assms show ?thesis by (simp add: core_ok_def visit_core_def unique_def thread_ok_def)
next
  case (Cons t ts)
  let ?n = "\<lparr>th_tnode = (topo_tnode_alloc ''thread'' (processor c))\<lparr>tn_state := TOPO_NODE_BOUND\<rparr>\<rparr>"
  have "unique thread_val thread_ok (find_or_add thread_val (processor c) ?n id (ht_head x))"
    using assms(2) by (intro unique_add) (simp_all add: thread_ok_def)
  moreover have "states_ok (find_or_add thread_val (processor c) ?n id (ht_head x))"
    using assms(3) Cons
    by (auto simp: find_or_add_def states_ok_Cons simp del: on_first.simps dest: on_first_id split: option.splits)
  ultimately show ?thesis
    using assms(1) Cons by (simp add: core_ok_def visit_core_def topo_thread_alloc_def)
qed

interpretation core_level: keyed_level core_val core_threads "\<lambda>c. uint (cpu_core c)" topo_core_alloc visit_core
  "\<lambda>c. [processor c \<mapsto> ()]" core_ok
proof
  fix v :: topo_cpu
  show "core_ok (visit_core v (topo_core_alloc (uint (cpu_core v))))"
    by (rule core_ok_visit) simp_all
next
  fix x v assume "core_ok x"
  then show "core_ok (visit_core v x)" by (intro core_ok_visit) (simp_all add: core_ok_def)
qed (simp_all add: core_threads_visit, simp add: core_threads_def leaves_def)

lemma chip_ok_visit:
  assumes "node_ok ''chip'' 8 (ch_tnode x)" "unique core_val core_ok (core_head x)"
    "unique mctl_val mctl_ok (mctl_head x)"
  shows "chip_ok (visit_chip c x)"
  using assms by (simp add: chip_ok_def core_level.unique_find_or_add)

lemma chip_ok_fresh: "chip_ok (visit_chip v (topo_chip_alloc (uint (cpu_socket v))))"
  by (rule chip_ok_visit) simp_all

lemma chip_ok_again: "chip_ok x \<Longrightarrow> chip_ok (visit_chip v x)"
  by (rule chip_ok_visit) (simp_all add: chip_ok_def)

interpretation chip_level: keyed_level chip_val chip_cpus "\<lambda>c. uint (cpu_socket c)" topo_chip_alloc visit_chip
  "\<lambda>c. [(uint (cpu_core c), processor c) \<mapsto> ()]" chip_ok
  by unfold_locales
    (simp_all add: chip_ok_fresh chip_ok_again chip_cpus_def core_level.level_find_or_add)

interpretation chip_frame: keyed_level chip_val chip_dimms "\<lambda>c. uint (cpu_socket c)" topo_chip_alloc visit_chip
  "\<lambda>c. Map.empty" chip_ok
  by unfold_locales (simp_all add: chip_ok_fresh chip_ok_again chip_dimms_def)

lemma ca_mb_visit:
  "ca_mb (visit_chassis c x) = Some (visit_mb c (case ca_mb x of
     None \<Rightarrow> topo_motherboard_alloc (uint (cpu_board c)) | Some mb \<Rightarrow> mb))"
  by (simp add: visit_chassis_def visit_boards_def Let_def split: option.splits)

lemma mb_ok_visit:
  assumes "node_ok ''motherboard'' 8 (mb_tnode m)" "unique chip_val chip_ok (chip_head m)"
    "unique bridge_val bridge_ok (hb_head m)"
  shows "mb_ok (visit_mb c m)"
  using assms by (simp add: mb_ok_def chip_level.unique_find_or_add)

lemma chassis_ok_visit:
  assumes "node_ok ''chassis'' 8 (ca_tnode x)" "ca_mb x = None \<or> chassis_ok x" "ca_sb x = None \<or> chassis_ok x"
  shows "chassis_ok (visit_chassis c x)"
proof -
  have "mb_ok (visit_mb c (case ca_mb x of
      None \<Rightarrow> topo_motherboard_alloc (uint (cpu_board c)) | Some mb \<Rightarrow> mb))"
    using assms(2) by (intro mb_ok_visit) (auto simp: chassis_ok_def mb_ok_def split: option.splits)
  moreover have "case ca_sb (visit_chassis c x) of None \<Rightarrow> True
      | Some sb \<Rightarrow> sb_tnode sb = topo_tnode_alloc ''systemboard'' 1"
    using assms(3) by (auto simp: visit_chassis_def visit_boards_def Let_def chassis_ok_def split: option.splits)
  ultimately show ?thesis using assms(1) by (simp add: chassis_ok_def ca_mb_visit)
qed

lemma chassis_ok_fresh: "chassis_ok (visit_chassis v (topo_chassis_alloc (uint (cpu_chassis v))))"
  by (rule chassis_ok_visit) simp_all

lemma chassis_ok_again: "chassis_ok x \<Longrightarrow> chassis_ok (visit_chassis v x)"
  by (rule chassis_ok_visit) (simp_all add: chassis_ok_def)

interpretation chassis_level: keyed_level chassis_val "on_mb mb_cpus" "\<lambda>c. uint (cpu_chassis c)"
  topo_chassis_alloc visit_chassis "\<lambda>c. [(uint (cpu_socket c), uint (cpu_core c), processor c) \<mapsto> ()]" chassis_ok
  by unfold_locales
    (simp_all add: chassis_ok_fresh chassis_ok_again on_mb_def ca_mb_visit mb_cpus_def
      chip_level.level_find_or_add split: option.splits)

interpretation chassis_frame_mem: keyed_level chassis_val "on_mb mb_dimms" "\<lambda>c. uint (cpu_chassis c)"
  topo_chassis_alloc visit_chassis "\<lambda>c. Map.empty" chassis_ok
  by unfold_locales
    (simp_all add: chassis_ok_fresh chassis_ok_again on_mb_def ca_mb_visit mb_dimms_def
      chip_frame.level_find_or_add split: option.splits)

interpretation chassis_frame_pci: keyed_level chassis_val "on_mb mb_funcs" "\<lambda>c. uint (cpu_chassis c)"
  topo_chassis_alloc visit_chassis "\<lambda>c. Map.empty" chassis_ok
  by unfold_locales
    (simp_all add: chassis_ok_fresh chassis_ok_again on_mb_def ca_mb_visit mb_funcs_def split: option.splits)

lemma topo_cpu_step_views:
  "tree_cpus (topo_cpu_step c root) = [cpu_path c \<mapsto> ()] ++ tree_cpus root"
  "tree_dimms (topo_cpu_step c root) = tree_dimms root"
  "tree_funcs (topo_cpu_step c root) = tree_funcs root"
  by (simp_all add: topo_cpu_step_def tree_cpus_def tree_dimms_def tree_funcs_def cpu_path_def
      chassis_level.level_find_or_add chassis_frame_mem.level_find_or_add
      chassis_frame_pci.level_find_or_add)

lemma topo_cpu_step_ok: "root_ok root \<Longrightarrow> root_ok (topo_cpu_step c root)"
  by (simp add: topo_cpu_step_def chassis_level.unique_find_or_add)

lemma cpu_pass_views:
  "dom (tree_cpus (fold topo_cpu_step cpus root)) = cpu_path ` set cpus \<union> dom (tree_cpus root)"
  "tree_dimms (fold topo_cpu_step cpus root) = tree_dimms root"
  "tree_funcs (fold topo_cpu_step cpus root) = tree_funcs root"
  by (induction cpus arbitrary: root) (auto simp: topo_cpu_step_views)

lemma cpu_pass_ok: "root_ok root \<Longrightarrow> root_ok (fold topo_cpu_step cpus root)"
  by (induction cpus arbitrary: root) (simp_all add: topo_cpu_step_ok)

subsection \<open>Pci devices\<close>

lemma visit_pci_simps [simp]:
  "sl_tnode (visit_subslot p s) = sl_tnode s" "hb_tnode (visit_subbus p h) = hb_tnode h"
  "fn_tnode (visit_func p f) = fn_tnode f" "sl_tnode (visit_slot p s) = sl_tnode s"
  "hb_tnode (visit_bridge p h) = hb_tnode h" "mb_tnode (pci_visit_mb p m) = mb_tnode m"
  "chip_head (pci_visit_mb p m) = chip_head m"
  by (simp_all add: visit_subslot_def visit_subbus_def visit_func_def visit_slot_def visit_bridge_def
      pci_visit_mb_def)

interpretation subslot_level: keyed_level slot_val subslot_funcs "\<lambda>p. uint (pci_subslot p)" topo_slot_alloc
  visit_subslot "\<lambda>p. [uint (pci_subfunc p) \<mapsto> ()]" subslot_ok
proof
  fix p :: topo_pci
  show "subslot_ok (visit_subslot p (topo_slot_alloc (uint (pci_subslot p))))"
    by (simp add: subslot_ok_def visit_subslot_def unique_add subfunc_ok_def)
next
  fix p x assume "subslot_ok x"
  then show "subslot_ok (visit_subslot p x)"
    by (simp add: subslot_ok_def visit_subslot_def unique_add subfunc_ok_def)
qed (simp_all add: subslot_funcs_def visit_subslot_def leaves_add, simp add: leaves_def)

interpretation subbus_level: keyed_level bridge_val subbus_funcs "\<lambda>p. uint (pci_subbus p)" topo_hostbridge_alloc
  visit_subbus "\<lambda>p. [(uint (pci_subslot p), uint (pci_subfunc p)) \<mapsto> ()]" subbus_ok
  by unfold_locales (simp_all add: subbus_funcs_def subbus_ok_def visit_subbus_def
      subslot_level.level_find_or_add subslot_level.unique_find_or_add)

definition sub_eff :: "topo_pci \<Rightarrow> (int \<times> int \<times> int) option \<rightharpoonup> unit" where
  "sub_eff p = (\<lambda>q. if q \<in> sub_opts p then Some () else None)"

lemma func_subs_visit: "func_subs (visit_func p x) = sub_eff p ++ func_subs x"
  by (auto simp: func_subs_def visit_func_def sub_eff_def sub_opts_def sub_path_def fun_eq_iff map_add_def
      subbus_level.level_find_or_add split: option.splits)

interpretation func_level: keyed_level func_val func_subs "\<lambda>p. uint (pci_func p)" topo_func_alloc
  visit_func sub_eff func_ok
proof
  fix p :: topo_pci
  show "sub_eff p ++ func_subs (topo_func_alloc (uint (pci_func p))) = sub_eff p"
    by (auto simp: sub_eff_def sub_opts_def func_subs_def fun_eq_iff map_add_def split: option.splits)
qed (simp_all add: func_subs_visit, simp_all add: func_ok_def visit_func_def subbus_level.unique_find_or_add)

interpretation slot_level: keyed_level slot_val slot_funcs "\<lambda>p. uint (pci_slot p)" topo_slot_alloc
  visit_slot "\<lambda>p. at_key (uint (pci_func p)) (sub_eff p)" slot_ok
  by unfold_locales (simp_all add: slot_funcs_def slot_ok_def visit_slot_def
      func_level.level_find_or_add func_level.unique_find_or_add)

interpretation bridge_level: keyed_level bridge_val bridge_funcs "\<lambda>p. uint (pci_hostbridge p)" topo_hostbridge_alloc
  visit_bridge "\<lambda>p. at_key (uint (pci_slot p)) (at_key (uint (pci_func p)) (sub_eff p))" bridge_ok
  by unfold_locales (simp_all add: bridge_funcs_def bridge_ok_def visit_bridge_def
      slot_level.level_find_or_add slot_level.unique_find_or_add)

subsection \<open>Memory modules\<close>

lemma visit_mem_simps [simp]:
  "mc_tnode (visit_mctl m x) = mc_tnode x" "ch_tnode (mem_visit_chip m y) = ch_tnode y"
  "core_head (mem_visit_chip m y) = core_head y"
  by (simp_all add: visit_mctl_def mem_visit_chip_def)

interpretation mctl_level: keyed_level mctl_val mctl_dimms "\<lambda>m. uint (mem_controller m)" topo_mctl_alloc
  visit_mctl "\<lambda>m. [uint (mem_dimm m) \<mapsto> mem_end m - mem_start m]" mctl_ok
proof
  fix m :: topo_mem
  show "mctl_ok (visit_mctl m (topo_mctl_alloc (uint (mem_controller m))))"
    by (simp add: mctl_ok_def visit_mctl_def unique_add dimm_ok_def)
next
  fix m x assume "mctl_ok x"
  then show "mctl_ok (visit_mctl m x)" by (simp add: mctl_ok_def visit_mctl_def unique_add dimm_ok_def)
qed (simp_all add: mctl_dimms_def visit_mctl_def leaves_add, simp add: leaves_def)

lemma mem_visit_chip_views:
  "chip_dimms (mem_visit_chip m x) =
     [(uint (mem_controller m), uint (mem_dimm m)) \<mapsto> mem_end m - mem_start m] ++ chip_dimms x"
  "chip_cpus (mem_visit_chip m x) = chip_cpus x"
  "chip_ok x \<Longrightarrow> chip_ok (mem_visit_chip m x)"
  by (simp_all add: chip_dimms_def chip_cpus_def chip_ok_def mem_visit_chip_def
      mctl_level.level_find_or_add mctl_level.unique_find_or_add)

subsection \<open>Steps on the chassis list\<close>

lemma level_Cons_present: "view x q \<noteq> None \<Longrightarrow> level key view (x # xs) (key x, q) \<noteq> None"
  by (simp add: level_def)

lemma core_present:
  assumes "core_ok c"
  shows "\<exists>q. core_threads c q \<noteq> None"
proof -
  from assms obtain t ts where "ht_head c = t # ts" by (cases "ht_head c") (auto simp: core_ok_def)
  then have "core_threads c (thread_val t) \<noteq> None" by (simp add: core_threads_def leaves_def)
  then show ?thesis by blast
qed

lemma chip_present:
  assumes "chip_ok c"
  shows "\<exists>q. chip_cpus c q \<noteq> None"
proof -
  from assms obtain x xs where x: "core_head c = x # xs" "core_ok x"
    by (cases "core_head c") (auto simp: chip_ok_def unique_def)
  obtain q where "core_threads x q \<noteq> None" using core_present [OF x(2)] by blast
  then have "chip_cpus c (core_val x, q) \<noteq> None" unfolding chip_cpus_def x(1) by (rule level_Cons_present)
  then show ?thesis by blast
qed

lemma chassis_present:
  assumes "chassis_ok c"
  shows "\<exists>q. on_mb mb_cpus c q \<noteq> None"
proof -
  from assms obtain mb where mb: "ca_mb c = Some mb" "mb_ok mb"
    by (auto simp: chassis_ok_def split: option.splits)
  then obtain x xs where x: "chip_head mb = x # xs" "chip_ok x"
    by (cases "chip_head mb") (auto simp: mb_ok_def unique_def)
  obtain q where "chip_cpus x q \<noteq> None" using chip_present [OF x(2)] by blast
  then have "mb_cpus mb (chip_val x, q) \<noteq> None" unfolding mb_cpus_def x(1) by (rule level_Cons_present)
  then have "on_mb mb_cpus c (chip_val x, q) \<noteq> None" using mb by (simp add: on_mb_def)
  then show ?thesis by blast
qed

lemma level_dom:
  assumes "unique key ok xs" "\<And>x. ok x \<Longrightarrow> \<exists>q. view x q \<noteq> None"
  shows "(\<exists>q. (k, q) \<in> dom (level key view xs)) \<longleftrightarrow> find (\<lambda>x. key x = k) xs \<noteq> None"
proof (cases "find (\<lambda>x. key x = k) xs")
  case (Some x)
  then have "ok x" using assms(1) by (auto simp: find_Some_iff list_all_length unique_def)
  then obtain q where "view x q \<noteq> None" using assms(2) by blast
  then have "(k, q) \<in> dom (level key view xs)" using Some by (simp add: level_def dom_def)
  then show ?thesis using Some by blast
qed (simp add: level_def dom_def)

lemma find_chassis_iff:
  assumes "root_ok root"
  shows "find_chassis k root \<noteq> None \<longleftrightarrow> (\<exists>q. (k, q) \<in> dom (tree_cpus root))"
  unfolding find_chassis_def tree_cpus_def
  by (rule level_dom [OF assms chassis_present, symmetric])

lemma find_chip_iff:
  assumes "mb_ok mb"
  shows "(\<exists>q. (s, q) \<in> dom (mb_cpus mb)) \<longleftrightarrow> find (\<lambda>x. chip_val x = s) (chip_head mb) \<noteq> None"
proof -
  have "unique chip_val chip_ok (chip_head mb)" using assms by (simp add: mb_ok_def)
  then show ?thesis unfolding mb_cpus_def by (rule level_dom [OF _ chip_present])
qed

lemma find_chassis_ok: "root_ok root \<Longrightarrow> find_chassis k root = Some x \<Longrightarrow> chassis_ok x \<and> chassis_val x = k"
  by (auto simp: find_chassis_def find_Some_iff unique_def list_all_length)

lemma set_mb_view:
  assumes "on_first (\<lambda>c. chassis_val c = k) (set_mb g) root = Some root'" "find_chassis k root = Some x"
    and "ca_mb x = Some mb" "f (g mb) = e ++ f mb"
  shows "level chassis_val (on_mb f) root' = at_key k e ++ level chassis_val (on_mb f) root"
  using assms(2) unfolding find_chassis_def
  by (rule level_on_first [OF assms(1)]) (simp_all add: set_mb_def on_mb_def assms(3,4))

lemma set_mb_ok:
  assumes "on_first (\<lambda>c. chassis_val c = k) (set_mb g) root = Some root'" "find_chassis k root = Some x"
    and "ca_mb x = Some mb" "mb_ok mb \<Longrightarrow> mb_ok (g mb)" "root_ok root"
  shows "root_ok root'"
  using assms(2) unfolding find_chassis_def
  by (rule unique_on_first [OF assms(1)]) (simp_all add: set_mb_def chassis_ok_def assms(3-5))

definition func_eff :: "topo_pci \<Rightarrow> int \<times> int \<times> int \<times> int \<times> (int \<times> int \<times> int) option \<rightharpoonup> unit" where
  "func_eff p = (\<lambda>q. if q \<in> func_paths p then Some () else None)"

lemma func_eff_nested:
  "at_key (uint (pci_chassis p)) (at_key (uint (pci_hostbridge p)) (at_key (uint (pci_slot p))
     (at_key (uint (pci_func p)) (sub_eff p)))) = func_eff p"
  by (auto simp: func_eff_def func_paths_def at_key_def sub_eff_def fun_eq_iff)

lemma pci_visit_mb_ok: "mb_ok mb \<Longrightarrow> mb_ok (pci_visit_mb p mb)"
  by (simp add: mb_ok_def) (simp add: pci_visit_mb_def bridge_level.unique_find_or_add)

lemma topo_pci_step_Some:
  assumes "topo_pci_step p root = Some root'" "root_ok root"
  shows "root_ok root'" "tree_cpus root' = tree_cpus root" "tree_dimms root' = tree_dimms root"
    "tree_funcs root' = func_eff p ++ tree_funcs root"
proof -
  let ?k = "uint (pci_chassis p)"
  obtain x mb where x: "find_chassis ?k root = Some x" "ca_mb x = Some mb"
      "on_first (\<lambda>c. chassis_val c = ?k) (set_mb (pci_visit_mb p)) root = Some root'"
    using assms(1) by (auto simp: topo_pci_step_def split: option.splits if_splits)
  note v = set_mb_view [OF x(3,1,2)]
  show "root_ok root'" by (rule set_mb_ok [OF x(3,1,2) pci_visit_mb_ok assms(2)])
  show "tree_cpus root' = tree_cpus root"
    using v [where f = mb_cpus and e = Map.empty] by (simp add: tree_cpus_def mb_cpus_def)
  show "tree_dimms root' = tree_dimms root"
    using v [where f = mb_dimms and e = Map.empty] by (simp add: tree_dimms_def mb_dimms_def)
  have "mb_funcs (pci_visit_mb p mb) = at_key (uint (pci_hostbridge p)) (at_key (uint (pci_slot p))
      (at_key (uint (pci_func p)) (sub_eff p))) ++ mb_funcs mb"
    by (simp add: mb_funcs_def pci_visit_mb_def bridge_level.level_find_or_add)
  from v [OF this] show "tree_funcs root' = func_eff p ++ tree_funcs root"
    by (simp add: tree_funcs_def func_eff_nested)
qed

lemma on_first_ex: "(\<exists>ys. on_first (\<lambda>x. key x = k) f xs = Some ys) \<longleftrightarrow> find (\<lambda>x. key x = k) xs \<noteq> None"
  by (metis find_None_iff not_Some_eq on_first_None)

lemma topo_pci_step_None:
  assumes "root_ok root"
  shows "topo_pci_step p root = None \<longleftrightarrow> \<not> (\<exists>q. (uint (pci_chassis p), q) \<in> dom (tree_cpus root))"
proof (cases "find_chassis (uint (pci_chassis p)) root")
  case None
  then show ?thesis using find_chassis_iff [OF assms, of "uint (pci_chassis p)"]
    by (simp add: topo_pci_step_def)
next
  case (Some x)
  have "ca_mb x \<noteq> None" using find_chassis_ok [OF assms Some] by (auto simp: chassis_ok_def split: option.splits)
  moreover have "on_first (\<lambda>c. chassis_val c = uint (pci_chassis p)) f root \<noteq> None" for f
    using Some on_first_ex [of chassis_val "uint (pci_chassis p)" f root] by (auto simp: find_chassis_def)
  ultimately show ?thesis using Some find_chassis_iff [OF assms, of "uint (pci_chassis p)"]
    by (simp add: topo_pci_step_def)
qed

lemma topo_mem_step_Some:
  assumes "topo_mem_step m root = Some root'" "root_ok root"
  shows "root_ok root'" "tree_cpus root' = tree_cpus root" "tree_funcs root' = tree_funcs root"
    "tree_dimms root' = [mem_path m \<mapsto> mem_end m - mem_start m] ++ tree_dimms root"
proof -
  let ?k = "uint (mem_chassis m)" and ?s = "uint (mem_socket m)"
  let ?e = "[(uint (mem_controller m), uint (mem_dimm m)) \<mapsto> mem_end m - mem_start m]"
  obtain x mb chips where x: "find_chassis ?k root = Some x" "ca_mb x = Some mb"
      "on_first (\<lambda>c. chip_val c = ?s) (mem_visit_chip m) (chip_head mb) = Some chips"
      "on_first (\<lambda>c. chassis_val c = ?k) (set_mb (\<lambda>mb. mb\<lparr>chip_head := chips\<rparr>)) root = Some root'"
    using assms(1) by (auto simp: topo_mem_step_def split: option.splits)
  obtain y where y: "find (\<lambda>c. chip_val c = ?s) (chip_head mb) = Some y"
    using x(3) by (rule on_first_find)
  note v = set_mb_view [OF x(4,1,2)]
  note l = level_on_first [where key = chip_val, OF x(3) y]
  have mb: "mb_ok mb" using find_chassis_ok [OF assms(2) x(1)] x(2) by (simp add: chassis_ok_def)
  have "unique chip_val chip_ok chips"
    by (rule unique_on_first [OF x(3) y]) (use mb mem_visit_chip_views(3) in \<open>simp_all add: mb_ok_def\<close>)
  moreover have "chips \<noteq> []" using x(3) by (auto elim: on_first_split)
  ultimately show "root_ok root'" using mb by (intro set_mb_ok [OF x(4,1,2) _ assms(2)]) (simp add: mb_ok_def)
  show "tree_cpus root' = tree_cpus root"
    using v [where f = mb_cpus and e = Map.empty] l [where view = chip_cpus and e = Map.empty]
    by (simp add: tree_cpus_def mb_cpus_def mem_visit_chip_views)
  show "tree_funcs root' = tree_funcs root"
    using v [where f = mb_funcs and e = Map.empty] by (simp add: tree_funcs_def mb_funcs_def)
  show "tree_dimms root' = [mem_path m \<mapsto> mem_end m - mem_start m] ++ tree_dimms root"
    using v [where f = mb_dimms and e = "at_key ?s ?e"] l [where view = chip_dimms and e = ?e]
    by (simp add: tree_dimms_def mb_dimms_def mem_visit_chip_views mem_path_def)
qed

lemma tree_cpus_socket:
  assumes "find_chassis k root = Some x" "ca_mb x = Some mb"
  shows "(k, s, q) \<in> dom (tree_cpus root) \<longleftrightarrow> (s, q) \<in> dom (mb_cpus mb)"
  using assms by (simp add: tree_cpus_def level_def find_chassis_def on_mb_def dom_def)

lemma topo_mem_step_None:
  assumes "root_ok root"
  shows "topo_mem_step m root = None \<longleftrightarrow>
    \<not> (\<exists>q. (uint (mem_chassis m), uint (mem_socket m), q) \<in> dom (tree_cpus root))"
proof (cases "find_chassis (uint (mem_chassis m)) root")
  case None
  then show ?thesis using find_chassis_iff [OF assms, of "uint (mem_chassis m)"]
    by (simp add: topo_mem_step_def)
next
  case (Some x)
  then obtain mb where mb: "ca_mb x = Some mb" "mb_ok mb"
    using find_chassis_ok [OF assms Some] by (auto simp: chassis_ok_def split: option.splits)
  have "on_first (\<lambda>c. chassis_val c = uint (mem_chassis m)) f root \<noteq> None" for f
    using Some on_first_ex [of chassis_val "uint (mem_chassis m)" f root] by (auto simp: find_chassis_def)
  then have "topo_mem_step m root = None \<longleftrightarrow>
      on_first (\<lambda>c. chip_val c = uint (mem_socket m)) (mem_visit_chip m) (chip_head mb) = None"
    using Some mb(1) by (auto simp: topo_mem_step_def split: option.splits)
  also have "\<dots> \<longleftrightarrow> find (\<lambda>c. chip_val c = uint (mem_socket m)) (chip_head mb) = None"
    by (auto simp: on_first_None find_None_iff)
  finally show ?thesis
    using find_chip_iff [OF mb(2), of "uint (mem_socket m)"] by (simp add: tree_cpus_socket [OF Some mb(1)])
qed

subsection \<open>Passes\<close>

lemma topo_pass_keeps:
  assumes "P root" "\<And>d r r'. P r \<Longrightarrow> step d r = Some r' \<Longrightarrow> P r'"
  shows "P (snd (topo_pass step ds root))"
  using assms by (induction ds arbitrary: root) (auto split: option.splits)

lemma topo_pass_returns:
  assumes "P root" "\<And>d r r'. P r \<Longrightarrow> step d r = Some r' \<Longrightarrow> P r'"
    and "\<And>d r. P r \<Longrightarrow> step d r = None \<longleftrightarrow> \<not> C d"
  shows "fst (topo_pass step ds root) = (if \<forall>d\<in>set ds. C d then 0 else -1)"
  using assms(1)
proof (induction ds arbitrary: root)
  case (Cons d ds)
  show ?case
  proof (cases "step d root")
    case None
    then have "\<not> C d" using assms(3) [OF Cons.prems, of d] by blast
    with None show ?thesis by simp
  next
    case (Some r)
    then show ?thesis using assms(3) [OF Cons.prems, of d] Cons.IH [OF assms(2) [OF Cons.prems Some]] by simp
  qed
qed simp

lemma topo_pass_view:
  assumes "P root" "\<And>d r r'. P r \<Longrightarrow> step d r = Some r' \<Longrightarrow> P r' \<and> view r' = e d ++ view r"
    and "fst (topo_pass step ds root) = 0"
  shows "view (snd (topo_pass step ds root)) = fold (\<lambda>d m. e d ++ m) ds (view root)"
  using assms(1,3)
proof (induction ds arbitrary: root)
  case (Cons d ds)
  then obtain r where r: "step d root = Some r" by (auto split: option.splits)
  then show ?case using Cons assms(2) [OF Cons.prems(1) r] by simp
qed simp

lemma fold_dom: "dom (fold (\<lambda>d m. e d ++ m) ds m) = (\<Union>d\<in>set ds. dom (e d)) \<union> dom m"
  by (induction ds arbitrary: m) auto

lemma fold_first: "fold (\<lambda>d m. [k d \<mapsto> v d] ++ m) ds m = map_of (map (\<lambda>d. (k d, v d)) ds) ++ m"
  by (induction ds arbitrary: m) (auto simp: map_add_def fun_eq_iff split: option.splits)

definition tree_over :: "topo_cpu list \<Rightarrow> chassis_t list \<Rightarrow> bool" where
  "tree_over cpus root \<longleftrightarrow> root_ok root \<and> dom (tree_cpus root) = cpu_path ` set cpus"

lemma tree_over_start: "tree_over cpus (fold topo_cpu_step cpus [])"
  by (simp add: tree_over_def cpu_pass_ok cpu_pass_views) (simp add: tree_cpus_def)

lemma tree_over_pci: "tree_over cpus r \<Longrightarrow> topo_pci_step d r = Some r' \<Longrightarrow> tree_over cpus r'"
  by (simp add: tree_over_def topo_pci_step_Some)

lemma tree_over_mem: "tree_over cpus r \<Longrightarrow> topo_mem_step d r = Some r' \<Longrightarrow> tree_over cpus r'"
  by (simp add: tree_over_def topo_mem_step_Some)

definition pci_placed :: "topo_cpu list \<Rightarrow> topo_pci \<Rightarrow> bool" where
  "pci_placed cpus p \<longleftrightarrow> (\<exists>c\<in>set cpus. cpu_chassis c = pci_chassis p)"

definition mem_placed :: "topo_cpu list \<Rightarrow> topo_mem \<Rightarrow> bool" where
  "mem_placed cpus m \<longleftrightarrow>
     (\<exists>c\<in>set cpus. cpu_chassis c = mem_chassis m \<and> cpu_socket c = mem_socket m)"

lemma uint_eq: "uint (a :: 'a::len word) = uint b \<longleftrightarrow> a = b"
  by (simp add: word_uint_eq_iff)

lemma cpu_path_chassis: "(\<exists>q. (uint k, q) \<in> cpu_path ` S) \<longleftrightarrow> (\<exists>c\<in>S. cpu_chassis c = k)"
  unfolding image_iff cpu_path_def prod.inject uint_eq by blast

lemma cpu_path_socket:
  "(\<exists>q. (uint k, uint s, q) \<in> cpu_path ` S) \<longleftrightarrow> (\<exists>c\<in>S. cpu_chassis c = k \<and> cpu_socket c = s)"
  unfolding image_iff cpu_path_def prod.inject uint_eq by blast

lemma pci_step_placed: "tree_over cpus r \<Longrightarrow> topo_pci_step p r = None \<longleftrightarrow> \<not> pci_placed cpus p"
  by (simp only: tree_over_def topo_pci_step_None cpu_path_chassis pci_placed_def)

lemma mem_step_placed: "tree_over cpus r \<Longrightarrow> topo_mem_step m r = None \<longleftrightarrow> \<not> mem_placed cpus m"
  by (simp only: tree_over_def topo_mem_step_None cpu_path_socket mem_placed_def)

section \<open>The tree\<close>

lemma snd_pass_pci_over: "tree_over cpus (snd (topo_pass topo_pci_step ps (fold topo_cpu_step cpus [])))"
  by (rule topo_pass_keeps) (rule tree_over_start, rule tree_over_pci)

lemma fmd_topo_tree_over: "tree_over (list_cpu tp) (snd (fmd_topo_tree tp))"
  using snd_pass_pci_over [of "list_cpu tp" "list_pci tp"]
    topo_pass_keeps [where P = "tree_over (list_cpu tp)" and step = topo_mem_step and ds = "list_mem tp",
      OF snd_pass_pci_over [of "list_cpu tp" "list_pci tp"] tree_over_mem]
  by (auto simp: fmd_topo_tree_def Let_def split: prod.splits)

lemma pci_pass_returns:
  "fst (topo_pass topo_pci_step ps (fold topo_cpu_step cpus [])) = (if \<forall>p\<in>set ps. pci_placed cpus p then 0 else -1)"
  by (rule topo_pass_returns [where P = "tree_over cpus"])
    (rule tree_over_start, rule tree_over_pci, assumption, assumption, rule pci_step_placed)

lemma mem_pass_returns:
  "tree_over cpus root \<Longrightarrow>
     fst (topo_pass topo_mem_step ms root) = (if \<forall>m\<in>set ms. mem_placed cpus m then 0 else -1)"
  by (rule topo_pass_returns [where P = "tree_over cpus"])
    (assumption, rule tree_over_mem, assumption, assumption, rule mem_step_placed)

text \<open>
  C30. Whatever the device lists hold, and also when the construction is abandoned half way, the tree
  that \<^verbatim>\<open>fmd_topo_tree\<close> leaves behind is well typed: each node has the name of its level, its value
  fits the bit field of the device description it was taken from (chassis, board, socket, core,
  controller, dimm, bus and slot below 256, function below 16, sub-slot below 8, sub-function below
  4), siblings have different values, every chassis has a motherboard with at least one chip, every
  chip a core, every core a thread, exactly the first thread of a core is linked, and a sub-function
  has no bus below it.
\<close>

theorem topo_tree_typed: "root_ok (snd (fmd_topo_tree tp))"
  using fmd_topo_tree_over [of tp] by (simp add: tree_over_def)

lemma fmd_topo_tree_returns:
  "fst (fmd_topo_tree tp) =
     (if (\<forall>p\<in>set (list_pci tp). pci_placed (list_cpu tp) p) \<and> (\<forall>m\<in>set (list_mem tp). mem_placed (list_cpu tp) m)
      then 0 else -1)"
proof -
  obtain r root where r: "topo_pass topo_pci_step (list_pci tp) (fold topo_cpu_step (list_cpu tp) []) = (r, root)"
    by (cases "topo_pass topo_pci_step (list_pci tp) (fold topo_cpu_step (list_cpu tp) [])")
  have over: "tree_over (list_cpu tp) root" using snd_pass_pci_over [of "list_cpu tp" "list_pci tp"] r by simp
  show ?thesis
    using pci_pass_returns [of "list_pci tp" "list_cpu tp"] mem_pass_returns [OF over, of "list_mem tp"] r
    by (simp add: fmd_topo_tree_def Let_def)
qed

text \<open>
  \<^verbatim>\<open>fmd_topo_tree\<close> returns 0 exactly when every pci device names a chassis that some cpu is in and
  every memory module a chassis and socket that some cpu is in; otherwise it returns -1. In both
  cases the threads of the tree are exactly the cpus of the list, by chassis, socket, core and
  processor number.
\<close>

theorem topo_tree_result:
  "fst (fmd_topo_tree tp) =
     (if (\<forall>p\<in>set (list_pci tp). pci_placed (list_cpu tp) p) \<and> (\<forall>m\<in>set (list_mem tp). mem_placed (list_cpu tp) m)
      then 0 else -1) \<and>
   dom (tree_cpus (snd (fmd_topo_tree tp))) = cpu_path ` set (list_cpu tp)"
  using fmd_topo_tree_over [of tp] fmd_topo_tree_returns [of tp] by (simp add: tree_over_def)

lemma dom_func_eff: "dom (func_eff p) = func_paths p"
  by (auto simp: func_eff_def split: if_splits)

lemma fold_keeps [simp]: "fold (\<lambda>d m. m) ds m = m"
  by (induction ds) simp_all

lemma pci_pass_views:
  assumes "root_ok root" "topo_pass topo_pci_step ps root = (0, root')"
  shows "root_ok root'" "tree_dimms root' = tree_dimms root"
    "dom (tree_funcs root') = (\<Union>p\<in>set ps. func_paths p) \<union> dom (tree_funcs root)"
proof -
  note v = topo_pass_view [where P = root_ok and step = topo_pci_step and ds = ps, OF assms(1)]
  show "root_ok root'"
    using topo_pass_keeps [where P = root_ok and step = topo_pci_step and ds = ps, OF assms(1)]
      topo_pci_step_Some assms(2) by fastforce
  show "tree_dimms root' = tree_dimms root"
    using v [where view = tree_dimms and e = "\<lambda>_. Map.empty"] topo_pci_step_Some assms(2) by simp
  show "dom (tree_funcs root') = (\<Union>p\<in>set ps. func_paths p) \<union> dom (tree_funcs root)"
    using v [where view = tree_funcs and e = func_eff] topo_pci_step_Some assms(2)
    by (simp add: fold_dom dom_func_eff)
qed

lemma mem_pass_views:
  assumes "root_ok root" "topo_pass topo_mem_step ms root = (0, root')"
  shows "tree_funcs root' = tree_funcs root"
    "tree_dimms root' = map_of (map (\<lambda>m. (mem_path m, mem_end m - mem_start m)) ms) ++ tree_dimms root"
proof -
  note v = topo_pass_view [where P = root_ok and step = topo_mem_step and ds = ms, OF assms(1)]
  show "tree_funcs root' = tree_funcs root"
    using v [where view = tree_funcs and e = "\<lambda>_. Map.empty"] topo_mem_step_Some assms(2) by simp
  show "tree_dimms root' = map_of (map (\<lambda>m. (mem_path m, mem_end m - mem_start m)) ms) ++ tree_dimms root"
    using v [where view = tree_dimms and e = "\<lambda>m. [mem_path m \<mapsto> mem_end m - mem_start m]"]
      topo_mem_step_Some assms(2) by (simp add: fold_first)
qed

text \<open>
  C31. When \<^verbatim>\<open>fmd_topo_tree\<close> returns 0 the tree is the path map of the device lists: it holds exactly
  the functions of the pci list, each with its sub-function when the device is behind a bridge, and
  looking a memory module up by chassis, socket, controller and number gives the size of the first
  entry of the memory list with that address, or nothing when there is none.
\<close>

theorem topo_tree_refines_lists:
  assumes "fmd_topo_tree tp = (0, root)"
  shows "dom (tree_funcs root) = (\<Union>p\<in>set (list_pci tp). func_paths p) \<and>
    tree_dimms root = map_of (map (\<lambda>m. (mem_path m, mem_end m - mem_start m)) (list_mem tp))"
proof -
  let ?c = "fold topo_cpu_step (list_cpu tp) []"
  obtain r pr where r: "topo_pass topo_pci_step (list_pci tp) ?c = (r, pr)"
    by (cases "topo_pass topo_pci_step (list_pci tp) ?c")
  with assms have "r = 0" and m: "topo_pass topo_mem_step (list_mem tp) pr = (0, root)"
    by (auto simp: fmd_topo_tree_def split: if_splits)
  with r have p: "topo_pass topo_pci_step (list_pci tp) ?c = (0, pr)" by simp
  have "root_ok ?c" using tree_over_start by (simp add: tree_over_def)
  note pci = pci_pass_views [OF this p]
  note mem = mem_pass_views [OF pci(1) m]
  have e: "tree_funcs ?c = Map.empty" "tree_dimms ?c = Map.empty"
    by (simp_all add: cpu_pass_views) (simp_all add: tree_funcs_def tree_dimms_def)
  show ?thesis by (simp add: mem(1,2) pci(2,3) e)
qed

definition demo_topo :: fmd_topo where
  "demo_topo =
     \<lparr>list_cpu = [\<lparr>processor = 0, cpu_flag = 1, cpu_system = 0, cpu_chassis = 0, cpu_board = 0, cpu_socket = 1,
                   cpu_core = 2, cpu_thread = 0, cpu_topoclass = 3\<rparr>],
      list_mem = [\<lparr>mem_start = 0, mem_end = 4096, mem_system = 0, mem_chassis = 0, mem_board = 0,
                   mem_socket = 1, mem_controller = 0, mem_dimm = 0, mem_topoclass = 2\<rparr>],
      list_pci = [\<lparr>pci_system = 0, pci_chassis = 0, pci_board = 0, pci_hostbridge = 0, pci_slot = 3, pci_func = 1,
                   pci_subdomain = 0, pci_subbus = 5, pci_subslot = 2, pci_subfunc = 0, pci_topoclass = 7,
                   pci_name = None, dev_icon = None\<rparr>],
      list_pci_host = [], list_pci_bridge = [], list_storage = [], tp_root = None\<rparr>"

lemma demo_topo_ok: "fmd_topo_tree demo_topo = (0, snd (fmd_topo_tree demo_topo))"
  using fmd_topo_tree_returns [of demo_topo]
  by (simp add: demo_topo_def pci_placed_def mem_placed_def prod_eq_iff)

theorem topo_tree_refines_lists_witness:
  "dom (tree_funcs (snd (fmd_topo_tree demo_topo))) = {(0, 0, 3, 1, None), (0, 0, 3, 1, Some (5, 2, 0))} \<and>
   tree_dimms (snd (fmd_topo_tree demo_topo)) = [(0, 1, 0, 0) \<mapsto> 4096]"
  using topo_tree_refines_lists [OF demo_topo_ok]
  by (simp add: demo_topo_def func_paths_def sub_opts_def has_sub_def sub_path_def mem_path_def)

theorem topo_tree_result_witness: "fst (fmd_topo_tree demo_topo) = 0"
  using topo_tree_result [of demo_topo] by (simp add: demo_topo_def pci_placed_def mem_placed_def)

section \<open>What is printed\<close>

lemma print_topo_chassis_ok: "chassis_ok c \<Longrightarrow> \<exists>out. print_topo_chassis c = Inr out"
  by (auto simp: chassis_ok_def print_topo_chassis_def split: option.splits)

lemma print_rest:
  "i \<notin> chassis_val ` set root \<Longrightarrow> print_chassis_loop i root n True = Inr []"
  by (induction root arbitrary: n) auto

lemma print_loop_found:
  assumes "root_ok root" "find_chassis i root = Some c"
  shows "print_chassis_loop i root n b = print_topo_chassis c"
  using assms
proof (induction root arbitrary: n b)
  case (Cons x root)
  then have "root_ok root" "chassis_ok x" "chassis_val x \<notin> chassis_val ` set root"
    by (auto simp: unique_def)
  then obtain out where "print_topo_chassis x = Inr out" using print_topo_chassis_ok by blast
  with Cons show ?case
    using print_rest [of i root] by (auto simp: find_chassis_def unique_def split: if_splits)
qed (simp add: find_chassis_def)

lemma print_loop_absent:
  "find_chassis i root = None \<Longrightarrow> print_chassis_loop i root n False =
     Inr [''node'' @ dec i @ '' does not exist! node index range : 0 - '' @ dec (int (n + length root)) @ '' '']"
  by (induction root arbitrary: n) (auto simp: find_chassis_def add.assoc split: if_splits)

lemma find_chassis_None: "find_chassis k root = None \<longleftrightarrow> k \<notin> chassis_val ` set root"
  by (auto simp: find_chassis_def find_None_iff)

lemma tree_chassis:
  assumes "tree_over cpus root"
  shows "chassis_val ` set root = (\<lambda>c. uint (cpu_chassis c)) ` set cpus"
proof -
  have a: "k \<in> chassis_val ` set root \<longleftrightarrow> (\<exists>q. (k, q) \<in> cpu_path ` set cpus)" for k
    using find_chassis_iff [of root k] find_chassis_None [of k root] assms by (auto simp: tree_over_def)
  have b: "(\<exists>q. (k, q) \<in> cpu_path ` set cpus) \<longleftrightarrow> k \<in> (\<lambda>c. uint (cpu_chassis c)) ` set cpus" for k
    unfolding image_iff cpu_path_def prod.inject by blast
  show ?thesis by (rule set_eqI) (simp only: a b)
qed

lemma tree_length:
  assumes "tree_over cpus root"
  shows "length root = card (cpu_chassis ` set cpus)"
proof -
  have "length root = card (chassis_val ` set root)"
    using assms by (simp add: tree_over_def unique_def) (metis distinct_card length_map list.set_map)
  also have "\<dots> = card (uint ` cpu_chassis ` set cpus)" by (simp add: tree_chassis [OF assms] image_image)
  also have "\<dots> = card (cpu_chassis ` set cpus)" by (rule card_image) (simp add: inj_on_def uint_eq)
  finally show ?thesis .
qed

text \<open>
  Once the tree is created, printing node \<open>i\<close> never follows a null pointer. It prints the one
  chassis with that number when some cpu is in chassis \<open>i\<close>; otherwise it prints a message whose
  upper end of the index range is the number of different chassis (one more than the highest index
  when they are numbered from 0).
\<close>

theorem print_topo_tree_correct:
  "print_topo_tree (snd (topo_tree_create tp)) i =
     (case find_chassis i (snd (fmd_topo_tree tp)) of
        Some csp \<Rightarrow> print_topo_chassis csp
      | None \<Rightarrow> Inr [''node'' @ dec i @ '' does not exist! node index range : 0 - '' @
                     dec (int (card (cpu_chassis ` set (list_cpu tp)))) @ '' ''])
   \<and> (\<exists>out. print_topo_tree (snd (topo_tree_create tp)) i = Inr out)
   \<and> (find_chassis i (snd (fmd_topo_tree tp)) \<noteq> None \<longleftrightarrow> (\<exists>c\<in>set (list_cpu tp). uint (cpu_chassis c) = i))"
proof -
  let ?root = "snd (fmd_topo_tree tp)"
  have over: "tree_over (list_cpu tp) ?root" by (rule fmd_topo_tree_over)
  then have ok: "root_ok ?root" by (simp add: tree_over_def)
  have p: "print_topo_tree (snd (topo_tree_create tp)) i = print_chassis_loop i ?root 0 False"
    by (simp add: print_topo_tree_def topo_tree_create_def split: prod.splits)
  have f: "find_chassis i ?root \<noteq> None \<longleftrightarrow> (\<exists>c\<in>set (list_cpu tp). uint (cpu_chassis c) = i)"
    using tree_chassis [OF over] find_chassis_None [of i ?root] by auto
  show ?thesis
  proof (cases "find_chassis i ?root")
    case None
    with f show ?thesis by (simp add: p print_loop_absent tree_length [OF over])
  next
    case (Some c)
    have "\<exists>out. print_topo_chassis c = Inr out"
      using find_chassis_ok [OF ok Some] print_topo_chassis_ok by blast
    with f Some show ?thesis by (simp add: p print_loop_found [OF ok Some])
  qed
qed

end
