(* ===== verification/Fms_Topo_Scan.thy ===== *)
theory Fms_Topo_Scan
  imports Fms_Topo
begin

text \<open>
  How the device lists of the topology are filled from \<^verbatim>\<open>/sys\<close>: cpus (\<^verbatim>\<open>lib/libtopo/cpu.c\<close>), pci
  devices (\<^verbatim>\<open>pci.c\<close>), disks (\<^verbatim>\<open>storage.c\<close>), network interfaces (\<^verbatim>\<open>network.c\<close>) and the numbering of
  hardware threads (\<^verbatim>\<open>_fmd_topo\<close> of \<^verbatim>\<open>fmd_topo.c\<close>).

  The file system is a parameter: the entries of a directory in the order \<^verbatim>\<open>readdir\<close> gives them
  (\<open>None\<close> when \<^verbatim>\<open>opendir\<close> fails) and the content of a file (\<open>None\<close> when it cannot be opened or read).
\<close>

record topo_fs =
  fs_dir :: "string \<Rightarrow> string list option"
  fs_file :: "string \<Rightarrow> string option"

definition FMD_SUCCESS :: int where "FMD_SUCCESS = 0"
definition NODE_ID_INVALD :: int where "NODE_ID_INVALD = - 1"
definition OPENDIR_FAILED :: int where "OPENDIR_FAILED = - 2"

text \<open>The enumeration \<^verbatim>\<open>topoclass_t\<close>.\<close>

definition TOPO_SYSTEM :: "5 word" where "TOPO_SYSTEM = 0"
definition TOPO_BRIDGE :: "5 word" where "TOPO_BRIDGE = 1"
definition TOPO_MEMORY :: "5 word" where "TOPO_MEMORY = 2"
definition TOPO_PROCESSOR :: "5 word" where "TOPO_PROCESSOR = 3"
definition TOPO_STORAGE :: "5 word" where "TOPO_STORAGE = 4"
definition TOPO_NETWORK :: "5 word" where "TOPO_NETWORK = 7"
definition TOPO_DISPLAY :: "5 word" where "TOPO_DISPLAY = 8"
definition TOPO_INPUT :: "5 word" where "TOPO_INPUT = 9"
definition TOPO_GENERIC :: "5 word" where "TOPO_GENERIC = 11"

section \<open>Cpus\<close>

text \<open>
  A number file is read into eight bytes that are neither initialised nor terminated, so the digits
  must be followed by another character (the newline of sysfs) within them.
\<close>

definition after_number :: "string \<Rightarrow> string" where
  "after_number s =
     (let t = dropWhile isspace s
      in dropWhile isdigit (case t of c # r \<Rightarrow> if c = CHR ''-'' \<or> c = CHR ''+'' then r else t | [] \<Rightarrow> []))"

definition read_number :: "string \<Rightarrow> int res" where
  "read_number content =
     (let buf = take 8 content in if after_number buf = [] then Inl Oob_access else Inr (atoi buf))"

definition fmd_topo_read_cpu :: "topo_fs \<Rightarrow> string \<Rightarrow> int \<Rightarrow> int \<Rightarrow> topo_cpu option res" where
  "fmd_topo_read_cpu fs dir nodeid processorid =
     (case fs_file fs (dir @ ''/topology/physical_package_id'') of
        None \<Rightarrow> Inr None
      | Some pkg \<Rightarrow> rbind (read_number pkg) (\<lambda>socket.
          case fs_file fs (dir @ ''/topology/core_id'') of
            None \<Rightarrow> Inr None
          | Some core \<Rightarrow> rbind (read_number core) (\<lambda>core.
              Inr (Some \<lparr>processor = processorid, cpu_flag = 0, cpu_system = 0,
                cpu_chassis = word_of_int nodeid, cpu_board = 0, cpu_socket = word_of_int socket,
                cpu_core = word_of_int core, cpu_thread = 0, cpu_topoclass = TOPO_PROCESSOR\<rparr>))))"

text \<open>The name test reads the fourth and fifth character; a name ends with a NUL.\<close>

definition is_cpu_name :: "string \<Rightarrow> bool" where
  "is_cpu_name p \<longleftrightarrow> char_at p 0 \<noteq> CHR ''.'' \<and> strncmp_eq p ''cpu'' 3 \<and> isdigit (char_at p 3) \<and>
     (char_at p 4 = CHR 0x00 \<or> isdigit (char_at p 4))"

fun walk_cpu_entries :: "topo_fs \<Rightarrow> string \<Rightarrow> int \<Rightarrow> string list \<Rightarrow> topo_cpu list \<Rightarrow> topo_cpu list res" where
  "walk_cpu_entries fs dir nodeid [] cpus = Inr cpus"
| "walk_cpu_entries fs dir nodeid (p # ps) cpus =
     (if \<not> is_cpu_name p then walk_cpu_entries fs dir nodeid ps cpus
      else rbind (fmd_topo_read_cpu fs (dir @ ''/'' @ p) nodeid (atoi (drop 3 p))) (\<lambda>pcpu.
        case pcpu of
          None \<Rightarrow> walk_cpu_entries fs dir nodeid ps cpus
        | Some c \<Rightarrow> walk_cpu_entries fs dir nodeid ps (c # cpus)))"

definition fmd_topo_walk_cpu :: "topo_fs \<Rightarrow> string \<Rightarrow> int \<Rightarrow> fmd_topo \<Rightarrow> fmd_topo res" where
  "fmd_topo_walk_cpu fs dir nodeid tp =
     (case fs_dir fs dir of
        None \<Rightarrow> Inr tp
      | Some es \<Rightarrow> rbind (walk_cpu_entries fs dir nodeid es (list_cpu tp)) (\<lambda>cpus. Inr (tp\<lparr>list_cpu := cpus\<rparr>)))"

definition cpu_sibling :: "topo_cpu \<Rightarrow> topo_cpu \<Rightarrow> bool" where
  "cpu_sibling a b \<longleftrightarrow>
     cpu_chassis a = cpu_chassis b \<and> cpu_socket a = cpu_socket b \<and> cpu_core a = cpu_core b"

fun topo_cpu_entries :: "topo_fs \<Rightarrow> string \<Rightarrow> string \<Rightarrow> string list \<Rightarrow> fmd_topo \<Rightarrow> (int \<times> fmd_topo) res" where
  "topo_cpu_entries fs dir pfx [] tp = Inr (FMD_SUCCESS, tp)"
| "topo_cpu_entries fs dir pfx (p # ps) tp =
     (if char_at p 0 = CHR ''.'' \<or> \<not> strncmp_eq p pfx (length pfx) then topo_cpu_entries fs dir pfx ps tp
      else if \<not> list_all isdigit (drop (length pfx) p) then Inr (NODE_ID_INVALD, tp)
      else rbind (fmd_topo_walk_cpu fs (dir @ ''/'' @ p) (atoi (drop (length pfx) p)) tp)
             (topo_cpu_entries fs dir pfx ps))"

definition fmd_topo_cpu :: "topo_fs \<Rightarrow> string \<Rightarrow> string \<Rightarrow> fmd_topo \<Rightarrow> (int \<times> fmd_topo) res" where
  "fmd_topo_cpu fs dir pfx tp =
     (case fs_dir fs dir of
        None \<Rightarrow> Inr (OPENDIR_FAILED, tp)
      | Some es \<Rightarrow> topo_cpu_entries fs dir pfx es tp)"

text \<open>
  Thread numbers: for each cpu the list is searched for a sibling; the one of the two with the
  higher processor number becomes thread 1 and both are marked.
\<close>

function thread_inner :: "nat \<Rightarrow> nat \<Rightarrow> topo_cpu list \<Rightarrow> topo_cpu list" where
  "thread_inner i j cpus =
     (if length cpus \<le> j then cpus
      else if j = i \<or> cpu_flag (cpus ! i) = 1 then thread_inner i (j + 1) cpus
      else if cpu_sibling (cpus ! i) (cpus ! j) then
        (let cpus = (if processor (cpus ! j) > processor (cpus ! i)
                     then cpus[j := (cpus ! j)\<lparr>cpu_thread := 1\<rparr>] else cpus[i := (cpus ! i)\<lparr>cpu_thread := 1\<rparr>]);
             cpus = cpus[i := (cpus ! i)\<lparr>cpu_flag := 1\<rparr>]
         in cpus[j := (cpus ! j)\<lparr>cpu_flag := 1\<rparr>])
      else thread_inner i (j + 1) cpus)"
  by pat_completeness auto
termination by (relation "measure (\<lambda>(i, j, cpus). length cpus - j)") auto

declare thread_inner.simps [simp del]

definition set_thread_ids :: "topo_cpu list \<Rightarrow> topo_cpu list" where
  "set_thread_ids cpus = fold (\<lambda>i. thread_inner i 0) [0..<length cpus] cpus"

subsection \<open>What the numbering computes\<close>

definition thread_number :: "topo_cpu list \<Rightarrow> topo_cpu \<Rightarrow> 8 word" where
  "thread_number cpus c = (if \<exists>d\<in>set cpus. cpu_sibling c d \<and> processor d < processor c then 1 else 0)"

definition has_sibling :: "topo_cpu list \<Rightarrow> topo_cpu \<Rightarrow> bool" where
  "has_sibling cpus c \<longleftrightarrow> (\<exists>d\<in>set cpus. cpu_sibling c d \<and> processor d \<noteq> processor c)"

definition numbered :: "topo_cpu list \<Rightarrow> topo_cpu \<Rightarrow> topo_cpu" where
  "numbered cpus c = c\<lparr>cpu_thread := thread_number cpus c, cpu_flag := (if has_sibling cpus c then 1 else 0)\<rparr>"

text \<open>The cpus as they are read: not yet numbered or marked, at most two per core, each processor number once.\<close>

definition two_way :: "topo_cpu list \<Rightarrow> bool" where
  "two_way cpus \<longleftrightarrow> distinct (map processor cpus) \<and>
     list_all (\<lambda>c. cpu_flag c = 0 \<and> cpu_thread c = 0 \<and> length (filter (cpu_sibling c) cpus) \<le> 2) cpus"

lemma thread_inner_marked: "cpu_flag (cpus ! i) = 1 \<Longrightarrow> thread_inner i j cpus = cpus"
  by (induction i j cpus rule: thread_inner.induct) (simp add: thread_inner.simps)

lemma thread_inner_alone:
  "\<forall>k<length cpus. k \<noteq> i \<longrightarrow> \<not> cpu_sibling (cpus ! i) (cpus ! k) \<Longrightarrow> thread_inner i j cpus = cpus"
  by (induction i j cpus rule: thread_inner.induct) (simp add: thread_inner.simps)

lemma thread_inner_pair:
  assumes "i < length cpus" "p < length cpus" "p \<noteq> i" "cpu_flag (cpus ! i) \<noteq> 1" "cpu_sibling (cpus ! i) (cpus ! p)"
    and "\<forall>k<p. k \<noteq> i \<longrightarrow> \<not> cpu_sibling (cpus ! i) (cpus ! k)" "j \<le> p"
  shows "thread_inner i j cpus = (if processor (cpus ! p) > processor (cpus ! i)
     then cpus[i := (cpus ! i)\<lparr>cpu_flag := 1\<rparr>, p := (cpus ! p)\<lparr>cpu_thread := 1, cpu_flag := 1\<rparr>]
     else cpus[i := (cpus ! i)\<lparr>cpu_thread := 1, cpu_flag := 1\<rparr>, p := (cpus ! p)\<lparr>cpu_flag := 1\<rparr>])"
  using assms(7)
proof (induction "p - j" arbitrary: j)
  case 0
  then have "j = p" by simp
  then show ?case
    using assms by (subst thread_inner.simps) (simp add: Let_def list_update_swap)
next
  case (Suc n)
  then have "j < p" "n = p - (j + 1)" by simp_all
  then have "thread_inner i j cpus = thread_inner i (j + 1) cpus"
    using assms by (subst thread_inner.simps) simp
  with Suc.hyps(1) [of "j + 1"] \<open>j < p\<close> \<open>n = p - (j + 1)\<close> show ?case by simp
qed

lemma cpu_sibling_equiv:
  "cpu_sibling a a" "cpu_sibling a b \<longleftrightarrow> cpu_sibling b a" "cpu_sibling a b \<Longrightarrow> cpu_sibling b c \<Longrightarrow> cpu_sibling a c"
  by (auto simp: cpu_sibling_def)

lemma two_way_partner:
  assumes "two_way cpus" "i < length cpus" "j < length cpus" "k < length cpus" "j \<noteq> i" "k \<noteq> i"
    and "cpu_sibling (cpus ! i) (cpus ! j)" "cpu_sibling (cpus ! i) (cpus ! k)"
  shows "j = k"
proof (rule ccontr)
  assume "j \<noteq> k"
  let ?S = "{m. m < length cpus \<and> cpu_sibling (cpus ! i) (cpus ! m)}"
  have "{i, j, k} \<subseteq> ?S" using assms by (auto simp: cpu_sibling_equiv(1))
  then have "card {i, j, k} \<le> card ?S" by (intro card_mono) auto
  moreover have "card {i, j, k} = 3" using \<open>j \<noteq> k\<close> assms(5,6) by simp
  moreover have "card ?S \<le> 2"
    using assms(1,2) by (simp add: two_way_def list_all_length length_filter_conv_card)
  ultimately show False by simp
qed

text \<open>After \<open>n\<close> rounds exactly the pairs whose first member was visited are numbered.\<close>

definition paired :: "topo_cpu list \<Rightarrow> nat \<Rightarrow> nat \<Rightarrow> bool" where
  "paired cpus n k \<longleftrightarrow> (\<exists>j<length cpus. j \<noteq> k \<and> cpu_sibling (cpus ! k) (cpus ! j) \<and> min k j < n)"

definition after_rounds :: "topo_cpu list \<Rightarrow> nat \<Rightarrow> topo_cpu list" where
  "after_rounds cpus n =
     map (\<lambda>k. if paired cpus n k then numbered cpus (cpus ! k) else cpus ! k) [0..<length cpus]"

lemma after_rounds_nth:
  "k < length cpus \<Longrightarrow> after_rounds cpus n ! k = (if paired cpus n k then numbered cpus (cpus ! k) else cpus ! k)"
  by (simp add: after_rounds_def)

lemma length_after_rounds [simp]: "length (after_rounds cpus n) = length cpus"
  by (simp add: after_rounds_def)

lemma numbered_simps [simp]:
  "processor (numbered cpus c) = processor c"
  "cpu_sibling (numbered cpus c) d = cpu_sibling c d" "cpu_sibling c (numbered cpus d) = cpu_sibling c d"
  by (simp_all add: numbered_def cpu_sibling_def)

lemma numbered_pair:
  assumes "two_way cpus" "i < length cpus" "j < length cpus" "j \<noteq> i" "cpu_sibling (cpus ! i) (cpus ! j)"
  shows "numbered cpus (cpus ! i) = (cpus ! i)\<lparr>cpu_thread := if processor (cpus ! j) < processor (cpus ! i)
           then 1 else 0, cpu_flag := 1\<rparr>"
proof -
  have d: "processor (cpus ! k) = processor (cpus ! i) \<longleftrightarrow> k = i" if "k < length cpus" for k
    using assms(1,2) that by (auto simp: two_way_def distinct_map inj_on_eq_iff nth_eq_iff_index_eq)
  have "(\<exists>d\<in>set cpus. cpu_sibling (cpus ! i) d \<and> processor d < processor (cpus ! i))
      \<longleftrightarrow> processor (cpus ! j) < processor (cpus ! i)" (is "?l \<longleftrightarrow> ?r")
  proof
    assume ?l
    then obtain k where k: "k < length cpus" "cpu_sibling (cpus ! i) (cpus ! k)" "processor (cpus ! k) < processor (cpus ! i)"
      by (auto simp: in_set_conv_nth)
    moreover from k(3) have "k \<noteq> i" by auto
    ultimately show ?r using two_way_partner [OF assms(1-3) k(1) assms(4) _ assms(5) k(2)] by simp
  next
    assume ?r
    with assms(3,5) show ?l by (intro bexI [of _ "cpus ! j"]) simp_all
  qed
  moreover have "has_sibling cpus (cpus ! i)"
    unfolding has_sibling_def using assms d by (intro bexI [of _ "cpus ! j"]) auto
  ultimately show ?thesis by (simp add: numbered_def thread_number_def)
qed

lemma after_rounds_sibling:
  "i < length cpus \<Longrightarrow> k < length cpus \<Longrightarrow>
     cpu_sibling (after_rounds cpus n ! i) (after_rounds cpus n ! k) = cpu_sibling (cpus ! i) (cpus ! k)"
  by (simp add: after_rounds_nth)

lemma paired_mono: "paired cpus n k \<Longrightarrow> paired cpus (Suc n) k"
  unfolding paired_def using less_SucI by blast

lemma after_rounds_same:
  assumes "\<And>k. k < length cpus \<Longrightarrow> paired cpus (Suc n) k \<Longrightarrow> paired cpus n k"
  shows "after_rounds cpus (Suc n) = after_rounds cpus n"
  by (rule nth_equalityI) (use assms paired_mono in \<open>auto simp: after_rounds_nth\<close>)

text \<open>Only the pair of \<open>n\<close> with a later cpu is new in round \<open>n\<close>.\<close>

lemma paired_Suc:
  assumes "k < length cpus" "paired cpus (Suc n) k" "\<not> paired cpus n k"
  obtains j where "j < length cpus" "j \<noteq> k" "cpu_sibling (cpus ! k) (cpus ! j)" "min k j = n"
proof -
  from assms(2) obtain j where j: "j < length cpus" "j \<noteq> k" "cpu_sibling (cpus ! k) (cpus ! j)" "min k j < Suc n"
    by (auto simp: paired_def)
  then have "\<not> min k j < n" using assms(3) unfolding paired_def by blast
  with j that show ?thesis by (metis not_less_less_Suc_eq)
qed

lemma round_no_later:
  assumes "n < length cpus" "\<forall>j<length cpus. n < j \<longrightarrow> \<not> cpu_sibling (cpus ! n) (cpus ! j)"
  shows "after_rounds cpus (Suc n) = after_rounds cpus n"
proof (rule after_rounds_same, rule ccontr)
  fix k assume k: "k < length cpus" "paired cpus (Suc n) k" "\<not> paired cpus n k"
  then obtain j where "j < length cpus" "j \<noteq> k" "cpu_sibling (cpus ! k) (cpus ! j)" "min k j = n"
    by (rule paired_Suc)
  with assms(2) k(1) cpu_sibling_equiv(2) show False by (metis min_def nat_neq_iff not_le)
qed

lemma round_pair:
  assumes tw: "two_way cpus" and n: "n < length cpus" and j: "j < length cpus" "n < j" "cpu_sibling (cpus ! n) (cpus ! j)"
  shows "after_rounds cpus (Suc n) =
    (after_rounds cpus n)[n := numbered cpus (cpus ! n), j := numbered cpus (cpus ! j)]"
proof (rule nth_equalityI)
  fix k assume "k < length (after_rounds cpus (Suc n))"
  then have k: "k < length cpus" by simp
  have "cpu_sibling (cpus ! j) (cpus ! n)" using j(3) cpu_sibling_equiv(2) by blast
  then have p: "paired cpus (Suc n) n" "paired cpus (Suc n) j"
    unfolding paired_def using n j by (auto intro: exI [of _ j]) (auto intro: exI [of _ n])
  show "after_rounds cpus (Suc n) ! k =
      (after_rounds cpus n)[n := numbered cpus (cpus ! n), j := numbered cpus (cpus ! j)] ! k"
  proof (cases "k = n \<or> k = j")
    case False
    have "paired cpus (Suc n) k \<longleftrightarrow> paired cpus n k"
    proof
      assume a: "paired cpus (Suc n) k"
      show "paired cpus n k"
      proof (rule ccontr)
        assume "\<not> paired cpus n k"
        from paired_Suc [OF k a this] obtain i where i: "i < length cpus" "i \<noteq> k" "cpu_sibling (cpus ! k) (cpus ! i)" "min k i = n" .
        then have "i = n" "k \<noteq> n" using False by (auto simp: min_def split: if_splits)
        have "cpu_sibling (cpus ! n) (cpus ! k)"
          using i(3) unfolding \<open>i = n\<close> by (subst cpu_sibling_equiv(2))
        from two_way_partner [OF tw n j(1) k _ \<open>k \<noteq> n\<close> j(3) this] j(2) False show False by simp
      qed
    qed (rule paired_mono)
    with False k show ?thesis by (simp add: after_rounds_nth)
  qed (use p k n j in \<open>auto simp: after_rounds_nth nth_list_update\<close>)
qed simp

lemma after_rounds_step:
  assumes tw: "two_way cpus" and n: "n < length cpus"
  shows "thread_inner n 0 (after_rounds cpus n) = after_rounds cpus (Suc n)"
proof (cases "paired cpus n n")
  case True
  then obtain i where i: "i < length cpus" "i \<noteq> n" "cpu_sibling (cpus ! n) (cpus ! i)" "i < n"
    by (auto simp: paired_def)
  have "cpu_flag (after_rounds cpus n ! n) = 1"
    using True n by (simp add: after_rounds_nth numbered_pair [OF tw n i(1-3)])
  moreover have "after_rounds cpus (Suc n) = after_rounds cpus n"
    using two_way_partner [OF tw n i(1) _ i(2) _ i(3)] i(4) by (intro round_no_later [OF n]) auto
  ultimately show ?thesis by (simp add: thread_inner_marked)
next
  case new: False
  show ?thesis
  proof (cases "\<exists>j<length cpus. n < j \<and> cpu_sibling (cpus ! n) (cpus ! j)")
    case False
    have "\<not> cpu_sibling (cpus ! n) (cpus ! k)" if "k < length cpus" "k \<noteq> n" for k
      using that new False unfolding paired_def by (metis min_less_iff_conj min_less_iff_disj nat_neq_iff)
    then have "thread_inner n 0 (after_rounds cpus n) = after_rounds cpus n"
      using n by (intro thread_inner_alone) (simp add: after_rounds_sibling)
    with round_no_later [OF n] False show ?thesis by auto
  next
    case True
    then obtain j where j: "j < length cpus" "n < j" "cpu_sibling (cpus ! n) (cpus ! j)" by auto
    then have s: "cpu_sibling (cpus ! j) (cpus ! n)" using cpu_sibling_equiv(2) by blast
    have "\<not> paired cpus n j"
      using two_way_partner [OF tw j(1) n _ _ _ s] j(2) by (fastforce simp: paired_def)
    then have st: "after_rounds cpus n ! n = cpus ! n" "after_rounds cpus n ! j = cpus ! j"
      using new n j(1) by (simp_all add: after_rounds_nth)
    have f: "cpu_flag (cpus ! n) = 0" "cpu_thread (cpus ! n) = 0" "cpu_thread (cpus ! j) = 0"
      using tw n j(1) by (auto simp: two_way_def list_all_length)
    have d: "processor (cpus ! n) \<noteq> processor (cpus ! j)"
      using tw n j(1,2) by (auto simp: two_way_def distinct_conv_nth)
    have fst: "\<forall>k<j. k \<noteq> n \<longrightarrow> \<not> cpu_sibling (cpus ! n) (cpus ! k)"
    proof (intro allI impI notI)
      fix k assume "k < j" "k \<noteq> n" "cpu_sibling (cpus ! n) (cpus ! k)"
      with two_way_partner [OF tw n j(1) _ _ _ j(3), of k] j(1,2) show False by simp
    qed
    have t: "thread_inner n 0 (after_rounds cpus n) =
        (if processor (cpus ! j) > processor (cpus ! n)
         then (after_rounds cpus n)[n := (cpus ! n)\<lparr>cpu_flag := 1\<rparr>, j := (cpus ! j)\<lparr>cpu_thread := 1, cpu_flag := 1\<rparr>]
         else (after_rounds cpus n)[n := (cpus ! n)\<lparr>cpu_thread := 1, cpu_flag := 1\<rparr>, j := (cpus ! j)\<lparr>cpu_flag := 1\<rparr>])"
      by (subst thread_inner_pair [where p = j]) (use n j f(1) fst in \<open>auto simp: st after_rounds_nth\<close>)
    have z: "(c :: topo_cpu)\<lparr>cpu_thread := 0, cpu_flag := 1\<rparr> = c\<lparr>cpu_flag := 1\<rparr>" if "cpu_thread c = 0" for c
      using that by (cases c) simp
    have "thread_inner n 0 (after_rounds cpus n) =
        (after_rounds cpus n)[n := numbered cpus (cpus ! n), j := numbered cpus (cpus ! j)]"
      using t d f(2,3) j(2) numbered_pair [OF tw n j(1) _ j(3)] numbered_pair [OF tw j(1) n _ s] by (simp add: z [OF f(2)] z [OF f(3)])
    with round_pair [OF tw n j] show ?thesis by simp
  qed
qed

lemma rounds: "two_way cpus \<Longrightarrow> n \<le> length cpus \<Longrightarrow> fold (\<lambda>i. thread_inner i 0) [0..<n] cpus = after_rounds cpus n"
proof (induction n)
  case 0
  have "after_rounds cpus 0 = cpus" by (rule nth_equalityI) (simp_all add: after_rounds_nth paired_def)
  then show ?case by simp
qed (simp add: after_rounds_step)

lemma numbered_alone:
  assumes "two_way cpus" "k < length cpus" "\<not> paired cpus (length cpus) k"
  shows "numbered cpus (cpus ! k) = cpus ! k"
proof -
  have "processor d = processor (cpus ! k)" if "d \<in> set cpus" "cpu_sibling (cpus ! k) d" for d
    using that assms(2,3) by (auto simp: paired_def in_set_conv_nth min_less_iff_disj)
  then have "thread_number cpus (cpus ! k) = 0" "\<not> has_sibling cpus (cpus ! k)"
    by (auto simp: thread_number_def has_sibling_def)
  moreover have "cpu_flag (cpus ! k) = 0" "cpu_thread (cpus ! k) = 0"
    using assms(1,2) by (auto simp: two_way_def list_all_length)
  ultimately show ?thesis by (cases "cpus ! k") (simp add: numbered_def)
qed

text \<open>
  C32. On a machine with at most two hardware threads per core the nested marking loop of
  \<^verbatim>\<open>_fmd_topo\<close> computes the same as its reference definition, in one pass over the list: the thread
  number of a cpu is 1 if a cpu of the same chassis, socket and core has a smaller processor number
  and 0 otherwise, the mark says whether there is a sibling, and nothing else changes, whatever the
  order of the list.
\<close>

theorem thread_ids_equal_reference:
  assumes "two_way cpus"
  shows "set_thread_ids cpus = map (numbered cpus) cpus"
proof -
  have "set_thread_ids cpus = after_rounds cpus (length cpus)"
    unfolding set_thread_ids_def by (rule rounds [OF assms order_refl])
  also have "\<dots> = map (numbered cpus) cpus"
    by (rule nth_equalityI) (auto simp: after_rounds_nth numbered_alone [OF assms])
  finally show ?thesis .
qed

definition demo_cpu :: "int \<Rightarrow> 8 word \<Rightarrow> topo_cpu" where
  "demo_cpu p k = \<lparr>processor = p, cpu_flag = 0, cpu_system = 0, cpu_chassis = 0, cpu_board = 0,
     cpu_socket = 0, cpu_core = k, cpu_thread = 0, cpu_topoclass = TOPO_PROCESSOR\<rparr>"

theorem thread_ids_equal_reference_witness:
  "map cpu_thread (set_thread_ids [demo_cpu 3 1, demo_cpu 2 0, demo_cpu 0 1]) = [1, 0, 0]"
proof -
  have "two_way [demo_cpu 3 1, demo_cpu 2 0, demo_cpu 0 1]"
    by (simp add: two_way_def demo_cpu_def cpu_sibling_def)
  from thread_ids_equal_reference [OF this] show ?thesis
    by (simp add: numbered_def thread_number_def demo_cpu_def cpu_sibling_def)
qed

section \<open>Directories\<close>

text \<open>A \<^verbatim>\<open>readdir\<close> loop whose body may return from the function: it stops at a code other than 0.\<close>

fun each_entry :: "('e \<Rightarrow> 's \<Rightarrow> (int \<times> 's) res) \<Rightarrow> 'e list \<Rightarrow> 's \<Rightarrow> (int \<times> 's) res" where
  "each_entry f [] st = Inr (0, st)"
| "each_entry f (e # es) st = rbind (f e st) (\<lambda>(rc, st). if rc \<noteq> 0 then Inr (rc, st) else each_entry f es st)"

definition hidden :: "string \<Rightarrow> bool" where
  "hidden p \<longleftrightarrow> char_at p 0 = CHR ''.''"

definition open_each :: "topo_fs \<Rightarrow> string \<Rightarrow> (string \<Rightarrow> 's \<Rightarrow> (int \<times> 's) res) \<Rightarrow> 's \<Rightarrow> (int \<times> 's) res" where
  "open_each fs dir f st =
     (case fs_dir fs dir of
        None \<Rightarrow> Inr (OPENDIR_FAILED, st)
      | Some es \<Rightarrow> each_entry (\<lambda>p st. if hidden p then Inr (0, st) else f p st) es st)"

section \<open>Disks\<close>

definition pci_devices_dir :: "topo_pci \<Rightarrow> string" where
  "pci_devices_dir p = ''/sys/bus/pci/devices/'' @ pad0 4 (hex (unat (pci_chassis p))) @ '':'' @
     pad0 2 (hex (unat (pci_hostbridge p))) @ '':'' @ pad0 2 (hex (unat (pci_slot p))) @ ''.'' @ hex (unat (pci_func p))"

text \<open>
  Below a logical unit: the state is the storage record (allocated, not yet linked, or linked) and
  the list; a second block device would link the same record again.
\<close>

definition storage_link :: "string \<Rightarrow> bool \<times> topo_storage \<times> topo_storage list \<Rightarrow> (int \<times> bool \<times> topo_storage \<times> topo_storage list) res" where
  "storage_link name st =
     (let (linked, pstr, ls) = st
      in if linked then Inl Relinked
         else let pstr = pstr\<lparr>storage_name := Some name\<rparr> in Inr (0, True, pstr, pstr # ls))"

definition scan_block :: "topo_fs \<Rightarrow> string \<Rightarrow> string \<Rightarrow> bool \<times> topo_storage \<times> topo_storage list \<Rightarrow> (int \<times> bool \<times> topo_storage \<times> topo_storage list) res" where
  "scan_block fs dir3 p3 st =
     (if strncmp_eq p3 ''block'' 5 then
        (if strchr p3 CHR '':'' \<noteq> None then storage_link (drop 6 p3) st
         else rbind (fits 100 (dir3 @ ''/'' @ p3)) (\<lambda>dir4. open_each fs dir4 storage_link st))
      else Inr (0, st))"

definition storage_of :: "topo_pci \<Rightarrow> topo_storage" where
  "storage_of p =
     \<lparr>storage_system = pci_system p, storage_chassis = pci_chassis p, storage_board = pci_board p,
      storage_hostbridge = pci_hostbridge p, storage_slot = pci_slot p, storage_func = ucast (pci_func p),
      storage_host = 0, storage_channel = 0, storage_target = 0, storage_lun = 0,
      storage_topoclass = pci_topoclass p, storage_name = None, storage_icon = dev_icon p\<rparr>"

definition scan_lun :: "topo_fs \<Rightarrow> topo_pci \<Rightarrow> string \<Rightarrow> string \<Rightarrow> topo_storage list \<Rightarrow> (int \<times> topo_storage list) res" where
  "scan_lun fs p dir2 p2 ls =
     rbind (fits 20 p2) (\<lambda>tmp.
       if strchr p2 CHR '':'' = None then Inr (0, ls)
       else let up = map (\<lambda>t. word_of_int (strtol16 t) :: 8 word) (strsep_all [CHR '':''] p2)
         in if length up > 4 then Inl Oob_access
            else let at = (\<lambda>i. if i < length up then up ! i else 0);
                     pstr = (storage_of p)\<lparr>storage_host := at 0, storage_channel := at 1,
                       storage_target := at 2, storage_lun := at 3\<rparr>
              in rbind (fits 100 (dir2 @ ''/'' @ tmp)) (\<lambda>dir3.
                 rbind (open_each fs dir3 (scan_block fs dir3) (False, pstr, ls)) (\<lambda>(rc, _, _, ls). Inr (rc, ls))))"

definition scan_target :: "topo_fs \<Rightarrow> topo_pci \<Rightarrow> string \<Rightarrow> string \<Rightarrow> topo_storage list \<Rightarrow> (int \<times> topo_storage list) res" where
  "scan_target fs p dir1 p1 ls =
     (if strncmp_eq p1 ''target'' 6
      then rbind (fits 100 (dir1 @ ''/'' @ p1)) (\<lambda>dir2. open_each fs dir2 (scan_lun fs p dir2) ls)
      else Inr (0, ls))"

definition scan_host :: "topo_fs \<Rightarrow> topo_pci \<Rightarrow> string \<Rightarrow> string \<Rightarrow> topo_storage list \<Rightarrow> (int \<times> topo_storage list) res" where
  "scan_host fs p dir q ls =
     (if strncmp_eq q ''host'' 4
      then rbind (fits 100 (dir @ ''/'' @ q)) (\<lambda>dir1. open_each fs dir1 (scan_target fs p dir1) ls)
      else Inr (0, ls))"

definition fmd_scan_pci_storage :: "topo_fs \<Rightarrow> topo_pci \<Rightarrow> fmd_topo \<Rightarrow> (int \<times> fmd_topo) res" where
  "fmd_scan_pci_storage fs p tp =
     rbind (open_each fs (pci_devices_dir p) (scan_host fs p (pci_devices_dir p)) (list_storage tp))
       (\<lambda>(rc, ls). Inr (rc, tp\<lparr>list_storage := ls\<rparr>))"

section \<open>Pci devices\<close>

definition conf_byte :: "string \<Rightarrow> nat \<Rightarrow> nat" where
  "conf_byte config i = (if i < length config then of_char (config ! i) else 0)"

text \<open>
  The 256 bytes of configuration space that \<^verbatim>\<open>fmd_topo_walk_pci\<close> ends up with: the first 64 bytes, and
  the others only when all of them could be read; \<open>conf_byte\<close> gives 0 behind what was read.
\<close>

definition pci_config :: "string \<Rightarrow> string" where
  "pci_config content = (if length content \<ge> 256 then take 256 content else take 64 content)"

definition get_conf_word :: "string \<Rightarrow> nat \<Rightarrow> nat" where
  "get_conf_word config pos =
     (if pos > 256 then 0 else conf_byte config pos + 256 * conf_byte config (pos + 1))"

definition PCI_CLASS_DEVICE :: nat where "PCI_CLASS_DEVICE = 0x0a"
definition PCI_SECONDARY_BUS :: nat where "PCI_SECONDARY_BUS = 0x19"
definition PCI_CLASS_STORAGE_SCSI :: nat where "PCI_CLASS_STORAGE_SCSI = 0x0100"
definition PCI_CLASS_STORAGE_IDE :: nat where "PCI_CLASS_STORAGE_IDE = 0x0101"
definition PCI_CLASS_BRIDGE_HOST :: nat where "PCI_CLASS_BRIDGE_HOST = 0x0600"
definition PCI_CLASS_BRIDGE_ISA :: nat where "PCI_CLASS_BRIDGE_ISA = 0x0601"
definition PCI_CLASS_BRIDGE_PCI :: nat where "PCI_CLASS_BRIDGE_PCI = 0x0604"

definition pci_class :: "nat \<Rightarrow> topo_pci \<Rightarrow> topo_pci" where
  "pci_class dclass p =
     (let base = dclass div 256
      in if base = 0x01 then p\<lparr>pci_topoclass := TOPO_STORAGE,
             dev_icon := (if dclass = PCI_CLASS_STORAGE_SCSI then Some ''scsi''
                          else if dclass = PCI_CLASS_STORAGE_IDE then Some ''ide'' else dev_icon p)\<rparr>
         else if base = 0x02 then p\<lparr>pci_topoclass := TOPO_NETWORK\<rparr>
         else if base = 0x05 then p\<lparr>pci_topoclass := TOPO_MEMORY\<rparr>
         else if base = 0x06 then p\<lparr>pci_topoclass := TOPO_BRIDGE,
             dev_icon := (if dclass = PCI_CLASS_BRIDGE_HOST then Some ''host''
                          else if dclass = PCI_CLASS_BRIDGE_ISA then Some ''isa''
                          else if dclass = PCI_CLASS_BRIDGE_PCI then Some ''pci'' else dev_icon p)\<rparr>
         else if base = 0x03 then p\<lparr>pci_topoclass := TOPO_DISPLAY\<rparr>
         else if base = 0x08 then p\<lparr>pci_topoclass := TOPO_SYSTEM\<rparr>
         else if base = 0x09 then p\<lparr>pci_topoclass := TOPO_INPUT\<rparr>
         else if base = 0x0b then p\<lparr>pci_topoclass := TOPO_PROCESSOR\<rparr>
         else p\<lparr>pci_topoclass := TOPO_GENERIC\<rparr>)"

definition fmd_scan_pci_dev :: "topo_fs \<Rightarrow> string \<Rightarrow> topo_pci \<Rightarrow> fmd_topo \<Rightarrow> fmd_topo res" where
  "fmd_scan_pci_dev fs config p tp =
     (let dclass = get_conf_word config PCI_CLASS_DEVICE;
          p = pci_class dclass p;
          p = (if dclass = PCI_CLASS_BRIDGE_PCI
               then p\<lparr>pci_subdomain := 0, pci_subbus := of_nat (get_conf_word config PCI_SECONDARY_BUS)\<rparr> else p)
      in if dev_icon p = Some ''pci'' then Inr (tp\<lparr>list_pci_bridge := p # list_pci_bridge tp\<rparr>)
         else if pci_topoclass p = TOPO_STORAGE
           then rbind (fmd_scan_pci_storage fs p tp) (\<lambda>(rc, tp). Inr tp)
         else Inr (tp\<lparr>list_pci := p # list_pci tp\<rparr>))"

definition pci_zero :: topo_pci where
  "pci_zero = \<lparr>pci_system = 0, pci_chassis = 0, pci_board = 0, pci_hostbridge = 0, pci_slot = 0, pci_func = 0,
     pci_subdomain = 0, pci_subbus = 0, pci_subslot = 0, pci_subfunc = 0, pci_topoclass = 0,
     pci_name = None, dev_icon = None\<rparr>"

text \<open>The four numbers of a device name, as \<^verbatim>\<open>uint32_t\<close>.\<close>

definition pci_numbers :: "string \<Rightarrow> 32 word list res" where
  "pci_numbers file =
     (let p = map (\<lambda>t. word_of_int (strtol16 t)) (strsep_all [CHR '':'', CHR ''.''] file)
      in if length p > 4 then Inl Oob_access else Inr (p @ replicate (4 - length p) 0))"

definition fmd_topo_walk_pci :: "topo_fs \<Rightarrow> string \<Rightarrow> string \<Rightarrow> fmd_topo \<Rightarrow> fmd_topo res" where
  "fmd_topo_walk_pci fs dir file tp =
     rbind (fits 50 file) (\<lambda>filename.
     rbind (fits 100 (dir @ ''/'' @ file @ ''/config'')) (\<lambda>devicepath.
     rbind (pci_numbers filename) (\<lambda>p.
       let ppci = pci_zero\<lparr>pci_chassis := ucast (p ! 0), pci_hostbridge := ucast (p ! 1),
                           pci_slot := ucast (p ! 2), pci_func := ucast (p ! 3)\<rparr>
       in case fs_file fs devicepath of
            None \<Rightarrow> Inr tp
          | Some content \<Rightarrow> fmd_scan_pci_dev fs (pci_config content) ppci tp)))"

fun walk_pci_entries :: "topo_fs \<Rightarrow> string \<Rightarrow> string list \<Rightarrow> fmd_topo \<Rightarrow> fmd_topo res" where
  "walk_pci_entries fs dir [] tp = Inr tp"
| "walk_pci_entries fs dir (p # ps) tp =
     (if hidden p then walk_pci_entries fs dir ps tp
      else rbind (fmd_topo_walk_pci fs dir p tp) (walk_pci_entries fs dir ps))"

text \<open>
  Devices whose bus is the secondary bus of a bridge move below the bridge; the loop over the
  bridges is the outer one, so that a device can move more than once.
\<close>

definition sub_move :: "topo_pci \<Rightarrow> topo_pci \<Rightarrow> topo_pci" where
  "sub_move b s =
     (if pci_hostbridge s = pci_subbus b \<and> pci_chassis s = ucast (pci_subdomain b)
      then s\<lparr>pci_chassis := pci_chassis b, pci_hostbridge := pci_hostbridge b,
             pci_subslot := ucast (pci_slot s), pci_subfunc := ucast (pci_func s),
             pci_slot := pci_slot b, pci_func := pci_func b,
             pci_subdomain := pci_subdomain b, pci_subbus := pci_subbus b\<rparr>
      else s)"

definition fmd_topo_walk_subpci :: "fmd_topo \<Rightarrow> fmd_topo" where
  "fmd_topo_walk_subpci tp = tp\<lparr>list_pci := fold (\<lambda>b. map (sub_move b)) (list_pci_bridge tp) (list_pci tp)\<rparr>"

section \<open>Network interfaces\<close>

definition net_numbers :: "string \<Rightarrow> 64 word list res" where
  "net_numbers name =
     rbind (fits 50 name) (\<lambda>filename. Inr (map (\<lambda>t. word_of_int (strtol16 t)) (strsep_all [CHR '':'', CHR ''.''] filename)))"

definition name_device :: "64 word list \<Rightarrow> string \<Rightarrow> topo_pci \<Rightarrow> topo_pci" where
  "name_device item file p =
     (let at = (\<lambda>i. if i < length item then item ! i else 0)
      in if at 0 = ucast (pci_chassis p) \<and> at 1 = ucast (pci_hostbridge p) \<and>
            at 2 = ucast (pci_slot p) \<and> at 3 = ucast (pci_func p)
         then p\<lparr>pci_name := Some file\<rparr> else p)"

definition fmd_topo_walk_net :: "topo_fs \<Rightarrow> string \<Rightarrow> string \<Rightarrow> fmd_topo \<Rightarrow> (int \<times> fmd_topo) res" where
  "fmd_topo_walk_net fs dir file tp =
     rbind (fits 100 (dir @ ''/'' @ file @ ''/device/driver'')) (\<lambda>devicepath.
       case fs_dir fs devicepath of
         None \<Rightarrow> Inr (OPENDIR_FAILED, tp)
       | Some es \<Rightarrow>
           rbind (case find (\<lambda>p. \<not> hidden p \<and> strchr p CHR '':'' \<noteq> None) es of
                    None \<Rightarrow> Inr [] | Some p \<Rightarrow> net_numbers p) (\<lambda>item.
             Inr (FMD_SUCCESS, tp\<lparr>list_pci := map (name_device item file) (list_pci tp)\<rparr>)))"

fun net_entries :: "topo_fs \<Rightarrow> string \<Rightarrow> string list \<Rightarrow> fmd_topo \<Rightarrow> fmd_topo res" where
  "net_entries fs dir [] tp = Inr tp"
| "net_entries fs dir (p # ps) tp =
     (if char_at p 0 = CHR ''e'' \<or> char_at p 0 = CHR ''w''
      then rbind (fmd_topo_walk_net fs dir p tp) (\<lambda>(rc, tp). net_entries fs dir ps tp)
      else net_entries fs dir ps tp)"

definition fmd_topo_net :: "topo_fs \<Rightarrow> string \<Rightarrow> fmd_topo \<Rightarrow> (int \<times> fmd_topo) res" where
  "fmd_topo_net fs dir tp =
     (case fs_dir fs dir of
        None \<Rightarrow> Inr (OPENDIR_FAILED, tp)
      | Some es \<Rightarrow> rbind (net_entries fs dir es tp) (\<lambda>tp. Inr (FMD_SUCCESS, tp)))"

definition fmd_topo_pci :: "topo_fs \<Rightarrow> string \<Rightarrow> fmd_topo \<Rightarrow> (int \<times> fmd_topo) res" where
  "fmd_topo_pci fs dir tp =
     (case fs_dir fs dir of
        None \<Rightarrow> Inr (OPENDIR_FAILED, tp)
      | Some es \<Rightarrow>
          rbind (walk_pci_entries fs dir es tp) (\<lambda>tp.
          rbind (fmd_topo_net fs ''/sys/class/net'' tp) (\<lambda>(ret, tp).
            if ret < 0 then Inr (ret, tp) else Inr (FMD_SUCCESS, fmd_topo_walk_subpci tp))))"

subsection \<open>Device names are read back\<close>

lemma unat_small: "unat (a :: 8 word) < 2 ^ 32" "unat (b :: 4 word) < 2 ^ 32"
  using unsigned_less [of a, where ?'a = nat] unsigned_less [of b, where ?'a = nat] by simp_all

lemma plain_no_sep: "list_all plain_digit s \<Longrightarrow> set s \<inter> set [CHR '':'', CHR ''.''] = {}"
  by (auto simp: list_all_iff plain_digit_def)

lemma word_of_int_unat: "(word_of_int (int (unat a)) :: 'b::len word) = ucast a"
  by (simp add: uint_nat [symmetric])

text \<open>
  The directory name \<^verbatim>\<open>storage.c\<close> prints for a device and the name \<^verbatim>\<open>pci.c\<close> reads agree: parsing
  the last component of the printed path gives back the device's domain, bus, slot and function,
  without a wild access, for every device.
\<close>

theorem pci_name_roundtrip:
  "pci_numbers (drop (length ''/sys/bus/pci/devices/'') (pci_devices_dir p)) =
     Inr [ucast (pci_chassis p), ucast (pci_hostbridge p), ucast (pci_slot p), ucast (pci_func p)]"
proof -
  let ?c = "pad0 4 (hex (unat (pci_chassis p)))" and ?b = "pad0 2 (hex (unat (pci_hostbridge p)))"
    and ?s = "pad0 2 (hex (unat (pci_slot p)))" and ?f = "pad0 0 (hex (unat (pci_func p)))"
  have f: "hex (unat (pci_func p)) = ?f" by (simp add: pad0_def split: list.splits)
  note v = strtol16_pad0_hex(1) [OF unat_small(1)] strtol16_pad0_hex(1) [OF unat_small(2)]
  note n = plain_no_sep [OF strtol16_pad0_hex(2) [OF unat_small(1)]] plain_no_sep [OF strtol16_pad0_hex(2) [OF unat_small(2)]]
  have d: "drop (length ''/sys/bus/pci/devices/'') (pci_devices_dir p) = ?c @ CHR '':'' # ?b @ CHR '':'' # ?s @ CHR ''.'' # ?f"
    unfolding pci_devices_dir_def f [symmetric] by simp
  have "strsep_all [CHR '':'', CHR ''.''] (?c @ CHR '':'' # ?b @ CHR '':'' # ?s @ CHR ''.'' # ?f) = [?c, ?b, ?s, ?f]"
    by (subst strsep_all_token [OF n(1)], simp)+ (subst strsep_all_last [OF n(2)], rule refl)
  then show ?thesis
    unfolding d pci_numbers_def Let_def by (simp add: v word_of_int_unat)
qed

subsection \<open>Devices behind bridges\<close>

text \<open>Bridges none of which is itself behind another of the list, with different secondary buses.\<close>

definition flat_bridges :: "topo_pci list \<Rightarrow> bool" where
  "flat_bridges bs \<longleftrightarrow> distinct (map pci_subbus bs) \<and>
     list_all (\<lambda>b. pci_subdomain b = 0 \<and> pci_hostbridge b \<notin> pci_subbus ` set bs) bs"

definition behind :: "topo_pci \<Rightarrow> topo_pci \<Rightarrow> bool" where
  "behind b s \<longleftrightarrow> pci_chassis s = 0 \<and> pci_hostbridge s = pci_subbus b"

lemma sub_move_stays: "pci_subdomain b = 0 \<Longrightarrow> \<not> behind b s \<Longrightarrow> sub_move b s = s"
  by (auto simp: sub_move_def behind_def)

lemma fold_sub_stays:
  "\<forall>b\<in>set bs. pci_subdomain b = 0 \<and> \<not> behind b s \<Longrightarrow> fold sub_move bs s = s"
  by (induction bs) (auto simp: sub_move_stays)

lemma fold_map_swap: "fold (\<lambda>b. map (f b)) bs xs = map (\<lambda>x. fold f bs x) xs"
  by (induction bs arbitrary: xs) simp_all

lemma fold_sub_moves:
  assumes "flat_bridges bs" "b \<in> set bs" "behind b s"
  shows "fold sub_move bs s = sub_move b s"
proof -
  obtain xs ys where bs: "bs = xs @ b # ys" using assms(2) by (meson split_list)
  have flat: "\<forall>c\<in>set bs. pci_subdomain c = 0 \<and> pci_hostbridge c \<notin> pci_subbus ` set bs"
    using assms(1) by (auto simp: flat_bridges_def list_all_iff)
  have "\<not> behind c s" if "c \<in> set xs" for c
    using that assms(1,3) by (auto simp: bs flat_bridges_def behind_def)
  then have 1: "fold sub_move xs s = s" using flat by (intro fold_sub_stays) (auto simp: bs)
  have "pci_hostbridge (sub_move b s) = pci_hostbridge b"
    using assms(3) flat assms(2) by (simp add: sub_move_def behind_def)
  then have "\<not> behind c (sub_move b s)" if "c \<in> set ys" for c
    using that flat assms(2) by (auto simp: bs behind_def)
  then have "fold sub_move ys (sub_move b s) = sub_move b s"
    using flat by (intro fold_sub_stays) (auto simp: bs)
  with 1 show ?thesis by (simp add: bs)
qed

text \<open>
  On a machine whose bridges are not behind each other, \<^verbatim>\<open>fmd_topo_walk_subpci\<close> puts each device of
  domain 0 that is on a bridge's secondary bus below that bridge: it takes the bridge's chassis, bus,
  slot and function, and keeps its own slot and function, cut to three and two bits, as sub-slot and
  sub-function. All other devices, and the order of the list, stay as they are.
\<close>

theorem subpci_moves_behind_bridge:
  assumes "flat_bridges (list_pci_bridge tp)"
  shows "list_pci (fmd_topo_walk_subpci tp) =
    map (\<lambda>s. case find (\<lambda>b. behind b s) (list_pci_bridge tp) of
        None \<Rightarrow> s
      | Some b \<Rightarrow> s\<lparr>pci_chassis := pci_chassis b, pci_hostbridge := pci_hostbridge b,
             pci_subslot := ucast (pci_slot s), pci_subfunc := ucast (pci_func s),
             pci_slot := pci_slot b, pci_func := pci_func b, pci_subdomain := 0, pci_subbus := pci_subbus b\<rparr>)
      (list_pci tp)"
proof -
  have "fold sub_move (list_pci_bridge tp) s = (case find (\<lambda>b. behind b s) (list_pci_bridge tp) of
        None \<Rightarrow> s
      | Some b \<Rightarrow> s\<lparr>pci_chassis := pci_chassis b, pci_hostbridge := pci_hostbridge b,
             pci_subslot := ucast (pci_slot s), pci_subfunc := ucast (pci_func s),
             pci_slot := pci_slot b, pci_func := pci_func b, pci_subdomain := 0, pci_subbus := pci_subbus b\<rparr>)" for s
  proof (cases "find (\<lambda>b. behind b s) (list_pci_bridge tp)")
    case None
    then have "\<forall>b\<in>set (list_pci_bridge tp). pci_subdomain b = 0 \<and> \<not> behind b s"
      using assms by (auto simp: find_None_iff flat_bridges_def list_all_iff)
    with None show ?thesis by (simp add: fold_sub_stays)
  next
    case (Some b)
    then have b: "b \<in> set (list_pci_bridge tp)" "behind b s" by (auto simp: find_Some_iff)
    then have "pci_subdomain b = 0" using assms by (auto simp: flat_bridges_def list_all_iff)
    with Some b show ?thesis
      by (simp add: fold_sub_moves [OF assms b]) (simp add: sub_move_def behind_def)
  qed
  then show ?thesis by (simp add: fmd_topo_walk_subpci_def fold_map_swap)
qed

definition demo_bridge :: topo_pci where
  "demo_bridge = pci_zero\<lparr>pci_slot := 28, pci_subbus := 3, dev_icon := Some ''pci''\<rparr>"

theorem subpci_moves_behind_bridge_witness:
  "list_pci (fmd_topo_walk_subpci (demo_topo\<lparr>list_pci := [pci_zero\<lparr>pci_hostbridge := 3, pci_slot := 2\<rparr>],
     list_pci_bridge := [demo_bridge]\<rparr>)) =
   [pci_zero\<lparr>pci_slot := 28, pci_subbus := 3, pci_subslot := 2\<rparr>]"
proof -
  have "flat_bridges [demo_bridge]" by (simp add: flat_bridges_def demo_bridge_def pci_zero_def)
  then show ?thesis
    using subpci_moves_behind_bridge [of "demo_topo\<lparr>list_pci := [pci_zero\<lparr>pci_hostbridge := 3, pci_slot := 2\<rparr>],
      list_pci_bridge := [demo_bridge]\<rparr>"]
    by (simp add: behind_def demo_bridge_def pci_zero_def)
qed

end
