(* ===== verification/Fms_Topo_Mem.thy ===== *)
theory Fms_Topo_Mem
  imports Fms_Topo_Scan
begin

text \<open>
  The memory side of the topology, \<^verbatim>\<open>lib/libtopo/dmi.c\<close>, and the entry point \<^verbatim>\<open>_fmd_topo\<close> of
  \<^verbatim>\<open>lib/libtopo/fmd_topo.c\<close>: finding the SMBIOS anchor in physical memory, walking the table,
  distributing the modules over chassis and sockets.

  Physical memory is a list of bytes (\<open>None\<close> when \<^verbatim>\<open>/dev/mem\<close> cannot be opened); mapping bytes behind
  its end fails. The table is copied into a buffer of its own length, and reading behind that buffer
  is an error of the model.
\<close>

section \<open>Tables\<close>

record dmi_processor =
  pr_handle :: "64 word"
  pr_id :: "64 word"

record dmi_mem_array =
  ma_handle :: "64 word"
  ma_devices :: "64 word"

record dmi_mem_device =
  md_handle :: "64 word"
  md_array_handle :: "64 word"
  md_size :: "64 word"

record dmi_map_addr =
  mp_handle :: "64 word"
  mp_owner :: "64 word"
  mp_array_addr :: "64 word"
  mp_start :: "64 word"
  mp_end :: "64 word"

record dmi_data =
  processor_list :: "dmi_processor list"
  array_list :: "dmi_mem_array list"
  device_list :: "dmi_mem_device list"
  array_addr_list :: "dmi_map_addr list"
  device_addr_list :: "dmi_map_addr list"

definition dmi_empty :: dmi_data where
  "dmi_empty = \<lparr>processor_list = [], array_list = [], device_list = [], array_addr_list = [], device_addr_list = []\<rparr>"

definition byte_at :: "8 word list \<Rightarrow> nat \<Rightarrow> 8 word res" where
  "byte_at buf i = (if i < length buf then Inr (buf ! i) else Inl Oob_access)"

definition word16 :: "8 word list \<Rightarrow> nat \<Rightarrow> 64 word res" where
  "word16 buf i =
     rbind (byte_at buf i) (\<lambda>lo. rbind (byte_at buf (i + 1)) (\<lambda>hi. Inr (push_bit 8 (ucast hi) OR ucast lo)))"

text \<open>
  Four bytes put together in \<^verbatim>\<open>int\<close> arithmetic and stored in 64 bits: a set top bit is extended.
\<close>

definition int32_at :: "8 word list \<Rightarrow> nat \<Rightarrow> 64 word res" where
  "int32_at buf i =
     rbind (byte_at buf i) (\<lambda>a. rbind (byte_at buf (i + 1)) (\<lambda>b.
     rbind (byte_at buf (i + 2)) (\<lambda>c. rbind (byte_at buf (i + 3)) (\<lambda>d.
       Inr (scast ((ucast a OR push_bit 8 (ucast b)) OR push_bit 16 (ucast c OR push_bit 8 (ucast d)) :: 32 word))))))"

text \<open>Ranges smaller than 512 are taken to be in megabytes.\<close>

definition scale_range :: "64 word \<Rightarrow> 64 word \<Rightarrow> 64 word \<times> 64 word" where
  "scale_range s e = (if e - s < 512 then (s * 1024, e * 1024) else (s, e))"

definition device_size :: "64 word \<Rightarrow> 64 word" where
  "device_size u = (if u = 0xffff then 0
     else 1024 * (u AND 0x7fff) * (if u AND 0x8000 \<noteq> 0 then 1 else 1024))"

definition map_entry :: "8 word list \<Rightarrow> nat \<Rightarrow> 64 word \<Rightarrow> dmi_map_addr res" where
  "map_entry buf p array_addr =
     rbind (byte_at buf (p + 2)) (\<lambda>h.
     rbind (word16 buf (p + 12)) (\<lambda>owner.
     rbind (int32_at buf (p + 4)) (\<lambda>s.
     rbind (int32_at buf (p + 8)) (\<lambda>e.
       let (s, e) = scale_range s e
       in Inr \<lparr>mp_handle = ucast h, mp_owner = owner, mp_array_addr = array_addr, mp_start = s, mp_end = e\<rparr>))))"

text \<open>One structure of the table, at offset \<open>p\<close>.\<close>

definition dmi_structure :: "8 word list \<Rightarrow> nat \<Rightarrow> 8 word \<Rightarrow> dmi_data \<Rightarrow> dmi_data res" where
  "dmi_structure buf p type d =
     (if type = 4 then
        rbind (byte_at buf (p + 2)) (\<lambda>h. rbind (byte_at buf (p + 8)) (\<lambda>i.
          Inr (d\<lparr>processor_list := \<lparr>pr_handle = ucast h, pr_id = ucast i\<rparr> # processor_list d\<rparr>)))
      else if type = 16 then
        rbind (byte_at buf (p + 5)) (\<lambda>use.
          if use = 3 then
            rbind (byte_at buf (p + 2)) (\<lambda>h. rbind (byte_at buf (p + 13)) (\<lambda>n.
              Inr (d\<lparr>array_list := \<lparr>ma_handle = ucast h, ma_devices = ucast n\<rparr> # array_list d\<rparr>)))
          else Inr d)
      else if type = 17 then
        rbind (byte_at buf (p + 2)) (\<lambda>h. rbind (word16 buf (p + 4)) (\<lambda>a. rbind (word16 buf (p + 12)) (\<lambda>u.
          Inr (d\<lparr>device_list := \<lparr>md_handle = ucast h, md_array_handle = a, md_size = device_size u\<rparr> # device_list d\<rparr>))))
      else if type = 19 then
        rbind (map_entry buf p 0) (\<lambda>m. Inr (d\<lparr>array_addr_list := m # array_addr_list d\<rparr>))
      else if type = 20 then
        rbind (byte_at buf (p + 14)) (\<lambda>aa. rbind (map_entry buf p (ucast aa)) (\<lambda>m.
          Inr (d\<lparr>device_addr_list := m # device_addr_list d\<rparr>)))
      else Inr d)"

text \<open>The strings behind a structure end with two zero bytes.\<close>

function skip_strings :: "8 word list \<Rightarrow> nat \<Rightarrow> nat res" where
  "skip_strings buf p =
     (if p \<ge> length buf then Inl Oob_access
      else if buf ! p \<noteq> 0 then skip_strings buf (p + 1)
      else if p + 1 \<ge> length buf then Inl Oob_access
      else if buf ! (p + 1) \<noteq> 0 then skip_strings buf (p + 1)
      else Inr p)"
  by pat_completeness auto
termination by (relation "measure (\<lambda>(buf, p). length buf - p)") auto

declare skip_strings.simps [simp del]

lemma skip_strings_ge: "skip_strings buf p = Inr q \<Longrightarrow> p \<le> q"
proof (induction buf p arbitrary: q rule: skip_strings.induct)
  case (1 buf p)
  show ?case
  proof (cases "length buf \<le> p \<or> (buf ! p = 0 \<and> (length buf \<le> p + 1 \<or> buf ! (p + 1) = 0))")
    case True
    with 1(3) show ?thesis by (subst (asm) skip_strings.simps) (auto split: if_splits)
  next
    case False
    with 1(3) have "skip_strings buf (p + 1) = Inr q"
      by (subst (asm) skip_strings.simps) (auto split: if_splits)
    with False 1(1,2) have "p + 1 \<le> q" by (metis linorder_not_le)
    then show ?thesis by simp
  qed
qed

function table_loop :: "8 word list \<Rightarrow> nat \<Rightarrow> dmi_data \<Rightarrow> dmi_data res" where
  "table_loop buf p d =
     (if length buf < p + 4 then Inr d
      else if length buf < p + unat (buf ! (p + 1)) then Inr d
      else rbind (dmi_structure buf p (buf ! p) d) (\<lambda>d.
             rbind (skip_strings buf (p + unat (buf ! (p + 1)))) (\<lambda>q. table_loop buf (q + 2) d)))"
  by pat_completeness auto
termination
  by (relation "measure (\<lambda>(buf, p, d). length buf - p)") (auto dest!: skip_strings_ge)

declare table_loop.simps [simp del]

definition map_phys :: "8 word list \<Rightarrow> nat \<Rightarrow> nat \<Rightarrow> 8 word list option" where
  "map_phys phys base len = (if base + len \<le> length phys then Some (take len (drop base phys)) else None)"

definition dmi_table :: "8 word list \<Rightarrow> nat \<Rightarrow> nat \<Rightarrow> dmi_data option res" where
  "dmi_table phys base len =
     (if len = 0 then Inr None
      else case map_phys phys base len of
        None \<Rightarrow> Inr None
      | Some buf \<Rightarrow> rbind (table_loop buf 0 dmi_empty) (\<lambda>d. Inr (Some d)))"

section \<open>Modules per socket\<close>

definition max_chassis :: "topo_cpu list \<Rightarrow> nat" where
  "max_chassis cpus = fold (\<lambda>c m. if m < unat (cpu_chassis c) then unat (cpu_chassis c) else m) cpus 0"

text \<open>
  The sockets of a chassis are collected in an array of 16 words, initialised by \<open>{-1}\<close>: the first
  word is \<open>0xffffffff\<close>, all others are 0. The search for a known socket looks at one word more than
  are filled.
\<close>

definition socket_init :: "32 word list" where
  "socket_init = - 1 # replicate 15 0"

definition note_socket :: "32 word \<Rightarrow> 32 word list \<times> nat \<Rightarrow> (32 word list \<times> nat) res" where
  "note_socket s st =
     (let (arr, n) = st
      in if s \<in> set (take (n + 1) arr) then Inr st
         else if length arr \<le> n then Inl Oob_access
         else Inr (arr[n := s], n + 1))"

fun note_sockets :: "32 word list \<Rightarrow> 32 word list \<times> nat \<Rightarrow> (32 word list \<times> nat) res" where
  "note_sockets [] st = Inr st"
| "note_sockets (s # ss) st = rbind (note_socket s st) (note_sockets ss)"

definition chassis_sockets :: "topo_cpu list \<Rightarrow> nat \<Rightarrow> 32 word list" where
  "chassis_sockets cpus i = map (\<lambda>c. ucast (cpu_socket c)) (filter (\<lambda>c. unat (cpu_chassis c) = i) cpus)"

text \<open>The loops over the lists have no \<^verbatim>\<open>break\<close>: the last matching entry counts.\<close>

definition array_devices :: "dmi_data \<Rightarrow> 64 word \<Rightarrow> nat" where
  "array_devices d h = fold (\<lambda>a n. if ma_handle a = h then unat (ma_devices a) else n) (array_list d) 0"

definition device_range :: "dmi_data \<Rightarrow> 64 word \<Rightarrow> 64 word \<times> 64 word" where
  "device_range d h =
     fold (\<lambda>m r. if mp_owner m = h then (mp_start m, mp_end m) else r) (device_addr_list d) (0, 0)"

text \<open>\<open>device_handle\<close> is sorted; \<open>num\<close> runs over it across all sockets.\<close>

fun socket_dimms :: "dmi_data \<Rightarrow> 64 word list \<Rightarrow> nat \<Rightarrow> 32 word \<Rightarrow> nat \<Rightarrow> nat \<Rightarrow> nat \<times> topo_mem list \<Rightarrow> (nat \<times> topo_mem list) res" where
  "socket_dimms d devs i socket k 0 st = Inr st"
| "socket_dimms d devs i socket k (Suc n) (num, mems) =
     (if length devs \<le> num then Inl Oob_access
      else let (s, e) = device_range d (devs ! num);
               pmem = \<lparr>mem_start = s, mem_end = e, mem_system = 0, mem_chassis = of_nat i, mem_board = 0,
                 mem_socket = ucast socket, mem_controller = 0, mem_dimm = of_nat k, mem_topoclass = TOPO_MEMORY\<rparr>
        in socket_dimms d devs i socket (k + 1) n (num + 1, pmem # mems))"

fun chassis_dimms :: "dmi_data \<Rightarrow> 64 word list \<Rightarrow> 64 word list \<Rightarrow> nat \<Rightarrow> nat \<Rightarrow> nat \<Rightarrow> 32 word list \<Rightarrow> nat \<times> topo_mem list \<Rightarrow> (nat \<times> topo_mem list) res" where
  "chassis_dimms d devs arrs nsock nchassis i [] st = Inr st"
| "chassis_dimms d devs arrs nsock nchassis i (s # ss) st =
     (let arr_index = (if length arrs = nsock * nchassis then unat s else i)
      in if length arrs \<le> arr_index then Inl Oob_access
         else rbind (socket_dimms d devs i s 0 (array_devices d (arrs ! arr_index)) st)
                (chassis_dimms d devs arrs nsock nchassis i ss))"

fun walk_chassis :: "dmi_data \<Rightarrow> topo_cpu list \<Rightarrow> 64 word list \<Rightarrow> 64 word list \<Rightarrow> nat \<Rightarrow> nat list \<Rightarrow> nat \<times> topo_mem list \<Rightarrow> (nat \<times> topo_mem list) res" where
  "walk_chassis d cpus devs arrs nchassis [] st = Inr st"
| "walk_chassis d cpus devs arrs nchassis (i # is) st =
     rbind (note_sockets (chassis_sockets cpus i) (socket_init, 0)) (\<lambda>(arr, n).
     rbind (chassis_dimms d devs arrs n nchassis i (take n arr) st)
       (walk_chassis d cpus devs arrs nchassis is))"

text \<open>
  \<^verbatim>\<open>qsort\<close> with a comparison that is the difference of two handles; handles are single bytes, so that
  it is the order of the numbers.
\<close>

definition sorted_handles :: "64 word list \<Rightarrow> 64 word list" where
  "sorted_handles hs = sort hs"

definition fmd_topo_walk_mem :: "dmi_data \<Rightarrow> fmd_topo \<Rightarrow> fmd_topo res" where
  "fmd_topo_walk_mem d tp =
     (let n = max_chassis (list_cpu tp) + 1;
          devs = sorted_handles (map md_handle (device_list d));
          arrs = sorted_handles (map ma_handle (array_list d))
      in rbind (walk_chassis d (list_cpu tp) devs arrs n [0..<n] (0, list_mem tp)) (\<lambda>(num, mems).
           Inr (tp\<lparr>list_mem := mems\<rparr>)))"

section \<open>Finding the table\<close>

fun systab_loop :: "string list \<Rightarrow> int" where
  "systab_loop [] = 0"
| "systab_loop (l # ls) =
     (if char_at l 0 = CHR 0x0A \<or> char_at l 0 = CHR 0x00 then systab_loop ls
      else if strncmp_eq l ''SMBIOS'' 6 then strtol16 (drop 7 l) else systab_loop ls)"

definition get_efi_systab_smbios :: "topo_fs \<Rightarrow> int" where
  "get_efi_systab_smbios fs =
     (case fs_file fs ''/sys/firmware/efi/systab'' of None \<Rightarrow> 0 | Some t \<Rightarrow> systab_loop (fgets_lines 100 t))"

definition anchor_bytes :: "8 word list" where
  "anchor_bytes = [0x5F, 0x44, 0x4D, 0x49, 0x5F]"

definition anchor_len :: "8 word list \<Rightarrow> nat" where
  "anchor_len buf = unat (buf ! 7) * 0x100 + unat (buf ! 6)"

definition anchor_base :: "8 word list \<Rightarrow> nat" where
  "anchor_base buf =
     unat (buf ! 11) * 0x1000000 + unat (buf ! 10) * 0x10000 + unat (buf ! 9) * 0x100 + unat (buf ! 8)"

text \<open>The search goes on in steps of 16 until the anchor is found, the end is reached or mapping fails.\<close>

function dmi_scan :: "8 word list \<Rightarrow> bool \<Rightarrow> nat \<Rightarrow> fmd_topo \<Rightarrow> (int \<times> fmd_topo) res" where
  "dmi_scan phys efi fp tp =
     (if \<not> (efi \<or> fp < 0xFFFFF + 16) then Inr (FMD_SUCCESS, tp)
      else case map_phys phys fp 0x20 of
        None \<Rightarrow> Inr (-1, tp)
      | Some buf \<Rightarrow>
          if take 5 buf = anchor_bytes then
            rbind (dmi_table phys (anchor_base buf) (anchor_len buf)) (\<lambda>pdmi.
              case pdmi of
                None \<Rightarrow> Inr (-1, tp)
              | Some d \<Rightarrow> rbind (fmd_topo_walk_mem d tp) (\<lambda>tp. Inr (FMD_SUCCESS, tp)))
          else dmi_scan phys efi (fp + 16) tp)"
  by pat_completeness auto
termination
  by (relation "measure (\<lambda>(phys, efi, fp, tp). length phys - fp)") (auto simp: map_phys_def split: if_splits)

declare dmi_scan.simps [simp del]

definition fmd_topo_dmi :: "topo_fs \<Rightarrow> 8 word list option \<Rightarrow> fmd_topo \<Rightarrow> (int \<times> fmd_topo) res" where
  "fmd_topo_dmi fs mem tp =
     (case mem of
        None \<Rightarrow> Inr (-1, tp)
      | Some phys \<Rightarrow>
          let fp = get_efi_systab_smbios fs
          in if fp \<le> 0 then dmi_scan phys False 0xE0000 tp else dmi_scan phys True (nat fp) tp)"

section \<open>The entry point\<close>

definition topo_init :: fmd_topo where
  "topo_init = \<lparr>list_cpu = [], list_mem = [], list_pci = [], list_pci_host = [], list_pci_bridge = [],
     list_storage = [], tp_root = None\<rparr>"

definition fmd_topo_main :: "topo_fs \<Rightarrow> 8 word list option \<Rightarrow> (int \<times> fmd_topo) res" where
  "fmd_topo_main fs mem =
     rbind (fmd_topo_cpu fs ''/sys/devices/system/node'' ''node'' topo_init) (\<lambda>(ret, tp).
     rbind (if ret < 0 then fmd_topo_walk_cpu fs ''/sys/devices/system/cpu'' 0 tp else Inr tp) (\<lambda>tp.
     let tp = tp\<lparr>list_cpu := set_thread_ids (list_cpu tp)\<rparr>
     in rbind (fmd_topo_dmi fs mem tp) (\<lambda>(ret, tp).
          if ret < 0 then Inr (ret, tp)
          else rbind (fmd_topo_pci fs ''/sys/bus/pci/devices'' tp) (\<lambda>(ret, tp).
                 if ret < 0 then Inr (ret, tp) else Inr (FMD_SUCCESS, tp)))))"

text \<open>\<^verbatim>\<open>_update_topo\<close> clears the topology and reads it again.\<close>

definition update_topo :: "topo_fs \<Rightarrow> 8 word list option \<Rightarrow> fmd_topo \<Rightarrow> (int \<times> fmd_topo) res" where
  "update_topo fs mem old = fmd_topo_main fs mem"

section \<open>Printing the lists\<close>

definition print_cpu_topo :: "fmd_topo \<Rightarrow> string list" where
  "print_cpu_topo tp = ''            CPU   '' # ''node  socket  core  thread'' #
     map (\<lambda>c. pad_left 3 (dec (uint (cpu_chassis c))) @ pad_left 7 (dec (uint (cpu_socket c))) @
       pad_left 7 (dec (uint (cpu_core c))) @ pad_left 7 (dec (processor c))) (list_cpu tp)"

definition print_mem_topo :: "fmd_topo \<Rightarrow> string list" where
  "print_mem_topo tp = ''           MEMORY '' # ''node  socket     dimm     size'' #
     map (\<lambda>m. ''  '' @ pad_right 7 (dec (uint (mem_chassis m))) @ pad_right 9 (dec (uint (mem_socket m))) @
       pad_right 7 (dec (uint (mem_dimm m))) @ dec (sint (mem_end m - mem_start m)) @ '' kB'') (list_mem tp)"

definition print_disk_topo :: "fmd_topo \<Rightarrow> string list" where
  "print_disk_topo tp = ''                    DISK'' #
     map (\<lambda>s. pad0 4 (hex (unat (storage_chassis s))) @ '':'' @ pad0 2 (hex (unat (storage_hostbridge s))) @ '':'' @
       pad0 2 (hex (unat (storage_slot s))) @ ''.'' @ hex (unat (storage_func s)) @ ''-'' @
       pad0 4 (hex (unat (storage_host s))) @ '':'' @ pad0 2 (hex (unat (storage_channel s))) @ '':'' @
       pad0 2 (hex (unat (storage_target s))) @ ''.'' @ hex (unat (storage_lun s)) @
       (case storage_name s of Some n \<Rightarrow> ''  name:'' @ n | None \<Rightarrow> '''')) (list_storage tp)"

section \<open>Which sockets are found\<close>

text \<open>The values of a list in the order of their first occurrence.\<close>

definition firsts :: "'a list \<Rightarrow> 'a list" where
  "firsts xs = rev (remdups (rev xs))"

lemma firsts_Nil [simp]: "firsts [] = []" by (simp add: firsts_def)

lemma firsts_snoc [simp]: "firsts (xs @ [x]) = (if x \<in> set xs then firsts xs else firsts xs @ [x])"
  by (simp add: firsts_def)

lemma set_firsts [simp]: "set (firsts xs) = set xs" by (simp add: firsts_def)

definition sockets_found :: "32 word list \<Rightarrow> 32 word list" where
  "sockets_found ss = (if ss \<noteq> [] \<and> hd ss \<noteq> 0 then filter (\<lambda>s. s \<noteq> 0) (firsts ss) else firsts ss)"

lemma note_sockets_snoc:
  "note_sockets (ss @ [s]) st = rbind (note_sockets ss st) (note_socket s)"
  by (induction ss arbitrary: st) (auto simp: rbind_def split: sum.splits)

lemma length_firsts: "length (firsts xs) = card (set xs)"
  by (simp add: firsts_def length_remdups_card_conv)

definition found_array :: "32 word list \<Rightarrow> 32 word list" where
  "found_array fs = fs @ drop (length fs) socket_init"

lemma found_array_step:
  assumes "length fs < 16"
  shows "(found_array fs)[length fs := s] = found_array (fs @ [s])" "length (found_array fs) = 16"
    "take (length fs + 1) (found_array fs) = fs @ [if fs = [] then - 1 else 0]"
proof -
  have l: "length socket_init = 16" by (simp add: socket_init_def)
  have i: "socket_init ! n = (if n = 0 then - 1 else 0)" if "n < 16" for n
    using that by (cases n) (simp_all add: socket_init_def)
  have d: "drop (length fs) socket_init = (if fs = [] then - 1 else 0) # drop (Suc (length fs)) socket_init"
    using Cons_nth_drop_Suc [of "length fs" socket_init] assms l i [of "length fs"] by auto
  show "(found_array fs)[length fs := s] = found_array (fs @ [s])"
    unfolding found_array_def by (subst d) (simp add: list_update_append)
  show "length (found_array fs) = 16" using assms l by (simp add: found_array_def)
  show "take (length fs + 1) (found_array fs) = fs @ [if fs = [] then - 1 else 0]"
    unfolding found_array_def by (subst d) simp
qed

lemma sockets_found_snoc:
  "sockets_found (ss @ [s]) =
     (if s \<in> set ss \<or> (ss \<noteq> [] \<and> s = 0) then sockets_found ss else sockets_found ss @ [s])"
proof (cases "ss = []")
  case True
  then show ?thesis by (simp add: sockets_found_def firsts_def)
next
  case False
  then have "hd ss = 0 \<Longrightarrow> 0 \<in> set ss" using hd_in_set [of ss] by simp
  with False show ?thesis by (auto simp: sockets_found_def hd_append)
qed

lemma sockets_found_le: "length (sockets_found ss) \<le> card (set ss)"
  using length_filter_le [of "\<lambda>s. s \<noteq> 0" "firsts ss"] by (simp add: sockets_found_def length_firsts)

lemma sockets_found_set: "set (sockets_found ss) \<subseteq> set ss" "x \<in> set ss \<Longrightarrow> x \<noteq> 0 \<Longrightarrow> x \<in> set (sockets_found ss)"
  by (auto simp: sockets_found_def)

lemma sockets_found_Nil: "sockets_found ss = [] \<longleftrightarrow> ss = []"
proof
  assume "sockets_found ss = []"
  then show "ss = []"
    by (cases ss) (auto simp: sockets_found_def filter_empty_conv dest: arg_cong [where f = set] split: if_splits)
qed (simp add: sockets_found_def)

lemma sockets_found_distinct: "distinct (sockets_found ss)"
  by (simp add: sockets_found_def firsts_def)

lemma note_sockets_found:
  assumes "card (set ss) \<le> 16" "- 1 \<notin> set ss"
  shows "note_sockets ss (socket_init, 0) = Inr (found_array (sockets_found ss), length (sockets_found ss))"
  using assms
proof (induction ss rule: rev_induct)
  case Nil
  then show ?case by (simp add: found_array_def sockets_found_def)
next
  case (snoc s ss)
  let ?f = "sockets_found ss"
  have c: "card (set ss) \<le> 16" using snoc.prems(1) card_mono [of "set (ss @ [s])" "set ss"] by fastforce
  have IH: "note_sockets ss (socket_init, 0) = Inr (found_array ?f, length ?f)"
    using snoc.IH c snoc.prems(2) by simp
  show ?case
  proof (cases "s \<in> set ?f")
    case True
    then have "s \<in> set ss" using sockets_found_set(1) by blast
    moreover have "s \<in> set (take (length ?f + 1) (found_array ?f))" using True by (simp add: found_array_def)
    ultimately show ?thesis by (simp add: note_sockets_snoc IH note_socket_def sockets_found_snoc)
  next
    case False
    have "card (insert s (set ?f)) \<le> card (set (ss @ [s]))"
      using sockets_found_set(1) by (intro card_mono) auto
    with False have l: "length ?f < 16"
      using snoc.prems(1) distinct_card [OF sockets_found_distinct [of ss]] by simp
    note t = found_array_step [OF l]
    have m: "s \<in> set (take (length ?f + 1) (found_array ?f)) \<longleftrightarrow> ss \<noteq> [] \<and> s = 0"
      unfolding t(3) using False snoc.prems(2) by (auto simp: sockets_found_Nil)
    have "s \<in> set ss \<Longrightarrow> s = 0" using False sockets_found_set(2) by blast
    then have "sockets_found (ss @ [s]) = (if ss \<noteq> [] \<and> s = 0 then ?f else ?f @ [s])"
      by (auto simp: sockets_found_snoc)
    with m t(2) l show ?thesis
      by (simp add: note_sockets_snoc IH note_socket_def t(1))
  qed
qed

text \<open>
  With at most 16 different sockets per chassis the search for the sockets of a chassis completes
  inside its array, and finds the sockets in the order of the cpu list, each once, with one exception:
  socket 0 is left out unless the first cpu of the chassis in the list is in socket 0.
\<close>

theorem chassis_sockets_found:
  assumes "card (set (chassis_sockets cpus i)) \<le> 16"
  shows "\<exists>arr. note_sockets (chassis_sockets cpus i) (socket_init, 0) =
           Inr (arr, length (sockets_found (chassis_sockets cpus i))) \<and>
         take (length (sockets_found (chassis_sockets cpus i))) arr = sockets_found (chassis_sockets cpus i)"
proof -
  have "(- 1 :: 32 word) \<noteq> ucast (s :: 8 word)" for s
  proof
    assume "(- 1 :: 32 word) = ucast s"
    then have "bit (- 1 :: 32 word) 31 = bit (ucast s :: 32 word) 31" by simp
    then show False using bit_imp_le_length [of s 31] by (auto simp: bit_ucast_iff)
  qed
  then have "- 1 \<notin> set (chassis_sockets cpus i)" by (auto simp: chassis_sockets_def)
  from note_sockets_found [OF assms this] show ?thesis
    by (intro exI [of _ "found_array (sockets_found (chassis_sockets cpus i))"]) (simp add: found_array_def)
qed

theorem chassis_sockets_found_witness:
  "chassis_sockets [(demo_cpu 1 0)\<lparr>cpu_socket := 1\<rparr>, demo_cpu 0 0] 0 = [1, 0] \<and>
   sockets_found [1, 0] = [1] \<and>
   (\<exists>arr. note_sockets [1, 0] (socket_init, 0) = Inr (arr, 1) \<and> take 1 arr = [1])"
proof -
  have e: "chassis_sockets [(demo_cpu 1 0)\<lparr>cpu_socket := 1\<rparr>, demo_cpu 0 0] 0 = [1, 0]"
    by (simp add: chassis_sockets_def demo_cpu_def)
  have f: "sockets_found [1, 0] = [1]" by (simp add: sockets_found_def firsts_def)
  show ?thesis
    using chassis_sockets_found [of "[(demo_cpu 1 0)\<lparr>cpu_socket := 1\<rparr>, demo_cpu 0 0]" 0] by (simp add: e f)
qed

section \<open>From the scan to the tree\<close>

lemma note_socket_sub:
  assumes "note_socket s (arr, n) = Inr (arr', n')" "set (take n arr) \<subseteq> S" "s \<in> S"
  shows "set (take n' arr') \<subseteq> S"
proof (cases "s \<in> set (take (n + 1) arr)")
  case False
  with assms(1) have "n < length arr" "arr' = arr[n := s]" "n' = n + 1"
    by (auto simp: note_socket_def split: if_splits)
  then have "take n' arr' = take n arr @ [s]" by (simp add: take_Suc_conv_app_nth)
  with assms(2,3) show ?thesis by simp
qed (use assms in \<open>simp add: note_socket_def\<close>)

lemma note_sockets_sub:
  "note_sockets ss (arr, n) = Inr (arr', n') \<Longrightarrow> set (take n arr) \<subseteq> S \<Longrightarrow> set ss \<subseteq> S \<Longrightarrow> set (take n' arr') \<subseteq> S"
proof (induction ss arbitrary: arr n)
  case (Cons s ss)
  then obtain arr1 n1 where "note_socket s (arr, n) = Inr (arr1, n1)" "note_sockets ss (arr1, n1) = Inr (arr', n')"
    by (cases "note_socket s (arr, n)") auto
  with Cons note_socket_sub [of s arr n arr1 n1 S] show ?case by simp
qed simp

lemma socket_dimms_placed:
  assumes "socket_dimms d devs i s k n (num, mems) = Inr (num', mems')" "list_all (mem_placed cpus) mems"
    and "s \<in> set (chassis_sockets cpus i)"
  shows "list_all (mem_placed cpus) mems'"
  using assms(1,2)
proof (induction n arbitrary: k num mems)
  case (Suc n)
  obtain c where c: "c \<in> set cpus" "unat (cpu_chassis c) = i" "s = ucast (cpu_socket c)"
    using assms(3) by (auto simp: chassis_sockets_def)
  have "of_nat i = cpu_chassis c" using c(2) by auto
  moreover have "(ucast s :: 8 word) = cpu_socket c"
    unfolding c(3) by (rule bit_word_eqI) (simp add: bit_ucast_iff)
  ultimately have placed: "mem_placed cpus m" if "mem_chassis m = of_nat i" "mem_socket m = ucast s" for m
    using that c(1) unfolding mem_placed_def by (intro bexI [of _ c]) simp_all
  from Suc.prems show ?case
    by (auto simp: Let_def placed split: if_splits prod.splits dest!: Suc.IH)
qed simp

lemma chassis_dimms_placed:
  "chassis_dimms d devs arrs ns nc i ss (num, mems) = Inr (num', mems') \<Longrightarrow> list_all (mem_placed cpus) mems \<Longrightarrow>
   set ss \<subseteq> set (chassis_sockets cpus i) \<Longrightarrow> list_all (mem_placed cpus) mems'"
proof (induction ss arbitrary: num mems)
  case (Cons s ss)
  from Cons.prems(1) obtain num1 mems1 h where
    "socket_dimms d devs i s 0 h (num, mems) = Inr (num1, mems1)"
    "chassis_dimms d devs arrs ns nc i ss (num1, mems1) = Inr (num', mems')"
    by (auto simp: Let_def split: if_splits)
  with Cons socket_dimms_placed [of d devs i s 0 h num mems num1 mems1 cpus] show ?case by simp
qed simp

lemma walk_chassis_placed:
  "walk_chassis d cpus devs arrs nc is (num, mems) = Inr (num', mems') \<Longrightarrow> list_all (mem_placed cpus) mems \<Longrightarrow>
   list_all (mem_placed cpus) mems'"
proof (induction "is" arbitrary: num mems)
  case (Cons i "is")
  then obtain arr n num1 mems1 where
    s: "note_sockets (chassis_sockets cpus i) (socket_init, 0) = Inr (arr, n)"
    and c: "chassis_dimms d devs arrs n nc i (take n arr) (num, mems) = Inr (num1, mems1)"
    and r: "walk_chassis d cpus devs arrs nc is (num1, mems1) = Inr (num', mems')"
    by auto
  have "set (take n arr) \<subseteq> set (chassis_sockets cpus i)" by (rule note_sockets_sub [OF s]) simp_all
  from Cons.IH [OF r chassis_dimms_placed [OF c Cons.prems(2) this]] show ?case .
qed simp

lemma walk_mem_placed:
  assumes "fmd_topo_walk_mem d tp = Inr tp'" "list_all (mem_placed (list_cpu tp)) (list_mem tp)"
  shows "list_cpu tp' = list_cpu tp \<and> list_all (mem_placed (list_cpu tp)) (list_mem tp')"
  using assms walk_chassis_placed by (auto simp: fmd_topo_walk_mem_def Let_def)

lemma dmi_scan_placed:
  "dmi_scan phys efi fp tp = Inr (rc, tp') \<Longrightarrow> list_all (mem_placed (list_cpu tp)) (list_mem tp) \<Longrightarrow>
   list_cpu tp' = list_cpu tp \<and> list_all (mem_placed (list_cpu tp)) (list_mem tp')"
proof (induction phys efi fp tp rule: dmi_scan.induct)
  case (1 phys efi fp tp)
  have IH: ?case if "efi \<or> fp < 0xFFFFF + 16" "map_phys phys fp 0x20 = Some buf" "take 5 buf \<noteq> anchor_bytes"
      "dmi_scan phys efi (fp + 16) tp = Inr (rc, tp')" for buf
    using 1(1) [of buf] that 1(3) by blast
  from 1(2,3) show ?case
    by (subst (asm) dmi_scan.simps)
      (auto split: if_splits option.splits dest: walk_mem_placed intro: IH [THEN conjunct1] IH [THEN conjunct2])
qed

lemma fmd_topo_dmi_placed:
  "fmd_topo_dmi fs mem tp = Inr (rc, tp') \<Longrightarrow> list_mem tp = [] \<Longrightarrow>
   list_cpu tp' = list_cpu tp \<and> list_all (mem_placed (list_cpu tp)) (list_mem tp')"
  using dmi_scan_placed by (auto simp: fmd_topo_dmi_def Let_def split: option.splits if_splits)

text \<open>Scanning the pci bus changes neither the cpus nor the modules.\<close>

definition same_cpu_mem :: "fmd_topo \<Rightarrow> fmd_topo \<Rightarrow> bool" where
  "same_cpu_mem a b \<longleftrightarrow> list_cpu b = list_cpu a \<and> list_mem b = list_mem a"

lemma storage_same: "fmd_scan_pci_storage fs p tp = Inr (rc, tp') \<Longrightarrow> same_cpu_mem tp tp'"
  by (auto simp: fmd_scan_pci_storage_def same_cpu_mem_def)

lemma scan_pci_dev_same: "fmd_scan_pci_dev fs c p tp = Inr tp' \<Longrightarrow> same_cpu_mem tp tp'"
  unfolding fmd_scan_pci_dev_def Let_def
  by (auto split: if_splits dest!: storage_same) (simp_all add: same_cpu_mem_def)

lemma walk_pci_same: "fmd_topo_walk_pci fs dir f tp = Inr tp' \<Longrightarrow> same_cpu_mem tp tp'"
  by (auto simp: fmd_topo_walk_pci_def Let_def split: option.splits dest: scan_pci_dev_same)
    (simp add: same_cpu_mem_def)

lemma walk_pci_entries_same: "walk_pci_entries fs dir es tp = Inr tp' \<Longrightarrow> same_cpu_mem tp tp'"
proof (induction es arbitrary: tp)
  case (Cons e es)
  then show ?case by (fastforce simp: same_cpu_mem_def split: if_splits dest!: walk_pci_same)
qed (simp add: same_cpu_mem_def)

lemma walk_net_same: "fmd_topo_walk_net fs dir f tp = Inr (rc, tp') \<Longrightarrow> same_cpu_mem tp tp'"
  unfolding fmd_topo_walk_net_def rbind_eq_Inr
  by (elim exE conjE) (auto simp: same_cpu_mem_def split: option.split_asm)

lemma net_entries_same: "net_entries fs dir es tp = Inr tp' \<Longrightarrow> same_cpu_mem tp tp'"
proof (induction es arbitrary: tp)
  case (Cons e es)
  then show ?case by (fastforce simp: same_cpu_mem_def split: if_splits dest!: walk_net_same)
qed (simp add: same_cpu_mem_def)

lemma topo_net_same: "fmd_topo_net fs dir tp = Inr (rc, tp') \<Longrightarrow> same_cpu_mem tp tp'"
  by (auto simp: fmd_topo_net_def split: option.splits dest!: net_entries_same) (simp add: same_cpu_mem_def)

lemma topo_pci_same: "fmd_topo_pci fs dir tp = Inr (rc, tp') \<Longrightarrow> same_cpu_mem tp tp'"
  by (fastforce simp: fmd_topo_pci_def same_cpu_mem_def fmd_topo_walk_subpci_def split: option.splits if_splits
      dest!: walk_pci_entries_same topo_net_same)

text \<open>Scanning the cpus leaves the other lists alone.\<close>

lemma walk_cpu_mem: "fmd_topo_walk_cpu fs dir n tp = Inr tp' \<Longrightarrow> list_mem tp' = list_mem tp"
  by (auto simp: fmd_topo_walk_cpu_def split: option.splits)

lemma cpu_entries_mem: "topo_cpu_entries fs dir pfx es tp = Inr (rc, tp') \<Longrightarrow> list_mem tp' = list_mem tp"
  by (induction es arbitrary: tp) (auto split: if_splits dest: walk_cpu_mem)

lemma topo_cpu_mem: "fmd_topo_cpu fs dir pfx tp = Inr (rc, tp') \<Longrightarrow> list_mem tp' = list_mem tp"
  by (auto simp: fmd_topo_cpu_def split: option.splits dest: cpu_entries_mem)

text \<open>
  After a scan that returns 0 every memory module is in a chassis and socket that some cpu is in,
  whatever the SMBIOS table says; creating the tree can then fail for one reason only, a pci device
  in a domain that is not the number of a chassis with a cpu.
\<close>

theorem scanned_tree_fails_only_for_pci:
  assumes "fmd_topo_main fs mem = Inr (0, tp)"
  shows "list_all (mem_placed (list_cpu tp)) (list_mem tp) \<and>
    fst (topo_tree_create tp) = (if list_all (pci_placed (list_cpu tp)) (list_pci tp) then 0 else -1)"
proof
  obtain rc tp1 where a: "fmd_topo_cpu fs ''/sys/devices/system/node'' ''node'' topo_init = Inr (rc, tp1)"
    using assms by (auto simp: fmd_topo_main_def)
  then obtain tp2 where b: "(if rc < 0 then fmd_topo_walk_cpu fs ''/sys/devices/system/cpu'' 0 tp1 else Inr tp1) = Inr tp2"
    using assms by (auto simp: fmd_topo_main_def)
  obtain rc3 tp3 where c: "fmd_topo_dmi fs mem (tp2\<lparr>list_cpu := set_thread_ids (list_cpu tp2)\<rparr>) = Inr (rc3, tp3)"
    using assms by (auto simp: fmd_topo_main_def a b Let_def)
  have "rc3 \<ge> 0" using assms by (simp add: fmd_topo_main_def a b c Let_def split: if_splits)
  then obtain rc4 where d: "fmd_topo_pci fs ''/sys/bus/pci/devices'' tp3 = Inr (rc4, tp)"
    using assms by (auto simp: fmd_topo_main_def a b c Let_def split: if_splits)
  have "list_mem tp2 = []"
    using topo_cpu_mem [OF a] b walk_cpu_mem by (auto simp: topo_init_def split: if_splits)
  with fmd_topo_dmi_placed [OF c] topo_pci_same [OF d]
  show m: "list_all (mem_placed (list_cpu tp)) (list_mem tp)" by (simp add: same_cpu_mem_def)
  show "fst (topo_tree_create tp) = (if list_all (pci_placed (list_cpu tp)) (list_pci tp) then 0 else -1)"
    using fmd_topo_tree_returns [of tp] m
    by (cases "list_all (pci_placed (list_cpu tp)) (list_pci tp)"; cases "fmd_topo_tree tp")
      (simp_all add: topo_tree_create_def list_all_iff)
qed

text \<open>A machine with one cpu, one module and an EFI table at a low address.\<close>

definition demo_topo_fs :: topo_fs where
  "demo_topo_fs = \<lparr>
     fs_dir = (\<lambda>d. if d = ''/sys/devices/system/node'' then Some [''node0''] else
                   if d = ''/sys/devices/system/node/node0'' then Some [''cpu0''] else
                   if d = ''/sys/bus/pci/devices'' then Some [] else
                   if d = ''/sys/class/net'' then Some [] else None),
     fs_file = (\<lambda>f. if f = ''/sys/devices/system/node/node0/cpu0/topology/physical_package_id'' then Some [CHR ''0'', CHR 0x0A] else
                    if f = ''/sys/devices/system/node/node0/cpu0/topology/core_id'' then Some [CHR ''0'', CHR 0x0A] else
                    if f = ''/sys/firmware/efi/systab'' then Some (''SMBIOS=0x10'' @ [CHR 0x0A]) else None)\<rparr>"

definition demo_phys :: "8 word list" where
  "demo_phys = replicate 16 0 @
     anchor_bytes @ [0, 48, 0, 64, 0, 0, 0, 3, 0] @ replicate 34 0 @
     [16, 15, 1, 0, 3, 3, 0, 0, 0, 0, 0, 0, 0, 1, 0, 0, 0] @
     [17, 14, 2, 0, 1, 0, 0, 0, 0, 0, 0, 0, 1, 0, 0, 0, 0] @ replicate 14 0"

definition demo_scanned :: fmd_topo where
  "demo_scanned = topo_init\<lparr>
     list_cpu := [\<lparr>processor = 0, cpu_flag = 0, cpu_system = 0, cpu_chassis = 0, cpu_board = 0, cpu_socket = 0,
       cpu_core = 0, cpu_thread = 0, cpu_topoclass = 3\<rparr>],
     list_mem := [\<lparr>mem_start = 0, mem_end = 0, mem_system = 0, mem_chassis = 0, mem_board = 0, mem_socket = 0,
       mem_controller = 0, mem_dimm = 0, mem_topoclass = 2\<rparr>]\<rparr>"

lemma demo_cpus: "fmd_topo_cpu demo_topo_fs ''/sys/devices/system/node'' ''node'' topo_init =
    Inr (0, demo_scanned\<lparr>list_mem := []\<rparr>)"
  by code_simp

lemma demo_threads: "set_thread_ids (list_cpu demo_scanned) = list_cpu demo_scanned"
  by code_simp

lemma demo_efi: "get_efi_systab_smbios demo_topo_fs = 16"
  by code_simp

lemma demo_pci: "fmd_topo_pci demo_topo_fs ''/sys/bus/pci/devices'' demo_scanned = Inr (0, demo_scanned)"
  by code_simp

definition demo_buf :: "8 word list" where
  "demo_buf = anchor_bytes @ [0, 48, 0, 64, 0, 0, 0, 3, 0] @ replicate 18 0"

lemma demo_anchor: "map_phys demo_phys 16 0x20 = Some demo_buf"
  by code_simp

definition demo_tables :: dmi_data where
  "demo_tables = dmi_empty\<lparr>array_list := [\<lparr>ma_handle = 1, ma_devices = 1\<rparr>],
     device_list := [\<lparr>md_handle = 2, md_array_handle = 1, md_size = 1024 * 1024\<rparr>]\<rparr>"

lemma demo_table: "dmi_table demo_phys 64 48 = Inr (Some demo_tables)"
  by code_simp

lemma demo_walk: "fmd_topo_walk_mem demo_tables (demo_scanned\<lparr>list_mem := []\<rparr>) = Inr demo_scanned"
  by code_simp

lemma demo_numbers: "take 5 demo_buf = anchor_bytes" "anchor_base demo_buf = 64" "anchor_len demo_buf = 48"
  by (simp_all add: demo_buf_def anchor_bytes_def anchor_base_def anchor_len_def)

lemma demo_dmi: "fmd_topo_dmi demo_topo_fs (Some demo_phys) (demo_scanned\<lparr>list_mem := []\<rparr>) = Inr (0, demo_scanned)"
  by (simp add: fmd_topo_dmi_def demo_efi dmi_scan.simps [of demo_phys True 16] demo_anchor demo_table demo_walk
      demo_numbers FMD_SUCCESS_def)

lemma demo_scan: "fmd_topo_main demo_topo_fs (Some demo_phys) = Inr (0, demo_scanned)"
  using demo_threads demo_dmi
  by (simp add: fmd_topo_main_def demo_cpus demo_pci FMD_SUCCESS_def Let_def)

theorem scanned_tree_fails_only_for_pci_witness:
  "list_mem demo_scanned \<noteq> [] \<and> list_all (mem_placed (list_cpu demo_scanned)) (list_mem demo_scanned) \<and>
   fst (topo_tree_create demo_scanned) = 0"
  using scanned_tree_fails_only_for_pci [OF demo_scan] by (simp add: demo_scanned_def topo_init_def)

end
