(* ===== verification/Fms_CpuAgent.thy ===== *)
theory Fms_CpuAgent
  imports Fms_Mce Fms_Text
begin

text \<open>
  The agent for cpu and memory faults, \<^verbatim>\<open>evt_modules/evtagent/cpumem\<close>: which cpus share a cache
  (\<^verbatim>\<open>cache.c\<close>, \<^verbatim>\<open>sysfs.c\<close>), taking cpus and memory pages off line (\<^verbatim>\<open>evt_process.c\<close>) and the handler of an
  event (\<^verbatim>\<open>cpumem_agent.c\<close>).

  The kernel is a parameter: a state \<open>'m\<close> and a record of what the agent can ask and do there,
  files of \<^verbatim>\<open>/proc\<close> and \<^verbatim>\<open>/sys\<close> to read, files to write and the calls of the kfm driver.
\<close>

record 'm kernel =
  k_dir :: "'m \<Rightarrow> string \<Rightarrow> string list option"
  k_nlink :: "'m \<Rightarrow> string \<Rightarrow> int option"
  k_file :: "'m \<Rightarrow> string \<Rightarrow> string option"
  k_access :: "'m \<Rightarrow> string \<Rightarrow> bool"
  k_write :: "string \<Rightarrow> string \<Rightarrow> 'm \<Rightarrow> int \<times> 'm"
  k_mempage :: "64 word \<Rightarrow> 'm \<Rightarrow> 64 word option"
  k_flush :: "32 word \<Rightarrow> 'm \<Rightarrow> bool \<times> 'm"

section \<open>Reading sysfs\<close>

text \<open>
  The value of a field up to its newline. The copy of the content is not terminated: without a
  newline the string functions read on behind it. A file that cannot be read gives the empty string.
\<close>

definition read_field :: "'m kernel \<Rightarrow> 'm \<Rightarrow> string \<Rightarrow> string \<Rightarrow> string res" where
  "read_field k m base name =
     (case k_file k m (base @ ''/'' @ name) of
        None \<Rightarrow> Inr []
      | Some v \<Rightarrow> if CHR 0x0A \<in> set v then Inr (takeWhile (\<lambda>c. c \<noteq> CHR 0x0A) v) else Inl Oob_access)"

text \<open>The conversion \<open>%u\<close> of \<^verbatim>\<open>sscanf\<close>: white space, a sign, at least one digit.\<close>

definition scan_u :: "string \<Rightarrow> 32 word option" where
  "scan_u s =
     (let t = dropWhile isspace s;
          u = (case t of c # r \<Rightarrow> if c = CHR ''-'' \<or> c = CHR ''+'' then r else t | [] \<Rightarrow> [])
      in if u \<noteq> [] \<and> isdigit (hd u)
         then Some (let v = word_of_int (min (2 ^ 64 - 1) (digits_val 0 u))
                    in if hd t = CHR ''-'' then - v else v) else None)"

definition read_field_num :: "'m kernel \<Rightarrow> 'm \<Rightarrow> string \<Rightarrow> string \<Rightarrow> 32 word res" where
  "read_field_num k m base name =
     rbind (read_field k m base name) (\<lambda>val. Inr (case scan_u val of Some n \<Rightarrow> n | None \<Rightarrow> 0))"

definition type_map :: "(string \<times> 32 word) list" where
  "type_map = [(''Instruction'', 0), (''Data'', 1), (''Unified'', 2)]"

definition read_field_map :: "'m kernel \<Rightarrow> 'm \<Rightarrow> string \<Rightarrow> string \<Rightarrow> (string \<times> 32 word) list \<Rightarrow> 32 word res" where
  "read_field_map k m base name mp =
     rbind (read_field k m base name) (\<lambda>val. Inr (case map_of mp val of Some n \<Rightarrow> n | None \<Rightarrow> - 1))"

section \<open>Caches\<close>

record cache =
  c_level :: "32 word"
  c_type :: "32 word"
  c_cpumap :: "32 word list"
  c_cpumaplen :: nat

text \<open>\<^verbatim>\<open>cpumap_len\<close>: bytes for each run of hexadecimal digits, in whole 32-bit words.\<close>

definition word_bytes :: "nat \<Rightarrow> nat" where
  "word_bytes width = (width * 4 + 31) div 32 * 4"

fun cpumap_len_loop :: "string \<Rightarrow> nat \<Rightarrow> nat \<Rightarrow> nat" where
  "cpumap_len_loop [] len width = len + word_bytes width"
| "cpumap_len_loop (c # s) len width =
     (if hex_digit c \<noteq> None then cpumap_len_loop s len (width + 1)
      else cpumap_len_loop s (len + word_bytes width) 0)"

definition cpumap_len :: "string \<Rightarrow> nat" where
  "cpumap_len s = cpumap_len_loop s 0 0"

definition strtoul16 :: "string \<Rightarrow> 32 word" where
  "strtoul16 s =
     (case dropWhile isspace s of
        [] \<Rightarrow> 0
      | c # r \<Rightarrow>
          let v = (\<lambda>t. word_of_int (min (2 ^ 64 - 1) (hex_val 0 (skip_0x t))))
          in if c = CHR ''-'' then - v r else if c = CHR ''+'' then v r else v (c # r))"

text \<open>The groups of the map are read from the last to the first.\<close>

definition parse_cpumap :: "string \<Rightarrow> nat \<Rightarrow> 32 word list res" where
  "parse_cpumap mp len =
     (let ws = map strtoul16 (rev (strsep_all [CHR '',''] mp))
      in if len < 4 * length ws then Inl Buf_overflow else Inr (ws @ replicate (len div 4 - length ws) 0))"

definition read_cpu_map :: "'m kernel \<Rightarrow> 'm \<Rightarrow> string \<Rightarrow> (32 word list \<times> nat) res" where
  "read_cpu_map k m cfn =
     rbind (read_field k m cfn ''shared_cpu_map'') (\<lambda>mp.
     rbind (parse_cpumap mp (cpumap_len mp)) (\<lambda>ws. Inr (ws, cpumap_len mp)))"

definition read_index :: "'m kernel \<Rightarrow> 'm \<Rightarrow> string \<Rightarrow> nat \<Rightarrow> cache res" where
  "read_index k m fn i =
     (let cfn = fn @ ''/index'' @ nat_str 10 i
      in rbind (read_field_map k m cfn ''type'' type_map) (\<lambda>ty.
         rbind (read_field_num k m cfn ''level'') (\<lambda>lv.
         rbind (read_cpu_map k m cfn) (\<lambda>(ws, len).
           Inr \<lparr>c_level = lv, c_type = ty, c_cpumap = ws, c_cpumaplen = len\<rparr>))))"

fun read_indexes :: "'m kernel \<Rightarrow> 'm \<Rightarrow> string \<Rightarrow> nat list \<Rightarrow> cache list res" where
  "read_indexes k m fn [] = Inr []"
| "read_indexes k m fn (i # is) =
     rbind (read_index k m fn i) (\<lambda>c. rbind (read_indexes k m fn is) (\<lambda>tab. Inr (c # tab)))"

text \<open>
  \<open>caches\<close> is the table by cpu number, \<open>[]\<close> while it is not allocated. \<^verbatim>\<open>more_cpus\<close> doubles it once,
  whatever the number of the cpu that is to be stored.
\<close>

type_synonym caches = "cache list option list"

definition MIN_CPUS :: nat where "MIN_CPUS = 8"
definition MIN_INDEX :: nat where "MIN_INDEX = 4"

definition more_cpus :: "caches \<Rightarrow> caches" where
  "more_cpus tab = tab @ replicate ((if tab = [] then MIN_CPUS else 2 * length tab) - length tab) None"

definition scan_cpu_name :: "string \<Rightarrow> 32 word option" where
  "scan_cpu_name name = (if is_pfx ''cpu'' name then scan_u (drop 3 name) else None)"

definition CPU_PREFIX :: string where "CPU_PREFIX = ''/sys/devices/system/cpu''"

fun read_cpu_entries :: "'m kernel \<Rightarrow> 'm \<Rightarrow> string list \<Rightarrow> caches \<Rightarrow> caches res" where
  "read_cpu_entries k m [] tab = Inr tab"
| "read_cpu_entries k m (name # names) tab =
     (case scan_cpu_name name of
        None \<Rightarrow> read_cpu_entries k m names tab
      | Some cpu \<Rightarrow>
          let fn = CPU_PREFIX @ ''/'' @ name @ ''/cache''
          in case k_nlink k m fn of
               None \<Rightarrow> read_cpu_entries k m names tab
             | Some nlink \<Rightarrow>
                 let numindex = (if nlink - 2 < 0 then MIN_INDEX else nat (nlink - 2));
                     tab = (if length tab \<le> unat cpu then more_cpus tab else tab)
                 in if length tab \<le> unat cpu then Inl Oob_access
                    else rbind (read_indexes k m fn [0..<numindex]) (\<lambda>l.
                           read_cpu_entries k m names (tab[unat cpu := Some l])))"

definition read_caches :: "'m kernel \<Rightarrow> 'm \<Rightarrow> caches \<Rightarrow> (int \<times> caches) res" where
  "read_caches k m tab =
     (case k_dir k m CPU_PREFIX of
        None \<Rightarrow> Inr (-1, tab)
      | Some names \<Rightarrow> rbind (read_cpu_entries k m names tab) (\<lambda>tab. Inr (0, tab)))"

definition cached :: "caches \<Rightarrow> nat \<Rightarrow> cache list option" where
  "cached tab cpu = (if cpu < length tab then tab ! cpu else None)"

definition cache_to_cpus :: "'m kernel \<Rightarrow> 'm \<Rightarrow> 32 word \<Rightarrow> 32 word \<Rightarrow> 32 word \<Rightarrow> caches \<Rightarrow> ((32 word list \<times> nat) option \<times> caches) res" where
  "cache_to_cpus k m cpu level type tab =
     rbind (if tab = [] then read_caches k m tab else Inr (0, tab)) (\<lambda>(rc, tab).
       if rc < 0 \<or> tab = [] then Inr (None, tab)
       else rbind (if cached tab (unat cpu) = None then read_caches k m [] else Inr (0, tab)) (\<lambda>(rc, tab).
         if rc < 0 then Inr (None, tab)
         else Inr (case cached tab (unat cpu) of
                None \<Rightarrow> None
              | Some l \<Rightarrow> map_option (\<lambda>c. (c_cpumap c, c_cpumaplen c))
                            (find (\<lambda>c. c_level c = level \<and> c_type c = type) l), tab)))"

section \<open>Taking cpus and pages off line\<close>

text \<open>The lines \<^verbatim>\<open>getdelim\<close> delivers, each with its newline.\<close>

fun text_lines :: "string \<Rightarrow> string list" where
  "text_lines [] = []"
| "text_lines (c # s) =
     (if c = CHR 0x0A then [c] # text_lines s
      else (case text_lines s of [] \<Rightarrow> [[c]] | l # ls \<Rightarrow> (c # l) # ls))"

text \<open>\<^verbatim>\<open>sscanf(line, "processor : %u")\<close>: a blank of the format stands for any white space.\<close>

definition scan_processor :: "string \<Rightarrow> 32 word option" where
  "scan_processor line =
     (if is_pfx ''processor'' line then
        (case dropWhile isspace (drop 9 line) of
           c # r \<Rightarrow> if c = CHR '':'' then scan_u r else None
         | [] \<Rightarrow> None)
      else None)"

definition is_cpu_offline :: "'m kernel \<Rightarrow> 'm \<Rightarrow> 32 word \<Rightarrow> bool" where
  "is_cpu_offline k m cpu =
     (case k_file k m ''/proc/cpuinfo'' of
        None \<Rightarrow> False
      | Some t \<Rightarrow> \<not> list_ex (\<lambda>l. scan_processor l = Some cpu) (text_lines t))"

definition online_path :: "32 word \<Rightarrow> string" where
  "online_path cpu = ''/sys/devices/system/cpu/cpu'' @ dec (sint cpu) @ ''/online''"

definition do_cpu_offline :: "'m kernel \<Rightarrow> 32 word \<Rightarrow> 'm \<Rightarrow> int \<times> 'm" where
  "do_cpu_offline k cpu m =
     (if is_cpu_offline k m cpu then (0, m)
      else if \<not> k_access k m (online_path cpu) then (-1, m)
      else let (ret, m) = k_write k (online_path cpu) ''0'' m in (if ret > 0 then 0 else -1, m))"

definition test_bit :: "nat \<Rightarrow> 32 word list \<Rightarrow> bool" where
  "test_bit i ws = bit (ws ! (i div 32)) (i mod 32)"

fun offline_mask :: "'m kernel \<Rightarrow> 32 word list \<Rightarrow> nat list \<Rightarrow> int \<times> 'm \<Rightarrow> int \<times> 'm" where
  "offline_mask k ws [] st = st"
| "offline_mask k ws (i # is) (ret, m) =
     (if test_bit i ws
      then let (r, m) = do_cpu_offline k (of_nat i) m in offline_mask k ws is (if r \<noteq> 0 then -1 else ret, m)
      else offline_mask k ws is (ret, m))"

definition cpu_offine_on_cache :: "'m kernel \<Rightarrow> 32 word \<Rightarrow> 32 word \<Rightarrow> 32 word \<Rightarrow> caches \<times> 'm \<Rightarrow> (int \<times> caches \<times> 'm) res" where
  "cpu_offine_on_cache k cpu clevel ctype st =
     (let (tab, m) = st
      in rbind (cache_to_cpus k m cpu clevel ctype tab) (\<lambda>(mask, tab).
           let (ret, m) = (case mask of
                 Some (ws, len) \<Rightarrow> offline_mask k ws [0..<len * 8] (0, m)
               | None \<Rightarrow> do_cpu_offline k cpu m)
           in Inr (ret, tab, m)))"

definition KPF_HWPOISON :: nat where "KPF_HWPOISON = 19"
definition KPF_NOPAGE :: nat where "KPF_NOPAGE = 20"

definition memory_page_offline :: "'m kernel \<Rightarrow> 64 word \<Rightarrow> 'm \<Rightarrow> int \<times> 'm" where
  "memory_page_offline k addr m =
     (case k_mempage k addr m of
        None \<Rightarrow> (-1, m)
      | Some flags \<Rightarrow>
          if \<not> bit flags KPF_NOPAGE \<and> bit flags KPF_HWPOISON then (0, m)
          else let (ret, m) = k_write k ''/sys/devices/system/memory/soft_offline_page''
                 ((if addr = 0 then '''' else ''0x'') @ hex (unat addr)) m
            in (if ret > 0 then 0 else -1, m))"

section \<open>Handling an event\<close>

text \<open>\<open>cpu_action\<close> of \<^verbatim>\<open>struct cmea_evt_data\<close>: 1 flushes the cache, 2 takes the cpus off line.\<close>

definition handle_cache :: "'m kernel \<Rightarrow> int \<Rightarrow> fms_cpumem option \<Rightarrow> caches \<times> 'm \<Rightarrow> (int \<times> caches \<times> 'm) res" where
  "handle_cache k cpu_action data st =
     (case data of
        None \<Rightarrow> Inr (LIST_REPAIRED_FAILED, st)
      | Some fc \<Rightarrow>
          if cpu_action = 1 then
            (let (tab, m) = st; (ok, m) = k_flush k (cm_cpu fc) m
             in Inr (if ok then LIST_REPAIRED_SUCCESS else LIST_REPAIRED_FAILED, tab, m))
          else if cpu_action = 2 then
            rbind (cpu_offine_on_cache k (cm_cpu fc) (word_of_int (cm_clevel fc)) (word_of_int (cm_ctype fc)) st)
              (\<lambda>(r, st). Inr (if r = 0 then LIST_ISOLATED_SUCCESS else LIST_ISOLATED_FAILED, st))
          else Inr (LIST_REPAIRED_FAILED, st))"

definition evt_handle_qpi :: "'m kernel \<Rightarrow> fms_cpumem option \<Rightarrow> caches \<times> 'm \<Rightarrow> (int \<times> caches \<times> 'm) res" where
  "evt_handle_qpi k data st =
     (case data of
        None \<Rightarrow> Inr (LIST_REPAIRED_FAILED, st)
      | Some fc \<Rightarrow>
          let (tab, m) = st; (r, m) = do_cpu_offline k (cm_cpu fc) m
          in Inr (if r = 0 then LIST_ISOLATED_SUCCESS else LIST_ISOLATED_FAILED, tab, m))"

definition evt_handle_mempage :: "'m kernel \<Rightarrow> fms_cpumem option \<Rightarrow> caches \<times> 'm \<Rightarrow> (int \<times> caches \<times> 'm) res" where
  "evt_handle_mempage k data st =
     (case data of
        None \<Rightarrow> Inr (LIST_REPAIRED_FAILED, st)
      | Some fc \<Rightarrow>
          if cm_flags fc AND FMS_CPUMEM_PAGE_ERROR \<noteq> 0 then
            (let (tab, m) = st; (r, m) = memory_page_offline k (cm_addr fc) m
             in Inr (if r = 0 then LIST_ISOLATED_SUCCESS else LIST_ISOLATED_FAILED, tab, m))
          else Inr (LIST_REPAIRED_FAILED, st))"

text \<open>The table \<^verbatim>\<open>g_evt_handler\<close>, searched for the first name the type starts with.\<close>

definition g_evt_handler :: "'m kernel \<Rightarrow> (string \<times> (int \<Rightarrow> fms_cpumem option \<Rightarrow> caches \<times> 'm \<Rightarrow> (int \<times> caches \<times> 'm) res)) list" where
  "g_evt_handler k =
     [(''cache'', handle_cache k), (''tlb'', handle_cache k), (''qpi'', \<lambda>_. evt_handle_qpi k),
      (''mempage'', \<lambda>_. evt_handle_mempage k)]"

definition cmea_evt_processing :: "'m kernel \<Rightarrow> string \<Rightarrow> int \<Rightarrow> fms_cpumem option \<Rightarrow> caches \<times> 'm \<Rightarrow> (int \<times> caches \<times> 'm) res" where
  "cmea_evt_processing k evt_type cpu_action data st =
     (case find (\<lambda>(etype, h). strncmp_eq etype evt_type (length etype)) (g_evt_handler k) of
        None \<Rightarrow> Inr (LIST_REPAIRED_FAILED, st)
      | Some (etype, h) \<Rightarrow> h cpu_action data st)"

definition handle_fault_event :: "'m kernel \<Rightarrow> fmd_event \<Rightarrow> fms_cpumem option \<Rightarrow> caches \<times> 'm \<Rightarrow> (int \<times> caches \<times> 'm) res" where
  "handle_fault_event k e data st =
     (case strrchr (ev_class e) CHR ''.'' of
        None \<Rightarrow> Inr (LIST_REPAIRED_FAILED, st)
      | Some dot \<Rightarrow> cmea_evt_processing k (drop 1 dot) (to_int32 (ev_refs e)) data st)"

text \<open>
  \<^verbatim>\<open>cpumem_handle_event\<close>: the result the list event is created with, \<open>None\<close> when none is created, and
  the event as it is left. What it logs is modelled below.
\<close>

definition cpumem_handle_event :: "'m kernel \<Rightarrow> fmd_event \<Rightarrow> fms_cpumem option \<Rightarrow> caches \<times> 'm \<Rightarrow> (int option \<times> fmd_event \<times> caches \<times> 'm) res" where
  "cpumem_handle_event k e data st =
     (if ev_flag e = AGENT_TODO then
        rbind (if ev_handle_mode e AND EVENT_HANDLE_MODE_AUTO \<noteq> 0 then handle_fault_event k e data st else Inr (0, st))
          (\<lambda>(ret, st).
             Inr (Some (if ev_handle_mode e = EVENT_HANDLE_MODE_MANUAL then LIST_REPAIRED_MANUAL else ret),
                  e\<lparr>ev_event_type := EVENT_LIST\<rparr>, st))
      else Inr (None, e, st))"

section \<open>Cpu masks\<close>

text \<open>
  The text of a mask as the kernel prints it: words of 32 cpus in hexadecimal, the highest first, all
  but the first with eight digits, the first with at least \<open>w\<close>.
\<close>

fun join_comma :: "string list \<Rightarrow> string" where
  "join_comma [] = []"
| "join_comma [t] = t"
| "join_comma (t # ts) = t @ CHR '','' # join_comma ts"

definition mask_groups :: "nat \<Rightarrow> 32 word list \<Rightarrow> string list" where
  "mask_groups w ws = (case rev ws of [] \<Rightarrow> [] | h # r \<Rightarrow> pad0 w (hex (unat h)) # map (\<lambda>x. pad0 8 (hex (unat x))) r)"

definition mask_text :: "nat \<Rightarrow> 32 word list \<Rightarrow> string" where
  "mask_text w ws = join_comma (mask_groups w ws)"

lemma join_comma_Cons: "ts \<noteq> [] \<Longrightarrow> join_comma (t # ts) = t @ CHR '','' # join_comma ts"
  by (cases ts) auto

lemma strsep_join:
  "ts \<noteq> [] \<Longrightarrow> \<forall>t\<in>set ts. CHR '','' \<notin> set t \<Longrightarrow> strsep_all [CHR '',''] (join_comma ts) = ts"
proof (induction ts)
  case (Cons t ts)
  show ?case
  proof (cases "ts = []")
    case True
    with Cons.prems show ?thesis by (simp add: strsep_all_last)
  next
    case False
    with Cons show ?thesis by (simp add: join_comma_Cons strsep_all_token)
  qed
qed simp

definition is_group :: "string \<Rightarrow> bool" where
  "is_group t \<longleftrightarrow> t \<noteq> [] \<and> length t \<le> 8 \<and> list_all (\<lambda>c. hex_digit c \<noteq> None \<and> plain_digit c) t"

lemma cpumap_len_digits:
  "list_all (\<lambda>c. hex_digit c \<noteq> None) t \<Longrightarrow> cpumap_len_loop (t @ s) len w = cpumap_len_loop s len (w + length t)"
  by (induction t arbitrary: w) auto

lemma word_bytes_group: "0 < n \<Longrightarrow> n \<le> 8 \<Longrightarrow> word_bytes n = 4"
proof -
  assume "0 < n" "n \<le> 8"
  then have "(n * 4 + 31) div 32 = 1" by (intro div_nat_eqI) simp_all
  then show ?thesis by (simp add: word_bytes_def)
qed

lemma cpumap_len_join:
  "ts \<noteq> [] \<Longrightarrow> list_all is_group ts \<Longrightarrow> cpumap_len_loop (join_comma ts) len 0 = len + 4 * length ts"
proof (induction ts arbitrary: len)
  case (Cons t ts)
  then have t: "list_all (\<lambda>c. hex_digit c \<noteq> None) t" "word_bytes (length t) = 4"
    by (auto simp: is_group_def list_all_iff word_bytes_group)
  have comma: "hex_digit CHR '','' = None" by (simp add: hex_digit_def)
  show ?case
  proof (cases "ts = []")
    case True
    then show ?thesis using t cpumap_len_digits [OF t(1), of "[]" len 0] by simp
  next
    case False
    with Cons t comma show ?thesis by (simp add: join_comma_Cons cpumap_len_digits)
  qed
qed simp

lemma strtoul16_digits:
  assumes "list_all plain_digit s" "s \<noteq> []" "hex_val 0 s = int n" "n < 2 ^ 32"
  shows "strtoul16 s = of_nat n"
proof -
  obtain c r where s: "s = c # r" using assms(2) by (cases s) auto
  have "skip_0x s = s" using assms(1) unfolding skip_0x_def list_all_length by (auto simp: plain_digit_def)
  moreover have "dropWhile isspace s = c # r" "c \<noteq> CHR ''-''" "c \<noteq> CHR ''+''"
    using assms(1) s by (auto simp: plain_digit_def)
  moreover have "min (2 ^ 64 - 1) (int n) = int n" using assms(4) by simp
  ultimately show ?thesis using assms(3) s by (simp add: strtoul16_def del: hex_val.simps)
qed

lemma pad0_hex:
  assumes "n < 2 ^ 32" "w \<le> 8"
  shows "is_group (pad0 w (hex n))" "strtoul16 (pad0 w (hex n)) = of_nat n"
proof -
  have p: "list_all plain_digit (pad0 w (hex n))" by (rule strtol16_pad0_hex(2) [OF assms(1)])
  have d: "list_all (\<lambda>c. hex_digit c \<noteq> None) (hex n)"
    using nat_str16_digits hex_digit_char by (fastforce simp: list_all_iff hex_def)
  obtain c r where h: "hex n = c # r" unfolding hex_def using nat_str_Cons by blast
  have "c \<noteq> CHR ''-''" using d h by (auto simp: hex_digit_def)
  then have e: "pad0 w (hex n) = replicate (w - length (hex n)) CHR ''0'' @ hex n" by (simp add: pad0_def h)
  have "length (hex n) \<le> 8" using nat_str_length [of n 16 7] assms(1) by (simp add: hex_def)
  moreover have "hex_digit CHR ''0'' \<noteq> None" by (simp add: hex_digit_def)
  ultimately have "list_all (\<lambda>c. hex_digit c \<noteq> None) (pad0 w (hex n))" "length (pad0 w (hex n)) \<le> 8"
    unfolding e using d assms(2) by (auto simp: list_all_iff)
  moreover have "pad0 w (hex n) \<noteq> []" unfolding e using h by simp
  ultimately show "is_group (pad0 w (hex n))" using p by (simp add: is_group_def list_all_iff)
  show "strtoul16 (pad0 w (hex n)) = of_nat n"
  proof (rule strtoul16_digits [OF p _ _ assms(1)])
    show "pad0 w (hex n) \<noteq> []" unfolding e using h by simp
    show "hex_val 0 (pad0 w (hex n)) = int n" unfolding e hex_zeros by (simp add: hex_def hex_val_nat_str)
  qed
qed

lemma mask_groups_ok:
  assumes "w \<le> 8"
  shows "list_all is_group (mask_groups w ws)" "map strtoul16 (rev (mask_groups w ws)) = ws"
    "length (mask_groups w ws) = length ws"
proof -
  have b: "unat (x :: 32 word) < 2 ^ 32" for x using unsigned_less [of x, where ?'a = nat] by simp
  note g = pad0_hex(1) [OF b] and v = pad0_hex(2) [OF b]
  obtain h r where "rev ws = h # r \<or> ws = []" by (cases "rev ws") auto
  then show "list_all is_group (mask_groups w ws)" "map strtoul16 (rev (mask_groups w ws)) = ws"
    "length (mask_groups w ws) = length ws"
    using g [OF assms] v [OF assms] g [of 8] v [of 8]
    by (auto simp: mask_groups_def list_all_iff rev_map [symmetric] comp_def rev_eq_Cons_iff)
qed

text \<open>
  A cpu mask as the kernel prints it is read back exactly: the buffer \<^verbatim>\<open>cpumap_len\<close> reserves is as
  large as the words \<^verbatim>\<open>parse_cpumap\<close> writes, so nothing is written behind it, and the words are those of
  the mask, the lowest first.
\<close>

theorem cpumap_roundtrip:
  assumes "ws \<noteq> []" "w \<le> 8"
  shows "cpumap_len (mask_text w ws) = 4 * length ws \<and>
    parse_cpumap (mask_text w ws) (cpumap_len (mask_text w ws)) = Inr ws"
proof
  note g = mask_groups_ok [OF assms(2), of ws]
  have ne: "mask_groups w ws \<noteq> []" using g(3) assms(1) by auto
  show l: "cpumap_len (mask_text w ws) = 4 * length ws"
    unfolding cpumap_len_def mask_text_def using cpumap_len_join [OF ne g(1)] g(3) by simp
  have "hex_digit CHR '','' = None" by (simp add: hex_digit_def)
  then have "\<forall>t\<in>set (mask_groups w ws). CHR '','' \<notin> set t"
    using g(1) unfolding list_all_iff is_group_def by blast
  from strsep_join [OF ne this] have "map strtoul16 (rev (strsep_all [CHR '',''] (mask_text w ws))) = ws"
    using g(2) by (simp add: mask_text_def)
  then show "parse_cpumap (mask_text w ws) (cpumap_len (mask_text w ws)) = Inr ws"
    unfolding parse_cpumap_def l Let_def by simp
qed

theorem cpumap_roundtrip_witness:
  "mask_text 2 [0xFF, 0x3] = ''03,000000ff'' \<and> parse_cpumap (mask_text 2 [0xFF, 0x3]) 8 = Inr [0xFF, 0x3]"
proof
  show "mask_text 2 [0xFF, 0x3] = ''03,000000ff''"
    by code_simp
  show "parse_cpumap (mask_text 2 [0xFF, 0x3]) 8 = Inr [0xFF, 0x3]"
    using cpumap_roundtrip [of "[0xFF, 0x3]" 2] by auto
qed

section \<open>Isolation is reported truthfully\<close>

text \<open>
  What the agent relies on in the kernel: \<^verbatim>\<open>/proc/cpuinfo\<close> lists exactly the cpus that are on line, and a
  write of 0 to a cpu's \<^verbatim>\<open>online\<close> file takes that cpu and no other off line when it succeeds, and changes
  nothing otherwise.
\<close>

definition cpu_kernel :: "'m kernel \<Rightarrow> ('m \<Rightarrow> 32 word set) \<Rightarrow> bool" where
  "cpu_kernel k on \<longleftrightarrow>
     (\<forall>m. \<exists>t. k_file k m ''/proc/cpuinfo'' = Some t \<and>
        on m = {c. list_ex (\<lambda>l. scan_processor l = Some c) (text_lines t)}) \<and>
     (\<forall>m c. on (snd (k_write k (online_path c) ''0'' m)) =
        (if fst (k_write k (online_path c) ''0'' m) > 0 then on m - {c} else on m))"

text \<open>The cpus an isolation is about: those of the mask, or the cpu itself when its cache is not known.\<close>

definition affected :: "32 word \<Rightarrow> (32 word list \<times> nat) option \<Rightarrow> 32 word set" where
  "affected cpu msk = (case msk of Some (ws, len) \<Rightarrow> of_nat ` {i. i < len * 8 \<and> test_bit i ws} | None \<Rightarrow> {cpu})"

lemma is_cpu_offline_iff: "cpu_kernel k on \<Longrightarrow> is_cpu_offline k m c \<longleftrightarrow> c \<notin> on m"
  unfolding cpu_kernel_def is_cpu_offline_def by (metis (mono_tags, lifting) mem_Collect_eq option.simps(5))

lemma do_cpu_offline_spec:
  assumes "cpu_kernel k on" "do_cpu_offline k c m = (r, m')"
  shows "r = 0 \<longleftrightarrow> c \<notin> on m'" "on m - {c} \<subseteq> on m'" "on m' \<subseteq> on m"
proof -
  have w: "on (snd (k_write k (online_path c) ''0'' m)) =
      (if fst (k_write k (online_path c) ''0'' m) > 0 then on m - {c} else on m)"
    using assms(1) by (simp add: cpu_kernel_def)
  show "r = 0 \<longleftrightarrow> c \<notin> on m'" "on m - {c} \<subseteq> on m'" "on m' \<subseteq> on m"
    using assms(2) w is_cpu_offline_iff [OF assms(1), of m c]
    by (auto simp: do_cpu_offline_def Let_def case_prod_unfold split: if_splits)
qed

lemma offline_mask_spec:
  assumes "cpu_kernel k on" "offline_mask k ws is (r0, m) = (r, m')" "distinct is" "\<forall>i\<in>set is. i < 2 ^ 32"
  defines "S \<equiv> of_nat ` {i \<in> set is. test_bit i ws}"
  shows "(r = 0 \<longleftrightarrow> r0 = 0 \<and> S \<inter> on m' = {}) \<and> on m - S \<subseteq> on m' \<and> on m' \<subseteq> on m"
  using assms(2-4) unfolding S_def
proof (induction "is" arbitrary: r0 m)
  case (Cons i js)
  have inj: "of_nat j \<noteq> (of_nat i :: 32 word)" if "j \<in> set js" for j
  proof
    assume "of_nat j = (of_nat i :: 32 word)"
    then have "unat (of_nat j :: 32 word) = unat (of_nat i :: 32 word)" by simp
    then have "j = i" using that Cons.prems(3) by (simp add: unat_of_nat)
    with that Cons.prems(2) show False by simp
  qed
  show ?case
  proof (cases "test_bit i ws")
    case True
    obtain r1 m1 where one: "do_cpu_offline k (of_nat i) m = (r1, m1)" by fastforce
    note d = do_cpu_offline_spec [OF assms(1) one]
    have rest: "offline_mask k ws js (if r1 \<noteq> 0 then -1 else r0, m1) = (r, m')"
      using Cons.prems(1) True one by simp
    let ?T = "of_nat ` {i \<in> set js. test_bit i ws} :: 32 word set"
    have ih: "(r = 0 \<longleftrightarrow> (if r1 \<noteq> 0 then -1 else r0) = 0 \<and> ?T \<inter> on m' = {}) \<and>
        on m1 - ?T \<subseteq> on m' \<and> on m' \<subseteq> on m1"
      using Cons.IH [OF rest] Cons.prems(2,3) by simp
    have S: "of_nat ` {x \<in> set (i # js). test_bit x ws} = insert (of_nat i) ?T" using True by auto
    have "(of_nat i :: 32 word) \<notin> ?T" using inj by fastforce
    with ih d(1) have "of_nat i \<notin> on m' \<longleftrightarrow> r1 = 0" by blast
    with ih d show ?thesis unfolding S by auto
  next
    case False
    then have "{x \<in> set (i # js). test_bit x ws} = {x \<in> set js. test_bit x ws}" by auto
    with Cons False show ?thesis by simp
  qed
qed simp

lemma cpu_offine_on_cache_spec:
  assumes "cpu_kernel k on" "cache_to_cpus k m cpu lv ty tab = Inr (msk, tab')"
    and "case msk of Some (ws, len) \<Rightarrow> len * 8 \<le> 2 ^ 31 | None \<Rightarrow> True"
  obtains r m' where "cpu_offine_on_cache k cpu lv ty (tab, m) = Inr (r, tab', m')"
    "r = 0 \<longleftrightarrow> affected cpu msk \<inter> on m' = {}" "on m - affected cpu msk \<subseteq> on m'" "on m' \<subseteq> on m"
proof (cases msk)
  case None
  obtain r m' where d: "do_cpu_offline k cpu m = (r, m')" by fastforce
  from do_cpu_offline_spec [OF assms(1) this] show ?thesis
    using that [of r m'] assms(2) d None by (simp add: cpu_offine_on_cache_def affected_def)
next
  case (Some wl)
  obtain ws len where wl: "wl = (ws, len)" by fastforce
  obtain r m' where d: "offline_mask k ws [0..<len * 8] (0, m) = (r, m')" by fastforce
  have "\<forall>i\<in>set [0..<len * 8]. i < 2 ^ 32" using assms(3) Some wl by simp
  from offline_mask_spec [OF assms(1) d _ this] show ?thesis
    using that [of r m'] assms(2) d Some wl by (simp add: cpu_offine_on_cache_def affected_def)
qed


definition demo_kernel :: "bool kernel" where
  "demo_kernel = \<lparr>k_dir = \<lambda>_ _. None, k_nlink = \<lambda>_ _. None,
     k_file = \<lambda>m p. if p = ''/proc/cpuinfo'' then
         Some (''processor : 0'' @ CHR 0x0A # (if m then ''processor : 1'' @ [CHR 0x0A] else [])) else None,
     k_access = \<lambda>_ p. p = online_path 1,
     k_write = \<lambda>p _ m. if p = online_path 1 then (1, False) else (-1, m),
     k_mempage = \<lambda>_ _. None, k_flush = \<lambda>_ m. (False, m)\<rparr>"

definition demo_online :: "bool \<Rightarrow> 32 word set" where
  "demo_online m = (if m then {0, 1} else {0})"

definition demo_event :: fmd_event where
  "demo_event = event_zero\<lparr>ev_flag := AGENT_TODO, ev_handle_mode := EVENT_HANDLE_MODE_AUTO, ev_refs := 2,
     ev_class := ''ereport.cpu.intel.cache''\<rparr>"

definition demo_caches :: caches where
  "demo_caches = [None, Some [\<lparr>c_level = 1, c_type = 1, c_cpumap = [2], c_cpumaplen = 4\<rparr>]]"

definition demo_data :: fms_cpumem where
  "demo_data = \<lparr>cm_socketid = 0, cm_cpu = 1, cm_status = 0, cm_misc = 0, cm_addr = 0, cm_maddr = 0, cm_mcgstatus = 0,
     cm_ip = 0, cm_tsc = 0, cm_time = 0, cm_apicid = 0, cm_cpuid = 0, cm_mcgcap = 0, cm_mnemonic = [], cm_desc = [],
     cm_memdev = 0, cm_flags = 0, cm_cs = 0, cm_bank = 0, cm_cpuvendor = 0, cm_mem_ch = 0, cm_clevel = 1, cm_ctype = 1,
     cm_fname = [], cm_dev_id = 0, cm_fid = 0, cm_cputype = CPU_GENERIC\<rparr>"

lemma online_path_1: "online_path c = online_path 1 \<longleftrightarrow> c = 1"
proof
  assume "online_path c = online_path 1"
  moreover have "dec (sint (1 :: 32 word)) = ''1''" by code_simp
  ultimately have d: "dec (sint c) = ''1''" by (simp add: online_path_def)
  then have "\<not> sint c < 0" by (auto simp: dec_def)
  with d have "nat_str 10 (nat (sint c)) = ''1''" by (simp add: dec_def)
  then have "int (nat (sint c)) = 1" using digits_val_nat_str [of "nat (sint c)"] by (simp add: isdigit_def digit_val_def)
  with \<open>\<not> sint c < 0\<close> have "sint c = sint (1 :: 32 word)" by simp
  then show "c = 1" by (simp add: signed_word_eqI)
qed simp

lemma demo_cpuinfo:
  "text_lines (''processor : 0'' @ CHR 0x0A # s) = (''processor : 0'' @ [CHR 0x0A]) # text_lines s"
  "text_lines (''processor : 1'' @ CHR 0x0A # s) = (''processor : 1'' @ [CHR 0x0A]) # text_lines s"
  "scan_processor (''processor : 0'' @ [CHR 0x0A]) = Some 0"
  "scan_processor (''processor : 1'' @ [CHR 0x0A]) = Some 1"
  by (simp_all, code_simp, code_simp)

lemma demo_cpu_kernel: "cpu_kernel demo_kernel demo_online"
  unfolding cpu_kernel_def
  by (auto simp: demo_kernel_def demo_online_def demo_cpuinfo online_path_1 simp del: append.simps)


end
