(* ===== verification/Fms_CpuLog.thy ===== *)
theory Fms_CpuLog
  imports Fms_CpuAgent Fms_Dmi Fms_Record
begin

text \<open>
  The event log of the cpu and memory agent: \<^verbatim>\<open>evtlib/fmd_log.c\<close>, \<^verbatim>\<open>__log_event\<close> of \<^verbatim>\<open>cpumem_agent.c\<close>, the text
  of \<^verbatim>\<open>cpumem_err_printf\<close> in \<^verbatim>\<open>evt_process.c\<close> and of \<^verbatim>\<open>dump_memdev\<close> in \<^verbatim>\<open>memdev.c\<close>. The lines are composed with
  \<^verbatim>\<open>sprintf\<close> in buffers of a fixed size: a text that does not fit is \<open>Buf_overflow\<close>.

  The clock, \<^verbatim>\<open>ctime\<close>, the text of \<^verbatim>\<open>decode_tsc_current\<close> (which \<open>Fms_AgentStart\<close> models) and the file system are
  parameters.
\<close>

record log_env =
  l_localtime :: tm
  l_gmtime :: tm
  l_ctime :: "64 word \<Rightarrow> string"
  l_tsc :: "fms_cpumem \<Rightarrow> string option"
  l_memdev :: "addr \<Rightarrow> memory \<times> nat"
  l_opendir :: "string \<Rightarrow> bool"
  l_open :: "string \<Rightarrow> bool"
  l_write :: "string \<Rightarrow> string \<Rightarrow> nat"

text \<open>What was written, in order: the file and the bytes that reached it.\<close>

type_synonym log = "(string \<times> string) list"

section \<open>Log files\<close>

datatype log_type = FMD_LOG_ERROR | FMD_LOG_FAULT | FMD_LOG_LIST

text \<open>\<^verbatim>\<open>fmd_get_time\<close> prints the time of the call, whatever time it is given; \<open>n\<close> is the size of the buffer.\<close>

definition fmd_get_time :: "tm \<Rightarrow> nat \<Rightarrow> string res" where
  "fmd_get_time m n =
     fits n (dec (tm_year m + 1900) @ ''-'' @ pad0 2 (dec (tm_mon m + 1)) @ ''-'' @ pad0 2 (dec (tm_mday m)) @ '' '' @
       pad0 2 (dec (tm_hour m)) @ '':'' @ pad0 2 (dec (tm_min m)) @ '':'' @ pad0 2 (dec (tm_sec m)))"

definition get_logname :: "tm \<Rightarrow> log_type \<Rightarrow> string res" where
  "get_logname m type =
     rbind (fits 20 (dec (tm_year m + 1900) @ ''-'' @ pad0 2 (dec (tm_mon m + 1)) @ ''-'' @ pad0 2 (dec (tm_mday m)))) (\<lambda>date.
       Inr (date @ (case type of FMD_LOG_ERROR \<Rightarrow> ''-err'' | FMD_LOG_FAULT \<Rightarrow> ''-flt'' | FMD_LOG_LIST \<Rightarrow> ''-lst'')))"

definition fmd_log_open :: "log_env \<Rightarrow> string \<Rightarrow> log_type \<Rightarrow> string option res" where
  "fmd_log_open env dir type =
     (if \<not> l_opendir env dir then Inr None
      else rbind (get_logname (l_gmtime env) type) (\<lambda>logname.
        let filename = take 4095 (dir @ ''/'' @ logname)
        in Inr (if l_open env filename then Some filename else None)))"

definition fmd_log_write :: "log_env \<Rightarrow> string \<Rightarrow> string \<Rightarrow> log \<Rightarrow> int \<times> log" where
  "fmd_log_write env fd buf log =
     (let len = l_write env fd buf in if len = 0 then (-1, log) else (0, log @ [(fd, take len buf)]))"

section \<open>The text of an error\<close>

text \<open>The strings handed to \<^verbatim>\<open>fmd_log_write\<close>; the lines share a buffer of 512 bytes.\<close>

fun rconcat :: "'a list res list \<Rightarrow> 'a list res" where
  "rconcat [] = Inr []"
| "rconcat (x # xs) = rbind x (\<lambda>a. rbind (rconcat xs) (\<lambda>b. Inr (a @ b)))"

definition line_indent :: string where
  "line_indent = replicate 19 CHR '' '' @ [CHR 0x09]"

definition nl :: string where "nl = [CHR 0x0A]"

definition log_line :: "string \<Rightarrow> string list res" where
  "log_line s = rbind (fits 512 s) (\<lambda>s. Inr [line_indent, s])"

definition log_when :: "bool \<Rightarrow> string \<Rightarrow> string list res" where
  "log_when b s = (if b then log_line s else Inr [])"

definition extended_bankname :: "nat \<Rightarrow> string res" where
  "extended_bankname bank =
     (if bank = 128 then Inr ''THERMAL EVENT''
      else if bank = 128 + 90 then Inr ''Timeout waiting for exception on other CPUs''
      else fits 64 (''Undecoded extended event '' @ hex bank))"

definition intel_bank_name :: "nat \<Rightarrow> string res" where
  "intel_bank_name num = fits 64 (''BANK '' @ dec (int num))"

definition bankname :: "nat \<Rightarrow> cputype \<Rightarrow> string res" where
  "bankname bank cputype =
     (if 128 \<le> bank then extended_bankname bank
      else if is_intel_cpu cputype then intel_bank_name bank
      else fits 64 (''BANK '' @ dec (int bank)))"

definition hx64 :: "64 word \<Rightarrow> string" where "hx64 w = hex (unat w)"

definition print_tsc :: "log_env \<Rightarrow> fms_cpumem \<Rightarrow> string list res" where
  "print_tsc env fc =
     log_line (''TSC: '' @ hx64 (cm_tsc fc) @ '' '' @
       (if cm_time fc = 0 then case l_tsc env fc of Some t \<Rightarrow> t | None \<Rightarrow> [] else []) @ nl)"

definition print_mcg :: "64 word \<Rightarrow> string list res" where
  "print_mcg mcgstatus =
     log_line (''MCG status:'' @ (if bit mcgstatus 0 then '' RIPV'' else []) @ (if bit mcgstatus 1 then '' EIPV'' else []) @
       (if bit mcgstatus 2 then '' MCIP'' else []) @ (if bit mcgstatus 3 then '' LMCE'' else []) @ nl)"

definition arstate :: "string list" where
  "arstate = [''UCNA'', ''AR'', ''SRAO'', ''SRAR'']"

definition print_mci :: "64 word \<Rightarrow> 32 word \<Rightarrow> string list res" where
  "print_mci status mcgcap = rconcat
     [log_line (''MCi status:'' @ nl),
      log_when (\<not> bit status 63) (''  Machine check not valid'' @ nl),
      log_when (bit status 62) (''  Error overflow'' @ nl),
      log_line ((if bit status 61 then ''  Uncorrected error'' else ''  Corrected error'') @ nl),
      log_when (bit status 60) (''  Error enabled'' @ nl),
      log_when (bit status 59) (''  MCi_MISC register valid'' @ nl),
      log_when (bit status 58) (''  MCi_ADDR register valid'' @ nl),
      log_when (bit status 57) (''  Processor context corrupt'' @ nl),
      log_when (bit status 56 \<or> bit status 55) (arstate ! unat (take_bit 2 (drop_bit 55 status)) @ nl),
      log_when (bit mcgcap 24 \<and> bit status 37) (''Firmware may have updated this error'' @ nl)]"

definition vendor :: "string list" where
  "vendor = [''Intel'', ''Cyrix'', ''AMD'', ''UMC'', ''vendor 4'', ''Centaur'', ''vendor 6'', ''Transmeta'', ''NSC'']"

definition cpuvendor_name :: "nat \<Rightarrow> string" where
  "cpuvendor_name cpuvendor = (if cpuvendor < length vendor then vendor ! cpuvendor else ''Unknown vendor'')"

section \<open>Memory devices\<close>

definition form_factors :: "string list" where
  "form_factors = [''?'', ''Other'', ''Unknown'', ''SIMM'', ''SIP'', ''Chip'', ''DIP'', ''ZIP'', ''Proprietary Card'', ''DIMM'',
     ''TSOP'', ''Row of chips'', ''RIMM'', ''SODIMM'', ''SRIMM'']"

definition memory_types :: "string list" where
  "memory_types = [''?'', ''Other'', ''Unknown'', ''DRAM'', ''EDRAM'', ''VRAM'', ''SRAM'', ''RAM'', ''ROM'', ''FLASH'', ''EEPROM'',
     ''FEPROM'', ''EPROM'', ''CDRAM'', ''3DRAM'', ''SDRAM'', ''SGRAM'', ''RDRAM'', ''DDR'', ''DDR2'']"

definition type_details :: "string list" where
  "type_details = [''Reserved'', ''Other'', ''Unknown'', ''Fast-paged'', ''Static Column'', ''Pseudo static'', ''RAMBUS'',
     ''Synchronous'', ''CMOS'', ''EDO'', ''Window DRAM'', ''Cache DRAM'', ''Non-volatile'', ''Res13'', ''Res14'', ''Res15'']"

definition LOOKUP :: "string list \<Rightarrow> nat \<Rightarrow> string" where
  "LOOKUP tab v = (if length tab \<le> v then ''<'' @ nat_str 10 v @ ''>'' else tab ! v)"

text \<open>\<^verbatim>\<open>dmi_dimm_size\<close>: bit 15 says that the size is in kilobytes.\<close>

definition dmi_dimm_size :: "nat \<Rightarrow> nat \<times> string" where
  "dmi_dimm_size sz =
     (let mbflag = \<not> bit sz 15; sz = sz mod 2 ^ 15
      in if mbflag \<and> 1024 \<le> sz then (sz div 1024, ''GB'') else (sz, if mbflag then ''MB'' else ''KB''))"

definition dump_type_details :: "nat \<Rightarrow> string" where
  "dump_type_details td = concat (map (\<lambda>i. if bit td i then type_details ! i @ '' '' else []) [0..<16])"

definition of_bytes :: "8 word list \<Rightarrow> string" where
  "of_bytes bs = map (\<lambda>b. char_of (unat b)) bs"

definition DUMPSTR :: "memory \<Rightarrow> nat \<Rightarrow> string \<Rightarrow> nat \<Rightarrow> string list res" where
  "DUMPSTR mem p n off =
     rbind (rd mem (p + off)) (\<lambda>x.
       if x = 0 then Inr []
       else rbind (dmi_getstring mem p x) (\<lambda>s. case s of
              None \<Rightarrow> Inr []
            | Some s \<Rightarrow> log_when (s \<noteq> [] \<and> of_bytes s \<noteq> ''None'') (n @ '': '' @ of_bytes s @ nl)))"

definition memdev_line :: "nat \<Rightarrow> nat \<Rightarrow> nat \<Rightarrow> nat \<Rightarrow> nat \<Rightarrow> nat \<Rightarrow> nat \<Rightarrow> string" where
  "memdev_line mtype form speed td tw dw sz =
     LOOKUP memory_types mtype @ '' '' @
     (if 3 \<le> form then LOOKUP form_factors form @ '' '' else []) @
     (if speed \<noteq> 0 then nat_str 10 speed @ '' Mhz '' else []) @
     dump_type_details td @
     ''Width '' @ nat_str 10 tw @ '' Data Width '' @ nat_str 10 dw @
     '' Size '' @ nat_str 10 (fst (dmi_dimm_size sz)) @ '' '' @ snd (dmi_dimm_size sz) @ nl"

definition dump_memdev :: "memory \<Rightarrow> nat \<Rightarrow> string list res" where
  "dump_memdev mem p =
     rbind (e_length mem p) (\<lambda>len.
       if len < 23 then Inr []
       else
         rbind (rd mem (p + 18)) (\<lambda>mtype. rbind (rd mem (p + 14)) (\<lambda>form. rbind (rd_le mem (p + 21) 2) (\<lambda>speed.
         rbind (rd_le mem (p + 19) 2) (\<lambda>td. rbind (rd_le mem (p + 8) 2) (\<lambda>tw. rbind (rd_le mem (p + 10) 2) (\<lambda>dw.
         rbind (rd_le mem (p + 12) 2) (\<lambda>sz.
           rconcat [log_line (memdev_line mtype form speed td tw dw sz),
             DUMPSTR mem p ''Device Locator'' 16, DUMPSTR mem p ''Bank Locator'' 17, DUMPSTR mem p ''Manufacturer'' 23,
             DUMPSTR mem p ''Serial Number'' 24, DUMPSTR mem p ''Asset Tag'' 25, DUMPSTR mem p ''Part Number'' 26]))))))))"

section \<open>Logging an event\<close>

definition err_head :: "log_env \<Rightarrow> fms_cpumem \<Rightarrow> string list res" where
  "err_head env fc = rconcat
     [rbind (bankname (unat (cm_bank fc)) (cm_cputype fc)) (\<lambda>b. log_line (''CPU '' @ dec (sint (cm_cpu fc)) @ '' '' @ b @ nl)),
      (if cm_tsc fc \<noteq> 0 then print_tsc env fc else Inr []),
      log_when (cm_ip fc \<noteq> 0) (''RIP'' @ (if bit (cm_mcgstatus fc) 1 then [] else '' !INEXACT!'') @ '' '' @
        pad0 2 (hex (unat (cm_cs fc))) @ '':'' @ hx64 (cm_ip fc) @ nl),
      log_when (bit (cm_status fc) 59) (''MISC: '' @ hx64 (cm_misc fc) @ nl),
      log_when (bit (cm_status fc) 58) (''ADDR: '' @ hx64 (cm_addr fc) @ nl),
      log_when (cm_time fc \<noteq> 0) (''TIME: '' @ l_ctime env (cm_time fc))]"

definition err_body :: "log_env \<Rightarrow> fms_cpumem \<Rightarrow> string list res" where
  "err_body env fc = rconcat
     [print_mcg (cm_mcgstatus fc),
      print_mci (cm_status fc) (ucast (cm_mcgcap fc)),
      Inr [line_indent, ''MCA: '', cm_desc fc, nl],
      log_line (''STATUS: '' @ hx64 (cm_status fc) @ nl),
      log_line (''MCGSTATUS: '' @ hx64 (cm_mcgstatus fc) @ nl),
      log_when (cm_mcgcap fc \<noteq> 0) (''MCGCAP: '' @ hx64 (cm_mcgcap fc) @ nl),
      log_when (cm_apicid fc \<noteq> 0) (''APICID: '' @ hex (unat (cm_apicid fc)) @ nl),
      log_when (cm_socketid fc \<noteq> 0) (''SOCKETID: '' @ hex (unat (cm_socketid fc)) @ nl),
      (let (fam, mdl) = parse_cpuid (cm_cpuid fc)
       in log_when (cm_cpuid fc \<noteq> 0) (''CPUID Vendor '' @ cpuvendor_name (unat (cm_cpuvendor fc)) @
            '' Family '' @ nat_str 10 fam @ '' Model '' @ nat_str 10 mdl @ nl)),
      (if cm_memdev fc \<noteq> 0 then (let (mem, p) = l_memdev env (cm_memdev fc) in dump_memdev mem p) else Inr [])]"

definition cpumem_err_printf :: "log_env \<Rightarrow> fms_cpumem option \<Rightarrow> string list res" where
  "cpumem_err_printf env data =
     (case data of
        None \<Rightarrow> Inr []
      | Some fc \<Rightarrow> rconcat [err_head env fc,
          if cm_bank fc = 128 then Inr [line_indent, cm_desc fc, nl] else err_body env fc])"

definition log_target :: "fmd_event \<Rightarrow> log_type \<times> string" where
  "log_target e =
     (if ev_event_type e = EVENT_FAULT then (FMD_LOG_FAULT, ''/var/log/fms/cpumem/fault'')
      else if ev_event_type e = EVENT_LIST then (FMD_LOG_LIST, ''/var/log/fms/cpumem/list'')
      else (FMD_LOG_ERROR, ''/var/log/fms/cpumem/serd''))"

definition event_line :: "string \<Rightarrow> string \<Rightarrow> string \<Rightarrow> 64 word \<Rightarrow> string" where
  "event_line tstr eclass dev_name dev_id =
     take 511 (tstr @ [CHR 0x09] @ eclass @ [CHR 0x09] @ dev_name @ '':'' @ [CHR 0x09] @ nat_str 10 (unat dev_id) @ nl)"

definition log_event :: "log_env \<Rightarrow> fmd_event \<Rightarrow> fms_cpumem option \<Rightarrow> log \<Rightarrow> (int \<times> log) res" where
  "log_event env e data log =
     rbind (fits 32 (ev_dev_name e)) (\<lambda>dev_name.
       let (type, dir) = log_target e
       in rbind (fmd_log_open env dir type) (\<lambda>f. case f of
            None \<Rightarrow> Inr (-1, log)
          | Some fd \<Rightarrow>
              rbind (fmd_get_time (l_localtime env) 26) (\<lambda>tstr.
                let (ret, log) = fmd_log_write env fd (event_line tstr (ev_class e) dev_name (ev_dev_id e)) log
                in if ret \<noteq> 0 then Inr (-1, log)
                   else if type = FMD_LOG_ERROR then
                     rbind (cpumem_err_printf env data) (\<lambda>ls. Inr (0, fold (\<lambda>s log. snd (fmd_log_write env fd s log)) ls log))
                   else Inr (0, log))))"

text \<open>What \<^verbatim>\<open>cpumem_handle_event\<close> logs: the event as it came, and after the handling as a list event.\<close>

definition handle_event_log :: "log_env \<Rightarrow> fmd_event \<Rightarrow> fms_cpumem option \<Rightarrow> log \<Rightarrow> log res" where
  "handle_event_log env e data log =
     rbind (log_event env e data log) (\<lambda>(_, log).
       if ev_flag e = AGENT_TODO
       then rbind (log_event env (e\<lparr>ev_event_type := EVENT_LIST\<rparr>) data log) (\<lambda>(_, log). Inr log)
       else Inr log)"

section \<open>The buffers are large enough\<close>

lemma hex_le:
  "length (hex (unat (x :: 64 word))) \<le> 16" "length (hex (unat (y :: 32 word))) \<le> 8" "length (hex (unat (z :: 8 word))) \<le> 2"
  using unsigned_less [of x, where ?'a = nat] unsigned_less [of y, where ?'a = nat] unsigned_less [of z, where ?'a = nat]
  by (simp_all add: hex_def nat_str_le [of _ 16 15] nat_str_le [of _ 16 7] nat_str_le [of _ 16 1])

lemma hx64_le: "length (hx64 w) \<le> 16"
  by (simp add: hx64_def hex_le)

lemma rconcat_ok: "(\<forall>x\<in>set xs. \<exists>a. x = Inr a) \<Longrightarrow> \<exists>a. rconcat xs = Inr a"
  by (induction xs) auto

lemma log_line_ok: "length s < 512 \<Longrightarrow> \<exists>a. log_line s = Inr a"
  by (simp add: log_line_def fits_def)

lemma log_when_ok: "(b \<Longrightarrow> length s < 512) \<Longrightarrow> \<exists>a. log_when b s = Inr a"
  by (simp add: log_when_def log_line_ok)

lemma nl_length [simp]: "length nl = 1"
  by (simp add: nl_def)

lemma sint32_bound: "- (10 ^ Suc 9) < sint (x :: 32 word)" "sint x < 10 ^ Suc 9"
  using sint_greater_eq [of x] sint_less [of x] by simp_all

lemma bankname_ok: "b < 256 \<Longrightarrow> \<exists>s. bankname b t = Inr s \<and> length s < 64"
  using nat_str_le [of b 16 1 2] dec_le [of "int b" 2 3]
  by (auto simp: bankname_def extended_bankname_def intel_bank_name_def fits_def hex_def)

lemma LOOKUP_le: "v < 256 \<Longrightarrow> list_all (\<lambda>s. length s \<le> 16) tab \<Longrightarrow> length (LOOKUP tab v) \<le> 16"
  using nat_str_le [of v 10 2 3] by (auto simp: LOOKUP_def list_all_length)

lemma type_details_le: "length (dump_type_details td) \<le> 160"
proof -
  have "length (dump_type_details td) \<le> sum_list (map (\<lambda>i. length (type_details ! i) + 1) [0..<16])"
    unfolding dump_type_details_def length_concat map_map by (intro sum_list_mono) simp
  also have "\<dots> \<le> 160" by code_simp
  finally show ?thesis .
qed

lemma dimm_size_le: "sz < 65536 \<Longrightarrow> length (nat_str 10 (fst (dmi_dimm_size sz))) \<le> 5 \<and> length (snd (dmi_dimm_size sz)) = 2"
proof -
  have "sz mod 2 ^ 15 < 10 ^ Suc 4" "sz mod 2 ^ 15 div 1024 < 10 ^ Suc 4"
    using mod_less_divisor [of "2 ^ 15" sz] div_le_dividend [of "sz mod 2 ^ 15" 1024] by simp_all
  then show ?thesis using nat_str_le [of _ 10 4 5] by (simp add: dmi_dimm_size_def Let_def)
qed

lemma memdev_line_le:
  assumes "mtype < 256" "form < 256" "speed < 65536" "tw < 65536" "dw < 65536" "sz < 65536"
  shows "length (memdev_line mtype form speed td tw dw sz) < 512"
proof -
  have "length (LOOKUP memory_types mtype) \<le> 16" "length (LOOKUP form_factors form) \<le> 16"
    using assms(1,2) by (auto intro!: LOOKUP_le simp: memory_types_def form_factors_def)
  moreover have "length (nat_str 10 speed) \<le> 5" "length (nat_str 10 tw) \<le> 5" "length (nat_str 10 dw) \<le> 5"
    using assms by (auto intro!: nat_str_le [where k = 4])
  ultimately show ?thesis
    using type_details_le [of td] dimm_size_le [OF assms(6)] by (simp add: memdev_line_def)
qed

text \<open>What the log needs of a memory device: its entry is mapped and its strings are short.\<close>

definition memdev_short :: "memory \<Rightarrow> nat \<Rightarrow> bool" where
  "memdev_short mem p \<longleftrightarrow>
     p + 27 \<le> length mem \<and>
     list_all (\<lambda>off. case dmi_getstring mem p (unat (mem ! (p + off))) of
         Inr (Some s) \<Rightarrow> length s < 490 | Inr None \<Rightarrow> True | Inl _ \<Rightarrow> False) [16, 17, 23, 24, 25, 26]"

definition tm_ok :: "tm \<Rightarrow> bool" where
  "tm_ok m \<longleftrightarrow> 0 \<le> tm_year m \<and> tm_year m < 8100 \<and> 0 \<le> tm_mon m \<and> tm_mon m < 12 \<and> 0 \<le> tm_mday m \<and> tm_mday m < 32 \<and>
     0 \<le> tm_hour m \<and> tm_hour m < 24 \<and> 0 \<le> tm_min m \<and> tm_min m < 60 \<and> 0 \<le> tm_sec m \<and> tm_sec m < 62"

definition data_short :: "log_env \<Rightarrow> fms_cpumem \<Rightarrow> bool" where
  "data_short env fc \<longleftrightarrow>
     length (l_ctime env (cm_time fc)) \<le> 25 \<and>
     (case l_tsc env fc of Some t \<Rightarrow> length t < 480 | None \<Rightarrow> True) \<and>
     (cm_memdev fc \<noteq> 0 \<longrightarrow> (let (mem, p) = l_memdev env (cm_memdev fc) in memdev_short mem p))"

lemma byte_ok: "i < length mem \<Longrightarrow> \<exists>v. rd mem i = Inr v \<and> v < 256"
  using rd_ok rd_lt by metis

lemma short_ok: "i + 1 < length mem \<Longrightarrow> \<exists>v. rd_le mem i 2 = Inr v \<and> v < 65536"
  using rd_le_ok [of i 2 mem] rd_le_lt [of mem i 2] by fastforce

lemma DUMPSTR_ok:
  assumes "memdev_short mem p" "off \<in> set [16, 17, 23, 24, 25, 26]" "length n \<le> 14"
  shows "\<exists>a. DUMPSTR mem p n off = Inr a"
proof -
  have "p + off < length mem" using assms(1,2) by (auto simp: memdev_short_def)
  then have "rd mem (p + off) = Inr (unat (mem ! (p + off)))" by (simp add: rd_def)
  moreover obtain s where "dmi_getstring mem p (unat (mem ! (p + off))) = Inr s" "\<forall>t. s = Some t \<longrightarrow> length t < 490"
    using assms(1,2) unfolding memdev_short_def list_all_iff by (fastforce split: sum.splits option.splits)
  ultimately show ?thesis using assms(3)
    by (cases s) (auto simp: DUMPSTR_def of_bytes_def intro!: log_when_ok)
qed

lemma dump_memdev_ok:
  assumes "memdev_short mem p"
  shows "\<exists>a. dump_memdev mem p = Inr a"
proof -
  have len: "p + 27 \<le> length mem" using assms by (simp add: memdev_short_def)
  obtain l mt ff where "e_length mem p = Inr l" and b: "rd mem (p + 18) = Inr mt" "mt < 256" "rd mem (p + 14) = Inr ff" "ff < 256"
    using byte_ok [of "p + 1" mem] byte_ok [of "p + 18" mem] byte_ok [of "p + 14" mem] len by (auto simp: e_length_def)
  moreover obtain sp td tw dw sz where w: "rd_le mem (p + 21) 2 = Inr sp" "sp < 65536" "rd_le mem (p + 19) 2 = Inr td"
      "rd_le mem (p + 8) 2 = Inr tw" "tw < 65536" "rd_le mem (p + 10) 2 = Inr dw" "dw < 65536"
      "rd_le mem (p + 12) 2 = Inr sz" "sz < 65536"
    using short_ok [of "p + 21" mem] short_ok [of "p + 19" mem] short_ok [of "p + 8" mem] short_ok [of "p + 10" mem]
      short_ok [of "p + 12" mem] len by auto
  moreover have "\<exists>a. log_line (memdev_line mt ff sp td tw dw sz) = Inr a"
    by (intro log_line_ok memdev_line_le) fact+
  moreover have "\<exists>a. rconcat [log_line (memdev_line mt ff sp td tw dw sz),
             DUMPSTR mem p ''Device Locator'' 16, DUMPSTR mem p ''Bank Locator'' 17, DUMPSTR mem p ''Manufacturer'' 23,
             DUMPSTR mem p ''Serial Number'' 24, DUMPSTR mem p ''Asset Tag'' 25, DUMPSTR mem p ''Part Number'' 26] = Inr a"
    using calculation DUMPSTR_ok [OF assms] by (intro rconcat_ok) simp
  ultimately show ?thesis by (simp add: dump_memdev_def del: rconcat.simps)
qed

lemma err_head_ok:
  assumes "data_short env fc"
  shows "\<exists>a. err_head env fc = Inr a"
proof -
  obtain b where b: "bankname (unat (cm_bank fc)) (cm_cputype fc) = Inr b" "length b < 64"
    using bankname_ok [of "unat (cm_bank fc)"] unsigned_less [of "cm_bank fc", where ?'a = nat] by auto
  have "length (dec (sint (cm_cpu fc))) \<le> 11" using dec_le_neg [OF sint32_bound] by simp
  moreover have "length (hex (unat (cm_cs fc))) \<le> 2" by (rule hex_le)
  ultimately show ?thesis
    using assms b hx64_le [of "cm_tsc fc"] hx64_le [of "cm_ip fc"] hx64_le [of "cm_misc fc"] hx64_le [of "cm_addr fc"]
    unfolding err_head_def
    by (intro rconcat_ok) (auto simp: print_tsc_def data_short_def pad0_length split: option.splits intro!: log_line_ok log_when_ok)
qed

lemma cpuvendor_name_le: "length (cpuvendor_name v) \<le> 14"
proof -
  have "list_all (\<lambda>s. length s \<le> 14) vendor" by code_simp
  then show ?thesis by (auto simp: cpuvendor_name_def list_all_length)
qed

lemma print_mci_ok: "\<exists>a. print_mci status mcgcap = Inr a"
proof -
  have "list_all (\<lambda>s. length s \<le> 4) arstate" "length arstate = 4" by code_simp+
  moreover have "unat (take_bit 2 (drop_bit 55 status)) < 4"
    using take_bit_nat_less_exp [of 2 "unat (drop_bit 55 status)"] by (simp add: unsigned_take_bit_eq)
  ultimately have "length (arstate ! unat (take_bit 2 (drop_bit 55 status))) \<le> 4" by (simp add: list_all_length)
  then show ?thesis unfolding print_mci_def by (intro rconcat_ok) (auto intro!: log_line_ok log_when_ok)
qed

lemma cpuid_len: "parse_cpuid c = (f, m) \<Longrightarrow> length (nat_str 10 f) \<le> 3 \<and> length (nat_str 10 m) \<le> 3"
proof -
  have b: "cpuid_bits c lo n < 2 ^ n" for lo n
    using take_bit_nat_less_exp [of n "unat (drop_bit lo c)"] by (simp add: cpuid_bits_def unsigned_take_bit_eq)
  assume "parse_cpuid c = (f, m)"
  then have "f < 1000" "m < 1000"
    using b [of 8 4] b [of 20 8] b [of 4 4] b [of 16 4] by (auto simp: parse_cpuid_def Let_def split: if_splits)
  then show ?thesis by (simp add: nat_str_le [of _ 10 2])
qed

lemma err_body_ok:
  assumes "data_short env fc"
  shows "\<exists>a. err_body env fc = Inr a"
proof -
  obtain f m where c: "parse_cpuid (cm_cpuid fc) = (f, m)" by fastforce
  have "\<exists>a. print_mcg (cm_mcgstatus fc) = Inr a" by (simp add: print_mcg_def log_line_ok)
  moreover have "\<exists>a. (if cm_memdev fc \<noteq> 0 then (let (mem, p) = l_memdev env (cm_memdev fc) in dump_memdev mem p) else Inr []) = Inr a"
    using assms dump_memdev_ok by (auto simp: data_short_def split: prod.splits)
  ultimately show ?thesis
    using hx64_le [of "cm_status fc"] hx64_le [of "cm_mcgstatus fc"] hx64_le [of "cm_mcgcap fc"]
      hex_le(2) [of "cm_apicid fc"] hex_le(2) [of "cm_socketid fc"] cpuid_len [OF c] print_mci_ok
      cpuvendor_name_le [of "unat (cm_cpuvendor fc)"]
    unfolding err_body_def
    by (intro rconcat_ok) (auto simp: c intro!: log_line_ok log_when_ok)
qed

lemma cpumem_err_printf_ok:
  "(\<forall>fc. data = Some fc \<longrightarrow> data_short env fc) \<Longrightarrow> \<exists>a. cpumem_err_printf env data = Inr a"
  using err_head_ok err_body_ok by (cases data) (fastforce simp: cpumem_err_printf_def)+

lemma fmd_get_time_ok: "tm_ok m \<Longrightarrow> \<exists>s. fmd_get_time m 26 = Inr s"
  using dec_le [of "tm_year m + 1900" 3 4] dec_le [of "tm_mon m + 1" 1 2] dec_le [of "tm_mday m" 1 2]
    dec_le [of "tm_hour m" 1 2] dec_le [of "tm_min m" 1 2] dec_le [of "tm_sec m" 1 2]
  by (auto simp: fmd_get_time_def fits_def tm_ok_def pad0_length max_def)

lemma get_logname_ok: "tm_ok m \<Longrightarrow> \<exists>s. get_logname m ty = Inr s"
  using dec_le [of "tm_year m + 1900" 3 4] dec_le [of "tm_mon m + 1" 1 2] dec_le [of "tm_mday m" 1 2]
  by (auto simp: get_logname_def fits_def tm_ok_def pad0_length max_def)

definition log_file :: "log_env \<Rightarrow> fmd_event \<Rightarrow> string \<Rightarrow> bool" where
  "log_file env e f \<longleftrightarrow> fmd_log_open env (snd (log_target e)) (fst (log_target e)) = Inr (Some f)"

lemma fold_log_write:
  "\<exists>l. fold (\<lambda>s log. snd (fmd_log_write env fd s log)) ls log = log @ l \<and> (\<forall>x\<in>set l. fst x = fd)"
proof (induction ls arbitrary: log)
  case (Cons s ls)
  obtain l1 where l1: "snd (fmd_log_write env fd s log) = log @ l1" "\<forall>x\<in>set l1. fst x = fd"
    by (cases "l_write env fd s = 0") (auto simp: fmd_log_write_def Let_def)
  obtain l2 where "fold (\<lambda>s log. snd (fmd_log_write env fd s log)) ls (log @ l1) = (log @ l1) @ l2" "\<forall>x\<in>set l2. fst x = fd"
    using Cons.IH [of "log @ l1"] by blast
  with l1 show ?case by (intro exI [of _ "l1 @ l2"]) auto
qed simp

lemma log_event_ok:
  assumes "length (ev_dev_name e) < 32" "tm_ok (l_localtime env)" "tm_ok (l_gmtime env)"
    and "\<forall>fc. data = Some fc \<longrightarrow> data_short env fc"
  shows "\<exists>r l. log_event env e data log = Inr (r, log @ l) \<and> (\<forall>x\<in>set l. log_file env e (fst x)) \<and>
    (r = 0 \<longrightarrow> (\<exists>f n tstr. fmd_get_time (l_localtime env) 26 = Inr tstr \<and> 0 < n \<and> l \<noteq> [] \<and>
       hd l = (f, take n (event_line tstr (ev_class e) (ev_dev_name e) (ev_dev_id e)))))"
proof -
  obtain ty dir where t: "log_target e = (ty, dir)" by fastforce
  obtain op where op: "fmd_log_open env dir ty = Inr op"
    using get_logname_ok [OF assms(3), of ty] by (cases "l_opendir env dir") (auto simp: fmd_log_open_def Let_def)
  obtain tstr where tm: "fmd_get_time (l_localtime env) 26 = Inr tstr" using fmd_get_time_ok [OF assms(2)] by auto
  obtain ls where ls: "cpumem_err_printf env data = Inr ls" using cpumem_err_printf_ok [OF assms(4)] by auto
  show ?thesis
  proof (cases op)
    case None
    then show ?thesis using t op assms(1) by (simp add: log_event_def fits_def log_file_def)
  next
    case (Some f)
    let ?buf = "event_line tstr (ev_class e) (ev_dev_name e) (ev_dev_id e)"
    obtain l where l: "fold (\<lambda>s log. snd (fmd_log_write env f s log)) ls (log @ [(f, take (l_write env f ?buf) ?buf)]) =
        (log @ [(f, take (l_write env f ?buf) ?buf)]) @ l" "\<forall>x\<in>set l. fst x = f"
      using fold_log_write [of env f ls "log @ [(f, take (l_write env f ?buf) ?buf)]"] by blast
    show ?thesis
    proof (cases "l_write env f ?buf = 0")
      case True
      then show ?thesis using t op Some tm assms(1)
        by (simp add: log_event_def fits_def log_file_def fmd_log_write_def)
    next
      case False
      then show ?thesis using t op Some tm assms(1) l ls
        by (auto simp: log_event_def fits_def log_file_def fmd_log_write_def)
    qed
  qed
qed


definition demo_log :: log_env where
  "demo_log = \<lparr>l_localtime = \<lparr>tm_year = 115, tm_mon = 7, tm_mday = 4, tm_hour = 9, tm_min = 5, tm_sec = 0\<rparr>,
     l_gmtime = \<lparr>tm_year = 115, tm_mon = 7, tm_mday = 4, tm_hour = 1, tm_min = 5, tm_sec = 0\<rparr>,
     l_ctime = \<lambda>_. ''Tue Aug  4 09:05:00 2015'' @ nl, l_tsc = \<lambda>_. None, l_memdev = \<lambda>_. ([], 0),
     l_opendir = \<lambda>_. True, l_open = \<lambda>_. True, l_write = \<lambda>_ s. length s\<rparr>"


end
