(* ===== verification/Fms_Disk.thy ===== *)
theory Fms_Disk
  imports Fms_CpuLog Fms_Queue
begin

text \<open>
  The disk plug-ins: the event source \<^verbatim>\<open>evt_modules/evtsrc/disk\<close>, which runs commands and reads their output,
  and the agent \<^verbatim>\<open>evt_modules/evtagent/disk\<close>, which throttles the reads of a disk that is too hot and logs.

  The shell is a parameter: what \<^verbatim>\<open>popen\<close> of a command delivers, \<open>None\<close> when it cannot be run.
\<close>

type_synonym shell = "string \<Rightarrow> string option"

section \<open>Commands\<close>

definition quoted :: "string \<Rightarrow> string" where
  "quoted s = CHR 0x27 # s @ [CHR 0x27]"

definition smartworkcmd :: "string \<Rightarrow> string" where
  "smartworkcmd path = ''disktool -i '' @ path @ '' | grep '' @ quoted ''SMART support is'' @ '' | cut -f 2 -d '' @ quoted '':'' @
     '' 1>/dev/null 2>/dev/null''"

definition smartsupportcmd :: "string \<Rightarrow> string" where
  "smartsupportcmd path = ''disktool -i '' @ path @ '' | grep '' @ quoted ''Device supports SMART and is Enabled'' @
     '' 1>/dev/null 2>/dev/null''"

definition smartoncmd :: "string \<Rightarrow> string" where
  "smartoncmd path = ''disktool -s on '' @ path @ '' 1>/dev/null 2>/dev/null''"

definition smarttempcmd :: "string \<Rightarrow> string" where
  "smarttempcmd path = ''disktool -A '' @ path @ '' | grep '' @ quoted ''Current Drive Temperature'' @ '' | cut -f 2 -d '' @
     quoted '':'' @ ''| cut -f 1 -d '' @ quoted ''C'' @ '' 2>/dev/null''"

definition smarthealthycmd :: "string \<Rightarrow> string" where
  "smarthealthycmd path = ''disktool -H '' @ path"

definition smartokcmd :: "string \<Rightarrow> string" where
  "smartokcmd path = ''disktool -H '' @ path @ '' | grep '' @ quoted ''Health Status'' @ '' | cut -f 2 -d '' @ quoted '':'' @
     '' 1>/dev/null 2>/dev/null''"

definition badblockscmd :: "string \<Rightarrow> string" where
  "badblockscmd path = ''badblocks '' @ path @ '' -o /tmp/badblockinfo.txt 4096 2048 1>/dev/null 2>/dev/null''"

definition badblockstxt :: string where
  "badblockstxt = ''touch /tmp/badblockinfo.txt 1>/dev/null 2>/dev/null''"

definition getsectorscmd :: "string \<Rightarrow> string" where
  "getsectorscmd path = ''fdisk -l | grep '' @ path @ '' |grep '' @ quoted ''Disk'' @ ''| awk '' @ quoted ''{print$7}'' @
     '' 1>/dev/null 2>/dev/null''"

definition df_cmd :: string where
  "df_cmd = ''df -h|awk '' @ quoted ''{print $1}'' @ ''|grep '' @ quoted ''/dev''"

definition boot_cmd :: string where
  "boot_cmd = ''df -h| grep '' @ quoted ''/boot'' @ ''|awk '' @ quoted ''{print $1}''"

definition space_cmd :: "string \<Rightarrow> string" where
  "space_cmd full_path = ''df -h|grep '' @ full_path @ '' |awk '' @ quoted ''{print $5}''"

section \<open>Checks\<close>

definition LINE_MAX :: nat where "LINE_MAX = 2048"
definition TEMPERATURE_LIMIT :: int where "TEMPERATURE_LIMIT = 70"

text \<open>The first line of an output in a zeroed buffer of \<open>n\<close> bytes.\<close>

definition first_line :: "nat \<Rightarrow> string \<Rightarrow> string" where
  "first_line n out = (case fgets_lines n out of [] \<Rightarrow> [] | l # _ \<Rightarrow> l)"

text \<open>
  \<^verbatim>\<open>strncpy(num, buff, strlen(buff)-2)\<close>: with fewer than two characters the length wraps around, and the
  padding with zeros runs over the buffer.
\<close>

definition disk_space_check :: "shell \<Rightarrow> string \<Rightarrow> int res" where
  "disk_space_check sh full_path =
     rbind (fits 64 (space_cmd full_path)) (\<lambda>cmd. case sh cmd of
         None \<Rightarrow> Inr 0
       | Some out \<Rightarrow>
           let buff = first_line 8 out
           in if length buff < 2 then Inl Buf_overflow
              else Inr (if atoi (take (length buff - 2) buff) > 90 then 1 else 0))"

definition disk_unhealthy_check :: "shell \<Rightarrow> string \<Rightarrow> int res" where
  "disk_unhealthy_check sh path =
     (if length path > 10 then Inr 0
      else rbind (fits 128 (smarthealthycmd path)) (\<lambda>cmd. case sh cmd of
          None \<Rightarrow> Inr 0
        | Some out \<Rightarrow>
            Inr (if list_ex (\<lambda>buff. strstr buff ''OK'' \<noteq> None \<or> strstr buff ''Unable'' \<noteq> None \<or> strstr buff ''PASSED'' \<noteq> None)
                      (fgets_lines LINE_MAX out) then 0 else 1)))"

definition disk_temperature_check :: "shell \<Rightarrow> string \<Rightarrow> int res" where
  "disk_temperature_check sh path =
     (if length path > 10 then Inr 0
      else rbind (fits 128 (smarttempcmd path)) (\<lambda>cmd. case sh cmd of
          None \<Rightarrow> Inr 0
        | Some out \<Rightarrow> Inr (if list_ex (\<lambda>buff. atoi buff > TEMPERATURE_LIMIT) (fgets_lines LINE_MAX out) then 1 else 0)))"

text \<open>
  \<^verbatim>\<open>disk_badblocks_check\<close>, which the source does not call: \<open>before\<close> and \<open>after\<close> say whether the file of bad blocks can
  be opened before and after the search. The integer quotient is compared with 0.1, so the rate is seen
  only when there are at least as many bad blocks as sectors. \<^verbatim>\<open>int\<close> division truncates.
\<close>

definition bad_rate :: "int \<Rightarrow> int \<Rightarrow> bool" where
  "bad_rate n m \<longleftrightarrow> m \<noteq> 0 \<and> 0 < sgn n * sgn m * (\<bar>n\<bar> div \<bar>m\<bar>)"

definition disk_badblocks_check :: "shell \<Rightarrow> bool \<Rightarrow> bool \<Rightarrow> string \<Rightarrow> int res" where
  "disk_badblocks_check sh before after path =
     (if \<not> before \<and> sh badblockstxt = None then Inr 0
      else rbind (fits 4096 (badblockscmd path)) (\<lambda>cmd.
        if sh cmd = None \<or> \<not> after then Inr 0
        else rbind (fits 4096 (getsectorscmd path)) (\<lambda>cmdsectors.
          case (sh (''sed -n '' @ quoted ''$='' @ '' /tmp/badblockinfo.txt''), sh cmdsectors) of
            (Some linenum, Some sectorsnum) \<Rightarrow>
              (case fgets_lines LINE_MAX linenum of
                 [] \<Rightarrow> Inr 0
               | resultline # _ \<Rightarrow>
                   let bad = (case fgets_lines LINE_MAX sectorsnum of
                          [] \<Rightarrow> False | resultsectors # _ \<Rightarrow> bad_rate (atoi resultline) (atoi resultsectors))
                   in Inr (if bad \<or> atoi resultline > 10 then 1 else 0))
          | _ \<Rightarrow> Inr 0)))"

section \<open>The probe\<close>

text \<open>
  The items are linked at the head of the list. Each gets a copy of a constant text as private data, at the
  fresh address \<open>nxt\<close>.
\<close>

type_synonym posts = "nvlist list \<times> addr"

definition disk_fm_event_post :: "posts \<Rightarrow> 64 word \<Rightarrow> string \<Rightarrow> string \<Rightarrow> posts res" where
  "disk_fm_event_post st evt_id cls path =
     (let (head, nxt) = st
      in rbind (fits 32 path) (\<lambda>name. rbind (fits 128 cls) (\<lambda>value.
           Inr (nvlist_add_nvlist head (nvlist_alloc\<lparr>nv_evt_id := evt_id, nv_name := name, nv_value := value, nv_data := nxt\<rparr>),
                nxt + 1))))"

definition post_when :: "bool \<Rightarrow> posts \<Rightarrow> 64 word \<Rightarrow> string \<Rightarrow> string \<Rightarrow> posts res" where
  "post_when b st evt_id cls path = (if b then disk_fm_event_post st evt_id cls path else Inr st)"

text \<open>
  The partition number is cut with \<^verbatim>\<open>atoi(&n)\<close> on a single character that no terminator follows: \<open>junk\<close> is
  what stands behind it in memory.
\<close>

definition strip_partition :: "(string \<Rightarrow> string) \<Rightarrow> string \<Rightarrow> string res" where
  "strip_partition junk fullpath =
     (if fullpath = [] then Inl Oob_access
      else let nn = atoi (last fullpath # junk fullpath)
           in Inr (if 1 \<le> nn \<and> nn \<le> 9 then butlast fullpath else fullpath))"

definition disk_line :: "shell \<Rightarrow> (string \<Rightarrow> string) \<Rightarrow> string \<Rightarrow> string \<Rightarrow> posts \<Rightarrow> posts res" where
  "disk_line sh junk bootdev buff st =
     rbind (fits 64 (butlast buff)) (\<lambda>fullpath.
     rbind (disk_space_check sh fullpath) (\<lambda>full.
     rbind (post_when (full = 1 \<and> fullpath \<noteq> bootdev) st 1 ''ereport.disk.space-insufficient'' fullpath) (\<lambda>st.
     rbind (strip_partition junk fullpath) (\<lambda>fullpath.
     rbind (disk_unhealthy_check sh fullpath) (\<lambda>sick.
     rbind (post_when (sick \<noteq> 0) st 2 ''ereport.disk.unhealthy'' fullpath) (\<lambda>st.
     rbind (disk_temperature_check sh fullpath) (\<lambda>hot.
       post_when (hot \<noteq> 0) st 3 ''ereport.disk.over-temperature'' fullpath)))))))"

fun disk_lines :: "shell \<Rightarrow> (string \<Rightarrow> string) \<Rightarrow> string \<Rightarrow> string list \<Rightarrow> posts \<Rightarrow> posts res" where
  "disk_lines sh junk bootdev [] st = Inr st"
| "disk_lines sh junk bootdev (buff # ls) st = rbind (disk_line sh junk bootdev buff st) (disk_lines sh junk bootdev ls)"

definition disk_probe :: "shell \<Rightarrow> (string \<Rightarrow> string) \<Rightarrow> addr \<Rightarrow> (nvlist list option \<times> addr) res" where
  "disk_probe sh junk nxt =
     (case sh df_cmd of
        None \<Rightarrow> Inr (None, nxt)
      | Some out \<Rightarrow> (case sh boot_cmd of
            None \<Rightarrow> Inr (None, nxt)
          | Some out1 \<Rightarrow>
              rbind (fits 64 (butlast (first_line LINE_MAX out1))) (\<lambda>bootdev.
              rbind (disk_lines sh junk bootdev (fgets_lines LINE_MAX out) ([], nxt)) (\<lambda>(head, nxt). Inr (Some head, nxt)))))"

section \<open>The agent\<close>

text \<open>
  What the agent writes: files that can be opened for writing, and the text that goes there. The test of
  \<^verbatim>\<open>fgets\<close> in \<^verbatim>\<open>getmasternum\<close> and \<^verbatim>\<open>getslavenum\<close> ends in a semicolon: without output the length is -1.
\<close>

definition getnum :: "shell \<Rightarrow> string \<Rightarrow> string res" where
  "getnum sh cmd0 =
     rbind (fits 64 cmd0) (\<lambda>cmd. case sh cmd of
         None \<Rightarrow> Inr []
       | Some out \<Rightarrow> let buff = first_line 8 out in if buff = [] then Inl Buf_overflow else Inr (butlast buff))"

definition master_cmd :: "string \<Rightarrow> string" where
  "master_cmd path = ''ls -l '' @ path @ '' |awk '' @ quoted ''{print $5}'' @ '' | cut -f 1 -d '' @ quoted '',''"

definition slave_cmd :: "string \<Rightarrow> string" where
  "slave_cmd path = ''ls -l '' @ path @ '' |awk '' @ quoted ''{print $6}''"

definition getmasternum :: "shell \<Rightarrow> string \<Rightarrow> string res" where
  "getmasternum sh path = getnum sh (master_cmd path)"

definition getslavenum :: "shell \<Rightarrow> string \<Rightarrow> string res" where
  "getslavenum sh path = getnum sh (slave_cmd path)"

definition proc_cmd :: "string \<Rightarrow> string" where
  "proc_cmd path = ''ps -aux | grep '' @ quoted (''dd if='' @ path @ '' of=/dev/null'') @ '' | awk '' @ quoted ''{print $2}''"

definition TASKS :: string where "TASKS = ''/sys/fs/cgroup/blkio/tasks''"

definition getprocid :: "shell \<Rightarrow> (string \<Rightarrow> bool) \<Rightarrow> string \<Rightarrow> (int \<times> (string \<times> string) list) res" where
  "getprocid sh opens path =
     rbind (fits 64 (proc_cmd path)) (\<lambda>cmd. case sh cmd of
         None \<Rightarrow> Inr (0, [])
       | Some out \<Rightarrow> if \<not> opens TASKS then Inr (-1, []) else Inr (0, map (\<lambda>buff. (TASKS, buff)) (fgets_lines 8 out)))"

definition throttle_read_disk :: "shell \<Rightarrow> (string \<Rightarrow> bool) \<Rightarrow> string \<Rightarrow> string \<Rightarrow> (int \<times> (string \<times> string) list) res" where
  "throttle_read_disk sh opens file dev_name =
     (if \<not> opens file then Inr (-1, [])
      else rbind (getmasternum sh dev_name) (\<lambda>masternum.
           rbind (getslavenum sh dev_name) (\<lambda>slavenum.
           rbind (fits 64 (masternum @ '':'' @ slavenum @ '' 204800'')) (\<lambda>buf. Inr (0, [(file, buf)])))))"

definition THROTTLE :: string where "THROTTLE = ''/sys/fs/cgroup/blkio/blkio.throttle.read_bps_device''"

definition handle_disk_fault_event :: "shell \<Rightarrow> (string \<Rightarrow> bool) \<Rightarrow> fmd_event \<Rightarrow> (int \<times> (string \<times> string) list) res" where
  "handle_disk_fault_event sh opens e =
     (if strstr (ev_class e) ''over-temperature'' \<noteq> None then
        rbind (fits 64 THROTTLE) (\<lambda>buf.
        rbind (throttle_read_disk sh opens buf (ev_dev_name e)) (\<lambda>(ret, w).
          if ret \<noteq> 0 then Inr (LIST_REPAIRED_FAILED, w)
          else rbind (getprocid sh opens (ev_dev_name e)) (\<lambda>(ret, w').
            Inr (if ret = 0 then LIST_REPAIRED_SUCCESS else LIST_REPAIRED_FAILED, w @ w'))))
      else if strstr (ev_class e) ''space-insufficient'' \<noteq> None then Inr (LIST_REPAIRED_SUCCESS, [])
      else if strstr (ev_class e) ''unhealthy'' \<noteq> None then Inr (LIST_REPAIRED_SUCCESS, [])
      else Inr (LIST_REPAIRED_FAILED, []))"

definition disk_log_target :: "fmd_event \<Rightarrow> log_type \<times> string" where
  "disk_log_target e =
     (if ev_event_type e = EVENT_LIST then (FMD_LOG_LIST, ''/var/log/fms/disk/list'')
      else if ev_event_type e = EVENT_FAULT then (FMD_LOG_FAULT, ''/var/log/fms/disk/fault'')
      else (FMD_LOG_ERROR, ''/var/log/fms/disk/serd''))"

definition disk_log_event :: "log_env \<Rightarrow> fmd_event \<Rightarrow> log \<Rightarrow> (int \<times> log) res" where
  "disk_log_event env e log =
     rbind (fits 32 (ev_dev_name e)) (\<lambda>dev_name.
       let (type, dir) = disk_log_target e
       in rbind (fmd_log_open env dir type) (\<lambda>f. case f of
            None \<Rightarrow> Inr (-1, log)
          | Some fd \<Rightarrow>
              rbind (fmd_get_time (l_localtime env) 26) (\<lambda>tstr.
                let buf = take 127 (tstr @ [CHR 0x09] @ ev_class e @ [CHR 0x09] @ dev_name @ nl);
                    (ret, log) = fmd_log_write env fd buf log
                in Inr (if ret \<noteq> 0 then -1 else 0, log))))"

text \<open>\<^verbatim>\<open>action\<close> starts as 1 and is never reset: a list event is created for every event, also for those only logged.\<close>

definition disk_handle_event ::
  "shell \<Rightarrow> (string \<Rightarrow> bool) \<Rightarrow> log_env \<Rightarrow> fmd_event \<Rightarrow> log \<Rightarrow> (int option \<times> fmd_event \<times> (string \<times> string) list \<times> log) res" where
  "disk_handle_event sh opens env event log =
     rbind (disk_log_event env event log) (\<lambda>(_, log).
       if ev_flag event = AGENT_TODO then
         rbind (handle_disk_fault_event sh opens event) (\<lambda>(ret, w).
           let event = event\<lparr>ev_event_type := EVENT_LIST\<rparr>
           in rbind (disk_log_event env event log) (\<lambda>(_, log). Inr (Some ret, event, w, log)))
       else Inr (Some 0, event, [], log))"

section \<open>What the probe reports\<close>

definition item_of :: "nvlist \<Rightarrow> string \<times> string \<times> 64 word" where
  "item_of x = (nv_name x, nv_value x, nv_evt_id x)"

definition base_disk :: "string \<Rightarrow> string" where
  "base_disk p = (if isdigit (last p) \<and> last p \<noteq> CHR ''0'' then butlast p else p)"

definition sick :: "shell \<Rightarrow> string \<Rightarrow> bool" where
  "sick sh q \<longleftrightarrow> length q \<le> 10 \<and> (case sh (smarthealthycmd q) of
     None \<Rightarrow> False
   | Some out \<Rightarrow> \<not> list_ex (\<lambda>l. strstr l ''OK'' \<noteq> None \<or> strstr l ''Unable'' \<noteq> None \<or> strstr l ''PASSED'' \<noteq> None) (fgets_lines LINE_MAX out))"

definition hot :: "shell \<Rightarrow> string \<Rightarrow> bool" where
  "hot sh q \<longleftrightarrow> length q \<le> 10 \<and> (case sh (smarttempcmd q) of
     None \<Rightarrow> False | Some out \<Rightarrow> list_ex (\<lambda>l. atoi l > 70) (fgets_lines LINE_MAX out))"

definition disk_items :: "shell \<Rightarrow> (string \<Rightarrow> nat) \<Rightarrow> string \<Rightarrow> string \<Rightarrow> (string \<times> string \<times> 64 word) list" where
  "disk_items sh usage boot p =
     (if 90 < usage p \<and> p \<noteq> boot then [(p, ''ereport.disk.space-insufficient'', 1)] else []) @
     (if sick sh (base_disk p) then [(base_disk p, ''ereport.disk.unhealthy'', 2)] else []) @
     (if hot sh (base_disk p) then [(base_disk p, ''ereport.disk.over-temperature'', 3)] else [])"

text \<open>
  A device as \<^verbatim>\<open>df\<close> lists it: a name that fits, its usage as a percentage, and a terminator behind the
  character the probe converts.
\<close>

definition dev_ok :: "shell \<Rightarrow> (string \<Rightarrow> string) \<Rightarrow> (string \<Rightarrow> nat) \<Rightarrow> string \<Rightarrow> bool" where
  "dev_ok sh junk usage p \<longleftrightarrow> p \<noteq> [] \<and> length p < 32 \<and> CHR 0x0A \<notin> set p \<and>
     usage p \<le> 100 \<and> sh (space_cmd p) = Some (nat_str 10 (usage p) @ ''%'' @ nl) \<and>
     (case junk p of [] \<Rightarrow> True | c # _ \<Rightarrow> c = CHR 0x00)"

lemma space_cmd_length: "length (space_cmd p) = 29 + length p"
  by (simp add: space_cmd_def quoted_def)

lemma disk_space_check_ok:
  assumes "dev_ok sh junk usage p"
  shows "disk_space_check sh p = Inr (if 90 < usage p then 1 else 0)"
proof -
  let ?n = "nat_str 10 (usage p)"
  have n: "length ?n \<le> 3" "usage p < 2 ^ 31" using assms nat_str_le [of "usage p" 10 2 3] by (simp_all add: dev_ok_def)
  have "CHR 0x0A \<notin> set ?n" using nat_str_digits by (fastforce simp: isdigit_def)
  then have "is_line 8 (?n @ ''%'' @ nl)" using n(1) by (simp add: is_line_def nl_def butlast_append)
  from fgets_lines_Cons [OF this, of "[]"] have "first_line 8 (?n @ ''%'' @ nl) = ?n @ ''%'' @ nl"
    by (simp add: first_line_def)
  moreover have "atoi ?n = int (usage p)" using atoi_dec [OF n(2), of "[]"] by simp
  ultimately show ?thesis
    using assms by (simp add: disk_space_check_def fits_def space_cmd_length dev_ok_def)
qed

lemma atoi_char:
  assumes "j = [] \<or> hd j = CHR 0x00"
  shows "atoi (c # j) = (if isdigit c then digit_val c else 0)"
proof (cases "isdigit c")
  case True
  then have "48 \<le> (of_char c :: nat)" "(of_char c :: nat) \<le> 57" by (simp_all add: isdigit_def)
  moreover define d where "d = (of_char c :: nat) - 48"
  ultimately have d: "d < 10" "of_char c = 48 + d" by simp_all
  have "c = char_of (of_char c :: nat)" by (simp only: char_of_char)
  with d have "c = digit_char d" by (simp add: digit_char_def)
  then have "nat_str 10 d = [c]" using d(1) by (subst nat_str.simps) simp
  then show ?thesis using atoi_dec [of d j] assms d True by (auto simp: digit_val_def isdigit_def)
next
  case False
  have z: "\<not> isdigit CHR 0x00" "\<not> isspace CHR 0x00" by (simp_all add: isdigit_def isspace_def)
  have "digits_val 0 j = 0" using assms z by (cases j) auto
  moreover have "strtol10 j = 0" "dropWhile isspace j = j" using assms z by (cases j; simp add: clamp64_def)+
  ultimately have "strtol10 (dropWhile isspace (c # j)) = 0"
    using False by (auto simp: clamp64_def)
  then show ?thesis using False by (simp add: atoi_def to_int32_def)
qed

lemma strip_partition_ok:
  assumes "dev_ok sh junk usage p"
  shows "strip_partition junk p = Inr (base_disk p)" "length (base_disk p) < 32"
proof -
  have j: "junk p = [] \<or> hd (junk p) = CHR 0x00" and p: "p \<noteq> []" "length p < 32"
    using assms by (auto simp: dev_ok_def split: list.splits)
  have "1 \<le> digit_val c \<and> digit_val c \<le> 9 \<longleftrightarrow> c \<noteq> CHR ''0''" if "isdigit c" for c
  proof -
    have "(of_char CHR ''0'' :: nat) = 48" by simp
    then have "(of_char c :: nat) = 48 \<longleftrightarrow> c = CHR ''0''" using of_char_eq_iff [of c "CHR ''0''", where ?'a = nat] by simp
    then show ?thesis using that by (auto simp: digit_val_def isdigit_def)
  qed
  then show "strip_partition junk p = Inr (base_disk p)"
    using p by (auto simp: strip_partition_def base_disk_def atoi_char [OF j])
  show "length (base_disk p) < 32" using p by (auto simp: base_disk_def)
qed

lemma smart_checks_ok:
  "disk_unhealthy_check sh q = Inr (if sick sh q then 1 else 0)"
  "disk_temperature_check sh q = Inr (if hot sh q then 1 else 0)"
  by (auto simp: disk_unhealthy_check_def sick_def disk_temperature_check_def hot_def fits_def smarthealthycmd_def
      smarttempcmd_def quoted_def TEMPERATURE_LIMIT_def split: option.splits)

lemma post_when_ok:
  "length path < 32 \<Longrightarrow> length c < 128 \<Longrightarrow>
   \<exists>st'. post_when b st i c path = Inr st' \<and> map item_of (fst st') = (if b then [(path, c, i)] else []) @ map item_of (fst st)"
  by (cases st) (simp add: post_when_def disk_fm_event_post_def fits_def nvlist_add_nvlist_def item_of_def)

lemma disk_line_ok:
  assumes "dev_ok sh junk usage p"
  shows "\<exists>st'. disk_line sh junk boot (p @ nl) st = Inr st' \<and>
    map item_of (fst st') = rev (disk_items sh usage boot p) @ map item_of (fst st)"
proof -
  have p: "length p < 32" "p \<noteq> []" using assms by (simp_all add: dev_ok_def)
  let ?q = "base_disk p"
  obtain s1 where s1: "post_when (90 < usage p \<and> p \<noteq> boot) st 1 ''ereport.disk.space-insufficient'' p = Inr s1"
    "map item_of (fst s1) = (if 90 < usage p \<and> p \<noteq> boot then [(p, ''ereport.disk.space-insufficient'', 1)] else []) @ map item_of (fst st)"
    using post_when_ok [OF p(1), of "''ereport.disk.space-insufficient''"] by fastforce
  obtain s2 where s2: "post_when (sick sh ?q) s1 2 ''ereport.disk.unhealthy'' ?q = Inr s2"
    "map item_of (fst s2) = (if sick sh ?q then [(?q, ''ereport.disk.unhealthy'', 2)] else []) @ map item_of (fst s1)"
    using post_when_ok [OF strip_partition_ok(2) [OF assms], of "''ereport.disk.unhealthy''"] by fastforce
  obtain s3 where s3: "post_when (hot sh ?q) s2 3 ''ereport.disk.over-temperature'' ?q = Inr s3"
    "map item_of (fst s3) = (if hot sh ?q then [(?q, ''ereport.disk.over-temperature'', 3)] else []) @ map item_of (fst s2)"
    using post_when_ok [OF strip_partition_ok(2) [OF assms], of "''ereport.disk.over-temperature''"] by fastforce
  have if10: "(if b then 1 else 0 :: int) = 1 \<longleftrightarrow> b" "(if b then 1 else 0 :: int) \<noteq> 0 \<longleftrightarrow> b" for b by auto
  have "disk_line sh junk boot (p @ nl) st = Inr s3"
    using p s1(1) s2(1) s3(1) unfolding disk_line_def
    by (simp add: fits_def nl_def butlast_append disk_space_check_ok [OF assms] strip_partition_ok(1) [OF assms]
        smart_checks_ok if10)
  then show ?thesis using s1(2) s2(2) s3(2) by (simp add: disk_items_def)
qed

lemma disk_lines_ok:
  "list_all (dev_ok sh junk usage) ps \<Longrightarrow>
   \<exists>st'. disk_lines sh junk boot (map (\<lambda>p. p @ nl) ps) st = Inr st' \<and>
     map item_of (fst st') = rev (concat (map (disk_items sh usage boot) ps)) @ map item_of (fst st)"
proof (induction ps arbitrary: st)
  case (Cons p ps)
  obtain s1 where s1: "disk_line sh junk boot (p @ nl) st = Inr s1"
    "map item_of (fst s1) = rev (disk_items sh usage boot p) @ map item_of (fst st)"
    using disk_line_ok [of sh junk usage p boot st] Cons.prems by auto
  obtain s2 where "disk_lines sh junk boot (map (\<lambda>p. p @ nl) ps) s1 = Inr s2"
    "map item_of (fst s2) = rev (concat (map (disk_items sh usage boot) ps)) @ map item_of (fst s1)"
    using Cons.IH [of s1] Cons.prems by auto
  with s1 show ?case by simp
qed simp


definition demo_shell :: shell where
  "demo_shell c =
     (if c = df_cmd then Some (''/dev/sda1'' @ nl @ ''/dev/sdb2'' @ nl) else if c = boot_cmd then Some (''/dev/sda1'' @ nl)
      else if c = space_cmd ''/dev/sda1'' then Some (''95%'' @ nl) else if c = space_cmd ''/dev/sdb2'' then Some (''99%'' @ nl)
      else if c = smarthealthycmd ''/dev/sda'' then Some (''Health: PASSED'' @ nl)
      else if c = smarttempcmd ''/dev/sdb'' then Some (''71'' @ nl) else None)"

definition demo_usage :: "string \<Rightarrow> nat" where
  "demo_usage p = (if p = ''/dev/sda1'' then 95 else 99)"

lemma demo_devs:
  "list_all (dev_ok demo_shell (\<lambda>_. []) demo_usage) [''/dev/sda1'', ''/dev/sdb2'']"
  "concat (map (disk_items demo_shell demo_usage ''/dev/sda1'') [''/dev/sda1'', ''/dev/sdb2'']) =
     [(''/dev/sdb2'', ''ereport.disk.space-insufficient'', 1), (''/dev/sdb'', ''ereport.disk.over-temperature'', 3)]"
  by code_simp+


section \<open>What the agent does\<close>

text \<open>The tools answer for a disk: its device numbers, and the processes that read it.\<close>

definition answers :: "shell \<Rightarrow> string \<Rightarrow> string \<Rightarrow> string \<Rightarrow> string \<Rightarrow> bool" where
  "answers sh dev maj mnr pids \<longleftrightarrow>
     sh (master_cmd dev) = Some (maj @ nl) \<and> sh (slave_cmd dev) = Some (mnr @ nl) \<and> sh (proc_cmd dev) = Some pids \<and>
     length maj \<le> 6 \<and> length mnr \<le> 6 \<and> CHR 0x0A \<notin> set (maj @ mnr)"

definition too_hot :: "fmd_event \<Rightarrow> bool" where
  "too_hot e \<longleftrightarrow> strstr (ev_class e) ''over-temperature'' \<noteq> None"

text \<open>The result and the writes of handling a fault.\<close>

definition disk_outcome :: "(string \<Rightarrow> bool) \<Rightarrow> fmd_event \<Rightarrow> string \<Rightarrow> string \<Rightarrow> string \<Rightarrow> int \<times> (string \<times> string) list" where
  "disk_outcome opens e maj mnr pids =
     (if too_hot e then
        if \<not> opens THROTTLE then (LIST_REPAIRED_FAILED, [])
        else if \<not> opens TASKS then (LIST_REPAIRED_FAILED, [(THROTTLE, maj @ '':'' @ mnr @ '' 204800'')])
        else (LIST_REPAIRED_SUCCESS, (THROTTLE, maj @ '':'' @ mnr @ '' 204800'') # map (Pair TASKS) (fgets_lines 8 pids))
      else if strstr (ev_class e) ''space-insufficient'' \<noteq> None \<or> strstr (ev_class e) ''unhealthy'' \<noteq> None
        then (LIST_REPAIRED_SUCCESS, []) else (LIST_REPAIRED_FAILED, []))"

lemma cmd_lengths:
  "length (master_cmd p) = 42 + length p" "length (slave_cmd p) = 24 + length p" "length (proc_cmd p) = 55 + length p"
  by (simp_all add: master_cmd_def slave_cmd_def proc_cmd_def quoted_def)

lemma getnum_ok:
  assumes "sh c = Some (t @ nl)" "length t \<le> 6" "CHR 0x0A \<notin> set t"
  shows "getnum sh c = (if length c < 64 then Inr t else Inl Buf_overflow)"
proof -
  have "is_line 8 (t @ nl)" using assms(2,3) by (simp add: is_line_def nl_def butlast_append)
  from fgets_lines_Cons [OF this, of "[]"] have "first_line 8 (t @ nl) = t @ nl" by (simp add: first_line_def)
  then show ?thesis using assms(1) by (simp add: getnum_def fits_def nl_def butlast_append)
qed

lemma handle_disk_fault_event_result:
  assumes "answers sh (ev_dev_name e) maj mnr pids" "length (ev_dev_name e) < 32"
  shows "handle_disk_fault_event sh opens e =
    (if too_hot e \<and> opens THROTTLE \<and> 9 \<le> length (ev_dev_name e) then Inl Buf_overflow
     else Inr (disk_outcome opens e maj mnr pids))"
proof (cases "too_hot e")
  case True
  have th: "fits 64 THROTTLE = Inr THROTTLE" by (simp add: fits_def THROTTLE_def)
  have n: "getmasternum sh (ev_dev_name e) = (if length (ev_dev_name e) < 22 then Inr maj else Inl Buf_overflow)"
    "getslavenum sh (ev_dev_name e) = Inr mnr"
    using assms getnum_ok by (auto simp: answers_def getmasternum_def getslavenum_def cmd_lengths)
  have f: "fits 64 (maj @ '':'' @ mnr @ '' 204800'') = Inr (maj @ '':'' @ mnr @ '' 204800'')"
    using assms(1) by (simp add: fits_def answers_def)
  have "getprocid sh opens (ev_dev_name e) =
      (if 9 \<le> length (ev_dev_name e) then Inl Buf_overflow
       else Inr (if opens TASKS then (0, map (Pair TASKS) (fgets_lines 8 pids)) else (-1, [])))"
    using assms(1) by (simp add: getprocid_def fits_def cmd_lengths answers_def)
  then show ?thesis using True n th f
    by (auto simp: handle_disk_fault_event_def throttle_read_disk_def too_hot_def disk_outcome_def)
next
  case False
  then show ?thesis by (simp add: handle_disk_fault_event_def too_hot_def disk_outcome_def)
qed

lemma disk_log_event_ok:
  assumes "length (ev_dev_name e) < 32" "tm_ok (l_localtime env)" "tm_ok (l_gmtime env)"
  shows "\<exists>r l. disk_log_event env e log = Inr (r, log @ l)"
proof -
  obtain ty dir where t: "disk_log_target e = (ty, dir)" by fastforce
  obtain op where op: "fmd_log_open env dir ty = Inr op"
    using get_logname_ok [OF assms(3), of ty] by (cases "l_opendir env dir") (auto simp: fmd_log_open_def Let_def)
  obtain tstr where tm: "fmd_get_time (l_localtime env) 26 = Inr tstr" using fmd_get_time_ok [OF assms(2)] by auto
  show ?thesis using assms(1) t op tm
    by (cases op) (auto simp: disk_log_event_def fits_def fmd_log_write_def Let_def)
qed


definition demo_tools :: shell where
  "demo_tools c = (if c = master_cmd ''/dev/sda'' then Some (''8'' @ nl) else if c = slave_cmd ''/dev/sda'' then Some (''0'' @ nl)
     else if c = proc_cmd ''/dev/sda'' then Some (''4711'' @ nl) else None)"

definition demo_hot :: fmd_event where
  "demo_hot = event_zero\<lparr>ev_flag := AGENT_TODO, ev_dev_name := ''/dev/sda'', ev_class := ''ereport.disk.over-temperature''\<rparr>"


end
