(* ===== verification/Fms_Wire.thy ===== *)
theory Fms_Wire
  imports Fms_Config Fms_Text
begin

text \<open>
  The message format of the administration queue (\<^verbatim>\<open>include/fmd_fmadm.h\<close>): a header, then a number of
  sections of one kind, each a C structure as the compiler lays it out on the 64-bit little-endian target
  (\<^verbatim>\<open>faf_hdr_t\<close> 48 bytes, \<^verbatim>\<open>faf_case_t\<close> 176, \<^verbatim>\<open>faf_module_t\<close> 136). A buffer is a list of bytes, written as
  characters. The theory holds the conversions in both directions, the copying of a structure into a
  buffer, and that what is written is what is read.
\<close>

section \<open>Bytes\<close>

fun le_bytes :: "nat \<Rightarrow> nat \<Rightarrow> string" where
  "le_bytes 0 n = []"
| "le_bytes (Suc k) n = char_of (n mod 256) # le_bytes k (n div 256)"

fun le_val :: "string \<Rightarrow> nat" where
  "le_val [] = 0"
| "le_val (c # s) = of_char c + 256 * le_val s"

text \<open>A character array of \<open>n\<close> bytes that holds a string, in zeroed memory, and the string read from an address.\<close>

definition cfield :: "nat \<Rightarrow> string \<Rightarrow> string" where
  "cfield n s = s @ replicate (n - length s) (CHR 0x00)"

definition cstr :: "string \<Rightarrow> string" where
  "cstr b = takeWhile (\<lambda>c. c \<noteq> CHR 0x00) b"

definition no_nul :: "string \<Rightarrow> bool" where
  "no_nul s \<longleftrightarrow> CHR 0x00 \<notin> set s"

definition slice :: "nat \<Rightarrow> nat \<Rightarrow> string \<Rightarrow> string" where
  "slice off n b = take n (drop off b)"

text \<open>Writing at an offset of an allocated buffer.\<close>

definition poke :: "nat \<Rightarrow> string \<Rightarrow> string \<Rightarrow> string res" where
  "poke off bs b =
     (if off + length bs \<le> length b then Inr (take off b @ bs @ drop (off + length bs) b) else Inl Oob_access)"

lemma le_bytes_length [simp]: "length (le_bytes k n) = k"
  by (induction k arbitrary: n) auto

lemma le_val_bytes: "n < 256 ^ k \<Longrightarrow> le_val (le_bytes k n) = n"
proof (induction k arbitrary: n)
  case (Suc k)
  then have "n div 256 < 256 ^ k" by (simp add: less_mult_imp_div_less mult.commute)
  then show ?case using Suc.IH by (simp add: of_char_of)
qed simp

lemma cfield_length: "length s \<le> n \<Longrightarrow> length (cfield n s) = n"
  by (simp add: cfield_def)

lemma cstr_pad: "no_nul s \<Longrightarrow> cstr (s @ replicate k (CHR 0x00)) = s"
  by (induction s) (auto simp: cstr_def no_nul_def takeWhile_replicate)

lemma cstr_field: "no_nul s \<Longrightarrow> cstr (cfield n s) = s"
  by (simp add: cfield_def cstr_pad)

lemma cstr_id: "no_nul s \<Longrightarrow> cstr s = s"
  by (metis append_Nil2 cstr_pad replicate_0)

lemma slice_append1: "off + n \<le> length a \<Longrightarrow> slice off n (a @ b) = slice off n a"
  by (simp add: slice_def)

lemma slice_append2: "length a \<le> off \<Longrightarrow> slice off n (a @ b) = slice (off - length a) n b"
  by (simp add: slice_def)

lemma slice_all: "length a = n \<Longrightarrow> slice 0 n (a @ b) = a"
  by (simp add: slice_def)

section \<open>The structures\<close>

record faf_hdr =
  fafh_cmd :: string
  fafh_hdrsize :: "32 word"
  fafh_secnum :: "32 word"
  fafh_msgsz :: "64 word"

record faf_case =
  fafc_fault :: string
  fafc_uuid :: "64 word"
  fafc_rscid :: "64 word"
  fafc_state :: "8 word"
  fafc_count :: "32 word"
  fafc_create :: "64 word"
  fafc_fire :: "64 word"
  fafc_close :: "64 word"

record faf_module =
  fafm_vers :: "32 word"
  fafm_interval :: "32 word"
  fafm_name :: string

definition FAF_GET_CASELIST :: string where "FAF_GET_CASELIST = ''GET CASELIST''"
definition FAF_GET_MODLIST :: string where "FAF_GET_MODLIST = ''GET MODLIST''"
definition FAF_NUM :: int where "FAF_NUM = 20"
definition FAF_CASE_CREATE :: "8 word" where "FAF_CASE_CREATE = 0"
definition FAF_CASE_FIRED :: "8 word" where "FAF_CASE_FIRED = 1"
definition FAF_CASE_CLOSED :: "8 word" where "FAF_CASE_CLOSED = 2"

definition sizeof_hdr :: nat where "sizeof_hdr = 48"
definition sizeof_case :: nat where "sizeof_case = 176"
definition sizeof_module :: nat where "sizeof_module = 136"

definition hdr_bytes :: "faf_hdr \<Rightarrow> string" where
  "hdr_bytes h = cfield 32 (fafh_cmd h) @ le_bytes 4 (unat (fafh_hdrsize h)) @ le_bytes 4 (unat (fafh_secnum h)) @
     le_bytes 8 (unat (fafh_msgsz h))"

text \<open>Three bytes of padding follow the state.\<close>

definition case_bytes :: "faf_case \<Rightarrow> string" where
  "case_bytes c = cfield 128 (fafc_fault c) @ le_bytes 8 (unat (fafc_uuid c)) @ le_bytes 8 (unat (fafc_rscid c)) @
     le_bytes 1 (unat (fafc_state c)) @ replicate 3 (CHR 0x00) @ le_bytes 4 (unat (fafc_count c)) @
     le_bytes 8 (unat (fafc_create c)) @ le_bytes 8 (unat (fafc_fire c)) @ le_bytes 8 (unat (fafc_close c))"

definition module_bytes :: "faf_module \<Rightarrow> string" where
  "module_bytes m = le_bytes 4 (unat (fafm_vers m)) @ le_bytes 4 (unat (fafm_interval m)) @ cfield 128 (fafm_name m)"

text \<open>Reading a structure through a pointer to its first byte.\<close>

definition hdr_of :: "string \<Rightarrow> faf_hdr" where
  "hdr_of b = \<lparr>fafh_cmd = cstr (slice 0 32 b), fafh_hdrsize = of_nat (le_val (slice 32 4 b)),
     fafh_secnum = of_nat (le_val (slice 36 4 b)), fafh_msgsz = of_nat (le_val (slice 40 8 b))\<rparr>"

definition case_of_bytes :: "string \<Rightarrow> faf_case" where
  "case_of_bytes b = \<lparr>fafc_fault = cstr (slice 0 128 b), fafc_uuid = of_nat (le_val (slice 128 8 b)),
     fafc_rscid = of_nat (le_val (slice 136 8 b)), fafc_state = of_nat (le_val (slice 144 1 b)),
     fafc_count = of_nat (le_val (slice 148 4 b)), fafc_create = of_nat (le_val (slice 152 8 b)),
     fafc_fire = of_nat (le_val (slice 160 8 b)), fafc_close = of_nat (le_val (slice 168 8 b))\<rparr>"

definition module_of_bytes :: "string \<Rightarrow> faf_module" where
  "module_of_bytes b = \<lparr>fafm_vers = of_nat (le_val (slice 0 4 b)), fafm_interval = of_nat (le_val (slice 4 4 b)),
     fafm_name = cstr (slice 8 128 b)\<rparr>"

section \<open>Reading back what was written\<close>

text \<open>The strings of a structure fit their arrays, with the final NUL.\<close>

definition hdr_fits :: "faf_hdr \<Rightarrow> bool" where
  "hdr_fits h \<longleftrightarrow> length (fafh_cmd h) < 32 \<and> no_nul (fafh_cmd h)"

definition case_fits :: "faf_case \<Rightarrow> bool" where
  "case_fits c \<longleftrightarrow> length (fafc_fault c) < 128 \<and> no_nul (fafc_fault c)"

definition module_fits :: "faf_module \<Rightarrow> bool" where
  "module_fits m \<longleftrightarrow> length (fafm_name m) < 128 \<and> no_nul (fafm_name m)"

lemma le_word_roundtrip:
  "of_nat (le_val (le_bytes 1 (unat a))) = (a :: 8 word)"
  "of_nat (le_val (le_bytes 4 (unat w))) = (w :: 32 word)"
  "of_nat (le_val (le_bytes 8 (unat x))) = (x :: 64 word)"
  using unsigned_less [of a, where ?'a = nat] unsigned_less [of w, where ?'a = nat] unsigned_less [of x, where ?'a = nat]
  by (subst le_val_bytes; simp)+

lemma unat8_mod: "of_nat (unat a mod 256) = (a :: 8 word)"
  using unsigned_less [of a, where ?'a = nat] by simp

lemma hdr_bytes_length: "hdr_fits h \<Longrightarrow> length (hdr_bytes h) = sizeof_hdr"
  by (simp add: hdr_bytes_def hdr_fits_def cfield_def sizeof_hdr_def)

lemma case_bytes_length: "case_fits c \<Longrightarrow> length (case_bytes c) = sizeof_case"
  by (simp add: case_bytes_def case_fits_def cfield_def sizeof_case_def)

lemma module_bytes_length: "module_fits m \<Longrightarrow> length (module_bytes m) = sizeof_module"
  by (simp add: module_bytes_def module_fits_def cfield_def sizeof_module_def)

lemmas slices = slice_append1 slice_append2 slice_all slice_def cfield_length

lemma hdr_roundtrip: "hdr_fits h \<Longrightarrow> hdr_of (hdr_bytes h @ b) = h"
  by (simp add: hdr_of_def hdr_bytes_def hdr_fits_def slices cstr_field le_word_roundtrip)

lemma case_roundtrip: "case_fits c \<Longrightarrow> case_of_bytes (case_bytes c @ b) = c"
  by (simp add: case_of_bytes_def case_bytes_def case_fits_def slices cstr_field le_word_roundtrip unat8_mod)

lemma module_roundtrip: "module_fits m \<Longrightarrow> module_of_bytes (module_bytes m @ b) = m"
  by (simp add: module_of_bytes_def module_bytes_def module_fits_def slices cstr_field le_word_roundtrip)

end
