(* ===== verification/Fms_Adm.thy ===== *)
theory Fms_Adm
  imports Fms_Wire Fms_Progress "HOL-Library.Sublist"
begin

text \<open>
  The administration event source (\<^verbatim>\<open>evt_modules/evtsrc/adm/evtsrc.adm.c\<close>): requests arrive as text on the
  message queue \<^verbatim>\<open>/fmadm\<close>, the daemon's cases and modules go back as FAF messages, plug-ins are loaded,
  unloaded and configured at run time.

  \<open>a_lit\<close> says of each module in \<^verbatim>\<open>fmd.fmd_module\<close> whether its name is the string literal that
  \<^verbatim>\<open>evt_load_module\<close> puts in place of a name without \<^verbatim>\<open>.so\<close>, which must not be freed. The shared objects
  (\<open>dl\<close>), the outcome of the file operations (\<open>io\<close>) and of the queue operations (\<open>mio\<close>) are parameters.
\<close>

section \<open>Case list\<close>

record admd =
  a_daemon :: daemon
  a_fs :: "string \<Rightarrow> fopen_res"
  a_lit :: "bool list"

record fmd_acl =
  acl_secs :: "8 word"
  acl_size :: nat

text \<open>The items with numbers \<open>num + 1\<close> to \<open>num + 20\<close>, in \<^verbatim>\<open>int\<close> arithmetic.\<close>

definition in_page :: "int \<Rightarrow> int \<Rightarrow> bool" where
  "in_page num tmp \<longleftrightarrow> tmp > num \<and> tmp \<le> to_int32 (num + FAF_NUM)"

fun resv_events :: "int \<Rightarrow> addr list \<Rightarrow> int \<times> int \<Rightarrow> int \<times> int" where
  "resv_events num [] st = st"
| "resv_events num (p # ps) (tmp, cases_n) =
     resv_events num ps (tmp + 1, if in_page num (tmp + 1) then cases_n + 1 else cases_n)"

fun resv_cases :: "fmd \<Rightarrow> int \<Rightarrow> addr list \<Rightarrow> int \<times> int \<Rightarrow> (int \<times> int) res" where
  "resv_cases s num [] st = Inr st"
| "resv_cases s num (q # qs) st = rbind (cs s q) (\<lambda>cp. resv_cases s num qs (resv_events num (cs_event cp) st))"

definition fmd_resv_caselist :: "fmd \<Rightarrow> int \<Rightarrow> int \<Rightarrow> fmd_acl res" where
  "fmd_resv_caselist s num index =
     rbind (if index = 1 then resv_cases s num (f_list_case s) (0, 0)
            else Inr (resv_events num (f_list_repaired s) (0, 0))) (\<lambda>(tmp, cases_n).
       Inr \<lparr>acl_secs = word_of_int cases_n, acl_size = nat cases_n * sizeof_case + sizeof_hdr\<rparr>)"

text \<open>\<^verbatim>\<open>dev_id\<close> is unsigned but printed with \<^verbatim>\<open>%ld\<close>.\<close>

definition fault_text :: "fmd_event \<Rightarrow> string" where
  "fault_text e =
     (if strstr (ev_class e) ''disk'' \<noteq> None then ev_dev_name e @ '':'' @ ev_class e
      else ev_dev_name e @ dec (sint (ev_dev_id e)) @ '':'' @ ev_class e)"

definition CASE_CLOSED :: int where "CASE_CLOSED = 2"

definition faf_state :: "int \<Rightarrow> (8 word) option" where
  "faf_state flag =
     (if flag = CASE_CREATE then Some FAF_CASE_CREATE
      else if flag = CASE_FIRED then Some FAF_CASE_FIRED
      else if flag = CASE_CLOSED then Some FAF_CASE_CLOSED else None)"

definition case_row :: "8 word \<Rightarrow> fmd_event \<Rightarrow> faf_case" where
  "case_row st e = \<lparr>fafc_fault = fault_text e, fafc_uuid = 0, fafc_rscid = 0, fafc_state = st,
     fafc_count = word_of_int (ev_count e), fafc_create = word_of_int (ev_create e),
     fafc_fire = word_of_int (ev_last_occur e), fafc_close = 0\<rparr>"

text \<open>
  The second pass over the events, with the running number, the number of sections written and the
  buffer. The text goes to its 128 bytes with \<^verbatim>\<open>sprintf\<close>. \<open>Inr None\<close> is the null pointer returned for a
  case in an unknown state, which is only met after the other members of the section are written.
\<close>

fun fill_events :: "fmd \<Rightarrow> int \<Rightarrow> (8 word) option \<Rightarrow> addr list \<Rightarrow> int \<times> nat \<times> string \<Rightarrow> (int \<times> nat \<times> string) option res" where
  "fill_events s num st [] acc = Inr (Some acc)"
| "fill_events s num st (p # ps) (tmp_num, ct, buf) =
     (if in_page num (tmp_num + 1) then
        rbind (ev s p) (\<lambda>e.
        rbind (fits 128 (fault_text e)) (\<lambda>_.
        rbind (poke (sizeof_hdr + ct * sizeof_case) (case_bytes (case_row (case st of Some x \<Rightarrow> x | None \<Rightarrow> 0) e)) buf) (\<lambda>buf'.
          if st = None then Inr None
          else fill_events s num st ps (tmp_num + 1, ct + 1, buf'))))
      else fill_events s num st ps (tmp_num + 1, ct, buf))"

fun fill_cases :: "fmd \<Rightarrow> int \<Rightarrow> addr list \<Rightarrow> int \<times> nat \<times> string \<Rightarrow> (int \<times> nat \<times> string) option res" where
  "fill_cases s num [] acc = Inr (Some acc)"
| "fill_cases s num (q # qs) acc =
     rbind (cs s q) (\<lambda>cp.
     rbind (fill_events s num (faf_state (cs_flag cp)) (cs_event cp) acc) (\<lambda>r.
       case r of None \<Rightarrow> Inr None | Some acc' \<Rightarrow> fill_cases s num qs acc'))"

text \<open>
  \<^verbatim>\<open>fmd_get_caselist\<close>: \<open>s0\<close> is the state the first pass sees, \<open>s\<close> the one the second pass sees. The two
  differ when the dispatcher runs in between: no lock is held over both. A section of the repaired list is
  written with state 0, which the zeroed buffer has. The result is the message, or \<open>None\<close> for the null pointer.
\<close>

definition faf_hdr_of :: "string \<Rightarrow> fmd_acl \<Rightarrow> faf_hdr" where
  "faf_hdr_of cmd acl = \<lparr>fafh_cmd = cmd, fafh_hdrsize = of_nat sizeof_hdr, fafh_secnum = ucast (acl_secs acl),
     fafh_msgsz = of_nat (acl_size acl)\<rparr>"

definition fmd_get_caselist :: "fmd \<Rightarrow> fmd \<Rightarrow> int \<Rightarrow> int \<Rightarrow> string option res" where
  "fmd_get_caselist s0 s num index =
     rbind (fmd_resv_caselist s0 num index) (\<lambda>acl.
     rbind (poke 0 (hdr_bytes (faf_hdr_of FAF_GET_CASELIST acl)) (replicate (acl_size acl) (CHR 0x00))) (\<lambda>buf.
     rbind (if index = 1 then fill_cases s num (f_list_case s) (0, 0, buf)
            else fill_events s num (Some 0) (f_list_repaired s) (0, 0, buf)) (\<lambda>r.
       case r of None \<Rightarrow> Inr None | Some (tmp_num, ct, buf') \<Rightarrow> Inr (Some buf'))))"

section \<open>Module list\<close>

text \<open>\<^verbatim>\<open>mod_vers\<close> is never set, \<^verbatim>\<open>mod_interval\<close> only in event sources: both structures are allocated zeroed.\<close>

fun mod_interval :: "fmd_module \<Rightarrow> int" where
  "mod_interval (Mod_evtsrc n i) = i"
| "mod_interval (Mod_agent n) = 0"

definition fmd_resv_modlist :: "daemon \<Rightarrow> fmd_acl" where
  "fmd_resv_modlist d = \<lparr>acl_secs = of_nat (length (d_module d)),
     acl_size = length (d_module d) * sizeof_module + sizeof_hdr\<rparr>"

definition module_row :: "fmd_module \<Rightarrow> faf_module" where
  "module_row mp = \<lparr>fafm_vers = 0, fafm_interval = word_of_int (mod_interval mp), fafm_name = take 127 (mod_name mp)\<rparr>"

fun fill_modules :: "fmd_module list \<Rightarrow> nat \<times> string \<Rightarrow> (nat \<times> string) res" where
  "fill_modules [] st = Inr st"
| "fill_modules (mp # ms) (mnt, buf) =
     rbind (poke (sizeof_hdr + mnt * sizeof_module) (module_bytes (module_row mp)) buf) (\<lambda>buf'.
       fill_modules ms (mnt + 1, buf'))"

definition fmd_get_modlist :: "daemon \<Rightarrow> string res" where
  "fmd_get_modlist d =
     (let acl = fmd_resv_modlist d
      in rbind (poke 0 (hdr_bytes (faf_hdr_of FAF_GET_MODLIST acl)) (replicate (acl_size acl) (CHR 0x00))) (\<lambda>buf.
         rbind (fill_modules (d_module d) (0, buf)) (\<lambda>(mnt, buf'). Inr buf')))"

section \<open>Loading and unloading\<close>

definition ADM_SO :: string where "ADM_SO = ''/usr/lib/fms/plugins/adm_src.so''"

definition check_mod_load :: "daemon \<Rightarrow> string \<Rightarrow> int" where
  "check_mod_load d path = (if list_ex (\<lambda>mp. mod_name mp = path) (d_module d) then -1 else 0)"

text \<open>
  The loop at the end of \<^verbatim>\<open>evt_load_module\<close>. The name is a member of the module structure, so the agent and
  the timer of the module go by the new name too.
\<close>

definition adm_rename :: "string \<Rightarrow> string" where
  "adm_rename nm = (if strstr nm ''.so'' = None then ADM_SO else nm)"

fun rename_mod :: "fmd_module \<Rightarrow> fmd_module" where
  "rename_mod (Mod_evtsrc n i) = Mod_evtsrc (adm_rename n) i"
| "rename_mod (Mod_agent n) = Mod_agent (adm_rename n)"

definition rename_all :: "daemon \<Rightarrow> daemon" where
  "rename_all d = d\<lparr>d_module := map rename_mod (d_module d),
     d_timer := map (\<lambda>t. t\<lparr>tm_module := adm_rename (tm_module t)\<rparr>) (d_timer d),
     d_fmd := (d_fmd d)\<lparr>f_list_agent := map (\<lambda>m. m\<lparr>am_mod_name := adm_rename (am_mod_name m)\<rparr>) (f_list_agent (d_fmd d))\<rparr>\<rparr>"

definition evt_load_module :: "(string \<Rightarrow> so_kind) \<Rightarrow> string \<Rightarrow> admd \<Rightarrow> (int \<times> admd) res" where
  "evt_load_module dl path a =
     (if check_mod_load (a_daemon a) path = -1 then Inr (-1, a)
      else rbind (fmd_init_module (a_fs a) dl path (a_daemon a)) (\<lambda>(ret, d).
        if ret = -1 then Inr (-1, a\<lparr>a_daemon := d\<rparr>)
        else Inr (0, a\<lparr>a_daemon := rename_all d,
          a_lit := map2 (\<lambda>mp l. l \<or> strstr (mod_name mp) ''.so'' = None) (d_module d) (False # a_lit a)\<rparr>)))"

fun remove_first :: "('a \<Rightarrow> bool) \<Rightarrow> 'a list \<Rightarrow> 'a list" where
  "remove_first P [] = []"
| "remove_first P (x # xs) = (if P x then xs else x # remove_first P xs)"

text \<open>
  \<^verbatim>\<open>free_module\<close> tells an agent from an event source by its name: on a module of the other kind it works on
  members the structure does not have. The agent's subscriptions, ring and name are freed with it; the
  events in the ring are not. \<^verbatim>\<open>free\<close> of a literal name is undefined.
\<close>

definition free_module :: "fmd_module \<Rightarrow> bool \<Rightarrow> daemon \<Rightarrow> daemon res" where
  "free_module m lit d =
     (if strstr (mod_name m) ''agent'' \<noteq> None then
        (case m of
           Mod_evtsrc n i \<Rightarrow> Inl Oob_access
         | Mod_agent n \<Rightarrow>
             if lit then Inl Use_after_free
             else Inr (d\<lparr>d_fmd := (d_fmd d)\<lparr>f_list_agent :=
               remove_first (\<lambda>g. am_mod_name g = n) (f_list_agent (d_fmd d))\<rparr>\<rparr>))
      else
        (case m of
           Mod_agent n \<Rightarrow> Inl Oob_access
         | Mod_evtsrc n i \<Rightarrow>
             if lit then Inl Use_after_free
             else Inr (d\<lparr>d_timer := remove_first (\<lambda>t. tm_module t = n) (d_timer d)\<rparr>)))"

text \<open>
  The loop of \<^verbatim>\<open>evt_unload_module\<close>: every module whose file name is a prefix of the given name is freed. The
  result is the return value with the modules that stay.
\<close>

fun unload_loop :: "string \<Rightarrow> (fmd_module \<times> bool) list \<Rightarrow> daemon \<Rightarrow> (int \<times> (fmd_module \<times> bool) list \<times> daemon) res" where
  "unload_loop nm [] d = Inr (-1, [], d)"
| "unload_loop nm ((mp, lit) # ms) d =
     rbind (deref (strrchr (mod_name mp) (CHR ''/''))) (\<lambda>p.
       let tmpmodule = tl p in
       if strncmp_eq tmpmodule nm (length tmpmodule) then
         rbind (free_module mp lit d) (\<lambda>d1.
         rbind (unload_loop nm ms d1) (\<lambda>(ret, rest, d2). Inr (0, rest, d2)))
       else rbind (unload_loop nm ms d) (\<lambda>(ret, rest, d2). Inr (ret, (mp, lit) # rest, d2)))"

definition base_name :: "string \<Rightarrow> string" where
  "base_name module = (case strrchr module (CHR ''/'') of Some p \<Rightarrow> tl p | None \<Rightarrow> module)"

definition evt_unload_module :: "string \<Rightarrow> admd \<Rightarrow> (int \<times> admd) res" where
  "evt_unload_module module a =
     rbind (unload_loop (base_name module) (zip (d_module (a_daemon a)) (a_lit a)) (a_daemon a)) (\<lambda>(ret, rest, d).
       Inr (ret, a\<lparr>a_daemon := d\<lparr>d_module := map fst rest\<rparr>, a_lit := map snd rest\<rparr>))"

definition module_update_conf :: "upd_io \<Rightarrow> string \<Rightarrow> string \<Rightarrow> admd \<Rightarrow> (int \<times> admd) res" where
  "module_update_conf io module mode a =
     rbind (agent_module_update_conf io (Some module) None (Some AGENT_KEY_EVT_HANDLE_MODE) (Some mode) (a_fs a) (a_daemon a))
       (\<lambda>(ret, fs, d). Inr (ret, a\<lparr>a_fs := fs, a_daemon := d\<rparr>))"

section \<open>Requests\<close>

text \<open>\<^verbatim>\<open>strtok\<close> repeated: the non-empty pieces.\<close>

definition strtok_all :: "char list \<Rightarrow> string \<Rightarrow> string list" where
  "strtok_all ds s = filter (\<lambda>t. t \<noteq> []) (strsep_all ds s)"

definition nth_tok :: "string \<Rightarrow> nat \<Rightarrow> string option" where
  "nth_tok s n = (let ts = strtok_all '':'' s in if n < length ts then Some (ts ! n) else None)"

text \<open>
  The branches of \<^verbatim>\<open>adm_probe\<close> on a received text: the reply and the state. An argument that is missing
  leaves a null pointer (or, for the last one, an uninitialised one), which is then read or counted on from.
\<close>

definition adm_caselist :: "fmd \<Rightarrow> string \<Rightarrow> admd \<Rightarrow> (string \<times> admd) res" where
  "adm_caselist s0 buf a =
     rbind (deref (nth_tok buf 1)) (\<lambda>tmp.
     rbind (deref (nth_tok buf 2)) (\<lambda>tmp1.
     rbind (fmd_get_caselist s0 (d_fmd (a_daemon a)) (atoi tmp) (atoi tmp1)) (\<lambda>r.
       Inr (case r of None \<Rightarrow> [] | Some msg \<Rightarrow> msg, a))))"

definition adm_load :: "(string \<Rightarrow> so_kind) \<Rightarrow> string \<Rightarrow> admd \<Rightarrow> (string \<times> admd) res" where
  "adm_load dl buf a =
     rbind (deref (strstr buf '':'')) (\<lambda>path.
     rbind (evt_load_module dl (tl path) a) (\<lambda>(ret, a1).
       Inr (if ret = 0 then ''load successed '' else ''load failed '', a1)))"

definition adm_update :: "upd_io \<Rightarrow> string \<Rightarrow> admd \<Rightarrow> (string \<times> admd) res" where
  "adm_update io buf a =
     rbind (deref (nth_tok buf 1)) (\<lambda>module.
     rbind (deref (nth_tok buf 2)) (\<lambda>mode.
     rbind (module_update_conf io (tl module) (tl mode) a) (\<lambda>(ret, a1).
       Inr (if ret = 0 then ''undate successed '' else ''update failed '', a1))))"

definition adm_unload :: "string \<Rightarrow> admd \<Rightarrow> (string \<times> admd) res" where
  "adm_unload buf a =
     rbind (deref (strstr buf '':'')) (\<lambda>module.
     rbind (evt_unload_module (tl module) a) (\<lambda>(ret, a1).
       Inr (if ret = 0 then ''unload successed '' else ''unload failed '', a1)))"

definition adm_illegal :: "string \<Rightarrow> admd \<Rightarrow> (string \<times> admd) res" where
  "adm_illegal buf a = rbind (fits 128 (buf @ '' is illegal cmd '')) (\<lambda>r. Inr (r, a))"

definition adm_request :: "upd_io \<Rightarrow> (string \<Rightarrow> so_kind) \<Rightarrow> fmd \<Rightarrow> string \<Rightarrow> admd \<Rightarrow> (string \<times> admd) res" where
  "adm_request io dl s0 buf a =
     (if strncmp_eq buf ''GET CASELIST'' 12 then adm_caselist s0 buf a
      else if strncmp_eq buf ''LOAD'' 4 then adm_load dl buf a
      else if strncmp_eq buf ''UPDATE'' 6 then adm_update io buf a
      else if strncmp_eq buf ''UNLOAD'' 6 then adm_unload buf a
      else if strncmp_eq buf ''GET MODLIST'' 11 then rbind (fmd_get_modlist (a_daemon a)) (\<lambda>msg. Inr (msg, a))
      else adm_illegal buf a)"

section \<open>The message queue\<close>

text \<open>
  A POSIX message queue: messages of one priority in order, at most \<open>mq_maxmsg\<close> of at most \<open>mq_msgsize\<close>
  bytes. A message that is too long is refused, a full or empty queue blocks. \<open>mio\<close> says which of the system
  calls succeed.
\<close>

record mqueue =
  mq_msgs :: "string list"
  mq_maxmsg :: nat
  mq_msgsize :: nat

record mq_io =
  mo_open :: bool
  mo_malloc :: bool
  mo_getattr :: bool
  mo_receive :: bool

definition mq_send :: "string \<Rightarrow> mqueue \<Rightarrow> (int \<times> mqueue) res" where
  "mq_send m q =
     (if length m > mq_msgsize q then Inr (-1, q)
      else if length (mq_msgs q) \<ge> mq_maxmsg q then Inl Would_block
      else Inr (0, q\<lparr>mq_msgs := mq_msgs q @ [m]\<rparr>))"

definition mq_receive :: "mqueue \<Rightarrow> (string \<times> mqueue) res" where
  "mq_receive q = (case mq_msgs q of [] \<Rightarrow> Inl Would_block | m # ms \<Rightarrow> Inr (m, q\<lparr>mq_msgs := ms\<rparr>))"

definition ADM_BUF :: nat where "ADM_BUF = 128 * 1024"

text \<open>
  \<^verbatim>\<open>adm_probe\<close>. The request is received into \<^verbatim>\<open>ADM_BUF\<close> zeroed bytes, so that it is a string when it is
  shorter. The probe returns no events on any path.
\<close>

definition adm_probe ::
  "mq_io \<Rightarrow> upd_io \<Rightarrow> (string \<Rightarrow> so_kind) \<Rightarrow> fmd \<Rightarrow> mqueue \<times> admd \<Rightarrow> (mqueue \<times> admd) res" where
  "adm_probe mio io dl s0 st =
     (let (q, a) = st in
      if \<not> mo_open mio \<or> \<not> mo_malloc mio \<or> \<not> mo_getattr mio then Inr (q, a)
      else if \<not> mo_receive mio then Inr (q, a)
      else rbind (mq_receive q) (\<lambda>(m, q1).
        if ADM_BUF \<le> length m then Inl Buf_overflow
        else rbind (adm_request io dl s0 (cstr m) a) (\<lambda>(reply, a1).
          rbind (mq_send reply q1) (\<lambda>(rc, q2). Inr (q2, a1)))))"

section \<open>The messages that are sent\<close>

definition page :: "nat \<Rightarrow> 'a list \<Rightarrow> 'a list" where
  "page n xs = take 20 (drop n xs)"

definition page_len :: "int \<Rightarrow> int \<Rightarrow> int" where
  "page_len num t = min t (num + 20) - min t num"

definition num_ok :: "int \<Rightarrow> bool" where
  "num_ok num \<longleftrightarrow> 0 \<le> num \<and> num + 20 < 2 ^ 31"

lemma to_int32_id: "- (2 ^ 31) \<le> v \<Longrightarrow> v < 2 ^ 31 \<Longrightarrow> to_int32 v = v"
  unfolding to_int32_def int_word_sint by simp

lemma in_page_iff: "num_ok num \<Longrightarrow> in_page num t \<longleftrightarrow> num < t \<and> t \<le> num + 20"
  by (simp add: in_page_def num_ok_def to_int32_id FAF_NUM_def)

lemma page_len_step:
  "num_ok num \<Longrightarrow> 0 \<le> t \<Longrightarrow> page_len num (t + 1) = (if in_page num (t + 1) then page_len num t + 1 else page_len num t)"
  by (auto simp: page_len_def in_page_iff)

lemma page_length: "num_ok num \<Longrightarrow> int (length (page (nat num) xs)) = page_len num (int (length xs))"
  by (auto simp: page_def page_len_def num_ok_def)

lemma resv_events_len:
  "num_ok num \<Longrightarrow> 0 \<le> t \<Longrightarrow>
   resv_events num ps (t, page_len num t) = (t + int (length ps), page_len num (t + int (length ps)))"
proof (induction ps arbitrary: t)
  case (Cons p ps)
  have "resv_events num (p # ps) (t, page_len num t) = resv_events num ps (t + 1, page_len num (t + 1))"
    using page_len_step [OF Cons.prems] by simp
  also have "\<dots> = (t + 1 + int (length ps), page_len num (t + 1 + int (length ps)))" using Cons by simp
  finally show ?case by (simp add: add.assoc)
qed simp

lemma page_snoc:
  assumes "num_ok num" "t = int (length xs)"
  shows "page (nat num) (xs @ [x]) = (if in_page num (t + 1) then page (nat num) xs @ [x] else page (nat num) xs)"
  using assms by (auto simp: page_def in_page_iff num_ok_def)

lemma page_mono: "length (page n xs) \<le> length (page n (xs @ ys))"
  by (auto simp: page_def)

lemma poke_zeros:
  assumes "length bs = k" "off = length a"
  shows "poke off bs (a @ replicate m (CHR 0x00)) =
    (if k \<le> m then Inr (a @ bs @ replicate (m - k) (CHR 0x00)) else Inl Oob_access)"
  using assms by (simp add: poke_def)

lemma fits_Inr: "length s < n \<Longrightarrow> fits n s = Inr s"
  by (simp add: fits_def)

definition text_ok :: "fmd_event \<Rightarrow> bool" where
  "text_ok e \<longleftrightarrow> length (fault_text e) < 128 \<and> no_nul (fault_text e)"

definition event_live :: "fmd \<Rightarrow> addr \<Rightarrow> bool" where
  "event_live s p \<longleftrightarrow> p \<noteq> 0 \<and> (case f_events s p of Some e \<Rightarrow> text_ok e | None \<Rightarrow> False)"

definition event_row :: "fmd \<Rightarrow> 8 word \<Rightarrow> addr \<Rightarrow> faf_case" where
  "event_row s st p = case_row st (the (f_events s p))"

text \<open>The buffer while it is being filled: header, the sections of the page, zeros up to \<open>n\<close> sections.\<close>

definition fill_buf :: "string \<Rightarrow> nat \<Rightarrow> faf_case list \<Rightarrow> string" where
  "fill_buf h n rs = h @ concat (map case_bytes rs) @ replicate ((n - length rs) * sizeof_case) (CHR 0x00)"

lemma rows_length: "list_all case_fits rs \<Longrightarrow> length (concat (map case_bytes rs)) = length rs * sizeof_case"
  by (induction rs) (simp_all add: case_bytes_length)

lemma poke_row:
  assumes "list_all case_fits rs" "case_fits r" "length h = sizeof_hdr" "length rs \<le> n"
  shows "poke (sizeof_hdr + length rs * sizeof_case) (case_bytes r) (fill_buf h n rs) =
    (if length rs < n then Inr (fill_buf h n (rs @ [r])) else Inl Oob_access)"
proof -
  have "poke (sizeof_hdr + length rs * sizeof_case) (case_bytes r)
      ((h @ concat (map case_bytes rs)) @ replicate ((n - length rs) * sizeof_case) (CHR 0x00)) =
    (if sizeof_case \<le> (n - length rs) * sizeof_case
     then Inr ((h @ concat (map case_bytes rs)) @ case_bytes r @ replicate ((n - length rs) * sizeof_case - sizeof_case) (CHR 0x00))
     else Inl Oob_access)"
    using assms by (intro poke_zeros) (simp_all add: case_bytes_length rows_length)
  moreover have "sizeof_case \<le> (n - length rs) * sizeof_case \<longleftrightarrow> length rs < n"
    using assms(4) by (cases "n - length rs") (auto simp: sizeof_case_def)
  moreover have "(n - length rs) * sizeof_case - sizeof_case = (n - Suc (length rs)) * sizeof_case"
    by (simp add: diff_mult_distrib add.commute)
  ultimately show ?thesis by (simp add: fill_buf_def)
qed


text \<open>The accumulator of the second pass after the items \<open>xs\<close>.\<close>

definition filled :: "int \<Rightarrow> string \<Rightarrow> nat \<Rightarrow> faf_case list \<Rightarrow> int \<times> nat \<times> string" where
  "filled num h n xs = (let rs = page (nat num) xs in (int (length xs), length rs, fill_buf h n rs))"

lemma fill_events_page:
  assumes "num_ok num" "length h = sizeof_hdr" "list_all (event_live s) ps" "list_all case_fits xs"
    and "length (page (nat num) xs) \<le> n"
  shows "fill_events s num (Some st) ps (filled num h n xs) =
    (let ys = xs @ map (event_row s st) ps
     in if length (page (nat num) ys) \<le> n then Inr (Some (filled num h n ys)) else Inl Oob_access)"
  using assms(3-)
proof (induction ps arbitrary: xs)
  case (Cons p ps)
  let ?pg = "page (nat num)" and ?r = "event_row s st p"
  obtain e where e: "ev s p = Inr e" "f_events s p = Some e" "text_ok e"
    using Cons.prems(1) by (auto simp: event_live_def ev_def load_def split: option.splits)
  have r: "case_fits ?r" "?r = case_row st e"
    using e(2,3) by (simp_all add: event_row_def case_fits_def case_row_def text_ok_def)
  have pf: "list_all case_fits (?pg xs)" using Cons.prems(2) by (auto simp: page_def list_all_iff dest: in_set_takeD in_set_dropD)
  have ps: "?pg (xs @ [?r]) = (if in_page num (int (length xs) + 1) then ?pg xs @ [?r] else ?pg xs)"
    using page_snoc [OF assms(1) refl] .
  have mono: "length (?pg (xs @ [?r])) \<le> length (?pg (xs @ ?r # map (event_row s st) ps))"
    using page_mono [of "nat num" "xs @ [?r]"] by simp
  show ?case
  proof (cases "in_page num (int (length xs) + 1)")
    case False
    then have "fill_events s num (Some st) (p # ps) (filled num h n xs) = fill_events s num (Some st) ps (filled num h n (xs @ [?r]))"
      using ps by (simp add: filled_def Let_def add.commute)
    then show ?thesis using False Cons.IH [of "xs @ [?r]"] Cons.prems r(1) ps by simp
  next
    case True
    show ?thesis
    proof (cases "length (?pg xs) < n")
      case lt: True
      have "fill_events s num (Some st) (p # ps) (filled num h n xs) = fill_events s num (Some st) ps (filled num h n (xs @ [?r]))"
        using True lt e(3) poke_row [OF pf r(1) assms(2) Cons.prems(3)] ps r(2)
        by (simp add: filled_def Let_def fits_Inr text_ok_def e(1) add.commute)
      then show ?thesis using Cons.IH [of "xs @ [?r]"] Cons.prems r(1) ps True lt by simp
    next
      case False
      then have "\<not> length (?pg (xs @ ?r # map (event_row s st) ps)) \<le> n" using mono ps True by simp
      then show ?thesis using True False e(3) poke_row [OF pf r(1) assms(2) Cons.prems(3)] r(2)
        by (simp add: filled_def Let_def fits_Inr text_ok_def e(1))
    qed
  qed
qed (simp add: Let_def)

definition case_live :: "fmd \<Rightarrow> addr \<Rightarrow> bool" where
  "case_live s q \<longleftrightarrow> q \<noteq> 0 \<and> (case f_cases s q of
     Some c \<Rightarrow> faf_state (cs_flag c) \<noteq> None \<and> list_all (event_live s) (cs_event c) | None \<Rightarrow> False)"

definition rows_of :: "fmd \<Rightarrow> addr \<Rightarrow> faf_case list" where
  "rows_of s q = (let c = the (f_cases s q) in map (event_row s (the (faf_state (cs_flag c)))) (cs_event c))"

lemma event_row_fits: "event_live s p \<Longrightarrow> case_fits (event_row s st p)"
  by (auto simp: event_live_def event_row_def case_fits_def case_row_def text_ok_def split: option.splits)

lemma rows_fit: "case_live s q \<Longrightarrow> list_all case_fits (rows_of s q)"
  by (auto simp: case_live_def rows_of_def list_all_iff event_row_fits Let_def split: option.splits)

lemma fill_cases_page:
  assumes "num_ok num" "length h = sizeof_hdr" "list_all (case_live s) qs" "list_all case_fits xs"
    and "length (page (nat num) xs) \<le> n"
  shows "fill_cases s num qs (filled num h n xs) =
    (let ys = xs @ concat (map (rows_of s) qs)
     in if length (page (nat num) ys) \<le> n then Inr (Some (filled num h n ys)) else Inl Oob_access)"
  using assms(3-)
proof (induction qs arbitrary: xs)
  case (Cons q qs)
  obtain c st where c: "cs s q = Inr c" "f_cases s q = Some c" "faf_state (cs_flag c) = Some st" "list_all (event_live s) (cs_event c)"
    using Cons.prems(1) by (auto simp: case_live_def cs_def load_def split: option.splits)
  have r: "rows_of s q = map (event_row s st) (cs_event c)" using c(2,3) by (simp add: rows_of_def)
  note f = fill_events_page [OF assms(1,2) c(4) Cons.prems(2,3), of st, folded r]
  show ?case
  proof (cases "length (page (nat num) (xs @ rows_of s q)) \<le> n")
    case True
    then show ?thesis using f Cons.IH [of "xs @ rows_of s q"] Cons.prems rows_fit by (simp add: Let_def c)
  next
    case False
    moreover have "length (page (nat num) (xs @ rows_of s q)) \<le> length (page (nat num) (xs @ rows_of s q @ zs))" for zs
      using page_mono [of "nat num" "xs @ rows_of s q" zs] by simp
    ultimately have "\<not> length (page (nat num) (xs @ rows_of s q @ zs)) \<le> n" for zs using order_trans by blast
    then show ?thesis using f False by (simp add: Let_def c)
  qed
qed (simp add: Let_def)

lemma resv_cases_len:
  assumes "num_ok num" "list_all (case_live s) qs" "0 \<le> t"
  shows "resv_cases s num qs (t, page_len num t) =
    Inr (let t' = t + int (length (concat (map (rows_of s) qs))) in (t', page_len num t'))"
  using assms(2,3)
proof (induction qs arbitrary: t)
  case (Cons q qs)
  obtain c where c: "cs s q = Inr c" "f_cases s q = Some c"
    using Cons.prems(1) by (auto simp: case_live_def cs_def load_def split: option.splits)
  then have "length (rows_of s q) = length (cs_event c)" by (simp add: rows_of_def)
  then show ?case using Cons.IH [of "t + int (length (cs_event c))"] Cons.prems resv_events_len [OF assms(1), of t]
    by (simp add: Let_def add.assoc c)
qed simp


text \<open>All rows the case list has, and all of the repaired list.\<close>

definition case_rows :: "fmd \<Rightarrow> int \<Rightarrow> faf_case list" where
  "case_rows s index =
     (if index = 1 then concat (map (rows_of s) (f_list_case s)) else map (event_row s 0) (f_list_repaired s))"

definition reportable :: "fmd \<Rightarrow> int \<Rightarrow> bool" where
  "reportable s index \<longleftrightarrow>
     (if index = 1 then list_all (case_live s) (f_list_case s) else list_all (event_live s) (f_list_repaired s))"

definition faf_message :: "string \<Rightarrow> nat \<Rightarrow> nat \<Rightarrow> string list \<Rightarrow> string" where
  "faf_message cmd n w rows = hdr_bytes (faf_hdr_of cmd \<lparr>acl_secs = of_nat n, acl_size = n * w + sizeof_hdr\<rparr>) @ concat rows"

lemma case_rows_fit: "reportable s index \<Longrightarrow> list_all case_fits (case_rows s index)"
  using rows_fit event_row_fits by (fastforce simp: reportable_def case_rows_def list_all_iff split: if_splits)

lemma resv_caselist:
  assumes "num_ok num" "reportable s index"
  shows "fmd_resv_caselist s num index =
    Inr (let n = length (page (nat num) (case_rows s index))
         in \<lparr>acl_secs = of_nat n, acl_size = n * sizeof_case + sizeof_hdr\<rparr>)"
proof -
  have z: "page_len num 0 = 0" using assms(1) by (simp add: page_len_def num_ok_def)
  have i: "(if index = 1 then resv_cases s num (f_list_case s) (0, 0) else Inr (resv_events num (f_list_repaired s) (0, 0)))
    = Inr (int (length (case_rows s index)), page_len num (int (length (case_rows s index))))"
    using assms resv_cases_len [OF assms(1), of s "f_list_case s" 0] resv_events_len [OF assms(1), of 0 "f_list_repaired s"]
    by (auto simp: z case_rows_def reportable_def Let_def)
  show ?thesis using page_length [OF assms(1), of "case_rows s index"]
    unfolding fmd_resv_caselist_def i by (simp add: Let_def flip: page_length [OF assms(1)])
qed

lemma hdr_fits_cmds: "hdr_fits (faf_hdr_of FAF_GET_CASELIST acl)" "hdr_fits (faf_hdr_of FAF_GET_MODLIST acl)"
  by (simp_all add: hdr_fits_def faf_hdr_of_def FAF_GET_CASELIST_def FAF_GET_MODLIST_def no_nul_def)

text \<open>
  What the two passes do in general: when the second finds no more rows than the first counted, a message with
  the counted number of sections, of which those not found are zero; otherwise the buffer is overrun.
\<close>

lemma get_caselist_passes:
  assumes "num_ok num" "reportable s0 index" "reportable s index"
  defines "n \<equiv> length (page (nat num) (case_rows s0 index))" and "rs \<equiv> page (nat num) (case_rows s index)"
  shows "fmd_get_caselist s0 s num index =
    (if length rs \<le> n
     then Inr (Some (fill_buf (hdr_bytes (faf_hdr_of FAF_GET_CASELIST \<lparr>acl_secs = of_nat n, acl_size = n * sizeof_case + sizeof_hdr\<rparr>)) n rs))
     else Inl Oob_access)"
proof -
  define h where "h = hdr_bytes (faf_hdr_of FAF_GET_CASELIST \<lparr>acl_secs = of_nat n, acl_size = n * sizeof_case + sizeof_hdr\<rparr>)"
  have h: "length h = sizeof_hdr" unfolding h_def by (rule hdr_bytes_length [OF hdr_fits_cmds(1)])
  have b: "poke 0 h (replicate (n * sizeof_case + sizeof_hdr) (CHR 0x00)) = Inr (fill_buf h n [])"
    using poke_zeros [OF h, of 0 "[]" "n * sizeof_case + sizeof_hdr"] by (simp add: fill_buf_def)
  have f: "filled num h n [] = (0, 0, fill_buf h n [])" by (simp add: filled_def page_def Let_def)
  have "(if index = 1 then fill_cases s num (f_list_case s) (0, 0, fill_buf h n [])
      else fill_events s num (Some 0) (f_list_repaired s) (0, 0, fill_buf h n [])) =
    (if length rs \<le> n then Inr (Some (filled num h n (case_rows s index))) else Inl Oob_access)"
    using fill_cases_page [OF assms(1) h, of s "f_list_case s" "[]" n]
      fill_events_page [OF assms(1) h, of s "f_list_repaired s" "[]" n 0] assms(3)
    by (auto simp: f case_rows_def reportable_def Let_def rs_def page_def)
  then show ?thesis
    using b resv_caselist [OF assms(1,2)]
    by (simp add: fmd_get_caselist_def Let_def filled_def rs_def flip: n_def h_def)
qed

lemma get_caselist_message:
  assumes "num_ok num" "reportable s index"
  defines "rs \<equiv> page (nat num) (case_rows s index)"
  shows "fmd_get_caselist s s num index = Inr (Some (faf_message FAF_GET_CASELIST (length rs) sizeof_case (map case_bytes rs)))"
  using get_caselist_passes [OF assms(1,2,2)] by (simp add: rs_def fill_buf_def faf_message_def)

lemma fill_modules_all:
  assumes "list_all (\<lambda>m. no_nul (mod_name m)) ms" "length h = sizeof_hdr + k * sizeof_module"
  shows "fill_modules ms (k, h @ replicate (length ms * sizeof_module) (CHR 0x00)) =
    Inr (k + length ms, h @ concat (map (module_bytes \<circ> module_row) ms))"
  using assms
proof (induction ms arbitrary: k h)
  case (Cons m ms)
  let ?b = "module_bytes (module_row m)"
  have f: "module_fits (module_row m)"
    using Cons.prems(1) by (auto simp: module_fits_def module_row_def no_nul_def dest: in_set_takeD)
  have "poke (sizeof_hdr + k * sizeof_module) ?b (h @ replicate (length (m # ms) * sizeof_module) (CHR 0x00)) =
      Inr ((h @ ?b) @ replicate (length ms * sizeof_module) (CHR 0x00))"
    using poke_zeros [OF module_bytes_length [OF f], of "sizeof_hdr + k * sizeof_module" h "length (m # ms) * sizeof_module"]
      Cons.prems(2) by simp
  then show ?case using Cons.IH [of "h @ ?b" "Suc k"] Cons.prems module_bytes_length [OF f] by simp
qed simp

lemma get_modlist_message:
  assumes "list_all (\<lambda>m. no_nul (mod_name m)) (d_module d)"
  shows "fmd_get_modlist d = Inr (faf_message FAF_GET_MODLIST (length (d_module d)) sizeof_module (map (module_bytes \<circ> module_row) (d_module d)))"
proof -
  let ?h = "hdr_bytes (faf_hdr_of FAF_GET_MODLIST (fmd_resv_modlist d))" and ?n = "length (d_module d)"
  have h: "length ?h = sizeof_hdr" by (rule hdr_bytes_length [OF hdr_fits_cmds(2)])
  have "poke 0 ?h (replicate (?n * sizeof_module + sizeof_hdr) (CHR 0x00)) = Inr (?h @ replicate (?n * sizeof_module) (CHR 0x00))"
    using poke_zeros [OF h, of 0 "[]" "?n * sizeof_module + sizeof_hdr"] by simp
  then show ?thesis using fill_modules_all [OF assms, of ?h 0] h
    by (simp add: fmd_get_modlist_def Let_def faf_message_def) (simp add: fmd_resv_modlist_def)
qed

end
