(* ===== verification/Fms_Registry.thy ===== *)
theory Fms_Registry
  imports Fms_Adm
begin

text \<open>
  What requests to the administration source do to the daemon: the module list, the agents known to the
  dispatcher and the timers of \<^verbatim>\<open>main\<close> stay in step under loading and unloading, and the invariant of the
  daemon (\<open>fmd_ok\<close>) is kept by every request.
\<close>

section \<open>The registry of plug-ins\<close>

fun agent_name :: "fmd_module \<Rightarrow> string list" where
  "agent_name (Mod_agent n) = [n]"
| "agent_name (Mod_evtsrc n i) = []"

fun src_name :: "fmd_module \<Rightarrow> string list" where
  "src_name (Mod_agent n) = []"
| "src_name (Mod_evtsrc n i) = [n]"

text \<open>The agents and the timers are those of the modules, in the same order.\<close>

definition registered :: "fmd_module list \<Rightarrow> daemon \<Rightarrow> bool" where
  "registered ms d \<longleftrightarrow> map am_mod_name (f_list_agent (d_fmd d)) = concat (map agent_name ms) \<and>
     map tm_module (d_timer d) = concat (map src_name ms)"

text \<open>The naming convention of the plug-ins: a full path, \<^verbatim>\<open>.so\<close>, and \<^verbatim>\<open>agent\<close> in the names of agents only.\<close>

definition named_ok :: "bool \<Rightarrow> string \<Rightarrow> bool" where
  "named_ok agent n \<longleftrightarrow> CHR ''/'' \<in> set n \<and> strstr n ''.so'' \<noteq> None \<and> (strstr n ''agent'' \<noteq> None \<longleftrightarrow> agent)"

fun mod_named :: "fmd_module \<Rightarrow> bool" where
  "mod_named (Mod_agent n) = named_ok True n"
| "mod_named (Mod_evtsrc n i) = named_ok False n"

definition registry_ok :: "admd \<Rightarrow> bool" where
  "registry_ok a \<longleftrightarrow> registered (d_module (a_daemon a)) (a_daemon a) \<and> list_all mod_named (d_module (a_daemon a)) \<and>
     a_lit a = replicate (length (d_module (a_daemon a))) False"

definition matches :: "string \<Rightarrow> fmd_module \<Rightarrow> bool" where
  "matches nm m \<longleftrightarrow> is_pfx (base_name (mod_name m)) nm"

lemma agent_name_in: "n \<in> set (agent_name m) \<Longrightarrow> mod_name m = n"
  by (cases m) auto

lemma src_name_in: "n \<in> set (src_name m) \<Longrightarrow> mod_name m = n"
  by (cases m) auto

lemma remove_first_skip: "list_all (\<lambda>x. \<not> P x) xs \<Longrightarrow> remove_first P (xs @ ys) = xs @ remove_first P ys"
  by (induction xs) auto

lemma map_remove_first: "map f (remove_first (\<lambda>x. f x = n) xs) = remove_first (\<lambda>y. y = n) (map f xs)"
  by (induction xs) auto

lemma subseq_remove_first: "subseq (remove_first P xs) xs"
  by (induction xs) auto

lemma unload_loop_result:
  assumes "list_all mod_named (ks @ ms)" "registered (ks @ ms) d" "list_all (\<lambda>m. \<not> matches nm m) ks"
  shows "\<exists>d'. unload_loop nm (zip ms (replicate (length ms) False)) d =
      Inr (if list_ex (matches nm) ms then 0 else -1,
           zip (filter (\<lambda>m. \<not> matches nm m) ms) (replicate (length (filter (\<lambda>m. \<not> matches nm m) ms)) False), d') \<and>
    registered (ks @ filter (\<lambda>m. \<not> matches nm m) ms) d' \<and> d_module d' = d_module d \<and>
    (\<exists>as. d_fmd d' = (d_fmd d)\<lparr>f_list_agent := as\<rparr> \<and> subseq as (f_list_agent (d_fmd d)))"
  using assms
proof (induction ms arbitrary: ks d)
  case Nil
  then show ?case by (auto intro!: exI [of _ d] exI [of _ "f_list_agent (d_fmd d)"])
next
  case (Cons m ms)
  let ?f = "filter (\<lambda>m. \<not> matches nm m)"
  have "CHR ''/'' \<in> set (mod_name m)" using Cons.prems(1) by (cases m) (auto simp: named_ok_def)
  then obtain p where p: "strrchr (mod_name m) (CHR ''/'') = Some p" using strrchr_ex by blast
  have b: "base_name (mod_name m) = tl p" by (simp add: base_name_def p)
  have mt: "strncmp_eq (tl p) nm (length (tl p)) \<longleftrightarrow> matches nm m" by (simp only: matches_def b strncmp_eq_len)
  show ?case
  proof (cases "matches nm m")
    case False
    then show ?thesis using Cons.IH [of "ks @ [m]" d] Cons.prems p mt by auto
  next
    case True
    have "\<exists>d1. free_module m False d = Inr d1 \<and> registered (ks @ ms) d1 \<and> d_module d1 = d_module d \<and>
      (\<exists>as. d_fmd d1 = (d_fmd d)\<lparr>f_list_agent := as\<rparr> \<and> subseq as (f_list_agent (d_fmd d)))"
    proof (cases m)
      case (Mod_agent n)
      have k: "list_all (\<lambda>x. x \<noteq> n) (concat (map agent_name ks))"
        using Cons.prems(3) True Mod_agent by (auto simp: list_all_iff matches_def dest!: agent_name_in)
      define as where "as = remove_first (\<lambda>g. am_mod_name g = n) (f_list_agent (d_fmd d))"
      have "map am_mod_name as = concat (map agent_name (ks @ ms))"
        using Cons.prems(2) Mod_agent remove_first_skip [OF k] unfolding as_def map_remove_first by (simp add: registered_def)
      moreover have "subseq as (f_list_agent (d_fmd d))" unfolding as_def by (rule subseq_remove_first)
      ultimately show ?thesis using Cons.prems(1,2) Mod_agent
        by (auto simp: free_module_def named_ok_def registered_def as_def)
    next
      case (Mod_evtsrc n i)
      have k: "list_all (\<lambda>x. x \<noteq> n) (concat (map src_name ks))"
        using Cons.prems(3) True Mod_evtsrc by (auto simp: list_all_iff matches_def dest!: src_name_in)
      define ts where "ts = remove_first (\<lambda>t. tm_module t = n) (d_timer d)"
      have "map tm_module ts = concat (map src_name (ks @ ms))"
        using Cons.prems(2) Mod_evtsrc remove_first_skip [OF k] unfolding ts_def map_remove_first by (simp add: registered_def)
      then show ?thesis using Cons.prems(1,2) Mod_evtsrc
        by (auto simp: free_module_def named_ok_def registered_def ts_def intro!: exI [of _ "f_list_agent (d_fmd d)"])
    qed
    then obtain d1 as where d1: "free_module m False d = Inr d1" "registered (ks @ ms) d1" "d_module d1 = d_module d"
      "d_fmd d1 = (d_fmd d)\<lparr>f_list_agent := as\<rparr>" "subseq as (f_list_agent (d_fmd d))" by blast
    from Cons.IH [of ks d1] Cons.prems(1,3) d1(2)
    obtain d2 as2 where d2: "unload_loop nm (zip ms (replicate (length ms) False)) d1 =
        Inr (if list_ex (matches nm) ms then 0 else -1, zip (?f ms) (replicate (length (?f ms)) False), d2)"
      "registered (ks @ ?f ms) d2" "d_module d2 = d_module d1" "d_fmd d2 = (d_fmd d1)\<lparr>f_list_agent := as2\<rparr>"
      "subseq as2 (f_list_agent (d_fmd d1))" by auto
    have "d_fmd d2 = (d_fmd d)\<lparr>f_list_agent := as2\<rparr>" "subseq as2 (f_list_agent (d_fmd d))"
      using d1(4,5) d2(4,5) subseq_order.trans by auto
    then show ?thesis using True p mt d1 d2 by (auto simp: Let_def)
  qed
qed

lemma fmd_ok_fewer:
  assumes ok: "fmd_ok s" and sub: "mset (concat (map held as)) \<subseteq># mset (inflight s)" and ag: "list_all agent_ok as"
  shows "fmd_ok (s\<lparr>f_list_agent := as\<rparr>)"
proof -
  let ?t = "s\<lparr>f_list_agent := as\<rparr>"
  have i: "inflight ?t = concat (map held as)" "waiting ?t = waiting s" by (simp_all add: inflight_def waiting_def)
  have si: "set (inflight ?t) \<subseteq> set (inflight s)" using set_mset_mono [OF sub] i(1) by simp
  have pins: "pins ?t p \<le> pins s p" for p
    unfolding pins_def i(1) using multiset_filter_mono [OF sub, of "unpins s p"] by (simp add: unpins_def size_mset_mono)
  have "case_ok ?t p" if "case_ok s p" for p
  proof -
    obtain c where c: "f_cases s p = Some c" "distinct (cs_event c)" "int (pins s p) \<le> m_event_using c"
      "\<forall>q \<in> set (cs_event c). listed_ok s p q" using \<open>case_ok s p\<close> unfolding case_ok_def by blast
    moreover have "int (pins ?t p) \<le> m_event_using c" using c(3) pins [of p] by linarith
    ultimately show ?thesis by (simp add: case_ok_def listed_ok_def)
  qed
  moreover have "flight_ok ?t x \<longleftrightarrow> flight_ok s x" "wait_ok ?t x \<longleftrightarrow> wait_ok s x" for x
    by (simp_all add: flight_ok_def wait_ok_def)
  ultimately show ?thesis using ok ag si i(2) by (auto simp: fmd_ok_def heap_ok_def list_all_iff)
qed

lemma subseq_held: "subseq as bs \<Longrightarrow> mset (concat (map held as)) \<subseteq># mset (concat (map held bs))"
  by (induction rule: list_emb.induct) (auto intro: subset_mset.add_increasing subset_mset.add_left_mono)

lemma subseq_subset: "subseq as bs \<Longrightarrow> set as \<subseteq> set bs"
  by (induction rule: list_emb.induct) auto

lemma fmd_ok_subseq: "fmd_ok s \<Longrightarrow> subseq as (f_list_agent s) \<Longrightarrow> fmd_ok (s\<lparr>f_list_agent := as\<rparr>)"
  using subseq_held [of as "f_list_agent s"] subseq_subset [of as "f_list_agent s"]
  by (intro fmd_ok_fewer) (auto simp: inflight_def fmd_ok_def list_all_iff)

lemma fmd_ok_new_agent:
  assumes "fmd_ok s" "agent_fresh m"
  shows "fmd_ok (s\<lparr>f_list_agent := m # f_list_agent s\<rparr>)"
proof (rule fmd_ok_fewer [OF assms(1)])
  have "held m = []" "agent_ok m" using assms(2)
    by (simp_all add: agent_fresh_def held_def hand_def agent_ok_def ring_quiet_init ring.abs_empty)
  then show "mset (concat (map held (m # f_list_agent s))) \<subseteq># mset (inflight s)" "list_all agent_ok (m # f_list_agent s)"
    using assms(1) by (simp_all add: inflight_def fmd_ok_def list_all_iff)
qed

lemma fmd_ok_agents_map:
  assumes "fmd_ok s" "\<And>m. held (f m) = held m \<and> agent_ok (f m) = agent_ok m"
  shows "fmd_ok (s\<lparr>f_list_agent := map f (f_list_agent s)\<rparr>)"
proof (rule fmd_ok_fewer [OF assms(1)])
  have "held \<circ> f = held" using assms(2) by (simp add: fun_eq_iff)
  then show "mset (concat (map held (map f (f_list_agent s)))) \<subseteq># mset (inflight s)" by (simp add: inflight_def)
  show "list_all agent_ok (map f (f_list_agent s))" using assms by (auto simp: fmd_ok_def list_all_iff)
qed

lemma unload_result:
  assumes "registry_ok a"
  shows "\<exists>a'. evt_unload_module path a = Inr (if list_ex (matches (base_name path)) (d_module (a_daemon a)) then 0 else -1, a') \<and>
    registry_ok a' \<and> d_module (a_daemon a') = filter (\<lambda>m. \<not> matches (base_name path) m) (d_module (a_daemon a)) \<and>
    a_fs a' = a_fs a \<and> (fmd_ok (d_fmd (a_daemon a)) \<longrightarrow> fmd_ok (d_fmd (a_daemon a')))"
proof -
  let ?ms = "d_module (a_daemon a)" and ?nm = "base_name path"
  let ?f = "filter (\<lambda>m. \<not> matches ?nm m)"
  have r: "list_all mod_named ?ms" "registered ?ms (a_daemon a)" "a_lit a = replicate (length ?ms) False"
    using assms by (auto simp: registry_ok_def)
  obtain d as where d: "unload_loop ?nm (zip ?ms (replicate (length ?ms) False)) (a_daemon a) =
      Inr (if list_ex (matches ?nm) ?ms then 0 else -1, zip (?f ?ms) (replicate (length (?f ?ms)) False), d)"
    "registered (?f ?ms) d" "d_fmd d = (d_fmd (a_daemon a))\<lparr>f_list_agent := as\<rparr>" "subseq as (f_list_agent (d_fmd (a_daemon a)))"
    using unload_loop_result [of "[]" ?ms "a_daemon a" ?nm] r by auto
  let ?a = "a\<lparr>a_daemon := d\<lparr>d_module := ?f ?ms\<rparr>, a_lit := replicate (length (?f ?ms)) False\<rparr>"
  have "list_all mod_named (?f ?ms)" using r(1) by (auto simp: list_all_iff)
  then have "registry_ok ?a" using d(2) by (simp add: registry_ok_def registered_def)
  moreover have "evt_unload_module path a = Inr (if list_ex (matches ?nm) ?ms then 0 else -1, ?a)"
    using d(1) r(3) by (simp add: evt_unload_module_def)
  moreover have "fmd_ok (d_fmd (a_daemon a)) \<longrightarrow> fmd_ok (d_fmd d)" using fmd_ok_subseq d(3,4) by simp
  ultimately show ?thesis by (intro exI [of _ ?a]) simp
qed


lemma agent_init_cases:
  assumes "agent_init fs p s = Inr (r, t)" "\<forall>path. subs_usable (fs path)"
  shows "(r = None \<and> t = s) \<or> (\<exists>m. r = Some (Mod_agent p) \<and> t = s\<lparr>f_list_agent := m # f_list_agent s\<rparr> \<and>
    agent_fresh m \<and> am_mod_name m = p)"
proof -
  obtain rc m where m: "agent_module_conf2 fs p (agent_new p) = Inr (rc, m)"
    "(if rc \<noteq> 0 then Inr (None, s) else rbind (agent_module_conf fs p m) (\<lambda>(rc, m).
         if rc < 0 then Inr (None, s)
         else Inr (Some (Mod_agent p), s\<lparr>f_list_agent := m # f_list_agent s\<rparr>))) = Inr (r, t)"
    using assms(1) unfolding agent_init_def rbind_eq_Inr by (auto simp del: rbind_eq_Inr)
  obtain x where x: "m = (agent_new p)\<lparr>am_evt_handle_mode := x\<rparr>"
    using m(1) by (auto simp: agent_module_conf2_def case_prod_beta)
  show ?thesis
  proof (cases "rc = 0")
    case True
    then obtain rc2 m2 where m2: "agent_module_conf fs p m = Inr (rc2, m2)"
      "if rc2 < 0 then r = None \<and> t = s else r = Some (Mod_agent p) \<and> t = s\<lparr>f_list_agent := m2 # f_list_agent s\<rparr>"
      using m(2) by (auto split: if_splits)
    have "agent_fresh m2 \<and> am_mod_name m2 = p" if nn: "\<not> rc2 < 0"
    proof -
      obtain f where cp: "conf_path p = Inr f" using m2(1) by (auto simp: agent_module_conf_def)
      obtain c where f: "fs f = Opened c" "m2 = m\<lparr>am_list_eclass := fold sub_line (fgets_lines NAME_LEN c) []\<rparr>"
        using m2(1) nn cp by (cases "fs f") (auto simp: agent_module_conf_def Let_def)
      have "list_all sub_ok (fold sub_line (fgets_lines NAME_LEN c) [])"
        using assms(2) [rule_format, of f] f(1) sub_lines_ok by (simp add: subs_usable_def)
      then show ?thesis unfolding f(2) x by (simp add: agent_fresh_def agent_new_def)
    qed
    with m2(2) show ?thesis by (cases "rc2 < 0") auto
  qed (use m(2) in simp)
qed

text \<open>The convention for the shared objects that can be loaded.\<close>

definition named_plugins :: "(string \<Rightarrow> so_kind) \<Rightarrow> bool" where
  "named_plugins dl \<longleftrightarrow> (\<forall>p. dl p \<noteq> So_bad \<longrightarrow> named_ok (dl p = So_agent) p)"

lemma init_module_cases:
  assumes "fmd_init_module fs dl p d = Inr (ret, d1)" "\<forall>path. subs_usable (fs path)"
  shows "(ret = -1 \<and> d1 = d) \<or> (ret = 0 \<and> dl p \<noteq> So_bad \<and> (\<exists>m. d_module d1 = m # d_module d \<and> mod_name m = p \<and>
      (dl p = So_agent \<longleftrightarrow> agent_name m = [p]) \<and>
      (registered (d_module d) d \<longrightarrow> registered (d_module d1) d1) \<and> (fmd_ok (d_fmd d) \<longrightarrow> fmd_ok (d_fmd d1))))"
proof (cases "dl p")
  case So_bad
  then show ?thesis using assms(1) by (simp add: fmd_init_module_def fmd_module_init_def)
next
  case So_evtsrc
  then show ?thesis using assms(1)
    by (auto simp: fmd_init_module_def fmd_module_init_def evtsrc_init_def timer_init_def registered_def
        split: if_splits prod.splits option.splits)
next
  case So_agent
  then obtain r t where rt: "agent_init fs p (d_fmd d) = Inr (r, t)"
    "r = None \<Longrightarrow> ret = -1 \<and> d1 = d\<lparr>d_fmd := t\<rparr>" "\<And>m. r = Some m \<Longrightarrow> ret = 0 \<and> d1 = d\<lparr>d_fmd := t, d_module := m # d_module d\<rparr>"
    using assms(1) by (fastforce simp: fmd_init_module_def fmd_module_init_def)
  from agent_init_cases [OF rt(1) assms(2)] show ?thesis
  proof
    assume "r = None \<and> t = d_fmd d"
    then show ?thesis using rt(2) by auto
  next
    assume "\<exists>m. r = Some (Mod_agent p) \<and> t = (d_fmd d)\<lparr>f_list_agent := m # f_list_agent (d_fmd d)\<rparr> \<and> agent_fresh m \<and> am_mod_name m = p"
    then obtain m where m: "r = Some (Mod_agent p)" "t = (d_fmd d)\<lparr>f_list_agent := m # f_list_agent (d_fmd d)\<rparr>"
      "agent_fresh m" "am_mod_name m = p" by blast
    have "d1 = d\<lparr>d_fmd := t, d_module := Mod_agent p # d_module d\<rparr>" "ret = 0" using rt(3) [OF m(1)] by auto
    then show ?thesis using m fmd_ok_new_agent [of "d_fmd d" m] So_agent by (auto simp: registered_def)
  qed
qed

lemma rename_named: "list_all mod_named ms \<Longrightarrow> map rename_mod ms = ms"
proof (induction ms)
  case (Cons m ms)
  then show ?case by (cases m) (auto simp: named_ok_def adm_rename_def)
qed simp

lemma registered_in:
  "registered ms d \<Longrightarrow> g \<in> set (f_list_agent (d_fmd d)) \<Longrightarrow> \<exists>m \<in> set ms. mod_name m = am_mod_name g"
  "registered ms d \<Longrightarrow> t \<in> set (d_timer d) \<Longrightarrow> \<exists>m \<in> set ms. mod_name m = tm_module t"
proof -
  assume r: "registered ms d"
  {
    assume "g \<in> set (f_list_agent (d_fmd d))"
    then have "am_mod_name g \<in> set (concat (map agent_name ms))" using r by (metis image_eqI list.set_map registered_def)
    then show "\<exists>m \<in> set ms. mod_name m = am_mod_name g" using agent_name_in by fastforce
  next
    assume "t \<in> set (d_timer d)"
    then have "tm_module t \<in> set (concat (map src_name ms))" using r by (metis image_eqI list.set_map registered_def)
    then show "\<exists>m \<in> set ms. mod_name m = tm_module t" using src_name_in by fastforce
  }
qed

lemma named_so: "mod_named m \<Longrightarrow> adm_rename (mod_name m) = mod_name m"
  by (cases m) (auto simp: named_ok_def adm_rename_def)

lemma rename_all_named:
  assumes "list_all mod_named (d_module d)" "registered (d_module d) d"
  shows "rename_all d = d"
proof -
  have "map (\<lambda>g. g\<lparr>am_mod_name := adm_rename (am_mod_name g)\<rparr>) (f_list_agent (d_fmd d)) = f_list_agent (d_fmd d)"
  proof (rule map_idI)
    fix g assume "g \<in> set (f_list_agent (d_fmd d))"
    then have "adm_rename (am_mod_name g) = am_mod_name g"
      using registered_in(1) [OF assms(2)] assms(1) named_so by (fastforce simp: list_all_iff)
    then show "g\<lparr>am_mod_name := adm_rename (am_mod_name g)\<rparr> = g" by simp
  qed
  moreover have "map (\<lambda>t. t\<lparr>tm_module := adm_rename (tm_module t)\<rparr>) (d_timer d) = d_timer d"
  proof (rule map_idI)
    fix t assume "t \<in> set (d_timer d)"
    then have "adm_rename (tm_module t) = tm_module t"
      using registered_in(2) [OF assms(2)] assms(1) named_so by (fastforce simp: list_all_iff)
    then show "t\<lparr>tm_module := adm_rename (tm_module t)\<rparr> = t" by simp
  qed
  ultimately show ?thesis using rename_named [OF assms(1)] by (simp add: rename_all_def)
qed

lemma load_result:
  assumes "registry_ok a" "named_plugins dl" "\<forall>path. subs_usable (a_fs a path)" "evt_load_module dl path a = Inr (ret, a')"
  shows "registry_ok a' \<and> a_fs a' = a_fs a \<and> (fmd_ok (d_fmd (a_daemon a)) \<longrightarrow> fmd_ok (d_fmd (a_daemon a'))) \<and>
    (if ret = 0 then path \<notin> mod_name ` set (d_module (a_daemon a)) \<and>
       (\<exists>m. mod_name m = path \<and> d_module (a_daemon a') = m # d_module (a_daemon a))
     else ret = -1 \<and> a' = a)"
proof (cases "check_mod_load (a_daemon a) path = -1")
  case True
  then show ?thesis using assms(1,4) by (auto simp: evt_load_module_def)
next
  case False
  then have fresh: "path \<notin> mod_name ` set (d_module (a_daemon a))" by (auto simp: check_mod_load_def list_ex_iff split: if_splits)
  obtain rc d1 where i: "fmd_init_module (a_fs a) dl path (a_daemon a) = Inr (rc, d1)"
    using assms(4) False by (auto simp: evt_load_module_def)
  from init_module_cases [OF i assms(3)] show ?thesis
  proof
    assume "rc = -1 \<and> d1 = a_daemon a"
    then show ?thesis using assms(1,4) False i by (simp add: evt_load_module_def)
  next
    assume r: "rc = 0 \<and> dl path \<noteq> So_bad \<and> (\<exists>m. d_module d1 = m # d_module (a_daemon a) \<and> mod_name m = path \<and>
      (dl path = So_agent \<longleftrightarrow> agent_name m = [path]) \<and> (registered (d_module (a_daemon a)) (a_daemon a) \<longrightarrow> registered (d_module d1) d1) \<and>
      (fmd_ok (d_fmd (a_daemon a)) \<longrightarrow> fmd_ok (d_fmd d1)))"
    then obtain m where m: "d_module d1 = m # d_module (a_daemon a)" "mod_name m = path" "dl path = So_agent \<longleftrightarrow> agent_name m = [path]"
      "registered (d_module d1) d1" using assms(1) by (auto simp: registry_ok_def)
    have "named_ok (dl path = So_agent) path" using assms(2) r by (simp add: named_plugins_def)
    then have "mod_named m" using m(2,3) by (cases m) auto
    then have nm: "list_all mod_named (d_module d1)" using m(1) assms(1) by (simp add: registry_ok_def)
    have a': "a' = a\<lparr>a_daemon := d1, a_lit := map2 (\<lambda>mp l. l \<or> strstr (mod_name mp) ''.so'' = None) (d_module d1) (False # a_lit a)\<rparr>" "ret = 0"
      using assms(4) False i r rename_all_named [OF nm m(4)] by (simp_all add: evt_load_module_def)
    have "map2 (\<lambda>mp l. l \<or> strstr (mod_name mp) ''.so'' = None) ms (replicate (length ms) False) = replicate (length ms) False"
      if "list_all mod_named ms" for ms using that
    proof (induction ms)
      case (Cons k ks)
      then show ?case by (cases k) (auto simp: named_ok_def)
    qed simp
    from this [OF nm] have "a_lit a' = replicate (length (d_module d1)) False"
      using a'(1) m(1) assms(1) by (simp add: registry_ok_def)
    then show ?thesis using a' m nm r fresh by (auto simp: registry_ok_def)
  qed
qed


lemma registered_mode: "registered ms (d\<lparr>d_fmd := set_agent_mode n mode (d_fmd d)\<rparr>) \<longleftrightarrow> registered ms d"
  by (simp add: registered_def set_agent_mode_def comp_def if_distrib [where f = am_mod_name] cong: if_cong)

lemma update_result:
  assumes "registry_ok a" "module_update_conf io module mode a = Inr (ret, a')"
  shows "registry_ok a' \<and> d_module (a_daemon a') = d_module (a_daemon a) \<and>
    (fmd_ok (d_fmd (a_daemon a)) \<longrightarrow> fmd_ok (d_fmd (a_daemon a')))"
proof -
  obtain fs d where u: "agent_module_update_conf io (Some module) None (Some AGENT_KEY_EVT_HANDLE_MODE) (Some mode) (a_fs a) (a_daemon a)
      = Inr (ret, fs, d)" "a' = a\<lparr>a_fs := fs, a_daemon := d\<rparr>" using assms(2) by (auto simp: module_update_conf_def)
  have "d = a_daemon a \<or> (\<exists>n m. d = (a_daemon a)\<lparr>d_fmd := set_agent_mode n m (d_fmd (a_daemon a))\<rparr>)"
    using u(1) by (auto simp: agent_module_update_conf_def split: if_splits option.splits fmd_module.splits)
  moreover have "fmd_ok s \<Longrightarrow> fmd_ok (set_agent_mode n m s)" for s n m
    unfolding set_agent_mode_def by (rule fmd_ok_agents_map) (simp_all add: held_def hand_def agent_ok_def)
  ultimately show ?thesis using assms(1) u(2) registered_mode by (auto simp: registry_ok_def)
qed


definition after_colon :: "string \<Rightarrow> string" where
  "after_colon buf = tl (dropWhile (\<lambda>c. c \<noteq> CHR '':'') buf)"

lemma strstr_colon: "strstr buf '':'' = (if CHR '':'' \<in> set buf then Some (dropWhile (\<lambda>c. c \<noteq> CHR '':'') buf) else None)"
  by (induction buf) (auto simp: is_pfx_def)

lemma adm_dispatch:
  "adm_request io dl s0 (''GET CASELIST'' @ r) a = adm_caselist s0 (''GET CASELIST'' @ r) a"
  "adm_request io dl s0 (''LOAD'' @ r) a = adm_load dl (''LOAD'' @ r) a"
  "adm_request io dl s0 (''UPDATE'' @ r) a = adm_update io (''UPDATE'' @ r) a"
  "adm_request io dl s0 (''UNLOAD'' @ r) a = adm_unload (''UNLOAD'' @ r) a"
  "adm_request io dl s0 (''GET MODLIST'' @ r) a = rbind (fmd_get_modlist (a_daemon a)) (\<lambda>msg. Inr (msg, a))"
  by (simp_all add: adm_request_def strncmp_eq_def)


text \<open>A daemon with no plug-ins yet, and one agent that can be loaded.\<close>

definition demo_admd :: admd where
  "demo_admd = \<lparr>a_daemon = demo_daemon, a_fs = demo_fs, a_lit = []\<rparr>"

definition demo_agent_dl :: "string \<Rightarrow> so_kind" where
  "demo_agent_dl p = (if p = ''/p/agent.disk.so'' then So_agent else So_bad)"

definition demo_upd_io :: upd_io where
  "demo_upd_io = \<lparr>io_create = True, io_mkstemp = True, io_fdopen = True, io_rename = True\<rparr>"

lemma demo_load_runs:
  "case adm_request demo_upd_io demo_agent_dl (d_fmd demo_daemon) ''LOAD:/p/agent.disk.so'' demo_admd of
     Inr (reply, a') \<Rightarrow> reply = ''load successed '' | Inl e \<Rightarrow> False"
  by code_simp


end
