(* ===== verification/Fms_AdmClient.thy ===== *)
theory Fms_AdmClient
  imports Fms_Registry
begin

text \<open>
  The administration library (\<^verbatim>\<open>lib/libadm/fmd_adm.c\<close>): it sends requests to the administration source and
  turns the replies into lists of cases and modules.

  Client and daemon use one queue in both directions: between the client's \<^verbatim>\<open>mq_send\<close> and its \<^verbatim>\<open>mq_receive\<close>
  the daemon may or may not have taken the request. What the rest of the system does in between is the
  parameter \<open>env\<close> of the exchange: the daemon's \<open>adm_probe\<close>, or nothing, in which case the client reads
  its own request.
\<close>

section \<open>The handle\<close>

type_synonym adm_sys = "mqueue \<times> admd"

record fmd_adm_caseinfo =
  aci_fru :: string
  aci_asru :: string
  aci_fafc :: faf_case

text \<open>An element of \<^verbatim>\<open>mod_list\<close> is a \<^verbatim>\<open>fmd_adm_modinfo_t\<close>, which holds just the \<^verbatim>\<open>faf_module_t\<close>.\<close>

record fmd_adm =
  adm_buf :: string
  adm_svcerr :: int
  adm_errno :: int
  adm_cs_list :: "fmd_adm_caseinfo list"
  adm_mod_list :: "faf_module list"

definition EPROTO :: int where "EPROTO = 71"
definition EREMOTE :: int where "EREMOTE = 66"
definition ENOTSUP :: int where "ENOTSUP = 95"

definition fmd_adm_open :: "mq_io \<Rightarrow> fmd_adm option" where
  "fmd_adm_open mio =
     (if mo_open mio \<and> mo_malloc mio
      then Some \<lparr>adm_buf = replicate ADM_BUF (CHR 0x00), adm_svcerr = 0, adm_errno = 0, adm_cs_list = [], adm_mod_list = []\<rparr>
      else None)"

text \<open>\<^verbatim>\<open>fmd_adm_close\<close> reads the handle before it tests it.\<close>

definition fmd_adm_close :: "fmd_adm option \<Rightarrow> unit res" where
  "fmd_adm_close ap = rbind (deref ap) (\<lambda>_. Inr ())"

text \<open>The messages of \<^verbatim>\<open>fmd_adm_svc_errmsg\<close> in the order of \<^verbatim>\<open>enum fmd_adm_error\<close>.\<close>

definition svc_errmsgs :: "string list" where
  "svc_errmsgs =
    [''unable to perform request due to allocation failure'',
     ''operation requires additional privilege'',
     ''specified module is not loaded in fault manager'',
     ''module is in use and cannot be unloaded'',
     ''module failed and can no longer export statistics'',
     ''file missing or cannot be accessed by fault manager'',
     ''module using same name is already loaded'',
     ''module failed to initialize (consult fmd(1M) log)'',
     ''module failed to load (consult fmd(1M) log)'',
     ''specified resource is not cached by fault manager'',
     ''specified resource is not known to be faulty'',
     ''specified serd engine not present in module'',
     ''specified serd engine has already fired'',
     ''invalid log file name'',
     ''failed to rotate log file (consult fmd(1M) log)'',
     ''log file is too busy to rotate (try again later)'',
     ''specified UUID is invalid or has been repaired'',
     ''specified UUID is still being diagnosed'',
     ''specified transport ID is invalid or has been closed'',
     ''specified UUID is owned by a different fault manager'',
     ''specified resource has not been replaced'']"

definition fmd_adm_svc_errmsg :: "int \<Rightarrow> string" where
  "fmd_adm_svc_errmsg err =
     (if 0 \<le> err \<and> nat err < length svc_errmsgs then svc_errmsgs ! nat err else ''unknown fault manager error'')"

text \<open>\<open>strerror\<close> is the message table of the C library.\<close>

definition fmd_adm_errmsg :: "(int \<Rightarrow> string) \<Rightarrow> int \<Rightarrow> fmd_adm option \<Rightarrow> string res" where
  "fmd_adm_errmsg strerror errno ap =
     (if ap = None \<and> errno = ENOTSUP then Inr ''client requires newer libfmd_adm version''
      else if ap = None \<and> errno = EPROTO then Inr ''failed to connect to fmd''
      else let n = (case ap of Some h \<Rightarrow> adm_errno h | None \<Rightarrow> errno) in
        if n = EPROTO then Inr ''message queue request failed''
        else rbind (deref ap) (\<lambda>h. Inr (if n = EREMOTE then fmd_adm_svc_errmsg (adm_svcerr h) else strerror (adm_errno h))))"

definition fmd_adm_set_errno :: "fmd_adm \<Rightarrow> int \<Rightarrow> int \<times> fmd_adm" where
  "fmd_adm_set_errno ap err = (-1, ap\<lparr>adm_errno := err\<rparr>)"

section \<open>One exchange\<close>

text \<open>The whole of the receive buffer, zeros included, is copied into \<^verbatim>\<open>adm_buf\<close>.\<close>

definition fmd_adm_get_list ::
  "mq_io \<Rightarrow> (adm_sys \<Rightarrow> adm_sys res) \<Rightarrow> string \<Rightarrow> fmd_adm \<Rightarrow> adm_sys \<Rightarrow> (int \<times> fmd_adm \<times> adm_sys) res" where
  "fmd_adm_get_list mio env cmd ap sys =
     (let (q, a) = sys in
      rbind (mq_send cmd q) (\<lambda>(ret, q1).
        if ret < 0 then Inr (-1, ap, q1, a)
        else if \<not> mo_getattr mio \<or> \<not> mo_malloc mio then Inr (-1, ap, q1, a)
        else rbind (env (q1, a)) (\<lambda>(q2, a2).
          if \<not> mo_receive mio then Inr (-1, ap, q2, a2)
          else rbind (mq_receive q2) (\<lambda>(m, q3).
            if ADM_BUF < mq_msgsize q3 then Inl Buf_overflow
            else Inr (0, ap\<lparr>adm_buf := cfield (mq_msgsize q3) m @ drop (mq_msgsize q3) (adm_buf ap)\<rparr>, q3, a2)))))"

text \<open>
  The loops of \<^verbatim>\<open>fmd_adm_get_caseinfo\<close> and \<^verbatim>\<open>fmd_adm_get_modinfo\<close> over \<open>n\<close> sections from offset \<open>off\<close>; each
  goes to the head of the list. The text is copied to \<^verbatim>\<open>aci_fru[256]\<close> up to its NUL.
\<close>

fun case_infos :: "string \<Rightarrow> nat \<Rightarrow> nat \<Rightarrow> fmd_adm_caseinfo list \<Rightarrow> fmd_adm_caseinfo list res" where
  "case_infos buf off 0 l = Inr l"
| "case_infos buf off (Suc n) l =
     (if length buf < off + sizeof_case then Inl Oob_access
      else rbind (fits 256 (cstr (drop off buf))) (\<lambda>t.
        case_infos buf (off + sizeof_case) n (\<lparr>aci_fru = t, aci_asru = [], aci_fafc = case_of_bytes (drop off buf)\<rparr> # l)))"

definition fmd_adm_get_caseinfo :: "fmd_adm \<Rightarrow> (int \<times> fmd_adm) res" where
  "fmd_adm_get_caseinfo ap =
     (let fafh = hdr_of (adm_buf ap); secnum = sint (fafh_secnum fafh)
      in if secnum = 0 then Inr (-1, ap)
         else rbind (case_infos (adm_buf ap) (unat (fafh_hdrsize fafh)) (nat secnum) (adm_cs_list ap)) (\<lambda>l.
           Inr (secnum, ap\<lparr>adm_cs_list := l\<rparr>)))"

fun mod_infos :: "string \<Rightarrow> nat \<Rightarrow> nat \<Rightarrow> faf_module list \<Rightarrow> faf_module list res" where
  "mod_infos buf off 0 l = Inr l"
| "mod_infos buf off (Suc n) l =
     (if length buf < off + sizeof_module then Inl Oob_access
      else mod_infos buf (off + sizeof_module) n (module_of_bytes (drop off buf) # l))"

definition fmd_adm_get_modinfo :: "fmd_adm \<Rightarrow> (int \<times> fmd_adm) res" where
  "fmd_adm_get_modinfo ap =
     (let fafh = hdr_of (adm_buf ap); secnum = sint (fafh_secnum fafh)
      in if secnum = 0 then Inr (-1, ap)
         else rbind (mod_infos (adm_buf ap) (unat (fafh_hdrsize fafh)) (nat secnum) (adm_mod_list ap)) (\<lambda>l.
           Inr (0, ap\<lparr>adm_mod_list := l\<rparr>)))"

section \<open>The requests\<close>

definition case_cmd :: "nat \<Rightarrow> int \<Rightarrow> string" where
  "case_cmd index ty = ''GET CASELIST:'' @ dec (to_int32 (FAF_NUM * int index)) @ '':'' @ dec ty"

text \<open>
  The loop of \<^verbatim>\<open>fmd_adm_case_iter\<close>: \<open>env index\<close> is what happens during the exchange with that number. The loop
  ends when a page is not full, so that its length depends on the daemon: \<open>None\<close> is that the fuel is used up.
\<close>

fun case_pages ::
  "nat \<Rightarrow> mq_io \<Rightarrow> (nat \<Rightarrow> adm_sys \<Rightarrow> adm_sys res) \<Rightarrow> int \<Rightarrow> int \<Rightarrow> nat \<Rightarrow> fmd_adm \<Rightarrow> adm_sys \<Rightarrow>
   (int \<times> fmd_adm \<times> adm_sys) res option" where
  "case_pages 0 mio env ty num index ap sys = None"
| "case_pages (Suc fuel) mio env ty num index ap sys =
     (if (num > 0 \<and> index = 0) \<or> num = 20 then
        (case rbind (fits 32 (case_cmd index ty)) (\<lambda>cmd. fmd_adm_get_list mio (env index) cmd ap sys) of
           Inl e \<Rightarrow> Some (Inl e)
         | Inr (ret, ap1, sys1) \<Rightarrow>
             if ret < 0 then (let (r, ap2) = fmd_adm_set_errno ap1 EPROTO in Some (Inr (r, ap2, sys1)))
             else (case fmd_adm_get_caseinfo ap1 of
                 Inl e \<Rightarrow> Some (Inl e)
               | Inr (num1, ap2) \<Rightarrow>
                   if num1 < 0 then Some (Inr (-1, ap2, sys1))
                   else case_pages fuel mio env ty num1 (index + 1) ap2 sys1))
      else Some (Inr (0, ap, sys)))"

definition fmd_adm_case_iter ::
  "nat \<Rightarrow> mq_io \<Rightarrow> (nat \<Rightarrow> adm_sys \<Rightarrow> adm_sys res) \<Rightarrow> fmd_adm \<Rightarrow> int \<Rightarrow> adm_sys \<Rightarrow> (int \<times> fmd_adm \<times> adm_sys) res option" where
  "fmd_adm_case_iter fuel mio env ap ty sys = case_pages fuel mio env ty 20 0 ap sys"

definition fmd_adm_mod_iter ::
  "mq_io \<Rightarrow> (adm_sys \<Rightarrow> adm_sys res) \<Rightarrow> fmd_adm \<Rightarrow> adm_sys \<Rightarrow> (int \<times> fmd_adm \<times> adm_sys) res" where
  "fmd_adm_mod_iter mio env ap sys =
     rbind (fmd_adm_get_list mio env ''GET MODLIST'' ap sys) (\<lambda>(ret, ap1, sys1).
       if ret \<noteq> 0 then (let (r, ap2) = fmd_adm_set_errno ap1 EPROTO in Inr (r, ap2, sys1))
       else rbind (fmd_adm_get_modinfo ap1) (\<lambda>(r, ap2). Inr (if r \<noteq> 0 then -1 else 0, ap2, sys1)))"

text \<open>
  The three requests with a text reply: the command is built in 128 bytes, the reply is refused when it
  contains the given text (the request itself, read back) or the word \<^verbatim>\<open>failed\<close>.
\<close>

definition adm_text_request ::
  "string \<Rightarrow> mq_io \<Rightarrow> (adm_sys \<Rightarrow> adm_sys res) \<Rightarrow> string \<Rightarrow> fmd_adm \<Rightarrow> adm_sys \<Rightarrow> (int \<times> fmd_adm \<times> adm_sys) res" where
  "adm_text_request own_text mio env cmd ap sys =
     rbind (fits 128 cmd) (\<lambda>cmd.
     rbind (fmd_adm_get_list mio env cmd ap sys) (\<lambda>(ret, ap1, sys1).
       if ret \<noteq> 0 then (let (r, ap2) = fmd_adm_set_errno ap1 EPROTO in Inr (r, ap2, sys1))
       else if strstr (cstr (adm_buf ap1)) own_text \<noteq> None then Inr (-1, ap1, sys1)
       else if strstr (cstr (adm_buf ap1)) ''failed'' \<noteq> None then Inr (-1, ap1, sys1)
       else Inr (0, ap1, sys1)))"

definition fmd_adm_load_module ::
  "mq_io \<Rightarrow> (adm_sys \<Rightarrow> adm_sys res) \<Rightarrow> fmd_adm \<Rightarrow> string \<Rightarrow> adm_sys \<Rightarrow> (int \<times> fmd_adm \<times> adm_sys) res" where
  "fmd_adm_load_module mio env ap path sys = adm_text_request ''LOAD:'' mio env (''LOAD:'' @ path) ap sys"

definition fmd_adm_unload_module ::
  "mq_io \<Rightarrow> (adm_sys \<Rightarrow> adm_sys res) \<Rightarrow> fmd_adm \<Rightarrow> string \<Rightarrow> adm_sys \<Rightarrow> (int \<times> fmd_adm \<times> adm_sys) res" where
  "fmd_adm_unload_module mio env ap path sys = adm_text_request ''UNLOAD:'' mio env (''UNLOAD:'' @ path) ap sys"

definition fmd_adm_config_module ::
  "mq_io \<Rightarrow> (adm_sys \<Rightarrow> adm_sys res) \<Rightarrow> fmd_adm \<Rightarrow> string \<Rightarrow> string \<Rightarrow> adm_sys \<Rightarrow> (int \<times> fmd_adm \<times> adm_sys) res" where
  "fmd_adm_config_module mio env ap module mode sys =
     adm_text_request ''UNLOAD:'' mio env (''CONFIG:'' @ module @ '':'' @ mode) ap sys"

section \<open>Exchanges with the daemon\<close>

definition mq_ready :: "mq_io \<Rightarrow> mqueue \<Rightarrow> bool" where
  "mq_ready mio q \<longleftrightarrow> mo_open mio \<and> mo_malloc mio \<and> mo_getattr mio \<and> mo_receive mio \<and>
     mq_msgs q = [] \<and> 1 \<le> mq_maxmsg q \<and> mq_msgsize q \<le> ADM_BUF"

lemma mq_same: "mq_msgs q = [] \<Longrightarrow> q\<lparr>mq_msgs := []\<rparr> = q"
  by simp

lemma exchange_ok:
  assumes "mq_ready mio q" "no_nul cmd" "length cmd \<le> mq_msgsize q" "length cmd < ADM_BUF"
    and "adm_request io dl s0 cmd a = Inr (reply, a')" "length reply \<le> mq_msgsize q"
  shows "fmd_adm_get_list mio (adm_probe mio io dl s0) cmd ap (q, a) =
    Inr (0, ap\<lparr>adm_buf := cfield (mq_msgsize q) reply @ drop (mq_msgsize q) (adm_buf ap)\<rparr>, q, a')"
  using assms by (auto simp: fmd_adm_get_list_def adm_probe_def mq_ready_def mq_send_def mq_receive_def cstr_id)

lemma exchange_own:
  assumes "mq_ready mio q" "length cmd \<le> mq_msgsize q"
  shows "fmd_adm_get_list mio Inr cmd ap (q, a) =
    Inr (0, ap\<lparr>adm_buf := cfield (mq_msgsize q) cmd @ drop (mq_msgsize q) (adm_buf ap)\<rparr>, q, a)"
  using assms by (auto simp: fmd_adm_get_list_def mq_ready_def mq_send_def mq_receive_def)

section \<open>Reading a case list\<close>

definition case_info :: "faf_case \<Rightarrow> fmd_adm_caseinfo" where
  "case_info r = \<lparr>aci_fru = fafc_fault r, aci_asru = [], aci_fafc = r\<rparr>"

lemma cstr_case_bytes: "case_fits r \<Longrightarrow> cstr (case_bytes r @ b) = fafc_fault r"
proof -
  assume "case_fits r"
  then have l: "length (fafc_fault r) < 128" "no_nul (fafc_fault r)" by (auto simp: case_fits_def)
  then obtain k where "128 - length (fafc_fault r) = Suc k" by (metis Suc_diff_Suc)
  then obtain x where "case_bytes r @ b = fafc_fault r @ CHR 0x00 # x" by (auto simp: case_bytes_def cfield_def)
  moreover have "cstr (s @ CHR 0x00 # x) = s" if "no_nul s" for s using that by (induction s) (auto simp: cstr_def no_nul_def)
  ultimately show ?thesis using l by simp
qed

lemma case_infos_rows:
  assumes "list_all case_fits rs"
  shows "case_infos (b @ concat (map case_bytes rs) @ z) (length b) (length rs) l = Inr (rev (map case_info rs) @ l)"
  using assms
proof (induction rs arbitrary: b l)
  case (Cons r rs)
  let ?buf = "b @ concat (map case_bytes (r # rs)) @ z"
  have d: "drop (length b) ?buf = case_bytes r @ concat (map case_bytes rs) @ z" by simp
  have f: "fits 256 (cstr (drop (length b) ?buf)) = Inr (fafc_fault r)"
    unfolding d using Cons.prems by (simp add: cstr_case_bytes case_fits_def fits_def)
  have c: "case_of_bytes (drop (length b) ?buf) = r" unfolding d using Cons.prems by (simp add: case_roundtrip)
  have le: "\<not> length ?buf < length b + sizeof_case" using Cons.prems by (simp add: case_bytes_length)
  have l: "length b + sizeof_case = length (b @ case_bytes r)" using Cons.prems by (simp add: case_bytes_length)
  have "case_infos ?buf (length b) (length (r # rs)) l = case_infos ?buf (length b + sizeof_case) (length rs) (case_info r # l)"
    using le f c by (simp add: case_info_def)
  also have "\<dots> = case_infos ((b @ case_bytes r) @ concat (map case_bytes rs) @ z) (length (b @ case_bytes r)) (length rs) (case_info r # l)"
    unfolding l by simp
  finally show ?case using Cons.IH [of "b @ case_bytes r" "case_info r # l"] Cons.prems by simp
qed simp

lemma faf_message_length:
  "list_all (\<lambda>r. length r = w) rows \<Longrightarrow> cmd = FAF_GET_CASELIST \<or> cmd = FAF_GET_MODLIST \<Longrightarrow>
   length (faf_message cmd n w rows) = sizeof_hdr + length rows * w"
proof -
  assume r: "list_all (\<lambda>r. length r = w) rows" and c: "cmd = FAF_GET_CASELIST \<or> cmd = FAF_GET_MODLIST"
  have "length (concat rows) = length rows * w" using r by (induction rows) auto
  then show ?thesis using c hdr_bytes_length [OF hdr_fits_cmds(1)] hdr_bytes_length [OF hdr_fits_cmds(2)]
    by (auto simp: faf_message_def)
qed

lemma secnum_of: "n < 128 \<Longrightarrow> sint (fafh_secnum (faf_hdr_of cmd \<lparr>acl_secs = of_nat n, acl_size = m\<rparr>)) = int n"
proof -
  assume n: "n < 128"
  have "ucast (of_nat n :: 8 word) = (word_of_int (int n) :: 32 word)" using n by (simp add: unsigned_of_nat take_bit_nat_eq_self)
  moreover have "sint (word_of_int (int n) :: 32 word) = int n" unfolding int_word_sint using n by simp
  ultimately show ?thesis by (simp add: faf_hdr_of_def)
qed

lemma caseinfo_of_message:
  assumes "list_all case_fits rs" "length rs \<le> 20" "adm_buf ap = faf_message FAF_GET_CASELIST (length rs) sizeof_case (map case_bytes rs) @ z"
  shows "fmd_adm_get_caseinfo ap = Inr (if rs = [] then (-1, ap)
    else (int (length rs), ap\<lparr>adm_cs_list := rev (map case_info rs) @ adm_cs_list ap\<rparr>))"
proof -
  define h where "h = faf_hdr_of FAF_GET_CASELIST \<lparr>acl_secs = of_nat (length rs), acl_size = length rs * sizeof_case + sizeof_hdr\<rparr>"
  have f: "hdr_fits h" unfolding h_def by (rule hdr_fits_cmds)
  have b: "adm_buf ap = hdr_bytes h @ concat (map case_bytes rs) @ z" using assms(3) by (simp add: faf_message_def h_def)
  have hd: "hdr_of (adm_buf ap) = h" unfolding b by (rule hdr_roundtrip [OF f])
  have s: "sint (fafh_secnum h) = int (length rs)" unfolding h_def using assms(2) by (intro secnum_of) simp
  have o: "unat (fafh_hdrsize h) = length (hdr_bytes h)" using hdr_bytes_length [OF f] by (simp add: h_def faf_hdr_of_def sizeof_hdr_def)
  show ?thesis using case_infos_rows [OF assms(1), of "hdr_bytes h" z "adm_cs_list ap"]
    by (simp add: fmd_adm_get_caseinfo_def Let_def hd s o b [symmetric])
qed


section \<open>All pages\<close>

lemma digits_plain: "c \<in> set (nat_str 10 n) \<Longrightarrow> c \<noteq> CHR '':'' \<and> c \<noteq> CHR 0x00"
  using nat_str_digits [of c n] by (auto simp: isdigit_def)

lemma nat_20: "nat (20 * int n) = 20 * n"
  by (simp add: nat_mult_distrib)

lemma case_cmd_eq: "20 * index < 2 ^ 31 \<Longrightarrow> case_cmd index (int ty) = ''GET CASELIST:'' @ nat_str 10 (20 * index) @ '':'' @ nat_str 10 ty"
proof -
  assume "20 * index < 2 ^ 31"
  then have "to_int32 (FAF_NUM * int index) = int (20 * index)" by (subst to_int32_id) (auto simp: FAF_NUM_def)
  then show ?thesis by (simp add: case_cmd_def dec_def nat_20)
qed

lemma strtok_three:
  assumes "a \<noteq> []" "b \<noteq> []" "c \<noteq> []" "CHR '':'' \<notin> set a \<union> set b \<union> set c"
  shows "strtok_all '':'' (a @ '':'' @ b @ '':'' @ c) = [a, b, c]"
  using assms strsep_all_token [of a "'':''" "CHR '':''" "b @ '':'' @ c"] strsep_all_token [of b "'':''" "CHR '':''" c]
    strsep_all_last [of c "'':''"] by (simp add: strtok_all_def)

lemma adm_case_request:
  assumes "20 * index + 20 < 2 ^ 31" "ty < 10" "reportable (d_fmd (a_daemon a)) (int ty)"
  defines "rs \<equiv> page (20 * index) (case_rows (d_fmd (a_daemon a)) (int ty))"
  shows "adm_request io dl (d_fmd (a_daemon a)) (case_cmd index (int ty)) a =
    Inr (faf_message FAF_GET_CASELIST (length rs) sizeof_case (map case_bytes rs), a)"
proof -
  let ?i = "nat_str 10 (20 * index)" and ?t = "nat_str 10 ty"
  have c: "case_cmd index (int ty) = ''GET CASELIST'' @ '':'' @ ?i @ '':'' @ ?t" using assms(1) by (subst case_cmd_eq) auto
  have ne: "?i \<noteq> []" "?t \<noteq> []" using nat_str_Cons by (metis list.distinct(1))+
  have "strtok_all '':'' (case_cmd index (int ty)) = [''GET CASELIST'', ?i, ?t]"
    unfolding c using ne digits_plain by (intro strtok_three) auto
  then have tk: "nth_tok (case_cmd index (int ty)) 1 = Some ?i" "nth_tok (case_cmd index (int ty)) 2 = Some ?t"
    by (simp_all add: nth_tok_def)
  have at: "atoi ?i = int (20 * index)" "atoi ?t = int ty"
    using atoi_dec [of "20 * index" "[]"] atoi_dec [of ty "[]"] assms(1,2) by simp_all
  have "num_ok (int (20 * index))" using assms(1) by (simp add: num_ok_def)
  from get_caselist_message [OF this assms(3)]
  have g: "fmd_get_caselist (d_fmd (a_daemon a)) (d_fmd (a_daemon a)) (int (20 * index)) (int ty) =
      Inr (Some (faf_message FAF_GET_CASELIST (length rs) sizeof_case (map case_bytes rs)))" by (simp add: rs_def nat_20)
  have "adm_request io dl (d_fmd (a_daemon a)) (case_cmd index (int ty)) a = adm_caselist (d_fmd (a_daemon a)) (case_cmd index (int ty)) a"
    unfolding c by (rule adm_dispatch)
  then show ?thesis using tk at g by (simp add: adm_caselist_def del: One_nat_def)
qed

lemma case_cmd_props:
  assumes "20 * index < 2 ^ 31" "ty < 10"
  shows "length (case_cmd index (int ty)) < 32" "no_nul (case_cmd index (int ty))"
proof -
  have "length (nat_str 10 (20 * index)) \<le> 10" "length (nat_str 10 ty) \<le> 1"
    using nat_str_length [of "20 * index" 10 9] nat_str_length [of ty 10 0] assms by simp_all
  then show "length (case_cmd index (int ty)) < 32" unfolding case_cmd_eq [OF assms(1)] by simp
  show "no_nul (case_cmd index (int ty))" unfolding case_cmd_eq [OF assms(1)] no_nul_def using digits_plain by auto
qed

lemma page_fits: "list_all case_fits rs \<Longrightarrow> list_all case_fits (page n rs)"
  by (auto simp: page_def list_all_iff dest: in_set_takeD in_set_dropD)

text \<open>One page.\<close>

definition pages_env :: "mq_io \<Rightarrow> upd_io \<Rightarrow> (string \<Rightarrow> so_kind) \<Rightarrow> admd \<Rightarrow> nat \<Rightarrow> adm_sys \<Rightarrow> adm_sys res" where
  "pages_env mio io dl a index = adm_probe mio io dl (d_fmd (a_daemon a))"

lemma one_page:
  assumes "mq_ready mio q" "3568 \<le> mq_msgsize q" "20 * index + 20 < 2 ^ 31" "ty < 10" "reportable (d_fmd (a_daemon a)) (int ty)"
    and "num = 20"
  defines "rs \<equiv> page (20 * index) (case_rows (d_fmd (a_daemon a)) (int ty))"
  obtains ap' where "adm_cs_list ap' = rev (map case_info rs) @ adm_cs_list ap"
    "case_pages (Suc fuel) mio (pages_env mio io dl a) (int ty) num index ap (q, a) =
      (if rs = [] then Some (Inr (-1, ap', q, a)) else case_pages fuel mio (pages_env mio io dl a) (int ty) (int (length rs)) (index + 1) ap' (q, a))"
proof -
  let ?m = "faf_message FAF_GET_CASELIST (length rs) sizeof_case (map case_bytes rs)"
  let ?ap = "ap\<lparr>adm_buf := cfield (mq_msgsize q) ?m @ drop (mq_msgsize q) (adm_buf ap)\<rparr>"
  have rf: "list_all case_fits rs" unfolding rs_def by (intro page_fits case_rows_fit assms(5))
  have r20: "length rs \<le> 20" by (simp add: rs_def page_def)
  have ml: "length ?m \<le> mq_msgsize q"
    using faf_message_length [of sizeof_case "map case_bytes rs" FAF_GET_CASELIST "length rs"] rf r20 assms(2)
    by (simp add: list_all_iff case_bytes_length sizeof_hdr_def sizeof_case_def)
  have lt: "20 * index < 2 ^ 31" using assms(3) by simp
  note cp = case_cmd_props [OF lt assms(4)]
  have "fmd_adm_get_list mio (pages_env mio io dl a index) (case_cmd index (int ty)) ap (q, a) = Inr (0, ?ap, q, a)"
    unfolding pages_env_def
    using cp assms(2) by (intro exchange_ok [OF assms(1) cp(2) _ _ adm_case_request [OF assms(3-5), folded rs_def] ml]) (auto simp: ADM_BUF_def)
  then have g: "rbind (fits 32 (case_cmd index (int ty))) (\<lambda>cmd. fmd_adm_get_list mio (pages_env mio io dl a index) cmd ap (q, a)) = Inr (0, ?ap, q, a)"
    using cp(1) by (simp add: fits_def)
  have i: "fmd_adm_get_caseinfo ?ap = Inr (if rs = [] then (-1, ?ap) else (int (length rs), ?ap\<lparr>adm_cs_list := rev (map case_info rs) @ adm_cs_list ?ap\<rparr>))"
    by (rule caseinfo_of_message [OF rf r20]) (simp add: cfield_def)
  show ?thesis
  proof (rule that [of "?ap\<lparr>adm_cs_list := rev (map case_info rs) @ adm_cs_list ap\<rparr>"])
    show "case_pages (Suc fuel) mio (pages_env mio io dl a) (int ty) num index ap (q, a) =
      (if rs = [] then Some (Inr (-1, ?ap\<lparr>adm_cs_list := rev (map case_info rs) @ adm_cs_list ap\<rparr>, q, a))
       else case_pages fuel mio (pages_env mio io dl a) (int ty) (int (length rs)) (index + 1) (?ap\<lparr>adm_cs_list := rev (map case_info rs) @ adm_cs_list ap\<rparr>) (q, a))"
      using i assms(6) by (cases "rs = []") (simp_all add: g)
  qed simp
qed


lemma case_pages_all:
  assumes "mq_ready mio q" "3568 \<le> mq_msgsize q" "ty < 10" "reportable (d_fmd (a_daemon a)) (int ty)"
    and "length (case_rows (d_fmd (a_daemon a)) (int ty)) + 40 < 2 ^ 31"
    and "20 * index \<le> length (case_rows (d_fmd (a_daemon a)) (int ty))"
    and "length (case_rows (d_fmd (a_daemon a)) (int ty)) div 20 + 1 < fuel + index"
  defines "rows \<equiv> case_rows (d_fmd (a_daemon a)) (int ty)"
  shows "\<exists>ap'. case_pages fuel mio (pages_env mio io dl a) (int ty) 20 index ap (q, a) =
      Some (Inr (if length rows mod 20 = 0 then -1 else 0, ap', q, a)) \<and>
    adm_cs_list ap' = rev (map case_info (drop (20 * index) rows)) @ adm_cs_list ap"
  using assms(6,7)
proof (induction fuel arbitrary: index ap)
  case 0
  then show ?case by (simp flip: rows_def)
next
  case (Suc fuel)
  let ?pg = "page (20 * index) rows"
  have ix: "20 * index \<le> length rows" "20 * index + 20 < 2 ^ 31" using Suc.prems(1) assms(5) by (simp_all flip: rows_def)
  obtain ap1 where ap1: "adm_cs_list ap1 = rev (map case_info ?pg) @ adm_cs_list ap"
    "case_pages (Suc fuel) mio (pages_env mio io dl a) (int ty) 20 index ap (q, a) =
      (if ?pg = [] then Some (Inr (-1, ap1, q, a)) else case_pages fuel mio (pages_env mio io dl a) (int ty) (int (length ?pg)) (index + 1) ap1 (q, a))"
    by (rule one_page [where fuel = fuel and io = io and dl = dl and ap = ap, OF assms(1,2) ix(2) assms(3,4) refl, folded rows_def])
  consider (none) "20 * index = length rows" | (full) "20 * index + 20 \<le> length rows"
    | (part) "20 * index < length rows" "length rows < 20 * index + 20" using ix(1) by linarith
  then show ?case
  proof cases
    case none
    then have "?pg = []" "drop (20 * index) rows = []" "length rows mod 20 = 0" by (auto simp: page_def simp flip: none)
    then show ?thesis using ap1 by auto
  next
    case full
    then have l: "length ?pg = 20" by (simp add: page_def)
    have "\<exists>ap'. case_pages fuel mio (pages_env mio io dl a) (int ty) 20 (index + 1) ap1 (q, a) =
        Some (Inr (if length rows mod 20 = 0 then -1 else 0, ap', q, a)) \<and>
      adm_cs_list ap' = rev (map case_info (drop (20 * (index + 1)) rows)) @ adm_cs_list ap1"
      using full Suc.prems(2) by (intro Suc.IH) (auto simp flip: rows_def)
    moreover have "drop (20 * index) rows = ?pg @ drop (20 * (index + 1)) rows"
      by (simp add: page_def) (metis add.commute append_take_drop_id drop_drop)
    moreover have "?pg \<noteq> []" using l by auto
    ultimately show ?thesis using ap1 l by auto
  next
    case part
    then have l: "?pg = drop (20 * index) rows" "?pg \<noteq> []" "length ?pg < 20" by (auto simp: page_def)
    have "length rows div 20 = index" using part by (intro div_nat_eqI) auto
    then obtain f where f: "fuel = Suc f" using Suc.prems(2) by (cases fuel) (auto simp flip: rows_def)
    have "length rows mod 20 \<noteq> 0" using part by presburger
    then show ?thesis using ap1 l f by auto
  qed
qed

text \<open>
  C15. The case list arrives complete. When the daemon answers each request, the client's loop ends after one
  request per twenty events (and one more), its list holds every event of every case in order, the last one
  first, with the text, state, count and times the daemon has, the queue is empty again and the daemon
  unchanged. The result is an error exactly when the number of events is a multiple of twenty (none
  included): the loop asks for one more page and takes the empty page for a failure.
\<close>

theorem case_list_complete:
  assumes "mq_ready mio q" "3568 \<le> mq_msgsize q" "ty < 10" "reportable (d_fmd (a_daemon a)) (int ty)"
  defines "rows \<equiv> case_rows (d_fmd (a_daemon a)) (int ty)"
  assumes "length rows + 40 < 2 ^ 31" "length rows div 20 + 1 < fuel"
  shows "\<exists>ap'. fmd_adm_case_iter fuel mio (pages_env mio io dl a) ap (int ty) (q, a) =
      Some (Inr (if length rows mod 20 = 0 then -1 else 0, ap', q, a)) \<and>
    adm_cs_list ap' = rev (map case_info rows) @ adm_cs_list ap"
  using case_pages_all [OF assms(1-4), where index = 0 and fuel = fuel and io = io and dl = dl and ap = ap] assms(6,7)
  by (simp add: fmd_adm_case_iter_def rows_def)

section \<open>The client reads its own request\<close>

lemma own_caseinfo:
  assumes "length cmd < 32" "40 \<le> n" "adm_buf ap = cfield n cmd @ z"
  shows "fmd_adm_get_caseinfo ap = Inr (-1, ap)" "fmd_adm_get_modinfo ap = Inr (-1, ap)"
proof -
  have "slice 36 4 (adm_buf ap) = replicate 4 (CHR 0x00)"
    using assms by (simp add: cfield_def slice_def min_def)
  then have "fafh_secnum (hdr_of (adm_buf ap)) = 0" by (simp add: hdr_of_def eval_nat_numeral)
  then show "fmd_adm_get_caseinfo ap = Inr (-1, ap)" "fmd_adm_get_modinfo ap = Inr (-1, ap)"
    by (simp_all add: fmd_adm_get_caseinfo_def fmd_adm_get_modinfo_def)
qed

lemma cstr_reply: "no_nul m \<Longrightarrow> length m < n \<Longrightarrow> cstr (cfield n m @ z) = m"
proof -
  assume m: "no_nul m" "length m < n"
  then obtain k where "n - length m = Suc k" by (metis Suc_diff_Suc)
  moreover have "cstr (s @ CHR 0x00 # x) = s" if "no_nul s" for s x using that by (induction s) (auto simp: cstr_def no_nul_def)
  ultimately show ?thesis using m by (simp add: cfield_def)
qed

lemma text_request_ok:
  assumes "mq_ready mio q" "no_nul cmd" "length cmd < 128" "128 \<le> mq_msgsize q"
    and "adm_request io dl s0 cmd a = Inr (reply, a')" "no_nul reply" "length reply < 128"
  shows "\<exists>ap'. adm_text_request own_text mio (adm_probe mio io dl s0) cmd ap (q, a) =
    Inr (if strstr reply own_text \<noteq> None \<or> strstr reply ''failed'' \<noteq> None then -1 else 0, ap', q, a')"
proof -
  have "fmd_adm_get_list mio (adm_probe mio io dl s0) cmd ap (q, a) =
      Inr (0, ap\<lparr>adm_buf := cfield (mq_msgsize q) reply @ drop (mq_msgsize q) (adm_buf ap)\<rparr>, q, a')"
    using assms by (intro exchange_ok [OF assms(1,2) _ _ assms(5)]) (auto simp: ADM_BUF_def)
  moreover have "cstr (cfield (mq_msgsize q) reply @ drop (mq_msgsize q) (adm_buf ap)) = reply"
    using assms(4,6,7) by (intro cstr_reply) auto
  ultimately show ?thesis using assms(3) by (simp add: adm_text_request_def fits_def)
qed

lemma text_request_own:
  assumes "mq_ready mio q" "no_nul cmd" "length cmd < 128" "128 \<le> mq_msgsize q"
  shows "\<exists>ap'. adm_text_request own_text mio Inr cmd ap (q, a) =
    Inr (if strstr cmd own_text \<noteq> None \<or> strstr cmd ''failed'' \<noteq> None then -1 else 0, ap', q, a)"
proof -
  have "fmd_adm_get_list mio Inr cmd ap (q, a) =
      Inr (0, ap\<lparr>adm_buf := cfield (mq_msgsize q) cmd @ drop (mq_msgsize q) (adm_buf ap)\<rparr>, q, a)"
    using assms by (intro exchange_own) auto
  moreover have "cstr (cfield (mq_msgsize q) cmd @ drop (mq_msgsize q) (adm_buf ap)) = cmd"
    using assms(2-4) by (intro cstr_reply) auto
  ultimately show ?thesis using assms(3) by (simp add: adm_text_request_def fits_def)
qed

lemma is_pfx_own: "strstr (p @ s) p \<noteq> None"
  using strstr_Some_iff [of "p @ s" p] by (metis append_Nil option.distinct(1))

text \<open>
  A request to load or unload a module is reported as it went. With the daemon answering, the client's
  load call returns 0 exactly when the module with that path was added at the head of the list, and -1 with
  the daemon unchanged otherwise; its unload call returns 0 exactly when modules were removed, and those are
  the ones whose file name is a prefix of the name. When the client reads its own request
  back from the shared queue, it says -1 and nothing has happened.
\<close>

theorem module_requests_reported:
  assumes "mq_ready mio q" "128 \<le> mq_msgsize q" "no_nul path" "length path < 121"
    and "registry_ok a" "named_plugins dl" "\<forall>p. subs_usable (a_fs a p)" "evt_load_module dl path a = Inr (rc, a1)"
  shows "\<exists>ap1 ap2 ap3 a2.
    fmd_adm_load_module mio (adm_probe mio io dl s0) ap path (q, a) = Inr (rc, ap1, q, a1) \<and>
    (if rc = 0 then map mod_name (d_module (a_daemon a1)) = path # map mod_name (d_module (a_daemon a)) else rc = -1 \<and> a1 = a) \<and>
    fmd_adm_unload_module mio (adm_probe mio io dl s0) ap path (q, a) =
      Inr (if d_module (a_daemon a2) = d_module (a_daemon a) then -1 else 0, ap2, q, a2) \<and>
    d_module (a_daemon a2) = filter (\<lambda>m. \<not> matches (base_name path) m) (d_module (a_daemon a)) \<and>
    fmd_adm_load_module mio Inr ap path (q, a) = Inr (-1, ap3, q, a) \<and>
    (\<exists>ap4. fmd_adm_unload_module mio Inr ap path (q, a) = Inr (-1, ap4, q, a))"
proof -
  have L: "adm_request io dl s0 (''LOAD:'' @ path) a = Inr (if rc = 0 then ''load successed '' else ''load failed '', a1)"
    using adm_dispatch(2) [of io dl s0 "'':'' @ path" a] assms(8) by (simp add: adm_load_def is_pfx_def)
  have lr: "if rc = 0 then map mod_name (d_module (a_daemon a1)) = path # map mod_name (d_module (a_daemon a)) else rc = -1 \<and> a1 = a"
    using load_result [OF assms(5-8)] by (auto split: if_splits)
  obtain a2 where u: "evt_unload_module path a = Inr (if list_ex (matches (base_name path)) (d_module (a_daemon a)) then 0 else -1, a2)"
    "d_module (a_daemon a2) = filter (\<lambda>m. \<not> matches (base_name path) m) (d_module (a_daemon a))"
    using unload_result [OF assms(5), of path] by blast
  have same: "d_module (a_daemon a2) = d_module (a_daemon a) \<longleftrightarrow> \<not> list_ex (matches (base_name path)) (d_module (a_daemon a))"
    unfolding u(2) by (simp add: filter_id_conv list_ex_iff)
  have U: "adm_request io dl s0 (''UNLOAD:'' @ path) a =
      Inr (if list_ex (matches (base_name path)) (d_module (a_daemon a)) then ''unload successed '' else ''unload failed '', a2)"
    using adm_dispatch(4) [of io dl s0 "'':'' @ path" a] u(1) by (simp add: adm_unload_def is_pfx_def)
  have nn: "no_nul (''LOAD:'' @ path)" "no_nul (''UNLOAD:'' @ path)" using assms(3) by (simp_all add: no_nul_def)
  obtain ap1 where 1: "fmd_adm_load_module mio (adm_probe mio io dl s0) ap path (q, a) = Inr (rc, ap1, q, a1)"
    using text_request_ok [OF assms(1) nn(1) _ assms(2) L, of "''LOAD:''" ap] assms(4) lr
    by (cases "rc = 0") (auto simp: fmd_adm_load_module_def no_nul_def is_pfx_def)
  obtain ap2 where 2: "fmd_adm_unload_module mio (adm_probe mio io dl s0) ap path (q, a) =
      Inr (if d_module (a_daemon a2) = d_module (a_daemon a) then -1 else 0, ap2, q, a2)"
    using text_request_ok [OF assms(1) nn(2) _ assms(2) U, of "''UNLOAD:''" ap] assms(4)
    unfolding same by (cases "list_ex (matches (base_name path)) (d_module (a_daemon a))") (auto simp: fmd_adm_unload_module_def no_nul_def is_pfx_def)
  obtain ap3 ap4 where 3: "fmd_adm_load_module mio Inr ap path (q, a) = Inr (-1, ap3, q, a)"
    "fmd_adm_unload_module mio Inr ap path (q, a) = Inr (-1, ap4, q, a)"
    using text_request_own [OF assms(1) nn(1) _ assms(2), of "''LOAD:''" ap a] is_pfx_own [of "''LOAD:''" path] 
      text_request_own [OF assms(1) nn(2) _ assms(2), of "''UNLOAD:''" ap a] is_pfx_own [of "''UNLOAD:''" path] assms(4)
    by (auto simp: fmd_adm_load_module_def fmd_adm_unload_module_def)
  show ?thesis using 1 2 3 lr u(2) by blast
qed

text \<open>
  Client and daemon share one queue: when the client reads its own request back before the daemon took it,
  asking for the cases or for the modules is an error, no list changes, nothing is left in the queue and the
  daemon is as before.
\<close>

theorem own_request_is_error:
  assumes "mq_ready mio q" "40 \<le> mq_msgsize q" "ty < 10"
  shows "\<exists>ap1 ap2. fmd_adm_case_iter (Suc fuel) mio (\<lambda>index. Inr) ap (int ty) (q, a) = Some (Inr (-1, ap1, q, a)) \<and>
    adm_cs_list ap1 = adm_cs_list ap \<and>
    fmd_adm_mod_iter mio Inr ap (q, a) = Inr (-1, ap2, q, a) \<and> adm_mod_list ap2 = adm_mod_list ap"
proof -
  let ?buf = "\<lambda>cmd. cfield (mq_msgsize q) cmd @ drop (mq_msgsize q) (adm_buf ap)"
  have c: "length (case_cmd 0 (int ty)) < 32" using case_cmd_props(1) [of 0 ty] assms(3) by simp
  have 1: "fmd_adm_get_list mio Inr (case_cmd 0 (int ty)) ap (q, a) = Inr (0, ap\<lparr>adm_buf := ?buf (case_cmd 0 (int ty))\<rparr>, q, a)"
    "fmd_adm_get_list mio Inr ''GET MODLIST'' ap (q, a) = Inr (0, ap\<lparr>adm_buf := ?buf ''GET MODLIST''\<rparr>, q, a)"
    using c assms(2) by (intro exchange_own [OF assms(1)]; simp)+
  have 2: "fmd_adm_get_caseinfo (ap\<lparr>adm_buf := ?buf (case_cmd 0 (int ty))\<rparr>) = Inr (-1, ap\<lparr>adm_buf := ?buf (case_cmd 0 (int ty))\<rparr>)"
    by (rule own_caseinfo(1) [OF c assms(2)]) simp
  have 3: "fmd_adm_get_modinfo (ap\<lparr>adm_buf := ?buf ''GET MODLIST''\<rparr>) = Inr (-1, ap\<lparr>adm_buf := ?buf ''GET MODLIST''\<rparr>)"
    by (rule own_caseinfo(2) [OF _ assms(2)]) simp_all
  have 4: "fits 32 (case_cmd 0 (int ty)) = Inr (case_cmd 0 (int ty))" using c by (simp add: fits_def)
  show ?thesis by (simp add: fmd_adm_case_iter_def fmd_adm_mod_iter_def 1 2 3 4)
qed

text \<open>
  Configuring a module through the library has no effect and is reported as a success: the request goes out
  under a name the daemon does not know, the daemon answers that it is illegal and changes nothing, and the
  client, which looks for other words in the answer, returns 0. This holds for every module and mode of
  ordinary length.
\<close>

theorem config_request_ineffective:
  assumes "mq_ready mio q" "128 \<le> mq_msgsize q" "no_nul module" "no_nul mode" "length module + length mode < 104"
    and "strstr (''CONFIG:'' @ module @ '':'' @ mode @ '' is illegal cmd '') ''UNLOAD:'' = None"
    and "strstr (''CONFIG:'' @ module @ '':'' @ mode @ '' is illegal cmd '') ''failed'' = None"
  shows "\<exists>ap'. fmd_adm_config_module mio (adm_probe mio io dl s0) ap module mode (q, a) = Inr (0, ap', q, a)"
proof -
  let ?cmd = "''CONFIG:'' @ module @ '':'' @ mode"
  have "adm_request io dl s0 ?cmd a = Inr (?cmd @ '' is illegal cmd '', a)"
    using assms(5) by (simp add: adm_request_def strncmp_eq_def adm_illegal_def fits_def)
  moreover have "no_nul ?cmd" "no_nul (?cmd @ '' is illegal cmd '')" using assms(3,4) by (simp_all add: no_nul_def)
  ultimately show ?thesis
    using text_request_ok [OF assms(1) _ _ assms(2), of ?cmd io dl s0 a "?cmd @ '' is illegal cmd ''" a "''UNLOAD:''" ap] assms(5-7)
    by (simp add: fmd_adm_config_module_def)
qed

lemma mod_infos_rows:
  assumes "list_all module_fits rs"
  shows "mod_infos (b @ concat (map module_bytes rs) @ z) (length b) (length rs) l = Inr (rev rs @ l)"
  using assms
proof (induction rs arbitrary: b l)
  case (Cons r rs)
  have l: "length (module_bytes r) = sizeof_module" using Cons.prems by (simp add: module_bytes_length)
  then have "mod_infos (b @ concat (map module_bytes (r # rs)) @ z) (length b) (length (r # rs)) l =
      mod_infos ((b @ module_bytes r) @ concat (map module_bytes rs) @ z) (length (b @ module_bytes r)) (length rs) (r # l)"
    using Cons.prems by (simp add: module_roundtrip)
  then show ?case using Cons.IH [of "b @ module_bytes r" "r # l"] Cons.prems by simp
qed simp

lemma modinfo_of_message:
  assumes "list_all module_fits rs" "length rs < 128" "rs \<noteq> []"
    and "adm_buf ap = faf_message FAF_GET_MODLIST (length rs) sizeof_module (map module_bytes rs) @ z"
  shows "fmd_adm_get_modinfo ap = Inr (0, ap\<lparr>adm_mod_list := rev rs @ adm_mod_list ap\<rparr>)"
proof -
  define h where "h = faf_hdr_of FAF_GET_MODLIST \<lparr>acl_secs = of_nat (length rs), acl_size = length rs * sizeof_module + sizeof_hdr\<rparr>"
  have f: "hdr_fits h" unfolding h_def by (rule hdr_fits_cmds)
  have b: "adm_buf ap = hdr_bytes h @ concat (map module_bytes rs) @ z" using assms(4) by (simp add: faf_message_def h_def)
  have hd: "hdr_of (adm_buf ap) = h" unfolding b by (rule hdr_roundtrip [OF f])
  have s: "sint (fafh_secnum h) = int (length rs)" unfolding h_def using assms(2) by (intro secnum_of) simp
  have o: "unat (fafh_hdrsize h) = length (hdr_bytes h)" using hdr_bytes_length [OF f] by (simp add: h_def faf_hdr_of_def sizeof_hdr_def)
  show ?thesis using mod_infos_rows [OF assms(1), of "hdr_bytes h" z "adm_mod_list ap"] assms(3)
    by (simp add: fmd_adm_get_modinfo_def Let_def hd s o b [symmetric])
qed

text \<open>
  The module list arrives complete, the last module first, with interval and name (up to 127 characters) as
  the daemon has them, whenever header and sections fit a message; with more modules than that the daemon's
  answer is refused by the queue and the client waits for ever.
\<close>

theorem module_list_roundtrip:
  fixes a :: admd
  defines "ms \<equiv> d_module (a_daemon a)"
  assumes "mq_ready mio q" "11 \<le> mq_msgsize q" "list_all (\<lambda>m. no_nul (mod_name m)) ms" "length ms < 128" "ms \<noteq> []"
  shows "if 48 + 136 * length ms \<le> mq_msgsize q
    then \<exists>ap'. fmd_adm_mod_iter mio (adm_probe mio io dl s0) ap (q, a) = Inr (0, ap', q, a) \<and>
      adm_mod_list ap' = rev (map module_row ms) @ adm_mod_list ap
    else fmd_adm_mod_iter mio (adm_probe mio io dl s0) ap (q, a) = Inl Would_block"
proof -
  let ?m = "faf_message FAF_GET_MODLIST (length ms) sizeof_module (map (module_bytes \<circ> module_row) ms)"
  have rq: "adm_request io dl s0 ''GET MODLIST'' a = Inr (?m, a)"
    using adm_dispatch(5) [of io dl s0 "[]" a] get_modlist_message [of "a_daemon a"] assms(4) by (simp add: ms_def)
  have rf: "list_all module_fits (map module_row ms)"
    using assms(4) by (auto simp: list_all_iff module_fits_def module_row_def no_nul_def dest: in_set_takeD)
  have ml: "length ?m = 48 + 136 * length ms"
    using faf_message_length [of sizeof_module "map (module_bytes \<circ> module_row) ms" FAF_GET_MODLIST "length ms"] rf
    by (simp add: list_all_iff module_bytes_length sizeof_hdr_def) (simp add: sizeof_module_def)
  show ?thesis
  proof (cases "48 + 136 * length ms \<le> mq_msgsize q")
    case True
    let ?ap = "ap\<lparr>adm_buf := cfield (mq_msgsize q) ?m @ drop (mq_msgsize q) (adm_buf ap)\<rparr>"
    have "fmd_adm_get_list mio (adm_probe mio io dl s0) ''GET MODLIST'' ap (q, a) = Inr (0, ?ap, q, a)"
      using True ml assms(3) by (intro exchange_ok [OF assms(2) _ _ _ rq]) (auto simp: no_nul_def ADM_BUF_def)
    moreover have "fmd_adm_get_modinfo ?ap = Inr (0, ?ap\<lparr>adm_mod_list := rev (map module_row ms) @ adm_mod_list ?ap\<rparr>)"
      using assms(5,6) by (intro modinfo_of_message [OF rf]) (auto simp: cfield_def)
    ultimately show ?thesis using True by (simp add: fmd_adm_mod_iter_def)
  next
    case False
    have "fmd_adm_get_list mio (adm_probe mio io dl s0) ''GET MODLIST'' ap (q, a) = Inl Would_block"
      using assms(2,3) False rq ml by (simp add: fmd_adm_get_list_def adm_probe_def mq_ready_def mq_send_def mq_receive_def ADM_BUF_def cstr_def)
    then show ?thesis using False by (simp add: fmd_adm_mod_iter_def)
  qed
qed

section \<open>Sample runs\<close>

definition demo_mq :: mqueue where
  "demo_mq = \<lparr>mq_msgs = [], mq_maxmsg = 10, mq_msgsize = 8192\<rparr>"

definition demo_mio :: mq_io where
  "demo_mio = \<lparr>mo_open = True, mo_malloc = True, mo_getattr = True, mo_receive = True\<rparr>"

definition demo_handle :: fmd_adm where
  "demo_handle = \<lparr>adm_buf = [], adm_svcerr = 0, adm_errno = 0, adm_cs_list = [], adm_mod_list = []\<rparr>"

lemma demo_mq_ready: "mq_ready demo_mio demo_mq" "mq_msgsize demo_mq = 8192"
  by (simp_all add: mq_ready_def demo_mio_def demo_mq_def ADM_BUF_def)

definition demo_case_event :: fmd_event where
  "demo_case_event = event_zero\<lparr>ev_dev_name := ''cpu'', ev_dev_id := 3, ev_class := ''ereport.cpu.x'', ev_count := 2,
     ev_create := 100, ev_last_occur := 200\<rparr>"

definition demo_case_fmd :: fmd where
  "demo_case_fmd = (fmd_init esc_init [] None)\<lparr>f_events := [1 \<mapsto> demo_case_event], f_cases := [2 \<mapsto>
     \<lparr>cs_dev_name = ''cpu'', cs_dev_id = 3, cs_last_eclass = [], cs_flag = CASE_FIRED, cs_total_count = 0, cs_fire_counts = 0,
       cs_create = 0, cs_first_fire = 0, cs_last_fire = 0, cs_close = 0, m_event_using = 0, cs_event = [1]\<rparr>], f_list_case := [2]\<rparr>"

definition demo_case_admd :: admd where
  "demo_case_admd = \<lparr>a_daemon = \<lparr>d_fmd = demo_case_fmd, d_timer = [], d_module = [Mod_evtsrc ''/p/adm_src.so'' 5]\<rparr>,
     a_fs = demo_fs, a_lit = [False]\<rparr>"

definition demo_row :: faf_case where
  "demo_row = \<lparr>fafc_fault = ''cpu3:ereport.cpu.x'', fafc_uuid = 0, fafc_rscid = 0, fafc_state = 1, fafc_count = 2,
     fafc_create = 100, fafc_fire = 200, fafc_close = 0\<rparr>"

lemma demo_rows: "reportable demo_case_fmd 1" "case_rows demo_case_fmd 1 = [demo_row]"
proof -
  have t: "fault_text demo_case_event = ''cpu3:ereport.cpu.x''" by code_simp
  have f: "faf_state CASE_FIRED = Some 1" by code_simp
  show "reportable demo_case_fmd 1"
    by (simp add: reportable_def demo_case_fmd_def case_live_def event_live_def text_ok_def t no_nul_def f)
  show "case_rows demo_case_fmd 1 = [demo_row]"
    by (simp add: case_rows_def demo_case_fmd_def rows_of_def event_row_def case_row_def t f demo_row_def)
      (simp add: demo_case_event_def)
qed

theorem case_list_complete_witness:
  "\<exists>ap'. fmd_adm_case_iter 2 demo_mio (pages_env demo_mio demo_upd_io demo_agent_dl demo_case_admd) demo_handle 1
      (demo_mq, demo_case_admd) = Some (Inr (0, ap', demo_mq, demo_case_admd)) \<and> adm_cs_list ap' = [case_info demo_row]"
  using case_list_complete [OF demo_mq_ready(1), of 1 demo_case_admd 2 demo_upd_io demo_agent_dl demo_handle] demo_rows
  by (simp add: demo_mq_ready demo_case_admd_def demo_handle_def)

theorem own_request_is_error_witness:
  "\<exists>ap1 ap2. fmd_adm_case_iter 1 demo_mio (\<lambda>index. Inr) demo_handle 1 (demo_mq, demo_admd) = Some (Inr (-1, ap1, demo_mq, demo_admd)) \<and>
    adm_cs_list ap1 = [] \<and> fmd_adm_mod_iter demo_mio Inr demo_handle (demo_mq, demo_admd) = Inr (-1, ap2, demo_mq, demo_admd) \<and>
    adm_mod_list ap2 = []"
  using own_request_is_error [OF demo_mq_ready(1), of 1 0 demo_handle demo_admd]
  by (simp add: demo_mq_ready) (simp add: demo_handle_def)

theorem config_request_ineffective_witness:
  "\<exists>ap'. fmd_adm_config_module demo_mio (adm_probe demo_mio demo_upd_io demo_agent_dl demo_case_fmd) demo_handle ''disk_agent'' ''auto''
     (demo_mq, demo_admd) = Inr (0, ap', demo_mq, demo_admd)"
  by (rule config_request_ineffective [OF demo_mq_ready(1)]) (simp_all add: demo_mq_ready no_nul_def is_pfx_def)

theorem module_list_roundtrip_witness:
  "\<exists>ap'. fmd_adm_mod_iter demo_mio (adm_probe demo_mio demo_upd_io demo_agent_dl demo_case_fmd) demo_handle (demo_mq, demo_case_admd) =
     Inr (0, ap', demo_mq, demo_case_admd) \<and> adm_mod_list ap' = [\<lparr>fafm_vers = 0, fafm_interval = 5, fafm_name = ''/p/adm_src.so''\<rparr>]"
  using module_list_roundtrip [OF demo_mq_ready(1), of demo_case_admd demo_upd_io demo_agent_dl demo_case_fmd demo_handle]
  by (simp add: demo_mq_ready demo_case_admd_def no_nul_def module_row_def demo_handle_def)

lemma demo_load_module: "\<exists>a1. evt_load_module demo_agent_dl ''/p/agent.disk.so'' demo_admd = Inr (0, a1)"
proof -
  have "case evt_load_module demo_agent_dl ''/p/agent.disk.so'' demo_admd of Inr (rc, a1) \<Rightarrow> rc = 0 | Inl e \<Rightarrow> False" by code_simp
  then show ?thesis by (auto split: sum.splits)
qed

theorem module_requests_reported_witness:
  "\<exists>ap1 a1. fmd_adm_load_module demo_mio (adm_probe demo_mio demo_upd_io demo_agent_dl demo_case_fmd) demo_handle ''/p/agent.disk.so''
     (demo_mq, demo_admd) = Inr (0, ap1, demo_mq, a1) \<and> map mod_name (d_module (a_daemon a1)) = [''/p/agent.disk.so'']"
proof -
  obtain a1 where a1: "evt_load_module demo_agent_dl ''/p/agent.disk.so'' demo_admd = Inr (0, a1)" using demo_load_module by blast
  have "subs_usable No_entry" "subs_usable (Opened demo_text)" by code_simp+
  then have u: "\<forall>path. subs_usable (a_fs demo_admd path)" by (simp add: demo_admd_def demo_fs_def)
  have "named_ok True ''/p/agent.disk.so''" by code_simp
  then have d: "named_plugins demo_agent_dl" by (simp add: named_plugins_def demo_agent_dl_def)
  have r: "registry_ok demo_admd"
    by (simp add: registry_ok_def registered_def demo_admd_def demo_daemon_def fmd_init_def)
  show ?thesis
    using module_requests_reported [OF demo_mq_ready(1) _ _ _ r d u a1, of demo_upd_io demo_case_fmd demo_handle]
    by (auto simp: demo_mq_ready no_nul_def demo_admd_def demo_daemon_def)
qed

end
