(* ===== verification/Fms_Fmsadm.thy ===== *)
theory Fms_Fmsadm
  imports Fms_AdmClient
begin

text \<open>
  The command \<^verbatim>\<open>fmsadm\<close> (\<^verbatim>\<open>tools/fmsadm\<close>): \<^verbatim>\<open>main\<close> with the table of subcommands, \<^verbatim>\<open>load\<close>, \<^verbatim>\<open>unload\<close>, \<^verbatim>\<open>modinfo\<close>,
  \<^verbatim>\<open>config\<close> (listing and editing the plug-ins' configuration files) and \<^verbatim>\<open>faulty\<close> (the table of faults).

  What a listing prints is modelled as text; single notices and log entries are not. The file system is the
  one the daemon reads (\<open>a_fs\<close>). The dictionary (a hash database), \<^verbatim>\<open>gmtime\<close>, \<^verbatim>\<open>access\<close>, the plug-in
  directory and standard input are parameters. \<open>Exit\<close> is a call of \<^verbatim>\<open>die\<close>, which ends the program with
  status 1.
\<close>

section \<open>Command lines\<close>

datatype outcome = Ret int | Exit int

definition FMADM_EXIT_SUCCESS :: int where "FMADM_EXIT_SUCCESS = 0"
definition FMADM_EXIT_ERROR :: int where "FMADM_EXIT_ERROR = 1"
definition FMADM_EXIT_USAGE :: int where "FMADM_EXIT_USAGE = 2"

text \<open>
  \<^verbatim>\<open>getopt\<close> of the C library called until it returns \<^verbatim>\<open>EOF\<close>: the options with their arguments, in order, and
  the operands. The first string is what is left of a group of options. \<open>?\<close> stands for an unknown option
  and for one whose argument is missing; an option without argument leaves \<^verbatim>\<open>optarg\<close> null.
\<close>

definition opt_kind :: "string \<Rightarrow> char \<Rightarrow> bool option" where
  "opt_kind spec c =
     (if c = CHR '':'' then None
      else case strchr spec c of None \<Rightarrow> None | Some r \<Rightarrow> Some (take 1 (tl r) = '':''))"

function getopt :: "string \<Rightarrow> string \<Rightarrow> string list \<Rightarrow> (char \<times> string option) list \<times> string list" where
  "getopt spec [] [] = ([], [])"
| "getopt spec [] (a # args) =
     (if a = ''--'' then ([], args)
      else if take 1 a = ''-'' \<and> a \<noteq> ''-'' then getopt spec (tl a) args
      else (let (os, r) = getopt spec [] args in (os, a # r)))"
| "getopt spec (c # cl) args =
     (case opt_kind spec c of
        None \<Rightarrow> (let (os, r) = getopt spec cl args in ((CHR ''?'', None) # os, r))
      | Some False \<Rightarrow> (let (os, r) = getopt spec cl args in ((c, None) # os, r))
      | Some True \<Rightarrow>
          if cl \<noteq> [] then (let (os, r) = getopt spec [] args in ((c, Some cl) # os, r))
          else (case args of
              [] \<Rightarrow> ([(CHR ''?'', None)], [])
            | x # xs \<Rightarrow> (let (os, r) = getopt spec [] xs in ((c, Some x) # os, r))))"
  by pat_completeness auto

termination
  by (relation "measure (\<lambda>(spec, cl, args). length cl + sum_list (map (\<lambda>a. Suc (length a)) args))") auto

section \<open>Loading, unloading, listing modules\<close>

definition PLUGIN_DIR :: string where "PLUGIN_DIR = ''/usr/lib/fms/plugins/''"

text \<open>\<open>exist\<close> is \<^verbatim>\<open>access(path, 0) == 0\<close>. The path is composed in 128 bytes.\<close>

definition load_path :: "string \<Rightarrow> string res" where
  "load_path path =
     fits 128 (case strstr path ''./'' of Some r \<Rightarrow> PLUGIN_DIR @ drop 2 r | None \<Rightarrow> path)"

definition load_module ::
  "(string \<Rightarrow> bool) \<Rightarrow> mq_io \<Rightarrow> (adm_sys \<Rightarrow> adm_sys res) \<Rightarrow> fmd_adm \<Rightarrow> string \<Rightarrow> adm_sys \<Rightarrow> (outcome \<times> adm_sys) res" where
  "load_module exist mio env adm path sys =
     (if \<not> exist path then Inr (Ret (-1), sys)
      else rbind (load_path path) (\<lambda>p.
        rbind (fmd_adm_load_module mio env adm p sys) (\<lambda>(r, adm1, sys1).
          Inr (if r \<noteq> 0 then Exit FMADM_EXIT_ERROR else Ret 0, sys1))))"

definition cmd_load ::
  "(string \<Rightarrow> bool) \<Rightarrow> mq_io \<Rightarrow> (adm_sys \<Rightarrow> adm_sys res) \<Rightarrow> fmd_adm \<Rightarrow> string list \<Rightarrow> adm_sys \<Rightarrow> (outcome \<times> adm_sys) res" where
  "cmd_load exist mio env adm argv sys =
     (if length argv \<noteq> 2 then Inr (Ret (-1), sys) else load_module exist mio env adm (argv ! 1) sys)"

definition unload_module ::
  "mq_io \<Rightarrow> (adm_sys \<Rightarrow> adm_sys res) \<Rightarrow> fmd_adm \<Rightarrow> string \<Rightarrow> adm_sys \<Rightarrow> (outcome \<times> adm_sys) res" where
  "unload_module mio env adm path sys =
     (if strstr path ''.so'' = None then Inr (Ret (-1), sys)
      else if strstr path ''adm_src.so'' \<noteq> None then Inr (Ret (-1), sys)
      else rbind (fmd_adm_unload_module mio env adm path sys) (\<lambda>(r, adm1, sys1).
        Inr (if r \<noteq> 0 then Exit FMADM_EXIT_ERROR else Ret 0, sys1)))"

definition cmd_unload ::
  "mq_io \<Rightarrow> (adm_sys \<Rightarrow> adm_sys res) \<Rightarrow> fmd_adm \<Rightarrow> string list \<Rightarrow> adm_sys \<Rightarrow> (outcome \<times> adm_sys) res" where
  "cmd_unload mio env adm argv sys =
     (if length argv \<noteq> 2 then Inr (Ret (-1), sys) else unload_module mio env adm (argv ! 1) sys)"

definition LF :: string where "LF = [CHR 0x0A]"

definition dashes :: "nat \<Rightarrow> string" where
  "dashes n = replicate n (CHR ''-'')"

definition get_module_info ::
  "mq_io \<Rightarrow> (adm_sys \<Rightarrow> adm_sys res) \<Rightarrow> fmd_adm \<Rightarrow> adm_sys \<Rightarrow> (outcome \<times> string \<times> adm_sys) res" where
  "get_module_info mio env adm sys =
     rbind (fmd_adm_mod_iter mio env adm sys) (\<lambda>(r, adm1, sys1).
       if r \<noteq> 0 then Inr (Exit FMADM_EXIT_ERROR, [], sys1)
       else Inr (Ret 0, ''fmd load module:'' @ LF @ concat (map (\<lambda>m. fafm_name m @ LF) (adm_mod_list adm1)), sys1))"

definition cmd_modinfo ::
  "mq_io \<Rightarrow> (adm_sys \<Rightarrow> adm_sys res) \<Rightarrow> fmd_adm \<Rightarrow> string list \<Rightarrow> adm_sys \<Rightarrow> (outcome \<times> string \<times> adm_sys) res" where
  "cmd_modinfo mio env adm argv sys =
     (if length argv \<noteq> 1 then Inr (Ret FMADM_EXIT_SUCCESS, [], sys) else get_module_info mio env adm sys)"

section \<open>Configuration files\<close>

definition PATH_MAX :: nat where "PATH_MAX = 4096"

text \<open>\<^verbatim>\<open>sprintf(filename, "%s%s.conf", dir, mod_name)\<close> in 50 bytes.\<close>

definition conf_file :: "string \<Rightarrow> string res" where
  "conf_file mod_nm = fits 50 (PLUGIN_DIR @ mod_nm @ ''.conf'')"

definition esc_file :: "string \<Rightarrow> string res" where
  "esc_file nm = fits 50 (''/usr/lib/fms/escdir/'' @ nm @ ''.esc'')"

text \<open>\<^verbatim>\<open>fmd_modname_print\<close>: up to the last dot, in 50 zeroed bytes. Its caller has found \<^verbatim>\<open>.conf\<close> in the name.\<close>

definition fmd_modname_print :: "string \<Rightarrow> string res" where
  "fmd_modname_print modname =
     rbind (deref (strrchr modname (CHR ''.''))) (\<lambda>p.
     rbind (fits 50 (take (length modname - length p) modname)) (\<lambda>t. Inr (t @ LF)))"

definition conf_of :: "string \<Rightarrow> string \<Rightarrow> bool" where
  "conf_of kind nm \<longleftrightarrow> strstr nm kind \<noteq> None \<and> strstr nm ''.conf'' \<noteq> None"

fun list_mod_loop :: "string list \<Rightarrow> string res" where
  "list_mod_loop [] = Inr []"
| "list_mod_loop (d_name # ds) =
     (if take 1 d_name = ''.'' then list_mod_loop ds
      else rbind (if conf_of ''_agent'' d_name then fmd_modname_print d_name else Inr []) (\<lambda>o1.
        rbind (if conf_of ''_src'' d_name then fmd_modname_print d_name else Inr []) (\<lambda>o2.
        rbind (list_mod_loop ds) (\<lambda>o3. Inr (o1 @ o2 @ o3)))))"

definition fmd_list_mod :: "string list option \<Rightarrow> (int \<times> string) res" where
  "fmd_list_mod dir =
     (case dir of None \<Rightarrow> Inr (-1, []) | Some ds \<Rightarrow> rbind (list_mod_loop ds) (\<lambda>out. Inr (0, out)))"

text \<open>\<^verbatim>\<open>is_digit\<close>: a number other than 0.\<close>

fun digit_loop :: "string \<Rightarrow> int \<Rightarrow> int" where
  "digit_loop [] nozore = (if nozore = 1 then 0 else -1)"
| "digit_loop (c # s) nozore =
     (if \<not> isdigit c then -1 else digit_loop s (if c \<noteq> CHR ''0'' then 1 else nozore))"

definition is_digit :: "string \<Rightarrow> int" where
  "is_digit str = digit_loop str 0"

text \<open>Appending to \<^verbatim>\<open>buffer[PATH_MAX]\<close> with \<^verbatim>\<open>sprintf(buffer, "%s...", buffer, ...)\<close>.\<close>

definition buf_add :: "string \<Rightarrow> string \<Rightarrow> string res" where
  "buf_add buffer s = fits PATH_MAX (buffer @ s)"

fun src_conf_loop :: "string \<Rightarrow> string list \<Rightarrow> string \<Rightarrow> string res" where
  "src_conf_loop arg_interval [] buffer = Inr buffer"
| "src_conf_loop arg_interval (buf # ls) buffer =
     rbind (buf_add buffer (if strncmp_eq buf ''interval '' 9 \<and> is_digit arg_interval = 0
         then ''interval '' @ arg_interval @ LF else buf)) (src_conf_loop arg_interval ls)"

text \<open>\<open>wr\<close> says whether the file can be opened for writing.\<close>

definition fmd_add_src_conf ::
  "bool \<Rightarrow> string \<Rightarrow> string \<Rightarrow> (string \<Rightarrow> fopen_res) \<Rightarrow> (int \<times> (string \<Rightarrow> fopen_res)) res" where
  "fmd_add_src_conf wr arg_interval mod_nm fs =
     rbind (conf_file mod_nm) (\<lambda>filename.
       if strstr mod_nm ''src'' = None then Inr (-1, fs)
       else case fs filename of
         Opened txt \<Rightarrow>
           rbind (src_conf_loop arg_interval (fgets_lines 256 txt) []) (\<lambda>buffer.
             if wr then Inr (0, fs(filename := Opened buffer)) else Inr (-1, fs))
       | _ \<Rightarrow> Inr (-1, fs))"

text \<open>\<^verbatim>\<open>check_sub_legal\<close>: no blank in the class.\<close>

definition check_sub_legal :: "string option \<Rightarrow> int" where
  "check_sub_legal sub = (case sub of None \<Rightarrow> -1 | Some s \<Rightarrow> if CHR '' '' \<in> set s then -1 else 0)"

text \<open>\<^verbatim>\<open>strncmp\<close> with an \<^verbatim>\<open>int\<close> for the length: a negative one is a huge \<^verbatim>\<open>size_t\<close>.\<close>

definition strncmp_int_eq :: "string \<Rightarrow> string \<Rightarrow> int \<Rightarrow> bool" where
  "strncmp_int_eq a b n = (if n < 0 then a = b else strncmp_eq a b (nat n))"

text \<open>
  \<^verbatim>\<open>check_esc\<close>. The statement under \<^verbatim>\<open>if(strstr(sub,"*") != NULL);\<close> is always executed: the last three
  characters of the class, one of them the newline, are never compared.
\<close>

definition esc_has :: "string \<Rightarrow> string list \<Rightarrow> bool" where
  "esc_has subclass ls \<longleftrightarrow> list_ex (\<lambda>escbuf. case strstr escbuf ''.'' of
       None \<Rightarrow> False | Some escclass \<Rightarrow> strncmp_int_eq subclass escclass (int (length subclass) - 3)) ls"

definition check_esc :: "(string \<Rightarrow> fopen_res) \<Rightarrow> string \<Rightarrow> string \<Rightarrow> int res" where
  "check_esc fs sub mod_nm =
     rbind (esc_file (case strtok_all ''_'' mod_nm of t # ts \<Rightarrow> t | [] \<Rightarrow> ''(null)'')) (\<lambda>escfile.
       case fs escfile of
         Opened txt \<Rightarrow>
           (case strstr sub ''subscribe:'' of
              None \<Rightarrow> Inr (-1)
            | Some subhead \<Rightarrow>
                if \<not> list_all (\<lambda>c. c = CHR '' '') (take (length sub - length subhead - 3) (drop 3 sub)) then Inr (-1)
                else if \<not> strncmp_eq (drop 10 subhead) ''event'' 5 then Inr (-1)
                else let subclass = strstr sub ''.'' in
                  if check_sub_legal subclass \<noteq> 0 then Inr (-1)
                  else (case subclass of
                      None \<Rightarrow> Inr (-1)
                    | Some c \<Rightarrow> Inr (if esc_has c (fgets_lines 256 txt) then 0 else -1)))
       | _ \<Rightarrow> Inr (-1))"

text \<open>
  \<^verbatim>\<open>check_sub_rep\<close>: a subscription that agrees with one of the file up to the shorter of the two is refused.
  A last line \<^verbatim>\<open>subscribe\<close> without newline is read past its end.
\<close>

definition star_len :: "string \<Rightarrow> string \<Rightarrow> int" where
  "star_len whole s = (if strstr whole ''*'' \<noteq> None then int (length s) - 3 else int (length s))"

fun sub_rep_loop :: "string \<Rightarrow> string list \<Rightarrow> int res" where
  "sub_rep_loop tmp [] = Inr 0"
| "sub_rep_loop tmp (buf # ls) =
     (case strstr buf ''subscribe'' of
        None \<Rightarrow> sub_rep_loop tmp ls
      | Some rep \<Rightarrow>
          if length rep < 10 then Inl Oob_access
          else let cmplen = min (star_len tmp (drop 10 tmp)) (star_len rep (drop 10 rep))
               in if strncmp_int_eq (drop 10 tmp) (drop 10 rep) cmplen then Inr (-1) else sub_rep_loop tmp ls)"

definition check_sub_rep :: "(string \<Rightarrow> fopen_res) \<Rightarrow> string \<Rightarrow> string \<Rightarrow> int res" where
  "check_sub_rep fs sub mod_nm =
     rbind (conf_file mod_nm) (\<lambda>modfile.
       case fs modfile of
         Opened txt \<Rightarrow>
           (case strstr sub ''subscribe:'' of
              None \<Rightarrow> Inr (-1)
            | Some tmp \<Rightarrow> sub_rep_loop tmp (fgets_lines 256 txt))
       | _ \<Rightarrow> Inr (-1))"

text \<open>
  \<^verbatim>\<open>fmd_add_agent_conf\<close>: for every line with a subscription the user is asked; \<open>inp\<close> holds the lines of standard
  input. \<open>edit_prompt\<close> is the inner loop on one such line: what is kept of it, whether the rest of the file is
  taken over unseen, and the input left. At the end of the input nothing is kept.
\<close>

fun edit_prompt ::
  "(string \<Rightarrow> fopen_res) \<Rightarrow> string \<Rightarrow> string \<Rightarrow> string \<Rightarrow> string list \<Rightarrow> (string \<times> bool \<times> string list) res" where
  "edit_prompt fs mod_nm buf buffer [] = Inr (buffer, False, [])"
| "edit_prompt fs mod_nm buf buffer (buff # inp) =
     (if strncmp_eq buff ''add'' 3 then
        rbind (check_esc fs buff mod_nm) (\<lambda>e.
        rbind (if e = 0 then check_sub_rep fs buff mod_nm else Inr (-1)) (\<lambda>r.
          if r = 0 then
            rbind (buf_add buffer buf) (\<lambda>b1.
            rbind (deref (strstr buff '':'')) (\<lambda>tmp.
            rbind (buf_add b1 (''subscribe '' @ tl tmp)) (\<lambda>b2. Inr (b2, False, inp))))
          else edit_prompt fs mod_nm buf buffer inp))
      else if strncmp_eq buff ''del'' 3 \<and> length buff = 4 then Inr (buffer, False, inp)
      else if strncmp_eq buff ''quit'' 4 \<and> length buff = 5 then rbind (buf_add buffer buf) (\<lambda>b. Inr (b, True, inp))
      else if strncmp_eq buff LF 1 then rbind (buf_add buffer buf) (\<lambda>b. Inr (b, False, inp))
      else edit_prompt fs mod_nm buf buffer inp)"

fun edit_loop ::
  "(string \<Rightarrow> fopen_res) \<Rightarrow> string \<Rightarrow> bool \<Rightarrow> string list \<Rightarrow> string \<Rightarrow> string list \<Rightarrow> string res" where
  "edit_loop fs mod_nm ready [] buffer inp = Inr buffer"
| "edit_loop fs mod_nm ready (buf # ls) buffer inp =
     (if ready then rbind (buf_add buffer buf) (\<lambda>b. edit_loop fs mod_nm True ls b inp)
      else if strstr buf ''subscribe'' = None then edit_loop fs mod_nm False ls buffer inp
      else rbind (edit_prompt fs mod_nm buf buffer inp) (\<lambda>(b, ready', inp'). edit_loop fs mod_nm ready' ls b inp'))"

definition fmd_add_agent_conf ::
  "bool \<Rightarrow> string list \<Rightarrow> string \<Rightarrow> (string \<Rightarrow> fopen_res) \<Rightarrow> (int \<times> (string \<Rightarrow> fopen_res)) res" where
  "fmd_add_agent_conf wr inp mod_nm fs =
     rbind (conf_file mod_nm) (\<lambda>filename.
       if strstr mod_nm ''agent'' = None then Inr (-1, fs)
       else case fs filename of
         Opened txt \<Rightarrow>
           rbind (edit_loop fs mod_nm False (fgets_lines 256 txt) [] inp) (\<lambda>buffer.
             if wr then Inr (0, fs(filename := Opened buffer)) else Inr (-1, fs))
       | _ \<Rightarrow> Inr (-1, fs))"

text \<open>\<^verbatim>\<open>fmd_show_conf\<close>: the interval of an event source, the subscriptions of an agent.\<close>

definition show_line :: "string \<Rightarrow> string \<Rightarrow> string" where
  "show_line mod_nm buffer =
     (if take 1 buffer = LF \<or> take 1 buffer = ''#'' then []
      else if strstr mod_nm ''src'' \<noteq> None then
        (if strncmp_eq buffer ''interval '' 9 then mod_nm @ [CHR 0x09, CHR 0x09] @ buffer else [])
      else if strstr mod_nm ''agent'' \<noteq> None then
        (if strncmp_eq buffer ''subscribe '' 10 then mod_nm @ [CHR 0x09, CHR 0x09] @ buffer else [])
      else [])"

definition fmd_show_conf :: "string \<Rightarrow> (string \<Rightarrow> fopen_res) \<Rightarrow> (int \<times> string) res" where
  "fmd_show_conf mod_nm fs =
     rbind (conf_file mod_nm) (\<lambda>filename.
       case fs filename of
         Opened txt \<Rightarrow> Inr (0, concat (map (show_line mod_nm) (fgets_lines PATH_MAX txt)))
       | _ \<Rightarrow> Inr (-1, []))"

section \<open>The subcommand \<^verbatim>\<open>config\<close>\<close>

record cfg_opts =
  opt_l :: nat
  opt_s :: nat
  opt_i :: nat
  opt_b :: nat
  opt_m :: nat
  arg_module :: string
  arg_interval :: string
  arg_mode :: string

definition cfg_opts_init :: cfg_opts where
  "cfg_opts_init = \<lparr>opt_l = 0, opt_s = 0, opt_i = 0, opt_b = 0, opt_m = 0, arg_module = [], arg_interval = [], arg_mode = []\<rparr>"

text \<open>
  The loop over the options: the first component is a value returned early. \<^verbatim>\<open>-b\<close> copies from \<^verbatim>\<open>optarg\<close> though
  the option string gives it no argument.
\<close>

fun cfg_options :: "(char \<times> string option) list \<Rightarrow> cfg_opts \<Rightarrow> (int option \<times> cfg_opts) res" where
  "cfg_options [] st = Inr (None, st)"
| "cfg_options ((c, optarg) # os) st =
     (if c = CHR ''l'' then cfg_options os (st\<lparr>opt_l := opt_l st + 1\<rparr>)
      else if c = CHR ''s'' then
        rbind (deref optarg) (\<lambda>x. rbind (fits 256 x) (\<lambda>y. cfg_options os (st\<lparr>opt_s := opt_s st + 1, arg_module := y\<rparr>)))
      else if c = CHR ''i'' then
        rbind (deref optarg) (\<lambda>x. rbind (fits 256 x) (\<lambda>y. cfg_options os (st\<lparr>opt_i := opt_i st + 1, arg_interval := y\<rparr>)))
      else if c = CHR ''b'' then
        rbind (deref optarg) (\<lambda>x. rbind (fits 256 x) (\<lambda>y. cfg_options os (st\<lparr>opt_b := opt_b st + 1\<rparr>)))
      else if c = CHR ''m'' then
        rbind (deref optarg) (\<lambda>x. rbind (fits 256 x) (\<lambda>y. cfg_options os (st\<lparr>opt_m := opt_m st + 1, arg_mode := y\<rparr>)))
      else if c = CHR ''h'' \<or> c = CHR ''?'' then Inr (Some FMADM_EXIT_SUCCESS, st)
      else Inr (Some FMADM_EXIT_USAGE, st))"

definition cfg_conflict :: "cfg_opts \<Rightarrow> bool" where
  "cfg_conflict st \<longleftrightarrow>
     (opt_l st = 1 \<and> opt_s st = 1) \<or> (opt_l st = 1 \<and> opt_i st = 1) \<or> (opt_l st = 1 \<and> opt_b st = 1) \<or>
     (opt_s st = 1 \<and> opt_i st = 1) \<or> (opt_s st = 1 \<and> opt_b st = 1) \<or> (opt_i st = 1 \<and> opt_b st = 1) \<or>
     (opt_m st = 1 \<and> opt_i st = 1) \<or> (opt_m st = 1 \<and> opt_l st = 1) \<or> (opt_m st = 1 \<and> opt_s st = 1) \<or>
     (opt_m st = 1 \<and> opt_b st = 1)"

text \<open>What a run of the tool depends on. \<open>te_env index\<close> is what happens during the exchange with that number.\<close>

record tool_env =
  te_mio :: mq_io
  te_env :: "nat \<Rightarrow> adm_sys \<Rightarrow> adm_sys res"
  te_fuel :: nat
  te_exist :: "string \<Rightarrow> bool"
  te_dir :: "string list option"
  te_wr :: bool
  te_stdin :: "string list"
  te_dict :: "(string \<Rightarrow> string option) option"
  te_gmtime :: "int \<Rightarrow> tm"

definition config_module :: "tool_env \<Rightarrow> fmd_adm \<Rightarrow> string \<Rightarrow> string \<Rightarrow> adm_sys \<Rightarrow> (int \<times> adm_sys) res" where
  "config_module te adm module mode sys =
     rbind (fmd_adm_config_module (te_mio te) (te_env te 0) adm module mode sys) (\<lambda>(r, adm1, sys1). Inr (r, sys1))"

definition exit_if :: "int \<Rightarrow> outcome" where
  "exit_if rt = Ret (if rt \<noteq> 0 then FMADM_EXIT_ERROR else FMADM_EXIT_SUCCESS)"

definition sys_fs :: "adm_sys \<Rightarrow> string \<Rightarrow> fopen_res" where
  "sys_fs sys = a_fs (snd sys)"

definition put_fs :: "(string \<Rightarrow> fopen_res) \<Rightarrow> adm_sys \<Rightarrow> adm_sys" where
  "put_fs fs sys = (fst sys, (snd sys)\<lparr>a_fs := fs\<rparr>)"

definition list_head :: string where
  "list_head = dashes 41 @ LF @ ''Module:'' @ LF @ dashes 41 @ LF"

definition show_head :: string where
  "show_head = dashes 23 @ '' '' @ dashes 47 @ LF @ ''Module                  Configuration'' @ LF @
     dashes 23 @ '' '' @ dashes 47 @ LF"

text \<open>The part of \<^verbatim>\<open>cmd_config\<close> after the options.\<close>

definition config_action :: "tool_env \<Rightarrow> fmd_adm \<Rightarrow> nat \<Rightarrow> cfg_opts \<Rightarrow> adm_sys \<Rightarrow> (outcome \<times> string \<times> adm_sys) res" where
  "config_action te adm argc st sys =
     (if opt_l st = 1 \<and> argc = 2 then
        rbind (fmd_list_mod (te_dir te)) (\<lambda>(rt, out). Inr (exit_if rt, list_head @ out, sys))
      else if opt_l st > 1 then Inr (Ret FMADM_EXIT_SUCCESS, [], sys)
      else if opt_s st = 1 \<and> argc = 3 then
        rbind (fmd_show_conf (arg_module st) (sys_fs sys)) (\<lambda>(rt, out). Inr (exit_if rt, show_head @ out, sys))
      else if opt_s st > 1 then Inr (Ret FMADM_EXIT_SUCCESS, [], sys)
      else if opt_b st = 1 \<and> argc = 3 then
        rbind (fmd_add_agent_conf (te_wr te) (te_stdin te) (arg_module st) (sys_fs sys)) (\<lambda>(rt, fs). Inr (exit_if rt, [], put_fs fs sys))
      else if opt_b st > 1 then Inr (Ret FMADM_EXIT_SUCCESS, [], sys)
      else if opt_m st = 1 \<and> argc = 4 then
        rbind (config_module te adm (arg_module st) (arg_mode st) sys) (\<lambda>(rt, sys1). Inr (exit_if rt, [], sys1))
      else if opt_i st = 1 \<and> argc = 4 then
        rbind (fmd_add_src_conf (te_wr te) (arg_interval st) (arg_module st) (sys_fs sys)) (\<lambda>(rt, fs). Inr (exit_if rt, [], put_fs fs sys))
      else Inr (Ret FMADM_EXIT_SUCCESS, [], sys))"

definition cmd_config :: "tool_env \<Rightarrow> fmd_adm \<Rightarrow> string list \<Rightarrow> adm_sys \<Rightarrow> (outcome \<times> string \<times> adm_sys) res" where
  "cmd_config te adm argv sys =
     (let (os, operands) = getopt ''ls:i:m:bh?'' [] (tl argv) in
      rbind (cfg_options os cfg_opts_init) (\<lambda>(early, st).
        case early of
          Some rt \<Rightarrow> Inr (Ret rt, [], sys)
        | None \<Rightarrow>
            rbind (case operands of [] \<Rightarrow> Inr (arg_module st) | x # xs \<Rightarrow> fits 256 x) (\<lambda>m.
              if operands \<noteq> [] \<and> m = [] then Inr (Ret FMADM_EXIT_USAGE, [], sys)
              else if length argv = 1 then Inr (Ret FMADM_EXIT_ERROR, [], sys)
              else if cfg_conflict st then Inr (Ret FMADM_EXIT_ERROR, [], sys)
              else config_action te adm (length argv) (st\<lparr>arg_module := m\<rparr>) sys)))"

section \<open>The subcommand \<^verbatim>\<open>faulty\<close>\<close>

record status_record =
  sr_severity :: "string option"
  sr_msgid :: "string option"
  sr_class :: "string option"
  sr_fru :: "string option"
  sr_last_occur :: "64 word"
  sr_state :: "8 word"
  sr_count :: "32 word"
  sr_create :: "64 word"

definition status_record_alloc :: status_record where
  "status_record_alloc = \<lparr>sr_severity = None, sr_msgid = None, sr_class = None, sr_fru = None, sr_last_occur = 0,
     sr_state = 0, sr_count = 0, sr_create = 0\<rparr>"

text \<open>The C library prints a null string as \<^verbatim>\<open>(null)\<close>.\<close>

definition pstr :: "string option \<Rightarrow> string" where
  "pstr p = (case p of Some s \<Rightarrow> s | None \<Rightarrow> ''(null)'')"

definition format_date :: "(int \<Rightarrow> tm) \<Rightarrow> int \<Rightarrow> string res" where
  "format_date gmtime secs =
     (let m = gmtime secs in
      fits 64 (dec (tm_year m + 1900) @ ''-'' @ pad0 2 (dec (tm_mon m + 1)) @ ''-'' @ pad0 2 (dec (tm_mday m)) @ '' '' @
        pad0 2 (dec ((tm_hour m + 8) mod 24)) @ '':'' @ pad0 2 (dec (tm_min m)) @ '':'' @ pad0 2 (dec (tm_sec m)) @ [CHR 0x09]))"

text \<open>
  The body of the loop of \<^verbatim>\<open>get_cases_from_fmd\<close>: the text up to the first colon is the device, the rest up to the
  next the class; without a colon the device is the second component of the class.
\<close>

definition fru_class :: "string \<Rightarrow> (string option \<times> string option) res" where
  "fru_class fault =
     (case strtok_all '':'' fault of
        [] \<Rightarrow> Inl Null_deref
      | [f] \<Rightarrow> Inr (case strtok_all ''.'' f of t # u # ts \<Rightarrow> Some u | [t] \<Rightarrow> None | [] \<Rightarrow> Some f, Some f)
      | f # c # ts \<Rightarrow> Inr (Some f, Some c))"

definition case_record :: "(string \<Rightarrow> string option) \<Rightarrow> fmd_adm_caseinfo \<Rightarrow> status_record res" where
  "case_record dict aci =
     rbind (fru_class (fafc_fault (aci_fafc aci))) (\<lambda>(fru, class).
       let msgid = (case class of Some c \<Rightarrow> dict c | None \<Rightarrow> None) in
       rbind (fits 32 (pstr msgid @ ''.severity'')) (\<lambda>key.
         Inr (status_record_alloc\<lparr>sr_fru := fru, sr_class := class, sr_state := fafc_state (aci_fafc aci),
           sr_count := fafc_count (aci_fafc aci), sr_create := fafc_create (aci_fafc aci),
           sr_last_occur := fafc_fire (aci_fafc aci), sr_msgid := msgid, sr_severity := dict key\<rparr>)))"

fun case_records :: "(string \<Rightarrow> string option) \<Rightarrow> fmd_adm_caseinfo list \<Rightarrow> status_record list \<Rightarrow> status_record list res" where
  "case_records dict [] l = Inr l"
| "case_records dict (aci # as) l = rbind (case_record dict aci) (\<lambda>srp. case_records dict as (srp # l))"

text \<open>
  \<^verbatim>\<open>fmd_adm_case_dbiter\<close> opens the dictionary and starts an iteration over \<^verbatim>\<open>hdbcase\<close>, a database object it never opens. A
  new object has no file descriptor (\<^verbatim>\<open>tchdbclear\<close>), and \<^verbatim>\<open>tchdbiterinit\<close> refuses such an object. \<open>None\<close> would be
  the rest of the function, which is not reached.
\<close>

record tchdb =
  hdb_fd :: int

definition tchdbnew :: tchdb where
  "tchdbnew = \<lparr>hdb_fd = -1\<rparr>"

definition tchdbiterinit :: "tchdb \<Rightarrow> bool" where
  "tchdbiterinit hdb \<longleftrightarrow> \<not> hdb_fd hdb < 0"

definition fmd_adm_case_dbiter :: "tool_env \<Rightarrow> int option" where
  "fmd_adm_case_dbiter te = (if te_dict te = None \<or> \<not> tchdbiterinit tchdbnew then Some (-1) else None)"

text \<open>\<open>None\<close> is that the fuel for the client's loop is used up.\<close>

definition get_cases_from_fmd ::
  "tool_env \<Rightarrow> fmd_adm \<Rightarrow> string \<Rightarrow> adm_sys \<Rightarrow> (outcome \<times> status_record list \<times> adm_sys) res option" where
  "get_cases_from_fmd te adm type sys =
     (if strncmp_eq type ''repaired'' 8 then map_option (\<lambda>r. Inr (Ret r, [], sys)) (fmd_adm_case_dbiter te)
      else case te_dict te of
        None \<Rightarrow> Some (Inr (Ret (-1), [], sys))
      | Some dict \<Rightarrow>
          (case fmd_adm_case_iter (te_fuel te) (te_mio te) (te_env te) adm 1 sys of
             None \<Rightarrow> None
           | Some (Inl e) \<Rightarrow> Some (Inl e)
           | Some (Inr (r, adm1, sys1)) \<Rightarrow>
               Some (if r \<noteq> 0 then Inr (Exit FMADM_EXIT_ERROR, [], sys1)
                     else rbind (case_records dict (adm_cs_list adm1) []) (\<lambda>l. Inr (Ret FMADM_EXIT_SUCCESS, l, sys1)))))"

definition fru_head :: string where
  "fru_head = dashes 24 @ ''  '' @ dashes 23 @ ''  '' @ dashes 38 @ ''  '' @ dashes 11 @ LF @
     ''    DEV NAME             '' @ ''          TIME                 '' @ ''      FAULT CLASS      '' @
     ''              COUNTS'' @ LF @ dashes 24 @ ''  '' @ dashes 23 @ ''  '' @ dashes 38 @ ''  '' @ dashes 11 @ LF"

text \<open>\<^verbatim>\<open>print_fru\<close>: one line per record. A record that did not occur again gets the time of its creation.\<close>

definition fru_fix :: "status_record \<Rightarrow> status_record" where
  "fru_fix srp = (if sr_last_occur srp = 0 then srp\<lparr>sr_last_occur := sr_create srp\<rparr> else srp)"

definition fru_line :: "(int \<Rightarrow> tm) \<Rightarrow> status_record \<Rightarrow> string res" where
  "fru_line gmtime srp =
     rbind (format_date gmtime (sint (sr_last_occur (fru_fix srp)))) (\<lambda>buf.
       Inr (LF @ pad_right 28 (pstr (sr_fru srp)) @ pad_right 25 buf @ '' '' @ pad_right 40 (pstr (sr_class srp)) @ '' '' @
         pad_right 10 (dec (sint (sr_count srp))) @ LF))"

fun fru_lines :: "(int \<Rightarrow> tm) \<Rightarrow> status_record list \<Rightarrow> string res" where
  "fru_lines gmtime [] = Inr []"
| "fru_lines gmtime (srp # l) = rbind (fru_line gmtime srp) (\<lambda>a. rbind (fru_lines gmtime l) (\<lambda>b. Inr (a @ b)))"

definition print_fru :: "(int \<Rightarrow> tm) \<Rightarrow> status_record list \<Rightarrow> (string \<times> status_record list) res" where
  "print_fru gmtime l = rbind (fru_lines gmtime l) (\<lambda>t. Inr (fru_head @ t, map fru_fix l))"

text \<open>\<^verbatim>\<open>print_dict_info_line\<close>: the key is composed in 32 bytes.\<close>

definition print_dict_info_line :: "(string \<Rightarrow> string option) \<Rightarrow> string \<Rightarrow> string \<Rightarrow> string res" where
  "print_dict_info_line dict msgid linehdr =
     rbind (fits 32 (msgid @ ''.'' @ linehdr)) (\<lambda>key.
       Inr ((case dict key of Some cp \<Rightarrow> linehdr @ '': '' @ cp @ LF | None \<Rightarrow> []) @ LF))"

definition print_dict_info :: "(string \<Rightarrow> string option) \<Rightarrow> string \<Rightarrow> status_record \<Rightarrow> string res" where
  "print_dict_info dict msgid srp =
     rbind (print_dict_info_line dict msgid ''class'') (\<lambda>a.
     rbind (print_dict_info_line dict msgid ''description'') (\<lambda>b.
     rbind (print_dict_info_line dict msgid ''response'') (\<lambda>c.
     rbind (print_dict_info_line dict msgid ''impact'') (\<lambda>d.
     rbind (print_dict_info_line dict msgid ''action'') (\<lambda>e.
       Inr (LF @ a @ (case sr_fru srp of Some f \<Rightarrow> ''FRU : '' @ f @ LF | None \<Rightarrow> []) @ LF @ b @ c @ d @ e @ LF))))))"

definition status_head :: string where
  "status_head = dashes 21 @ '' '' @ dashes 14 @ ''  '' @ dashes 15 @ LF @ ''TIME'' @ ''                     ERROR-ID'' @
     ''         SEVERITY'' @ LF @ dashes 21 @ '' '' @ dashes 14 @ '' '' @ '' '' @ dashes 15 @ LF"

definition print_status_record :: "(int \<Rightarrow> tm) \<Rightarrow> (string \<Rightarrow> string option) \<Rightarrow> string \<Rightarrow> status_record \<Rightarrow> string res" where
  "print_status_record gmtime dict msgid srp =
     rbind (format_date gmtime (sint (sr_last_occur srp))) (\<lambda>buf.
     rbind (print_dict_info dict msgid srp) (\<lambda>info.
       Inr (status_head @ pad_right 20 buf @ pad_right 18 msgid @ pstr (sr_severity srp) @ LF @ info)))"

text \<open>
  \<^verbatim>\<open>print_catalog\<close>: the records whose class is known to the dictionary and does not start with \<^verbatim>\<open>list\<close>, all of
  them when \<open>max\<close> is 0 and the first \<open>max\<close> otherwise.
\<close>

definition catalog_skip :: "status_record \<Rightarrow> bool res" where
  "catalog_skip srp = rbind (deref (sr_class srp)) (\<lambda>c. Inr (strncmp_eq c ''list'' 4 \<or> sr_msgid srp = None))"

fun print_catalog :: "(int \<Rightarrow> tm) \<Rightarrow> (string \<Rightarrow> string option) \<Rightarrow> bool \<Rightarrow> int \<Rightarrow> status_record list \<Rightarrow> string res" where
  "print_catalog gmtime dict limited max_n [] = Inr []"
| "print_catalog gmtime dict limited max_n (srp # l) =
     (if limited \<and> max_n \<le> 0 then Inr []
      else rbind (catalog_skip srp) (\<lambda>skip.
        if skip then print_catalog gmtime dict limited max_n l
        else rbind (print_status_record gmtime dict (pstr (sr_msgid srp)) srp) (\<lambda>a.
          rbind (print_catalog gmtime dict limited (max_n - 1) l) (\<lambda>b. Inr (LF @ a @ b)))))"

record faulty_opts =
  fo_s :: nat
  fo_v :: nat
  fo_t :: "string option"
  fo_max :: int

fun faulty_options :: "(char \<times> string option) list \<Rightarrow> faulty_opts \<Rightarrow> (int option \<times> faulty_opts) res" where
  "faulty_options [] st = Inr (None, st)"
| "faulty_options ((c, optarg) # os) st =
     (if c = CHR ''s'' then faulty_options os (st\<lparr>fo_s := fo_s st + 1\<rparr>)
      else if c = CHR ''v'' then faulty_options os (st\<lparr>fo_v := fo_v st + 1\<rparr>)
      else if c = CHR ''n'' then rbind (deref optarg) (\<lambda>x. faulty_options os (st\<lparr>fo_max := atoi x\<rparr>))
      else if c = CHR ''t'' then faulty_options os (st\<lparr>fo_t := optarg\<rparr>)
      else if c = CHR ''h'' \<or> c = CHR ''?'' then Inr (Some FMADM_EXIT_SUCCESS, st)
      else Inr (Some FMADM_EXIT_USAGE, st))"

text \<open>
  The part of \<^verbatim>\<open>cmd_faulty\<close> after the records are there. A negative \<^verbatim>\<open>-n\<close> prints no catalogue. The dictionary is open
  whenever there are records.
\<close>

definition faulty_print :: "tool_env \<Rightarrow> faulty_opts \<Rightarrow> status_record list \<Rightarrow> string res" where
  "faulty_print te st l =
     rbind (if fo_s st > 0 then print_fru (te_gmtime te) l else Inr ([], l)) (\<lambda>(a, l1).
     rbind (if fo_v st > 0 \<and> fo_max st \<ge> 0
            then print_catalog (te_gmtime te) (case te_dict te of Some d \<Rightarrow> d | None \<Rightarrow> (\<lambda>k. None)) (fo_max st > 0) (fo_max st) l1
            else Inr []) (\<lambda>b. Inr (a @ b)))"

definition cmd_faulty :: "tool_env \<Rightarrow> fmd_adm \<Rightarrow> string list \<Rightarrow> adm_sys \<Rightarrow> (outcome \<times> string \<times> adm_sys) res option" where
  "cmd_faulty te adm argv sys =
     (case faulty_options (fst (getopt ''svn:t:u:h?'' [] (tl argv))) \<lparr>fo_s = 0, fo_v = 0, fo_t = None, fo_max = 0\<rparr> of
        Inl e \<Rightarrow> Some (Inl e)
      | Inr (Some rt, st) \<Rightarrow> Some (Inr (Ret rt, [], sys))
      | Inr (None, st) \<Rightarrow>
          if length argv = 1 then Some (Inr (Ret FMADM_EXIT_SUCCESS, [], sys))
          else (case fo_t st of
              None \<Rightarrow> Some (Inr (Ret (-1), [], sys))
            | Some ty \<Rightarrow>
                if \<not> strncmp_eq ty ''repaired'' 8 \<and> \<not> strncmp_eq ty ''happenning'' 10 then Some (Inr (Ret (-1), [], sys))
                else (case get_cases_from_fmd te adm ty sys of
                    None \<Rightarrow> None
                  | Some (Inl e) \<Rightarrow> Some (Inl e)
                  | Some (Inr (Exit n, l, sys1)) \<Rightarrow> Some (Inr (Exit n, [], sys1))
                  | Some (Inr (Ret rt, l, sys1)) \<Rightarrow>
                      Some (rbind (faulty_print te st l) (\<lambda>out. Inr (Ret rt, out, sys1))))))"

section \<open>\<^verbatim>\<open>main\<close>\<close>

text \<open>The exit status: what the subcommand returns (for \<^verbatim>\<open>FMADM_EXIT_USAGE\<close> the usage message, which returns that value too).\<close>

definition exit_status :: "outcome \<Rightarrow> int" where
  "exit_status r = (case r of Ret err \<Rightarrow> err | Exit n \<Rightarrow> n)"

definition run_cmd :: "tool_env \<Rightarrow> string list \<Rightarrow> fmd_adm \<Rightarrow> adm_sys \<Rightarrow> (outcome \<times> string \<times> adm_sys) res option" where
  "run_cmd te argv adm sys =
     (let name = hd argv; no_out = (\<lambda>r. rbind r (\<lambda>(x, s). Inr (x, [], s))) in
      if name = ''config'' then Some (cmd_config te adm argv sys)
      else if name = ''modinfo'' then Some (cmd_modinfo (te_mio te) (te_env te 0) adm argv sys)
      else if name = ''faulty'' then cmd_faulty te adm argv sys
      else if name = ''load'' then Some (no_out (cmd_load (te_exist te) (te_mio te) (te_env te 0) adm argv sys))
      else Some (no_out (cmd_unload (te_mio te) (te_env te 0) adm argv sys)))"

definition cmd_names :: "string list" where
  "cmd_names = [''config'', ''modinfo'', ''faulty'', ''load'', ''unload'']"

text \<open>
  \<open>argv\<close> without the program's name. When the queue cannot be opened, \<^verbatim>\<open>die\<close> closes a null handle.
\<close>

definition fmadm_main :: "tool_env \<Rightarrow> string list \<Rightarrow> adm_sys \<Rightarrow> (int \<times> string \<times> adm_sys) res option" where
  "fmadm_main te argv sys =
     (if argv = [] then Some (Inr (FMADM_EXIT_USAGE, [], sys))
      else if hd argv \<notin> set cmd_names then Some (Inr (FMADM_EXIT_USAGE, [], sys))
      else case fmd_adm_open (te_mio te) of
        None \<Rightarrow> Some (rbind (fmd_adm_close None) (\<lambda>_. Inr (FMADM_EXIT_ERROR, [], sys)))
      | Some adm \<Rightarrow> map_option (\<lambda>r. rbind r (\<lambda>(x, out, s). Inr (exit_status x, out, s))) (run_cmd te argv adm sys))"

section \<open>Setting the interval of an event source\<close>

definition sets_interval :: "string \<Rightarrow> bool" where
  "sets_interval l \<longleftrightarrow> strncmp_eq l ''interval '' 9"

definition set_lines :: "string \<Rightarrow> string list \<Rightarrow> string list" where
  "set_lines n ls = map (\<lambda>l. if sets_interval l then ''interval '' @ n @ LF else l) ls"

lemma digit_loop_isdigit: "digit_loop s z = 0 \<Longrightarrow> list_all isdigit s"
  by (induction s arbitrary: z) (auto split: if_splits)

lemma src_conf_loop_set:
  assumes "is_digit n = 0" "length b + length (concat (set_lines n ls)) < PATH_MAX"
  shows "src_conf_loop n ls b = Inr (b @ concat (set_lines n ls))"
  using assms(2)
proof (induction ls arbitrary: b)
  case (Cons l ls)
  let ?l = "if sets_interval l then ''interval '' @ n @ LF else l"
  have "buf_add b ?l = Inr (b @ ?l)" using Cons.prems by (simp add: buf_add_def fits_def set_lines_def)
  then show ?case using Cons.IH [of "b @ ?l"] Cons.prems assms(1)
    by (cases "sets_interval l") (simp_all add: set_lines_def sets_interval_def)
qed (simp add: set_lines_def)

lemma src_conf_loop_keep:
  assumes "is_digit n \<noteq> 0" "length b + length (concat ls) < PATH_MAX"
  shows "src_conf_loop n ls b = Inr (b @ concat ls)"
  using assms(2)
proof (induction ls arbitrary: b)
  case (Cons l ls)
  then show ?case using Cons.IH [of "b @ l"] assms(1) by (simp add: buf_add_def fits_def)
qed simp

lemma is_line_mono: "is_line n l \<Longrightarrow> n \<le> m \<Longrightarrow> is_line m l"
  by (simp add: is_line_def)

lemma new_interval_line: "list_all isdigit n \<Longrightarrow> length n < 54 \<Longrightarrow> is_line 64 (''interval '' @ n @ LF)"
  by (auto simp: is_line_def LF_def butlast_append list_all_iff isdigit_def)

lemma set_lines_are_lines:
  "list_all (is_line 64) ls \<Longrightarrow> list_all isdigit n \<Longrightarrow> length n < 54 \<Longrightarrow> list_all (is_line 64) (set_lines n ls)"
  using new_interval_line [of n] by (auto simp: set_lines_def list_all_iff)

lemma new_sets_interval: "sets_interval (''interval '' @ s)"
  by (simp add: sets_interval_def strncmp_eq_def)

lemma strncmp_interval: "strncmp_eq l ''interval '' 9 \<longleftrightarrow> sets_interval l"
  by (simp add: sets_interval_def)

lemma find_interval:
  "list_ex sets_interval ls \<Longrightarrow> find sets_interval (set_lines n ls) = Some (''interval '' @ n @ LF)"
  by (induction ls) (auto simp: set_lines_def new_sets_interval [simplified])

lemma atoi_LF: "list_all isdigit n \<Longrightarrow> n \<noteq> [] \<Longrightarrow> atoi (n @ LF) = atoi n"
proof -
  assume n: "list_all isdigit n" "n \<noteq> []"
  obtain c r where c: "n = c # r" using n(2) by (cases n) auto
  then have cc: "\<not> isspace c" "c \<noteq> CHR ''-''" "c \<noteq> CHR ''+''" using n(1) by (auto simp: isdigit_def isspace_def)
  have "digits_val 0 (n @ LF) = digits_val 0 n"
    using n(1) by (simp add: digits_val_append LF_def digits_val_stop isdigit_def)
  then show ?thesis using c cc by (simp add: atoi_def del: digits_val.simps)
qed

lemma conf_path_plugin:
  assumes "length m < 24"
  shows "conf_path (PLUGIN_DIR @ m @ ''.so'') = Inr (PLUGIN_DIR @ m @ ''.conf'')"
proof -
  have s: "strrchr ((PLUGIN_DIR @ m) @ ''.so'') (CHR ''.'') = Some ''.so''"
    by (rule strrchr_append_some) simp
  show ?thesis using assms s by (simp add: conf_path_def NAME_LEN_def PLUGIN_DIR_def)
qed


lemma getopt_interval:
  "take 1 m \<noteq> ''-'' \<Longrightarrow> getopt ''ls:i:m:bh?'' [] [''-i'', n, m] = ([(CHR ''i'', Some n)], [m])"
  by (auto simp: opt_kind_def)

lemma config_interval_runs:
  assumes "take 1 m \<noteq> ''-''" "m \<noteq> []" "length m < 256" "length n < 256" "mo_open (te_mio te)" "mo_malloc (te_mio te)"
    and "fmd_add_src_conf (te_wr te) n m (a_fs a) = Inr (0, fs')"
  shows "fmadm_main te [''config'', ''-i'', n, m] (q, a) = Some (Inr (0, [], q, a\<lparr>a_fs := fs'\<rparr>))"
proof -
  obtain adm where adm: "fmd_adm_open (te_mio te) = Some adm" using assms(5,6) by (simp add: fmd_adm_open_def)
  have "cfg_options [(CHR ''i'', Some n)] cfg_opts_init = Inr (None, cfg_opts_init\<lparr>opt_i := 1, arg_interval := n\<rparr>)"
    using assms(4) by (simp add: fits_def cfg_opts_init_def)
  moreover have "config_action te adm 4 (cfg_opts_init\<lparr>opt_i := 1, arg_interval := n, arg_module := m\<rparr>) (q, a) =
      Inr (Ret 0, [], q, a\<lparr>a_fs := fs'\<rparr>)"
    using assms(7) by (simp add: config_action_def cfg_opts_init_def sys_fs_def put_fs_def exit_if_def FMADM_EXIT_SUCCESS_def)
  ultimately have "cmd_config te adm [''config'', ''-i'', n, m] (q, a) = Inr (Ret 0, [], q, a\<lparr>a_fs := fs'\<rparr>)"
    using assms(2,3) getopt_interval [OF assms(1), of n]
    by (simp add: cmd_config_def fits_def cfg_conflict_def cfg_opts_init_def eval_nat_numeral del: getopt.simps cfg_options.simps)
  then show ?thesis using adm by (simp add: fmadm_main_def cmd_names_def run_cmd_def exit_status_def)
qed


definition demo_conf_lines :: "string list" where
  "demo_conf_lines = [''# poll'' @ LF, ''interval 5'' @ LF, ''x y'' @ LF]"

definition demo_conf_fs :: "string \<Rightarrow> fopen_res" where
  "demo_conf_fs = (\<lambda>p. if p = ''/usr/lib/fms/plugins/disk_src.conf'' then Opened (concat demo_conf_lines) else No_entry)"

definition demo_tool :: "admd \<Rightarrow> tool_env" where
  "demo_tool a = \<lparr>te_mio = demo_mio, te_env = pages_env demo_mio demo_upd_io demo_agent_dl a, te_fuel = 5, te_exist = (\<lambda>p. True),
     te_dir = None, te_wr = True, te_stdin = [], te_dict = Some (\<lambda>k. None),
     te_gmtime = (\<lambda>t. \<lparr>tm_year = 115, tm_mon = 7, tm_mday = 4, tm_hour = 9, tm_min = 5, tm_sec = 0\<rparr>)\<rparr>"


end
