(* ===== verification/Fms_Faulty.thy ===== *)
theory Fms_Faulty
  imports Fms_Fmsadm
begin

text \<open>
  The table of faults from end to end: the daemon's cases, the messages of the administration source, the
  client library's list and the lines \<^verbatim>\<open>fmsadm faulty\<close> prints.
\<close>

section \<open>The table of faults\<close>

text \<open>The events of the cases, in the order of the lists.\<close>

definition listed_events :: "fmd \<Rightarrow> fmd_event list" where
  "listed_events s = concat (map (\<lambda>q. map (\<lambda>p. the (f_events s p)) (cs_event (the (f_cases s q)))) (f_list_case s))"

definition device_text :: "fmd_event \<Rightarrow> string" where
  "device_text e = (if strstr (ev_class e) ''disk'' \<noteq> None then ev_dev_name e else ev_dev_name e @ dec (sint (ev_dev_id e)))"

definition no_colon :: "string \<Rightarrow> bool" where
  "no_colon s \<longleftrightarrow> s \<noteq> [] \<and> CHR '':'' \<notin> set s"

definition date_text :: "tm \<Rightarrow> string" where
  "date_text m = dec (tm_year m + 1900) @ ''-'' @ pad0 2 (dec (tm_mon m + 1)) @ ''-'' @ pad0 2 (dec (tm_mday m)) @ '' '' @
     pad0 2 (dec ((tm_hour m + 8) mod 24)) @ '':'' @ pad0 2 (dec (tm_min m)) @ '':'' @ pad0 2 (dec (tm_sec m)) @ [CHR 0x09]"

definition tm_range :: "tm \<Rightarrow> bool" where
  "tm_range m \<longleftrightarrow> \<bar>tm_year m + 1900\<bar> < 10 ^ 10 \<and> 0 \<le> tm_mon m \<and> tm_mon m < 12 \<and> 0 \<le> tm_mday m \<and> tm_mday m < 32 \<and>
     0 \<le> tm_hour m \<and> tm_hour m < 24 \<and> 0 \<le> tm_min m \<and> tm_min m < 60 \<and> 0 \<le> tm_sec m \<and> tm_sec m < 62"

text \<open>The time shown: of the last occurrence, or of the first when there was no other.\<close>

definition shown_time :: "fmd_event \<Rightarrow> int" where
  "shown_time e = (let w = (word_of_int (ev_last_occur e) :: 64 word) in
     sint (if w = 0 then word_of_int (ev_create e) else w))"

definition table_line :: "(int \<Rightarrow> tm) \<Rightarrow> fmd_event \<Rightarrow> string" where
  "table_line gmtime e = LF @ pad_right 28 (device_text e) @ pad_right 25 (date_text (gmtime (shown_time e))) @ '' '' @
     pad_right 40 (ev_class e) @ '' '' @ pad_right 10 (dec (to_int32 (ev_count e))) @ LF"

lemma fault_text_split: "fault_text e = device_text e @ '':'' @ ev_class e"
  by (simp add: fault_text_def device_text_def)

lemma format_date_ok: "tm_range (gmtime t) \<Longrightarrow> format_date gmtime t = Inr (date_text (gmtime t))"
  using dec_le_neg [of 9 "tm_year (gmtime t) + 1900"] dec_le [of "tm_mon (gmtime t) + 1" 1 2] dec_le [of "tm_mday (gmtime t)" 1 2]
    dec_le [of "(tm_hour (gmtime t) + 8) mod 24" 1 2] dec_le [of "tm_min (gmtime t)" 1 2] dec_le [of "tm_sec (gmtime t)" 1 2]
  by (auto simp: format_date_def fits_def tm_range_def date_text_def pad0_length max_def Let_def abs_less_iff)

definition event_record :: "(string \<Rightarrow> string option) \<Rightarrow> 8 word \<Rightarrow> fmd_event \<Rightarrow> status_record" where
  "event_record dict st e = \<lparr>sr_severity = dict (pstr (dict (ev_class e)) @ ''.severity''), sr_msgid = dict (ev_class e),
     sr_class = Some (ev_class e), sr_fru = Some (device_text e), sr_last_occur = word_of_int (ev_last_occur e), sr_state = st,
     sr_count = word_of_int (ev_count e), sr_create = word_of_int (ev_create e)\<rparr>"

lemma fru_class_event:
  assumes "no_colon (device_text e)" "no_colon (ev_class e)"
  shows "fru_class (fault_text e) = Inr (Some (device_text e), Some (ev_class e))"
proof -
  have "strtok_all '':'' (fault_text e) = [device_text e, ev_class e]"
    unfolding fault_text_split
    using assms strsep_all_token [of "device_text e" "'':''" "CHR '':''" "ev_class e"] strsep_all_last [of "ev_class e" "'':''"]
    by (simp add: strtok_all_def no_colon_def)
  then show ?thesis by (simp add: fru_class_def)
qed

lemma case_record_event:
  assumes "no_colon (device_text e)" "no_colon (ev_class e)" "length (pstr (dict (ev_class e))) < 23"
  shows "case_record dict (case_info (case_row st e)) = Inr (event_record dict st e)"
  using assms by (simp add: case_record_def case_info_def case_row_def fru_class_event fits_def event_record_def status_record_alloc_def Let_def)

lemma fru_line_event:
  assumes "tm_range (gmtime (shown_time e))"
  shows "fru_line gmtime (event_record dict st e) = Inr (table_line gmtime e)"
proof -
  have "sint (sr_last_occur (fru_fix (event_record dict st e))) = shown_time e"
    by (simp add: fru_fix_def event_record_def shown_time_def Let_def)
  then show ?thesis using format_date_ok [where gmtime = gmtime and t = "shown_time e", OF assms]
    by (simp add: fru_line_def table_line_def event_record_def pstr_def to_int32_def)
qed

text \<open>A row together with the event it shows.\<close>

definition row_of :: "faf_case \<Rightarrow> fmd_event \<Rightarrow> bool" where
  "row_of r e \<longleftrightarrow> (\<exists>st. r = case_row st e)"

lemma rows_are_events: "list_all2 row_of (case_rows s 1) (listed_events s)"
proof -
  have "list_all2 row_of (concat (map (rows_of s) qs))
      (concat (map (\<lambda>q. map (\<lambda>p. the (f_events s p)) (cs_event (the (f_cases s q)))) qs))" for qs
    by (induction qs) (auto simp: rows_of_def event_row_def row_of_def Let_def list_all2_map1 list_all2_map2 intro!: list_all2_appendI list.rel_refl)
  then show ?thesis by (simp add: case_rows_def listed_events_def)
qed

definition shows_event :: "(string \<Rightarrow> string option) \<Rightarrow> status_record \<Rightarrow> fmd_event \<Rightarrow> bool" where
  "shows_event dict r e \<longleftrightarrow> (\<exists>st. r = event_record dict st e)"

lemma case_records_append: "case_records dict (xs @ ys) l = rbind (case_records dict xs l) (case_records dict ys)"
proof (induction xs arbitrary: l)
  case (Cons x xs)
  then show ?case by (cases "case_record dict x") simp_all
qed simp

definition tellable :: "(string \<Rightarrow> string option) \<Rightarrow> fmd_event \<Rightarrow> bool" where
  "tellable dict e \<longleftrightarrow> no_colon (device_text e) \<and> no_colon (ev_class e) \<and> length (pstr (dict (ev_class e))) < 23"

lemma case_records_events:
  assumes "list_all2 row_of rs es" "list_all (tellable dict) es"
  shows "\<exists>l'. case_records dict (rev (map case_info rs)) l = Inr (l' @ l) \<and> list_all2 (shows_event dict) l' es"
  using assms
proof (induction rule: list_all2_induct)
  case (Cons r rs e es)
  then obtain l' st where l: "case_records dict (rev (map case_info rs)) l = Inr (l' @ l)" "list_all2 (shows_event dict) l' es"
    and r: "r = case_row st e" by (auto simp: row_of_def)
  have "case_record dict (case_info r) = Inr (event_record dict st e)"
    unfolding r using Cons.prems by (intro case_record_event) (simp_all add: tellable_def)
  moreover have "shows_event dict (event_record dict st e) e" by (auto simp: shows_event_def)
  ultimately show ?case using l by (auto simp: case_records_append intro!: exI [of _ "event_record dict st e # l'"])
qed simp

lemma fru_lines_events:
  assumes "list_all2 (shows_event dict) l es" "\<And>t. tm_range (gmtime t)"
  shows "fru_lines gmtime l = Inr (concat (map (table_line gmtime) es))"
  using assms(1)
proof (induction rule: list_all2_induct)
  case (Cons r l e es)
  then show ?case using fru_line_event [where gmtime = gmtime and e = e, OF assms(2)] by (auto simp: shows_event_def)
qed simp

lemma faulty_args: "getopt ''svn:t:u:h?'' [] [''-s'', ''-t'', ty] = ([(CHR ''s'', None), (CHR ''t'', Some ty)], [])"
  by (simp add: opt_kind_def)

text \<open>
  C17. What the operator sees is what the daemon has: \<^verbatim>\<open>fmsadm faulty -s -t happenning\<close> prints one line for every
  event of every case, in the daemon's order, with the device and the class split as the event has them, the
  time of the last occurrence (of the first, if there was no other) and the count, and changes nothing. When the number of events
  is a multiple of twenty (none included) it prints nothing and ends with status 1. The names have no colon, the
  message ids of the dictionary fit the tool's buffer, and \<^verbatim>\<open>gmtime\<close> gives fields in their ranges.
\<close>

theorem faulty_table:
  fixes a :: admd
  defines "es \<equiv> listed_events (d_fmd (a_daemon a))"
  assumes "mq_ready (te_mio te) q" "3568 \<le> mq_msgsize q" "reportable (d_fmd (a_daemon a)) 1" "length es + 40 < 2 ^ 31"
    and "length es div 20 + 1 < te_fuel te" "te_env te = pages_env (te_mio te) io dl a"
    and "te_dict te = Some dict" "list_all (tellable dict) es" "\<forall>t. tm_range (te_gmtime te t)"
  shows "fmadm_main te [''faulty'', ''-s'', ''-t'', ''happenning''] (q, a) =
    Some (Inr (if length es mod 20 = 0 then (1, [], q, a) else (0, fru_head @ concat (map (table_line (te_gmtime te)) es), q, a)))"
proof -
  let ?rows = "case_rows (d_fmd (a_daemon a)) 1"
  have l2: "list_all2 row_of ?rows es" unfolding es_def by (rule rows_are_events)
  then have len: "length ?rows = length es" by (rule list_all2_lengthD)
  obtain adm where adm: "fmd_adm_open (te_mio te) = Some adm" "adm_cs_list adm = []"
    using assms(2) by (auto simp: fmd_adm_open_def mq_ready_def)
  obtain adm1 where it: "fmd_adm_case_iter (te_fuel te) (te_mio te) (te_env te) adm 1 (q, a) =
      Some (Inr (if length es mod 20 = 0 then -1 else 0, adm1, q, a))" "adm_cs_list adm1 = rev (map case_info ?rows)"
    using case_list_complete [OF assms(2,3), of 1 a "te_fuel te" io dl adm] assms(4-7) adm(2) len by auto
  obtain l where l: "case_records dict (rev (map case_info ?rows)) [] = Inr l" "list_all2 (shows_event dict) l es"
    using case_records_events [OF l2 assms(9), of "[]"] by auto
  have g: "get_cases_from_fmd te adm ''happenning'' (q, a) =
      Some (Inr (if length es mod 20 = 0 then (Exit 1, [], q, a) else (Ret 0, l, q, a)))"
    using it l(1) assms(8) by (simp add: get_cases_from_fmd_def strncmp_eq_def FMADM_EXIT_ERROR_def FMADM_EXIT_SUCCESS_def)
  have p: "print_fru (te_gmtime te) l = Inr (fru_head @ concat (map (table_line (te_gmtime te)) es), map fru_fix l)"
    using fru_lines_events [where gmtime = "te_gmtime te", OF l(2)] assms(10) by (simp add: print_fru_def)
  have "cmd_faulty te adm [''faulty'', ''-s'', ''-t'', ''happenning''] (q, a) =
      Some (Inr (if length es mod 20 = 0 then (Exit 1, [], q, a)
        else (Ret 0, fru_head @ concat (map (table_line (te_gmtime te)) es), q, a)))"
    using g p by (simp add: cmd_faulty_def faulty_args strncmp_eq_def faulty_print_def del: getopt.simps)
  then show ?thesis using adm(1) by (simp add: fmadm_main_def cmd_names_def run_cmd_def exit_status_def)
qed

text \<open>
  The list of repaired faults can never be shown: \<^verbatim>\<open>fmsadm faulty -s -t repaired\<close> prints the heading of an empty table
  and ends with status -1, whatever the daemon and the dictionary hold, because it iterates over a database it
  has not opened.
\<close>

theorem faulty_repaired_fails:
  assumes "mo_open (te_mio te)" "mo_malloc (te_mio te)"
  shows "fmadm_main te [''faulty'', ''-s'', ''-t'', ''repaired''] sys = Some (Inr (-1, fru_head, sys))"
proof -
  obtain adm where adm: "fmd_adm_open (te_mio te) = Some adm" using assms by (simp add: fmd_adm_open_def)
  have "get_cases_from_fmd te adm ''repaired'' sys = Some (Inr (Ret (-1), [], sys))"
    by (simp add: get_cases_from_fmd_def strncmp_eq_def fmd_adm_case_dbiter_def tchdbiterinit_def tchdbnew_def)
  then have "cmd_faulty te adm [''faulty'', ''-s'', ''-t'', ''repaired''] sys = Some (Inr (Ret (-1), fru_head, sys))"
    by (simp add: cmd_faulty_def faulty_args strncmp_eq_def faulty_print_def print_fru_def del: getopt.simps)
  then show ?thesis using adm by (simp add: fmadm_main_def cmd_names_def run_cmd_def exit_status_def)
qed

theorem faulty_table_witness:
  "\<exists>l. fmadm_main (demo_tool demo_case_admd) [''faulty'', ''-s'', ''-t'', ''happenning''] (demo_mq, demo_case_admd) =
    Some (Inr (0, fru_head @ l, demo_mq, demo_case_admd)) \<and> l \<noteq> []"
proof -
  have e: "listed_events (d_fmd (a_daemon demo_case_admd)) = [demo_case_event]"
    by (simp add: listed_events_def demo_case_admd_def demo_case_fmd_def)
  have t: "te_mio (demo_tool demo_case_admd) = demo_mio" "te_fuel (demo_tool demo_case_admd) = 5"
    "te_env (demo_tool demo_case_admd) = pages_env demo_mio demo_upd_io demo_agent_dl demo_case_admd"
    "te_dict (demo_tool demo_case_admd) = Some (\<lambda>k. None)" "\<forall>u. tm_range (te_gmtime (demo_tool demo_case_admd) u)"
    by (simp_all add: demo_tool_def tm_range_def)
  have d: "d_fmd (a_daemon demo_case_admd) = demo_case_fmd" by (simp add: demo_case_admd_def)
  have k: "tellable (\<lambda>k. None) demo_case_event" by code_simp
  have ne: "table_line g demo_case_event \<noteq> []" for g by (simp add: table_line_def LF_def)
  show ?thesis
    using faulty_table [where te = "demo_tool demo_case_admd" and a = demo_case_admd and q = demo_mq and io = demo_upd_io
        and dl = demo_agent_dl and dict = "\<lambda>k. None"] demo_mq_ready demo_rows(1) t k ne
    by (simp add: e [unfolded d] d)
qed

theorem faulty_repaired_fails_witness:
  "fmadm_main (demo_tool demo_admd) [''faulty'', ''-s'', ''-t'', ''repaired''] (demo_mq, demo_admd) = Some (Inr (-1, fru_head, demo_mq, demo_admd))"
  by (rule faulty_repaired_fails) (simp_all add: demo_tool_def demo_mio_def)

end
