(* ===== verification/Fms_Kfm.thy ===== *)
theory Fms_Kfm
  imports Fms_CpuAgent
begin

unbundle bit_operations_syntax

text \<open>
  The kernel module \<^verbatim>\<open>evt_modules/evtlib/kfm/kfm\<close> (caches of a cpu, flags of a memory page, the generic netlink
  commands) and the library \<^verbatim>\<open>evtlib/kfm/kfmadm\<close> through which the cpu and memory agent uses it.

  The kernel around the module is modelled by what it documents: the cpus that are on line and their
  register \<^verbatim>\<open>cr0\<close>, the pages by frame number, the privileges of the caller, the check of a request against
  the policy of its command. The positions of the page flags in the kernel (\<open>pg\<close>) depend on its configuration
  and are a parameter; those of the flags shown to users are fixed.
\<close>

section \<open>Caches\<close>

text \<open>
  \<open>wbinvds\<close> is the trace of the cpus whose caches were written back and invalidated; \<open>g_cache_status\<close> the variable of
  \<^verbatim>\<open>kfm_cache.c\<close>.
\<close>

record kpage =
  pg_flags :: "64 word"
  pg_mapped :: bool
  pg_anon :: bool
  pg_head :: bool
  pg_tail :: bool
  pg_trans_compound :: bool
  pg_head_lru_or_anon :: bool
  pg_buddy :: bool

record kmach =
  km_online :: "32 word list"
  km_cr0 :: "32 word \<Rightarrow> 64 word"
  km_wbinvds :: "32 word list"
  km_cache_status :: int
  km_page :: "64 word \<Rightarrow> kpage option"
  km_net_admin :: bool
  km_sys_admin :: bool

definition X86_CR0_CD :: "64 word" where "X86_CR0_CD = push_bit 30 1"

definition EINVAL :: int where "EINVAL = 22"
definition ENXIO :: int where "ENXIO = 6"
definition EPERM :: int where "EPERM = 1"
definition EMSGSIZE :: int where "EMSGSIZE = 90"
definition EOPNOTSUPP :: int where "EOPNOTSUPP = 95"

text \<open>\<^verbatim>\<open>smp_call_function_single\<close>: the function runs on the cpu if it is on line.\<close>

definition smp_call_function_single :: "32 word \<Rightarrow> (32 word \<Rightarrow> kmach \<Rightarrow> kmach) \<Rightarrow> kmach \<Rightarrow> int \<times> kmach" where
  "smp_call_function_single cpu f m = (if cpu \<in> set (km_online m) then (0, f cpu m) else (- ENXIO, m))"

definition on_each_cpu :: "(32 word \<Rightarrow> kmach \<Rightarrow> kmach) \<Rightarrow> kmach \<Rightarrow> kmach" where
  "on_each_cpu f m = fold f (km_online m) m"

definition wbinvd :: "32 word \<Rightarrow> kmach \<Rightarrow> kmach" where
  "wbinvd cpu m = m\<lparr>km_wbinvds := cpu # km_wbinvds m\<rparr>"

definition kfm_cache_flush_on_cpu :: "32 word \<Rightarrow> kmach \<Rightarrow> kmach" where
  "kfm_cache_flush_on_cpu cpu m = snd (smp_call_function_single cpu wbinvd m)"

definition kfm_cache_flush_all :: "kmach \<Rightarrow> kmach" where
  "kfm_cache_flush_all m = on_each_cpu wbinvd m"

definition kfm_disable_caches :: "32 word \<Rightarrow> kmach \<Rightarrow> kmach" where
  "kfm_disable_caches cpu m = wbinvd cpu (m\<lparr>km_cr0 := (km_cr0 m)(cpu := km_cr0 m cpu OR X86_CR0_CD)\<rparr>)"

definition kfm_enable_caches :: "32 word \<Rightarrow> kmach \<Rightarrow> kmach" where
  "kfm_enable_caches cpu m = m\<lparr>km_cr0 := (km_cr0 m)(cpu := km_cr0 m cpu AND NOT X86_CR0_CD)\<rparr>"

definition kfm_caches_status :: "32 word \<Rightarrow> kmach \<Rightarrow> kmach" where
  "kfm_caches_status cpu m = m\<lparr>km_cache_status := to_int32 (uint (km_cr0 m cpu AND X86_CR0_CD))\<rparr>"

definition kfm_cache_disable_on_cpu :: "32 word \<Rightarrow> kmach \<Rightarrow> kmach" where
  "kfm_cache_disable_on_cpu cpu m = snd (smp_call_function_single cpu kfm_disable_caches m)"

definition kfm_cache_disable_all :: "kmach \<Rightarrow> kmach" where
  "kfm_cache_disable_all m = on_each_cpu kfm_disable_caches m"

definition kfm_cache_enable_on_cpu :: "32 word \<Rightarrow> kmach \<Rightarrow> kmach" where
  "kfm_cache_enable_on_cpu cpu m = snd (smp_call_function_single cpu kfm_enable_caches m)"

definition kfm_cache_enable_all :: "kmach \<Rightarrow> kmach" where
  "kfm_cache_enable_all m = on_each_cpu kfm_enable_caches m"

definition kfm_cache_status_on_cpu :: "32 word \<Rightarrow> kmach \<Rightarrow> int \<times> kmach" where
  "kfm_cache_status_on_cpu cpu m =
     (let (ret, m1) = smp_call_function_single cpu kfm_caches_status (m\<lparr>km_cache_status := 0\<rparr>)
      in if ret \<noteq> 0 then (ret, m1) else (km_cache_status m1, m1))"

section \<open>Pages\<close>

datatype kflag = LOCKED | SLAB | ERR | DIRTY | UPTODATE | WRITEBACK | LRU | REFERENCED | ACTIVE | RECLAIM | SWAPCACHE |
  SWAPBACKED | UNEVICTABLE | MLOCKED | HWPOISON | UNCACHED | RESERVED | MAPPEDTODISK | PRIVATE | PRIVATE_2 | OWNER_PRIVATE | ARCH

text \<open>The positions of \<^verbatim>\<open>linux/kernel-page-flags.h\<close>.\<close>

fun KPF :: "kflag \<Rightarrow> nat" where
  "KPF LOCKED = 0" | "KPF ERR = 1" | "KPF REFERENCED = 2" | "KPF UPTODATE = 3" | "KPF DIRTY = 4" | "KPF LRU = 5" |
  "KPF ACTIVE = 6" | "KPF SLAB = 7" | "KPF WRITEBACK = 8" | "KPF RECLAIM = 9" | "KPF SWAPCACHE = 13" | "KPF SWAPBACKED = 14" |
  "KPF UNEVICTABLE = 18" | "KPF HWPOISON = 19" | "KPF RESERVED = 32" | "KPF MLOCKED = 33" | "KPF MAPPEDTODISK = 34" |
  "KPF PRIVATE = 35" | "KPF PRIVATE_2 = 36" | "KPF OWNER_PRIVATE = 37" | "KPF ARCH = 38" | "KPF UNCACHED = 39"

definition KPF_BUDDY :: nat where "KPF_BUDDY = 10"
definition KPF_MMAP :: nat where "KPF_MMAP = 11"
definition KPF_ANON :: nat where "KPF_ANON = 12"
definition KPF_COMPOUND_HEAD :: nat where "KPF_COMPOUND_HEAD = 15"
definition KPF_COMPOUND_TAIL :: nat where "KPF_COMPOUND_TAIL = 16"
definition KPF_THP :: nat where "KPF_THP = 22"

definition kpf_copy_bit :: "64 word \<Rightarrow> nat \<Rightarrow> nat \<Rightarrow> 64 word" where
  "kpf_copy_bit kflags ubit kbit = push_bit ubit (drop_bit kbit kflags AND 1)"

definition kflags :: "kflag list" where
  "kflags = [LOCKED, SLAB, ERR, DIRTY, UPTODATE, WRITEBACK, LRU, REFERENCED, ACTIVE, RECLAIM, SWAPCACHE, SWAPBACKED,
     UNEVICTABLE, MLOCKED, HWPOISON, UNCACHED, RESERVED, MAPPEDTODISK, PRIVATE, PRIVATE_2, OWNER_PRIVATE, ARCH]"

definition or_if :: "bool \<Rightarrow> nat \<Rightarrow> 64 word \<Rightarrow> 64 word" where
  "or_if b n u = (if b then u OR push_bit n 1 else u)"

text \<open>
  \<^verbatim>\<open>kfm_stable_page_flags\<close>: the pseudo flags, then the copied ones in the order of the source (with memory
  failure handling and uncached pages configured). \<open>pg\<close> is the position of a flag in \<^verbatim>\<open>page->flags\<close>. The test for a
  transparent huge page belongs to the \<^verbatim>\<open>else\<close> of the test for a tail page.
\<close>

definition pseudo_flags :: "(kflag \<Rightarrow> nat) \<Rightarrow> kpage \<Rightarrow> 64 word" where
  "pseudo_flags pg p =
     or_if (pg_buddy p) KPF_BUDDY
       (or_if (\<not> pg_tail p \<and> pg_trans_compound p \<and> pg_head_lru_or_anon p) KPF_THP
       (or_if (pg_tail p) KPF_COMPOUND_TAIL
       (or_if (pg_head p) KPF_COMPOUND_HEAD
       (or_if (pg_anon p) KPF_ANON
       (or_if (\<not> bit (pg_flags p) (pg SLAB) \<and> pg_mapped p) KPF_MMAP 0)))))"

definition kfm_stable_page_flags :: "(kflag \<Rightarrow> nat) \<Rightarrow> kpage option \<Rightarrow> 64 word" where
  "kfm_stable_page_flags pg po =
     (case po of
        None \<Rightarrow> push_bit KPF_NOPAGE 1
      | Some p \<Rightarrow> fold (\<lambda>f u. u OR kpf_copy_bit (pg_flags p) (KPF f) (pg f)) kflags (pseudo_flags pg p))"

record kfm_cache_u =
  kc_cpu :: "32 word"
  kc_status :: "32 word"

record kfm_mempage_u =
  mp_addr :: "64 word"
  mp_pfn :: "64 word"
  mp_flags :: "64 word"

definition kfm_get_mempage_info :: "(kflag \<Rightarrow> nat) \<Rightarrow> 64 word \<Rightarrow> kfm_mempage_u \<Rightarrow> kmach \<Rightarrow> int \<times> kfm_mempage_u" where
  "kfm_get_mempage_info pg a u m =
     (if \<not> km_sys_admin m then (- EPERM, u)
      else let pfn = drop_bit 12 a in (0, u\<lparr>mp_pfn := pfn, mp_flags := kfm_stable_page_flags pg (km_page m pfn)\<rparr>))"

text \<open>The body of \<^verbatim>\<open>kfm_mempage_online\<close> is disabled.\<close>

definition kfm_mempage_online_k :: "64 word \<Rightarrow> int" where
  "kfm_mempage_online_k a = 0"

section \<open>Netlink commands\<close>

datatype kfm_cmd = CMD_UNSPEC | GET_INFO | GET_INFO_REPLY | CACHE_FLUSH | ALL_CACHE_FLUSH | CACHE_DISABLE | ALL_CACHE_DISABLE |
  CACHE_ENABLE | ALL_CACHE_ENABLE | GET_CACHE_INFO | GET_CACHE_INFO_REPLY | MEMPAGE_ONLINE | GET_MEMPAGE_INFO | GET_MEMPAGE_INFO_REPLY

text \<open>An attribute: its type, the length of its payload and the value.\<close>

type_synonym nlattr = "nat \<times> nat \<times> 64 word"

definition nla_u32 :: "nat \<Rightarrow> 32 word \<Rightarrow> nlattr" where "nla_u32 t v = (t, 4, ucast v)"
definition nla_u64 :: "nat \<Rightarrow> 64 word \<Rightarrow> nlattr" where "nla_u64 t v = (t, 8, v)"

definition KFM_CMD_MAX :: nat where "KFM_CMD_MAX = 13"
definition KFM_VERSION_CODE :: "32 word" where "KFM_VERSION_CODE = 0x030101"
definition CACHE_ATTR_CPU :: nat where "CACHE_ATTR_CPU = 1"
definition CACHE_ATTR_STATUS :: nat where "CACHE_ATTR_STATUS = 2"
definition INFO_ATTR_VERSION :: nat where "INFO_ATTR_VERSION = 1"
definition MEMPAGE_ATTR_ADDR :: nat where "MEMPAGE_ATTR_ADDR = 1"
definition MEMPAGE_ATTR_PFN :: nat where "MEMPAGE_ATTR_PFN = 2"
definition MEMPAGE_ATTR_FLAGS :: nat where "MEMPAGE_ATTR_FLAGS = 3"

text \<open>A policy: the smallest length of the payload for each type, \<open>0\<close> for an entry that is not set.\<close>

definition kfm_cache_nla_policy :: "nat list" where "kfm_cache_nla_policy = [0, 4, 4]"
definition kfm_mempage_nla_policy :: "nat list" where "kfm_mempage_nla_policy = [0, 8, 8, 8]"

text \<open>
  The kernel's parsing of a request: attributes of type 0 or above the family's \<^verbatim>\<open>maxattr\<close> are skipped, the others are
  checked against the policy, if there is one, and stored by type. The family gives the number of its
  commands as \<^verbatim>\<open>maxattr\<close>, so that types are accepted the policy arrays have no entry for.
\<close>

fun nla_parse :: "nat list option \<Rightarrow> nlattr list \<Rightarrow> (nat \<rightharpoonup> 64 word) \<Rightarrow> (int \<times> (nat \<rightharpoonup> 64 word)) res" where
  "nla_parse policy [] tb = Inr (0, tb)"
| "nla_parse policy ((t, len, v) # as) tb =
     (if t = 0 \<or> t > KFM_CMD_MAX then nla_parse policy as tb
      else case policy of
        None \<Rightarrow> nla_parse policy as (tb(t \<mapsto> v))
      | Some p \<Rightarrow>
          if length p \<le> t then Inl Oob_access
          else if len < p ! t then Inr (- EINVAL, tb)
          else nla_parse policy as (tb(t \<mapsto> v)))"

definition kfm_genl_parse_cache :: "(nat \<rightharpoonup> 64 word) \<Rightarrow> kfm_cache_u option" where
  "kfm_genl_parse_cache attrs =
     (case (attrs CACHE_ATTR_CPU, attrs CACHE_ATTR_STATUS) of
        (Some c, Some s) \<Rightarrow> Some \<lparr>kc_cpu = ucast c, kc_status = ucast s\<rparr>
      | _ \<Rightarrow> None)"

definition kfm_genl_fill_cache :: "kfm_cache_u \<Rightarrow> nlattr list" where
  "kfm_genl_fill_cache u = [nla_u32 CACHE_ATTR_CPU (kc_cpu u), nla_u32 CACHE_ATTR_STATUS (kc_status u)]"

definition kfm_genl_parse_mempage :: "(nat \<rightharpoonup> 64 word) \<Rightarrow> kfm_mempage_u option" where
  "kfm_genl_parse_mempage attrs =
     (case attrs MEMPAGE_ATTR_ADDR of Some a \<Rightarrow> Some \<lparr>mp_addr = a, mp_pfn = 0, mp_flags = 0\<rparr> | None \<Rightarrow> None)"

definition kfm_genl_fill_mempage :: "kfm_mempage_u \<Rightarrow> nlattr list" where
  "kfm_genl_fill_mempage u = [nla_u64 MEMPAGE_ATTR_ADDR (mp_addr u), nla_u64 MEMPAGE_ATTR_PFN (mp_pfn u),
     nla_u64 MEMPAGE_ATTR_FLAGS (mp_flags u)]"

definition on_cache :: "(32 word \<Rightarrow> kmach \<Rightarrow> kmach) \<Rightarrow> (nat \<rightharpoonup> 64 word) \<Rightarrow> kmach \<Rightarrow> int \<times> kmach" where
  "on_cache f attrs m = (case kfm_genl_parse_cache attrs of None \<Rightarrow> (- EINVAL, m) | Some u \<Rightarrow> (0, f (kc_cpu u) m))"

definition kfm_genl_set_cmd :: "kfm_cmd \<Rightarrow> (nat \<rightharpoonup> 64 word) \<Rightarrow> kmach \<Rightarrow> int \<times> kmach" where
  "kfm_genl_set_cmd cmd attrs m =
     (case cmd of
        CACHE_DISABLE \<Rightarrow> on_cache kfm_cache_disable_on_cpu attrs m
      | ALL_CACHE_DISABLE \<Rightarrow> (0, kfm_cache_disable_all m)
      | CACHE_ENABLE \<Rightarrow> on_cache kfm_cache_enable_on_cpu attrs m
      | ALL_CACHE_ENABLE \<Rightarrow> (0, kfm_cache_enable_all m)
      | CACHE_FLUSH \<Rightarrow> on_cache kfm_cache_flush_on_cpu attrs m
      | ALL_CACHE_FLUSH \<Rightarrow> (0, kfm_cache_flush_all m)
      | MEMPAGE_ONLINE \<Rightarrow>
          (case kfm_genl_parse_mempage attrs of None \<Rightarrow> (- EINVAL, m) | Some u \<Rightarrow> (kfm_mempage_online_k (mp_addr u), m))
      | _ \<Rightarrow> (- EINVAL, m))"

text \<open>
  \<^verbatim>\<open>kfm_genl_get_cmd\<close>: the return value and the reply. When \<^verbatim>\<open>kfm_get_mempage_info\<close> fails, \<^verbatim>\<open>ret\<close> still holds the 0 of
  the parsing. (There is always room for the few attributes in a message of the default size.)
\<close>

definition kfm_genl_get_cmd :: "(kflag \<Rightarrow> nat) \<Rightarrow> kfm_cmd \<Rightarrow> (nat \<rightharpoonup> 64 word) \<Rightarrow> kmach \<Rightarrow> int \<times> nlattr list option \<times> kmach" where
  "kfm_genl_get_cmd pg cmd attrs m =
     (case cmd of
        GET_INFO \<Rightarrow> (0, Some [nla_u32 INFO_ATTR_VERSION KFM_VERSION_CODE], m)
      | GET_CACHE_INFO \<Rightarrow>
          (case kfm_genl_parse_cache attrs of
             None \<Rightarrow> (- EINVAL, None, m)
           | Some u \<Rightarrow>
               let (ret, m1) = kfm_cache_status_on_cpu (kc_cpu u) m
               in if ret < 0 then (ret, None, m1)
                  else (0, Some (kfm_genl_fill_cache (u\<lparr>kc_status := word_of_int ret\<rparr>)), m1))
      | GET_MEMPAGE_INFO \<Rightarrow>
          (case kfm_genl_parse_mempage attrs of
             None \<Rightarrow> (- EINVAL, None, m)
           | Some u \<Rightarrow>
               let (ret, u1) = kfm_get_mempage_info pg (mp_addr u) u m
               in if ret \<noteq> 0 then (0, None, m) else (0, Some (kfm_genl_fill_mempage u1), m))
      | _ \<Rightarrow> (- EINVAL, None, m))"

text \<open>\<^verbatim>\<open>kfm_genl_ops\<close>: the policy of each command and whether it is a get command. All need administrator rights.\<close>

definition kfm_genl_ops :: "kfm_cmd \<Rightarrow> (nat list option \<times> bool) option" where
  "kfm_genl_ops cmd =
     (if cmd = GET_INFO then Some (None, True)
      else if cmd \<in> set [CACHE_FLUSH, ALL_CACHE_FLUSH, CACHE_DISABLE, ALL_CACHE_DISABLE, CACHE_ENABLE, ALL_CACHE_ENABLE]
      then Some (Some kfm_cache_nla_policy, False)
      else if cmd = GET_CACHE_INFO then Some (Some kfm_cache_nla_policy, True)
      else if cmd = MEMPAGE_ONLINE then Some (Some kfm_mempage_nla_policy, False)
      else if cmd = GET_MEMPAGE_INFO then Some (Some kfm_mempage_nla_policy, True)
      else None)"

text \<open>A request as the kernel handles it: the error code of the acknowledgement, the reply and the state.\<close>

definition genl_rcv :: "(kflag \<Rightarrow> nat) \<Rightarrow> kfm_cmd \<Rightarrow> nlattr list \<Rightarrow> kmach \<Rightarrow> (int \<times> nlattr list option \<times> kmach) res" where
  "genl_rcv pg cmd as m =
     (case kfm_genl_ops cmd of
        None \<Rightarrow> Inr (- EOPNOTSUPP, None, m)
      | Some (policy, get) \<Rightarrow>
          if \<not> km_net_admin m then Inr (- EPERM, None, m)
          else rbind (nla_parse policy as Map.empty) (\<lambda>(err, attrs).
            if err < 0 then Inr (err, None, m)
            else if get then Inr (kfm_genl_get_cmd pg cmd attrs m)
            else let (ret, m1) = kfm_genl_set_cmd cmd attrs m in Inr (ret, None, m1)))"

section \<open>Loading and removing the module\<close>

text \<open>
  \<^verbatim>\<open>kfm_core.c\<close> and the registration of \<^verbatim>\<open>kfm_ctl.c\<close> (the variant for Linux 3.10): the netlink family with its multicast
  groups, the table of sysctl variables and the thread that is meant to post events, which holds a use count of the
  module while it runs. \<open>reg\<close> says which of the registrations succeed, the family first, then the groups.
\<close>

record kmod =
  kd_loaded :: bool
  kd_family :: bool
  kd_groups :: nat
  kd_sysctl :: bool
  kd_thread :: bool
  kd_uses :: nat
  kd_unload :: int

definition kmod_none :: kmod where
  "kmod_none = \<lparr>kd_loaded = False, kd_family = False, kd_groups = 0, kd_sysctl = False, kd_thread = False, kd_uses = 0, kd_unload = 0\<rparr>"

definition kfm_mcgrps :: "string list" where
  "kfm_mcgrps = [''cpumem'', ''disk'', ''net'']"

definition kfm_genl_unregister :: "kmod \<Rightarrow> kmod" where
  "kfm_genl_unregister d = d\<lparr>kd_family := False, kd_groups := 0\<rparr>"

fun register_groups :: "(nat \<Rightarrow> bool) \<Rightarrow> nat \<Rightarrow> string list \<Rightarrow> kmod \<Rightarrow> int \<times> kmod" where
  "register_groups reg i [] d = (0, d)"
| "register_groups reg i (g # gs) d =
     (if reg (Suc i) then register_groups reg (Suc i) gs (d\<lparr>kd_groups := Suc (kd_groups d)\<rparr>) else (-1, kfm_genl_unregister d))"

definition kfm_genl_register :: "(nat \<Rightarrow> bool) \<Rightarrow> kmod \<Rightarrow> int \<times> kmod" where
  "kfm_genl_register reg d =
     (if reg 0 then register_groups reg 0 kfm_mcgrps (d\<lparr>kd_family := True\<rparr>) else (-1, d))"

definition kfm_control_start :: "(nat \<Rightarrow> bool) \<Rightarrow> kmod \<Rightarrow> int \<times> kmod" where
  "kfm_control_start reg d =
     (let (ret, d1) = kfm_genl_register reg d in if ret \<noteq> 0 then (ret, d1) else (ret, d1\<lparr>kd_sysctl := True\<rparr>))"

definition kfm_control_stop :: "kmod \<Rightarrow> kmod" where
  "kfm_control_stop d = kfm_genl_unregister (d\<lparr>kd_sysctl := False\<rparr>)"

definition ENOMEM :: int where "ENOMEM = 12"

text \<open>The thread takes its use count when it starts. With \<^verbatim>\<open>kfm_init\<close> failing the module is not kept.\<close>

definition kfm_init :: "(nat \<Rightarrow> bool) \<Rightarrow> bool \<Rightarrow> kmod \<Rightarrow> int \<times> kmod" where
  "kfm_init reg thread_ok d =
     (let (ret, d1) = kfm_control_start reg d in
      if ret \<noteq> 0 then (ret, d1)
      else if \<not> thread_ok then (- ENOMEM, kfm_control_stop d1)
      else (0, d1\<lparr>kd_loaded := True, kd_thread := True, kd_uses := Suc (kd_uses d1)\<rparr>))"

text \<open>
  \<^verbatim>\<open>kfm_post_evt_thread\<close> does nothing but wait until \<^verbatim>\<open>kfm_post_evt_thread_exit\<close> stops it; that call returns when the thread has
  ended and given back its use count.
\<close>

definition kfm_post_evt_thread_exit :: "kmod \<Rightarrow> kmod" where
  "kfm_post_evt_thread_exit d = (if kd_thread d then d\<lparr>kd_thread := False, kd_uses := kd_uses d - 1\<rparr> else d)"

definition kfm_sysctl_unload_handler :: "int \<Rightarrow> kmod \<Rightarrow> kmod" where
  "kfm_sysctl_unload_handler v d =
     (let d1 = d\<lparr>kd_unload := v\<rparr> in if v \<noteq> 0 then kfm_post_evt_thread_exit d1 else d1)"

definition kfm_cleanup :: "kmod \<Rightarrow> kmod" where
  "kfm_cleanup d = (kfm_control_stop d)\<lparr>kd_loaded := False\<rparr>"

text \<open>
  What can happen to the module: it is loaded when it is not, its variable is written while it is registered, and it is
  removed when its use count is 0.
\<close>

inductive kfm_step :: "kmod \<Rightarrow> kmod \<Rightarrow> bool" where
  insmod: "\<not> kd_loaded d \<Longrightarrow> kfm_init reg ok (d\<lparr>kd_unload := 0\<rparr>) = (r, d') \<Longrightarrow> kfm_step d d'"
| sysctl: "kd_sysctl d \<Longrightarrow> kfm_step d (kfm_sysctl_unload_handler v d)"
| rmmod: "kd_loaded d \<Longrightarrow> kd_uses d = 0 \<Longrightarrow> kfm_step d (kfm_cleanup d)"

definition kmod_ok :: "kmod \<Rightarrow> bool" where
  "kmod_ok d \<longleftrightarrow>
     kd_family d = kd_loaded d \<and> kd_sysctl d = kd_loaded d \<and> kd_groups d = (if kd_loaded d then length kfm_mcgrps else 0) \<and>
     kd_uses d = (if kd_thread d then 1 else 0) \<and> (kd_thread d \<longrightarrow> kd_loaded d)"

lemma register_groups_result:
  "register_groups reg i gs d = (r, d') \<Longrightarrow>
     (r = 0 \<and> d' = d\<lparr>kd_groups := kd_groups d + length gs\<rparr>) \<or> (r = -1 \<and> d' = d\<lparr>kd_family := False, kd_groups := 0\<rparr>)"
  by (induction reg i gs d rule: register_groups.induct)
     (auto simp: kfm_genl_unregister_def split: if_splits)

lemma kfm_init_result:
  assumes "kfm_init reg ok d = (r, d')" "kmod_ok d" "\<not> kd_loaded d"
  shows "kmod_ok d' \<and> kd_loaded d' = (r = 0) \<and> (r \<noteq> 0 \<longrightarrow> d' = d)"
proof -
  obtain r1 d1 where g: "register_groups reg 0 kfm_mcgrps (d\<lparr>kd_family := True\<rparr>) = (r1, d1)" by fastforce
  show ?thesis using assms register_groups_result [OF g]
    by (cases "reg 0")
       (auto simp: g kfm_init_def kfm_control_start_def kfm_genl_register_def kfm_control_stop_def kfm_genl_unregister_def
          kmod_ok_def ENOMEM_def split: if_splits)
qed

inductive_cases kfm_stepE: "kfm_step d d'"

lemma kfm_step_ok: "kfm_step d d' \<Longrightarrow> kmod_ok d \<Longrightarrow> kmod_ok d'"
proof (induction rule: kfm_step.induct)
  case (insmod d reg ok r d')
  then have "kmod_ok (d\<lparr>kd_unload := 0\<rparr>)" by (simp add: kmod_ok_def)
  then show ?case using kfm_init_result [OF insmod(2)] insmod(1) by simp
qed (auto simp: kmod_ok_def kfm_sysctl_unload_handler_def kfm_post_evt_thread_exit_def kfm_cleanup_def
      kfm_control_stop_def kfm_genl_unregister_def Let_def)

lemma kfm_reachable_ok: "kfm_step\<^sup>*\<^sup>* kmod_none d \<Longrightarrow> kmod_ok d"
proof (induction rule: rtranclp_induct)
  case base
  show ?case by (simp add: kmod_ok_def kmod_none_def)
qed (rule kfm_step_ok)

end
