(* ===== verification/Fms_KfmLib.thy ===== *)
theory Fms_KfmLib
  imports Fms_Kfm
begin

text \<open>
  The library of the kernel module (\<^verbatim>\<open>evtlib/kfm/kfmadm/kfm_nl.c\<close>, \<^verbatim>\<open>libkfm_cpumem.c\<close>) and the administration program
  \<^verbatim>\<open>kfmadm.c\<close>, on top of the module's model: what a caller of the library gets and what happens in the kernel.
  The calls of the netlink library that can fail are the parameter \<open>nio\<close>.
\<close>

section \<open>Messages\<close>

record nl_io =
  nl_alloc :: bool
  nl_connect :: bool
  nl_resolve :: bool
  nl_message :: bool
  nl_fill :: bool
  nl_modify_cb :: bool
  nl_send :: bool

definition nl_up :: nl_io where
  "nl_up = \<lparr>nl_alloc = True, nl_connect = True, nl_resolve = True, nl_message = True, nl_fill = True, nl_modify_cb = True, nl_send = True\<rparr>"

definition kfm_nl_connect :: "nl_io \<Rightarrow> int" where
  "kfm_nl_connect nio = (if nl_alloc nio \<and> nl_connect nio \<and> nl_resolve nio then 0 else -1)"

text \<open>
  \<^verbatim>\<open>kfm_nl_send_message\<close>: the callback gets the reply and gives its return value and the data it fills in. The
  receiving call fails with a negative acknowledgement and with a negative value of the callback.
\<close>

definition kfm_nl_send_message ::
  "nl_io \<Rightarrow> (kflag \<Rightarrow> nat) \<Rightarrow> kfm_cmd \<Rightarrow> nlattr list \<Rightarrow> (nlattr list \<Rightarrow> 'd \<Rightarrow> int \<times> 'd) \<Rightarrow> 'd \<Rightarrow> kmach \<Rightarrow> (int \<times> 'd \<times> kmach) res" where
  "kfm_nl_send_message nio pg cmd as cb d m =
     (if \<not> nl_modify_cb nio \<or> \<not> nl_send nio then Inr (-1, d, m)
      else rbind (genl_rcv pg cmd as m) (\<lambda>(err, reply, m1).
        case reply of
          None \<Rightarrow> Inr (if err < 0 then -1 else 0, d, m1)
        | Some r \<Rightarrow> (let (rc, d1) = cb r d in Inr (if rc < 0 then -1 else 0, d1, m1))))"

definition kfm_nl_process_message ::
  "nl_io \<Rightarrow> (kflag \<Rightarrow> nat) \<Rightarrow> kfm_cmd \<Rightarrow> nlattr list \<Rightarrow> (nlattr list \<Rightarrow> 'd \<Rightarrow> int \<times> 'd) \<Rightarrow> 'd \<Rightarrow> kmach \<Rightarrow> (int \<times> 'd \<times> kmach) res" where
  "kfm_nl_process_message nio pg cmd as cb d m =
     (if kfm_nl_connect nio \<noteq> 0 then Inr (-1, d, m)
      else if \<not> nl_message nio then Inr (-1, d, m)
      else if as \<noteq> [] \<and> \<not> nl_fill nio then Inr (-1, d, m)
      else kfm_nl_send_message nio pg cmd as cb d m)"

definition NL_OK :: int where "NL_OK = 0"

definition kfm_nl_noop_cb :: "nlattr list \<Rightarrow> 'd \<Rightarrow> int \<times> 'd" where
  "kfm_nl_noop_cb r d = (NL_OK, d)"

text \<open>The library's side of parsing: the last attribute of each type up to \<open>maxt\<close>, \<open>None\<close> when one is too short.\<close>

fun genlmsg_parse :: "nat list \<Rightarrow> nat \<Rightarrow> nlattr list \<Rightarrow> (nat \<rightharpoonup> 64 word) \<Rightarrow> (nat \<rightharpoonup> 64 word) option" where
  "genlmsg_parse policy maxt [] tb = Some tb"
| "genlmsg_parse policy maxt ((t, len, v) # as) tb =
     (if t = 0 \<or> t > maxt then genlmsg_parse policy maxt as tb
      else if len < policy ! t then None
      else genlmsg_parse policy maxt as (tb(t \<mapsto> v)))"

section \<open>The calls\<close>

definition kfm_nl_fill_cache_attr :: "kfm_cache_u \<Rightarrow> nlattr list" where
  "kfm_nl_fill_cache_attr uc = [nla_u32 CACHE_ATTR_CPU (kc_cpu uc), nla_u32 CACHE_ATTR_STATUS (kc_status uc)]"

definition kfm_nl_cache_parse :: "nlattr list \<Rightarrow> kfm_cache_u \<Rightarrow> int \<times> kfm_cache_u" where
  "kfm_nl_cache_parse r u =
     (case genlmsg_parse kfm_cache_nla_policy 2 r Map.empty of
        None \<Rightarrow> (-1, u)
      | Some tb \<Rightarrow>
          (case (tb CACHE_ATTR_CPU, tb CACHE_ATTR_STATUS) of
             (Some c, Some s) \<Rightarrow> (NL_OK, \<lparr>kc_cpu = ucast c, kc_status = ucast s\<rparr>)
           | _ \<Rightarrow> (-1, u)))"

definition cache_call :: "kfm_cmd \<Rightarrow> nl_io \<Rightarrow> (kflag \<Rightarrow> nat) \<Rightarrow> kfm_cache_u \<Rightarrow> kmach \<Rightarrow> (int \<times> kmach) res" where
  "cache_call cmd nio pg c m =
     rbind (kfm_nl_process_message nio pg cmd (kfm_nl_fill_cache_attr c) kfm_nl_noop_cb () m) (\<lambda>(r, d, m1). Inr (r, m1))"

definition all_call :: "kfm_cmd \<Rightarrow> nl_io \<Rightarrow> (kflag \<Rightarrow> nat) \<Rightarrow> kmach \<Rightarrow> (int \<times> kmach) res" where
  "all_call cmd nio pg m = rbind (kfm_nl_process_message nio pg cmd [] kfm_nl_noop_cb () m) (\<lambda>(r, d, m1). Inr (r, m1))"

definition kfm_cache_disable :: "nl_io \<Rightarrow> (kflag \<Rightarrow> nat) \<Rightarrow> kfm_cache_u \<Rightarrow> kmach \<Rightarrow> (int \<times> kmach) res" where
  "kfm_cache_disable = cache_call CACHE_DISABLE"

definition lib_cache_disable_all :: "nl_io \<Rightarrow> (kflag \<Rightarrow> nat) \<Rightarrow> kmach \<Rightarrow> (int \<times> kmach) res" where
  "lib_cache_disable_all = all_call ALL_CACHE_DISABLE"

definition kfm_cache_enable :: "nl_io \<Rightarrow> (kflag \<Rightarrow> nat) \<Rightarrow> kfm_cache_u \<Rightarrow> kmach \<Rightarrow> (int \<times> kmach) res" where
  "kfm_cache_enable = cache_call CACHE_ENABLE"

definition lib_cache_enable_all :: "nl_io \<Rightarrow> (kflag \<Rightarrow> nat) \<Rightarrow> kmach \<Rightarrow> (int \<times> kmach) res" where
  "lib_cache_enable_all = all_call ALL_CACHE_ENABLE"

definition kfm_cache_flush :: "nl_io \<Rightarrow> (kflag \<Rightarrow> nat) \<Rightarrow> kfm_cache_u \<Rightarrow> kmach \<Rightarrow> (int \<times> kmach) res" where
  "kfm_cache_flush = cache_call CACHE_FLUSH"

definition lib_cache_flush_all :: "nl_io \<Rightarrow> (kflag \<Rightarrow> nat) \<Rightarrow> kmach \<Rightarrow> (int \<times> kmach) res" where
  "lib_cache_flush_all = all_call ALL_CACHE_FLUSH"

definition kfm_cache_get_info :: "nl_io \<Rightarrow> (kflag \<Rightarrow> nat) \<Rightarrow> kfm_cache_u \<Rightarrow> kmach \<Rightarrow> (int \<times> kfm_cache_u \<times> kmach) res" where
  "kfm_cache_get_info nio pg c m = kfm_nl_process_message nio pg GET_CACHE_INFO (kfm_nl_fill_cache_attr c) kfm_nl_cache_parse c m"

definition kfm_nl_fill_mempage_attr :: "kfm_mempage_u \<Rightarrow> nlattr list" where
  "kfm_nl_fill_mempage_attr u = [nla_u64 MEMPAGE_ATTR_ADDR (mp_addr u)]"

definition kfm_nl_mempage_parse :: "nlattr list \<Rightarrow> kfm_mempage_u \<Rightarrow> int \<times> kfm_mempage_u" where
  "kfm_nl_mempage_parse r u =
     (case genlmsg_parse kfm_mempage_nla_policy 3 r Map.empty of
        None \<Rightarrow> (-1, u)
      | Some tb \<Rightarrow>
          (case (tb MEMPAGE_ATTR_ADDR, tb MEMPAGE_ATTR_PFN, tb MEMPAGE_ATTR_FLAGS) of
             (Some a, Some p, Some f) \<Rightarrow> (NL_OK, \<lparr>mp_addr = a, mp_pfn = p, mp_flags = f\<rparr>)
           | _ \<Rightarrow> (-1, u)))"

definition kfm_mempage_get_info :: "nl_io \<Rightarrow> (kflag \<Rightarrow> nat) \<Rightarrow> kfm_mempage_u \<Rightarrow> kmach \<Rightarrow> (int \<times> kfm_mempage_u \<times> kmach) res" where
  "kfm_mempage_get_info nio pg u m = kfm_nl_process_message nio pg GET_MEMPAGE_INFO (kfm_nl_fill_mempage_attr u) kfm_nl_mempage_parse u m"

definition kfm_mempage_online :: "nl_io \<Rightarrow> (kflag \<Rightarrow> nat) \<Rightarrow> kfm_mempage_u \<Rightarrow> kmach \<Rightarrow> (int \<times> kmach) res" where
  "kfm_mempage_online nio pg u m =
     rbind (kfm_nl_process_message nio pg MEMPAGE_ONLINE (kfm_nl_fill_mempage_attr u) kfm_nl_noop_cb () m) (\<lambda>(r, d, m1). Inr (r, m1))"

text \<open>\<^verbatim>\<open>kfm_get_version\<close> with its callback: the text that is put into \<^verbatim>\<open>version\<close>.\<close>

definition NVERSION :: "32 word \<Rightarrow> string" where
  "NVERSION v = dec (uint (drop_bit 16 v AND 0xFF)) @ ''.'' @ dec (uint (drop_bit 8 v AND 0xFF)) @ ''.'' @ dec (uint (v AND 0xFF))"

definition kfm_getinfo_parse_cb :: "nlattr list \<Rightarrow> string \<Rightarrow> int \<times> string" where
  "kfm_getinfo_parse_cb r u =
     (case genlmsg_parse [0, 4] 1 r Map.empty of
        None \<Rightarrow> (-1, u)
      | Some tb \<Rightarrow> (case tb INFO_ATTR_VERSION of None \<Rightarrow> (-1, u) | Some v \<Rightarrow> (NL_OK, ''KFM version '' @ NVERSION (ucast v))))"

definition kfm_get_version :: "nl_io \<Rightarrow> (kflag \<Rightarrow> nat) \<Rightarrow> string \<Rightarrow> kmach \<Rightarrow> (int \<times> string \<times> kmach) res" where
  "kfm_get_version nio pg version m = kfm_nl_process_message nio pg GET_INFO [] kfm_getinfo_parse_cb version m"

section \<open>The program \<^verbatim>\<open>kfmadm\<close>\<close>

text \<open>Commands and options by their bit, and the table of legal combinations.\<close>

definition cmdnames :: "string list" where
  "cmdnames = [''disable-cache'', ''disable-all-cache'', ''enable-cache'', ''enable-all-cache'', ''flush-cache'', ''flush-all-cache'',
     ''list'', ''mempage-online'']"

definition optnames :: "string list" where
  "optnames = [''cpu'', ''cache'', ''mempage'']"

definition commands_v_options :: "string list" where
  "commands_v_options = [''+xx'', ''xxx'', ''+xx'', ''xxx'', ''+xx'', ''xxx'', ''   '', ''xx+'']"

definition quoted :: "string \<Rightarrow> string" where
  "quoted s = [CHR 0x27] @ s @ [CHR 0x27]"

text \<open>The message with which the check fails, if it does; \<open>opts\<close> are the options given, by number.\<close>

fun opt_check_loop :: "nat \<Rightarrow> nat list \<Rightarrow> nat list \<Rightarrow> nat \<Rightarrow> nat \<Rightarrow> string option" where
  "opt_check_loop i opts [] last_j seen = None"
| "opt_check_loop i opts (j # js) last_j seen =
     (let e = commands_v_options ! i ! j in
      if j \<notin> set opts then
        (if e = CHR ''+'' then Some (''You need to supply the '' @ quoted (optnames ! j) @ '' option for the '' @ quoted (cmdnames ! i) @ '' command'')
         else opt_check_loop i opts js last_j seen)
      else if e = CHR ''x'' then Some (''Illegal '' @ quoted (optnames ! j) @ '' option with the '' @ quoted (cmdnames ! i) @ '' command'')
      else if e = CHR ''1'' then
        (if seen = 0 then opt_check_loop i opts js j 1
         else Some (''The option '' @ quoted (optnames ! j) @ '' conflicts with the '' @ quoted (optnames ! last_j) @ '' option in the '' @ quoted (cmdnames ! i) @ '' command''))
      else opt_check_loop i opts js last_j seen)"

definition generic_opt_check :: "nat \<Rightarrow> nat list \<Rightarrow> string option" where
  "generic_opt_check command opts = opt_check_loop command opts [0, 1, 2] 0 0"

definition printf_cache_info :: "kfm_cache_u \<Rightarrow> string" where
  "printf_cache_info c = dec (sint (kc_cpu c)) @ ''      '' @ (if kc_status c \<noteq> 0 then ''disable'' else ''enable'') @ [CHR 0x0A]"

text \<open>\<open>Inr (Inl status)\<close> is a call of \<^verbatim>\<open>fail\<close>, which ends the program.\<close>

fun list_caches :: "nl_io \<Rightarrow> (kflag \<Rightarrow> nat) \<Rightarrow> 32 word list \<Rightarrow> kmach \<Rightarrow> (int + string \<times> kmach) res" where
  "list_caches nio pg [] m = Inr (Inr ([], m))"
| "list_caches nio pg (cpu # cpus) m =
     rbind (kfm_cache_get_info nio pg \<lparr>kc_cpu = cpu, kc_status = 0\<rparr> m) (\<lambda>(ret, c, m1).
       if ret \<noteq> 0 then Inr (Inl 2)
       else rbind (list_caches nio pg cpus m1) (\<lambda>r.
         case r of Inl n \<Rightarrow> Inr (Inl n) | Inr (out, m2) \<Rightarrow> Inr (Inr (printf_cache_info c @ out, m2))))"

text \<open>\<^verbatim>\<open>cpuinfo\<close> holds the processor numbers of \<^verbatim>\<open>/proc/cpuinfo\<close>, \<open>None\<close> when it cannot be opened.\<close>

definition list_cache_info ::
  "nl_io \<Rightarrow> (kflag \<Rightarrow> nat) \<Rightarrow> 32 word list option \<Rightarrow> kfm_cache_u \<Rightarrow> kmach \<Rightarrow> (int + string \<times> kmach) res" where
  "list_cache_info nio pg cpuinfo c m =
     (let head = ''show cpu cache status'' @ [CHR 0x0A] @ ''CPU    CSTATUS'' @ [CHR 0x0A] in
      rbind (if kc_cpu c = -1 then (case cpuinfo of None \<Rightarrow> Inr (Inl 2) | Some cpus \<Rightarrow> list_caches nio pg cpus m)
             else rbind (kfm_cache_get_info nio pg c m) (\<lambda>(ret, c1, m1).
               Inr (if ret \<noteq> 0 then Inl 2 else Inr (printf_cache_info c1, m1)))) (\<lambda>r.
        case r of Inl n \<Rightarrow> Inr (Inl n) | Inr (out, m1) \<Rightarrow> Inr (Inr (head @ out, m1))))"

definition page_status :: "64 word \<Rightarrow> string" where
  "page_status flags =
     (if drop_bit KPF_NOPAGE flags AND 1 = 0 then
        (if drop_bit (KPF HWPOISON) flags AND 1 \<noteq> 0 then ''offline'' else ''online'')
      else ''nopage'')"

definition list_mempage_info :: "nl_io \<Rightarrow> (kflag \<Rightarrow> nat) \<Rightarrow> kfm_mempage_u \<Rightarrow> kmach \<Rightarrow> (int + string \<times> kmach) res" where
  "list_mempage_info nio pg u m =
     rbind (kfm_mempage_get_info nio pg u m) (\<lambda>(ret, u1, m1).
       Inr (if ret \<noteq> 0 then Inl 2
            else Inr (''      ID                   ADDR                  FLAGS            STATUS'' @ [CHR 0x0A] @
              ''0x'' @ pad0 13 (hex (unat (mp_pfn u1))) @ ''     0x'' @ pad0 16 (hex (unat (mp_addr u1))) @ ''     0x'' @
              pad0 16 (hex (unat (mp_flags u1))) @ ''     '' @ page_status (mp_flags u1) @ [CHR 0x0A], m1)))"

text \<open>
  \<^verbatim>\<open>main\<close> of \<^verbatim>\<open>kfmadm.c\<close>. \<open>opts\<close> are the options \<^verbatim>\<open>getopt_long\<close> returns with their arguments, \<open>rest\<close> whether other arguments
  follow; \<open>modprobe\<close> gives the connection after the module was inserted, \<open>None\<close> when that fails; \<open>junk\<close> is what an
  uninitialised \<^verbatim>\<open>result\<close> holds. \<open>Inl status\<close> is an exit, \<open>Inr (out, result, m)\<close> a return with status 0.
\<close>

definition kcommand :: "char \<Rightarrow> nat option" where
  "kcommand c = (case find (\<lambda>(x, i). x = c) (zip ''dDeEfFLo'' [0..<8]) of None \<Rightarrow> None | Some (x, i) \<Rightarrow> Some i)"

definition strtoull_digit :: "nat \<Rightarrow> char \<Rightarrow> nat option" where
  "strtoull_digit b c =
     (let n = of_char c :: nat;
          v = (if 48 \<le> n \<and> n \<le> 57 then n - 48 else if 97 \<le> n \<and> n \<le> 122 then n - 87 else if 65 \<le> n \<and> n \<le> 90 then n - 55 else 99)
      in if v < b then Some v else None)"

fun strtoull_loop :: "nat \<Rightarrow> string \<Rightarrow> nat \<Rightarrow> nat" where
  "strtoull_loop b [] acc = acc"
| "strtoull_loop b (c # s) acc = (case strtoull_digit b c of None \<Rightarrow> acc | Some v \<Rightarrow> strtoull_loop b s (acc * b + v))"

definition strtoull :: "string \<Rightarrow> 64 word" where
  "strtoull s =
     (let s1 = dropWhile isspace s;
          neg = (s1 \<noteq> [] \<and> hd s1 = CHR ''-'');
          s2 = (if s1 \<noteq> [] \<and> hd s1 \<in> {CHR ''-'', CHR ''+''} then tl s1 else s1);
          v = (if (take 2 s2 = ''0x'' \<or> take 2 s2 = ''0X'') \<and> (case drop 2 s2 of [] \<Rightarrow> False | c # _ \<Rightarrow> strtoull_digit 16 c \<noteq> None)
               then strtoull_loop 16 (drop 2 s2) 0
               else if take 1 s2 = ''0'' then strtoull_loop 8 s2 0 else strtoull_loop 10 s2 0)
      in if v \<ge> 2 ^ 64 then -1 else if neg then - of_nat v else of_nat v)"

fun kfmadm_options ::
  "(char \<times> string option) list \<Rightarrow> nat list \<times> kfm_cache_u \<times> kfm_mempage_u \<Rightarrow> int + nat list \<times> kfm_cache_u \<times> kfm_mempage_u" where
  "kfmadm_options [] st = Inr st"
| "kfmadm_options ((c, optarg) # os) (opts, ca, mp) =
     (if c = CHR ''u'' then
        (if 0 \<in> set opts then Inl 2
         else kfmadm_options os (0 # opts, ca\<lparr>kc_cpu := word_of_int (atoi (the optarg))\<rparr>, mp))
      else if c = CHR ''c'' then
        (if 1 \<in> set opts then Inl 2
         else kfmadm_options os (1 # opts, ca\<lparr>kc_cpu := (case optarg of Some a \<Rightarrow> word_of_int (atoi a) | None \<Rightarrow> -1)\<rparr>, mp))
      else if c = CHR ''m'' then
        (if 2 \<in> set opts then Inl 2 else kfmadm_options os (2 # opts, ca, mp\<lparr>mp_addr := strtoull (the optarg)\<rparr>))
      else Inl 2)"

definition kfmadm_command ::
  "nl_io \<Rightarrow> (kflag \<Rightarrow> nat) \<Rightarrow> 32 word list option \<Rightarrow> int \<Rightarrow> nat \<Rightarrow> nat list \<Rightarrow> kfm_cache_u \<Rightarrow> kfm_mempage_u \<Rightarrow> kmach \<Rightarrow>
     (int + string \<times> int \<times> kmach) res" where
  "kfmadm_command nio pg cpuinfo junk command opts ca mp m =
     (let done = (\<lambda>(r, m1). Inr (Inr ([], r, m1)));
          shown = (\<lambda>r. Inr (case r of Inl n \<Rightarrow> Inl n | Inr (out, m1) \<Rightarrow> Inr (out, 0, m1))) in
      if command = 0 then rbind (kfm_cache_disable nio pg ca m) done
      else if command = 1 then rbind (lib_cache_disable_all nio pg m) done
      else if command = 2 then rbind (kfm_cache_enable nio pg ca m) done
      else if command = 3 then rbind (lib_cache_enable_all nio pg m) done
      else if command = 4 then rbind (kfm_cache_flush nio pg ca m) done
      else if command = 5 then rbind (lib_cache_flush_all nio pg m) done
      else if command = 7 then rbind (kfm_mempage_online nio pg mp m) done
      else if 1 \<in> set opts then rbind (list_cache_info nio pg cpuinfo ca m) shown
      else if 2 \<in> set opts then rbind (list_mempage_info nio pg mp m) shown
      else Inr (Inr ([], junk, m)))"

definition kfmadm_run ::
  "nl_io \<Rightarrow> (kflag \<Rightarrow> nat) \<Rightarrow> 32 word list option \<Rightarrow> int \<Rightarrow> (char \<times> string option) list \<Rightarrow> bool \<Rightarrow> kmach \<Rightarrow>
     (int + string \<times> int \<times> kmach) res" where
  "kfmadm_run nio pg cpuinfo junk opts rest m =
     (case opts of
        [] \<Rightarrow> Inr (Inl 255)
      | (c, optarg) # os \<Rightarrow>
          if c = CHR ''h'' then Inr (Inl 0)
          else case kcommand c of
            None \<Rightarrow> Inr (Inl 255)
          | Some command \<Rightarrow>
              (case kfmadm_options os ([], \<lparr>kc_cpu = 0, kc_status = 0\<rparr>, \<lparr>mp_addr = 0, mp_pfn = 0, mp_flags = 0\<rparr>) of
                 Inl n \<Rightarrow> Inr (Inl n)
               | Inr (given, ca, mp) \<Rightarrow>
                   if rest \<or> generic_opt_check command given \<noteq> None then Inr (Inl 2)
                   else kfmadm_command nio pg cpuinfo junk command given ca mp m))"

definition kfmadm_main ::
  "nl_io \<Rightarrow> nl_io option \<Rightarrow> (kflag \<Rightarrow> nat) \<Rightarrow> 32 word list option \<Rightarrow> int \<Rightarrow> (char \<times> string option) list \<Rightarrow> bool \<Rightarrow> kmach \<Rightarrow>
     (int + string \<times> int \<times> kmach) res" where
  "kfmadm_main nio modprobe pg cpuinfo junk opts rest m =
     rbind (kfm_get_version nio pg [] m) (\<lambda>(r, v, m1).
       if r = 0 then kfmadm_run nio pg cpuinfo junk opts rest m1
       else case modprobe of
         None \<Rightarrow> Inr (Inl 2)
       | Some nio1 \<Rightarrow> rbind (kfm_get_version nio1 pg v m1) (\<lambda>(r1, v1, m2).
           if r1 = 0 then kfmadm_run nio1 pg cpuinfo junk opts rest m2 else Inr (Inl 2)))"

end
