(* ===== verification/Fms_KfmUse.thy ===== *)
theory Fms_KfmUse
  imports Fms_KfmLib
begin

unbundle bit_operations_syntax

text \<open>
  What the kernel module, its library and the agent that calls it do together. The caches controlled through the library
  refine a set of switched-off cpus; the page flags shown to a user are those of the page; the agent's handlers for a
  memory page and for a cache flush are run with the library in the place of the kernel record's calls.
\<close>

section \<open>Requests that reach the module\<close>

lemma ucast_32_64 [simp]: "ucast (ucast (w :: 32 word) :: 64 word) = w"
  by (rule bit_word_eqI) (simp add: bit_simps)

lemma cache_attrs [simp]:
  "nla_parse (Some kfm_cache_nla_policy) (kfm_nl_fill_cache_attr c) Map.empty =
     Inr (0, [CACHE_ATTR_CPU \<mapsto> ucast (kc_cpu c), CACHE_ATTR_STATUS \<mapsto> ucast (kc_status c)])"
  by (simp add: kfm_nl_fill_cache_attr_def nla_u32_def kfm_cache_nla_policy_def KFM_CMD_MAX_def CACHE_ATTR_CPU_def CACHE_ATTR_STATUS_def)

lemma cache_attrs_read [simp]:
  "kfm_genl_parse_cache [CACHE_ATTR_CPU \<mapsto> ucast c, CACHE_ATTR_STATUS \<mapsto> ucast s] = Some \<lparr>kc_cpu = c, kc_status = s\<rparr>"
  by (simp add: kfm_genl_parse_cache_def CACHE_ATTR_CPU_def CACHE_ATTR_STATUS_def)

lemma cache_reply_read [simp]: "kfm_nl_cache_parse (kfm_genl_fill_cache u) d = (NL_OK, u)"
  by (simp add: kfm_nl_cache_parse_def kfm_genl_fill_cache_def nla_u32_def kfm_cache_nla_policy_def CACHE_ATTR_CPU_def CACHE_ATTR_STATUS_def)

lemma mempage_attrs [simp]:
  "nla_parse (Some kfm_mempage_nla_policy) (kfm_nl_fill_mempage_attr u) Map.empty = Inr (0, [MEMPAGE_ATTR_ADDR \<mapsto> mp_addr u])"
  by (simp add: kfm_nl_fill_mempage_attr_def nla_u64_def kfm_mempage_nla_policy_def KFM_CMD_MAX_def MEMPAGE_ATTR_ADDR_def)

lemma mempage_attrs_read [simp]:
  "kfm_genl_parse_mempage [MEMPAGE_ATTR_ADDR \<mapsto> a] = Some \<lparr>mp_addr = a, mp_pfn = 0, mp_flags = 0\<rparr>"
  by (simp add: kfm_genl_parse_mempage_def)

lemma mempage_reply_read [simp]: "kfm_nl_mempage_parse (kfm_genl_fill_mempage u) d = (NL_OK, u)"
  by (simp add: kfm_nl_mempage_parse_def kfm_genl_fill_mempage_def nla_u64_def kfm_mempage_nla_policy_def
      MEMPAGE_ATTR_ADDR_def MEMPAGE_ATTR_PFN_def MEMPAGE_ATTR_FLAGS_def)

lemmas request_defs = kfm_nl_process_message_def kfm_nl_connect_def kfm_nl_send_message_def nl_up_def genl_rcv_def kfm_genl_ops_def

lemma process_up:
  "kfm_nl_process_message nl_up pg cmd as cb d m =
     rbind (genl_rcv pg cmd as m) (\<lambda>(err, reply, m1).
        case reply of
          None \<Rightarrow> Inr (if err < 0 then -1 else 0, d, m1)
        | Some r \<Rightarrow> (let (rc, d1) = cb r d in Inr (if rc < 0 then -1 else 0, d1, m1)))"
  by (simp add: kfm_nl_process_message_def kfm_nl_connect_def kfm_nl_send_message_def nl_up_def)

lemma cache_call_up:
  assumes "km_net_admin m" "(cmd, f) \<in> {(CACHE_DISABLE, kfm_cache_disable_on_cpu), (CACHE_ENABLE, kfm_cache_enable_on_cpu), (CACHE_FLUSH, kfm_cache_flush_on_cpu)}"
  shows "cache_call cmd nl_up pg c m = Inr (0, f (kc_cpu c) m)"
  using assms by (auto simp: cache_call_def process_up genl_rcv_def kfm_genl_ops_def kfm_genl_set_cmd_def on_cache_def)

lemma all_call_up:
  assumes "km_net_admin m" "(cmd, f) \<in> {(ALL_CACHE_DISABLE, kfm_cache_disable_all), (ALL_CACHE_ENABLE, kfm_cache_enable_all), (ALL_CACHE_FLUSH, kfm_cache_flush_all)}"
  shows "all_call cmd nl_up pg m = Inr (0, f m)"
  using assms by (auto simp: all_call_def process_up genl_rcv_def kfm_genl_ops_def kfm_genl_set_cmd_def)

section \<open>Caches as a set of cpus\<close>

text \<open>A call of the library that changes a cache, and a sequence of such calls with their results.\<close>

datatype cache_op = Disable "32 word" | Enable "32 word" | Flush "32 word" | DisableAll | EnableAll | FlushAll

fun do_cache_op :: "nl_io \<Rightarrow> (kflag \<Rightarrow> nat) \<Rightarrow> cache_op \<Rightarrow> kmach \<Rightarrow> (int \<times> kmach) res" where
  "do_cache_op nio pg (Disable c) m = kfm_cache_disable nio pg \<lparr>kc_cpu = c, kc_status = 0\<rparr> m"
| "do_cache_op nio pg (Enable c) m = kfm_cache_enable nio pg \<lparr>kc_cpu = c, kc_status = 0\<rparr> m"
| "do_cache_op nio pg (Flush c) m = kfm_cache_flush nio pg \<lparr>kc_cpu = c, kc_status = 0\<rparr> m"
| "do_cache_op nio pg DisableAll m = lib_cache_disable_all nio pg m"
| "do_cache_op nio pg EnableAll m = lib_cache_enable_all nio pg m"
| "do_cache_op nio pg FlushAll m = lib_cache_flush_all nio pg m"

fun do_cache_ops :: "nl_io \<Rightarrow> (kflag \<Rightarrow> nat) \<Rightarrow> cache_op list \<Rightarrow> kmach \<Rightarrow> (int list \<times> kmach) res" where
  "do_cache_ops nio pg [] m = Inr ([], m)"
| "do_cache_ops nio pg (op # ops) m =
     rbind (do_cache_op nio pg op m) (\<lambda>(r, m1). rbind (do_cache_ops nio pg ops m1) (\<lambda>(rs, m2). Inr (r # rs, m2)))"

text \<open>The specification: the set of switched-off cpus and the trace of the write-backs, newest first.\<close>

fun spec_cache_op :: "32 word list \<Rightarrow> cache_op \<Rightarrow> 32 word set \<times> 32 word list \<Rightarrow> 32 word set \<times> 32 word list" where
  "spec_cache_op online (Disable c) (D, W) = (if c \<in> set online then (insert c D, c # W) else (D, W))"
| "spec_cache_op online (Enable c) (D, W) = (D - {c}, W)"
| "spec_cache_op online (Flush c) (D, W) = (D, if c \<in> set online then c # W else W)"
| "spec_cache_op online DisableAll (D, W) = (set online, rev online @ W)"
| "spec_cache_op online EnableAll (D, W) = ({}, W)"
| "spec_cache_op online FlushAll (D, W) = (D, rev online @ W)"

definition abs_caches :: "kmach \<Rightarrow> 32 word set \<times> 32 word list" where
  "abs_caches m = ({c \<in> set (km_online m). bit (km_cr0 m c) 30}, km_wbinvds m)"

lemma bit_CD [simp]: "bit X86_CR0_CD n \<longleftrightarrow> n = 30"
  unfolding X86_CR0_CD_def bit_push_bit_iff by (auto simp: bit_1_iff)

lemma CD_numeral: "X86_CR0_CD = 2 ^ 30"
  by (simp add: X86_CR0_CD_def)

lemma fold_disable:
  "fold kfm_disable_caches ks m =
     m\<lparr>km_cr0 := (\<lambda>c. if c \<in> set ks then km_cr0 m c OR X86_CR0_CD else km_cr0 m c), km_wbinvds := rev ks @ km_wbinvds m\<rparr>"
  by (induction ks arbitrary: m) (auto simp: kfm_disable_caches_def wbinvd_def or.assoc intro!: kmach.equality)

lemma fold_enable:
  "fold kfm_enable_caches ks m =
     m\<lparr>km_cr0 := (\<lambda>c. if c \<in> set ks then km_cr0 m c AND NOT X86_CR0_CD else km_cr0 m c)\<rparr>"
  by (induction ks arbitrary: m) (auto simp: kfm_enable_caches_def and.assoc intro!: kmach.equality)

lemma fold_wbinvd: "fold wbinvd ks m = m\<lparr>km_wbinvds := rev ks @ km_wbinvds m\<rparr>"
  by (induction ks arbitrary: m) (auto simp: wbinvd_def)

lemmas cache_ops_defs = kfm_cache_disable_on_cpu_def kfm_cache_enable_on_cpu_def kfm_cache_flush_on_cpu_def
  kfm_cache_disable_all_def kfm_cache_enable_all_def kfm_cache_flush_all_def smp_call_function_single_def on_each_cpu_def

lemmas cache_call_defs = kfm_cache_disable_def kfm_cache_enable_def kfm_cache_flush_def
  lib_cache_disable_all_def lib_cache_enable_all_def lib_cache_flush_all_def

text \<open>What a call keeps: everything but the cache-disable bit of cpus on line and the trace.\<close>

definition cache_frame :: "kmach \<Rightarrow> kmach \<Rightarrow> bool" where
  "cache_frame m m' \<longleftrightarrow>
     km_online m' = km_online m \<and> km_page m' = km_page m \<and> km_net_admin m' = km_net_admin m \<and> km_sys_admin m' = km_sys_admin m \<and>
     (\<forall>c n. c \<notin> set (km_online m) \<or> n \<noteq> 30 \<longrightarrow> bit (km_cr0 m' c) n = bit (km_cr0 m c) n)"

lemma cache_frame_refl: "cache_frame m m"
  by (simp add: cache_frame_def)

lemma cache_frame_trans: "cache_frame m m1 \<Longrightarrow> cache_frame m1 m2 \<Longrightarrow> cache_frame m m2"
  by (simp add: cache_frame_def)

lemma do_cache_op_up:
  assumes "km_net_admin m"
  obtains m1 where "do_cache_op nl_up pg op m = Inr (0, m1)" "cache_frame m m1"
    "abs_caches m1 = spec_cache_op (km_online m) op (abs_caches m)"
proof (cases op)
  case (Disable c)
  show ?thesis
    by (rule that [of "kfm_cache_disable_on_cpu c m"])
       (auto simp: Disable cache_call_defs cache_call_up [OF assms] cache_frame_def abs_caches_def cache_ops_defs
          kfm_disable_caches_def wbinvd_def bit_simps)
next
  case (Enable c)
  show ?thesis
    by (rule that [of "kfm_cache_enable_on_cpu c m"])
       (auto simp: Enable cache_call_defs cache_call_up [OF assms] cache_frame_def abs_caches_def cache_ops_defs
          kfm_enable_caches_def bit_simps dest: bit_imp_le_length)
next
  case (Flush c)
  show ?thesis
    by (rule that [of "kfm_cache_flush_on_cpu c m"])
       (auto simp: Flush cache_call_defs cache_call_up [OF assms] cache_frame_def abs_caches_def cache_ops_defs wbinvd_def)
next
  case DisableAll
  show ?thesis
    by (rule that [of "kfm_cache_disable_all m"])
       (auto simp: DisableAll cache_call_defs all_call_up [OF assms] cache_frame_def abs_caches_def cache_ops_defs fold_disable bit_simps)
next
  case EnableAll
  show ?thesis
    by (rule that [of "kfm_cache_enable_all m"])
       (auto simp: EnableAll cache_call_defs all_call_up [OF assms] cache_frame_def abs_caches_def cache_ops_defs fold_enable bit_simps dest: bit_imp_le_length)
next
  case FlushAll
  show ?thesis
    by (rule that [of "kfm_cache_flush_all m"])
       (auto simp: FlushAll cache_call_defs all_call_up [OF assms] cache_frame_def abs_caches_def cache_ops_defs fold_wbinvd)
qed

lemma do_cache_ops_up:
  "km_net_admin m \<Longrightarrow> \<exists>m'. do_cache_ops nl_up pg ops m = Inr (replicate (length ops) 0, m') \<and> cache_frame m m' \<and>
     abs_caches m' = fold (spec_cache_op (km_online m)) ops (abs_caches m)"
proof (induction ops arbitrary: m)
  case (Cons op ops)
  obtain m1 where s: "do_cache_op nl_up pg op m = Inr (0, m1)" "cache_frame m m1"
    "abs_caches m1 = spec_cache_op (km_online m) op (abs_caches m)"
    using do_cache_op_up [OF Cons.prems] .
  then have "km_net_admin m1" "km_online m1 = km_online m" using Cons.prems by (simp_all add: cache_frame_def)
  from Cons.IH [OF this(1)] this(2) s show ?case by (auto intro: cache_frame_trans)
qed (simp add: cache_frame_refl)

lemma cache_info_up:
  assumes "km_net_admin m"
  shows "\<exists>m'. kfm_cache_get_info nl_up pg \<lparr>kc_cpu = c, kc_status = s\<rparr> m =
      Inr (if c \<in> set (km_online m)
           then (0, \<lparr>kc_cpu = c, kc_status = if bit (km_cr0 m c) 30 then 2 ^ 30 else 0\<rparr>, m')
           else (-1, \<lparr>kc_cpu = c, kc_status = s\<rparr>, m')) \<and>
    (\<exists>v. m' = m\<lparr>km_cache_status := v\<rparr>)"
proof -
  have "km_cr0 m c AND X86_CR0_CD = (if bit (km_cr0 m c) 30 then X86_CR0_CD else 0)"
    by (rule bit_word_eqI) (auto simp: bit_simps)
  then have "km_cr0 m c AND X86_CR0_CD = (if bit (km_cr0 m c) 30 then 2 ^ 30 else 0)" by (simp only: CD_numeral)
  then show ?thesis using assms
    by (simp add: kfm_cache_get_info_def process_up genl_rcv_def kfm_genl_ops_def kfm_genl_get_cmd_def
        kfm_cache_status_on_cpu_def smp_call_function_single_def kfm_caches_status_def to_int32_def NL_OK_def ENXIO_def) blast
qed

text \<open>
  C18. For a caller with administrator rights any sequence of cache calls through the library returns 0 for every call and
  does to the cpus what the abstract set of switched-off cpus says: only cpus on line are switched, each is written back when it
  is switched off, no other bit of a register changes; asking for a cpu's status afterwards tells exactly whether it is
  in the set (as the register's bit, 2^30, and not as 1) and fails for a cpu that is not on line, although the
  calls that were to change such a cpu returned 0.
\<close>

theorem cache_control_refines_set:
  assumes "km_net_admin m"
  shows "\<exists>m' D W.
     do_cache_ops nl_up pg ops m = Inr (replicate (length ops) 0, m') \<and>
     abs_caches m' = (D, W) \<and> (D, W) = fold (spec_cache_op (km_online m)) ops (abs_caches m) \<and>
     cache_frame m m' \<and>
     (\<forall>c s. \<exists>v. kfm_cache_get_info nl_up pg \<lparr>kc_cpu = c, kc_status = s\<rparr> m' =
        Inr (if c \<in> set (km_online m) then (0, \<lparr>kc_cpu = c, kc_status = if c \<in> D then 2 ^ 30 else 0\<rparr>, m'\<lparr>km_cache_status := v\<rparr>)
             else (-1, \<lparr>kc_cpu = c, kc_status = s\<rparr>, m'\<lparr>km_cache_status := v\<rparr>)))"
proof -
  obtain m' where r: "do_cache_ops nl_up pg ops m = Inr (replicate (length ops) 0, m')" and f: "cache_frame m m'"
    and a: "abs_caches m' = fold (spec_cache_op (km_online m)) ops (abs_caches m)"
    using do_cache_ops_up [OF assms] by blast
  have o: "km_online m' = km_online m" and n: "km_net_admin m'" using f assms by (simp_all add: cache_frame_def)
  let ?D = "{c \<in> set (km_online m'). bit (km_cr0 m' c) 30}"
  have "\<exists>v. kfm_cache_get_info nl_up pg \<lparr>kc_cpu = c, kc_status = s\<rparr> m' =
        Inr (if c \<in> set (km_online m) then (0, \<lparr>kc_cpu = c, kc_status = if c \<in> ?D then 2 ^ 30 else 0\<rparr>, m'\<lparr>km_cache_status := v\<rparr>)
             else (-1, \<lparr>kc_cpu = c, kc_status = s\<rparr>, m'\<lparr>km_cache_status := v\<rparr>))" for c s
    using cache_info_up [OF n, of pg c s] by (auto simp: o)
  moreover have d: "abs_caches m' = (?D, km_wbinvds m')" by (simp add: abs_caches_def)
  ultimately show ?thesis using r f d a [unfolded d]
    by (intro exI [of _ m'] exI [of _ ?D] exI [of _ "km_wbinvds m'"] conjI) (assumption | rule allI)+
qed

definition demo_machine :: kmach where
  "demo_machine = \<lparr>km_online = [0, 1], km_cr0 = (\<lambda>_. 0), km_wbinvds = [], km_cache_status = 0, km_page = (\<lambda>_. None),
     km_net_admin = True, km_sys_admin = True\<rparr>"

theorem cache_control_refines_set_witness:
  "\<exists>m' D W.
     do_cache_ops nl_up KPF [DisableAll, Enable 0, Flush 7] demo_machine = Inr ([0, 0, 0], m') \<and>
     abs_caches m' = (D, W) \<and> (D, W) = ({1}, [1, 0]) \<and>
     cache_frame demo_machine m' \<and>
     (\<forall>c s. \<exists>v. kfm_cache_get_info nl_up KPF \<lparr>kc_cpu = c, kc_status = s\<rparr> m' =
        Inr (if c \<in> set [0, 1] then (0, \<lparr>kc_cpu = c, kc_status = if c \<in> D then 2 ^ 30 else 0\<rparr>, m'\<lparr>km_cache_status := v\<rparr>)
             else (-1, \<lparr>kc_cpu = c, kc_status = s\<rparr>, m'\<lparr>km_cache_status := v\<rparr>)))"
proof -
  have "km_net_admin demo_machine" "km_online demo_machine = [0, 1]"
    "fold (spec_cache_op [0, 1]) [DisableAll, Enable 0, Flush 7] (abs_caches demo_machine) = ({1}, [1, 0])"
    by (auto simp: demo_machine_def abs_caches_def)
  then show ?thesis using cache_control_refines_set [of demo_machine KPF "[DisableAll, Enable 0, Flush 7]"]
    by (simp only: list.size replicate.simps) (simp add: numeral_eq_Suc)
qed

section \<open>Page flags\<close>

lemma bit_or_if: "bit (or_if b k u) n \<longleftrightarrow> bit u n \<or> b \<and> n = k \<and> n < 64"
  by (auto simp: or_if_def bit_simps)

lemma bit_copy: "bit (kpf_copy_bit w u k) n \<longleftrightarrow> n = u \<and> n < 64 \<and> bit w k"
  by (auto simp: kpf_copy_bit_def bit_simps)

lemma bit_fold_or:
  "bit (fold (\<lambda>f u. u OR h f) fs (u :: 64 word)) n \<longleftrightarrow> bit u n \<or> (\<exists>f \<in> set fs. bit (h f) n)"
  by (induction fs arbitrary: u) (auto simp: bit_or_iff)

lemma set_kflags [simp]: "f \<in> set kflags"
  by (cases f) (simp_all add: kflags_def)

lemma KPF_inj: "KPF f = KPF g \<longleftrightarrow> f = g"
  by (cases f; cases g) simp_all

lemma KPF_range: "KPF f < 64 \<and> KPF f \<notin> {KPF_BUDDY, KPF_MMAP, KPF_ANON, KPF_COMPOUND_HEAD, KPF_COMPOUND_TAIL, KPF_NOPAGE, KPF_THP}"
  by (cases f) (simp_all add: KPF_BUDDY_def KPF_MMAP_def KPF_ANON_def KPF_COMPOUND_HEAD_def KPF_COMPOUND_TAIL_def
      Fms_CpuAgent.KPF_NOPAGE_def KPF_THP_def)

lemma stable_page_bit:
  "bit (kfm_stable_page_flags pg (Some p)) (KPF f) \<longleftrightarrow> bit (pg_flags p) (pg f)"
  using KPF_range [of f]
  by (auto simp: kfm_stable_page_flags_def bit_fold_or bit_copy KPF_inj pseudo_flags_def bit_or_if)

definition pseudo_bits :: "nat set" where
  "pseudo_bits = {KPF_BUDDY, KPF_MMAP, KPF_ANON, KPF_COMPOUND_HEAD, KPF_COMPOUND_TAIL, KPF_NOPAGE, KPF_THP}"

lemma stable_pseudo_bit:
  assumes "n \<in> pseudo_bits"
  shows "bit (kfm_stable_page_flags pg (Some p)) n \<longleftrightarrow> bit (pseudo_flags pg p) n"
proof -
  have "KPF f \<noteq> n" for f using KPF_range [of f] assms unfolding pseudo_bits_def by blast
  then show ?thesis by (auto simp: kfm_stable_page_flags_def bit_fold_or bit_copy)
qed

lemmas pseudo_positions = KPF_BUDDY_def KPF_MMAP_def KPF_ANON_def KPF_COMPOUND_HEAD_def KPF_COMPOUND_TAIL_def
  KPF_NOPAGE_def KPF_THP_def

lemma no_page_bit: "bit (kfm_stable_page_flags pg None) n \<longleftrightarrow> n = KPF_NOPAGE"
  unfolding kfm_stable_page_flags_def option.case bit_push_bit_iff by (auto simp: bit_1_iff KPF_NOPAGE_def)

definition has_flag :: "(kflag \<Rightarrow> nat) \<Rightarrow> kpage option \<Rightarrow> kflag \<Rightarrow> bool" where
  "has_flag pg po f = (case po of None \<Rightarrow> False | Some p \<Rightarrow> bit (pg_flags p) (pg f))"

lemma pseudo_flag_bits:
  "bit (pseudo_flags pg p) KPF_MMAP \<longleftrightarrow> pg_mapped p \<and> \<not> bit (pg_flags p) (pg SLAB)"
  "bit (pseudo_flags pg p) KPF_ANON \<longleftrightarrow> pg_anon p"
  "bit (pseudo_flags pg p) KPF_COMPOUND_HEAD \<longleftrightarrow> pg_head p"
  "bit (pseudo_flags pg p) KPF_COMPOUND_TAIL \<longleftrightarrow> pg_tail p"
  "bit (pseudo_flags pg p) KPF_THP \<longleftrightarrow> \<not> pg_tail p \<and> pg_trans_compound p \<and> pg_head_lru_or_anon p"
  "bit (pseudo_flags pg p) KPF_BUDDY \<longleftrightarrow> pg_buddy p"
  "\<not> bit (pseudo_flags pg p) KPF_NOPAGE"
  by (auto simp: pseudo_flags_def bit_or_if pseudo_positions)

lemma copied_flag_exact: "bit (kfm_stable_page_flags pg po) (KPF f) = has_flag pg po f"
  using KPF_range [of f] by (cases po) (auto simp: has_flag_def stable_page_bit no_page_bit)

lemma nopage_flag_exact: "bit (kfm_stable_page_flags pg po) KPF_NOPAGE = (po = None)"
  by (cases po) (simp_all add: no_page_bit stable_pseudo_bit pseudo_bits_def pseudo_flag_bits)

lemma pseudo_not_nopage:
  "KPF_MMAP \<noteq> KPF_NOPAGE" "KPF_ANON \<noteq> KPF_NOPAGE" "KPF_COMPOUND_HEAD \<noteq> KPF_NOPAGE" "KPF_COMPOUND_TAIL \<noteq> KPF_NOPAGE"
  "KPF_THP \<noteq> KPF_NOPAGE" "KPF_BUDDY \<noteq> KPF_NOPAGE"
  by (simp_all add: pseudo_positions)

lemma pseudo_flag_exact:
  assumes "n \<in> pseudo_bits" "n \<noteq> KPF_NOPAGE" "\<And>p. bit (pseudo_flags pg p) n = P p"
  shows "bit (kfm_stable_page_flags pg po) n = (\<exists>p. po = Some p \<and> P p)"
  using assms by (cases po) (simp_all add: no_page_bit stable_pseudo_bit)

lemma mempage_info_up:
  assumes "km_net_admin m"
  shows "kfm_mempage_get_info nl_up pg u m =
    Inr (0, if km_sys_admin m then
        \<lparr>mp_addr = mp_addr u, mp_pfn = drop_bit 12 (mp_addr u), mp_flags = kfm_stable_page_flags pg (km_page m (drop_bit 12 (mp_addr u)))\<rparr>
      else u, m)"
  using assms
  by (simp add: kfm_mempage_get_info_def process_up genl_rcv_def kfm_genl_ops_def kfm_genl_get_cmd_def kfm_get_mempage_info_def
      NL_OK_def EPERM_def Let_def)

lemma bit_shift_and_1: "drop_bit n (w :: 64 word) AND 1 = 0 \<longleftrightarrow> \<not> bit w n"
  by (simp add: and_one_eq bit_iff_odd_drop_bit mod_2_eq_odd)

text \<open>
  C19. Asked by an administrator about a physical address, the library gives the frame number and flags in which each of the 22
  copied flags is that of the page, each pseudo flag holds when the page is such a page, and the flag for no page tells that there is
  none; the status the administration program prints follows. Without the right of a system administrator the call still
  returns 0 and leaves the caller's structure as it was.
\<close>

theorem mempage_info_exact:
  assumes "km_net_admin m" and po: "po = km_page m (drop_bit 12 (mp_addr u))"
  shows "\<exists>fl. kfm_mempage_get_info nl_up pg u m =
      Inr (0, if km_sys_admin m then \<lparr>mp_addr = mp_addr u, mp_pfn = drop_bit 12 (mp_addr u), mp_flags = fl\<rparr> else u, m) \<and>
    (\<forall>f. bit fl (KPF f) = has_flag pg po f) \<and> (bit fl KPF_NOPAGE = (po = None)) \<and>
    bit fl KPF_MMAP = (\<exists>p. po = Some p \<and> pg_mapped p \<and> \<not> has_flag pg po SLAB) \<and>
    bit fl KPF_ANON = (\<exists>p. po = Some p \<and> pg_anon p) \<and>
    bit fl KPF_COMPOUND_HEAD = (\<exists>p. po = Some p \<and> pg_head p) \<and>
    bit fl KPF_COMPOUND_TAIL = (\<exists>p. po = Some p \<and> pg_tail p) \<and>
    bit fl KPF_THP = (\<exists>p. po = Some p \<and> \<not> pg_tail p \<and> pg_trans_compound p \<and> pg_head_lru_or_anon p) \<and>
    bit fl KPF_BUDDY = (\<exists>p. po = Some p \<and> pg_buddy p) \<and>
    page_status fl = (if po = None then ''nopage'' else if has_flag pg po HWPOISON then ''offline'' else ''online'')"
proof (intro exI conjI allI)
  let ?fl = "kfm_stable_page_flags pg po"
  show "kfm_mempage_get_info nl_up pg u m =
      Inr (0, if km_sys_admin m then \<lparr>mp_addr = mp_addr u, mp_pfn = drop_bit 12 (mp_addr u), mp_flags = ?fl\<rparr> else u, m)"
    using mempage_info_up [OF assms(1), of pg u] by (simp add: po)
  show "bit ?fl (KPF f) = has_flag pg po f" for f by (rule copied_flag_exact)
  show "bit ?fl KPF_NOPAGE = (po = None)" by (rule nopage_flag_exact)
  have "bit ?fl KPF_MMAP = (\<exists>p. po = Some p \<and> pg_mapped p \<and> \<not> bit (pg_flags p) (pg SLAB))"
    by (rule pseudo_flag_exact) (simp_all add: pseudo_bits_def pseudo_flag_bits pseudo_not_nopage)
  then show "bit ?fl KPF_MMAP = (\<exists>p. po = Some p \<and> pg_mapped p \<and> \<not> has_flag pg po SLAB)" by (auto simp: has_flag_def)
  show "page_status ?fl = (if po = None then ''nopage'' else if has_flag pg po HWPOISON then ''offline'' else ''online'')"
    unfolding page_status_def bit_shift_and_1 nopage_flag_exact copied_flag_exact by simp
qed (rule pseudo_flag_exact; simp add: pseudo_bits_def pseudo_flag_bits pseudo_not_nopage)+

definition demo_page :: kpage where
  "demo_page = \<lparr>pg_flags = push_bit 19 1, pg_mapped = True, pg_anon = False, pg_head = False, pg_tail = False,
     pg_trans_compound = False, pg_head_lru_or_anon = False, pg_buddy = False\<rparr>"

definition demo_paged :: kmach where
  "demo_paged = demo_machine\<lparr>km_page := (\<lambda>n. if n = 2 then Some demo_page else None)\<rparr>"

lemma demo_page_flags:
  "has_flag KPF (Some demo_page) f \<longleftrightarrow> f = HWPOISON" "pg_mapped demo_page"
proof -
  have "KPF f = 19 \<longleftrightarrow> f = HWPOISON" by (cases f) simp_all
  then show "has_flag KPF (Some demo_page) f \<longleftrightarrow> f = HWPOISON"
    using KPF_range [of f] unfolding has_flag_def demo_page_def option.case kpage.simps bit_push_bit_iff by (auto simp: bit_1_iff)
qed (simp add: demo_page_def)

theorem mempage_info_exact_witness:
  "\<exists>fl. kfm_mempage_get_info nl_up KPF \<lparr>mp_addr = 0x2010, mp_pfn = 0, mp_flags = 0\<rparr> demo_paged =
      Inr (0, \<lparr>mp_addr = 0x2010, mp_pfn = 2, mp_flags = fl\<rparr>, demo_paged) \<and> bit fl KPF_MMAP \<and> page_status fl = ''offline''"
proof -
  have "km_net_admin demo_paged" "km_sys_admin demo_paged" "km_page demo_paged (drop_bit 12 0x2010) = Some demo_page"
    by (simp_all add: demo_paged_def demo_machine_def)
  then show ?thesis
    using mempage_info_exact [of demo_paged "Some demo_page" "\<lparr>mp_addr = 0x2010, mp_pfn = 0, mp_flags = 0\<rparr>" KPF] by (auto simp: demo_page_flags)
qed

section \<open>The agent on top of the module\<close>

text \<open>The calls of the agent's kernel record as \<^verbatim>\<open>evt_process.c\<close> makes them: both structures are cleared first.\<close>

definition with_kfm :: "nl_io \<Rightarrow> (kflag \<Rightarrow> nat) \<Rightarrow> kmach kernel \<Rightarrow> kmach kernel" where
  "with_kfm nio pg k =
     k\<lparr>k_mempage := (\<lambda>a m. case kfm_mempage_get_info nio pg \<lparr>mp_addr = a, mp_pfn = 0, mp_flags = 0\<rparr> m of
           Inl e \<Rightarrow> None | Inr (r, u, m1) \<Rightarrow> if r = 0 then Some (mp_flags u) else None),
       k_flush := (\<lambda>c m. case kfm_cache_flush nio pg \<lparr>kc_cpu = c, kc_status = 0\<rparr> m of
           Inl e \<Rightarrow> (False, m) | Inr (r, m1) \<Rightarrow> (r = 0, m1))\<rparr>"

lemma with_kfm_simps [simp]:
  "k_write (with_kfm nio pg k) = k_write k" "k_file (with_kfm nio pg k) = k_file k" "k_access (with_kfm nio pg k) = k_access k"
  by (simp_all add: with_kfm_def)

lemma KPF_HWPOISON_eq: "KPF_HWPOISON = KPF HWPOISON"
  by (simp add: KPF_HWPOISON_def)

text \<open>
  C20. With the module loaded and the agent privileged, a faulty memory page is reported isolated without any
  further step exactly when the kernel has it and it is marked poisoned; otherwise its address is written to
  \<^verbatim>\<open>soft_offline_page\<close> and the report says whether that succeeded. A cache flush writes back and invalidates the
  caches of the faulty cpu, if it is on line, and nothing else; it is reported as a repair in either case.
\<close>

theorem agent_through_module:
  assumes "km_net_admin m" "km_sys_admin m"
    and "po = km_page m (drop_bit 12 (cm_addr fc))"
  shows "evt_handle_mempage (with_kfm nl_up pg k) (Some fc) (tab, m) =
      (if cm_flags fc AND FMS_CPUMEM_PAGE_ERROR = 0 then Inr (LIST_REPAIRED_FAILED, tab, m)
       else if has_flag pg po HWPOISON then Inr (LIST_ISOLATED_SUCCESS, tab, m)
       else let (ret, m') = k_write k ''/sys/devices/system/memory/soft_offline_page''
              ((if cm_addr fc = 0 then '''' else ''0x'') @ hex (unat (cm_addr fc))) m
         in Inr (if ret > 0 then LIST_ISOLATED_SUCCESS else LIST_ISOLATED_FAILED, tab, m')) \<and>
    handle_cache (with_kfm nl_up pg k) 1 (Some fc) (tab, m) =
      Inr (LIST_REPAIRED_SUCCESS, tab, if cm_cpu fc \<in> set (km_online m) then m\<lparr>km_wbinvds := cm_cpu fc # km_wbinvds m\<rparr> else m)"
proof
  have "k_mempage (with_kfm nl_up pg k) (cm_addr fc) m = Some (kfm_stable_page_flags pg po)"
    using assms by (simp add: with_kfm_def mempage_info_up)
  moreover have "\<not> bit (kfm_stable_page_flags pg po) KPF_NOPAGE \<and> bit (kfm_stable_page_flags pg po) KPF_HWPOISON \<longleftrightarrow> has_flag pg po HWPOISON"
    unfolding KPF_HWPOISON_eq nopage_flag_exact copied_flag_exact by (auto simp: has_flag_def split: option.splits)
  ultimately show "evt_handle_mempage (with_kfm nl_up pg k) (Some fc) (tab, m) =
      (if cm_flags fc AND FMS_CPUMEM_PAGE_ERROR = 0 then Inr (LIST_REPAIRED_FAILED, tab, m)
       else if has_flag pg po HWPOISON then Inr (LIST_ISOLATED_SUCCESS, tab, m)
       else let (ret, m') = k_write k ''/sys/devices/system/memory/soft_offline_page''
              ((if cm_addr fc = 0 then '''' else ''0x'') @ hex (unat (cm_addr fc))) m
         in Inr (if ret > 0 then LIST_ISOLATED_SUCCESS else LIST_ISOLATED_FAILED, tab, m'))"
    by (simp add: evt_handle_mempage_def memory_page_offline_def split: prod.split)
  show "handle_cache (with_kfm nl_up pg k) 1 (Some fc) (tab, m) =
      Inr (LIST_REPAIRED_SUCCESS, tab, if cm_cpu fc \<in> set (km_online m) then m\<lparr>km_wbinvds := cm_cpu fc # km_wbinvds m\<rparr> else m)"
    using assms(1)
    by (simp add: handle_cache_def with_kfm_def kfm_cache_flush_def cache_call_up kfm_cache_flush_on_cpu_def
        smp_call_function_single_def wbinvd_def)
qed

definition demo_page_fault :: fms_cpumem where
  "demo_page_fault = demo_data\<lparr>cm_addr := 0x2010, cm_flags := FMS_CPUMEM_PAGE_ERROR\<rparr>"

definition demo_sysfs :: "kmach kernel" where
  "demo_sysfs = \<lparr>k_dir = \<lambda>_ _. None, k_nlink = \<lambda>_ _. None, k_file = \<lambda>_ _. None, k_access = \<lambda>_ _. False,
     k_write = \<lambda>_ _ m. (-1, m), k_mempage = \<lambda>_ _. None, k_flush = \<lambda>_ m. (False, m)\<rparr>"

theorem agent_through_module_witness:
  "evt_handle_mempage (with_kfm nl_up KPF demo_sysfs) (Some demo_page_fault) ([], demo_paged) = Inr (LIST_ISOLATED_SUCCESS, [], demo_paged) \<and>
   handle_cache (with_kfm nl_up KPF demo_sysfs) 1 (Some demo_page_fault) ([], demo_paged) =
     Inr (LIST_REPAIRED_SUCCESS, [], demo_paged\<lparr>km_wbinvds := [1]\<rparr>)"
proof -
  have f: "km_net_admin demo_paged" "km_sys_admin demo_paged" "Some demo_page = km_page demo_paged (drop_bit 12 (cm_addr demo_page_fault))"
    by (simp_all add: demo_paged_def demo_machine_def demo_page_fault_def)
  have "cm_flags demo_page_fault AND FMS_CPUMEM_PAGE_ERROR \<noteq> 0" "cm_cpu demo_page_fault = 1"
    "1 \<in> set (km_online demo_paged)" "km_wbinvds demo_paged = []"
    by (simp_all add: demo_page_fault_def FMS_CPUMEM_PAGE_ERROR_def demo_data_def demo_paged_def demo_machine_def)
  then show ?thesis using agent_through_module [OF f, of KPF demo_sysfs "[]"] by (simp add: demo_page_flags)
qed

end
