(* ===== verification/Fms_Inject.thy ===== *)
theory Fms_Inject
  imports Fms_CpuLog
begin

text \<open>
  Injection and trace: the tool \<^verbatim>\<open>tools/fmsinject\<close>, which reads a file of error classes and sends each to the daemon,
  the event source \<^verbatim>\<open>evtsrc/inject\<close> that posts what it receives, and the plug-ins \<^verbatim>\<open>evtsrc/trace\<close>, \<^verbatim>\<open>evtagent/trace\<close> and
  \<^verbatim>\<open>evtagent/inject\<close>.

  The parser is the table-driven one of \<^verbatim>\<open>y.tab.c\<close>, with its tables; the scanner follows the rules of
  \<^verbatim>\<open>fminject.l\<close> (the longest match, of equal ones the first); \<open>Fms_Scanner\<close> shows that the generated scanner
  gives the same tokens.
\<close>

section \<open>The scanner\<close>

datatype token = COMMA | COUNT int | ECLASS string

definition class_char :: "char \<Rightarrow> bool" where
  "class_char c \<longleftrightarrow> (let n = of_char c :: nat in
     (97 \<le> n \<and> n \<le> 122) \<or> (65 \<le> n \<and> n \<le> 90) \<or> (48 \<le> n \<and> n \<le> 57) \<or> n = 45 \<or> n = 95)"

text \<open>The longest match of a sequence of parts, each a dot and at least one character.\<close>

function match_parts :: "string \<Rightarrow> string" where
  "match_parts s =
     (case s of
        d # c # r \<Rightarrow> if d = CHR ''.'' \<and> class_char c then d # takeWhile class_char (c # r) @ match_parts (dropWhile class_char (c # r)) else []
      | _ \<Rightarrow> [])"
  by pat_completeness auto
termination
  by (relation "measure length") (auto simp: le_imp_less_Suc length_dropWhile_le le_SucI)

definition match_class :: "string \<Rightarrow> string" where
  "match_class s = (if is_pfx ''ereport'' s \<and> match_parts (drop 7 s) \<noteq> [] then ''ereport'' @ match_parts (drop 7 s) else [])"

definition match_repeat :: "string \<Rightarrow> string" where
  "match_repeat s =
     (let d = takeWhile isdigit (drop 2 s) in if is_pfx ''N='' s \<and> d \<noteq> [] then ''N='' @ d else [])"

definition match_comment :: "string \<Rightarrow> string" where
  "match_comment s =
     (if is_pfx ''//'' s then takeWhile (\<lambda>c. c \<noteq> CHR 0x0A) s
      else let r = drop 2 s; y = takeWhile (\<lambda>c. c \<noteq> CHR ''/'') r in
        if is_pfx ''/*'' s \<and> length y < length r \<and> y \<noteq> [] \<and> last y = CHR ''*'' then ''/*'' @ y @ ''/'' else [])"

text \<open>\<^verbatim>\<open>repval\<close>: what follows the equals sign.\<close>

definition repval :: "string \<Rightarrow> int" where
  "repval s = atoi (case strchr s CHR ''='' of Some p \<Rightarrow> tl p | None \<Rightarrow> [])"

text \<open>\<open>bol\<close> tells whether the text is at the beginning of a line. Every rule starts with another character.\<close>

definition scan :: "bool \<Rightarrow> string \<Rightarrow> nat \<times> token option" where
  "scan bol s =
     (if takeWhile (\<lambda>c. c = CHR '' '' \<or> c = CHR 0x09) s \<noteq> [] then (length (takeWhile (\<lambda>c. c = CHR '' '' \<or> c = CHR 0x09) s), None)
      else if match_comment s \<noteq> [] then (length (match_comment s), None)
      else if bol \<and> match_class s \<noteq> [] then (length (match_class s), Some (ECLASS (match_class s)))
      else if match_repeat s \<noteq> [] then (length (match_repeat s), Some (COUNT (repval (match_repeat s))))
      else if hd s = CHR '','' then (1, Some COMMA)
      else (1, None))"

lemma scan_pos: "s \<noteq> [] \<Longrightarrow> 0 < fst (scan bol s)"
  by (simp add: scan_def)

function yylex_all :: "bool \<Rightarrow> string \<Rightarrow> token list" where
  "yylex_all bol s =
     (if s = [] then []
      else let (n, t) = scan bol s; rest = yylex_all (s ! (n - 1) = CHR 0x0A) (drop n s)
        in case t of None \<Rightarrow> rest | Some x \<Rightarrow> x # rest)"
  by pat_completeness auto
termination
proof (relation "measure (length \<circ> snd)")
  fix bol :: bool and s :: string and x :: "nat \<times> token option" and n :: nat and t :: "token option"
  assume "s \<noteq> []" "x = scan bol s" "(n, t) = x"
  then have "0 < n" using scan_pos [of s bol] by (metis fst_conv)
  then show "((s ! (n - 1) = CHR 0x0A, drop n s), bol, s) \<in> measure (length \<circ> snd)" using \<open>s \<noteq> []\<close> by simp
qed simp

declare match_parts.simps [simp del] yylex_all.simps [simp del]

lemma yylex_all_Nil [simp]: "yylex_all bol [] = []"
  by (simp add: yylex_all.simps)

section \<open>The parser\<close>

text \<open>The tables of \<^verbatim>\<open>y.tab.c\<close>.\<close>

definition yylhs :: "int list" where "yylhs = [-1, 0, 0, 2, 1, 1]"
definition yylen :: "nat list" where "yylen = [2, 2, 1, 2, 2, 0]"
definition yydefred :: "nat list" where "yydefred = [0, 0, 0, 2, 0, 3, 1, 4]"
definition yydgoto :: "int list" where "yydgoto = [2, 5, 3]"
definition yysindex :: "int list" where "yysindex = [-259, -255, -259, 0, -254, 0, 0, 0]"
definition yyrindex :: "int list" where "yyrindex = [0, 1, 0, 0, 0, 0, 0, 0]"
definition yygindex :: "int list" where "yygindex = [0, 0, 3]"
definition YYTABLESIZE :: int where "YYTABLESIZE = 260"
definition yytable :: "int list" where "yytable = [1, 5, 4, 0, 7, 6] @ replicate 254 0 @ [5]"
definition yycheck :: "int list" where "yycheck = [259, 0, 257, -1, 258, 2] @ replicate 254 (-1) @ [259]"
definition YYERRCODE :: int where "YYERRCODE = 256"
definition YYFINAL :: int where "YYFINAL = 2"
definition YYMAXDEPTH :: nat where "YYMAXDEPTH = 10000"

text \<open>A member of the union \<^verbatim>\<open>YYSTYPE\<close>.\<close>

datatype yystype = Strval string | Intval int

fun strval :: "yystype \<Rightarrow> string" where "strval (Strval s) = s" | "strval (Intval n) = []"
fun intval :: "yystype \<Rightarrow> int" where "intval (Intval n) = n" | "intval (Strval s) = 0"

text \<open>
  The parser's state: both stacks, the token read ahead (\<open>-1\<close> for none) and its value, \<^verbatim>\<open>yyerrflag\<close>, the tokens the
  scanner still gives and the messages sent.
\<close>

record yystate =
  yy_stack :: "(int \<times> yystype) list"
  yy_char :: int
  yy_lval :: yystype
  yy_errflag :: nat
  yy_input :: "token list"
  yy_sent :: "string list"

definition yylex :: "yystate \<Rightarrow> yystate" where
  "yylex st =
     (case yy_input st of
        [] \<Rightarrow> st\<lparr>yy_char := 0\<rparr>
      | COMMA # ts \<Rightarrow> st\<lparr>yy_char := 257, yy_input := ts\<rparr>
      | COUNT n # ts \<Rightarrow> st\<lparr>yy_char := 258, yy_lval := Intval n, yy_input := ts\<rparr>
      | ECLASS s # ts \<Rightarrow> st\<lparr>yy_char := 259, yy_lval := Strval s, yy_input := ts\<rparr>)"

definition read_ahead :: "yystate \<Rightarrow> yystate" where
  "read_ahead st = (if yy_char st < 0 then yylex st else st)"

definition tab_hit :: "int \<Rightarrow> int \<Rightarrow> int option" where
  "tab_hit base c =
     (let yyn = base + c in
      if base \<noteq> 0 \<and> yyn \<ge> 0 \<and> yyn \<le> YYTABLESIZE \<and> yycheck ! nat yyn = c then Some (yytable ! nat yyn) else None)"

text \<open>\<^verbatim>\<open>fm_inject\<close>: the class is sent as often as the count says; the result of \<^verbatim>\<open>mq_send\<close> is not looked at.\<close>

definition fm_inject :: "string \<Rightarrow> int \<Rightarrow> string list \<Rightarrow> string list" where
  "fm_inject eclass repeat sent = sent @ replicate (nat repeat) eclass"

text \<open>A push fails with the deepest stack; otherwise the stack grows. \<open>Inl\<close> is the return value of \<^verbatim>\<open>yyparse\<close>.\<close>

definition yypush :: "int \<times> yystype \<Rightarrow> yystate \<Rightarrow> int \<times> yystate + yystate" where
  "yypush x st = (if length (yy_stack st) \<ge> YYMAXDEPTH then Inl (1, st) else Inr (st\<lparr>yy_stack := x # yy_stack st\<rparr>))"

text \<open>
  A reduction by rule \<open>yyn\<close>. The value read for a rule without symbols lies above the stack; the action of the only
  such rule replaces it.
\<close>

definition yyreduce :: "nat \<Rightarrow> yystate \<Rightarrow> int \<times> yystate + yystate" where
  "yyreduce yyn st =
     (let yym = yylen ! yyn; vs = map snd (yy_stack st);
          yyval = (if yyn = 4 then Intval (intval (vs ! 0)) else if yyn = 5 then Intval 1 else vs ! (yym - 1));
          st1 = (if yyn = 3 then st\<lparr>yy_sent := fm_inject (strval (vs ! 1)) (intval (vs ! 0)) (yy_sent st)\<rparr> else st);
          st2 = st1\<lparr>yy_stack := drop yym (yy_stack st1)\<rparr>;
          state = fst (hd (yy_stack st2)); lhs = yylhs ! yyn
      in if state = 0 \<and> lhs = 0 then
           (let st3 = read_ahead (st2\<lparr>yy_stack := (YYFINAL, yyval) # yy_stack st2\<rparr>)
            in if yy_char st3 = 0 then Inl (0, st3) else Inr st3)
         else
           let goto = (case tab_hit (yygindex ! nat lhs) state of Some n \<Rightarrow> n | None \<Rightarrow> yydgoto ! nat lhs)
           in yypush (goto, yyval) st2)"

text \<open>Error recovery: states are discarded until one takes the error token; there is none, which ends the parser.\<close>

fun yydiscard :: "(int \<times> yystype) list \<Rightarrow> ((int \<times> yystype) list \<times> int) option" where
  "yydiscard [] = None"
| "yydiscard ((s, v) # rest) =
     (case tab_hit (yysindex ! nat s) YYERRCODE of Some n \<Rightarrow> Some ((s, v) # rest, n) | None \<Rightarrow> yydiscard rest)"

definition yyerror_label :: "yystate \<Rightarrow> int \<times> yystate + yystate" where
  "yyerror_label st =
     (if yy_errflag st < 3 then
        (case yydiscard (yy_stack st) of
           None \<Rightarrow> Inl (1, st\<lparr>yy_errflag := 3\<rparr>)
         | Some (stk, n) \<Rightarrow> yypush (n, yy_lval st) (st\<lparr>yy_errflag := 3, yy_stack := stk\<rparr>))
      else if yy_char st = 0 then Inl (1, st) else Inr (st\<lparr>yy_char := -1\<rparr>))"

definition yyloop :: "yystate \<Rightarrow> int \<times> yystate + yystate" where
  "yyloop st =
     (let state = nat (fst (hd (yy_stack st))) in
      if yydefred ! state \<noteq> 0 then yyreduce (yydefred ! state) st
      else let st1 = read_ahead st in
        case tab_hit (yysindex ! state) (yy_char st1) of
          Some n \<Rightarrow>
            (case yypush (n, yy_lval st1) st1 of
               Inl r \<Rightarrow> Inl r
             | Inr st2 \<Rightarrow> Inr (st2\<lparr>yy_char := -1, yy_errflag := yy_errflag st2 - 1\<rparr>))
        | None \<Rightarrow>
            (case tab_hit (yyrindex ! state) (yy_char st1) of
               Some n \<Rightarrow> yyreduce (nat n) st1
             | None \<Rightarrow> yyerror_label st1))"

text \<open>\<open>None\<close> when the fuel is used up.\<close>

fun yyrun :: "nat \<Rightarrow> yystate \<Rightarrow> (int \<times> yystate) option" where
  "yyrun 0 st = None"
| "yyrun (Suc k) st = (case yyloop st of Inl r \<Rightarrow> Some r | Inr st1 \<Rightarrow> yyrun k st1)"

definition yyinit :: "token list \<Rightarrow> yystate" where
  "yyinit ts = \<lparr>yy_stack = [(0, Intval 0)], yy_char = -1, yy_lval = Intval 0, yy_errflag = 0, yy_input = ts, yy_sent = []\<rparr>"

definition yyparse :: "nat \<Rightarrow> token list \<Rightarrow> (int \<times> string list) option" where
  "yyparse fuel ts = (case yyrun fuel (yyinit ts) of None \<Rightarrow> None | Some (r, st) \<Rightarrow> Some (r, yy_sent st))"

text \<open>
  \<^verbatim>\<open>main\<close> of \<^verbatim>\<open>fminject.c\<close>: \<open>None\<close> for a missing argument or queue (status 1); the assertion on the file that cannot be opened
  is a failure of the program. The result of the parser is not looked at.
\<close>

definition fminject_main :: "nat \<Rightarrow> string list \<Rightarrow> bool \<Rightarrow> (string \<Rightarrow> string option) \<Rightarrow> (int \<times> string list) option option" where
  "fminject_main fuel args mq files =
     (case args of
        [] \<Rightarrow> Some (Some (1, []))
      | f # _ \<Rightarrow>
          if \<not> mq then Some (Some (1, []))
          else case files f of
            None \<Rightarrow> Some None
          | Some t \<Rightarrow> (case yyparse fuel (yylex_all True t) of None \<Rightarrow> None | Some (r, sent) \<Rightarrow> Some (Some (0, sent))))"

section \<open>The parser is the grammar\<close>

text \<open>
  The grammar as a recursive-descent parser: a statement is a class, with a count after a comma or without; the parser ends with
  status 1 at the first token that does not fit and when there is no statement at all.
\<close>

fun parse_stmts :: "bool \<Rightarrow> token list \<Rightarrow> string list \<Rightarrow> int \<times> string list" where
  "parse_stmts some [] sent = (if some then 0 else 1, sent)"
| "parse_stmts some (ECLASS c # COMMA # COUNT n # ts) sent = parse_stmts True ts (fm_inject c n sent)"
| "parse_stmts some (ECLASS c # ECLASS d # ts) sent = parse_stmts True (ECLASS d # ts) (fm_inject c 1 sent)"
| "parse_stmts some [ECLASS c] sent = (0, fm_inject c 1 sent)"
| "parse_stmts some ts sent = (1, sent)"

lemma tab_entries [simp]:
  "tab_hit (-259) 259 = Some 1" "tab_hit (-259) 257 = None" "tab_hit (-259) 258 = None" "tab_hit (-259) 0 = None"
  "tab_hit (-255) 257 = Some 4" "tab_hit (-255) 258 = None" "tab_hit (-255) 259 = None" "tab_hit (-255) 0 = None"
  "tab_hit (-254) 258 = Some 7" "tab_hit (-254) 257 = None" "tab_hit (-254) 259 = None" "tab_hit (-254) 0 = None"
  "tab_hit 1 0 = Some 5" "tab_hit 1 259 = Some 5" "tab_hit 1 258 = None" "tab_hit 0 x = None"
  "tab_hit 3 0 = None" "tab_hit 3 2 = Some 6"
  "tab_hit (-259) YYERRCODE = None" "tab_hit (-255) YYERRCODE = None" "tab_hit (-254) YYERRCODE = None"
  by (simp_all add: tab_hit_def YYTABLESIZE_def YYERRCODE_def yycheck_def yytable_def nth_append)

lemmas yy_tables = yylhs_def yylen_def yydefred_def yydgoto_def yysindex_def yyrindex_def yygindex_def YYFINAL_def YYMAXDEPTH_def

lemmas yy_steps = yyloop_def yyreduce_def yypush_def yyerror_label_def read_ahead_def yylex_def Let_def

text \<open>
  The state between two statements. At the beginning nothing is read; later the next token is read already, and
  the parser has ended when there is none.
\<close>

definition yyst :: "(int \<times> yystype) list \<Rightarrow> int \<Rightarrow> yystype \<Rightarrow> token list \<Rightarrow> string list \<Rightarrow> yystate" where
  "yyst stk c v ts sent = \<lparr>yy_stack = stk, yy_char = c, yy_lval = v, yy_errflag = 0, yy_input = ts, yy_sent = sent\<rparr>"

fun token_code :: "token \<Rightarrow> int" where
  "token_code COMMA = 257" | "token_code (COUNT n) = 258" | "token_code (ECLASS s) = 259"

fun token_val :: "token \<Rightarrow> yystype \<Rightarrow> yystype" where
  "token_val COMMA v = v" | "token_val (COUNT n) v = Intval n" | "token_val (ECLASS s) v = Strval s"

definition at_start :: "bool \<Rightarrow> token list \<Rightarrow> string list \<Rightarrow> yystate \<Rightarrow> bool" where
  "at_start some ts sent st \<longleftrightarrow>
     (if some then \<exists>u w v t ts'. ts = t # ts' \<and> st = yyst [(2, u), (0, w)] (token_code t) (token_val t v) ts' sent
      else \<exists>w v. st = yyst [(0, w)] (-1) v ts sent)"

lemma run_class0: "yyrun (Suc k) (yyst [(0, w)] (-1) v (ECLASS c # ts) sent) = yyrun k (yyst [(1, Strval c), (0, w)] (-1) (Strval c) ts sent)"
  by (simp add: yyst_def yy_steps yy_tables)

lemma run_class2:
  "yyrun (Suc k) (yyst [(2, u), (0, w)] 259 (Strval c) ts sent) = yyrun k (yyst [(1, Strval c), (2, u), (0, w)] (-1) (Strval c) ts sent)"
  by (simp add: yyst_def yy_steps yy_tables)

text \<open>The single steps after a class, on a stack \<open>S\<close> of at most two entries.\<close>

lemma run_comma: "length S \<le> 2 \<Longrightarrow>
    yyrun (Suc k) (yyst ((1, x) # S) (-1) v (COMMA # ts) sent) = yyrun k (yyst ((4, v) # (1, x) # S) (-1) v ts sent)"
  by (simp add: yyst_def yy_steps yy_tables)

lemma run_count: "length S \<le> 2 \<Longrightarrow>
    yyrun (Suc k) (yyst ((4, v) # (1, x) # S) (-1) v (COUNT n # ts) sent) =
      yyrun k (yyst ((7, Intval n) # (4, v) # (1, x) # S) (-1) (Intval n) ts sent)"
  by (simp add: yyst_def yy_steps yy_tables)

lemma run_repeat: "length S \<le> 2 \<Longrightarrow>
    yyrun (Suc k) (yyst ((7, Intval n) # (4, v) # (1, x) # S) c y ts sent) = yyrun k (yyst ((5, Intval n) # (1, x) # S) c y ts sent)"
  by (simp add: yyst_def yy_steps yy_tables)

lemma run_once: "length S \<le> 2 \<Longrightarrow>
    yyrun (Suc k) (yyst ((1, x) # S) (-1) v (ECLASS d # ts) sent) =
      yyrun k (yyst ((5, Intval 1) # (1, x) # S) 259 (Strval d) ts sent)"
  "length S \<le> 2 \<Longrightarrow> yyrun (Suc k) (yyst ((1, x) # S) (-1) v [] sent) = yyrun k (yyst ((5, Intval 1) # (1, x) # S) 0 v [] sent)"
  by (simp_all add: yyst_def yy_steps yy_tables)

lemma run_inject:
  "yyrun (Suc k) (yyst [(5, Intval n), (1, Strval e), (0, w)] c y ts sent) = yyrun k (yyst [(3, Strval e), (0, w)] c y ts (fm_inject e n sent))"
  "yyrun (Suc k) (yyst [(5, Intval n), (1, Strval e), (2, u), (0, w)] c y ts sent) =
     yyrun k (yyst [(6, Strval e), (2, u), (0, w)] c y ts (fm_inject e n sent))"
  by (simp_all add: yyst_def yy_steps yy_tables)

definition base_stack :: "(int \<times> yystype) list \<Rightarrow> bool" where
  "base_stack S \<longleftrightarrow> (\<exists>u w. S = [(0, w)] \<or> S = [(2, u), (0, w)])"

lemma base_stack_length: "base_stack S \<Longrightarrow> length S \<le> 2"
  by (auto simp: base_stack_def)

lemma run_class:
  assumes "at_start some (ECLASS c # ts) sent st"
  obtains S v where "base_stack S" "\<And>k. yyrun (Suc k) st = yyrun k (yyst ((1, Strval c) # S) (-1) v ts sent)"
proof (cases some)
  case True
  then obtain u w v where "st = yyst [(2, u), (0, w)] 259 (Strval c) ts sent" using assms by (auto simp: at_start_def)
  then show ?thesis using that [of "[(2, u), (0, w)]"] by (simp add: run_class2 base_stack_def del: yyrun.simps)
next
  case False
  then obtain w v where "st = yyst [(0, w)] (-1) v (ECLASS c # ts) sent" using assms by (auto simp: at_start_def)
  then show ?thesis using that [of "[(0, w)]"] by (simp add: run_class0 base_stack_def del: yyrun.simps)
qed

text \<open>The end of a statement, with the next token read (\<open>ahead\<close>) or not.\<close>

lemma run_reduced:
  assumes "s = 3 \<and> rest = [] \<or> s = 6 \<and> (\<exists>u. rest = [(2, u)])"
  shows "\<exists>st'. yyrun (Suc k) (yyst ((s, a) # rest @ [(0, w)]) (-1) y [] sent) = Some (0, st') \<and> yy_sent st' = sent"
    "\<exists>st'. yyrun (Suc k) (yyst ((s, a) # rest @ [(0, w)]) 0 y [] sent) = Some (0, st') \<and> yy_sent st' = sent"
    "\<exists>st'. yyrun (Suc k) (yyst ((s, a) # rest @ [(0, w)]) (-1) y (t # ts) sent) = yyrun k st' \<and> at_start True (t # ts) sent st'"
    "\<exists>st'. yyrun (Suc k) (yyst ((s, a) # rest @ [(0, w)]) 259 (Strval d) ts sent) = yyrun k st' \<and> at_start True (ECLASS d # ts) sent st'"
proof -
  note simps = yyst_def yy_steps yy_tables
  from assms consider "s = 3" "rest = []" | u where "s = 6" "rest = [(2, u)]" by blast
  note cases = this
  show "\<exists>st'. yyrun (Suc k) (yyst ((s, a) # rest @ [(0, w)]) (-1) y [] sent) = Some (0, st') \<and> yy_sent st' = sent"
    by (rule cases) (simp_all add: simps)
  show "\<exists>st'. yyrun (Suc k) (yyst ((s, a) # rest @ [(0, w)]) 0 y [] sent) = Some (0, st') \<and> yy_sent st' = sent"
    by (rule cases) (simp_all add: simps)
  have "yyrun (Suc k) (yyst ((s, a) # rest @ [(0, w)]) (-1) y (t # ts) sent) =
      yyrun k (yyst [(2, if s = 3 then a else snd (hd rest)), (0, w)] (token_code t) (token_val t y) ts sent)"
    by (rule cases; cases t) (simp_all add: simps)
  then show "\<exists>st'. yyrun (Suc k) (yyst ((s, a) # rest @ [(0, w)]) (-1) y (t # ts) sent) = yyrun k st' \<and> at_start True (t # ts) sent st'"
    by (auto simp: at_start_def simp del: yyrun.simps)
  have "yyrun (Suc k) (yyst ((s, a) # rest @ [(0, w)]) 259 (Strval d) ts sent) =
      yyrun k (yyst [(2, if s = 3 then a else snd (hd rest)), (0, w)] (token_code (ECLASS d)) (token_val (ECLASS d) y) ts sent)"
    by (rule cases) (simp_all add: simps)
  then show "\<exists>st'. yyrun (Suc k) (yyst ((s, a) # rest @ [(0, w)]) 259 (Strval d) ts sent) = yyrun k st' \<and> at_start True (ECLASS d # ts) sent st'"
    by (fastforce simp: at_start_def simp del: yyrun.simps)
qed

lemma run_injected:
  assumes "base_stack S"
  obtains s rest a w where "s = 3 \<and> rest = [] \<or> s = 6 \<and> (\<exists>u. rest = [(2, u)])"
    "\<forall>k c y ts sent. yyrun (Suc k) (yyst ((5, Intval n) # (1, Strval e) # S) c y ts sent) =
      yyrun k (yyst ((s, a) # rest @ [(0, w)]) c y ts (fm_inject e n sent))"
proof -
  from assms obtain u w where "S = [(0, w)] \<or> S = [(2, u), (0, w)]" by (auto simp: base_stack_def)
  then show ?thesis
  proof
    assume "S = [(0, w)]"
    then show ?thesis using that [of 3 "[]" "Strval e" w] by (simp add: run_inject del: yyrun.simps)
  next
    assume "S = [(2, u), (0, w)]"
    then show ?thesis using that [of 6 "[(2, u)]" "Strval e" w] by (simp add: run_inject del: yyrun.simps)
  qed
qed

lemma yyrun_more: "yyrun k st = Some r \<Longrightarrow> k \<le> n \<Longrightarrow> yyrun n st = Some r"
proof (induction k arbitrary: st n)
  case (Suc k)
  then obtain m where "n = Suc m" "k \<le> m" by (cases n) auto
  then show ?case using Suc by (auto split: sum.splits)
qed simp

lemma run_stmt_end:
  assumes "base_stack S"
  shows "\<exists>st'. yyrun (Suc (Suc k)) (yyst ((5, Intval n) # (1, Strval e) # S) (-1) y [] sent) = Some (0, st') \<and> yy_sent st' = fm_inject e n sent"
    "\<exists>st'. yyrun (Suc (Suc k)) (yyst ((5, Intval n) # (1, Strval e) # S) 0 y [] sent) = Some (0, st') \<and> yy_sent st' = fm_inject e n sent"
    "\<exists>st'. yyrun (Suc (Suc k)) (yyst ((5, Intval n) # (1, Strval e) # S) (-1) y (t # ts) sent) = yyrun k st' \<and>
       at_start True (t # ts) (fm_inject e n sent) st'"
    "\<exists>st'. yyrun (Suc (Suc k)) (yyst ((5, Intval n) # (1, Strval e) # S) 259 (Strval d) ts sent) = yyrun k st' \<and>
       at_start True (ECLASS d # ts) (fm_inject e n sent) st'"
proof -
  obtain s rest a w where s: "s = 3 \<and> rest = [] \<or> s = 6 \<and> (\<exists>u. rest = [(2, u)])"
    "\<forall>k c y ts sent. yyrun (Suc k) (yyst ((5, Intval n) # (1, Strval e) # S) c y ts sent) =
      yyrun k (yyst ((s, a) # rest @ [(0, w)]) c y ts (fm_inject e n sent))"
    using run_injected [OF assms, of n e] .
  show "\<exists>st'. yyrun (Suc (Suc k)) (yyst ((5, Intval n) # (1, Strval e) # S) (-1) y [] sent) = Some (0, st') \<and> yy_sent st' = fm_inject e n sent"
    "\<exists>st'. yyrun (Suc (Suc k)) (yyst ((5, Intval n) # (1, Strval e) # S) 0 y [] sent) = Some (0, st') \<and> yy_sent st' = fm_inject e n sent"
    "\<exists>st'. yyrun (Suc (Suc k)) (yyst ((5, Intval n) # (1, Strval e) # S) (-1) y (t # ts) sent) = yyrun k st' \<and>
       at_start True (t # ts) (fm_inject e n sent) st'"
    "\<exists>st'. yyrun (Suc (Suc k)) (yyst ((5, Intval n) # (1, Strval e) # S) 259 (Strval d) ts sent) = yyrun k st' \<and>
       at_start True (ECLASS d # ts) (fm_inject e n sent) st'"
    unfolding s(2) [rule_format] by (rule run_reduced [OF s(1)])+
qed

text \<open>A token that does not fit ends the parser with nothing more sent.\<close>

lemma discard_all: "base_stack S \<Longrightarrow> yydiscard S = None"
  by (auto simp: base_stack_def yysindex_def)

lemma run_misfit:
  assumes "base_stack S"
  shows "\<exists>st'. yyrun (Suc k) (yyst ((1, x) # S) (-1) v (COUNT n # ts) sent) = Some (1, st') \<and> yy_sent st' = sent"
    "\<exists>st'. yyrun (Suc k) (yyst ((4, y) # (1, x) # S) (-1) v (COMMA # ts) sent) = Some (1, st') \<and> yy_sent st' = sent"
    "\<exists>st'. yyrun (Suc k) (yyst ((4, y) # (1, x) # S) (-1) v (ECLASS c # ts) sent) = Some (1, st') \<and> yy_sent st' = sent"
    "\<exists>st'. yyrun (Suc k) (yyst ((4, y) # (1, x) # S) (-1) v [] sent) = Some (1, st') \<and> yy_sent st' = sent"
  using discard_all [OF assms] by (simp_all add: yyst_def yy_steps yy_tables)

lemma run_no_class:
  assumes "at_start some ts sent st" "case ts of [] \<Rightarrow> \<not> some | t # _ \<Rightarrow> t \<notin> range ECLASS"
  shows "\<exists>st'. yyrun (Suc k) st = Some (1, st') \<and> yy_sent st' = sent"
proof (cases some)
  case True
  then obtain u w v t ts' where s: "ts = t # ts'" "st = yyst [(2, u), (0, w)] (token_code t) (token_val t v) ts' sent"
    using assms(1) by (auto simp: at_start_def)
  then have "token_code t = 257 \<or> token_code t = 258" using assms(2) by (cases t) simp_all
  then show ?thesis unfolding s(2) by (elim disjE) (simp_all add: yyst_def yy_steps yy_tables)
next
  case False
  then obtain w v where s: "st = yyst [(0, w)] (-1) v ts sent" using assms(1) by (auto simp: at_start_def)
  consider "ts = []" | ts' where "ts = COMMA # ts'" | n ts' where "ts = COUNT n # ts'"
    using assms(2) by (cases ts; cases "hd ts") auto
  then show ?thesis unfolding s by cases (simp_all add: yyst_def yy_steps yy_tables)
qed

definition run_ends :: "nat \<Rightarrow> yystate \<Rightarrow> int \<times> string list \<Rightarrow> bool" where
  "run_ends n st r \<longleftrightarrow> (\<exists>st'. yyrun n st = Some (fst r, st') \<and> yy_sent st' = snd r)"

lemma run_ends_more: "run_ends k st r \<Longrightarrow> k \<le> n \<Longrightarrow> run_ends n st r"
  by (auto simp: run_ends_def dest: yyrun_more)

lemma run_ends_cong: "yyrun n st = yyrun m st1 \<Longrightarrow> run_ends m st1 r \<Longrightarrow> run_ends n st r"
  by (simp add: run_ends_def)

lemma parse_run_class:
  assumes st: "at_start some (ECLASS c # ts) sent st"
    and ih: "\<And>ts' sent' st'. at_start True ts' sent' st' \<Longrightarrow> length ts' \<le> length ts \<Longrightarrow>
      run_ends (6 * length ts' + 1) st' (parse_stmts True ts' sent')"
  shows "run_ends (6 * length (ECLASS c # ts) + 1) st (parse_stmts some (ECLASS c # ts) sent)"
proof -
  obtain S v where S: "base_stack S" and r: "\<And>k. yyrun (Suc k) st = yyrun k (yyst ((1, Strval c) # S) (-1) v ts sent)"
    using run_class [OF st] by metis
  note len = base_stack_length [OF S]
  consider (many) n ts' where "ts = COMMA # COUNT n # ts'" | (bad) "ts = [COMMA] \<or> (\<exists>ts'. ts = COMMA # COMMA # ts') \<or>
      (\<exists>d ts'. ts = COMMA # ECLASS d # ts') \<or> (\<exists>n ts'. ts = COUNT n # ts')"
    | (one) d ts' where "ts = ECLASS d # ts'" | (last) "ts = []"
    by (metis list.exhaust token.exhaust)
  then show ?thesis
  proof cases
    case many
    have e: "yyrun (Suc (Suc (Suc (Suc k)))) st = yyrun k (yyst ((5, Intval n) # (1, Strval c) # S) (-1) (Intval n) ts' sent)" for k
      by (simp only: r many run_comma [OF len] run_count [OF len] run_repeat [OF len])
    let ?m = "6 * length ts' + 1"
    have "run_ends (Suc (Suc (Suc (Suc (Suc (Suc ?m)))))) st (parse_stmts True ts' (fm_inject c n sent))"
    proof (cases ts')
      case Nil
      show ?thesis using run_stmt_end(1) [OF S, of ?m n c "Intval n" sent] unfolding run_ends_def e Nil by simp
    next
      case (Cons t ts'')
      obtain st' where st': "yyrun (Suc (Suc ?m)) (yyst ((5, Intval n) # (1, Strval c) # S) (-1) (Intval n) ts' sent) = yyrun ?m st'"
          "at_start True ts' (fm_inject c n sent) st'"
        using run_stmt_end(3) [OF S, of ?m n c "Intval n" t ts'' sent] unfolding Cons by blast
      have "run_ends ?m st' (parse_stmts True ts' (fm_inject c n sent))" by (rule ih [OF st'(2)]) (simp add: many)
      then show ?thesis by (rule run_ends_cong [rotated]) (simp only: e st'(1))
    qed
    then show ?thesis unfolding many parse_stmts.simps by (rule run_ends_more) simp
  next
    case one
    have e: "yyrun (Suc (Suc k)) st = yyrun k (yyst ((5, Intval 1) # (1, Strval c) # S) 259 (Strval d) ts' sent)" for k
      by (simp only: r one run_once [OF len])
    let ?m = "6 * length ts + 1"
    obtain st' where st': "yyrun (Suc (Suc ?m)) (yyst ((5, Intval 1) # (1, Strval c) # S) 259 (Strval d) ts' sent) = yyrun ?m st'"
        "at_start True ts (fm_inject c 1 sent) st'"
      using run_stmt_end(4) [OF S, of ?m 1 c d ts' sent] unfolding one by blast
    have "run_ends ?m st' (parse_stmts True ts (fm_inject c 1 sent))" by (rule ih [OF st'(2)]) simp
    then have "run_ends (Suc (Suc (Suc (Suc ?m)))) st (parse_stmts True ts (fm_inject c 1 sent))"
      by (rule run_ends_cong [rotated]) (simp only: e st'(1))
    then show ?thesis using run_ends_more [where n = "6 * length (ECLASS c # ts) + 1"] one by simp
  next
    case last
    have e: "yyrun (Suc (Suc k)) st = yyrun k (yyst ((5, Intval 1) # (1, Strval c) # S) 0 v [] sent)" for k
      by (simp only: r last run_once [OF len])
    have "run_ends (Suc (Suc (Suc (Suc 3)))) st (0, fm_inject c 1 sent)"
      using run_stmt_end(2) [OF S, of 3 1 c v sent] unfolding run_ends_def e by simp
    then show ?thesis using run_ends_more [of 7 st "(0, fm_inject c 1 sent)" 7] last by simp
  next
    case bad
    then have "run_ends (Suc (Suc (Suc 0))) st (1, sent)"
      unfolding run_ends_def fst_conv snd_conv r
      by (elim disjE exE) (simp_all only: run_comma [OF len] run_misfit [OF S])
    then show ?thesis using bad by (auto elim!: run_ends_more)
  qed
qed


lemma parse_run:
  "at_start some ts sent st \<Longrightarrow> (some \<longrightarrow> ts \<noteq> []) \<Longrightarrow> run_ends (6 * length ts + 1) st (parse_stmts some ts sent)"
proof (induction "length ts" arbitrary: some ts sent st rule: less_induct)
  case less
  show ?case
  proof (cases "\<exists>c r. ts = ECLASS c # r")
    case True
    then obtain c r where ts: "ts = ECLASS c # r" by blast
    have "run_ends (6 * length ts' + 1) st' (parse_stmts True ts' sent')"
      if s: "at_start True ts' sent' st'" "length ts' \<le> length r" for ts' sent' st'
    proof -
      have "ts' \<noteq> []" using s(1) by (auto simp: at_start_def)
      then show ?thesis using less.hyps [of ts' True sent' st'] s ts by simp
    qed
    then show ?thesis using parse_run_class less.prems(1) unfolding ts by blast
  next
    case False
    then have "case ts of [] \<Rightarrow> \<not> some | t # _ \<Rightarrow> t \<notin> range ECLASS" using less.prems(2) by (auto split: list.split)
    then have "run_ends (Suc 0) st (1, sent)"
      using run_no_class [OF less.prems(1), of 0] unfolding run_ends_def by simp
    moreover have "parse_stmts some ts sent = (1, sent)"
      using False less.prems(2) by (cases ts; cases "hd ts") auto
    ultimately show ?thesis by (auto elim: run_ends_more)
  qed
qed

lemma yyparse_enough:
  assumes "6 * length ts < fuel"
  shows "yyparse fuel ts = Some (parse_stmts False ts [])"
proof -
  have "at_start False ts [] (yyinit ts)" by (simp add: at_start_def yyinit_def yyst_def)
  then have "run_ends (6 * length ts + 1) (yyinit ts) (parse_stmts False ts [])" by (rule parse_run) simp
  then have "run_ends fuel (yyinit ts) (parse_stmts False ts [])" by (rule run_ends_more) (use assms in simp)
  then show ?thesis by (auto simp: run_ends_def yyparse_def)
qed

text \<open>
  C37. The generated parser with its tables decides the grammar: for every sequence of tokens it ends, within six steps per
  token and one, with the status and the injections of the recursive-descent parser, statement by statement; what was
  sent before a token that does not fit stays sent.
\<close>

theorem yyparse_equals_grammar: "yyparse (6 * length ts + 1) ts = Some (parse_stmts False ts [])"
  by (rule yyparse_enough) simp

section \<open>Injection files\<close>

text \<open>
  A file as it is meant to be written: a class on each line, optionally followed by a count. A legal class is \<^verbatim>\<open>ereport\<close> and
  at least one part.
\<close>

definition class_of_parts :: "string list \<Rightarrow> string" where
  "class_of_parts ps = ''ereport'' @ concat (map (\<lambda>p. CHR ''.'' # p) ps)"

definition legal_class :: "string \<Rightarrow> bool" where
  "legal_class c \<longleftrightarrow> (\<exists>ps. ps \<noteq> [] \<and> list_all (\<lambda>p. p \<noteq> [] \<and> list_all class_char p) ps \<and> c = class_of_parts ps)"

fun inj_line :: "string \<times> nat option \<Rightarrow> string" where
  "inj_line (c, None) = c @ [CHR 0x0A]"
| "inj_line (c, Some n) = c @ '', N='' @ nat_str 10 n @ [CHR 0x0A]"

fun inj_tokens :: "string \<times> nat option \<Rightarrow> token list" where
  "inj_tokens (c, None) = [ECLASS c]"
| "inj_tokens (c, Some n) = [ECLASS c, COMMA, COUNT (int n)]"

fun inj_sent :: "string \<times> nat option \<Rightarrow> string list" where
  "inj_sent (c, None) = [c]"
| "inj_sent (c, Some n) = replicate n c"

lemma lex_at:
  assumes "scan bol (a @ r) = (length a, t)" "a \<noteq> []"
  shows "yylex_all bol (a @ r) = (case t of None \<Rightarrow> [] | Some x \<Rightarrow> [x]) @ yylex_all (last a = CHR 0x0A) r"
proof -
  have "(a @ r) ! (length a - 1) = last a" using assms(2) by (simp add: nth_append last_conv_nth)
  then show ?thesis using assms by (subst yylex_all.simps) (simp split: option.split)
qed

lemma match_parts_concat:
  "list_all (\<lambda>p. p \<noteq> [] \<and> list_all class_char p) ps \<Longrightarrow> (r = [] \<or> \<not> class_char (hd r) \<and> hd r \<noteq> CHR ''.'') \<Longrightarrow>
     match_parts (concat (map (\<lambda>p. CHR ''.'' # p) ps) @ r) = concat (map (\<lambda>p. CHR ''.'' # p) ps)"
proof (induction ps)
  case Nil
  then show ?case by (subst match_parts.simps) (cases r; auto split: list.split)
next
  case (Cons p ps)
  let ?r = "concat (map (\<lambda>p. CHR ''.'' # p) ps) @ r"
  obtain c q where p: "p = c # q" using Cons.prems by (cases p) auto
  have all: "\<forall>x\<in>set p. class_char x" using Cons.prems by (simp add: list_all_iff)
  have hd: "?r = [] \<or> \<not> class_char (hd ?r)" using Cons.prems by (cases ps) (auto simp: class_char_def)
  have "takeWhile class_char (p @ ?r) = p" "dropWhile class_char (p @ ?r) = ?r"
    using all hd by (cases ?r; simp add: takeWhile_append dropWhile_append)+
  moreover have "match_parts (CHR ''.'' # p @ ?r) =
      CHR ''.'' # takeWhile class_char (p @ ?r) @ match_parts (dropWhile class_char (p @ ?r))"
    using all by (subst match_parts.simps) (simp add: p)
  ultimately show ?case using Cons by (simp)
qed

lemma legal_class_match:
  assumes "legal_class c" "r = [] \<or> \<not> class_char (hd r) \<and> hd r \<noteq> CHR ''.''"
  shows "match_class (c @ r) = c"
proof -
  obtain ps where ps: "ps \<noteq> []" "list_all (\<lambda>p. p \<noteq> [] \<and> list_all class_char p) ps" "c = class_of_parts ps"
    using assms(1) by (auto simp: legal_class_def)
  let ?p = "concat (map (\<lambda>p. CHR ''.'' # p) ps)"
  have "match_parts (?p @ r) = ?p" "?p \<noteq> []" using match_parts_concat [OF ps(2) assms(2)] ps(1) by (simp_all)
  moreover have "c @ r = ''ereport'' @ ?p @ r" "drop 7 (c @ r) = ?p @ r" by (simp_all add: ps(3) class_of_parts_def)
  ultimately show ?thesis by (simp add: match_class_def is_pfx_def ps(3) class_of_parts_def)
qed

lemma legal_class_shape:
  assumes "legal_class c"
  obtains q where "c = CHR ''e'' # q" "q \<noteq> []" "last c \<noteq> CHR 0x0A"
proof -
  obtain ps where ps: "ps \<noteq> []" "list_all (\<lambda>p. p \<noteq> [] \<and> list_all class_char p) ps" "c = class_of_parts ps"
    using assms by (auto simp: legal_class_def)
  then obtain qs q where q: "ps = qs @ [q]" "q \<noteq> []" "list_all class_char q" by (cases ps rule: rev_cases) auto
  then have "last c = last q" by (simp add: ps(3) class_of_parts_def)
  moreover have "class_char (last q)" using q(2,3) by (simp add: list_all_iff)
  ultimately have "last c \<noteq> CHR 0x0A" by (auto simp: class_char_def)
  then show ?thesis using that [of "tl c"] by (simp add: ps(3) class_of_parts_def)
qed

lemma lex_class:
  assumes "legal_class c" "r = [] \<or> \<not> class_char (hd r) \<and> hd r \<noteq> CHR ''.''"
  shows "yylex_all True (c @ r) = ECLASS c # yylex_all False r"
proof -
  obtain q where q: "c = CHR ''e'' # q" "q \<noteq> []" "last c \<noteq> CHR 0x0A" using legal_class_shape [OF assms(1)] .
  have "scan True (c @ r) = (length c, Some (ECLASS c))"
    using legal_class_match [OF assms] q(1) by (simp add: scan_def match_comment_def is_pfx_def)
  from lex_at [OF this] q show ?thesis by simp
qed

lemma lex_newline: "yylex_all bol (CHR 0x0A # r) = yylex_all True r"
  using lex_at [of bol "[CHR 0x0A]" r None] by (simp add: scan_def match_comment_def match_class_def match_repeat_def is_pfx_def)

lemma lex_count:
  assumes "n < 2 ^ 31"
  shows "yylex_all False ('', N='' @ nat_str 10 n @ CHR 0x0A # r) = COMMA # COUNT (int n) # yylex_all True r"
proof -
  let ?t = "nat_str 10 n @ CHR 0x0A # r"
  have d: "takeWhile isdigit ?t = nat_str 10 n"
    using nat_str_digits [of _ n] by (simp add: takeWhile_append isdigit_def)
  have ne: "nat_str 10 n \<noteq> []" using nat_str_Cons [of 10 n] by auto
  have rv: "repval (''N='' @ nat_str 10 n) = int n" using atoi_dec [OF assms, of "[]"] by (simp add: repval_def)
  have 1: "yylex_all False ('', N='' @ ?t) = COMMA # yylex_all False ('' N='' @ ?t)"
    using lex_at [of False "'',''" "'' N='' @ ?t" "Some COMMA"]
    by (simp add: scan_def match_comment_def match_class_def match_repeat_def is_pfx_def)
  have 2: "yylex_all False ('' N='' @ ?t) = yylex_all False (''N='' @ ?t)"
    using lex_at [of False "'' ''" "''N='' @ ?t" None] by (simp add: scan_def)
  have "match_repeat (''N='' @ ?t) = ''N='' @ nat_str 10 n" using d ne by (simp add: match_repeat_def is_pfx_def)
  then have "scan False ((''N='' @ nat_str 10 n) @ CHR 0x0A # r) = (length (''N='' @ nat_str 10 n), Some (COUNT (int n)))"
    using rv by (simp add: scan_def match_comment_def is_pfx_def)
  moreover have "last (nat_str 10 n) \<noteq> CHR 0x0A" using nat_str_digits [OF last_in_set [OF ne]] by (auto simp: isdigit_def)
  ultimately have 3: "yylex_all False (''N='' @ ?t) = COUNT (int n) # yylex_all False (CHR 0x0A # r)"
    using lex_at [of False "''N='' @ nat_str 10 n" "CHR 0x0A # r"] ne by simp
  show ?thesis unfolding 1 2 3 lex_newline ..
qed

lemma lex_file:
  "list_all (\<lambda>(c, o'). legal_class c \<and> (case o' of None \<Rightarrow> True | Some n \<Rightarrow> n < 2 ^ 31)) xs \<Longrightarrow>
     yylex_all True (concat (map inj_line xs)) = concat (map inj_tokens xs)"
proof (induction xs)
  case (Cons x xs)
  let ?r = "concat (map inj_line xs)"
  obtain c k where x: "x = (c, k)" by fastforce
  show ?case
  proof (cases k)
    case None
    have "yylex_all True (c @ CHR 0x0A # ?r) = ECLASS c # yylex_all True ?r"
      using Cons.prems lex_class [of c "CHR 0x0A # ?r"] by (simp add: x class_char_def lex_newline)
    then show ?thesis using Cons by (simp add: x None)
  next
    case (Some n)
    have "yylex_all True (c @ '', N='' @ nat_str 10 n @ CHR 0x0A # ?r) = ECLASS c # COMMA # COUNT (int n) # yylex_all True ?r"
      using Cons.prems lex_class [of c "'', N='' @ nat_str 10 n @ CHR 0x0A # ?r"] lex_count [of n ?r]
      by (simp add: x Some class_char_def)
    then show ?thesis using Cons by (simp add: x Some)
  qed
qed simp

lemma parse_file:
  "parse_stmts some (concat (map inj_tokens xs)) sent = (if xs = [] \<and> \<not> some then 1 else 0, sent @ concat (map inj_sent xs))"
proof (induction xs arbitrary: some sent)
  case (Cons x xs)
  obtain c k where x: "x = (c, k)" by fastforce
  show ?case
  proof (cases k)
    case (Some n)
    then show ?thesis using Cons [of True] by (simp add: x fm_inject_def)
  next
    case None
    show ?thesis
    proof (cases "concat (map inj_tokens xs)")
      case Nil
      then have "xs = []" by (cases xs; cases "hd xs"; cases "snd (hd xs)") auto
      then show ?thesis by (simp add: x None fm_inject_def)
    next
      case (Cons t ts)
      then obtain d where "t = ECLASS d" by (cases xs; cases "hd xs"; cases "snd (hd xs)") auto
      then show ?thesis using Cons Cons.IH [of True "sent @ [c]"] by (simp add: x None fm_inject_def)
    qed
  qed
qed simp

section \<open>The event sources\<close>

text \<open>
  \<^verbatim>\<open>inject_probe\<close>: at most one message per probe. \<open>q\<close> are the texts that wait in the queue \<^verbatim>\<open>/fmd\<close>, \<open>op\<close> says whether it can be
  opened, \<open>nxt\<close> is the address of the copied private data.
\<close>

definition inject_evt_id :: "string \<Rightarrow> 64 word" where
  "inject_evt_id buff =
     (if buff = ''ereport.disk.unhealthy'' then 1
      else if buff = ''ereport.disk.space-insufficient'' then 2
      else if buff = ''ereport.disk.over-temperature'' then 3
      else 0)"

definition inject_probe :: "bool \<Rightarrow> addr \<Rightarrow> string list \<Rightarrow> (nvlist list option \<times> string list) res" where
  "inject_probe op nxt q =
     (if \<not> op then Inr (None, q)
      else case q of
        [] \<Rightarrow> Inr (None, [])
      | buff # q' \<Rightarrow>
          rbind (fits 128 buff) (\<lambda>value.
            Inr (Some (nvlist_add_nvlist [] (nvlist_alloc\<lparr>nv_name := ''/dev/sdb'', nv_value := value,
              nv_evt_id := inject_evt_id buff, nv_data := nxt\<rparr>)), q')))"

definition trace_item :: "string \<Rightarrow> string \<Rightarrow> 64 word \<Rightarrow> addr \<Rightarrow> nvlist" where
  "trace_item name value i nxt = nvlist_alloc\<lparr>nv_name := name, nv_value := value, nv_dev_id := 2, nv_evt_id := i, nv_data := nxt\<rparr>"

definition trace_probe :: "addr \<Rightarrow> nvlist list" where
  "trace_probe nxt =
     nvlist_add_nvlist (nvlist_add_nvlist (nvlist_add_nvlist [] (trace_item ''cpu'' ''ereport.cpu.cache_ce'' 0x11 nxt))
       (trace_item ''sdb'' ''ereport.disk.badblocks'' 0x22 (nxt + 1))) (trace_item ''cpu'' ''ereport.cpu.bus_ue'' 0x22 (nxt + 2))"

section \<open>The trace agent\<close>

definition trace_log_target :: "fmd_event \<Rightarrow> log_type \<times> string" where
  "trace_log_target e =
     (if ev_event_type e = EVENT_LIST then (FMD_LOG_LIST, ''/var/log/fms/trace/list'')
      else if ev_event_type e = EVENT_FAULT then (FMD_LOG_FAULT, ''/var/log/fms/trace/fault'')
      else (FMD_LOG_ERROR, ''/var/log/fms/trace/serd''))"

text \<open>\<^verbatim>\<open>fmd_log_event\<close> of the trace agent: it returns -1 in every case, and the line is cut at 127 characters.\<close>

definition trace_log_event :: "log_env \<Rightarrow> fmd_event \<Rightarrow> log \<Rightarrow> (int \<times> log) res" where
  "trace_log_event env e log =
     rbind (fits 32 (ev_dev_name e)) (\<lambda>dev_name.
       let (type, dir) = trace_log_target e; dev_id = drop_bit 16 (ev_dev_id e) AND 0xFF
       in rbind (fmd_log_open env dir type) (\<lambda>f. case f of
            None \<Rightarrow> Inr (-1, log)
          | Some fd \<Rightarrow>
              rbind (fmd_get_time (l_localtime env) 26) (\<lambda>times.
                let buf = take 127 (times @ [CHR 0x09] @ ev_class e @ [CHR 0x09] @ dev_name @ '':'' @ [CHR 0x09] @ nat_str 10 (unat dev_id) @ nl)
                in Inr (-1, snd (fmd_log_write env fd buf log)))))"

text \<open>The result of the list event, \<open>None\<close> when there is none, and the event as it is left.\<close>

definition trace_handle_event :: "log_env \<Rightarrow> fmd_event \<Rightarrow> log \<Rightarrow> (int option \<times> fmd_event \<times> log) res" where
  "trace_handle_event env event log =
     (if ev_flag event = AGENT_TODO then
        (let event = event\<lparr>ev_event_type := EVENT_LIST\<rparr>
         in rbind (trace_log_event env event log) (\<lambda>(_, log). Inr (Some LIST_ISOLATED_SUCCESS, event, log)))
      else rbind (trace_log_event env event log) (\<lambda>(_, log). Inr (None, event, log)))"

lemma fmd_log_write_line:
  "length s \<le> 127 \<Longrightarrow> \<exists>l. snd (fmd_log_write env fd s log) = log @ l \<and> list_all (\<lambda>(f, t). length t \<le> 127) l"
  by (auto simp: fmd_log_write_def Let_def min_def)

lemma trace_log_event_ok:
  assumes "length (ev_dev_name e) < 32" "tm_ok (l_localtime env)" "tm_ok (l_gmtime env)"
  shows "\<exists>l. trace_log_event env e log = Inr (-1, log @ l) \<and> list_all (\<lambda>(f, s). length s \<le> 127) l"
proof -
  obtain ty dir where t: "trace_log_target e = (ty, dir)" by fastforce
  obtain op where op: "fmd_log_open env dir ty = Inr op"
    using get_logname_ok [OF assms(3), of ty] by (cases "l_opendir env dir") (auto simp: fmd_log_open_def Let_def)
  obtain tstr where tm: "fmd_get_time (l_localtime env) 26 = Inr tstr" using fmd_get_time_ok [OF assms(2)] by auto
  let ?s = "take 127 (tstr @ [CHR 0x09] @ ev_class e @ [CHR 0x09] @ ev_dev_name e @ '':'' @ [CHR 0x09] @
    nat_str 10 (unat (drop_bit 16 (ev_dev_id e) AND 0xFF)) @ nl)"
  have "\<exists>l. snd (fmd_log_write env fd ?s log) = log @ l \<and> list_all (\<lambda>(f, s). length s \<le> 127) l" for fd
    by (rule fmd_log_write_line) simp
  then show ?thesis using assms(1) t op tm
    by (cases op) (simp_all add: trace_log_event_def fits_def del: take_append)
qed

text \<open>An event with a device name of its size is handled without failure; what is logged is added to the log.\<close>

lemma trace_handle_event_ok:
  assumes "length (ev_dev_name e) < 32" "tm_ok (l_localtime env)" "tm_ok (l_gmtime env)"
  shows "\<exists>l. trace_handle_event env e log =
    Inr (if ev_flag e = AGENT_TODO then (Some LIST_ISOLATED_SUCCESS, e\<lparr>ev_event_type := EVENT_LIST\<rparr>, log @ l) else (None, e, log @ l))"
  using trace_log_event_ok [of e env log] trace_log_event_ok [of "e\<lparr>ev_event_type := EVENT_LIST\<rparr>" env log] assms
  by (auto simp: trace_handle_event_def)

lemma trace_probe_ok: "list_all (\<lambda>x. move_ok (Post x) \<and> length (nv_name x) < 32) (trace_probe nxt)"
  by (simp add: trace_probe_def trace_item_def nvlist_add_nvlist_def nvlist_alloc_def move_ok_def)

section \<open>From the file to the daemon\<close>

text \<open>The probe of the injection source, run \<open>n\<close> times: what it hands over, in order.\<close>

fun inject_probes :: "nat \<Rightarrow> addr \<Rightarrow> string list \<Rightarrow> (nvlist list list \<times> string list) res" where
  "inject_probes 0 nxt q = Inr ([], q)"
| "inject_probes (Suc n) nxt q =
     rbind (inject_probe True nxt q) (\<lambda>(r, q1). rbind (inject_probes n (nxt + 1) q1) (\<lambda>(rs, q2).
       Inr (case r of None \<Rightarrow> (rs, q2) | Some l \<Rightarrow> (l # rs, q2))))"

lemma inject_probes_all:
  "list_all (\<lambda>c. length c < 128) q \<Longrightarrow>
     \<exists>ls. inject_probes (length q) nxt q = Inr (ls, []) \<and>
       list_all2 (\<lambda>l c. \<exists>x. l = [x] \<and> nv_name x = ''/dev/sdb'' \<and> nv_value x = c \<and> nv_evt_id x = inject_evt_id c \<and> move_ok (Post x)) ls q"
proof (induction q arbitrary: nxt)
  case (Cons c q)
  from Cons.IH [of "nxt + 1"] Cons.prems obtain ls where "inject_probes (length q) (nxt + 1) q = Inr (ls, [])"
    "list_all2 (\<lambda>l c. \<exists>x. l = [x] \<and> nv_name x = ''/dev/sdb'' \<and> nv_value x = c \<and> nv_evt_id x = inject_evt_id c \<and> move_ok (Post x)) ls q"
    by auto
  then show ?case using Cons.prems by (simp add: inject_probe_def fits_def nvlist_add_nvlist_def nvlist_alloc_def move_ok_def)
qed simp

lemma inj_tokens_short: "length (concat (map inj_tokens xs)) \<le> length (concat (map inj_line xs))"
proof (induction xs)
  case (Cons x xs)
  have "length (inj_tokens x) \<le> length (inj_line x)" by (cases x; cases "snd x") auto
  then show ?case using Cons by simp
qed simp

lemma inj_sent_class: "s \<in> set (inj_sent x) \<Longrightarrow> s = fst x"
  by (cases x; cases "snd x") auto

definition legal_file :: "(string \<times> nat option) list \<Rightarrow> bool" where
  "legal_file xs \<longleftrightarrow>
     list_all (\<lambda>(c, k). legal_class c \<and> length c < 128 \<and> (case k of None \<Rightarrow> True | Some n \<Rightarrow> n < 2 ^ 31)) xs"

text \<open>
  C36. Injection from the file to the daemon. For a file with a legal class on each line, optionally with a count, the tool ends with status 0
  and sends each class as often as its count says, once without one, in the order of the file; the injection source takes
  these messages one per probe and hands over, in the same order, one item each with the class as its value, which the
  dispatcher accepts; then the queue is empty. (The sender waits while the queue is full; the order is that of the queue.)
\<close>

theorem injection_end_to_end:
  assumes "legal_file xs" "files f = Some (concat (map inj_line xs))" "6 * length (concat (map inj_line xs)) < fuel"
  defines "sent \<equiv> concat (map inj_sent xs)"
  shows "fminject_main fuel (f # args) True files = Some (Some (0, sent)) \<and>
    (\<exists>ls. inject_probes (length sent) nxt sent = Inr (ls, []) \<and>
      list_all2 (\<lambda>l c. \<exists>x. l = [x] \<and> nv_name x = ''/dev/sdb'' \<and> nv_value x = c \<and> nv_evt_id x = inject_evt_id c \<and> move_ok (Post x)) ls sent)"
proof
  let ?ts = "concat (map inj_tokens xs)"
  have "list_all (\<lambda>(c, k). legal_class c \<and> (case k of None \<Rightarrow> True | Some n \<Rightarrow> n < 2 ^ 31)) xs"
    using assms(1) unfolding legal_file_def by (rule list.pred_mono_strong) auto
  then have "yylex_all True (concat (map inj_line xs)) = ?ts" by (rule lex_file)
  moreover have "6 * length ?ts < fuel" using inj_tokens_short [of xs] assms(3) by linarith
  ultimately show "fminject_main fuel (f # args) True files = Some (Some (0, sent))"
    using assms(2) by (simp add: fminject_main_def yyparse_enough parse_file sent_def)
  have "list_all (\<lambda>c. length c < 128) sent"
    using assms(1) by (fastforce simp: sent_def legal_file_def list_all_iff dest: inj_sent_class)
  then show "\<exists>ls. inject_probes (length sent) nxt sent = Inr (ls, []) \<and>
      list_all2 (\<lambda>l c. \<exists>x. l = [x] \<and> nv_name x = ''/dev/sdb'' \<and> nv_value x = c \<and> nv_evt_id x = inject_evt_id c \<and> move_ok (Post x)) ls sent"
    by (rule inject_probes_all)
qed

definition demo_file :: "(string \<times> nat option) list" where
  "demo_file = [(''ereport.disk.over-temperature'', None), (''ereport.cpu.intel.mem_dev'', Some 2)]"

theorem injection_end_to_end_witness:
  "fminject_main 1000 [''disk.inj''] True [''disk.inj'' \<mapsto> concat (map inj_line demo_file)] =
     Some (Some (0, [''ereport.disk.over-temperature'', ''ereport.cpu.intel.mem_dev'', ''ereport.cpu.intel.mem_dev'']))"
proof -
  have "legal_class ''ereport.disk.over-temperature''" "legal_class ''ereport.cpu.intel.mem_dev''"
    unfolding legal_class_def
    by (rule exI [of _ "[''disk'', ''over-temperature'']"], code_simp, rule exI [of _ "[''cpu'', ''intel'', ''mem_dev'']"], code_simp)
  then have l: "legal_file demo_file" by (simp add: legal_file_def demo_file_def)
  have "nat_str 10 2 = ''2''" by code_simp
  then have "length (concat (map inj_line demo_file)) < 166" by (simp add: demo_file_def)
  then have "6 * length (concat (map inj_line demo_file)) < 1000" by simp
  from injection_end_to_end [OF l _ this, of "[''disk.inj'' \<mapsto> concat (map inj_line demo_file)]" "''disk.inj''" "[]"]
  show ?thesis by (simp add: demo_file_def numeral_2_eq_2)
qed

end
