(* ===== verification/Fms_Lex.thy ===== *)
theory Fms_Lex
  imports Fms_Inject
begin

text \<open>
  The scanner of the injection tool as it is compiled: the tables and the functions of \<^verbatim>\<open>tools/fmsinject/lex.yy.c\<close>, which \<^verbatim>\<open>flex\<close>
  made from \<^verbatim>\<open>fminject.l\<close>. The automaton, its tables compressed by defaults, the backing up to the last match and the buffer
  that is refilled from the file block by block are shown to be the scanner of \<open>Fms_Inject\<close>, which follows the rules.
\<close>

section \<open>The tables\<close>

definition yy_accept :: "nat list" where
  "yy_accept =
    [0, 0, 0, 8, 6, 1, 7, 5, 6, 6, 6, 1, 0, 2, 0, 0, 0, 0, 2, 4, 0, 2, 0, 0, 0, 0, 0, 3, 0]"

definition yy_ec :: "nat list" where
  "yy_ec = [0, 1, 1, 1, 1, 1, 1, 1, 1, 2, 3, 1, 1, 1, 1, 1, 1, 1, 1, 1, 1, 1, 1, 1, 1, 1, 1, 1, 1, 1, 1, 1, 2, 1, 1, 1, 1, 1, 1, 1, 1, 1, 4,
     1, 5, 6, 7, 8, 9, 9, 9, 9, 9, 9, 9, 9, 9, 9, 1, 1, 1, 10, 1, 1, 1, 6, 6, 6, 6, 6, 6, 6, 6, 6, 6, 6, 6, 6, 11, 6, 6, 6, 6, 6, 6,
     6, 6, 6, 6, 6, 6, 1, 1, 1, 1, 6, 1, 6, 6, 6, 6, 12, 6, 6, 6, 6, 6, 6, 6, 6, 6, 13, 14, 6, 15, 6, 16, 6, 6, 6, 6, 6, 6, 1, 1, 1,
     1, 1, 1, 1, 1, 1, 1, 1, 1, 1, 1, 1, 1, 1, 1, 1, 1, 1, 1, 1, 1, 1, 1, 1, 1, 1, 1, 1, 1, 1, 1, 1, 1, 1, 1, 1, 1, 1, 1, 1, 1, 1, 1,
     1, 1, 1, 1, 1, 1, 1, 1, 1, 1, 1, 1, 1, 1, 1, 1, 1, 1, 1, 1, 1, 1, 1, 1, 1, 1, 1, 1, 1, 1, 1, 1, 1, 1, 1, 1, 1, 1, 1, 1, 1, 1, 1,
     1, 1, 1, 1, 1, 1, 1, 1, 1, 1, 1, 1, 1, 1, 1, 1, 1, 1, 1, 1, 1, 1, 1, 1, 1, 1, 1, 1, 1, 1, 1, 1, 1, 1, 1, 1, 1, 1, 1, 1, 1, 1, 1,
     1]"

definition yy_meta :: "nat list" where
  "yy_meta =
    [0, 1, 1, 2, 1, 1, 3, 1, 4, 3, 1, 3, 3, 3, 3, 3, 3]"

definition yy_base :: "nat list" where
  "yy_base =
    [0, 0, 10, 44, 45, 41, 45, 45, 2, 32, 26, 38, 35, 0, 29, 25, 32, 12, 0, 26, 20, 45, 18, 4, 1, 2, 0, 0, 45, 22, 26, 29, 1]"

definition yy_def :: "nat list" where
  "yy_def =
    [0, 29, 29, 28, 28, 28, 28, 28, 28, 28, 28, 28, 30, 31, 28, 28, 30, 30, 31, 28, 28, 28, 28, 28, 28, 28, 32, 32, 0, 28, 28, 28, 28]"

definition yy_nxt :: "nat list" where
  "yy_nxt =
    [0, 28, 5, 6, 27, 7, 12, 26, 8, 26, 13, 9, 5, 6, 28, 7, 17, 25, 8, 24, 21, 9, 10, 4, 4, 4, 4, 16, 16, 16, 18, 23, 18, 18, 22, 19,
     17, 20, 19, 17, 11, 15, 14, 11, 28, 3, 28, 28, 28, 28, 28, 28, 28, 28, 28, 28, 28, 28, 28, 28, 28, 28]"

definition yy_chk :: "nat list" where
  "yy_chk =
    [0, 0, 1, 1, 32, 1, 8, 27, 1, 25, 8, 1, 2, 2, 0, 2, 17, 24, 2, 23, 17, 2, 2, 29, 29, 29, 29, 30, 30, 30, 31, 22, 31, 31, 20, 19,
     16, 15, 14, 12, 11, 10, 9, 5, 3, 28, 28, 28, 28, 28, 28, 28, 28, 28, 28, 28, 28, 28, 28, 28, 28, 28]"

definition YY_JAM :: nat where "YY_JAM = 45"

text \<open>
  One transition: while the entry of the table belongs to another state, its default is taken, from state 29 on (templates) with the
  class of the class. \<open>None\<close>: the loop did not end within the given number of defaults.
\<close>

fun yy_trans :: "nat \<Rightarrow> nat \<Rightarrow> nat \<Rightarrow> nat option" where
  "yy_trans 0 q c = None"
| "yy_trans (Suc n) q c =
     (if yy_chk ! (yy_base ! q + c) = q then Some (yy_nxt ! (yy_base ! q + c))
      else let q' = yy_def ! q; c' = (if 29 \<le> q' then yy_meta ! c else c) in yy_trans n q' c')"

text \<open>The class of a character; a zero byte of the text is in class 1 (\<^verbatim>\<open>yy_get_previous_state\<close>, \<^verbatim>\<open>yy_try_NUL_trans\<close>).\<close>

definition yy_class :: "char \<Rightarrow> nat" where
  "yy_class c = (if c = CHR 0x00 then 1 else yy_ec ! of_char c)"

definition yy_next :: "nat \<Rightarrow> char \<Rightarrow> nat" where
  "yy_next q c = the (yy_trans 3 q (yy_class c))"

section \<open>The automaton as a table\<close>

text \<open>The uncompressed automaton: for the states 1 to 28 the next state by class 1 to 16. Three defaults are enough for each.\<close>

definition yy_delta :: "nat list list" where
  "yy_delta = 
   [[4, 5, 6, 4, 7, 4, 4, 8, 4, 4, 9, 4, 4, 4, 4, 4],
    [4, 5, 6, 4, 7, 4, 4, 8, 4, 4, 9, 10, 4, 4, 4, 4],
    [28, 28, 28, 28, 28, 28, 28, 28, 28, 28, 28, 28, 28, 28, 28, 28],
    [28, 28, 28, 28, 28, 28, 28, 28, 28, 28, 28, 28, 28, 28, 28, 28],
    [28, 11, 28, 28, 28, 28, 28, 28, 28, 28, 28, 28, 28, 28, 28, 28],
    [28, 28, 28, 28, 28, 28, 28, 28, 28, 28, 28, 28, 28, 28, 28, 28],
    [28, 28, 28, 28, 28, 28, 28, 28, 28, 28, 28, 28, 28, 28, 28, 28],
    [28, 28, 28, 12, 28, 28, 28, 13, 28, 28, 28, 28, 28, 28, 28, 28],
    [28, 28, 28, 28, 28, 28, 28, 28, 28, 14, 28, 28, 28, 28, 28, 28],
    [28, 28, 28, 28, 28, 28, 28, 28, 28, 28, 28, 28, 28, 28, 15, 28],
    [28, 11, 28, 28, 28, 28, 28, 28, 28, 28, 28, 28, 28, 28, 28, 28],
    [16, 16, 16, 17, 16, 16, 16, 28, 16, 16, 16, 16, 16, 16, 16, 16],
    [18, 18, 28, 18, 18, 18, 18, 18, 18, 18, 18, 18, 18, 18, 18, 18],
    [28, 28, 28, 28, 28, 28, 28, 28, 19, 28, 28, 28, 28, 28, 28, 28],
    [28, 28, 28, 28, 28, 28, 28, 28, 28, 28, 28, 20, 28, 28, 28, 28],
    [16, 16, 16, 17, 16, 16, 16, 28, 16, 16, 16, 16, 16, 16, 16, 16],
    [16, 16, 16, 17, 16, 16, 16, 21, 16, 16, 16, 16, 16, 16, 16, 16],
    [18, 18, 28, 18, 18, 18, 18, 18, 18, 18, 18, 18, 18, 18, 18, 18],
    [28, 28, 28, 28, 28, 28, 28, 28, 19, 28, 28, 28, 28, 28, 28, 28],
    [28, 28, 28, 28, 28, 28, 28, 28, 28, 28, 28, 28, 28, 22, 28, 28],
    [28, 28, 28, 28, 28, 28, 28, 28, 28, 28, 28, 28, 28, 28, 28, 28],
    [28, 28, 28, 28, 28, 28, 28, 28, 28, 28, 28, 28, 23, 28, 28, 28],
    [28, 28, 28, 28, 28, 28, 28, 28, 28, 28, 28, 28, 28, 28, 24, 28],
    [28, 28, 28, 28, 28, 28, 28, 28, 28, 28, 28, 28, 28, 28, 28, 25],
    [28, 28, 28, 28, 28, 28, 26, 28, 28, 28, 28, 28, 28, 28, 28, 28],
    [28, 28, 28, 28, 28, 27, 28, 28, 27, 28, 27, 27, 27, 27, 27, 27],
    [28, 28, 28, 28, 28, 27, 26, 28, 27, 28, 27, 27, 27, 27, 27, 27],
    [28, 28, 28, 28, 28, 28, 28, 28, 28, 28, 28, 28, 28, 28, 28, 28]]"

lemma yy_trans_table: "map (\<lambda>q. map (yy_trans 3 q) [1..<17]) [1..<29] = map (map Some) yy_delta"
  by code_simp

text \<open>The classes of \<^verbatim>\<open>yy_ec\<close> by the code of the character.\<close>

definition code_class :: "nat \<Rightarrow> nat" where
  "code_class n =
     (if n = 0 then 0 else if n = 9 \<or> n = 32 then 2 else if n = 10 then 3 else if n = 42 then 4 else if n = 44 then 5 else if n = 46 then 7
      else if n = 47 then 8 else if 48 \<le> n \<and> n \<le> 57 then 9 else if n = 61 then 10 else if n = 78 then 11 else if n = 101 then 12
      else if n = 111 then 13 else if n = 112 then 14 else if n = 114 then 15 else if n = 116 then 16
      else if n = 45 \<or> 65 \<le> n \<and> n \<le> 90 \<or> 97 \<le> n \<and> n \<le> 122 \<or> n = 95 then 6 else 1)"

lemma upt_0_256: "[0..<256] = 0 # 1 # [2..<256::nat]"
  using upt_conv_Cons [of 0 256] upt_conv_Cons [of 1 256] by (simp add: numeral_2_eq_2)

lemma yy_ec_code: "yy_ec = map code_class [0..<256]"
  by (simp add: upt_0_256 upt_rec_numeral code_class_def yy_ec_def)


lemma yy_ec_nth: "yy_ec ! of_char c = code_class (of_char c)"
  by (simp add: yy_ec_code)

lemmas of_char_numeral = of_char_eq_iff [of _ "CHR 0x00", simplified] of_char_eq_iff [of _ "CHR 0x09", simplified]
  of_char_eq_iff [of _ "CHR 0x0A", simplified] of_char_eq_iff [of _ "CHR '' ''", simplified] of_char_eq_iff [of _ "CHR ''*''", simplified]
  of_char_eq_iff [of _ "CHR '',''", simplified] of_char_eq_iff [of _ "CHR ''.''", simplified] of_char_eq_iff [of _ "CHR ''/''", simplified]
  of_char_eq_iff [of _ "CHR ''=''", simplified] of_char_eq_iff [of _ "CHR ''N''", simplified] of_char_eq_iff [of _ "CHR ''e''", simplified]
  of_char_eq_iff [of _ "CHR ''o''", simplified] of_char_eq_iff [of _ "CHR ''p''", simplified] of_char_eq_iff [of _ "CHR ''r''", simplified]
  of_char_eq_iff [of _ "CHR ''t''", simplified]

lemma yy_class_code: "yy_class c = (if of_char c = (0::nat) then 1 else code_class (of_char c))"
  using of_char_eq_iff [where 'a = nat, of c "CHR 0x00"] by (simp add: yy_class_def yy_ec_nth)

lemma yy_class_eqs:
  "yy_class c = 2 \<longleftrightarrow> c = CHR '' '' \<or> c = CHR 0x09"
  "yy_class c = 3 \<longleftrightarrow> c = CHR 0x0A"
  "yy_class c = 4 \<longleftrightarrow> c = CHR ''*''"
  "yy_class c = 5 \<longleftrightarrow> c = CHR '',''"
  "yy_class c = 7 \<longleftrightarrow> c = CHR ''.''"
  "yy_class c = 8 \<longleftrightarrow> c = CHR ''/''"
  "yy_class c = 9 \<longleftrightarrow> isdigit c"
  "yy_class c = 10 \<longleftrightarrow> c = CHR ''=''"
  "yy_class c = 11 \<longleftrightarrow> c = CHR ''N''"
  "yy_class c = 12 \<longleftrightarrow> c = CHR ''e''"
  "yy_class c = 13 \<longleftrightarrow> c = CHR ''o''"
  "yy_class c = 14 \<longleftrightarrow> c = CHR ''p''"
  "yy_class c = 15 \<longleftrightarrow> c = CHR ''r''"
  "yy_class c = 16 \<longleftrightarrow> c = CHR ''t''"
  unfolding yy_class_code code_class_def isdigit_def
  by (auto simp: of_char_numeral)

lemma yy_class_class: "yy_class c \<in> {6, 9, 11, 12, 13, 14, 15, 16} \<longleftrightarrow> class_char c"
  by (auto simp: yy_class_code code_class_def class_char_def Let_def)

lemma yy_class_range: "yy_class c \<in> {1, 2, 3, 4, 5, 6, 7, 8, 9, 10, 11, 12, 13, 14, 15, 16}"
  by (simp add: yy_class_code code_class_def)


section \<open>The next state by the character\<close>

lemma yy_next_delta:
  assumes "1 \<le> q" "q < 29"
  shows "yy_next q c = yy_delta ! (q - 1) ! (yy_class c - 1)"
proof -
  have c: "1 \<le> yy_class c" "yy_class c < 17" using yy_class_range [of c] by auto
  have l: "q - 1 < length [1..<29]" "yy_class c - 1 < length [1..<17]" using assms c by auto
  have "map (\<lambda>q. map (yy_trans 3 q) [1..<17]) [1..<29] ! (q - 1) ! (yy_class c - 1) = yy_trans 3 q (yy_class c)"
    using assms c l by (simp add: nth_map)
  moreover have "map (map Some) yy_delta ! (q - 1) ! (yy_class c - 1) = Some (yy_delta ! (q - 1) ! (yy_class c - 1))"
  proof -
    have "length yy_delta = 28" "\<forall>r \<in> set yy_delta. length r = 16" by (simp_all add: yy_delta_def)
    then show ?thesis using assms c by simp
  qed
  ultimately show ?thesis unfolding yy_next_def yy_trans_table by simp
qed

lemma yy_class_cases:
  "(\<And>k. k \<in> {1, 2, 3, 4, 5, 6, 7, 8, 9, 10, 11, 12, 13, 14, 15, 16} \<Longrightarrow> P k) \<Longrightarrow> P (yy_class c)"
  using yy_class_range by blast

lemma yy_delta_rows:
  "yy_next 1 c = (let k = yy_class c in if k = 2 then 5 else if k = 3 then 6 else if k = 5 then 7 else if k = 8 then 8 else if k = 11 then 9 else 4)"
  "yy_next 2 c = (let k = yy_class c in
     if k = 2 then 5 else if k = 3 then 6 else if k = 5 then 7 else if k = 8 then 8 else if k = 11 then 9 else if k = 12 then 10 else 4)"
  "q \<in> {4, 6, 7, 21, 28} \<Longrightarrow> yy_next q c = 28"
  "q \<in> {5, 11} \<Longrightarrow> yy_next q c = (if yy_class c = 2 then 11 else 28)"
  "yy_next 8 c = (let k = yy_class c in if k = 4 then 12 else if k = 8 then 13 else 28)"
  "yy_next 9 c = (if yy_class c = 10 then 14 else 28)"
  "q \<in> {14, 19} \<Longrightarrow> yy_next q c = (if yy_class c = 9 then 19 else 28)"
  "q \<in> {13, 18} \<Longrightarrow> yy_next q c = (if yy_class c = 3 then 28 else 18)"
  "q \<in> {12, 16} \<Longrightarrow> yy_next q c = (let k = yy_class c in if k = 4 then 17 else if k = 8 then 28 else 16)"
  "yy_next 17 c = (let k = yy_class c in if k = 4 then 17 else if k = 8 then 21 else 16)"
  "yy_next 10 c = (if yy_class c = 15 then 15 else 28)"
  "yy_next 15 c = (if yy_class c = 12 then 20 else 28)"
  "yy_next 20 c = (if yy_class c = 14 then 22 else 28)"
  "yy_next 22 c = (if yy_class c = 13 then 23 else 28)"
  "yy_next 23 c = (if yy_class c = 15 then 24 else 28)"
  "yy_next 24 c = (if yy_class c = 16 then 25 else 28)"
  "yy_next 25 c = (if yy_class c = 7 then 26 else 28)"
  "yy_next 26 c = (if yy_class c \<in> {6, 9, 11, 12, 13, 14, 15, 16} then 27 else 28)"
  "yy_next 27 c = (let k = yy_class c in if k = 7 then 26 else if k \<in> {6, 9, 11, 12, 13, 14, 15, 16} then 27 else 28)"
  unfolding Let_def
  by ((elim insertE emptyE)?; simp only: yy_next_delta; rule yy_class_cases [of _ c]; elim insertE emptyE; simp add: yy_delta_def)+

lemmas yy_next_rows = yy_delta_rows [unfolded Let_def yy_class_eqs yy_class_class]

end
