(* ===== verification/Fms_Scanner.thy ===== *)
theory Fms_Scanner
  imports Fms_Lex
begin

text \<open>
  The rest of \<^verbatim>\<open>tools/fmsinject/lex.yy.c\<close>: the buffer with its refilling, the functions of the scanner and its loop, up to the tokens
  the parser gets. The theorem at the end is that these are the tokens of the scanner by the rules in \<open>Fms_Inject\<close>.
\<close>

section \<open>The buffer\<close>

datatype yy_status = YY_BUFFER_NEW | YY_BUFFER_NORMAL | YY_BUFFER_EOF_PENDING

text \<open>
  The buffer: \<open>yy_ch\<close> are the characters from \<^verbatim>\<open>yytext_ptr\<close> to \<^verbatim>\<open>yy_n_chars\<close>, which two end-of-buffer characters follow;
  what lies before is not read again. \<open>yy_file\<close> is what the file still gives.
\<close>

record yybuf =
  yy_ch :: string
  yy_file :: string
  yy_buf_size :: nat
  yy_is_our_buffer :: bool
  yy_is_interactive :: bool
  yy_at_bol :: bool
  yy_fill_buffer :: bool
  yy_buffer_status :: yy_status

definition YY_BUF_SIZE :: nat where "YY_BUF_SIZE = 16384"
definition YY_READ_BUF_SIZE :: nat where "YY_READ_BUF_SIZE = 8192"

definition yy_flush_buffer :: "yybuf \<Rightarrow> yybuf" where
  "yy_flush_buffer b = b\<lparr>yy_ch := [], yy_at_bol := True, yy_buffer_status := YY_BUFFER_NEW\<rparr>"

text \<open>\<open>tty\<close> is the answer of \<^verbatim>\<open>isatty\<close>.\<close>

definition yy_init_buffer :: "string \<Rightarrow> bool \<Rightarrow> yybuf \<Rightarrow> yybuf" where
  "yy_init_buffer file tty b = (yy_flush_buffer b)\<lparr>yy_file := file, yy_fill_buffer := True, yy_is_interactive := tty\<rparr>"

definition yy_create_buffer :: "string \<Rightarrow> bool \<Rightarrow> nat \<Rightarrow> yybuf" where
  "yy_create_buffer file tty sz =
     yy_init_buffer file tty
       \<lparr>yy_ch = [], yy_file = [], yy_buf_size = sz, yy_is_our_buffer = True, yy_is_interactive = False, yy_at_bol = False,
        yy_fill_buffer = False, yy_buffer_status = YY_BUFFER_NEW\<rparr>"

definition yyrestart :: "yybuf \<Rightarrow> yybuf" where
  "yyrestart b = yy_init_buffer (yy_file b) (yy_is_interactive b) b"

text \<open>A buffer over a text in memory, which ends with two end-of-buffer characters.\<close>

definition yy_scan_buffer :: "string \<Rightarrow> yybuf option" where
  "yy_scan_buffer base =
     (let sz = length base in
      if sz < 2 \<or> base ! (sz - 2) \<noteq> CHR 0x00 \<or> base ! (sz - 1) \<noteq> CHR 0x00 then None
      else Some \<lparr>yy_ch = take (sz - 2) base, yy_file = [], yy_buf_size = sz - 2, yy_is_our_buffer = False, yy_is_interactive = False,
                 yy_at_bol = True, yy_fill_buffer = False, yy_buffer_status = YY_BUFFER_NEW\<rparr>)"

definition yy_scan_bytes :: "string \<Rightarrow> yybuf option" where
  "yy_scan_bytes bytes =
     (case yy_scan_buffer (bytes @ [CHR 0x00, CHR 0x00]) of None \<Rightarrow> None | Some b \<Rightarrow> Some (b\<lparr>yy_is_our_buffer := True\<rparr>))"

definition yy_scan_string :: "string \<Rightarrow> yybuf option" where
  "yy_scan_string yy_str = yy_scan_bytes (takeWhile (\<lambda>c. c \<noteq> CHR 0x00) yy_str)"

text \<open>\<^verbatim>\<open>YY_INPUT\<close>: a block of the file, from a terminal a line at most; the rest of the file.\<close>

definition yy_input_block :: "bool \<Rightarrow> nat \<Rightarrow> string \<Rightarrow> string \<times> string" where
  "yy_input_block interactive max_size file =
     (let line = length (takeWhile (\<lambda>c. c \<noteq> CHR 0x0A) file);
          n = (if \<not> interactive then max_size else if line < max_size \<and> line < length file then line + 1 else min max_size line)
      in (take n file, drop n file))"

text \<open>
  The buffer grows until there is room behind the characters that are kept: it doubles; from 2 to the power 30 on, where the
  doubled size is negative, it grows by an eighth. (The guard against a buffer of size 0 is the model's.)
\<close>

function yy_grow :: "nat \<Rightarrow> nat \<Rightarrow> nat" where
  "yy_grow sz moved =
     (if moved + 1 < sz \<or> sz = 0 then sz
      else yy_grow (if sz * 2 < 2 ^ 31 then sz * 2 else sz + sz div 8) moved)"
  by auto
termination
  by (relation "measure (\<lambda>(sz, moved). moved + 2 - sz)") auto

declare yy_grow.simps [simp del]

datatype eob_act = EOB_ACT_CONTINUE_SCAN | EOB_ACT_END_OF_FILE | EOB_ACT_LAST_MATCH

text \<open>
  \<open>p\<close> is \<^verbatim>\<open>yy_c_buf_p\<close> counted from \<^verbatim>\<open>yytext_ptr\<close>, behind the end-of-buffer character that was read. \<open>None\<close>: the
  fatal errors, and the memory that is not the scanner's and cannot grow.
\<close>

definition yy_get_next_buffer :: "nat \<Rightarrow> yybuf \<Rightarrow> (eob_act \<times> yybuf) option" where
  "yy_get_next_buffer p b =
     (if p > length (yy_ch b) + 1 then None
      else if \<not> yy_fill_buffer b then Some (if p = 1 then EOB_ACT_END_OF_FILE else EOB_ACT_LAST_MATCH, b)
      else
        let moved = take (p - 1) (yy_ch b); number_to_move = p - 1; pending = (yy_buffer_status b = YY_BUFFER_EOF_PENDING);
            sz = (if pending then yy_buf_size b else yy_grow (yy_buf_size b) number_to_move);
            (block, file) = (if pending then ([], yy_file b)
                             else yy_input_block (yy_is_interactive b) (min (sz - number_to_move - 1) YY_READ_BUF_SIZE) (yy_file b));
            b1 = b\<lparr>yy_ch := moved @ block, yy_file := file, yy_buf_size := sz\<rparr>
        in if sz \<noteq> yy_buf_size b \<and> \<not> yy_is_our_buffer b then None
           else if block \<noteq> [] then Some (EOB_ACT_CONTINUE_SCAN, b1)
           else if number_to_move = 0 then Some (EOB_ACT_END_OF_FILE, yyrestart b1)
           else Some (EOB_ACT_LAST_MATCH, b1\<lparr>yy_buffer_status := YY_BUFFER_EOF_PENDING\<rparr>))"

section \<open>The scanner\<close>

text \<open>
  The loop at \<^verbatim>\<open>yy_match\<close>. Positions are counted from \<^verbatim>\<open>yytext_ptr\<close>; \<open>lacc\<close> is the last accepting state with its
  position. A zero byte has the class 0 here, as the end of the buffer has.
\<close>

fun yy_match :: "nat \<Rightarrow> nat \<Rightarrow> nat \<times> nat \<Rightarrow> string \<Rightarrow> (nat \<times> nat \<times> nat \<times> nat) option" where
  "yy_match q cp lacc [] = None"
| "yy_match q cp lacc (c # s) =
     (let lacc' = (if yy_accept ! q \<noteq> 0 then (q, cp) else lacc);
          q' = the (yy_trans 3 q (yy_ec ! of_char c))
      in if yy_base ! q' = YY_JAM then Some (q', cp + 1, lacc') else yy_match q' (cp + 1) lacc' s)"

definition yy_find_action :: "nat \<Rightarrow> nat \<Rightarrow> nat \<times> nat \<Rightarrow> nat \<times> nat" where
  "yy_find_action q cp lacc = (if yy_accept ! q = 0 then (yy_accept ! fst lacc, snd lacc) else (yy_accept ! q, cp))"

fun yy_prefix :: "nat \<Rightarrow> nat \<Rightarrow> nat \<times> nat \<Rightarrow> string \<Rightarrow> nat \<times> nat \<times> nat" where
  "yy_prefix q cp lacc [] = (q, lacc)"
| "yy_prefix q cp lacc (c # s) = yy_prefix (yy_next q c) (cp + 1) (if yy_accept ! q \<noteq> 0 then (q, cp) else lacc) s"

definition yy_begin :: "bool \<Rightarrow> nat" where
  "yy_begin bol = (if bol then 2 else 1)"

definition yy_get_previous_state :: "nat \<Rightarrow> nat \<times> nat \<Rightarrow> yybuf \<Rightarrow> nat \<times> nat \<times> nat" where
  "yy_get_previous_state p lacc b = yy_prefix (yy_begin (yy_at_bol b)) 0 lacc (take p (yy_ch b))"

definition yy_try_NUL_trans :: "nat \<Rightarrow> nat \<Rightarrow> nat \<times> nat \<Rightarrow> nat \<times> nat \<times> nat" where
  "yy_try_NUL_trans q cp lacc =
     (let q' = the (yy_trans 3 q 1)
      in (if q' = 28 then 0 else q', if yy_accept ! q \<noteq> 0 then (q, cp) else lacc))"

text \<open>The labels the scanner goes to, with the state and the position.\<close>

datatype yy_label = Yy_match nat nat | Yy_find_action nat nat

definition YY_END_OF_BUFFER :: nat where "YY_END_OF_BUFFER = 8"

text \<open>At the first end of a new buffer it becomes a normal one.\<close>

definition yy_scanned :: "yybuf \<Rightarrow> yybuf" where
  "yy_scanned b = (if yy_buffer_status b = YY_BUFFER_NEW then b\<lparr>yy_buffer_status := YY_BUFFER_NORMAL\<rparr> else b)"

text \<open>
  The recognition of one token: the action, the length of the text and the buffer; \<open>YY_END_OF_BUFFER + 1\<close> is the action
  at the end of the file (\<^verbatim>\<open>yywrap\<close> returns 1). \<open>None\<close> is a fatal error or the fuel.
\<close>

fun yy_token :: "nat \<Rightarrow> yy_label \<Rightarrow> nat \<times> nat \<Rightarrow> yybuf \<Rightarrow> (nat \<times> nat \<times> yybuf) option" where
  "yy_token 0 j lacc b = None"
| "yy_token (Suc k) j lacc b =
     (case (case j of Yy_match q cp \<Rightarrow> yy_match q cp lacc (drop cp (yy_ch b) @ [CHR 0x00, CHR 0x00])
                    | Yy_find_action q cp \<Rightarrow> Some (q, cp, lacc)) of
        None \<Rightarrow> None
      | Some (q, cp, last1) \<Rightarrow>
          let (act, p) = yy_find_action q cp last1 in
          if act \<noteq> YY_END_OF_BUFFER then Some (act, p, b)
          else
            let amount = p - 1;
                b1 = yy_scanned b
            in if p \<le> length (yy_ch b1) then
                 (let (q1, last2) = yy_get_previous_state amount last1 b1; (q2, last3) = yy_try_NUL_trans q1 amount last2
                  in if q2 \<noteq> 0 then yy_token k (Yy_match q2 (amount + 1)) last3 b1
                     else yy_token k (Yy_find_action q1 amount) last3 b1)
               else
                 (case yy_get_next_buffer p b1 of
                   None \<Rightarrow> None
                 | Some (EOB_ACT_END_OF_FILE, b2) \<Rightarrow> Some (YY_END_OF_BUFFER + 1, 0, b2)
                 | Some (EOB_ACT_CONTINUE_SCAN, b2) \<Rightarrow>
                     (let (q1, last2) = yy_get_previous_state amount last1 b2 in yy_token k (Yy_match q1 amount) last2 b2)
                 | Some (EOB_ACT_LAST_MATCH, b2) \<Rightarrow>
                     (let cp = length (yy_ch b2); (q1, last2) = yy_get_previous_state cp last1 b2
                      in yy_token k (Yy_find_action q1 cp) last2 b2)))"

text \<open>The actions of the rules; comments and line ends are only printed.\<close>

definition yy_action :: "nat \<Rightarrow> string \<Rightarrow> token option" where
  "yy_action act yytext =
     (if act = 3 then Some (ECLASS yytext) else if act = 4 then Some (COUNT (repval yytext)) else if act = 5 then Some COMMA else None)"

definition yy_rule_setup :: "nat \<Rightarrow> yybuf \<Rightarrow> yybuf" where
  "yy_rule_setup yyleng b =
     b\<lparr>yy_at_bol := (if yyleng > 0 then yy_ch b ! (yyleng - 1) = CHR 0x0A else yy_at_bol b), yy_ch := drop yyleng (yy_ch b)\<rparr>"

text \<open>What the parser gets from \<^verbatim>\<open>yylex\<close> until it returns 0. The last accepting state is left from the token before.\<close>

fun flex_tokens :: "nat \<Rightarrow> nat \<times> nat \<Rightarrow> yybuf \<Rightarrow> token list option" where
  "flex_tokens 0 lacc b = None"
| "flex_tokens (Suc k) lacc b =
     (case yy_token (length (yy_ch b) + 2 * length (yy_file b) + 3) (Yy_match (yy_begin (yy_at_bol b)) 0) lacc b of
        None \<Rightarrow> None
      | Some (act, yyleng, b1) \<Rightarrow>
          if act = YY_END_OF_BUFFER + 1 then Some []
          else case flex_tokens k lacc (yy_rule_setup yyleng b1) of
            None \<Rightarrow> None
          | Some ts \<Rightarrow> Some (case yy_action act (take yyleng (yy_ch b1)) of None \<Rightarrow> ts | Some t \<Rightarrow> t # ts))"

section \<open>The longest match\<close>

text \<open>What the loops and the buffer amount to: the automaton runs over the whole text until it jams, and takes the last accepting state.\<close>

fun munch :: "nat \<Rightarrow> nat \<Rightarrow> nat \<times> nat \<Rightarrow> string \<Rightarrow> nat \<times> nat" where
  "munch q cp lacc [] = yy_find_action q cp lacc"
| "munch q cp lacc (c # s) =
     (let lacc' = (if yy_accept ! q \<noteq> 0 then (q, cp) else lacc)
      in if yy_next q c = 28 then (yy_accept ! fst lacc', snd lacc') else munch (yy_next q c) (cp + 1) lacc' s)"

definition longest :: "bool \<Rightarrow> string \<Rightarrow> nat \<times> nat" where
  "longest bol t = munch (yy_begin bol) 0 (0, 0) t"

definition yy_state :: "nat \<Rightarrow> bool" where
  "yy_state q \<longleftrightarrow> 0 < q \<and> q < 29 \<and> q \<noteq> 3"

lemma yy_delta_states: "list_all (list_all (\<lambda>q. 3 < q \<and> q < 29)) yy_delta"
  by (simp add: yy_delta_def)

lemma yy_next_state: "yy_state q \<Longrightarrow> yy_state (yy_next q c)"
proof -
  assume "yy_state q"
  then have q: "1 \<le> q" "q < 29" by (auto simp: yy_state_def)
  have "length yy_delta = 28" "\<forall>r \<in> set yy_delta. length r = 16" by (simp_all add: yy_delta_def)
  moreover have "yy_class c - 1 < 16" using yy_class_range [of c] by auto
  ultimately have "yy_delta ! (q - 1) \<in> set yy_delta" "yy_delta ! (q - 1) ! (yy_class c - 1) \<in> set (yy_delta ! (q - 1))"
    using q by (auto intro!: nth_mem)
  then have "3 < yy_delta ! (q - 1) ! (yy_class c - 1) \<and> yy_delta ! (q - 1) ! (yy_class c - 1) < 29"
    using yy_delta_states unfolding list_all_iff by blast
  then show ?thesis by (simp add: yy_next_delta [OF q] yy_state_def)
qed

lemma yy_trans_eob_table: "map (\<lambda>q. yy_trans 3 q 0) [1..<29] = map (\<lambda>q. Some (if q = 3 then 28 else 3)) [1..<29]"
  by code_simp

lemma yy_trans_eob: "yy_state q \<Longrightarrow> yy_trans 3 q 0 = Some 3"
  using arg_cong [OF yy_trans_eob_table, of "\<lambda>xs. xs ! (q - 1)"] by (auto simp: yy_state_def nth_map)

lemma yy_trans_3_table: "list_all (\<lambda>k. yy_trans 3 3 k = Some 28) [0..<17]"
  by code_simp

lemma yy_ec_bound: "yy_ec ! of_char c < 17"
  by (simp add: yy_ec_nth code_class_def)

lemma yy_trans_3: "yy_trans 3 3 (yy_ec ! of_char c) = Some 28"
  using yy_trans_3_table yy_ec_bound [of c] by (simp add: list_all_iff)

lemma yy_next_nonzero: "c \<noteq> CHR 0x00 \<Longrightarrow> the (yy_trans 3 q (yy_ec ! of_char c)) = yy_next q c"
  by (simp add: yy_next_def yy_class_def)

lemma yy_next_NUL: "the (yy_trans 3 q (Suc 0)) = yy_next q (CHR 0x00)"
  by (simp add: yy_next_def yy_class_def)

lemma yy_base_jam: "yy_state q \<Longrightarrow> yy_base ! q = YY_JAM \<longleftrightarrow> q \<in> {4, 6, 7, 21, 28}"
proof -
  have "list_all (\<lambda>q. (yy_base ! q = YY_JAM) = (q \<in> set [4, 6, 7, 21, 28])) [0..<29]" by code_simp
  then show "yy_state q \<Longrightarrow> ?thesis" by (simp add: list_all_iff yy_state_def)
qed

lemma yy_accept_jam [simp]: "yy_accept ! 28 = 0" "yy_accept ! 3 = 8" "yy_base ! 3 \<noteq> YY_JAM" "yy_base ! 28 = YY_JAM"
  by (simp_all add: yy_accept_def yy_base_def YY_JAM_def)

lemma yy_next_28 [simp]: "yy_next 28 c = 28"
  by (rule yy_next_rows(3)) simp

lemma yy_begin_state [simp]: "yy_state (yy_begin bol)" "yy_begin bol \<noteq> 28" "yy_accept ! yy_begin bol = 0"
  by (simp_all add: yy_begin_def yy_state_def yy_accept_def)

lemma yy_next_begin: "yy_accept ! yy_next (yy_begin bol) c \<noteq> 0" "yy_next (yy_begin bol) c \<noteq> 28"
  by (simp_all add: yy_begin_def yy_next_rows yy_accept_def del: One_nat_def)

lemma yy_prefix_28 [simp]: "fst (yy_prefix 28 cp lacc s) = 28"
  by (induction s arbitrary: cp lacc) simp_all

lemma yy_prefix_state: "yy_state q \<Longrightarrow> yy_state (fst (yy_prefix q cp lacc s))"
  by (induction s arbitrary: q cp lacc) (simp_all add: yy_next_state)

lemma yy_prefix_append:
  "yy_prefix q cp lacc (u @ v) = yy_prefix (fst (yy_prefix q cp lacc u)) (cp + length u) (snd (yy_prefix q cp lacc u)) v"
  by (induction u arbitrary: q cp lacc) simp_all

lemma yy_prefix_fst: "fst (yy_prefix q cp lacc s) = fst (yy_prefix q cp' lacc' s)"
proof (induction s arbitrary: q cp cp' lacc lacc')
  case (Cons c s)
  show ?case unfolding yy_prefix.simps by (rule Cons.IH)
qed simp

lemma munch_prefix:
  "fst (yy_prefix q cp lacc u) \<noteq> 28 \<Longrightarrow>
   munch q cp lacc (u @ v) = munch (fst (yy_prefix q cp lacc u)) (cp + length u) (snd (yy_prefix q cp lacc u)) v"
proof (induction u arbitrary: q cp lacc)
  case (Cons c u)
  then have "yy_next q c \<noteq> 28" by auto
  with Cons show ?case by (simp add: Let_def)
qed simp

lemma munch_accepting: "yy_accept ! q \<noteq> 0 \<Longrightarrow> munch q cp lacc s = munch q cp lacc' s"
  by (cases s) (simp_all add: yy_find_action_def)

lemma munch_begin: "t \<noteq> [] \<Longrightarrow> munch (yy_begin bol) 0 lacc t = longest bol t"
proof (cases t)
  case (Cons c s)
  then show ?thesis
    using munch_accepting [OF yy_next_begin(1) [of bol c], of 1 lacc s "(0, 0)"] by (simp add: longest_def yy_next_begin(2))
qed simp

lemma munch_bound: "snd lacc \<le> cp \<Longrightarrow> snd (munch q cp lacc s) \<le> cp + length s"
proof (induction s arbitrary: q cp lacc)
  case (Cons c s)
  have "snd (munch (yy_next q c) (cp + 1) (if yy_accept ! q \<noteq> 0 then (q, cp) else lacc) s) \<le> cp + 1 + length s"
    by (rule Cons.IH) (use Cons.prems in simp)
  then show ?case using Cons.prems by (auto simp: Let_def)
qed (simp add: yy_find_action_def)

lemma longest_bound: "snd (longest bol t) \<le> length t"
  using munch_bound [of "(0, 0)" 0 "yy_begin bol" t] by (simp add: longest_def)

lemma yy_accept_rules: "yy_state q \<Longrightarrow> yy_accept ! q < 8"
proof -
  have "list_all (\<lambda>q. q = 3 \<or> yy_accept ! q < 8) [0..<29]" by code_simp
  then show "yy_state q \<Longrightarrow> ?thesis" by (simp add: list_all_iff yy_state_def) (metis atLeast0LessThan lessThan_iff atLeastLessThan_iff less_eq_nat.simps(1))
qed

lemma munch_rule:
  "yy_state q \<Longrightarrow> yy_accept ! q \<noteq> 0 \<or> (yy_state (fst lacc) \<and> yy_accept ! fst lacc \<noteq> 0 \<and> 0 < snd lacc) \<Longrightarrow> 0 < cp \<Longrightarrow>
   fst (munch q cp lacc s) \<in> {1..7} \<and> 0 < snd (munch q cp lacc s)"
proof (induction s arbitrary: q cp lacc)
  case Nil
  then show ?case using yy_accept_rules by (auto simp: yy_find_action_def less_Suc_eq_le numeral_eq_Suc)
next
  case (Cons c s)
  let ?l = "if yy_accept ! q \<noteq> 0 then (q, cp) else lacc"
  have l: "yy_state (fst ?l) \<and> yy_accept ! fst ?l \<noteq> 0 \<and> 0 < snd ?l" using Cons.prems by auto
  then have "fst (munch (yy_next q c) (cp + 1) ?l s) \<in> {1..7} \<and> 0 < snd (munch (yy_next q c) (cp + 1) ?l s)"
    using Cons.prems by (intro Cons.IH) (simp_all add: yy_next_state)
  moreover have "yy_accept ! fst ?l < 8" using l yy_accept_rules by blast
  ultimately show ?case using l by (auto simp: Let_def)
qed

lemma longest_rule: "t \<noteq> [] \<Longrightarrow> fst (longest bol t) \<in> {1..7} \<and> 0 < snd (longest bol t)"
proof (cases t)
  case (Cons c s)
  have "fst (munch (yy_next (yy_begin bol) c) 1 (0, 0) s) \<in> {1..7} \<and> 0 < snd (munch (yy_next (yy_begin bol) c) 1 (0, 0) s)"
    by (rule munch_rule) (simp_all add: yy_next_state yy_next_begin(1))
  then show ?thesis using Cons by (simp add: longest_def yy_next_begin(2))
qed simp

section \<open>The scanner takes the longest match\<close>

lemma yy_ec_NUL [simp]: "yy_ec ! 0 = 0"
  by (simp add: yy_ec_def)

text \<open>The end-of-buffer character, whatever follows it, leads to the action for the end of the buffer.\<close>

lemma yy_match_eob: "yy_state q \<Longrightarrow> yy_match q cp lacc (CHR 0x00 # d # r) = Some (28, cp + 2, (3, cp + 1))"
  by (simp add: Let_def yy_trans_eob yy_trans_3)

lemma yy_find_eob: "yy_find_action 28 cp (3, p) = (YY_END_OF_BUFFER, p)"
  by (simp add: yy_find_action_def YY_END_OF_BUFFER_def)

text \<open>The loop stops in a state that no character leaves: nothing longer can be matched.\<close>

lemma munch_jam:
  assumes st: "yy_state (yy_next q c)" and jam: "yy_base ! yy_next q c = YY_JAM"
  shows "yy_find_action (yy_next q c) (cp + 1) (if yy_accept ! q \<noteq> 0 then (q, cp) else lacc) = munch q cp lacc (c # s)"
proof (cases "yy_next q c = 28")
  case False
  let ?q = "yy_next q c"
  have j: "?q \<in> {4, 6, 7, 21}" using False jam yy_base_jam [OF st] by auto
  then have acc: "yy_accept ! ?q \<noteq> 0" by (auto simp: yy_accept_def)
  have "yy_next ?q d = 28" for d by (rule yy_next_rows(3)) (use j in auto)
  then have "munch ?q (cp + 1) l s = (yy_accept ! ?q, cp + 1)" for l using acc by (cases s) (simp_all add: yy_find_action_def)
  then show ?thesis using False acc by (simp add: yy_find_action_def Let_def)
qed (simp add: yy_find_action_def Let_def)

text \<open>One pass of the loop: it ends with the longest match, or at a zero byte or the end of the buffer.\<close>

lemma yy_match_result:
  assumes "yy_state q" "q \<noteq> 28"
  shows "\<exists>q' cp' lacc'. yy_match q cp lacc (s @ [CHR 0x00, CHR 0x00]) = Some (q', cp', lacc') \<and>
    ((\<forall>r. yy_find_action q' cp' lacc' = munch q cp lacc (s @ r)) \<or>
     (\<exists>u v. s = u @ v \<and> (v = [] \<or> (\<exists>w. v = CHR 0x00 # w)) \<and> yy_find_action q' cp' lacc' = (YY_END_OF_BUFFER, cp + length u + 1) \<and>
        fst (yy_prefix q cp lacc u) \<noteq> 28))"
  using assms
proof (induction s arbitrary: q cp lacc)
  case Nil
  then show ?case using yy_match_eob [of q cp lacc "CHR 0x00" "[]"] by (auto simp: yy_find_eob simp del: yy_match.simps)
next
  case (Cons c s)
  let ?l = "if yy_accept ! q \<noteq> 0 then (q, cp) else lacc"
  show ?case
  proof (cases "c = CHR 0x00")
    case True
    obtain d r where d: "s @ [CHR 0x00, CHR 0x00] = d # r" by (cases s) auto
    have "yy_match q cp lacc ((c # s) @ [CHR 0x00, CHR 0x00]) = Some (28, cp + 2, (3, cp + 1))"
      using True Cons.prems yy_match_eob [of q cp lacc d r] by (simp add: d del: yy_match.simps)
    moreover have "yy_find_action 28 (cp + 2) (3, cp + 1) = (YY_END_OF_BUFFER, cp + length [] + 1)"
      by (simp add: yy_find_eob)
    moreover have "fst (yy_prefix q cp lacc []) \<noteq> 28" using Cons.prems by simp
    ultimately show ?thesis using True by (metis append_Nil)
  next
    case False
    let ?q = "yy_next q c"
    have st: "yy_state ?q" using Cons.prems yy_next_state by blast
    show ?thesis
    proof (cases "yy_base ! ?q = YY_JAM")
      case True
      have "yy_find_action ?q (cp + 1) ?l = munch q cp lacc ((c # s) @ r)" for r using munch_jam [OF st True, of cp lacc] by simp
      then show ?thesis using True False by (simp add: Let_def yy_next_nonzero)
    next
      case go: False
      then have "?q \<noteq> 28" by auto
      from Cons.IH [OF st this, of "cp + 1" ?l] obtain q' cp' lacc' where
        m: "yy_match ?q (cp + 1) ?l (s @ [CHR 0x00, CHR 0x00]) = Some (q', cp', lacc')" and
        r: "(\<forall>r. yy_find_action q' cp' lacc' = munch ?q (cp + 1) ?l (s @ r)) \<or>
          (\<exists>u v. s = u @ v \<and> (v = [] \<or> (\<exists>w. v = CHR 0x00 # w)) \<and> yy_find_action q' cp' lacc' = (YY_END_OF_BUFFER, cp + 1 + length u + 1) \<and>
           fst (yy_prefix ?q (cp + 1) ?l u) \<noteq> 28)"
        by blast
      have "yy_match q cp lacc ((c # s) @ [CHR 0x00, CHR 0x00]) = Some (q', cp', lacc')"
        using False go m by (simp add: Let_def yy_next_nonzero)
      moreover from r have "(\<forall>r. yy_find_action q' cp' lacc' = munch q cp lacc ((c # s) @ r)) \<or>
          (\<exists>u v. c # s = u @ v \<and> (v = [] \<or> (\<exists>w. v = CHR 0x00 # w)) \<and>
             yy_find_action q' cp' lacc' = (YY_END_OF_BUFFER, cp + length u + 1) \<and> fst (yy_prefix q cp lacc u) \<noteq> 28)"
      proof
        assume "\<forall>r. yy_find_action q' cp' lacc' = munch ?q (cp + 1) ?l (s @ r)"
        then show ?thesis using \<open>?q \<noteq> 28\<close> by (simp add: Let_def)
      next
        assume "\<exists>u v. s = u @ v \<and> (v = [] \<or> (\<exists>w. v = CHR 0x00 # w)) \<and>
          yy_find_action q' cp' lacc' = (YY_END_OF_BUFFER, cp + 1 + length u + 1) \<and> fst (yy_prefix ?q (cp + 1) ?l u) \<noteq> 28"
        then obtain u v where "s = u @ v" "v = [] \<or> (\<exists>w. v = CHR 0x00 # w)"
          "yy_find_action q' cp' lacc' = (YY_END_OF_BUFFER, cp + 1 + length u + 1)" "fst (yy_prefix ?q (cp + 1) ?l u) \<noteq> 28" by blast
        then have "c # s = (c # u) @ v \<and> (v = [] \<or> (\<exists>w. v = CHR 0x00 # w)) \<and>
          yy_find_action q' cp' lacc' = (YY_END_OF_BUFFER, cp + length (c # u) + 1) \<and> fst (yy_prefix q cp lacc (c # u)) \<noteq> 28" by simp
        then show ?thesis by blast
      qed
      ultimately show ?thesis by blast
    qed
  qed
qed

text \<open>The invariant of the buffer: it can be refilled while it is filled from a file, and the file is at its end when it was found so.\<close>

definition yybuf_ok :: "yybuf \<Rightarrow> bool" where
  "yybuf_ok b \<longleftrightarrow> 0 < yy_buf_size b \<and> (yy_fill_buffer b \<longrightarrow> yy_is_our_buffer b) \<and>
     (\<not> yy_fill_buffer b \<or> yy_buffer_status b = YY_BUFFER_EOF_PENDING \<longrightarrow> yy_file b = [])"

lemma yy_grow_room: "0 < sz \<Longrightarrow> moved + 1 < yy_grow sz moved"
proof (induction sz moved rule: yy_grow.induct)
  case (1 sz moved)
  then show ?case by (subst yy_grow.simps) (auto split: if_splits)
qed

lemma yy_input_block_some: "0 < n \<Longrightarrow> inp \<noteq> [] \<Longrightarrow> fst (yy_input_block interactive n inp) \<noteq> []"
  by (cases inp) (auto simp: yy_input_block_def Let_def)

lemma yy_input_block_append: "fst (yy_input_block interactive n inp) @ snd (yy_input_block interactive n inp) = inp"
  by (simp add: yy_input_block_def Let_def)

lemma yy_input_block_Nil [simp]: "yy_input_block interactive n [] = ([], [])"
  by (simp add: yy_input_block_def Let_def)

text \<open>The end of the buffer: more text is read, or the file is at its end.\<close>

lemma yy_get_next_buffer_result:
  assumes ok: "yybuf_ok b"
  shows "\<exists>act b'. yy_get_next_buffer (length (yy_ch b) + 1) b = Some (act, b') \<and> yybuf_ok b' \<and>
    (case act of
       EOB_ACT_END_OF_FILE \<Rightarrow> yy_ch b = [] \<and> yy_file b = []
     | EOB_ACT_LAST_MATCH \<Rightarrow> yy_ch b \<noteq> [] \<and> yy_file b = [] \<and> yy_ch b' = yy_ch b \<and> yy_file b' = [] \<and> yy_at_bol b' = yy_at_bol b
     | EOB_ACT_CONTINUE_SCAN \<Rightarrow> yy_at_bol b' = yy_at_bol b \<and>
         (\<exists>x. x \<noteq> [] \<and> yy_file b = x @ yy_file b' \<and> yy_ch b' = yy_ch b @ x))"
proof (cases "yy_fill_buffer b")
  case False
  then show ?thesis using ok by (cases "yy_ch b") (auto simp: yy_get_next_buffer_def yybuf_ok_def)
next
  case True
  let ?n = "length (yy_ch b)"
  show ?thesis
  proof (cases "yy_buffer_status b = YY_BUFFER_EOF_PENDING")
    case pending: True
    then show ?thesis using ok True
      by (cases "yy_ch b") (auto simp: yy_get_next_buffer_def yybuf_ok_def yyrestart_def yy_init_buffer_def yy_flush_buffer_def)
  next
    case False
    let ?sz = "yy_grow (yy_buf_size b) ?n"
    have room: "0 < min (?sz - Suc ?n) YY_READ_BUF_SIZE" "0 < ?sz"
      using yy_grow_room [of "yy_buf_size b" ?n] ok by (auto simp: yybuf_ok_def YY_READ_BUF_SIZE_def)
    obtain block inp where bl: "yy_input_block (yy_is_interactive b) (min (?sz - Suc ?n) YY_READ_BUF_SIZE) (yy_file b) = (block, inp)"
      by fastforce
    have f: "yy_file b = block @ inp" using yy_input_block_append [of "yy_is_interactive b" "min (?sz - Suc ?n) YY_READ_BUF_SIZE" "yy_file b"]
      by (simp add: bl)
    have ne: "block = [] \<Longrightarrow> yy_file b = []" using yy_input_block_some [OF room(1), of "yy_file b" "yy_is_interactive b"] by (auto simp: bl)
    have our: "yy_is_our_buffer b" using ok True by (simp add: yybuf_ok_def)
    show ?thesis
    proof (cases "block = []")
      case False
      then show ?thesis using ok True \<open>yy_buffer_status b \<noteq> YY_BUFFER_EOF_PENDING\<close> bl f our room
        by (auto simp: yy_get_next_buffer_def yybuf_ok_def)
    next
      case True
      then show ?thesis using ok \<open>yy_fill_buffer b\<close> \<open>yy_buffer_status b \<noteq> YY_BUFFER_EOF_PENDING\<close> bl f our ne room
        by (cases "yy_ch b") (auto simp: yy_get_next_buffer_def yybuf_ok_def yyrestart_def yy_init_buffer_def yy_flush_buffer_def)
    qed
  qed
qed

text \<open>
  The label and the last accepting state fit the longest match of the whole text \<open>t\<close>: at \<^verbatim>\<open>yy_match\<close> the state is reached by the text
  before the position, at \<^verbatim>\<open>yy_find_action\<close> the action is the one of the longest match.
\<close>

definition at_label :: "yybuf \<Rightarrow> yy_label \<Rightarrow> nat \<times> nat \<Rightarrow> bool" where
  "at_label b j lacc \<longleftrightarrow>
     (let t = yy_ch b @ yy_file b; start = yy_begin (yy_at_bol b) in
      case j of
        Yy_match q cp \<Rightarrow> cp \<le> length (yy_ch b) \<and> q = fst (yy_prefix start 0 (0, 0) (take cp (yy_ch b))) \<and> q \<noteq> 28 \<and>
          (\<forall>r. yy_ch b @ r \<noteq> [] \<longrightarrow> munch q cp lacc (drop cp (yy_ch b) @ r) = longest (yy_at_bol b) (yy_ch b @ r))
      | Yy_find_action q cp \<Rightarrow> t \<noteq> [] \<and> yy_find_action q cp lacc = longest (yy_at_bol b) t \<and> snd (longest (yy_at_bol b) t) \<le> length (yy_ch b))"

definition label_steps :: "yybuf \<Rightarrow> yy_label \<Rightarrow> nat" where
  "label_steps b j = (case j of Yy_match q cp \<Rightarrow> length (yy_ch b) - cp + 2 * length (yy_file b) + 1 | Yy_find_action q cp \<Rightarrow> 0)"

text \<open>The state before a position, and what is left of the longest match there.\<close>

lemma previous_state:
  assumes "yy_get_previous_state p lacc b = (q, lacc')" "p \<le> length (yy_ch b)"
    "fst (yy_prefix (yy_begin (yy_at_bol b)) 0 l (take p (yy_ch b))) \<noteq> 28"
  shows "q = fst (yy_prefix (yy_begin (yy_at_bol b)) 0 (0, 0) (take p (yy_ch b)))" "q \<noteq> 28" "yy_state q"
    "take p (yy_ch b) @ r \<noteq> [] \<Longrightarrow> munch q p lacc' r = longest (yy_at_bol b) (take p (yy_ch b) @ r)"
proof -
  let ?s = "yy_begin (yy_at_bol b)" and ?u = "take p (yy_ch b)"
  have p: "yy_prefix ?s 0 lacc ?u = (q, lacc')" using assms(1) by (simp add: yy_get_previous_state_def)
  then show "q = fst (yy_prefix ?s 0 (0, 0) ?u)" using yy_prefix_fst [of ?s 0 lacc ?u 0 "(0, 0)"] by simp
  show q: "q \<noteq> 28" using p assms(3) yy_prefix_fst [of ?s 0 lacc ?u 0 l] by simp
  show "yy_state q" using p yy_prefix_state [OF yy_begin_state(1), of "yy_at_bol b" 0 lacc ?u] by simp
  assume "?u @ r \<noteq> []"
  then have "munch ?s 0 lacc (?u @ r) = longest (yy_at_bol b) (?u @ r)" by (rule munch_begin)
  then show "munch q p lacc' r = longest (yy_at_bol b) (?u @ r)"
    using munch_prefix [of ?s 0 lacc ?u r] p q assms(2) by simp
qed

text \<open>A zero byte: the scanner goes on behind it, or has the longest match.\<close>

lemma at_NUL:
  assumes ch: "yy_ch b = u @ CHR 0x00 # w" and prev: "yy_get_previous_state (length u) lacc b = (q, l2)"
    and run: "fst (yy_prefix (yy_begin (yy_at_bol b)) 0 l u) \<noteq> 28" and nul: "yy_try_NUL_trans q (length u) l2 = (q2, l3)"
  shows "if q2 \<noteq> 0 then at_label b (Yy_match q2 (length u + 1)) l3 else at_label b (Yy_find_action q (length u)) l3"
proof -
  let ?s = "yy_begin (yy_at_bol b)"
  have u: "take (length u) (yy_ch b) = u" "length u \<le> length (yy_ch b)" by (simp_all add: ch)
  note ps = previous_state [OF prev u(2), unfolded u(1), OF run]
  have n: "q2 = (if yy_next q (CHR 0x00) = 28 then 0 else yy_next q (CHR 0x00))" "l3 = (if yy_accept ! q \<noteq> 0 then (q, length u) else l2)"
    using nul by (auto simp: yy_try_NUL_trans_def yy_next_NUL Let_def)
  have q2: "yy_state (yy_next q (CHR 0x00))" using ps(3) yy_next_state by blast
  have m: "longest (yy_at_bol b) (u @ CHR 0x00 # r) = munch q (length u) l2 (CHR 0x00 # r)" for r using ps(4) [of "CHR 0x00 # r"] by simp
  show ?thesis
  proof (cases "q2 = 0")
    case False
    then have e: "q2 = yy_next q (CHR 0x00)" "yy_next q (CHR 0x00) \<noteq> 28" using n(1) by (auto split: if_splits)
    have "fst (yy_prefix ?s 0 (0, 0) (u @ [CHR 0x00])) = q2" using e(1) ps(1) by (simp add: yy_prefix_append)
    then show ?thesis using False e m n(2) by (simp add: at_label_def ch Let_def)
  next
    case True
    then have e: "yy_next q (CHR 0x00) = 28" using n(1) q2 by (auto simp: yy_state_def split: if_splits)
    have j: "munch q (length u) l2 (CHR 0x00 # r) = yy_find_action q (length u) l3" for r
      using e n(2) by (simp add: yy_find_action_def Let_def)
    have "snd (longest (yy_at_bol b) (u @ [CHR 0x00])) \<le> length (u @ [CHR 0x00])" by (rule longest_bound)
    then show ?thesis using True m [of "w @ yy_file b"] m [of "[]"] j by (simp add: at_label_def ch Let_def)
  qed
qed

lemma at_refilled:
  assumes prev: "yy_get_previous_state (length u) lacc b = (q, l2)" and ch: "yy_ch b = u @ x" "x \<noteq> []"
    and run: "fst (yy_prefix (yy_begin (yy_at_bol b)) 0 l u) \<noteq> 28"
  shows "at_label b (Yy_match q (length u)) l2"
proof -
  have u: "take (length u) (yy_ch b) = u" "length u \<le> length (yy_ch b)" by (simp_all add: ch)
  note ps = previous_state [OF prev u(2), unfolded u(1), OF run]
  show ?thesis using ps(1,2) ps(4) [of "x @ r" for r] by (simp add: at_label_def ch Let_def)
qed

lemma at_end:
  assumes prev: "yy_get_previous_state (length (yy_ch b)) lacc b = (q, l2)" and ch: "yy_ch b \<noteq> []" "yy_file b = []"
    and run: "fst (yy_prefix (yy_begin (yy_at_bol b)) 0 l (yy_ch b)) \<noteq> 28"
  shows "at_label b (Yy_find_action q (length (yy_ch b))) l2"
proof -
  note ps = previous_state [OF prev order_refl, unfolded take_all [OF order_refl], OF run]
  show ?thesis using ps(4) [of "[]"] ch longest_bound [of "yy_at_bol b" "yy_ch b"] by (simp add: at_label_def Let_def)
qed

text \<open>Every token is the longest match; enough passes are given for each.\<close>

definition token_found :: "yybuf \<Rightarrow> (nat \<times> nat \<times> yybuf) option \<Rightarrow> bool" where
  "token_found b r \<longleftrightarrow>
     (\<exists>b'. r = Some (fst (longest (yy_at_bol b) (yy_ch b @ yy_file b)), snd (longest (yy_at_bol b) (yy_ch b @ yy_file b)), b') \<and>
        snd (longest (yy_at_bol b) (yy_ch b @ yy_file b)) \<le> length (yy_ch b') \<and> yy_ch b' @ yy_file b' = yy_ch b @ yy_file b \<and>
        yybuf_ok b' \<and> yy_at_bol b' = yy_at_bol b)"

lemma yy_scanned_simps [simp]:
  "yy_ch (yy_scanned b) = yy_ch b" "yy_file (yy_scanned b) = yy_file b" "yy_at_bol (yy_scanned b) = yy_at_bol b"
  "yybuf_ok (yy_scanned b) = yybuf_ok b" "at_label (yy_scanned b) = at_label b" "label_steps (yy_scanned b) = label_steps b"
  "token_found (yy_scanned b) = token_found b"
  by (simp_all add: yy_scanned_def yybuf_ok_def fun_eq_iff at_label_def label_steps_def token_found_def Let_def split: yy_label.splits)

lemma token_found_same:
  "token_found b' r \<Longrightarrow> yy_ch b' @ yy_file b' = yy_ch b @ yy_file b \<Longrightarrow> yy_at_bol b' = yy_at_bol b \<Longrightarrow> token_found b r"
  by (simp add: token_found_def)

lemma longest_act: "t \<noteq> [] \<Longrightarrow> fst (longest bol t) \<noteq> YY_END_OF_BUFFER"
  using longest_rule [of t bol] by (auto simp: YY_END_OF_BUFFER_def)

lemma token_at_action:
  assumes "at_label b (Yy_find_action q cp) lacc" "yybuf_ok b"
  shows "token_found b (yy_token (Suc k) (Yy_find_action q cp) lacc b)"
proof -
  let ?t = "yy_ch b @ yy_file b"
  have "yy_find_action q cp lacc = longest (yy_at_bol b) ?t" "?t \<noteq> []" "snd (longest (yy_at_bol b) ?t) \<le> length (yy_ch b)"
    using assms(1) by (auto simp: at_label_def Let_def)
  then show ?thesis using longest_act [of ?t "yy_at_bol b"] assms(2)
    by (simp add: token_found_def case_prod_beta)
qed

text \<open>One pass from \<^verbatim>\<open>yy_match\<close>, by the outcome of the loop.\<close>

lemma token_matched:
  assumes m: "yy_match q cp lacc (drop cp (yy_ch b) @ [CHR 0x00, CHR 0x00]) = Some (q', cp', l1)"
    and f: "yy_find_action q' cp' l1 = (act, p)"
  shows "act \<noteq> YY_END_OF_BUFFER \<Longrightarrow> yy_token (Suc k) (Yy_match q cp) lacc b = Some (act, p, b)"
    "act = YY_END_OF_BUFFER \<Longrightarrow> p \<le> length (yy_ch b) \<Longrightarrow> yy_get_previous_state (p - 1) l1 (yy_scanned b) = (q1, l2) \<Longrightarrow>
     yy_try_NUL_trans q1 (p - 1) l2 = (q2, l3) \<Longrightarrow> yy_token (Suc k) (Yy_match q cp) lacc b =
       yy_token k (if q2 \<noteq> 0 then Yy_match q2 (p - 1 + 1) else Yy_find_action q1 (p - 1)) l3 (yy_scanned b)"
    "act = YY_END_OF_BUFFER \<Longrightarrow> length (yy_ch b) < p \<Longrightarrow> yy_token (Suc k) (Yy_match q cp) lacc b =
       (case yy_get_next_buffer p (yy_scanned b) of
          None \<Rightarrow> None
        | Some (EOB_ACT_END_OF_FILE, b2) \<Rightarrow> Some (YY_END_OF_BUFFER + 1, 0, b2)
        | Some (EOB_ACT_CONTINUE_SCAN, b2) \<Rightarrow>
            (let (q1, last2) = yy_get_previous_state (p - 1) l1 b2 in yy_token k (Yy_match q1 (p - 1)) last2 b2)
        | Some (EOB_ACT_LAST_MATCH, b2) \<Rightarrow>
            (let cp = length (yy_ch b2); (q1, last2) = yy_get_previous_state cp l1 b2 in yy_token k (Yy_find_action q1 cp) last2 b2))"
  using m f by (simp_all add: Let_def del: One_nat_def)

lemma token_at_stop:
  assumes m: "yy_match q cp lacc (drop cp (yy_ch b) @ [CHR 0x00, CHR 0x00]) = Some (q', cp', l1)"
    and f: "\<forall>r. yy_find_action q' cp' l1 = munch q cp lacc (drop cp (yy_ch b) @ r)"
    and at: "at_label b (Yy_match q cp) lacc" and st: "yy_state q"
    and ok: "yybuf_ok b" "yy_ch b @ yy_file b \<noteq> []"
  shows "token_found b (yy_token (Suc k) (Yy_match q cp) lacc b)"
proof -
  let ?bol = "yy_at_bol b" and ?t = "yy_ch b @ yy_file b"
  have l: "yy_ch b @ r \<noteq> [] \<Longrightarrow> yy_find_action q' cp' l1 = longest ?bol (yy_ch b @ r)" for r
    using at f by (simp add: at_label_def)
  have ne: "yy_ch b \<noteq> []"
  proof
    assume "yy_ch b = []"
    then have "yy_find_action q' cp' l1 = (YY_END_OF_BUFFER, cp + 1)"
      using m yy_match_eob [OF st, of cp lacc "CHR 0x00" "[]"] by (auto simp: yy_find_eob simp del: yy_match.simps)
    then show False using l [of "yy_file b"] ok(2) longest_act [of ?t ?bol] by (metis fst_conv)
  qed
  have "snd (longest ?bol ?t) \<le> length (yy_ch b)"
    using l [of "[]"] l [of "yy_file b"] ne longest_bound [of ?bol "yy_ch b"] by simp
  moreover have "yy_find_action q' cp' l1 = (fst (longest ?bol ?t), snd (longest ?bol ?t))"
    using l [of "yy_file b"] ok(2) by simp
  ultimately show ?thesis
    using token_matched(1) [OF m, of "fst (longest ?bol ?t)" "snd (longest ?bol ?t)" k] longest_act [OF ok(2)] ok(1)
    by (simp add: token_found_def)
qed

text \<open>\<open>IH\<close> is the induction hypothesis of the lemma below.\<close>

lemma token_at_NUL:
  assumes m: "yy_match q cp lacc (drop cp (yy_ch b) @ [CHR 0x00, CHR 0x00]) = Some (q', cp', l1)"
    and f: "yy_find_action q' cp' l1 = (YY_END_OF_BUFFER, length u + 1)" and cp: "cp \<le> length u"
    and ch: "yy_ch b = u @ CHR 0x00 # w" and run: "fst (yy_prefix (yy_begin (yy_at_bol b)) 0 l u) \<noteq> 28"
    and ok: "yybuf_ok b" "label_steps b (Yy_match q cp) < Suc k"
    and IH: "\<And>j lacc b. at_label b j lacc \<Longrightarrow> yybuf_ok b \<Longrightarrow> label_steps b j < k \<Longrightarrow> yy_ch b @ yy_file b \<noteq> [] \<Longrightarrow>
      token_found b (yy_token k j lacc b)"
  shows "token_found b (yy_token (Suc k) (Yy_match q cp) lacc b)"
proof -
  obtain q1 l2 where prev: "yy_get_previous_state (length u) l1 (yy_scanned b) = (q1, l2)" by (metis surj_pair)
  obtain q2 l3 where nul: "yy_try_NUL_trans q1 (length u) l2 = (q2, l3)" by (metis surj_pair)
  let ?j = "if q2 \<noteq> 0 then Yy_match q2 (length u + 1) else Yy_find_action q1 (length u)"
  have at: "at_label b ?j l3"
    using at_NUL [of "yy_scanned b" u w l1 q1 l2 l q2 l3] ch prev run nul by (simp split: if_splits)
  have steps: "label_steps b ?j < k" using ok(2) cp ch by (auto simp: label_steps_def)
  have "token_found (yy_scanned b) (yy_token k ?j l3 (yy_scanned b))"
    by (rule IH) (use at steps ok ch in auto)
  moreover have "yy_token (Suc k) (Yy_match q cp) lacc b = yy_token k ?j l3 (yy_scanned b)"
    using token_matched(2) [OF m f refl, of q1 l2 q2 l3 k] prev nul by (simp add: ch)
  ultimately show ?thesis by simp
qed

lemma token_at_refill:
  assumes m: "yy_match q cp lacc (drop cp (yy_ch b) @ [CHR 0x00, CHR 0x00]) = Some (q', cp', l1)"
    and f: "yy_find_action q' cp' l1 = (YY_END_OF_BUFFER, length (yy_ch b) + 1)" and cp: "cp \<le> length (yy_ch b)"
    and run: "fst (yy_prefix (yy_begin (yy_at_bol b)) 0 l (yy_ch b)) \<noteq> 28"
    and ok: "yybuf_ok b" "label_steps b (Yy_match q cp) < Suc k" "yy_ch b @ yy_file b \<noteq> []"
    and IH: "\<And>j lacc b. at_label b j lacc \<Longrightarrow> yybuf_ok b \<Longrightarrow> label_steps b j < k \<Longrightarrow> yy_ch b @ yy_file b \<noteq> [] \<Longrightarrow>
      token_found b (yy_token k j lacc b)"
  shows "token_found b (yy_token (Suc k) (Yy_match q cp) lacc b)"
proof -
  have "yybuf_ok (yy_scanned b)" using ok by simp
  from yy_get_next_buffer_result [OF this, unfolded yy_scanned_simps] obtain act b' where
    g: "yy_get_next_buffer (length (yy_ch b) + 1) (yy_scanned b) = Some (act, b')" and ok': "yybuf_ok b'" and
    r: "case act of
       EOB_ACT_END_OF_FILE \<Rightarrow> yy_ch b = [] \<and> yy_file b = []
     | EOB_ACT_LAST_MATCH \<Rightarrow> yy_ch b \<noteq> [] \<and> yy_file b = [] \<and> yy_ch b' = yy_ch b \<and> yy_file b' = [] \<and> yy_at_bol b' = yy_at_bol b
     | EOB_ACT_CONTINUE_SCAN \<Rightarrow> yy_at_bol b' = yy_at_bol b \<and>
         (\<exists>x. x \<noteq> [] \<and> yy_file b = x @ yy_file b' \<and> yy_ch b' = yy_ch b @ x)" by blast
  note t = token_matched(3) [OF m f refl, of k]
  show ?thesis
  proof (cases act)
    case EOB_ACT_END_OF_FILE
    then show ?thesis using r ok(3) by simp
  next
    case EOB_ACT_LAST_MATCH
    obtain q1 l2 where prev: "yy_get_previous_state (length (yy_ch b')) l1 b' = (q1, l2)" by (metis surj_pair)
    have at: "at_label b' (Yy_find_action q1 (length (yy_ch b'))) l2"
      by (rule at_end [OF prev]) (use r run EOB_ACT_LAST_MATCH in auto)
    have "token_found b' (yy_token k (Yy_find_action q1 (length (yy_ch b'))) l2 b')"
      by (rule IH [OF at ok']) (use r ok EOB_ACT_LAST_MATCH in \<open>auto simp: label_steps_def\<close>)
    then have "token_found b (yy_token k (Yy_find_action q1 (length (yy_ch b'))) l2 b')"
      by (rule token_found_same) (use r EOB_ACT_LAST_MATCH in auto)
    then show ?thesis using t g prev EOB_ACT_LAST_MATCH by (simp add: Let_def)
  next
    case EOB_ACT_CONTINUE_SCAN
    then obtain x where x: "x \<noteq> []" "yy_file b = x @ yy_file b'" "yy_ch b' = yy_ch b @ x" "yy_at_bol b' = yy_at_bol b" using r by auto
    obtain q1 l2 where prev: "yy_get_previous_state (length (yy_ch b)) l1 b' = (q1, l2)" by (metis surj_pair)
    have at: "at_label b' (Yy_match q1 (length (yy_ch b))) l2"
      by (rule at_refilled [OF prev x(3,1)]) (use run x in simp)
    have "0 < length x" using x(1) by simp
    then have "label_steps b' (Yy_match q1 (length (yy_ch b))) < k" using ok(2) cp x(2,3) \<open>0 < length x\<close> by (simp add: label_steps_def del: length_greater_0_conv)
    then have "token_found b' (yy_token k (Yy_match q1 (length (yy_ch b))) l2 b')"
      by (rule IH [OF at ok']) (use x in simp)
    then have "token_found b (yy_token k (Yy_match q1 (length (yy_ch b))) l2 b')"
      by (rule token_found_same) (use x in auto)
    then show ?thesis using t g prev EOB_ACT_CONTINUE_SCAN by (simp add: Let_def)
  qed
qed

lemma yy_token_longest:
  assumes "at_label b j lacc" "yybuf_ok b" "label_steps b j < k" "yy_ch b @ yy_file b \<noteq> []"
  shows "token_found b (yy_token k j lacc b)"
  using assms
proof (induction k arbitrary: j lacc b)
  case (Suc k)
  let ?s = "yy_begin (yy_at_bol b)"
  show ?case
  proof (cases j)
    case (Yy_find_action q cp)
    then show ?thesis using token_at_action Suc.prems by metis
  next
    case (Yy_match q cp)
    then have cp: "cp \<le> length (yy_ch b)" and q: "q = fst (yy_prefix ?s 0 (0, 0) (take cp (yy_ch b)))" "q \<noteq> 28"
      using Suc.prems by (auto simp: at_label_def Let_def)
    have st: "yy_state q" using q(1) yy_prefix_state [OF yy_begin_state(1)] by simp
    from yy_match_result [OF st q(2), of cp lacc "drop cp (yy_ch b)"] obtain q' cp' l1 where
      m: "yy_match q cp lacc (drop cp (yy_ch b) @ [CHR 0x00, CHR 0x00]) = Some (q', cp', l1)" and
      r: "(\<forall>r. yy_find_action q' cp' l1 = munch q cp lacc (drop cp (yy_ch b) @ r)) \<or>
        (\<exists>u v. drop cp (yy_ch b) = u @ v \<and> (v = [] \<or> (\<exists>w. v = CHR 0x00 # w)) \<and>
           yy_find_action q' cp' l1 = (YY_END_OF_BUFFER, cp + length u + 1) \<and> fst (yy_prefix q cp lacc u) \<noteq> 28)" by blast
    from r show ?thesis
    proof
      assume "\<forall>r. yy_find_action q' cp' l1 = munch q cp lacc (drop cp (yy_ch b) @ r)"
      then show ?thesis using token_at_stop [OF m] Suc.prems st Yy_match by auto
    next
      assume "\<exists>u v. drop cp (yy_ch b) = u @ v \<and> (v = [] \<or> (\<exists>w. v = CHR 0x00 # w)) \<and>
        yy_find_action q' cp' l1 = (YY_END_OF_BUFFER, cp + length u + 1) \<and> fst (yy_prefix q cp lacc u) \<noteq> 28"
      then obtain u0 v where d: "drop cp (yy_ch b) = u0 @ v" "v = [] \<or> (\<exists>w. v = CHR 0x00 # w)"
        and f: "yy_find_action q' cp' l1 = (YY_END_OF_BUFFER, cp + length u0 + 1)" and n28: "fst (yy_prefix q cp lacc u0) \<noteq> 28" by blast
      define u where "u = take cp (yy_ch b) @ u0"
      have ch: "yy_ch b = u @ v" using d(1) by (metis append_take_drop_id append.assoc u_def)
      have len: "length u = cp + length u0" using cp by (simp add: u_def)
      have run: "fst (yy_prefix ?s 0 (0, 0) u) \<noteq> 28"
        using n28 q(1) cp yy_prefix_fst [of q cp lacc u0] by (simp add: u_def yy_prefix_append) metis
      from d(2) show ?thesis
      proof
        assume "v = []"
        then show ?thesis using token_at_refill [OF m, where k = k] Suc ch len f run cp Yy_match by auto
      next
        assume "\<exists>w. v = CHR 0x00 # w"
        then obtain w where w: "v = CHR 0x00 # w" by blast
        show ?thesis unfolding Yy_match
          by (rule token_at_NUL [OF m, of u w]) (use Suc ch len f run w Yy_match in auto)
      qed
    qed
  qed
qed simp

section \<open>The longest match is the one of the rules\<close>

lemma munch_loop:
  assumes "\<And>c. yy_next q c = (if P c then q else 28)" "yy_accept ! q \<noteq> 0" "q \<noteq> 28"
  shows "munch q cp lacc s = (yy_accept ! q, cp + length (takeWhile P s))"
  by (induction s arbitrary: cp lacc) (use assms in \<open>simp_all add: yy_find_action_def Let_def\<close>)

lemma munch_enter:
  assumes "\<And>c. yy_next q c = (if P c then q' else 28)" "\<And>c. yy_next q' c = (if P c then q' else 28)"
    "yy_accept ! q = a" "yy_accept ! q' = a" "a \<noteq> 0" "q' \<noteq> 28"
  shows "munch q cp lacc s = (a, cp + length (takeWhile P s))"
  using munch_loop [of q' P] assms by (cases s) (simp_all add: yy_find_action_def Let_def)

lemma yy_accepts [simp]:
  "yy_accept ! 4 = 6" "yy_accept ! 5 = 1" "yy_accept ! 6 = 7" "yy_accept ! 7 = 5" "yy_accept ! 8 = 6" "yy_accept ! 9 = 6" "yy_accept ! 10 = 6"
  "yy_accept ! 11 = 1" "yy_accept ! 12 = 0" "yy_accept ! 13 = 2" "yy_accept ! 14 = 0" "yy_accept ! 15 = 0" "yy_accept ! 16 = 0"
  "yy_accept ! 17 = 0" "yy_accept ! 18 = 2" "yy_accept ! 19 = 4" "yy_accept ! 20 = 0" "yy_accept ! 21 = 2" "yy_accept ! 22 = 0"
  "yy_accept ! 23 = 0" "yy_accept ! 24 = 0" "yy_accept ! 25 = 0" "yy_accept ! 26 = 0" "yy_accept ! 27 = 3"
  by (simp_all add: yy_accept_def)

lemma munch_final: "q \<in> {4, 6, 7, 21} \<Longrightarrow> munch q cp lacc s = (yy_accept ! q, cp)"
  by (cases s) (auto simp: yy_find_action_def yy_next_rows)

lemma munch_space: "munch 5 cp lacc s = (1, cp + length (takeWhile (\<lambda>c. c = CHR '' '' \<or> c = CHR 0x09) s))"
  by (rule munch_enter [where q' = 11]) (simp_all add: yy_next_rows)

lemma munch_line: "munch 13 cp lacc s = (2, cp + length (takeWhile (\<lambda>c. c \<noteq> CHR 0x0A) s))"
  by (rule munch_enter [where q' = 18]) (simp_all add: yy_next_rows)

lemma munch_digits: "munch 19 cp lacc s = (4, cp + length (takeWhile isdigit s))"
  using munch_loop [of 19 isdigit] by (simp add: yy_next_rows)

text \<open>A comment in slashes and stars; without its end the slash alone is matched.\<close>

lemma munch_block:
  "q \<in> {12, 16, 17} \<Longrightarrow> munch q cp (8, 1) s =
     (let y = takeWhile (\<lambda>c. c \<noteq> CHR ''/'') s
      in if length y < length s \<and> (if y = [] then q = 17 else last y = CHR ''*'') then (2, cp + length y + 1) else (6, 1))"
proof (induction s arbitrary: q cp)
  case Nil
  then show ?case by (auto simp: yy_find_action_def)
next
  case (Cons c s)
  have a: "yy_accept ! q = 0" using Cons.prems by auto
  consider "c = CHR ''/''" | "c = CHR ''*''" | "c \<noteq> CHR ''/''" "c \<noteq> CHR ''*''" by blast
  then show ?case
  proof cases
    case 1
    then show ?thesis using Cons.prems a by (auto simp: yy_next_rows munch_final)
  next
    case 2
    have "yy_next q c = 17" using Cons.prems 2 by (auto simp: yy_next_rows)
    then show ?thesis using Cons.IH [of 17 "cp + 1"] a 2 by (auto simp: Let_def)
  next
    case 3
    have "yy_next q c = 16" using Cons.prems 3 by (auto simp: yy_next_rows)
    then show ?thesis using Cons.IH [of 16 "cp + 1"] a 3 by (auto simp: Let_def)
  qed
qed

lemma munch_slash:
  "munch 8 1 lacc s =
     (case s of [] \<Rightarrow> (6, 1)
      | c # r \<Rightarrow> if c = CHR ''*'' then munch 12 2 (8, 1) r else if c = CHR ''/'' then munch 13 2 (8, 1) r else (6, 1))"
  by (cases s) (simp_all add: yy_find_action_def yy_next_rows numeral_2_eq_2)

lemma munch_N:
  "munch 9 1 lacc s =
     (case s of [] \<Rightarrow> (6, 1)
      | c # r \<Rightarrow> if c = CHR ''='' \<and> takeWhile isdigit r \<noteq> [] then (4, 2 + length (takeWhile isdigit r)) else (6, 1))"
proof (cases s)
  case (Cons c r)
  then show ?thesis by (cases r) (auto simp: yy_find_action_def yy_next_rows munch_digits)
qed (simp add: yy_find_action_def)

lemma class_char_dot [simp]: "\<not> class_char CHR ''.''"
  by (simp add: class_char_def)

lemma match_parts_class: "class_char d \<Longrightarrow> match_parts (CHR ''.'' # d # r) = CHR ''.'' # takeWhile class_char (d # r) @ match_parts (dropWhile class_char (d # r))"
  by (subst match_parts.simps) simp

lemma match_parts_none [simp]: "match_parts [] = []" "match_parts [c] = []" "c \<noteq> CHR ''.'' \<Longrightarrow> match_parts (c # s) = []"
  "\<not> class_char d \<Longrightarrow> match_parts (c # d # r) = []"
  by (subst match_parts.simps; auto split: list.splits)+

lemma munch_class: "munch 27 cp lacc s = (3, cp + length (takeWhile class_char s) + length (match_parts (dropWhile class_char s)))"
proof (induction s arbitrary: cp lacc rule: length_induct)
  case (1 s)
  show ?case
  proof (cases s)
    case (Cons c r)
    consider "class_char c" | "c = CHR ''.''" | "\<not> class_char c" "c \<noteq> CHR ''.''" by blast
    then show ?thesis
    proof cases
      case 1
      then have "c \<noteq> CHR ''.''" by auto
      then show ?thesis using 1 Cons "1.IH" by (simp add: yy_next_rows Let_def)
    next
      case 2
      show ?thesis
      proof (cases r)
        case (Cons d w)
        then show ?thesis using 2 \<open>s = c # r\<close> "1.IH" by (simp add: yy_next_rows Let_def match_parts_class)
      qed (use 2 Cons in \<open>simp add: yy_next_rows yy_find_action_def\<close>)
    next
      case 3
      then show ?thesis using Cons by (simp add: yy_next_rows)
    qed
  qed (simp add: yy_find_action_def)
qed

lemma munch_parts: "munch 25 cp (10, 1) s = (if match_parts s \<noteq> [] then (3, cp + length (match_parts s)) else (6, 1))"
proof (cases s)
  case (Cons c r)
  then show ?thesis
    by (cases r; cases "c = CHR ''.''"; cases "class_char (hd r)")
      (auto simp: yy_next_rows yy_find_action_def munch_class match_parts_class)
qed (simp add: yy_find_action_def)

text \<open>The letters of \<^verbatim>\<open>ereport\<close> after the first.\<close>

lemma munch_letter:
  assumes "yy_accept ! q = 0" "\<And>c. yy_next q c = (if c = x then q' else 28)" "q' \<noteq> 28"
  shows "munch q cp (10, 1) s = (if is_pfx [x] s then munch q' (cp + 1) (10, 1) (tl s) else (6, 1))"
  using assms by (cases s) (simp_all add: yy_find_action_def is_pfx_def)

lemma munch_letters:
  "munch 10 1 (0, 0) s = (if is_pfx ''r'' s then munch 15 2 (10, 1) (tl s) else (6, 1))"
  "munch 15 2 (10, 1) s = (if is_pfx ''e'' s then munch 20 3 (10, 1) (tl s) else (6, 1))"
  "munch 20 3 (10, 1) s = (if is_pfx ''p'' s then munch 22 4 (10, 1) (tl s) else (6, 1))"
  "munch 22 4 (10, 1) s = (if is_pfx ''o'' s then munch 23 5 (10, 1) (tl s) else (6, 1))"
  "munch 23 5 (10, 1) s = (if is_pfx ''r'' s then munch 24 6 (10, 1) (tl s) else (6, 1))"
  "munch 24 6 (10, 1) s = (if is_pfx ''t'' s then munch 25 7 (10, 1) (tl s) else (6, 1))"
proof -
  show "munch 10 1 (0, 0) s = (if is_pfx ''r'' s then munch 15 2 (10, 1) (tl s) else (6, 1))"
    by (cases s) (simp_all add: yy_find_action_def yy_next_rows is_pfx_def numeral_2_eq_2)
  show "munch 15 2 (10, 1) s = (if is_pfx ''e'' s then munch 20 3 (10, 1) (tl s) else (6, 1))"
    using munch_letter [of 15 "CHR ''e''" 20 2 s] by (simp add: yy_next_rows)
  show "munch 20 3 (10, 1) s = (if is_pfx ''p'' s then munch 22 4 (10, 1) (tl s) else (6, 1))"
    using munch_letter [of 20 "CHR ''p''" 22 3 s] by (simp add: yy_next_rows)
  show "munch 22 4 (10, 1) s = (if is_pfx ''o'' s then munch 23 5 (10, 1) (tl s) else (6, 1))"
    using munch_letter [of 22 "CHR ''o''" 23 4 s] by (simp add: yy_next_rows)
  show "munch 23 5 (10, 1) s = (if is_pfx ''r'' s then munch 24 6 (10, 1) (tl s) else (6, 1))"
    using munch_letter [of 23 "CHR ''r''" 24 5 s] by (simp add: yy_next_rows)
  show "munch 24 6 (10, 1) s = (if is_pfx ''t'' s then munch 25 7 (10, 1) (tl s) else (6, 1))"
    using munch_letter [of 24 "CHR ''t''" 25 6 s] by (simp add: yy_next_rows)
qed

lemma is_pfx_Cons: "is_pfx (x # y # p) s \<longleftrightarrow> is_pfx [x] s \<and> is_pfx (y # p) (tl s)"
  by (cases s) (auto simp: is_pfx_def)

lemma munch_ereport:
  "munch 10 1 (0, 0) s =
     (if is_pfx ''eport'' (tl s) \<and> is_pfx ''r'' s \<and> match_parts (drop 6 s) \<noteq> [] then (3, 7 + length (match_parts (drop 6 s))) else (6, 1))"
proof -
  have "drop 6 s = tl (tl (tl (tl (tl (tl s)))))" by (simp add: drop_Suc eval_nat_numeral)
  then show ?thesis by (simp add: munch_letters is_pfx_Cons munch_parts del: One_nat_def)
qed

lemma scan_first:
  "scan bol (c # s) =
     (if c = CHR '' '' \<or> c = CHR 0x09 then (1 + length (takeWhile (\<lambda>c. c = CHR '' '' \<or> c = CHR 0x09) s), None)
      else if c = CHR ''/'' \<and> match_comment (c # s) \<noteq> [] then (length (match_comment (c # s)), None)
      else if c = CHR ''e'' \<and> bol \<and> match_class (c # s) \<noteq> [] then (length (match_class (c # s)), Some (ECLASS (match_class (c # s))))
      else if c = CHR ''N'' \<and> match_repeat (c # s) \<noteq> [] then (length (match_repeat (c # s)), Some (COUNT (repval (match_repeat (c # s)))))
      else if c = CHR '','' then (1, Some COMMA) else (1, None))"
  by (auto simp: scan_def match_comment_def match_class_def match_repeat_def is_pfx_def Let_def)

lemma longest_first:
  "longest bol (c # s) =
     (if c = CHR '' '' \<or> c = CHR 0x09 then (1, 1 + length (takeWhile (\<lambda>c. c = CHR '' '' \<or> c = CHR 0x09) s))
      else if c = CHR ''/'' then munch 8 1 (0, 0) s
      else if c = CHR ''e'' \<and> bol then munch 10 1 (0, 0) s
      else if c = CHR ''N'' then munch 9 1 (0, 0) s
      else if c = CHR '','' then (5, 1) else if c = CHR 0x0A then (7, 1) else (6, 1))"
proof -
  have "longest bol (c # s) = munch (yy_next (yy_begin bol) c) 1 (0, 0) s" by (simp add: longest_def yy_next_begin(2))
  then show ?thesis by (simp add: yy_begin_def yy_next_rows munch_space munch_final del: One_nat_def)
qed

lemma match_parts_prefix: "take (length (match_parts s)) s = match_parts s"
proof (induction s rule: match_parts.induct)
  case (1 s)
  consider "match_parts s = []" | d r where "s = CHR ''.'' # d # r" "class_char d"
  proof (cases s)
    case (Cons c r)
    then show ?thesis using that by (cases r; cases "c = CHR ''.''"; cases "class_char (hd r)") auto
  qed (use that in simp)
  then show ?case
  proof cases
    case 2
    have "take (length (takeWhile class_char (d # r)) + length (match_parts (dropWhile class_char (d # r)))) (d # r) =
        takeWhile class_char (d # r) @ match_parts (dropWhile class_char (d # r))"
      using 1 [of "CHR ''.''" "d # r" d r] 2 by (simp add: take_add takeWhile_eq_take [symmetric] dropWhile_eq_drop [symmetric])
    then show ?thesis using 2 by (simp add: match_parts_class)
  qed simp
qed

lemma match_parts_length: "length (match_parts s) \<le> length s"
  using match_parts_prefix [of s] by (metis length_take min.cobounded1)

lemma match_class_e:
  "match_class (CHR ''e'' # s) =
     (if is_pfx ''eport'' (tl s) \<and> is_pfx ''r'' s \<and> match_parts (drop 6 s) \<noteq> [] then take (7 + length (match_parts (drop 6 s))) (CHR ''e'' # s) else [])"
proof (cases "is_pfx ''ereport'' (CHR ''e'' # s)")
  case True
  then obtain r where "s = ''report'' @ r" by (auto simp: is_pfx_iff)
  moreover have "take (7 + n) (''ereport'' @ r) = ''ereport'' @ take n r" for n by (simp add: eval_nat_numeral)
  ultimately show ?thesis using match_parts_prefix [of r] by (simp add: match_class_def is_pfx_def)
next
  case False
  then have "\<not> (is_pfx ''eport'' (tl s) \<and> is_pfx ''r'' s)" by (cases s) (auto simp: is_pfx_def)
  then show ?thesis using False by (auto simp: match_class_def)
qed

lemma match_repeat_N:
  "match_repeat (CHR ''N'' # s) =
     (case s of [] \<Rightarrow> []
      | c # r \<Rightarrow> if c = CHR ''='' \<and> takeWhile isdigit r \<noteq> [] then take (2 + length (takeWhile isdigit r)) (CHR ''N'' # s) else [])"
  by (cases s) (auto simp: match_repeat_def is_pfx_def Let_def takeWhile_eq_take [symmetric])

lemma match_comment_slash:
  "length (match_comment (CHR ''/'' # s)) =
     (case s of [] \<Rightarrow> 0
      | c # r \<Rightarrow> if c = CHR ''/'' then 2 + length (takeWhile (\<lambda>c. c \<noteq> CHR 0x0A) r)
          else let y = takeWhile (\<lambda>c. c \<noteq> CHR ''/'') r
            in if c = CHR ''*'' \<and> length y < length r \<and> y \<noteq> [] \<and> last y = CHR ''*'' then 3 + length y else 0)"
  by (cases s) (auto simp: match_comment_def is_pfx_def Let_def)

text \<open>The automaton with its actions is the scanner by the rules.\<close>

lemma scan_longest:
  assumes "t \<noteq> []"
  shows "scan bol t = (snd (longest bol t), yy_action (fst (longest bol t)) (take (snd (longest bol t)) t))"
proof -
  obtain c s where t: "t = c # s" using assms by (cases t) auto
  consider "c = CHR ''/''" | "c = CHR ''e''" bol | "c = CHR ''N''" | "c \<noteq> CHR ''/''" "\<not> (c = CHR ''e'' \<and> bol)" "c \<noteq> CHR ''N''" by blast
  then show ?thesis
  proof cases
    case 1
    have "match_comment (CHR ''/'' # s) \<noteq> [] \<longleftrightarrow> 0 < length (match_comment (CHR ''/'' # s))" by simp
    then show ?thesis unfolding t 1
      by (simp add: scan_first longest_first munch_slash match_comment_slash munch_block munch_line yy_action_def Let_def
          split: list.split del: One_nat_def)
  next
    case 2
    have "match_parts (drop 6 s) \<noteq> [] \<Longrightarrow> 7 + length (match_parts (drop 6 s)) \<le> Suc (length s)"
      using match_parts_length [of "drop 6 s"] by (cases "drop 6 s = []") auto
    then show ?thesis using 2 unfolding t
      by (auto simp: scan_first longest_first munch_ereport match_class_e yy_action_def min_def simp del: One_nat_def)
  next
    case 3
    then show ?thesis unfolding t
      by (auto simp: scan_first longest_first munch_N match_repeat_N yy_action_def min_absorb2 length_takeWhile_le simp del: One_nat_def split: list.split)
  next
    case 4
    then show ?thesis unfolding t by (auto simp: scan_first longest_first yy_action_def)
  qed
qed

section \<open>The tokens of a file\<close>

lemma at_label_begin: "at_label b (Yy_match (yy_begin (yy_at_bol b)) 0) lacc"
  using munch_begin by (simp add: at_label_def Let_def)

lemma yy_token_end:
  assumes "yybuf_ok b" "yy_ch b @ yy_file b = []"
  shows "\<exists>b'. yy_token (Suc k) (Yy_match (yy_begin (yy_at_bol b)) 0) lacc b = Some (YY_END_OF_BUFFER + 1, 0, b')"
proof -
  have m: "yy_match (yy_begin (yy_at_bol b)) 0 lacc (drop 0 (yy_ch b) @ [CHR 0x00, CHR 0x00]) = Some (28, 2, (3, 1))"
    using assms(2) yy_match_eob [OF yy_begin_state(1), of "yy_at_bol b" 0 lacc "CHR 0x00" "[]"] by simp
  have "yybuf_ok (yy_scanned b)" "yy_ch (yy_scanned b) = []" "yy_file (yy_scanned b) = []" using assms by simp_all
  note e = this
  from yy_get_next_buffer_result [OF e(1)] obtain act b' where
    g: "yy_get_next_buffer (length (yy_ch (yy_scanned b)) + 1) (yy_scanned b) = Some (act, b')" and
    r: "case act of
       EOB_ACT_END_OF_FILE \<Rightarrow> True
     | EOB_ACT_LAST_MATCH \<Rightarrow> yy_ch (yy_scanned b) \<noteq> []
     | EOB_ACT_CONTINUE_SCAN \<Rightarrow> (\<exists>x. x \<noteq> [] \<and> yy_file (yy_scanned b) = x @ yy_file b')"
    by (force split: eob_act.splits)
  have "act = EOB_ACT_END_OF_FILE" using r e(2,3) by (cases act) auto
  then have "yy_get_next_buffer 1 (yy_scanned b) = Some (EOB_ACT_END_OF_FILE, b')" using g e(2) by simp
  then show ?thesis using token_matched(3) [OF m yy_find_eob refl, of k] assms(2) by simp
qed

lemma flex_tokens_all:
  "yybuf_ok b \<Longrightarrow> length (yy_ch b @ yy_file b) < k \<Longrightarrow> flex_tokens k lacc b = Some (yylex_all (yy_at_bol b) (yy_ch b @ yy_file b))"
proof (induction k arbitrary: b)
  case (Suc k)
  let ?t = "yy_ch b @ yy_file b" and ?bol = "yy_at_bol b"
  show ?case
  proof (cases "?t = []")
    case True
    then show ?thesis using yy_token_end [OF Suc.prems(1) True, of 2 lacc] by (auto simp del: yy_token.simps)
  next
    case False
    let ?n = "snd (longest ?bol ?t)"
    have "token_found b (yy_token (length (yy_ch b) + 2 * length (yy_file b) + 3) (Yy_match (yy_begin ?bol) 0) lacc b)"
      by (rule yy_token_longest [OF at_label_begin Suc.prems(1) _ False]) (simp add: label_steps_def)
    then obtain b' where tok: "yy_token (length (yy_ch b) + 2 * length (yy_file b) + 3) (Yy_match (yy_begin ?bol) 0) lacc b =
        Some (fst (longest ?bol ?t), ?n, b')"
      and b': "?n \<le> length (yy_ch b')" "yy_ch b' @ yy_file b' = ?t" "yybuf_ok b'" "yy_at_bol b' = ?bol"
      by (auto simp: token_found_def)
    have n: "0 < ?n" "fst (longest ?bol ?t) \<noteq> YY_END_OF_BUFFER + 1"
      using longest_rule [OF False, of ?bol] by (auto simp: YY_END_OF_BUFFER_def)
    let ?b = "yy_rule_setup ?n b'"
    have cut: "yy_ch ?b @ yy_file ?b = drop ?n ?t" "take ?n (yy_ch b') = take ?n ?t" "yy_ch b' ! (?n - 1) = ?t ! (?n - 1)"
      using b'(1,2) n(1) unfolding b'(2) [symmetric] by (auto simp: yy_rule_setup_def nth_append)
    have ok: "yybuf_ok ?b" using b'(3) by (simp add: yy_rule_setup_def yybuf_ok_def)
    have bol: "yy_at_bol ?b = (?t ! (?n - 1) = CHR 0x0A)" using n(1) cut(3) by (simp add: yy_rule_setup_def)
    have "length (drop ?n ?t) < k" unfolding length_drop using Suc.prems(2) n(1) longest_bound [of ?bol ?t] by linarith
    then have "flex_tokens k lacc ?b = Some (yylex_all (?t ! (?n - 1) = CHR 0x0A) (drop ?n ?t))"
      by (rule Suc.IH [OF ok, unfolded cut(1) bol])
    then show ?thesis using tok n(2) cut(2) False
      by (subst yylex_all.simps) (simp add: scan_longest Let_def del: take_append drop_append append_is_Nil_conv)
  qed
qed simp

text \<open>
  C38. The compiled scanner - its compressed automaton, the backing up, the buffer that is refilled block by block from the file or
  line by line from a terminal and that grows under a long token - gives the parser exactly the tokens of the rules of
  \<^verbatim>\<open>fminject.l\<close>, whatever the size of the buffer.
\<close>

theorem flex_scanner_equals_rules:
  assumes "0 < sz"
  shows "flex_tokens (Suc (length t) + k) lacc (yy_create_buffer t tty sz) = Some (yylex_all True t)"
proof -
  have "yybuf_ok (yy_create_buffer t tty sz)" "yy_at_bol (yy_create_buffer t tty sz)"
    "yy_ch (yy_create_buffer t tty sz) @ yy_file (yy_create_buffer t tty sz) = t"
    using assms by (simp_all add: yybuf_ok_def yy_create_buffer_def yy_init_buffer_def yy_flush_buffer_def)
  then show ?thesis using flex_tokens_all [of "yy_create_buffer t tty sz" "Suc (length t) + k" lacc] by simp
qed

lemma flex_scanner_equals_rules_witness:
  "flex_tokens (Suc (length ''ereport.a,N=2'') + 0) (0, 0) (yy_create_buffer ''ereport.a,N=2'' False 4) =
     Some [ECLASS ''ereport.a'', COMMA, COUNT 2]"
proof -
  have "yylex_all True ''ereport.a,N=2'' = [ECLASS ''ereport.a'', COMMA, COUNT 2]" by code_simp
  then show ?thesis using flex_scanner_equals_rules [of 4 "''ereport.a,N=2''" 0 "(0, 0)" False] by (simp only: zero_less_numeral)
qed

text \<open>A text in memory gives the same tokens, but for an empty one, whose buffer has the size 0.\<close>

lemma flex_scan_bytes:
  assumes "yy_scan_bytes t = Some b" "t \<noteq> []"
  shows "flex_tokens (Suc (length t) + k) lacc b = Some (yylex_all True t)"
proof -
  have "yybuf_ok b" "yy_at_bol b" "yy_ch b @ yy_file b = t"
    using assms by (auto simp: yy_scan_bytes_def yy_scan_buffer_def yybuf_ok_def nth_append Let_def)
  then show ?thesis using flex_tokens_all [of b "Suc (length t) + k" lacc] by simp
qed

end
