(* ===== verification/Fms_Main.thy ===== *)
theory Fms_Main
  imports Fms_Config Fms_Safety Fms_Text
begin

text \<open>
  The life of the daemon as a process: \<^verbatim>\<open>main\<close> of \<^verbatim>\<open>fms/main.c\<close> with its options, the file that holds the process id, the
  request to stop, and what it starts (\<^verbatim>\<open>fmd_load_esc\<close> of \<^verbatim>\<open>fms/fmd_common.c\<close>, the modules, the loop). Processes are known by
  their ids; \<open>alive\<close> says for which ids \<^verbatim>\<open>kill(pid, 0)\<close> finds a process. The file is a text, \<open>None\<close> when there is none.
\<close>

section \<open>The process id\<close>

definition get_running_pid :: "(int \<Rightarrow> bool) \<Rightarrow> string option \<Rightarrow> int" where
  "get_running_pid alive file =
     (case file of
        None \<Rightarrow> 0
      | Some t \<Rightarrow> (case scan_d t of None \<Rightarrow> 0 | Some pid \<Rightarrow> if pid > 0 \<and> alive pid then pid else 0))"

definition pid_text :: "int \<Rightarrow> string" where
  "pid_text pid = dec pid @ [CHR 0x0A]"

text \<open>\<open>wr\<close>: the file can be opened for writing.\<close>

definition set_running_pid :: "bool \<Rightarrow> int \<Rightarrow> string option \<Rightarrow> int \<times> string option" where
  "set_running_pid wr pid file = (if wr then (0, Some (pid_text pid)) else (-1, file))"

text \<open>\<^verbatim>\<open>kill_daemon\<close>: the process that gets the signal to terminate.\<close>

definition kill_daemon :: "(int \<Rightarrow> bool) \<Rightarrow> string option \<Rightarrow> int option" where
  "kill_daemon alive file = (let run_pid = get_running_pid alive file in if run_pid > 0 then Some run_pid else None)"

section \<open>Start\<close>

datatype start_action = Start bool | Stop | Version | Usage

text \<open>The options as \<^verbatim>\<open>getopt\<close> returns them; all but the first end the program at once. \<open>Start\<close> says whether to log all.\<close>

fun main_options :: "string \<Rightarrow> bool \<Rightarrow> start_action" where
  "main_options [] debug = Start debug"
| "main_options (c # cs') debug =
     (if c = CHR ''d'' then main_options cs' True
      else if c = CHR ''k'' then Stop
      else if c = CHR ''v'' then Version
      else Usage)"

definition FMS_VERSION_CODE :: nat where "FMS_VERSION_CODE = 0x020005"

definition print_version :: string where
  "print_version =
     ''Version: FMS/'' @ nat_str 10 (FMS_VERSION_CODE div 2 ^ 16 mod 256) @ ''.'' @ nat_str 10 (FMS_VERSION_CODE div 2 ^ 8 mod 256) @ ''.'' @
     nat_str 10 (FMS_VERSION_CODE mod 256) @ '' '' @ [CHR 0x0A]"

text \<open>
  What \<^verbatim>\<open>main\<close> finds: the library of the configuration (whether it and its functions are there), the configuration
  directory and its files, the plug-ins.
\<close>

record start_env =
  se_alive :: "int \<Rightarrow> bool"
  se_wr :: bool
  se_libesc :: bool
  se_esc_fs :: "string \<Rightarrow> string option"
  se_esc_dir :: "string list option"
  se_fs :: "string \<Rightarrow> fopen_res"
  se_dl :: "string \<Rightarrow> so_kind"
  se_plugins :: "string list option"
  se_priv :: "db_stmt list option"

text \<open>\<^verbatim>\<open>fmd_load_esc\<close>: \<open>None\<close> is the exit with status -1.\<close>

definition fmd_load_esc :: "start_env \<Rightarrow> fmd_esc option res" where
  "fmd_load_esc env =
     (if \<not> se_libesc env then Inr None
      else rbind (esc_main (se_esc_fs env) (se_esc_dir env)) (\<lambda>pesc. Inr (Some pesc)))"

text \<open>
  How far \<^verbatim>\<open>main\<close> gets: it exits with a status and what it printed, or runs its loop with the daemon it set up. The second
  component is the file of the process id, the third the process that was told to terminate. The result of
  loading the plug-ins is not looked at.
\<close>

datatype started = Exited int string | Running daemon

definition start_daemon :: "start_env \<Rightarrow> int \<Rightarrow> string option \<Rightarrow> (started \<times> string option) res" where
  "start_daemon env pid file =
     (if get_running_pid (se_alive env) file \<noteq> 0 then Inr (Exited 0 [], file)
      else let (rc, file1) = set_running_pid (se_wr env) pid file in
        if rc \<noteq> 0 then Inr (Exited 0 [], file1)
        else rbind (fmd_load_esc env) (\<lambda>r.
          case r of
            None \<Rightarrow> Inr (Exited 255 [], file1)
          | Some pesc \<Rightarrow>
              rbind (fmd_module_load (se_fs env) (se_dl env) (se_plugins env)
                \<lparr>d_fmd = fmd_init pesc [] (se_priv env), d_timer = [], d_module = []\<rparr>)
                (\<lambda>(ret, d). Inr (Running d, file1))))"

definition fms_main :: "start_env \<Rightarrow> string \<Rightarrow> int \<Rightarrow> string option \<Rightarrow> (started \<times> string option \<times> int option) res" where
  "fms_main env opts pid file =
     (case main_options opts False of
        Stop \<Rightarrow> Inr (Exited 0 [], file, kill_daemon (se_alive env) file)
      | Version \<Rightarrow> Inr (Exited 0 print_version, file, None)
      | Usage \<Rightarrow> Inr (Exited 0 [], file, None)
      | Start debug \<Rightarrow> rbind (start_daemon env pid file) (\<lambda>(st, file1). Inr (st, file1, None)))"

section \<open>Processes\<close>

text \<open>
  The processes of the machine: those alive, those of them that are a daemon in its loop, and those of these that
  were told to terminate (\<^verbatim>\<open>stop_flag\<close>). A daemon looks for another and writes the file in one step; the steps by which it
  is told to stop, ends its loop and removes the file are its own.
\<close>

record procs =
  pr_live :: "int list"
  pr_fmd :: "int list"
  pr_stop :: "int list"
  pr_file :: "string option"

definition pr_alive :: "procs \<Rightarrow> int \<Rightarrow> bool" where
  "pr_alive s pid \<longleftrightarrow> pid \<in> set (pr_live s)"

definition gone :: "int \<Rightarrow> procs \<Rightarrow> procs" where
  "gone p s = s\<lparr>pr_live := filter (\<lambda>q. q \<noteq> p) (pr_live s), pr_fmd := filter (\<lambda>q. q \<noteq> p) (pr_fmd s), pr_stop := filter (\<lambda>q. q \<noteq> p) (pr_stop s)\<rparr>"

text \<open>A signal to a daemon sets its flag; another process ends.\<close>

definition signal_term :: "int \<Rightarrow> procs \<Rightarrow> procs" where
  "signal_term p s = (if p \<in> set (pr_fmd s) then s\<lparr>pr_stop := p # pr_stop s\<rparr> else gone p s)"

inductive proc_step :: "procs \<Rightarrow> procs \<Rightarrow> bool" where
  born: "0 < p \<Longrightarrow> p < 2 ^ 31 \<Longrightarrow> \<not> pr_alive s p \<Longrightarrow> proc_step s (s\<lparr>pr_live := p # pr_live s\<rparr>)"
| starts: "pr_alive s p \<Longrightarrow> p \<notin> set (pr_fmd s) \<Longrightarrow> se_alive env = pr_alive s \<Longrightarrow>
    start_daemon env p (pr_file s) = Inr (Running d, file) \<Longrightarrow>
    proc_step s (s\<lparr>pr_fmd := p # pr_fmd s, pr_file := file\<rparr>)"
| fails: "pr_alive s p \<Longrightarrow> p \<notin> set (pr_fmd s) \<Longrightarrow> se_alive env = pr_alive s \<Longrightarrow>
    start_daemon env p (pr_file s) = Inr (Exited st out, file) \<Longrightarrow> proc_step s ((gone p s)\<lparr>pr_file := file\<rparr>)"
| told: "kill_daemon (pr_alive s) (pr_file s) = Some p \<Longrightarrow> proc_step s (signal_term p s)"
| ends: "p \<in> set (pr_stop s) \<Longrightarrow> proc_step s ((gone p s)\<lparr>pr_file := None\<rparr>)"
| dies: "proc_step s (gone p s)"

text \<open>At most one daemon, its id in the file; who was told to stop is a daemon.\<close>

definition procs_ok :: "procs \<Rightarrow> bool" where
  "procs_ok s \<longleftrightarrow>
     (\<forall>p \<in> set (pr_live s). 0 < p \<and> p < 2 ^ 31) \<and> set (pr_fmd s) \<subseteq> set (pr_live s) \<and> set (pr_stop s) \<subseteq> set (pr_fmd s) \<and>
     length (pr_fmd s) \<le> 1 \<and> (\<forall>p \<in> set (pr_fmd s). pr_file s = Some (pid_text p))"

lemma scan_pid_text:
  assumes "0 < p" "p < 2 ^ 31"
  shows "scan_d (pid_text p) = Some p"
  using scan_d_dec [of "nat p" "[CHR 0x0A]"] assms by (simp add: pid_text_def dec_def isdigit_def)

lemma get_running_pid_text: "0 < p \<Longrightarrow> p < 2 ^ 31 \<Longrightarrow> get_running_pid alive (Some (pid_text p)) = (if alive p then p else 0)"
  by (simp add: get_running_pid_def scan_pid_text)

lemma start_daemon_cases:
  assumes "start_daemon env p file = Inr (st, file')"
  shows "file' = file \<or> (get_running_pid (se_alive env) file = 0 \<and> file' = Some (pid_text p))"
    "st = Running d \<Longrightarrow> get_running_pid (se_alive env) file = 0 \<and> file' = Some (pid_text p)"
proof -
  have "(st = Exited 0 [] \<and> file' = file) \<or> (get_running_pid (se_alive env) file = 0 \<and> file' = Some (pid_text p))"
    using assms by (auto simp: start_daemon_def set_running_pid_def rbind_eq_Inr split: if_splits option.splits)
  then show "file' = file \<or> (get_running_pid (se_alive env) file = 0 \<and> file' = Some (pid_text p))"
    "st = Running d \<Longrightarrow> get_running_pid (se_alive env) file = 0 \<and> file' = Some (pid_text p)" by auto
qed

lemma procs_ok_gone: "procs_ok s \<Longrightarrow> procs_ok (gone p s)"
  by (auto simp: procs_ok_def gone_def intro: le_trans [OF length_filter_le])

lemma procs_ok_idle:
  assumes "procs_ok s" "get_running_pid (pr_alive s) (pr_file s) = 0"
  shows "pr_fmd s = []"
proof (rule ccontr)
  assume "pr_fmd s \<noteq> []"
  then obtain p where p: "p \<in> set (pr_fmd s)" by (cases "pr_fmd s") auto
  then have "pr_file s = Some (pid_text p)" "pr_alive s p" "0 < p" "p < 2 ^ 31"
    using assms(1) by (auto simp: procs_ok_def pr_alive_def)
  then show False using assms(2) by (simp add: get_running_pid_text)
qed

inductive_cases proc_stepE: "proc_step s t"

lemma proc_step_ok: "proc_step s t \<Longrightarrow> procs_ok s \<Longrightarrow> procs_ok t"
proof (induction rule: proc_step.induct)
  case (starts s p env d fl)
  have "pr_fmd s = []" "fl = Some (pid_text p)"
    using start_daemon_cases(2) [OF starts(4) refl] starts(3,5) procs_ok_idle by auto
  then show ?case using starts(1,5) by (auto simp: procs_ok_def pr_alive_def)
next
  case (fails s p env st t fl)
  from start_daemon_cases(1) [OF fails(4)] show ?case
  proof
    assume "fl = pr_file s"
    then show ?thesis using procs_ok_gone [OF fails(5), of p] by (simp add: procs_ok_def gone_def)
  next
    assume "get_running_pid (se_alive env) (pr_file s) = 0 \<and> fl = Some (pid_text p)"
    then have "pr_fmd s = []" using fails(3,5) procs_ok_idle by auto
    then show ?thesis using fails(5) by (auto simp: procs_ok_def gone_def)
  qed
next
  case (told s p)
  then show ?case using procs_ok_gone [of s p] by (auto simp: signal_term_def procs_ok_def)
next
  case (ends p s)
  then have "pr_fmd s = [p]" by (cases "pr_fmd s") (auto simp: procs_ok_def)
  then show ?case using procs_ok_gone [OF ends(2), of p] by (auto simp: procs_ok_def gone_def)
qed (auto simp: procs_ok_gone, auto simp: procs_ok_def)

definition no_procs :: "string option \<Rightarrow> procs" where
  "no_procs file = \<lparr>pr_live = [], pr_fmd = [], pr_stop = [], pr_file = file\<rparr>"

lemma procs_reach_ok: "proc_step\<^sup>*\<^sup>* (no_procs file) s \<Longrightarrow> procs_ok s"
proof (induction rule: rtranclp_induct)
  case base
  show ?case by (simp add: procs_ok_def no_procs_def)
qed (rule proc_step_ok)


definition demo_env :: "procs \<Rightarrow> start_env" where
  "demo_env s = \<lparr>se_alive = pr_alive s, se_wr = True, se_libesc = True, se_esc_fs = (\<lambda>_. None), se_esc_dir = Some [],
     se_fs = demo_fs, se_dl = demo_dl, se_plugins = Some [], se_priv = None\<rparr>"

lemma demo_start:
  assumes "get_running_pid (pr_alive s) file = 0"
  shows "\<exists>d. start_daemon (demo_env s) p file = Inr (Running d, Some (pid_text p))"
  using assms by (simp add: start_daemon_def demo_env_def set_running_pid_def fmd_load_esc_def esc_main_def esc_parsedir_def fmd_module_load_def)

definition demo_procs :: procs where
  "demo_procs = \<lparr>pr_live = [8, 7], pr_fmd = [7], pr_stop = [], pr_file = Some (pid_text 7)\<rparr>"

lemma demo_procs_reached: "proc_step\<^sup>*\<^sup>* (no_procs (Some (pid_text 3))) demo_procs"
proof -
  let ?s0 = "no_procs (Some (pid_text 3))" and ?s1 = "\<lparr>pr_live = [7], pr_fmd = [], pr_stop = [], pr_file = Some (pid_text 3)\<rparr>"
    and ?s2 = "\<lparr>pr_live = [7], pr_fmd = [7], pr_stop = [], pr_file = Some (pid_text 7)\<rparr>"
  have 1: "proc_step ?s0 ?s1" using proc_step.born [of 7 ?s0] by (simp add: no_procs_def pr_alive_def)
  have "get_running_pid (pr_alive ?s1) (Some (pid_text 3)) = 0" by (simp add: get_running_pid_text pr_alive_def)
  from demo_start [OF this, of 7] obtain d where "start_daemon (demo_env ?s1) 7 (Some (pid_text 3)) = Inr (Running d, Some (pid_text 7))" ..
  then have 2: "proc_step ?s1 ?s2" using proc_step.starts [of ?s1 7 "demo_env ?s1" d "Some (pid_text 7)"]
    by (simp add: pr_alive_def demo_env_def)
  have 3: "proc_step ?s2 demo_procs" using proc_step.born [of 8 ?s2] by (simp add: pr_alive_def demo_procs_def)
  from 1 2 3 show ?thesis by (meson converse_rtranclp_into_rtranclp rtranclp.rtrancl_refl)
qed


text \<open>
  The test and the writing are not one step in the program: two processes that both look at the file before either
  writes it both come up.
\<close>

lemma two_daemons_race:
  assumes "get_running_pid (pr_alive s) (pr_file s) = 0" "p \<noteq> q"
  shows "\<exists>d e. start_daemon (demo_env s) p (pr_file s) = Inr (Running d, Some (pid_text p)) \<and>
    start_daemon (demo_env s) q (pr_file s) = Inr (Running e, Some (pid_text q))"
  using demo_start [OF assms(1)] by blast

section \<open>A start that comes up\<close>

lemma main_options_start: "set opts \<subseteq> {CHR ''d''} \<Longrightarrow> \<exists>debug. main_options opts b = Start debug"
  by (induction opts arbitrary: b) auto

text \<open>
  C7. From the start to the loop. When no other daemon runs, the file can be written, the library of the configuration is there and the
  configuration is read without failure, then with plug-ins of usable names and subscriptions \<^verbatim>\<open>main\<close> reaches its loop: its id is in the
  file, the daemon is in an initial state of the system with the configuration read and fresh agents, all
  timers are at 0, and the modules are exactly the visible shared objects whose configuration can be read.
  Without a directory of plug-ins it runs with no module at all.
\<close>

theorem daemon_comes_up:
  assumes "set opts \<subseteq> {CHR ''d''}" and "get_running_pid (se_alive env) file = 0" "se_wr env" "se_libesc env" "esc_main (se_esc_fs env) (se_esc_dir env) = Inr pesc"
    and "case se_plugins env of None \<Rightarrow> True | Some es \<Rightarrow> list_all (\<lambda>e. length e < 105) es"
    and "\<forall>path. subs_usable (se_fs env path)"
  shows "\<exists>d agents. fms_main env opts pid file = Inr (Running d, Some (pid_text pid), None) \<and>
    d_fmd d = fmd_init pesc agents (se_priv env) \<and> list_all agent_fresh agents \<and>
    sys_reach pesc agents (se_priv env) (d_fmd d) \<and> list_all (\<lambda>t. ticks t = 0) (d_timer d) \<and>
    map mod_name (d_module d) =
      (case se_plugins env of None \<Rightarrow> [] | Some es \<Rightarrow>
        rev (filter (comes_up (se_fs env) (se_dl env))
          (map (\<lambda>e. SO_DIR @ ''/'' @ e) (filter (\<lambda>e. take 1 e \<noteq> ''.'' \<and> is_so e) es))))"
proof -
  obtain debug where o: "main_options opts False = Start debug" using main_options_start [OF assms(1)] by blast
  let ?d0 = "\<lparr>d_fmd = fmd_init pesc [] (se_priv env), d_timer = [], d_module = []\<rparr>"
  have 0: "starting pesc (se_priv env) ?d0" by (simp add: starting_def fmd_init_def)
  have "\<exists>rc d. fmd_module_load (se_fs env) (se_dl env) (se_plugins env) ?d0 = Inr (rc, d) \<and> starting pesc (se_priv env) d \<and>
    map mod_name (d_module d) = (case se_plugins env of None \<Rightarrow> [] | Some es \<Rightarrow>
        rev (filter (comes_up (se_fs env) (se_dl env))
          (map (\<lambda>e. SO_DIR @ ''/'' @ e) (filter (\<lambda>e. take 1 e \<noteq> ''.'' \<and> is_so e) es))))"
  proof (cases "se_plugins env")
    case None
    then show ?thesis using 0 by (simp add: fmd_module_load_def)
  next
    case (Some es)
    then show ?thesis using load_entries_ready [OF _ assms(7) 0, of es "se_dl env"] assms(6) by (auto simp: fmd_module_load_def)
  qed
  then obtain rc d where l: "fmd_module_load (se_fs env) (se_dl env) (se_plugins env) ?d0 = Inr (rc, d)" "starting pesc (se_priv env) d"
    "map mod_name (d_module d) = (case se_plugins env of None \<Rightarrow> [] | Some es \<Rightarrow>
        rev (filter (comes_up (se_fs env) (se_dl env))
          (map (\<lambda>e. SO_DIR @ ''/'' @ e) (filter (\<lambda>e. take 1 e \<noteq> ''.'' \<and> is_so e) es))))" by blast
  then have "fms_main env opts pid file = Inr (Running d, Some (pid_text pid), None)"
    using assms(2-5) o by (simp add: fms_main_def start_daemon_def set_running_pid_def fmd_load_esc_def)
  moreover have "sys_reach pesc (f_list_agent (d_fmd d)) (se_priv env) (d_fmd d)"
    using l(2) sys_reach.init [of pesc "f_list_agent (d_fmd d)" "se_priv env"] by (simp add: starting_def)
  ultimately show ?thesis using l(2,3) unfolding starting_def by blast
qed

theorem daemon_comes_up_witness:
  "\<exists>d agents. fms_main ((demo_env demo_procs)\<lparr>se_plugins := Some demo_dir\<rparr>) ''d'' 9 None = Inr (Running d, Some (pid_text 9), None) \<and>
     sys_reach esc_init agents None (d_fmd d)"
proof -
  let ?e = "(demo_env demo_procs)\<lparr>se_plugins := Some demo_dir\<rparr>"
  have "subs_usable No_entry" "subs_usable (Opened demo_text)" by code_simp+
  then have u: "\<forall>path. subs_usable (se_fs ?e path)" by (simp add: demo_fs_def demo_env_def)
  have "list_all (\<lambda>e. length e < 105) demo_dir" by code_simp
  moreover have "se_wr ?e" "se_libesc ?e" "esc_main (se_esc_fs ?e) (se_esc_dir ?e) = Inr esc_init" "se_priv ?e = None"
    "get_running_pid (se_alive ?e) None = 0" "se_plugins ?e = Some demo_dir"
    by (simp_all add: demo_env_def esc_main_def esc_parsedir_def get_running_pid_def)
  ultimately show ?thesis using daemon_comes_up [of "''d''" ?e None esc_init 9] u by auto
qed

end
