(* ===== verification/Fms_Msg.thy ===== *)
theory Fms_Msg
  imports Fms_Text
begin

text \<open>
  The message library \<^verbatim>\<open>lib/libmsg/fmd_msg.c\<close>: texts about a fault, looked up by its message code or by its class in the
  gettext catalogues. The catalogues, the locale of the environment and the success of allocations are parameters.

  Which memory a string lives in matters here, because the library hands out pointers and frees them: the
  catalogue's, the caller's, or the frame of the function that built it (\<^verbatim>\<open>alloca\<close>).
\<close>

section \<open>The handle\<close>

datatype text_ptr = Catalog string | Given string | Frame string | Heap string

record msg_hdl =
  fmh_version :: int
  fmh_urlbase :: string
  fmh_binding :: string
  fmh_locale :: string
  fmh_template :: string

text \<open>
  \<open>me_cat\<close>: the translation of a key in a domain (\<open>None\<close> is the default domain) under a locale, if there is one.
  \<open>me_setlocale\<close>: whether a locale exists; \<open>me_environ\<close>: the one the environment asks for, \<open>None\<close> when it cannot be set.
\<close>

record msg_env =
  me_cat :: "string \<Rightarrow> string option \<Rightarrow> string \<Rightarrow> string option"
  me_setlocale :: "string \<Rightarrow> bool"
  me_environ :: "string option"
  me_alloc :: "nat \<Rightarrow> bool"
  me_date :: string
  me_format :: "string \<Rightarrow> string list \<Rightarrow> string"

definition FMD_MSG_VERSION :: int where "FMD_MSG_VERSION = 1"
definition FMD_MSG_DOMAIN :: string where "FMD_MSG_DOMAIN = ''FMD''"
definition FMD_MSG_TEMPLATE :: string where "FMD_MSG_TEMPLATE = ''syslog-msgs-message-template''"
definition FMD_MSG_URLBASE :: string where "FMD_MSG_URLBASE = ''http://sun.com/msg/''"
definition FMD_MSG_BINDINGBASE :: string where "FMD_MSG_BINDINGBASE = ''/usr/lib/fms/dict/''"
definition FMD_MSG_MISSING :: string where "FMD_MSG_MISSING = ''-''"

text \<open>\<^verbatim>\<open>dgettext\<close>: the catalogue's text, or the key itself, in the memory the key is in.\<close>

definition dgettext :: "msg_env \<Rightarrow> msg_hdl \<Rightarrow> string option \<Rightarrow> string \<Rightarrow> (string \<Rightarrow> text_ptr) \<Rightarrow> text_ptr" where
  "dgettext env h dict key at_key = (case me_cat env (fmh_locale h) dict key of Some t \<Rightarrow> Catalog t | None \<Rightarrow> at_key key)"

fun text_of :: "text_ptr \<Rightarrow> string" where
  "text_of (Catalog s) = s" | "text_of (Given s) = s" | "text_of (Frame s) = s" | "text_of (Heap s) = s"

text \<open>Reading a string after the function that handed it out has returned.\<close>

fun read_later :: "text_ptr \<Rightarrow> string res" where
  "read_later (Frame s) = Inl Use_after_free" | "read_later p = Inr (text_of p)"

text \<open>Freeing a string: memory that did not come from the heap is not the library's to release.\<close>

fun free_text :: "text_ptr \<Rightarrow> unit res" where
  "free_text (Heap s) = Inr ()" | "free_text p = Inl Use_after_free"

text \<open>\<^verbatim>\<open>fmd_msg_init\<close>. The binding is written before its allocation is tested.\<close>

definition fmd_msg_init :: "msg_env \<Rightarrow> int \<Rightarrow> msg_hdl option res" where
  "fmd_msg_init env version =
     (if version \<noteq> FMD_MSG_VERSION then Inr None
      else if \<not> me_alloc env 0 then Inr None
      else if \<not> me_alloc env 1 then Inr None
      else if \<not> me_alloc env 2 then Inr None
      else if \<not> me_alloc env 3 then Inl Null_deref
      else let h = \<lparr>fmh_version = version, fmh_urlbase = FMD_MSG_URLBASE, fmh_binding = FMD_MSG_BINDINGBASE,
                    fmh_locale = (case me_environ env of Some l \<Rightarrow> l | None \<Rightarrow> ''C''), fmh_template = []\<rparr>
        in Inr (Some (h\<lparr>fmh_template := text_of (dgettext env h (Some FMD_MSG_DOMAIN) FMD_MSG_TEMPLATE Given)\<rparr>)))"

definition fmd_msg_locale_set :: "msg_env \<Rightarrow> msg_hdl \<Rightarrow> string option \<Rightarrow> int \<times> msg_hdl" where
  "fmd_msg_locale_set env h locl =
     (case locl of
        None \<Rightarrow> (-1, h)
      | Some l \<Rightarrow>
          if \<not> me_alloc env 0 then (-1, h)
          else if \<not> me_setlocale env l then (-1, h)
          else let h1 = h\<lparr>fmh_locale := l\<rparr>
            in (0, h1\<lparr>fmh_template := text_of (dgettext env h1 (Some FMD_MSG_DOMAIN) FMD_MSG_TEMPLATE Given)\<rparr>))"

definition fmd_msg_locale_get :: "msg_hdl \<Rightarrow> string" where
  "fmd_msg_locale_get h = fmh_locale h"

definition fmd_msg_url_set :: "msg_env \<Rightarrow> msg_hdl \<Rightarrow> string option \<Rightarrow> int \<times> msg_hdl" where
  "fmd_msg_url_set env h url =
     (case url of None \<Rightarrow> (-1, h) | Some u \<Rightarrow> if \<not> me_alloc env 0 then (-1, h) else (0, h\<lparr>fmh_urlbase := u\<rparr>))"

definition fmd_msg_url_get :: "msg_hdl \<Rightarrow> string" where
  "fmd_msg_url_get h = fmh_urlbase h"

section \<open>Items\<close>

datatype msg_item = ITEM_CLASS | ITEM_TYPE | ITEM_SEVERITY | ITEM_DESC | ITEM_RESPONSE | ITEM_IMPACT | ITEM_ACTION | ITEM_URL

fun fmd_msg_items :: "msg_item \<Rightarrow> string" where
  "fmd_msg_items ITEM_CLASS = ''class''" | "fmd_msg_items ITEM_TYPE = ''type''" | "fmd_msg_items ITEM_SEVERITY = ''severity''" |
  "fmd_msg_items ITEM_DESC = ''description''" | "fmd_msg_items ITEM_RESPONSE = ''response''" | "fmd_msg_items ITEM_IMPACT = ''impact''" |
  "fmd_msg_items ITEM_ACTION = ''action''" | "fmd_msg_items ITEM_URL = ''url''"

definition all_items :: "msg_item list" where
  "all_items = [ITEM_CLASS, ITEM_TYPE, ITEM_SEVERITY, ITEM_DESC, ITEM_RESPONSE, ITEM_IMPACT, ITEM_ACTION, ITEM_URL]"

text \<open>The parts of a class and the domain each stands for.\<close>

definition fmd_msg_etype_items :: "(string \<times> string) list" where
  "fmd_msg_etype_items = [(''cpu'', ''GMCA''), (''.io.scsi.disk.'', ''DISK''), (''.io.ata.disk.'', ''DISK''), (''.io.sata.disk.'', ''DISK''),
     (''.ipmi.'', ''IPMI''), (''.io.mpio.'', ''MPIO''), (''.io.network.'', ''NETWORK''), (''.io.pcie.'', ''PCIE''),
     (''.service.'', ''SERVICE''), (''.topo.'', ''TOPO'')]"

definition fmd_msg_etype_lookup :: "string \<Rightarrow> string option" where
  "fmd_msg_etype_lookup eclass = map_option snd (find (\<lambda>(part, dict). strstr eclass part \<noteq> None) fmd_msg_etype_items)"

definition fmd_msg_getitem_locked :: "msg_env \<Rightarrow> msg_hdl \<Rightarrow> string option \<Rightarrow> string \<Rightarrow> msg_item \<Rightarrow> text_ptr" where
  "fmd_msg_getitem_locked env h dict code item =
     (if item = ITEM_URL then Frame (fmh_urlbase h @ code)
      else dgettext env h dict (code @ ''.'' @ fmd_msg_items item) Frame)"

text \<open>The items that are put into a message are freed although none of them is on the heap.\<close>

fun free_texts :: "text_ptr list \<Rightarrow> unit res" where
  "free_texts [] = Inr ()"
| "free_texts (p # ps) = rbind (free_text p) (\<lambda>_. free_texts ps)"

definition fmd_msg_gettext_locked :: "msg_env \<Rightarrow> msg_hdl \<Rightarrow> string option \<Rightarrow> string \<Rightarrow> text_ptr option res" where
  "fmd_msg_gettext_locked env h dict code =
     (let items = map (fmd_msg_getitem_locked env h dict code) all_items;
          msg = me_format env (fmh_template h) ([me_date env, FMD_MSG_MISSING, code] @ map text_of (take 7 items));
          buf = (if me_alloc env 0 then Some (Heap msg) else None)
      in rbind (free_texts items) (\<lambda>_. Inr buf))"

text \<open>The domain of a message code: what precedes the first dash, which must not be its first character.\<close>

definition code_dict :: "string \<Rightarrow> string option" where
  "code_dict code = (case strchr code CHR ''-'' of None \<Rightarrow> None | Some p \<Rightarrow> if p = code then None else Some (take (length code - length p) code))"

text \<open>A null pointer as the result is \<open>None\<close>.\<close>

definition fmd_msg_getitem :: "msg_env \<Rightarrow> msg_hdl \<Rightarrow> string option \<Rightarrow> string option \<Rightarrow> msg_item \<Rightarrow> text_ptr option" where
  "fmd_msg_getitem env h eclass code item =
     (case code of
        Some c \<Rightarrow> (case code_dict c of None \<Rightarrow> None | Some d \<Rightarrow> Some (fmd_msg_getitem_locked env h (Some d) c item))
      | None \<Rightarrow>
          (case eclass of
             None \<Rightarrow> None
           | Some e \<Rightarrow>
               let dict = fmd_msg_etype_lookup e; ecode = text_of (dgettext env h dict e Given)
               in Some (fmd_msg_getitem_locked env h dict ecode item)))"

definition fmd_msg_getid_evt :: "msg_env \<Rightarrow> msg_hdl \<Rightarrow> string \<Rightarrow> text_ptr" where
  "fmd_msg_getid_evt env h eclass = dgettext env h (fmd_msg_etype_lookup eclass) eclass Given"

text \<open>An item number; 8 and above are refused.\<close>

definition item_no :: "nat \<Rightarrow> msg_item option" where
  "item_no i = (if i < length all_items then Some (all_items ! i) else None)"

definition fmd_msg_getitem_evt :: "msg_env \<Rightarrow> msg_hdl \<Rightarrow> string option \<Rightarrow> nat \<Rightarrow> text_ptr option" where
  "fmd_msg_getitem_evt env h eclass item = (case item_no item of None \<Rightarrow> None | Some i \<Rightarrow> fmd_msg_getitem env h eclass None i)"

definition fmd_msg_getitem_id :: "msg_env \<Rightarrow> msg_hdl \<Rightarrow> string option \<Rightarrow> nat \<Rightarrow> text_ptr option" where
  "fmd_msg_getitem_id env h code item = (case item_no item of None \<Rightarrow> None | Some i \<Rightarrow> fmd_msg_getitem env h None code i)"

text \<open>\<^verbatim>\<open>fmd_msg_gettext\<close> takes the length of the code before it tests it.\<close>

definition fmd_msg_gettext :: "msg_env \<Rightarrow> msg_hdl \<Rightarrow> string option \<Rightarrow> string option \<Rightarrow> text_ptr option res" where
  "fmd_msg_gettext env h eclass code =
     (case code of
        None \<Rightarrow> Inl Null_deref
      | Some c \<Rightarrow>
          (case code_dict c of
             None \<Rightarrow> Inr None
           | Some d \<Rightarrow>
               (case me_cat env (fmh_locale h) (Some d) (c @ ''.'' @ fmd_msg_items ITEM_CLASS) of
                  None \<Rightarrow> Inr None
                | Some t \<Rightarrow> fmd_msg_gettext_locked env h (Some d) c)))"

definition fmd_msg_gettext_evt :: "msg_env \<Rightarrow> msg_hdl \<Rightarrow> string \<Rightarrow> text_ptr option res" where
  "fmd_msg_gettext_evt env h eclass = fmd_msg_gettext env h (Some eclass) None"

definition fmd_msg_gettext_id :: "msg_env \<Rightarrow> msg_hdl \<Rightarrow> string \<Rightarrow> text_ptr option res" where
  "fmd_msg_gettext_id env h code = fmd_msg_gettext env h None (Some code)"

section \<open>What a caller gets\<close>

lemma code_dict_dash:
  assumes "d \<noteq> []" "CHR ''-'' \<notin> set d"
  shows "code_dict (d @ CHR ''-'' # r) = Some d"
proof -
  have "strchr (d @ CHR ''-'' # r) CHR ''-'' = Some (CHR ''-'' # r)" using assms(2) by (induction d) auto
  then show ?thesis using assms(1) by (simp add: code_dict_def)
qed

text \<open>An item that is in the catalogue is handed out and can be read; one that is not, and the URL, cannot.\<close>

lemma getitem_id_exact:
  assumes "d \<noteq> []" "CHR ''-'' \<notin> set d" "i < 8"
  shows "\<exists>p. fmd_msg_getitem_id env h (Some (d @ CHR ''-'' # r)) i = Some p \<and>
    read_later p =
      (if all_items ! i = ITEM_URL then Inl Use_after_free
       else case me_cat env (fmh_locale h) (Some d) (d @ ''-'' @ r @ ''.'' @ fmd_msg_items (all_items ! i)) of
         Some t \<Rightarrow> Inr t | None \<Rightarrow> Inl Use_after_free)"
  using assms(3) code_dict_dash [OF assms(1,2), of r]
  by (auto simp: fmd_msg_getitem_id_def item_no_def fmd_msg_getitem_def fmd_msg_getitem_locked_def dgettext_def all_items_def split: option.split)

text \<open>By class and by code: the same item, when the catalogue of the class's domain gives a code of this domain.\<close>

lemma getitem_evt_eq_id:
  assumes "fmd_msg_etype_lookup e = Some d" "d \<noteq> []" "CHR ''-'' \<notin> set d"
    and "me_cat env (fmh_locale h) (Some d) e = Some (d @ CHR ''-'' # r)"
  shows "fmd_msg_getitem_evt env h (Some e) i = fmd_msg_getitem_id env h (Some (d @ CHR ''-'' # r)) i"
  using assms(1,4) code_dict_dash [OF assms(2,3), of r]
  by (auto simp: fmd_msg_getitem_evt_def fmd_msg_getitem_id_def fmd_msg_getitem_def dgettext_def split: option.split)

lemma etype_no_dash: "fmd_msg_etype_lookup e = Some d \<Longrightarrow> d \<noteq> [] \<and> CHR ''-'' \<notin> set d"
  by (auto simp: fmd_msg_etype_lookup_def fmd_msg_etype_items_def split: if_splits)

text \<open>A whole message is never handed out: the program fails, or there is no message.\<close>

lemma free_item_fails: "free_text (fmd_msg_getitem_locked env h dict code item) = Inl Use_after_free"
  by (simp add: fmd_msg_getitem_locked_def dgettext_def split: option.split)

lemma no_whole_message:
  "fmd_msg_gettext_evt env h e = Inl Null_deref"
  "fmd_msg_gettext_id env h c \<in> {Inr None, Inl Use_after_free}"
  by (auto simp: fmd_msg_gettext_evt_def fmd_msg_gettext_id_def fmd_msg_gettext_def fmd_msg_gettext_locked_def all_items_def
      free_item_fails split: option.split)

text \<open>Settings are read back.\<close>

lemma locale_set_get:
  "fmd_msg_locale_set env h (Some l) = (r, h') \<Longrightarrow> fmd_msg_locale_get h' = (if r = 0 then l else fmd_msg_locale_get h) \<and>
     (r = 0 \<longleftrightarrow> me_alloc env 0 \<and> me_setlocale env l)"
  by (auto simp: fmd_msg_locale_set_def fmd_msg_locale_get_def Let_def split: if_splits)

lemma url_set_get:
  "fmd_msg_url_set env h (Some u) = (r, h') \<Longrightarrow> fmd_msg_url_get h' = (if r = 0 then u else fmd_msg_url_get h)"
  by (auto simp: fmd_msg_url_set_def fmd_msg_url_get_def split: if_splits)

end
