(* ===== verification/Fms_CpuStart.thy ===== *)
theory Fms_CpuStart
  imports Fms_Mce Fms_Dmi Fms_Config Fms_Text
begin

unbundle bit_operations_syntax

text \<open>
  The start and the end of the cpu and memory event source: \<^verbatim>\<open>is_cpu_supported\<close>, \<^verbatim>\<open>cpumem_init\<close> and \<^verbatim>\<open>cpumem_release\<close> of
  \<^verbatim>\<open>evtsrc/cpumem/cpumem_evtsrc.c\<close>, \<^verbatim>\<open>opendmi\<close>, \<^verbatim>\<open>checkdmi\<close> and \<^verbatim>\<open>closedmi\<close> of \<^verbatim>\<open>dmi.c\<close>. Files are texts, \<open>None\<close> when they cannot be
  opened; \<^verbatim>\<open>mmap\<close> of \<^verbatim>\<open>/dev/mem\<close> is a function from length and offset to the mapped bytes. Lengths and offsets are words,
  as in the program.
\<close>

section \<open>The entry point of EFI firmware\<close>

text \<open>\<^verbatim>\<open>strtoul(s, NULL, 0)\<close>: the base is that of the prefix; too large a number gives the greatest.\<close>

fun base_val :: "int \<Rightarrow> int \<Rightarrow> string \<Rightarrow> int" where
  "base_val b acc [] = acc"
| "base_val b acc (c # cs') =
     (case hex_digit c of None \<Rightarrow> acc | Some d \<Rightarrow> if d < b then base_val b (b * acc + d) cs' else acc)"

definition strtoul0 :: "string \<Rightarrow> 64 word" where
  "strtoul0 s =
     (let t = dropWhile isspace s;
          neg = (t \<noteq> [] \<and> hd t = CHR ''-'');
          u = (if t \<noteq> [] \<and> hd t \<in> {CHR ''-'', CHR ''+''} then tl t else t);
          v = (if take 2 u = ''0x'' \<or> take 2 u = ''0X'' then base_val 16 0 (drop 2 u)
               else if take 1 u = ''0'' then base_val 8 0 u
               else base_val 10 0 u)
      in if 2 ^ 64 \<le> v then - 1 else if neg then word_of_int (- v) else word_of_int v)"

definition EFI_SYSTAB :: string where "EFI_SYSTAB = ''/sys/firmware/efi/systab''"
definition EFI_SYSTAB_PROC :: string where "EFI_SYSTAB_PROC = ''/proc/efi/systab''"

text \<open>The loop over the lines: it ends at a line without \<open>=\<close>.\<close>

fun efi_lines :: "string list \<Rightarrow> 64 word option" where
  "efi_lines [] = None"
| "efi_lines (linebuf # ls) =
     (case strchr linebuf (CHR ''='') of
        None \<Rightarrow> None
      | Some addrp \<Rightarrow>
          if takeWhile (\<lambda>c. c \<noteq> CHR ''='') linebuf = ''SMBIOS'' then Some (strtoul0 (tl addrp)) else efi_lines ls)"

text \<open>\<open>None\<close> is the result 0.\<close>

definition get_efi_base_addr :: "(string \<Rightarrow> string option) \<Rightarrow> 64 word option" where
  "get_efi_base_addr fs =
     (case (case fs EFI_SYSTAB of Some t \<Rightarrow> Some t | None \<Rightarrow> fs EFI_SYSTAB_PROC) of
        None \<Rightarrow> None
      | Some t \<Rightarrow>
          (case efi_lines (fgets_lines 63 t) of
             None \<Rightarrow> None
           | Some address \<Rightarrow> if address = 0 then None else Some address))"

text \<open>\<open>ex\<close>: the files for which \<^verbatim>\<open>access\<close> succeeds.\<close>

definition is_efi_based_system :: "(string \<Rightarrow> bool) \<Rightarrow> bool" where
  "is_efi_based_system ex \<longleftrightarrow> ex EFI_SYSTAB \<or> ex EFI_SYSTAB_PROC"

section \<open>Mapping the tables\<close>

definition round_down :: "'a::len word \<Rightarrow> 'a word \<Rightarrow> 'a word" where
  "round_down x y = x AND NOT (y - 1)"

definition round_up :: "'a::len word \<Rightarrow> 'a word \<Rightarrow> 'a word" where
  "round_up x y = (x + y - 1) AND NOT (y - 1)"

text \<open>
  The static variables of \<^verbatim>\<open>dmi.c\<close>. \<open>Failed_map\<close> is the pointer \<open>-1\<close> that a failed \<^verbatim>\<open>mmap\<close> leaves in \<^verbatim>\<open>entries\<close>; \<open>Mapped\<close> holds the
  bytes from \<^verbatim>\<open>entries\<close> to the end of the mapping.
\<close>

datatype dmi_map = Unmapped | Failed_map | Mapped memory

record dmi_state =
  di_entries :: dmi_map
  di_numentries :: nat
  di_length :: nat
  di_tables :: "dmi_tables option"
  do_dmi :: bool

record dmi_env =
  de_exists :: "string \<Rightarrow> bool"
  de_read :: "string \<Rightarrow> string option"
  de_devmem :: bool
  de_mmap :: "64 word \<Rightarrow> 64 word \<Rightarrow> memory option"
  de_pagesize :: "32 word"

type_synonym range_sort =
  "(nat \<times> (nat \<times> nat) \<Rightarrow> nat \<times> (nat \<times> nat) \<Rightarrow> int) \<Rightarrow> (nat \<times> (nat \<times> nat)) list \<Rightarrow> (nat \<times> (nat \<times> nat)) list"

definition anchor_fields :: "memory \<Rightarrow> nat \<Rightarrow> (nat \<times> nat \<times> nat) res" where
  "anchor_fields mem a =
     rbind (rd_le mem (a + 24) 4) (\<lambda>table.
     rbind (rd_le mem (a + 22) 2) (\<lambda>len.
     rbind (rd_le mem (a + 28) 2) (\<lambda>num. Inr (table, len, num))))"

text \<open>From the label \<^verbatim>\<open>fill_entries\<close> on.\<close>

definition fill_entries :: "range_sort \<Rightarrow> dmi_env \<Rightarrow> memory \<Rightarrow> nat \<Rightarrow> dmi_state \<Rightarrow> (int \<times> dmi_state) res" where
  "fill_entries qs env abase a s =
     rbind (anchor_fields abase a) (\<lambda>(table, len, num).
       let ps = de_pagesize env;
           tab = (of_nat table :: 32 word);
           corr = tab - round_down tab ps;
           entrieslen = round_up (tab + of_nat len) ps - round_down tab ps
       in case de_mmap env (scast entrieslen) (ucast (round_down tab ps)) of
            None \<Rightarrow> Inr (-1, s\<lparr>di_entries := Failed_map\<rparr>)
          | Some m \<Rightarrow>
              let entries = drop (unat corr) m in
              rbind (collect_dmi_dimms qs entries len num) (\<lambda>t.
                Inr (0, s\<lparr>di_entries := Mapped entries, di_numentries := num, di_length := len, di_tables := Some t\<rparr>)))"

definition opendmi_legacy :: "range_sort \<Rightarrow> dmi_env \<Rightarrow> dmi_state \<Rightarrow> (int \<times> dmi_state) res" where
  "opendmi_legacy qs env s =
     (case de_mmap env 0xFFFF 0xF0000 of
        None \<Rightarrow> Inr (-1, s)
      | Some abase \<Rightarrow>
          rbind (find_anchor abase 0 0x10000) (\<lambda>p.
            case p of None \<Rightarrow> Inr (-1, s) | Some a \<Rightarrow> fill_entries qs env abase a s))"

definition opendmi :: "range_sort \<Rightarrow> dmi_env \<Rightarrow> dmi_state \<Rightarrow> (int \<times> dmi_state) res" where
  "opendmi qs env s =
     (if di_entries s \<noteq> Unmapped then Inr (0, s)
      else if \<not> de_devmem env then Inr (-1, s)
      else if is_efi_based_system (de_exists env) then
        (case get_efi_base_addr (de_read env) of
           None \<Rightarrow> Inr (-1, s)
         | Some entry_point_addr \<Rightarrow>
             let ps = scast (de_pagesize env);
                 addr_start = round_down entry_point_addr ps;
                 addr_end = round_up (entry_point_addr + 0x20) ps
             in case de_mmap env (addr_end - addr_start) addr_start of
                  None \<Rightarrow> opendmi_legacy qs env s
                | Some abase \<Rightarrow> fill_entries qs env abase (unat (entry_point_addr - addr_start)) s)
      else opendmi_legacy qs env s)"

definition closedmi :: "dmi_state \<Rightarrow> dmi_state" where
  "closedmi s = (if di_entries s = Unmapped then s else s\<lparr>di_entries := Unmapped, di_tables := None\<rparr>)"

text \<open>\<^verbatim>\<open>dmi_sanity_check\<close> and the lookup follow the pointers to the tables.\<close>

definition with_tables :: "dmi_state \<Rightarrow> (memory \<Rightarrow> dmi_tables \<Rightarrow> 'a res) \<Rightarrow> 'a res" where
  "with_tables s f =
     rbind (deref (di_tables s)) (\<lambda>t. case di_entries s of Mapped m \<Rightarrow> f m t | _ \<Rightarrow> Inl Oob_access)"

definition check_dmi :: "range_sort \<Rightarrow> dmi_env \<Rightarrow> dmi_state \<Rightarrow> dmi_state res" where
  "check_dmi qs env s =
     rbind (opendmi qs env s) (\<lambda>(rc, s1).
       if rc < 0 then Inr (s1\<lparr>do_dmi := False\<rparr>)
       else rbind (with_tables s1 dmi_sanity_check) (\<lambda>ok. Inr (s1\<lparr>do_dmi := ok\<rparr>)))"

text \<open>\<^verbatim>\<open>resolveaddr\<close>: the memory device of an address, \<open>None\<close> when the record keeps its null pointer.\<close>

definition resolveaddr :: "dmi_state \<Rightarrow> nat \<Rightarrow> nat option res" where
  "resolveaddr s addr =
     (if addr \<noteq> 0 \<and> do_dmi s then with_tables s (\<lambda>m t. dmi_decodeaddr m t addr) else Inr None)"

section \<open>The type of the processor\<close>

text \<open>\<^verbatim>\<open>getdelim\<close> up to the end of the file: the lines with their newline, of any length.\<close>

fun getdelim_lines :: "string \<Rightarrow> string list" where
  "getdelim_lines [] = []"
| "getdelim_lines (c # s) =
     (if c = CHR 0x0A then [c] # getdelim_lines s
      else case getdelim_lines s of [] \<Rightarrow> [[c]] | l # ls \<Rightarrow> (c # l) # ls)"

text \<open>
  What a line of \<^verbatim>\<open>/proc/cpuinfo\<close> says. \<open>lf\<close> is \<open>%lf\<close>: the number at the start of a text, if there is one. The seventh character of a line
  that starts with \<^verbatim>\<open>flags\<close> lies behind the terminator when the line has only five.
\<close>

record cpuinfo =
  ci_vendor :: string
  ci_family :: int
  ci_model :: int
  ci_seen :: "nat set"

definition seen_all :: "nat set" where "seen_all = {1, 2, 4, 8, 16}"

definition scan_vendor :: "string \<Rightarrow> string option" where
  "scan_vendor line =
     (case scan_lit ''vendor_id : '' line of
        None \<Rightarrow> None
      | Some r \<Rightarrow> let v = take 63 (takeWhile (\<lambda>c. c \<noteq> CHR 0x0A) r) in if v = [] then None else Some v)"

definition scan_num :: "string \<Rightarrow> string \<Rightarrow> int option" where
  "scan_num f line = (case scan_lit f line of None \<Rightarrow> None | Some r \<Rightarrow> scan_d r)"

definition flags_line :: "string \<Rightarrow> bool res" where
  "flags_line line =
     (if \<not> strncmp_eq line ''flags'' 5 then Inr False
      else if length line < 6 then Inl Oob_access
      else Inr (isspace (char_at line 6)))"

definition cpuinfo_line :: "(string \<Rightarrow> 'd option) \<Rightarrow> string \<Rightarrow> cpuinfo \<Rightarrow> cpuinfo res" where
  "cpuinfo_line lf line i =
     (let i1 = (case scan_vendor line of None \<Rightarrow> i | Some v \<Rightarrow> i\<lparr>ci_vendor := v, ci_seen := insert 1 (ci_seen i)\<rparr>);
          i2 = (case scan_num ''cpu family : '' line of None \<Rightarrow> i1 | Some n \<Rightarrow> i1\<lparr>ci_family := n, ci_seen := insert 2 (ci_seen i1)\<rparr>);
          i3 = (case scan_num ''model : '' line of None \<Rightarrow> i2 | Some n \<Rightarrow> i2\<lparr>ci_model := n, ci_seen := insert 4 (ci_seen i2)\<rparr>);
          i4 = (case scan_lit ''cpu MHz : '' line of
                  None \<Rightarrow> i3
                | Some r \<Rightarrow> if lf r = None then i3 else i3\<lparr>ci_seen := insert 8 (ci_seen i3)\<rparr>)
      in rbind (flags_line line) (\<lambda>f. Inr (if f then i4\<lparr>ci_seen := insert 16 (ci_seen i4)\<rparr> else i4)))"

fun cpuinfo_loop :: "(string \<Rightarrow> 'd option) \<Rightarrow> string list \<Rightarrow> cpuinfo \<Rightarrow> cpuinfo res" where
  "cpuinfo_loop lf [] i = Inr i"
| "cpuinfo_loop lf (line # ls) i =
     (if ci_seen i = seen_all then Inr i else rbind (cpuinfo_line lf line i) (cpuinfo_loop lf ls))"

definition cpuinfo_none :: cpuinfo where
  "cpuinfo_none = \<lparr>ci_vendor = [], ci_family = 0, ci_model = 0, ci_seen = {}\<rparr>"

text \<open>
  \<^verbatim>\<open>is_cpu_supported\<close>: result, \<^verbatim>\<open>checked\<close> and \<^verbatim>\<open>cputype\<close>. Negative families and models fall in the same branches of
  \<^verbatim>\<open>select_intel_cputype\<close> as 0.
\<close>

definition is_cpu_supported :: "(string \<Rightarrow> 'd option) \<Rightarrow> string option \<Rightarrow> bool \<times> cputype \<Rightarrow> (bool \<times> bool \<times> cputype) res" where
  "is_cpu_supported lf file = (\<lambda>(checked, cputype).
     if checked then Inr (True, True, cputype)
     else case file of
        None \<Rightarrow> Inr (True, True, cputype)
      | Some t \<Rightarrow>
          rbind (cpuinfo_loop lf (getdelim_lines t) cpuinfo_none) (\<lambda>i.
            if ci_seen i = seen_all then
              if ci_vendor i = ''AuthenticAMD'' then
                if ci_family i = 15 then Inr (True, True, CPU_K8)
                else if ci_family i \<ge> 16 then Inr (False, True, cputype)
                else Inr (True, True, cputype)
              else if ci_vendor i = ''GenuineIntel'' then
                Inr (True, True, select_intel_cputype (nat (ci_family i)) (nat (ci_model i)))
              else Inr (True, True, cputype)
            else Inr (True, True, cputype)))"

section \<open>The plug-in\<close>

text \<open>
  The machine check device: whether it opens and what the two \<^verbatim>\<open>ioctl\<close> calls return. \<open>Closed_fd\<close> is a descriptor that was
  closed and is still in \<^verbatim>\<open>mfd\<close>.
\<close>

datatype fd_state = No_fd | Open_fd | Closed_fd

record mce_device =
  me_open :: bool
  me_record_len :: "nat option"
  me_log_len :: "nat option"

record cpumem_state =
  cm_checked :: bool
  cm_type :: cputype
  cm_dmi :: dmi_state
  cm_mfd :: fd_state
  cm_recordlen :: nat
  cm_loglen :: nat

definition mcedata_init :: "mce_device \<Rightarrow> cpumem_state \<Rightarrow> int \<times> cpumem_state" where
  "mcedata_init dev s =
     (if \<not> me_open dev then (-1, s\<lparr>cm_mfd := No_fd\<rparr>)
      else case me_record_len dev of
        None \<Rightarrow> (-1, s\<lparr>cm_mfd := Closed_fd\<rparr>)
      | Some r \<Rightarrow>
          (case me_log_len dev of
             None \<Rightarrow> (-1, s\<lparr>cm_mfd := Closed_fd, cm_recordlen := r\<rparr>)
           | Some l \<Rightarrow> (0, s\<lparr>cm_mfd := Open_fd, cm_recordlen := r, cm_loglen := l\<rparr>)))"

definition cpumem_init ::
  "range_sort \<Rightarrow> (string \<Rightarrow> 'd option) \<Rightarrow> string option \<Rightarrow> dmi_env \<Rightarrow> mce_device \<Rightarrow> cpumem_state \<Rightarrow> (int \<times> cpumem_state) res" where
  "cpumem_init qs lf file env dev s =
     rbind (is_cpu_supported lf file (cm_checked s, cm_type s)) (\<lambda>(ok, checked, ty).
       let s1 = s\<lparr>cm_checked := checked, cm_type := ty\<rparr> in
       if \<not> ok then Inr (-1, s1)
       else rbind (check_dmi qs env (cm_dmi s1)) (\<lambda>d.
         let d1 = (if \<not> do_dmi d then closedmi d else d);
             (rc, s2) = mcedata_init dev (s1\<lparr>cm_dmi := d1\<rparr>)
         in Inr (if rc \<noteq> 0 then -1 else 0, s2)))"

definition cpumem_release :: "cpumem_state \<Rightarrow> cpumem_state" where
  "cpumem_release s =
     (let s1 = (if do_dmi (cm_dmi s) then s\<lparr>cm_dmi := closedmi (cm_dmi s)\<rparr> else s)
      in if cm_mfd s1 \<noteq> No_fd then s1\<lparr>cm_mfd := Closed_fd\<rparr> else s1)"

text \<open>\<^verbatim>\<open>fmd_module_init\<close> of the plug-in; \<open>rc\<close> is what \<^verbatim>\<open>cpumem_init\<close> returned.\<close>

definition cpumem_module_init :: "int \<Rightarrow> (string \<Rightarrow> fopen_res) \<Rightarrow> string \<Rightarrow> fmd_timer list \<Rightarrow> (fmd_module option \<times> fmd_timer list) res" where
  "cpumem_module_init rc fs path timers = (if rc \<noteq> 0 then Inr (None, timers) else evtsrc_init fs path timers)"

text \<open>For the loader it is a plug-in that cannot be loaded or an event source like any other.\<close>

lemma cpumem_module_kind:
  "fmd_module_init fs (if rc \<noteq> 0 then So_bad else So_evtsrc) path d =
   rbind (cpumem_module_init rc fs path (d_timer d)) (\<lambda>(m, ts). Inr (m, d\<lparr>d_timer := ts\<rparr>))"
  by (simp add: fmd_module_init_def cpumem_module_init_def)

section \<open>Rounding to pages\<close>

lemma unat_of_nat_small: "n < 2 ^ LENGTH('a) \<Longrightarrow> unat (of_nat n :: 'a::len word) = n"
  by (simp add: unsigned_of_nat take_bit_nat_eq_self)

lemma and_not_mask_unat: "unat (x AND NOT (mask n) :: 'a::len word) = unat x - unat x mod 2 ^ n"
proof -
  have "(x AND mask n) + (x AND NOT (mask n)) = (x AND mask n) OR (x AND NOT (mask n))"
    by (rule disjunctive_add_eq_or) (simp add: bit_eq_iff bit_simps)
  also have "\<dots> = x" by (auto simp: bit_eq_iff bit_simps)
  finally have "x AND NOT (mask n) = x - take_bit n x" by (simp add: take_bit_eq_mask eq_diff_eq add.commute)
  moreover have "take_bit n x \<le> x" by (simp add: word_le_nat_alt unsigned_take_bit_eq)
  moreover have "unat (take_bit n x) = unat x mod 2 ^ n" unfolding unsigned_take_bit_eq by (simp add: take_bit_eq_mod)
  ultimately show ?thesis by (simp add: unat_sub)
qed

lemma page_mask: "4096 - 1 = (mask 12 :: 'a::len word)"
  by (simp add: mask_eq_exp_minus_1)

lemma unat_round_down: "unat (round_down x 4096 :: 'a::len word) = unat x - unat x mod 4096"
  unfolding round_down_def page_mask using and_not_mask_unat [of x 12] by simp

definition pages :: "nat \<Rightarrow> nat" where
  "pages n = (n + 4095) div 4096 * 4096"

lemma pages_mod: "pages n = (n + 4095) - (n + 4095) mod 4096"
  by (simp add: pages_def minus_mod_eq_div_mult)

lemma unat_round_up:
  assumes "unat x + 4095 < 2 ^ LENGTH('a)" "12 < LENGTH('a)"
  shows "unat (round_up x 4096 :: 'a::len word) = pages (unat x)"
proof -
  have "(4095 :: nat) < 2 ^ LENGTH('a)" using assms(1) by simp
  then have "unat (x + 4095) = unat x + 4095"
    using assms(1) by (simp add: unat_word_ariths unsigned_numeral take_bit_nat_eq_self)
  moreover have "round_up x 4096 = (x + 4095) AND NOT (mask 12)"
    unfolding round_up_def page_mask by (simp add: add.commute)
  ultimately show ?thesis
    using and_not_mask_unat [of "x + 4095" 12] by (simp add: pages_mod)
qed

section \<open>What the mapped tables are\<close>

text \<open>
  \<^verbatim>\<open>mmap\<close> of \<^verbatim>\<open>/dev/mem\<close> on a machine whose physical memory holds the bytes \<open>phys\<close>: whole pages of 4096 bytes from an offset at the
  start of a page.
\<close>

definition phys_mmap :: "(nat \<Rightarrow> 8 word) \<Rightarrow> 64 word \<Rightarrow> 64 word \<Rightarrow> memory option" where
  "phys_mmap phys len off =
     (if len = 0 \<or> unat off mod 4096 \<noteq> 0 then None
      else Some (map phys [unat off ..< unat off + pages (unat len)]))"

fun phys_le :: "(nat \<Rightarrow> 8 word) \<Rightarrow> nat \<Rightarrow> nat \<Rightarrow> nat" where
  "phys_le phys a 0 = 0"
| "phys_le phys a (Suc n) = unat (phys a) + 256 * phys_le phys (a + 1) n"

lemma phys_le_numeral: "phys_le phys a (numeral n) = unat (phys a) + 256 * phys_le phys (a + 1) (pred_numeral n)"
  by (simp add: numeral_eq_Suc)

lemma rd_phys: "b + i < e \<Longrightarrow> rd (map phys [b..<e]) i = Inr (unat (phys (b + i)))"
  by (simp add: rd_def)

lemma rd_le_phys: "b + i + n \<le> e \<Longrightarrow> rd_le (map phys [b..<e]) i n = Inr (phys_le phys (b + i) n)"
proof (induction n arbitrary: i)
  case (Suc n)
  then show ?case using Suc.IH [of "i + 1"] by (simp add: rd_phys)
qed simp

lemma phys_le_bound: "phys_le phys a n < 256 ^ n"
proof (induction n arbitrary: a)
  case (Suc n)
  have "unat (phys a) < 256" using unsigned_less [of "phys a", where ?'a = nat] by simp
  then show ?case using Suc.IH [of "a + 1"] by simp
qed simp

lemma anchor_fields_phys:
  "b + i + 32 \<le> e \<Longrightarrow> anchor_fields (map phys [b..<e]) i =
     Inr (phys_le phys (b + i + 24) 4, phys_le phys (b + i + 22) 2, phys_le phys (b + i + 28) 2)"
  by (simp add: anchor_fields_def rd_le_phys add.assoc)

lemma pages_ge: "n \<le> pages n" "pages n mod 4096 = 0" "pages n < n + 4096"
  using div_mult_mod_eq [of "n + 4095" 4096] mod_less_divisor [of 4096 "n + 4095"]
  by (auto simp: pages_def)

lemma pages_aligned: "a mod 4096 = 0 \<Longrightarrow> pages (a + n) = a + pages n"
proof -
  assume "a mod 4096 = 0"
  then obtain k where "a = 4096 * k" by (auto simp: mod_eq_0_iff_dvd)
  then show ?thesis by (simp add: pages_def add.assoc)
qed

lemma pages_pages: "pages (pages n) = pages n"
  using pages_aligned [of "pages n" 0] pages_ge(2) [of n] by (simp add: pages_def)

definition read_state :: "dmi_state \<Rightarrow> memory \<Rightarrow> nat \<Rightarrow> nat \<Rightarrow> dmi_tables \<Rightarrow> dmi_state" where
  "read_state s mem len num t = s\<lparr>di_entries := Mapped mem, di_numentries := num, di_length := len, di_tables := Some t\<rparr>"

text \<open>The memory the tables are read from: from the table to the end of its last page.\<close>

definition table_mem :: "(nat \<Rightarrow> 8 word) \<Rightarrow> nat \<Rightarrow> nat \<Rightarrow> memory" where
  "table_mem phys table len = map phys [table ..< pages (table + len)]"

lemma fill_entries_phys:
  assumes "de_mmap env = phys_mmap phys" "de_pagesize env = 4096"
    and "anchor_fields abase a = Inr (table, len, num)" "0 < len" "len < 65536" "table + len + 4096 \<le> 2 ^ 32"
  shows "fill_entries qs env abase a s =
    rbind (collect_dmi_dimms qs (table_mem phys table len) len num) (\<lambda>t. Inr (0, read_state s (table_mem phys table len) len num t))"
proof -
  let ?tab = "of_nat table :: 32 word" and ?n = "of_nat len :: 32 word"
  define lo where "lo = table - table mod 4096"
  have t: "unat ?tab = table" using assms(6) by (simp add: unat_of_nat_small)
  have tn: "unat (?tab + ?n) = table + len"
    using assms(6) by (simp add: of_nat_add [symmetric] unat_of_nat_small del: of_nat_add)
  have rd: "unat (round_down ?tab 4096) = lo" using unat_round_down [of ?tab] t by (simp add: lo_def)
  have ru: "unat (round_up (?tab + ?n) 4096) = pages (table + len)"
    using unat_round_up [of "?tab + ?n"] tn assms(6) by simp
  have lo: "lo mod 4096 = 0" "lo \<le> table" "table < lo + 4096"
    using mod_less_divisor [of 4096 table] by (auto simp: lo_def minus_mod_eq_mult_div)
  have p: "lo + pages (table + len - lo) = pages (table + len)"
    using pages_aligned [OF lo(1), of "table + len - lo"] lo(2) by simp
  have el: "unat (round_up (?tab + ?n) 4096 - round_down ?tab 4096) = pages (table + len) - lo"
    using rd ru p by (simp add: unat_sub word_le_nat_alt)
  define l where "l = pages (table + len) - lo"
  have l: "l = pages (table + len - lo)" "0 < l" "l < 2 ^ 31"
    using p pages_ge [of "table + len - lo"] lo assms(4,5) by (auto simp: l_def)
  have lw: "round_up (?tab + ?n) 4096 - round_down ?tab 4096 = of_nat l" using el l_def
    by (metis of_nat_unat ucast_id)
  have s: "unat (scast (of_nat l :: 32 word) :: 64 word) = l"
  proof -
    have "sint (of_nat l :: 32 word) = int l" using l(3) by (simp add: signed_of_nat signed_take_bit_int_eq_self)
    then have "(scast (of_nat l :: 32 word) :: 64 word) = of_nat l" by (simp add: scast_eq)
    then show ?thesis using l(3) by (simp add: unat_of_nat_small)
  qed
  have u: "unat (ucast (round_down ?tab 4096) :: 64 word) = lo"
    unfolding unsigned_ucast_eq using rd assms(6) lo by (simp add: take_bit_nat_eq_self)
  have m: "phys_mmap phys (scast (of_nat l :: 32 word)) (ucast (round_down ?tab 4096)) = Some (map phys [lo ..< pages (table + len)])"
  proof -
    have "(scast (of_nat l :: 32 word) :: 64 word) \<noteq> 0" using s l(2) by (metis unat_0 less_numeral_extra(3))
    then show ?thesis using s u lo(1) l p pages_pages by (simp add: phys_mmap_def)
  qed
  have c: "unat (?tab - round_down ?tab 4096) = table - lo"
    using rd t lo(2) by (simp add: unat_sub word_le_nat_alt)
  have "drop (table - lo) (map phys [lo ..< pages (table + len)]) = table_mem phys table len"
    using lo(2) by (simp add: table_mem_def drop_map)
  then show ?thesis using m c lw by (simp add: fill_entries_def assms(1-3) read_state_def Let_def)
qed

text \<open>Where the firmware says the entry point is: a file of EFI, or the first valid anchor of the BIOS segment.\<close>

definition entry_point :: "dmi_env \<Rightarrow> (nat \<Rightarrow> 8 word) \<Rightarrow> nat \<Rightarrow> bool" where
  "entry_point env phys ep \<longleftrightarrow>
     (if is_efi_based_system (de_exists env) then
        get_efi_base_addr (de_read env) = Some (of_nat ep) \<and> ep + 0x20 + 4096 \<le> 2 ^ 64
      else 0xF0000 \<le> ep \<and> ep + 0x20 \<le> 0x100000 \<and>
        find_anchor (map phys [0xF0000 ..< 0x100000]) 0 0x10000 = Inr (Some (ep - 0xF0000)))"

lemma opendmi_entry_point:
  assumes "de_mmap env = phys_mmap phys" "de_pagesize env = 4096" "de_devmem env" "di_entries s = Unmapped"
    and "entry_point env phys ep"
  shows "\<exists>b e. b \<le> ep \<and> ep + 0x20 \<le> e \<and> opendmi qs env s = fill_entries qs env (map phys [b..<e]) (ep - b) s"
proof (cases "is_efi_based_system (de_exists env)")
  case True
  let ?ep = "of_nat ep :: 64 word"
  have g: "get_efi_base_addr (de_read env) = Some ?ep" "ep + 0x20 + 4096 \<le> 2 ^ 64" using assms(5) True by (simp_all add: entry_point_def)
  have e: "unat ?ep = ep" "unat (?ep + 0x20) = ep + 0x20"
    using g(2) unat_of_nat_small [of ep, where 'a = 64] unat_of_nat_small [of "ep + 0x20", where 'a = 64] by simp_all
  define lo where "lo = ep - ep mod 4096"
  have lo: "lo mod 4096 = 0" "lo \<le> ep" "ep < lo + 4096"
    using mod_less_divisor [of 4096 ep] by (auto simp: lo_def minus_mod_eq_mult_div)
  have rd: "unat (round_down ?ep 4096) = lo" using unat_round_down [of ?ep] e by (simp add: lo_def)
  have ru: "unat (round_up (?ep + 0x20) 4096) = pages (ep + 0x20)"
    using unat_round_up [of "?ep + 0x20"] e g(2) by simp
  have p: "lo + pages (ep + 0x20 - lo) = pages (ep + 0x20)"
    using pages_aligned [OF lo(1), of "ep + 0x20 - lo"] lo(2) by simp
  have l: "unat (round_up (?ep + 0x20) 4096 - round_down ?ep 4096) = pages (ep + 0x20 - lo)"
    using rd ru p by (simp add: unat_sub word_le_nat_alt)
  have "0 < pages (ep + 0x20 - lo)" using pages_ge(1) [of "ep + 0x20 - lo"] lo(2) by linarith
  then have "round_up (?ep + 0x20) 4096 - round_down ?ep 4096 \<noteq> 0" using l by (metis unat_0 less_numeral_extra(3))
  then have m: "phys_mmap phys (round_up (?ep + 0x20) 4096 - round_down ?ep 4096) (round_down ?ep 4096) =
      Some (map phys [lo ..< pages (ep + 0x20)])"
    using l rd lo(1) p pages_pages by (simp add: phys_mmap_def)
  have c: "unat (?ep - round_down ?ep 4096) = ep - lo" using rd e lo(2) by (simp add: unat_sub word_le_nat_alt)
  have ps: "scast (4096 :: 32 word) = (4096 :: 64 word)" by (simp add: scast_eq)
  have "opendmi qs env s = fill_entries qs env (map phys [lo ..< pages (ep + 0x20)]) (ep - lo) s"
    using assms(1-4) True g(1) m c ps by (simp add: opendmi_def Let_def)
  then show ?thesis using lo(2) pages_ge(1) [of "ep + 0x20"] by blast
next
  case False
  note upt_rec_numeral [simp del]
  have "phys_mmap phys 0xFFFF 0xF0000 = Some (map phys [0xF0000 ..< 0x100000])"
    by (simp add: phys_mmap_def pages_def)
  then have "opendmi qs env s = fill_entries qs env (map phys [0xF0000 ..< 0x100000]) (ep - 0xF0000) s"
    using assms False by (simp add: opendmi_def opendmi_legacy_def entry_point_def)
  moreover have "0xF0000 \<le> ep" "ep + 0x20 \<le> 0x100000" using assms(5) False by (simp_all add: entry_point_def)
  ultimately show ?thesis by blast
qed

lemma e_handle_smb:
  assumes "mem = pre @ smb_bytes x @ post"
  shows "e_handle mem (length pre) = Inr (unat (sm_handle_lo x) + 256 * unat (sm_handle_hi x))"
proof -
  have "rd mem (length pre + 2) = Inr (unat (sm_handle_lo x))"
    by (rule rd_at [of mem "pre @ [sm_type x, of_nat (4 + length (sm_body x))]" _ "sm_handle_hi x # sm_body x @ string_set (sm_strings x) @ post"])
      (simp_all add: assms smb_bytes_def)
  moreover have "rd mem (Suc (Suc (Suc (length pre)))) = Inr (unat (sm_handle_hi x))"
    by (rule rd_at [of mem "pre @ [sm_type x, of_nat (4 + length (sm_body x)), sm_handle_lo x]" _ "sm_body x @ string_set (sm_strings x) @ post"])
      (simp_all add: assms smb_bytes_def)
  ultimately show ?thesis by (simp add: e_handle_def rd_le_numeral)
qed

lemma offsets_handles:
  "mem = pre @ concat (map smb_bytes xs) @ post \<Longrightarrow> p \<in> set (offsets (length pre) xs) \<Longrightarrow>
   \<exists>x \<in> set xs. e_handle mem p = Inr (unat (sm_handle_lo x) + 256 * unat (sm_handle_hi x))"
proof (induction xs arbitrary: pre)
  case (Cons x xs)
  show ?case
  proof (cases "p = length pre")
    case True
    then show ?thesis using e_handle_smb [of mem pre x] Cons.prems(1) by simp
  next
    case False
    then have "\<exists>y \<in> set xs. e_handle mem p = Inr (unat (sm_handle_lo y) + 256 * unat (sm_handle_hi y))"
      using Cons.prems by (intro Cons.IH [of "pre @ smb_bytes x"]) simp_all
    then show ?thesis by simp
  qed
qed simp


text \<open>The table of EFI as the kernel writes it: the entry point is read back, whatever lines are around it.\<close>

lemma base_val_16: "base_val 16 a s = hex_val a s"
proof (induction s arbitrary: a)
  case (Cons c s)
  have "hex_digit c = Some d \<Longrightarrow> d < 16" for d by (auto simp: hex_digit_def Let_def split: if_splits)
  then show ?case using Cons by (auto split: option.splits)
qed simp

lemma strtoul0_hex:
  assumes "n < 2 ^ 64"
  shows "strtoul0 (''0x'' @ hex n @ [CHR 0x0A]) = of_nat n"
proof -
  have "list_all (\<lambda>c. hex_digit c \<noteq> None) (nat_str 16 n)"
    using nat_str16_digits by (fastforce simp: list_all_iff hex_digit_char)
  then have "base_val 16 0 (hex n @ [CHR 0x0A]) = int n"
    by (simp add: base_val_16 hex_val_append hex_def hex_val_nat_str hex_digit_def)
  then show ?thesis using assms by (simp add: strtoul0_def isspace_def Let_def)
qed

definition efi_other :: "string \<Rightarrow> bool" where
  "efi_other l \<longleftrightarrow> is_line 63 l \<and> CHR ''='' \<in> set l \<and> takeWhile (\<lambda>c. c \<noteq> CHR ''='') l \<noteq> ''SMBIOS''"

definition smbios_line :: "nat \<Rightarrow> string" where
  "smbios_line n = ''SMBIOS=0x'' @ hex n @ [CHR 0x0A]"

lemma efi_lines_other: "list_all efi_other ls \<Longrightarrow> efi_lines (ls @ ms) = efi_lines ms"
proof (induction ls)
  case (Cons l ls)
  then obtain r where "strchr l (CHR ''='') = Some r"
    using strchr_None [of l "CHR ''=''"] by (cases "strchr l (CHR ''='')") (auto simp: efi_other_def)
  then show ?case using Cons by (simp add: efi_other_def)
qed simp

lemma get_efi_base_addr_text:
  assumes "list_all efi_other ls" "0 < n" "n < 2 ^ 64" "fs EFI_SYSTAB = Some (concat ls @ smbios_line n @ rest)"
  shows "get_efi_base_addr fs = Some (of_nat n)"
proof -
  have "\<not> plain_digit CHR 0x0A" by code_simp
  then have h: "CHR 0x0A \<notin> set (hex n)"
    using nat_str16_digits [of "CHR 0x0A" n] digit_char_plain unfolding hex_def by metis
  have "length (hex n) \<le> 16" unfolding hex_def using nat_str_length [of n 16 15] assms(3) by simp
  then have l: "is_line 63 (smbios_line n)" using h by (simp add: is_line_def smbios_line_def butlast_append)
  have "list_all (is_line 63) ls" using assms(1) by (auto simp: list_all_iff efi_other_def)
  then have "fgets_lines 63 (concat ls @ t) = ls @ fgets_lines 63 t" for t
    by (induction ls) (simp_all add: fgets_lines_Cons)
  then have "fgets_lines 63 (concat ls @ smbios_line n @ rest) = ls @ smbios_line n # fgets_lines 63 rest"
    using fgets_lines_Cons [OF l] by simp
  moreover have "efi_lines (smbios_line n # t) = Some (of_nat n)" for t
    using strtoul0_hex [OF assms(3)] by (simp add: smbios_line_def)
  moreover have "(of_nat n :: 64 word) \<noteq> 0"
  proof
    assume "(of_nat n :: 64 word) = 0"
    moreover have "unat (of_nat n :: 64 word) = n" by (rule unat_of_nat_small) (use assms(3) in simp)
    ultimately show False using assms(2) by simp
  qed
  ultimately show ?thesis using efi_lines_other [OF assms(1)] assms(4) by (simp add: get_efi_base_addr_def)
qed

definition demo_phys :: "nat \<Rightarrow> 8 word" where
  "demo_phys a =
     (if a = 0x10026 then 37 else if a = 0x1002A then 2 else if a = 0x1002C then 2
      else if 0x20000 \<le> a \<and> a < 0x20025 then demo_mem ! (a - 0x20000) else 0)"

definition demo_dmi_env :: dmi_env where
  "demo_dmi_env = \<lparr>de_exists = (\<lambda>_. True), de_read = (\<lambda>_. Some (concat [''ACPI20=0x7f8e'' @ [CHR 0x0A]] @ smbios_line 0x10010 @ [])),
     de_devmem = True, de_mmap = phys_mmap demo_phys, de_pagesize = 4096\<rparr>"

definition dmi_init :: dmi_state where
  "dmi_init = \<lparr>di_entries = Unmapped, di_numentries = 0, di_length = 0, di_tables = None, do_dmi = True\<rparr>"


section \<open>What \<^verbatim>\<open>/proc/cpuinfo\<close> says\<close>

text \<open>The lines of interest as the kernel prints them, and any others.\<close>

abbreviation LF1 :: string where "LF1 \<equiv> [CHR 0x0A]"
abbreviation TAB :: string where "TAB \<equiv> [CHR 0x09]"

definition vendor_line :: "string \<Rightarrow> string" where
  "vendor_line v = ''vendor_id'' @ TAB @ '': '' @ v @ LF1"

definition family_line :: "nat \<Rightarrow> string" where
  "family_line n = ''cpu family'' @ TAB @ '': '' @ nat_str 10 n @ LF1"

definition model_line :: "nat \<Rightarrow> string" where
  "model_line n = ''model'' @ TAB @ TAB @ '': '' @ nat_str 10 n @ LF1"

definition mhz_line :: "string \<Rightarrow> string" where
  "mhz_line x = ''cpu MHz'' @ TAB @ TAB @ '': '' @ x @ LF1"

definition cpu_flags_line :: "string \<Rightarrow> string" where
  "cpu_flags_line x = ''flags'' @ TAB @ TAB @ '': '' @ x @ LF1"

definition other_line :: "string \<Rightarrow> bool" where
  "other_line l \<longleftrightarrow> scan_lit ''vendor_id : '' l = None \<and> scan_lit ''cpu family : '' l = None \<and> scan_lit ''model : '' l = None \<and>
     scan_lit ''cpu MHz : '' l = None \<and> \<not> strncmp_eq l ''flags'' 5"

definition one_line :: "string \<Rightarrow> bool" where
  "one_line l \<longleftrightarrow> l \<noteq> [] \<and> last l = CHR 0x0A \<and> CHR 0x0A \<notin> set (butlast l)"

lemma getdelim_lines_line: "CHR 0x0A \<notin> set l \<Longrightarrow> getdelim_lines (l @ CHR 0x0A # s) = (l @ LF1) # getdelim_lines s"
  by (induction l) auto

lemma getdelim_lines_concat: "list_all one_line ls \<Longrightarrow> getdelim_lines (concat ls @ s) = ls @ getdelim_lines s"
proof (induction ls)
  case (Cons l ls)
  then have "one_line l" by simp
  then obtain m where "l = m @ LF1" "CHR 0x0A \<notin> set m" by (metis append_butlast_last_id one_line_def)
  then show ?case using Cons getdelim_lines_line [of m "concat ls @ s"] by simp
qed simp

lemma cpuinfo_loop_append: "cpuinfo_loop lf (ls @ ms) i = rbind (cpuinfo_loop lf ls i) (cpuinfo_loop lf ms)"
proof (induction ls arbitrary: i)
  case (Cons l ls)
  have "ci_seen i = seen_all \<Longrightarrow> cpuinfo_loop lf ms i = Inr i" by (cases ms) simp_all
  then show ?case using Cons by (cases "cpuinfo_line lf l i") simp_all
qed simp

lemma cpuinfo_line_other: "other_line l \<Longrightarrow> cpuinfo_line lf l i = Inr i"
  by (simp add: other_line_def cpuinfo_line_def scan_vendor_def scan_num_def flags_line_def)

lemma cpuinfo_loop_other: "list_all other_line ls \<Longrightarrow> cpuinfo_loop lf ls i = Inr i"
  by (induction ls) (simp_all add: cpuinfo_line_other)

definition starts_plain :: "string \<Rightarrow> bool" where
  "starts_plain s \<longleftrightarrow> s \<noteq> [] \<and> \<not> isspace (hd s)"

lemma drop_spaces: "starts_plain s \<Longrightarrow> dropWhile isspace (s @ t) = s @ t"
  by (cases s) (simp_all add: starts_plain_def)

lemma nat_str_plain: "starts_plain (nat_str 10 n)"
proof -
  obtain c s where "nat_str 10 n = c # s" using nat_str_Cons by blast
  then show ?thesis using nat_str_digits [of c n] by (auto simp: starts_plain_def isspace_def isdigit_def)
qed

lemma takeWhile_line: "CHR 0x0A \<notin> set v \<Longrightarrow> takeWhile (\<lambda>c. c \<noteq> CHR 0x0A) (v @ LF1) = v"
  by (induction v) auto

lemmas line_scan = cpuinfo_line_def scan_vendor_def scan_num_def flags_line_def strncmp_eq_def isspace_def drop_spaces

lemma cpuinfo_line_vendor:
  "starts_plain v \<Longrightarrow> length v \<le> 63 \<Longrightarrow> CHR 0x0A \<notin> set v \<Longrightarrow>
   cpuinfo_line lf (vendor_line v) i = Inr (i\<lparr>ci_vendor := v, ci_seen := insert 1 (ci_seen i)\<rparr>)"
  using drop_spaces [of v LF1] takeWhile_line [of v]
  by (auto simp: line_scan vendor_line_def starts_plain_def Let_def)

lemma cpuinfo_line_family:
  "n < 2 ^ 31 \<Longrightarrow> cpuinfo_line lf (family_line n) i = Inr (i\<lparr>ci_family := int n, ci_seen := insert 2 (ci_seen i)\<rparr>)"
  using drop_spaces [OF nat_str_plain, of n LF1] scan_d_dec [of n LF1]
  by (simp add: line_scan family_line_def isdigit_def)

lemma cpuinfo_line_model:
  "n < 2 ^ 31 \<Longrightarrow> cpuinfo_line lf (model_line n) i = Inr (i\<lparr>ci_model := int n, ci_seen := insert 4 (ci_seen i)\<rparr>)"
  using drop_spaces [OF nat_str_plain, of n LF1] scan_d_dec [of n LF1]
  by (simp add: line_scan model_line_def isdigit_def)

lemma cpuinfo_line_mhz:
  "starts_plain x \<Longrightarrow> lf (x @ LF1) \<noteq> None \<Longrightarrow> cpuinfo_line lf (mhz_line x) i = Inr (i\<lparr>ci_seen := insert 8 (ci_seen i)\<rparr>)"
  using drop_spaces [of x LF1] by (auto simp: line_scan mhz_line_def)

lemma cpuinfo_line_flags: "cpuinfo_line lf (cpu_flags_line x) i = Inr (i\<lparr>ci_seen := insert 16 (ci_seen i)\<rparr>)"
  by (simp add: line_scan cpu_flags_line_def char_at_def)

lemma one_lines:
  assumes "CHR 0x0A \<notin> set v" "CHR 0x0A \<notin> set x" "CHR 0x0A \<notin> set y"
  shows "one_line (vendor_line v)" "one_line (family_line n)" "one_line (model_line n)" "one_line (mhz_line x)" "one_line (cpu_flags_line y)"
proof -
  have "CHR 0x0A \<notin> set (nat_str 10 n)" using nat_str_digits [of "CHR 0x0A" n] by (auto simp: isdigit_def)
  then show "one_line (vendor_line v)" "one_line (family_line n)" "one_line (model_line n)" "one_line (mhz_line x)" "one_line (cpu_flags_line y)"
    using assms by (simp_all add: one_line_def butlast_append vendor_line_def family_line_def model_line_def mhz_line_def cpu_flags_line_def)
qed

lemma seen_part: "{} \<noteq> seen_all" "{1} \<noteq> seen_all" "{2, 1} \<noteq> seen_all" "{4, 2, 1} \<noteq> seen_all" "{8, 4, 2, 1} \<noteq> seen_all"
  unfolding seen_all_def by (rule notI, drule arg_cong [where f = "\<lambda>s. 16 \<in> s"], simp)+

definition cpuinfo_lines :: "string list list \<Rightarrow> string \<Rightarrow> nat \<Rightarrow> nat \<Rightarrow> string \<Rightarrow> string \<Rightarrow> string list" where
  "cpuinfo_lines os v n m x y =
     (os ! 0) @ vendor_line v # (os ! 1) @ family_line n # (os ! 2) @ model_line m # (os ! 3) @ mhz_line x # (os ! 4) @ [cpu_flags_line y]"

text \<open>
  The type of the processor. From the text of \<^verbatim>\<open>/proc/cpuinfo\<close> as Linux writes it, with any other lines between the five of
  interest and anything after the first cpu, the event source takes the type that the architecture's tables give for vendor, family and model:
  the same type it takes from a machine-check record with the cpu's identification, so that both ways
  select the same decoder; and exactly the AMD processors from family 16 on are refused.
\<close>

theorem cpuinfo_type_exact:
  assumes "length os = 5" "list_all (list_all (\<lambda>l. one_line l \<and> other_line l)) os"
    and "starts_plain v" "length v \<le> 63" "n < 2 ^ 31" "m < 2 ^ 31" "starts_plain x" "lf (x @ LF1) \<noteq> None"
    and "CHR 0x0A \<notin> set v" "CHR 0x0A \<notin> set x" "CHR 0x0A \<notin> set y"
    and "txt = concat (cpuinfo_lines os v n m x y) @ rest"
  shows "is_cpu_supported lf (Some txt) (False, t0) =
      Inr (if v = ''AuthenticAMD'' \<and> 16 \<le> n then (False, True, t0)
           else (True, True, if v = ''AuthenticAMD'' then (if n = 15 then CPU_K8 else t0)
                             else if v = ''GenuineIntel'' then select_intel_cputype n m else t0)) \<and>
    (\<forall>cpuid. v = ''GenuineIntel'' \<and> parse_cpuid cpuid = (n, m) \<longrightarrow>
      is_cpu_supported lf (Some txt) (False, t0) = Inr (True, True, setup_cpuid X86_VENDOR_INTEL cpuid))"
proof -
  obtain o1 o2 o3 o4 o5 where os: "os = [o1, o2, o3, o4, o5]"
    using assms(1) by (auto simp: length_Suc_conv numeral_eq_Suc)
  have o: "list_all other_line o1" "list_all other_line o2" "list_all other_line o3" "list_all other_line o4" "list_all other_line o5"
    and l: "list_all one_line o1" "list_all one_line o2" "list_all one_line o3" "list_all one_line o4" "list_all one_line o5"
    using assms(2) by (auto simp: os list_all_iff)
  let ?i = "\<lparr>ci_vendor = v, ci_family = int n, ci_model = int m, ci_seen = {16, 8, 4, 2, 1}\<rparr>"
  have "list_all one_line (cpuinfo_lines os v n m x y)"
    using l one_lines [OF assms(9-11)] by (simp add: cpuinfo_lines_def os)
  then have g: "getdelim_lines txt = cpuinfo_lines os v n m x y @ getdelim_lines rest"
    using getdelim_lines_concat assms(12) by simp
  have lf: "lf (x @ LF1) \<noteq> None" by (rule assms(8))
  have "cpuinfo_loop lf (cpuinfo_lines os v n m x y) cpuinfo_none = Inr ?i"
    using o assms(3-7,9)
    by (simp add: cpuinfo_lines_def os cpuinfo_loop_append cpuinfo_loop_other cpuinfo_line_vendor cpuinfo_line_family cpuinfo_line_model
        cpuinfo_line_mhz [where lf = lf, OF _ lf] cpuinfo_line_flags cpuinfo_none_def seen_part [simplified])
  moreover have a: "{16, 8, 4, 2, 1} = seen_all" by (auto simp: seen_all_def)
  moreover have "cpuinfo_loop lf (getdelim_lines rest) ?i = Inr ?i" using a by (cases "getdelim_lines rest") simp_all
  ultimately have "cpuinfo_loop lf (getdelim_lines txt) cpuinfo_none = Inr ?i" by (simp add: g cpuinfo_loop_append)
  then have r: "is_cpu_supported lf (Some txt) (False, t0) =
      Inr (if v = ''AuthenticAMD'' \<and> 16 \<le> n then (False, True, t0)
           else (True, True, if v = ''AuthenticAMD'' then (if n = 15 then CPU_K8 else t0)
                             else if v = ''GenuineIntel'' then select_intel_cputype n m else t0))"
    using a by (simp add: is_cpu_supported_def)
  then show ?thesis by (simp add: setup_cpuid_def)
qed

definition demo_lf :: "string \<Rightarrow> nat option" where
  "demo_lf s = (if s \<noteq> [] \<and> isdigit (hd s) then Some 0 else None)"

theorem cpuinfo_type_exact_witness:
  "is_cpu_supported demo_lf
     (Some (concat (cpuinfo_lines [[''processor'' @ TAB @ '': 0'' @ LF1], [], [], [''model name'' @ TAB @ '': Xeon'' @ LF1], []]
       ''GenuineIntel'' 6 63 ''2600.0'' ''fpu vme'') @ ''rest'')) (False, CPU_GENERIC) =
   Inr (True, True, CPU_HASWELL_EPEX)"
proof -
  have o: "list_all (list_all (\<lambda>l. one_line l \<and> other_line l))
      [[''processor'' @ TAB @ '': 0'' @ LF1], [], [], [''model name'' @ TAB @ '': Xeon'' @ LF1], []]"
    by (simp add: one_line_def other_line_def strncmp_eq_def isspace_def)
  have s: "starts_plain ''GenuineIntel''" "starts_plain ''2600.0''" "demo_lf (''2600.0'' @ LF1) \<noteq> None"
    by (simp_all add: starts_plain_def isspace_def demo_lf_def isdigit_def)
  show ?thesis
    using cpuinfo_type_exact [where lf = demo_lf and n = 6 and m = 63 and x = "''2600.0''" and y = "''fpu vme''", OF _ o s(1) _ _ _ s(2) s(3) _ _ _ refl]
    by (simp add: select_intel_cputype_def)
qed

section \<open>The state the source runs in\<close>

text \<open>Addresses are looked up exactly when there are tables and they passed the check.\<close>

definition dmi_ready :: "dmi_state \<Rightarrow> bool" where
  "dmi_ready s \<longleftrightarrow>
     (if do_dmi s then \<exists>m t. di_entries s = Mapped m \<and> di_tables s = Some t \<and> dmi_sanity_check m t = Inr True
      else di_entries s = Unmapped \<and> di_tables s = None)"

definition dmi_fresh :: "dmi_state \<Rightarrow> bool" where
  "dmi_fresh s \<longleftrightarrow> di_entries s = Unmapped \<and> di_tables s = None"

lemma fill_entries_result:
  "fill_entries qs env b a s = Inr (rc, s') \<Longrightarrow> dmi_fresh s \<Longrightarrow>
   (rc = 0 \<and> (\<exists>m t. di_entries s' = Mapped m \<and> di_tables s' = Some t)) \<or> (rc = -1 \<and> di_tables s' = None)"
  by (auto simp: fill_entries_def dmi_fresh_def Let_def split: option.splits)

lemma opendmi_result:
  assumes "opendmi qs env s = Inr (rc, s')" "dmi_fresh s"
  shows "(rc = 0 \<and> (\<exists>m t. di_entries s' = Mapped m \<and> di_tables s' = Some t)) \<or> (rc = -1 \<and> di_tables s' = None)"
proof -
  have leg: "(rc = 0 \<and> (\<exists>m t. di_entries s' = Mapped m \<and> di_tables s' = Some t)) \<or> (rc = -1 \<and> di_tables s' = None)"
    if "opendmi_legacy qs env s = Inr (rc, s')"
    using that assms(2) fill_entries_result by (fastforce simp: opendmi_legacy_def dmi_fresh_def split: option.splits)
  show ?thesis
    using assms leg fill_entries_result by (fastforce simp: opendmi_def dmi_fresh_def Let_def split: if_splits option.splits)
qed

lemma check_dmi_ready:
  assumes "check_dmi qs env s = Inr s'" "dmi_fresh s"
  shows "dmi_ready (if \<not> do_dmi s' then closedmi s' else s')"
proof -
  obtain rc s1 where o: "opendmi qs env s = Inr (rc, s1)"
    "(if rc < 0 then Inr (s1\<lparr>do_dmi := False\<rparr>) else rbind (with_tables s1 dmi_sanity_check) (\<lambda>ok. Inr (s1\<lparr>do_dmi := ok\<rparr>))) = Inr s'"
    using assms(1) by (auto simp: check_dmi_def)
  show ?thesis using opendmi_result [OF o(1) assms(2)] o(2)
    by (auto simp: dmi_ready_def closedmi_def with_tables_def)
qed

text \<open>
  When the source comes up, it knows its cpu, the device is open with both lengths, and the tables are there exactly when
  addresses are looked up; when it does not come up although the cpu is supported, the device is the reason.
\<close>

lemma cpumem_init_ready:
  assumes "cpumem_init qs lf file env dev s = Inr (rc, s')" "dmi_fresh (cm_dmi s)"
  shows "cm_checked s'"
    and "rc = 0 \<Longrightarrow> dmi_ready (cm_dmi s') \<and> cm_mfd s' = Open_fd \<and> me_record_len dev = Some (cm_recordlen s') \<and> me_log_len dev = Some (cm_loglen s')"
    and "rc \<noteq> 0 \<Longrightarrow> fst (projr (is_cpu_supported lf file (cm_checked s, cm_type s))) \<Longrightarrow>
      dmi_ready (cm_dmi s') \<and> (\<not> me_open dev \<or> me_record_len dev = None \<or> me_log_len dev = None)"
proof -
  obtain ok checked ty where c: "is_cpu_supported lf file (cm_checked s, cm_type s) = Inr (ok, checked, ty)"
    using assms(1) by (auto simp: cpumem_init_def)
  then have ch: "checked" by (auto simp: is_cpu_supported_def split: if_splits option.splits)
  have ok: "rc = (if fst m \<noteq> 0 then -1 else 0) \<and> s' = snd m \<and> dmi_ready d"
    if "ok" "check_dmi qs env (cm_dmi s) = Inr d'" "d = (if \<not> do_dmi d' then closedmi d' else d')"
      "m = mcedata_init dev (s\<lparr>cm_checked := checked, cm_type := ty, cm_dmi := d\<rparr>)" for d d' m
    using assms c that check_dmi_ready [OF that(2) assms(2)] by (auto simp: cpumem_init_def Let_def split: prod.splits)
  have m: "cm_checked (snd (mcedata_init dev s2)) = cm_checked s2" "cm_dmi (snd (mcedata_init dev s2)) = cm_dmi s2"
    "fst (mcedata_init dev s2) = 0 \<longleftrightarrow> me_open dev \<and> me_record_len dev \<noteq> None \<and> me_log_len dev \<noteq> None"
    "fst (mcedata_init dev s2) = 0 \<Longrightarrow> cm_mfd (snd (mcedata_init dev s2)) = Open_fd \<and>
       me_record_len dev = Some (cm_recordlen (snd (mcedata_init dev s2))) \<and> me_log_len dev = Some (cm_loglen (snd (mcedata_init dev s2)))" for s2
    by (auto simp: mcedata_init_def split: option.splits if_splits)
  have no: "\<not> ok \<Longrightarrow> rc = -1 \<and> s' = s\<lparr>cm_checked := checked, cm_type := ty\<rparr>"
    using assms(1) c by (auto simp: cpumem_init_def Let_def)
  have "ok \<Longrightarrow> \<exists>d'. check_dmi qs env (cm_dmi s) = Inr d'"
    using assms(1) c by (auto simp: cpumem_init_def Let_def)
  then obtain d' where d': "ok \<Longrightarrow> check_dmi qs env (cm_dmi s) = Inr d'" by blast
  define d where "d = (if \<not> do_dmi d' then closedmi d' else d')"
  define s2 where "s2 = s\<lparr>cm_checked := checked, cm_type := ty, cm_dmi := d\<rparr>"
  have s2: "cm_checked s2 = checked" "cm_dmi s2 = d" by (simp_all add: s2_def)
  have y: "ok \<Longrightarrow> rc = (if fst (mcedata_init dev s2) \<noteq> 0 then -1 else 0) \<and> s' = snd (mcedata_init dev s2) \<and> dmi_ready d"
    using ok [OF _ d' d_def refl] s2_def by simp
  show "cm_checked s'" using y no m(1) [of s2] s2 ch by (cases ok) simp_all
  show "dmi_ready (cm_dmi s') \<and> cm_mfd s' = Open_fd \<and> me_record_len dev = Some (cm_recordlen s') \<and> me_log_len dev = Some (cm_loglen s')" if "rc = 0"
  proof -
    have "ok" using no that by (cases ok) simp_all
    then have "fst (mcedata_init dev s2) = 0" using y that by (simp split: if_splits)
    then show ?thesis using y \<open>ok\<close> m(2,4) [of s2] s2 by simp
  qed
  show "dmi_ready (cm_dmi s') \<and> (\<not> me_open dev \<or> me_record_len dev = None \<or> me_log_len dev = None)"
    if "rc \<noteq> 0" "fst (projr (is_cpu_supported lf file (cm_checked s, cm_type s)))"
  proof -
    have "ok" using that(2) c by simp
    then have "fst (mcedata_init dev s2) \<noteq> 0" using y that(1) by (simp split: if_splits)
    then show ?thesis using y \<open>ok\<close> m(2,3) [of s2] s2 by simp
  qed
qed

lemma resolveaddr_ready:
  assumes "dmi_ready s"
  shows "resolveaddr s addr =
    (if addr \<noteq> 0 \<and> do_dmi s then case di_entries s of Mapped m \<Rightarrow> dmi_decodeaddr m (the (di_tables s)) addr | _ \<Rightarrow> Inl Oob_access else Inr None)"
  using assms by (auto simp: resolveaddr_def dmi_ready_def with_tables_def)

text \<open>Unloading closes what is open.\<close>

lemma cpumem_release_closed: "dmi_ready (cm_dmi s) \<Longrightarrow> dmi_fresh (cm_dmi (cpumem_release s)) \<and> cm_mfd (cpumem_release s) \<noteq> Open_fd"
  by (auto simp: cpumem_release_def dmi_ready_def dmi_fresh_def closedmi_def Let_def)

end
