(* ===== verification/Fms_AgentStart.thy ===== *)
theory Fms_AgentStart
  imports Fms_CpuStart Fms_CpuLog
begin

text \<open>
  The start and the end of the cpu and memory agent (\<^verbatim>\<open>evtagent/cpumem/cpumem_agent.c\<close>), the handlers of \<^verbatim>\<open>evt_process.c\<close> that no
  table refers to, and \<^verbatim>\<open>tsc.c\<close>, which turns a time stamp counter into the time since the machine started.
  Floating point numbers are of a type the model does not look into: \<open>float_ops\<close> has what the code does with them.
\<close>

record 'd float_ops =
  fo_is_zero :: "'d \<Rightarrow> bool"
  fo_zero :: 'd
  fo_hz :: "'d \<Rightarrow> 64 word"
  fo_kilo :: "'d \<Rightarrow> 'd"
  fo_text :: "'d \<Rightarrow> string"
  fo_scan :: "string \<Rightarrow> 'd option"

text \<open>
  \<open>fo_hz\<close> is \<^verbatim>\<open>(uint64_t)(mhz * 1000000)\<close>, \<open>fo_kilo\<close> the division by 1000, \<open>fo_text\<close> the conversion \<open>%.0f\<close> and \<open>fo_scan\<close> the
  conversion \<open>%lf\<close>.
\<close>

section \<open>The time stamp counter\<close>

text \<open>\<open>None\<close> is a division by zero, which ends the process.\<close>

definition scale :: "64 word \<Rightarrow> 32 word \<Rightarrow> 64 word \<Rightarrow> (32 word \<times> 64 word) option" where
  "scale tsc unit hz =
     (let v = hz * ucast unit in
      if v = 0 then None
      else let u = (ucast (tsc div v) :: 32 word) in Some (u, tsc - ucast u * v))"

definition uptime_text :: "string \<Rightarrow> 32 word \<Rightarrow> 32 word \<Rightarrow> 32 word \<Rightarrow> 32 word \<Rightarrow> string" where
  "uptime_text mhz days hours mins secs =
     ''[at '' @ mhz @ '' Mhz '' @ nat_str 10 (unat days) @ '' days '' @ nat_str 10 (unat hours) @ '':'' @ nat_str 10 (unat mins) @ '':'' @
     nat_str 10 (unat secs) @ '' uptime (unreliable)]''"

text \<open>The inner \<open>None\<close> is the result -1.\<close>

definition fmt_tsc :: "'d float_ops \<Rightarrow> 64 word \<Rightarrow> 'd \<Rightarrow> string option option" where
  "fmt_tsc fo tsc mhz =
     (if fo_is_zero fo mhz then Some None
      else case scale tsc (3600 * 24) (fo_hz fo mhz) of
        None \<Rightarrow> None
      | Some (days, tsc1) \<Rightarrow>
          (case scale tsc1 3600 (fo_hz fo mhz) of
             None \<Rightarrow> None
           | Some (hours, tsc2) \<Rightarrow>
               (case scale tsc2 60 (fo_hz fo mhz) of
                  None \<Rightarrow> None
                | Some (mins, tsc3) \<Rightarrow>
                    (case scale tsc3 1 (fo_hz fo mhz) of
                       None \<Rightarrow> None
                     | Some (secs, _) \<Rightarrow> Some (Some (uptime_text (fo_text fo mhz) days hours mins secs))))))"

text \<open>What the functions see of the machine: files that can be read and paths that \<^verbatim>\<open>access\<close> finds.\<close>

record tsc_env =
  te_read :: "string \<Rightarrow> string option"
  te_access :: "string \<Rightarrow> bool"

definition cpufreq_mhz :: "'d float_ops \<Rightarrow> tsc_env \<Rightarrow> int \<Rightarrow> 'd \<Rightarrow> 'd" where
  "cpufreq_mhz fo env cpu infomhz =
     (case te_read env (''/sys/devices/system/cpu/cpu'' @ dec cpu @ ''/cpufreq/cpuinfo_max_freq'') of
        None \<Rightarrow> if te_access env ''/sys/devices'' then infomhz else fo_zero fo
      | Some t \<Rightarrow> fo_kilo fo (case fo_scan fo t of None \<Rightarrow> fo_zero fo | Some mhz \<Rightarrow> mhz))"

definition sleeps :: "string \<Rightarrow> bool" where
  "sleeps line =
     (case scan_num '' C'' line of
        None \<Rightarrow> False
      | Some n \<Rightarrow>
          n > 1 \<and> (case strstr line ''usage'' of
                     None \<Rightarrow> False
                   | Some p \<Rightarrow> (case scan_num ''usage['' p of None \<Rightarrow> False | Some k \<Rightarrow> k > 0)))"

definition deep_sleep_states :: "tsc_env \<Rightarrow> int \<Rightarrow> bool" where
  "deep_sleep_states env cpu =
     (te_access env (''/sys/devices/system/cpu/cpu'' @ dec cpu @ ''/cpuidle'') \<or>
      (case te_read env (''/proc/acpi/processor/CPU'' @ dec cpu @ ''/power'') of
         None \<Rightarrow> False
       | Some t \<Rightarrow> list_ex sleeps (getdelim_lines t)))"

definition tsc_reliable :: "tsc_env \<Rightarrow> string option \<Rightarrow> cputype \<Rightarrow> int \<Rightarrow> bool" where
  "tsc_reliable env processor_flags cputype cpunum =
     (case processor_flags of
        None \<Rightarrow> False
      | Some fl \<Rightarrow>
          if strstr fl ''nonstop_tsc'' \<noteq> None then True
          else if strstr fl ''constant_tsc'' = None then False
          else if \<not> is_intel_cpu cputype then False
          else if deep_sleep_states env cpunum \<and> cputype \<noteq> CPU_NEHALEM then False
          else True)"

definition decode_tsc_current ::
  "'d float_ops \<Rightarrow> tsc_env \<Rightarrow> string option \<Rightarrow> int \<Rightarrow> cputype \<Rightarrow> 'd \<Rightarrow> 64 word \<Rightarrow> string option option" where
  "decode_tsc_current fo env processor_flags cpunum cputype mhz tsc =
     (if \<not> tsc_reliable env processor_flags cputype cpunum then Some None
      else let cmhz = cpufreq_mhz fo env cpunum mhz
           in fmt_tsc fo tsc (if \<not> fo_is_zero fo cmhz then cmhz else mhz))"

section \<open>Start and end of the agent\<close>

record 'd agent_info =
  ai_mhz :: 'd
  ai_flags :: "string option"

fun agent_cpuinfo :: "'d float_ops \<Rightarrow> string list \<Rightarrow> bool \<times> bool \<Rightarrow> 'd agent_info \<Rightarrow> 'd agent_info res" where
  "agent_cpuinfo fo [] seen s = Inr s"
| "agent_cpuinfo fo (line # ls) (mhz, flags) s =
     (if mhz \<and> flags then Inr s
      else let r = (case scan_lit ''cpu MHz : '' line of None \<Rightarrow> None | Some t \<Rightarrow> fo_scan fo t);
               s1 = (case r of None \<Rightarrow> s | Some m \<Rightarrow> s\<lparr>ai_mhz := m\<rparr>)
        in rbind (flags_line line) (\<lambda>f.
             agent_cpuinfo fo ls (mhz \<or> r \<noteq> None, flags \<or> f) (if f then s1\<lparr>ai_flags := Some line\<rparr> else s1)))"

definition cpuinfo_init :: "'d float_ops \<Rightarrow> string option \<Rightarrow> 'd agent_info \<Rightarrow> 'd agent_info res" where
  "cpuinfo_init fo file s = (case file of None \<Rightarrow> Inr s | Some t \<Rightarrow> agent_cpuinfo fo (getdelim_lines t) (False, False) s)"

definition cpumem_agent_init :: "'d float_ops \<Rightarrow> string option \<Rightarrow> 'd agent_info \<Rightarrow> (int \<times> 'd agent_info) res" where
  "cpumem_agent_init fo file s = rbind (cpuinfo_init fo file s) (\<lambda>s1. Inr (0, s1))"

definition cpumem_agent_module_init :: "int \<Rightarrow> (string \<Rightarrow> fopen_res) \<Rightarrow> string \<Rightarrow> fmd \<Rightarrow> (fmd_module option \<times> fmd) res" where
  "cpumem_agent_module_init rc fs path pfmd = (if rc \<noteq> 0 then Inr (None, pfmd) else agent_init fs path pfmd)"

definition caches_release :: "caches \<Rightarrow> caches" where
  "caches_release tab = []"

definition cpumem_agent_release :: "caches \<Rightarrow> caches" where
  "cpumem_agent_release tab = caches_release tab"

section \<open>Handlers without an entry in the table\<close>

definition evt_handle_bus :: "'m kernel \<Rightarrow> fms_cpumem option \<Rightarrow> 'm \<Rightarrow> int \<times> 'm" where
  "evt_handle_bus k data m = (case data of None \<Rightarrow> (-1, m) | Some fc \<Rightarrow> do_cpu_offline k (cm_cpu fc) m)"

definition evt_handle_pcu :: "'m kernel \<Rightarrow> fms_cpumem option \<Rightarrow> 'm \<Rightarrow> int \<times> 'm" where
  "evt_handle_pcu k data m = (case data of None \<Rightarrow> (-1, m) | Some fc \<Rightarrow> do_cpu_offline k (cm_cpu fc) m)"

definition evt_handle_mc :: "'m kernel \<Rightarrow> fms_cpumem option \<Rightarrow> 'm \<Rightarrow> int \<times> 'm" where
  "evt_handle_mc k data m = (case data of None \<Rightarrow> (-1, m) | Some fc \<Rightarrow> do_cpu_offline k (cm_cpu fc) m)"

text \<open>They isolate what the handler of the interconnect isolates, but return the raw result.\<close>

lemma unused_handlers:
  "evt_handle_qpi k (Some fc) (tab, m) =
     (let (r, m') = evt_handle_bus k (Some fc) m in Inr (if r = 0 then LIST_ISOLATED_SUCCESS else LIST_ISOLATED_FAILED, tab, m'))"
  "evt_handle_pcu k d m = evt_handle_bus k d m" "evt_handle_mc k d m = evt_handle_bus k d m"
  by (simp_all add: evt_handle_qpi_def evt_handle_bus_def evt_handle_pcu_def evt_handle_mc_def)

section \<open>The time since the start\<close>

lemma unat_ucast_32_64: "unat (ucast (w :: 32 word) :: 64 word) = unat w"
  unfolding unsigned_ucast_eq using unsigned_less [of w, where ?'a = nat] by (simp add: take_bit_nat_eq_self)

lemma scale_exact:
  assumes "unat hz * unat unit = v" "0 < v" "v < 2 ^ 64" "unat tsc div v < 2 ^ 32"
  shows "\<exists>u tsc'. scale tsc unit hz = Some (u, tsc') \<and> unat u = unat tsc div v \<and> unat tsc' = unat tsc mod v"
proof -
  let ?v = "hz * ucast unit :: 64 word" and ?u = "ucast (tsc div (hz * ucast unit)) :: 32 word"
  have v: "unat ?v = v" using assms(1,3) unat_ucast_32_64 [of unit] by (simp add: unat_word_ariths)
  then have nz: "?v \<noteq> 0" using assms(2) by (metis less_numeral_extra(3) unat_0)
  have u: "unat ?u = unat tsc div v"
    unfolding unsigned_ucast_eq using assms(4) v by (simp add: unat_div take_bit_nat_eq_self)
  have le: "unat tsc div v * v \<le> unat tsc" by simp
  have "unat (ucast ?u * ?v) = unat (ucast ?u :: 64 word) * unat ?v mod 2 ^ LENGTH(64)" by (rule unat_word_ariths(2))
  also have "\<dots> = unat tsc div v * v" unfolding unat_ucast_32_64 u v
    using le_less_trans [OF le unsigned_less [of tsc, where ?'a = nat]] by simp
  finally have m: "unat (ucast ?u * ?v) = unat tsc div v * v" .
  have "unat (tsc - ucast ?u * ?v) = unat tsc mod v"
    using le m by (simp add: unat_sub word_le_nat_alt minus_div_mult_eq_mod)
  then show ?thesis using nz u by (simp add: scale_def Let_def)
qed

lemma mod_times_div: "(t mod (h * k)) div h = (t div h) mod (k :: nat)" if "0 < h" for t h k :: nat
  using that by (simp add: mod_mult2_eq)

lemma days_to_secs:
  "a * 86400 + r1 = q \<Longrightarrow> b * 3600 + r2 = r1 \<Longrightarrow> c * 60 + r3 = r2 \<Longrightarrow> q = ((a * 24 + b) * 60 + c) * 60 + (r3 :: nat)"
  by simp

text \<open>\<open>hz\<close> is the number of ticks in a second.\<close>

lemma fmt_tsc_exact:
  assumes "\<not> fo_is_zero fo mhz" "unat (fo_hz fo mhz) = hz" "0 < hz" "hz * 86400 < 2 ^ 64" "unat tsc div (hz * 86400) < 2 ^ 32"
  shows "\<exists>d h m s. fmt_tsc fo tsc mhz = Some (Some (uptime_text (fo_text fo mhz) d h m s)) \<and>
    unat tsc div hz = ((unat d * 24 + unat h) * 60 + unat m) * 60 + unat s \<and> unat h < 24 \<and> unat m < 60 \<and> unat s < 60"
proof -
  define q where "q = unat tsc div hz"
  have 1: "q mod 86400 < 2 ^ 32" using mod_less_divisor [of 86400 q] by simp
  have 2: "q mod 86400 mod j < 2 ^ 32" for j by (rule le_less_trans [OF mod_less_eq_dividend 1])
  have 3: "q mod 86400 mod j mod i < 2 ^ 32" for i j by (rule le_less_trans [OF mod_less_eq_dividend 2])
  have small: "q mod 86400 div k < 2 ^ 32" "q mod 86400 mod j div k < 2 ^ 32" for j k
    by (rule le_less_trans [OF div_le_dividend 1], rule le_less_trans [OF div_le_dividend 2])
  obtain d t1 where d: "scale tsc (3600 * 24) (fo_hz fo mhz) = Some (d, t1)" "unat d = unat tsc div (hz * 86400)" "unat t1 = unat tsc mod (hz * 86400)"
    using scale_exact [of "fo_hz fo mhz" "3600 * 24" "hz * 86400" tsc] assms by auto
  have t1: "unat t1 div (hz * k) = (q mod 86400) div k" for k
    using d(3) mod_times_div [OF assms(3), of "unat tsc" 86400] by (simp add: q_def div_mult2_eq)
  obtain h t2 where h: "scale t1 3600 (fo_hz fo mhz) = Some (h, t2)" "unat h = unat t1 div (hz * 3600)" "unat t2 = unat t1 mod (hz * 3600)"
    using scale_exact [of "fo_hz fo mhz" 3600 "hz * 3600" t1] assms(2-4) t1 [of 3600] small(1) [of 3600] by auto
  have t2: "unat t2 div (hz * k) = (q mod 86400 mod 3600) div k" for k
    using h(3) mod_times_div [OF assms(3), of "unat t1" 3600] t1 [of 1] by (simp add: div_mult2_eq)
  obtain m t3 where m: "scale t2 60 (fo_hz fo mhz) = Some (m, t3)" "unat m = unat t2 div (hz * 60)" "unat t3 = unat t2 mod (hz * 60)"
    using scale_exact [of "fo_hz fo mhz" 60 "hz * 60" t2] assms(2-4) t2 [of 60] small(2) [of 3600 60] by auto
  have t3: "unat t3 div hz = q mod 86400 mod 3600 mod 60"
    using m(3) mod_times_div [OF assms(3), of "unat t2" 60] t2 [of 1] by simp
  obtain s t4 where s: "scale t3 1 (fo_hz fo mhz) = Some (s, t4)" "unat s = unat t3 div hz"
    using scale_exact [of "fo_hz fo mhz" 1 hz t3] assms(2-4) t3 3 [of 3600 60] by auto
  have f: "fmt_tsc fo tsc mhz = Some (Some (uptime_text (fo_text fo mhz) d h m s))"
    using assms(1) d(1) h(1) m(1) s(1) by (simp add: fmt_tsc_def)
  have dd: "unat d = q div 86400" using d(2) by (simp only: q_def div_mult2_eq)
  have hh: "unat h = q mod 86400 div 3600" using h(2) t1 [of 3600] by (simp only:)
  have mm: "unat m = q mod 86400 mod 3600 div 60" using m(2) t2 [of 60] by (simp only:)
  have ss: "unat s = q mod 86400 mod 3600 mod 60" using s(2) t3 by (simp only:)
  have "q = ((unat d * 24 + unat h) * 60 + unat m) * 60 + unat s"
    unfolding dd hh mm ss by (rule days_to_secs) (simp_all only: div_mult_mod_eq)
  moreover have "unat h < 24" unfolding hh using mod_less_divisor [of 86400 q] by (intro less_mult_imp_div_less) simp
  moreover have "unat m < 60" unfolding mm by (intro less_mult_imp_div_less) simp
  moreover have "unat s < 60" unfolding ss by simp
  ultimately show ?thesis using f unfolding q_def by blast
qed

text \<open>What the log of an event uses: the text, if there is one.\<close>

definition agent_tsc :: "'d float_ops \<Rightarrow> tsc_env \<Rightarrow> 'd agent_info \<Rightarrow> fms_cpumem \<Rightarrow> string option" where
  "agent_tsc fo env s fc =
     (case decode_tsc_current fo env (ai_flags s) (sint (cm_cpu fc)) (cm_cputype fc) (ai_mhz s) (cm_tsc fc) of
        None \<Rightarrow> None | Some t \<Rightarrow> t)"

definition used_mhz :: "'d float_ops \<Rightarrow> tsc_env \<Rightarrow> int \<Rightarrow> 'd \<Rightarrow> 'd" where
  "used_mhz fo env cpu mhz = (let c = cpufreq_mhz fo env cpu mhz in if \<not> fo_is_zero fo c then c else mhz)"

lemma uptime_text_length: "length mhz \<le> 400 \<Longrightarrow> length (uptime_text mhz d h m s) < 480"
proof -
  assume "length mhz \<le> 400"
  moreover have "length (nat_str 10 (unat (w :: 32 word))) \<le> 10" for w
    using unsigned_less [of w, where ?'a = nat] by (intro nat_str_le [where k = 9]) simp_all
  from this [of d] this [of h] this [of m] this [of s] calculation show ?thesis by (simp add: uptime_text_def)
qed


text \<open>A machine whose numbers are natural numbers of megahertz.\<close>

definition demo_fo :: "nat float_ops" where
  "demo_fo = \<lparr>fo_is_zero = (\<lambda>m. m = 0), fo_zero = 0, fo_hz = (\<lambda>m. of_nat (m * 1000000)), fo_kilo = (\<lambda>m. m div 1000), fo_text = nat_str 10,
     fo_scan = (\<lambda>s. if s \<noteq> [] \<and> isdigit (hd s) then Some (nat (atoi s)) else None)\<rparr>"

definition demo_tsc_env :: tsc_env where
  "demo_tsc_env = \<lparr>te_read = (\<lambda>_. None), te_access = (\<lambda>p. p = ''/sys/devices'')\<rparr>"


section \<open>What the agent reads when it starts\<close>

lemma agent_cpuinfo_other:
  "list_all other_line ls \<Longrightarrow> agent_cpuinfo fo (ls @ ms) seen s = agent_cpuinfo fo ms seen s"
proof (induction ls)
  case (Cons l ls)
  obtain a b where "seen = (a, b)" by fastforce
  moreover have "a \<and> b \<Longrightarrow> agent_cpuinfo fo ms (a, b) s = Inr s" by (cases ms) simp_all
  ultimately show ?case using Cons by (simp add: other_line_def flags_line_def)
qed simp

text \<open>From the text the event source reads, the agent takes the frequency and the flags of the first cpu.\<close>

lemma cpuinfo_init_text:
  assumes "length os = 5" "list_all (list_all (\<lambda>l. one_line l \<and> other_line l)) os"
    and "starts_plain x" "fo_scan fo (x @ LF1) = Some mhz"
    and "CHR 0x0A \<notin> set v" "CHR 0x0A \<notin> set x" "CHR 0x0A \<notin> set y"
  shows "cpuinfo_init fo (Some (concat (cpuinfo_lines os v n m x y) @ rest)) s = Inr (s\<lparr>ai_mhz := mhz, ai_flags := Some (cpu_flags_line y)\<rparr>)"
proof -
  obtain o1 o2 o3 o4 o5 where os: "os = [o1, o2, o3, o4, o5]"
    using assms(1) by (auto simp: length_Suc_conv numeral_eq_Suc)
  have o: "list_all other_line o1" "list_all other_line o2" "list_all other_line o3" "list_all other_line o4" "list_all other_line o5"
    and l: "list_all one_line o1" "list_all one_line o2" "list_all one_line o3" "list_all one_line o4" "list_all one_line o5"
    using assms(2) by (auto simp: os list_all_iff)
  have "list_all one_line (cpuinfo_lines os v n m x y)"
    using l one_lines [OF assms(5-7)] by (simp add: cpuinfo_lines_def os)
  then have g: "getdelim_lines (concat (cpuinfo_lines os v n m x y) @ rest) = cpuinfo_lines os v n m x y @ getdelim_lines rest"
    by (rule getdelim_lines_concat)
  have k: "agent_cpuinfo fo (vendor_line v # ls) (False, False) t = agent_cpuinfo fo ls (False, False) t"
    "agent_cpuinfo fo (family_line n # ls) (False, False) t = agent_cpuinfo fo ls (False, False) t"
    "agent_cpuinfo fo (model_line m # ls) (False, False) t = agent_cpuinfo fo ls (False, False) t"
    "agent_cpuinfo fo (mhz_line x # ls) (False, False) t = agent_cpuinfo fo ls (True, False) (t\<lparr>ai_mhz := mhz\<rparr>)"
    "agent_cpuinfo fo (cpu_flags_line y # ls) (True, False) t = Inr (t\<lparr>ai_flags := Some (cpu_flags_line y)\<rparr>)" for ls t
    using drop_spaces [OF assms(3), of LF1] assms(4)
    by (simp_all add: flags_line_def strncmp_eq_def isspace_def char_at_def vendor_line_def family_line_def model_line_def mhz_line_def cpu_flags_line_def)
      (cases ls; simp)
  show ?thesis by (simp add: cpuinfo_init_def g) (simp add: cpuinfo_lines_def os agent_cpuinfo_other o k del: agent_cpuinfo.simps)
qed

end
