(* ===== verification/Fms_Tools.thy ===== *)
theory Fms_Tools
  imports Fms_Fmsadm Fms_Topo_Mem
begin

text \<open>
  The diagnostics log (\<^verbatim>\<open>lib/libfmd/logging.c\<close>), the tool \<^verbatim>\<open>tools/fmstopo\<close>, which scans the topology and prints what its
  options ask for, and the tool \<^verbatim>\<open>tools/fmshotplug\<close>, which asks the hot-plug source to clear the cases of a device; and
  the string helpers of \<^verbatim>\<open>include/fmd_string.h\<close>. The dynamic loader, the clock and the message queue are parameters.
\<close>

section \<open>The diagnostics log\<close>

datatype wr_loglevel = WR_LOG_NONE | WR_LOG_CRITICAL | WR_LOG_ERROR | WR_LOG_WARNING | WR_LOG_NORMAL | WR_LOG_DEBUG

fun level_no :: "wr_loglevel \<Rightarrow> nat" where
  "level_no WR_LOG_NONE = 0" | "level_no WR_LOG_CRITICAL = 1" | "level_no WR_LOG_ERROR = 2" | "level_no WR_LOG_WARNING = 3"
| "level_no WR_LOG_NORMAL = 4" | "level_no WR_LOG_DEBUG = 5"

instantiation wr_loglevel :: linorder
begin

definition less_eq_wr_loglevel :: "wr_loglevel \<Rightarrow> wr_loglevel \<Rightarrow> bool" where
  "x \<le> y \<longleftrightarrow> level_no x \<le> level_no y"

definition less_wr_loglevel :: "wr_loglevel \<Rightarrow> wr_loglevel \<Rightarrow> bool" where
  "x < y \<longleftrightarrow> level_no x < level_no y"

instance
proof
  fix x y :: wr_loglevel
  show "x \<le> y \<Longrightarrow> y \<le> x \<Longrightarrow> x = y" by (cases x; cases y) (simp_all add: less_eq_wr_loglevel_def)
qed (auto simp: less_eq_wr_loglevel_def less_wr_loglevel_def)

end

text \<open>The files written are lists of lines; \<open>logfile\<close> is \<open>None\<close> while there is none.\<close>

record wr_logger =
  logfile :: "string list option"
  log_to_file :: bool
  loglevel :: wr_loglevel
  log_stdout :: "string list"

definition WR_LOG_MAX :: wr_loglevel where "WR_LOG_MAX = WR_LOG_DEBUG"

definition wr_log_start :: wr_logger where
  "wr_log_start = \<lparr>logfile = None, log_to_file = True, loglevel = WR_LOG_MAX, log_stdout = []\<rparr>"

definition wr_log_logrotate :: "bool \<Rightarrow> wr_logger \<Rightarrow> wr_logger" where
  "wr_log_logrotate debug lg = lg\<lparr>log_to_file := \<not> debug\<rparr>"

definition wr_log_set_loglevel :: "wr_loglevel \<Rightarrow> wr_logger \<Rightarrow> wr_logger" where
  "wr_log_set_loglevel lvl lg = lg\<lparr>loglevel := lvl\<rparr>"

text \<open>\<open>file\<close> is the name and \<open>fopen_a\<close> the lines of the file when it can be opened for appending.\<close>

definition wr_log_init :: "string option \<Rightarrow> string list option \<Rightarrow> wr_logger \<Rightarrow> int \<times> wr_logger" where
  "wr_log_init fname fopen_a lg =
     (case fname of
        None \<Rightarrow> (-1, lg)
      | Some f \<Rightarrow> (case fopen_a of None \<Rightarrow> (-1, lg\<lparr>logfile := None\<rparr>) | Some ls \<Rightarrow> (0, lg\<lparr>logfile := Some ls\<rparr>)))"

definition level_strings :: "string list" where
  "level_strings = [''N'', ''C'', ''E'', ''W'', ''T'', ''D'', '''']"

text \<open>Where a message comes from: \<^verbatim>\<open>__FILE__\<close>, \<^verbatim>\<open>__LINE__\<close>, \<^verbatim>\<open>__FUNCTION__\<close>, the time as \<^verbatim>\<open>strftime\<close> writes it and the thread.\<close>

record log_place =
  lp_file :: string
  lp_line :: int
  lp_function :: string
  lp_time :: string
  lp_tid :: int

definition basename_of :: "string \<Rightarrow> string" where
  "basename_of f = (case strrchr f CHR ''/'' of Some p \<Rightarrow> tl p | None \<Rightarrow> f)"

text \<open>\<open>msg\<close> is the text the format gives. A message to the terminal is written whatever its level and domain.\<close>

definition wr_log_write :: "log_place \<Rightarrow> string option \<Rightarrow> wr_loglevel \<Rightarrow> string option \<Rightarrow> wr_logger \<Rightarrow> (int \<times> wr_logger) res" where
  "wr_log_write p domn lvl msg lg =
     (case logfile lg of
        None \<Rightarrow> Inr (-1, lg)
      | Some ls \<Rightarrow>
          if \<not> log_to_file lg then rbind (deref msg) (\<lambda>m. Inr (0, lg\<lparr>log_stdout := log_stdout lg @ [m]\<rparr>))
          else (case (domn, msg) of
              (Some d, Some m) \<Rightarrow>
                if lvl \<le> loglevel lg then
                  if level_no lvl \<ge> length level_strings then Inl Oob_access
                  else Inr (0, lg\<lparr>logfile := Some (ls @
                    [lp_time p @ '' '' @ level_strings ! level_no lvl @ '' tid['' @ dec (lp_tid p) @ ''] ['' @ basename_of (lp_file p) @
                     '':'' @ dec (lp_line p) @ '':'' @ lp_function p @ ''] '' @ d @ '': '' @ m])\<rparr>)
                else Inr (0, lg)
            | _ \<Rightarrow> Inr (-1, lg)))"

text \<open>The macro \<^verbatim>\<open>wr_log\<close>.\<close>

definition wr_log :: "log_place \<Rightarrow> string option \<Rightarrow> wr_loglevel \<Rightarrow> string option \<Rightarrow> wr_logger \<Rightarrow> wr_logger res" where
  "wr_log p domn lvl msg lg =
     (if lvl \<le> loglevel lg then rbind (wr_log_write p domn lvl msg lg) (\<lambda>(r, lg1). Inr lg1) else Inr lg)"

text \<open>
  A message with a text and a domain is one line more in the file or on the terminal when its level is not above the logger's and a
  file is set, and nothing otherwise; the rest of the logger stays, and nothing fails.
\<close>

lemma wr_log_writes:
  "\<exists>line. wr_log p (Some d) lvl (Some m) lg = Inr
     (if lvl \<le> loglevel lg \<and> logfile lg \<noteq> None then
        if log_to_file lg then lg\<lparr>logfile := Some (the (logfile lg) @ [line])\<rparr> else lg\<lparr>log_stdout := log_stdout lg @ [m]\<rparr>
      else lg)"
proof -
  have "level_no lvl < length level_strings" by (cases lvl) (simp_all add: level_strings_def)
  then show ?thesis by (cases "logfile lg") (auto simp: wr_log_def wr_log_write_def)
qed

section \<open>The topology tool\<close>

datatype out = Stdout string | Stderr string

definition topo_usage :: "out list" where
  "topo_usage = map Stderr [''Usage: fmtopo [-hcmd] [-n <node index>]'', CHR 0x09 # ''-h    help'', CHR 0x09 # ''-c    display cpu topology'',
     CHR 0x09 # ''-m    display mem topology'', CHR 0x09 # ''-d    display disk topology'',
     CHR 0x09 # ''-n    <node index>   display a node formatted topology'']"

text \<open>What an option prints; the option character \<^verbatim>\<open>?\<close> of \<^verbatim>\<open>getopt\<close> is one of the others.\<close>

definition topo_option :: "fmd_topo \<Rightarrow> char \<times> string option \<Rightarrow> out list res" where
  "topo_option tp o' =
     (let (c, optarg) = o' in
      if c = CHR ''h'' then Inr topo_usage
      else if c = CHR ''c'' then Inr (map Stdout (print_cpu_topo tp))
      else if c = CHR ''m'' then Inr (map Stdout (print_mem_topo tp))
      else if c = CHR ''d'' then Inr (map Stdout (print_disk_topo tp))
      else if c = CHR ''n'' then
        rbind (deref optarg) (\<lambda>a. let i = atoi a in
          rbind (print_topo_tree tp i) (\<lambda>ls.
            Inr (map Stdout (['''', ''                      System Node'' @ dec i @ '' Topology  '', ''''] @ ls @ ['''']))))
      else Inr topo_usage)"

fun topo_options :: "fmd_topo \<Rightarrow> (char \<times> string option) list \<Rightarrow> out list res" where
  "topo_options tp [] = Inr []"
| "topo_options tp (o' # os) = rbind (topo_option tp o') (\<lambda>l. rbind (topo_options tp os) (\<lambda>ls. Inr (l @ ls)))"

text \<open>
  \<open>lib\<close> is the library when it can be loaded: which symbols it has. The result of \<^verbatim>\<open>_fmd_topo\<close> is not looked at.
\<close>

definition fmstopo_main ::
  "(string \<Rightarrow> bool) option \<Rightarrow> topo_fs \<Rightarrow> 8 word list option \<Rightarrow> string list \<Rightarrow> (int \<times> out list) res" where
  "fmstopo_main lib fs mem args =
     (if args = [] then Inr (0, topo_usage)
      else case lib of
        None \<Rightarrow> Inr (-1, [])
      | Some dlsym \<Rightarrow>
          if \<not> dlsym ''_fmd_topo'' then Inr (-1, [])
          else rbind (fmd_topo_main fs mem) (\<lambda>(r, tp).
            if \<not> dlsym ''topo_tree_create'' then Inr (-1, [])
            else let (ret, tp1) = topo_tree_create tp in
              if ret < 0 then Inr (-1, [])
              else if \<not> (dlsym ''_print_cpu_topo'' \<and> dlsym ''_print_mem_topo'' \<and> dlsym ''_print_disk_topo'' \<and> dlsym ''print_topo_tree'')
              then Inr (-1, [])
              else rbind (topo_options tp1 (fst (getopt ''hcmdn:'' [] args))) (\<lambda>out. Inr (0, out))))"

text \<open>\<^verbatim>\<open>getopt\<close> gives the option \<^verbatim>\<open>n\<close> with its argument only, so that no null pointer is read.\<close>

lemma getopt_n_arg: "(CHR ''n'', a) \<in> set (fst (getopt spec cl args)) \<Longrightarrow> spec = ''hcmdn:'' \<Longrightarrow> a \<noteq> None"
proof (induction spec cl args arbitrary: a rule: getopt.induct)
  case (2 spec x args)
  then show ?case by (auto split: if_splits prod.splits)
next
  case (3 spec c cl args)
  have n: "opt_kind ''hcmdn:'' CHR ''n'' = Some True" by (simp add: opt_kind_def)
  note IH = 3 and p = "3.prems"
  consider "opt_kind spec c = None" | "opt_kind spec c = Some False" | "opt_kind spec c = Some True" "cl \<noteq> []"
    | "opt_kind spec c = Some True" "cl = []" "args = []" | x xs where "opt_kind spec c = Some True" "cl = []" "args = x # xs"
    by (cases "opt_kind spec c"; cases "the (opt_kind spec c)"; cases cl; cases args) auto
  then show ?case
  proof cases
    case 1
    then show ?thesis using IH(1) p by (simp add: case_prod_beta)
  next
    case 2
    then have "c \<noteq> CHR ''n''" using n p(2) by auto
    then show ?thesis using 2 IH p by (simp add: case_prod_beta)
  next
    case 3
    then show ?thesis using 3 IH p by (auto simp: case_prod_beta)
  next
    case 4
    then show ?thesis using p by simp
  next
    case 5
    then show ?thesis using 5 IH p by (auto simp: case_prod_beta)
  qed
qed simp

lemma print_tree_ok: "\<exists>ls. print_topo_tree (snd (topo_tree_create tp)) i = Inr ls"
  using print_topo_tree_correct [of tp i] by blast

lemma topo_option_ok:
  "o' \<in> set (fst (getopt ''hcmdn:'' [] args)) \<Longrightarrow> \<exists>ls. topo_option (snd (topo_tree_create tp)) o' = Inr ls"
  using getopt_n_arg [of "snd o'" "''hcmdn:''" "[]" args] print_tree_ok [of tp]
  by (cases o') (auto simp: topo_option_def Let_def)

text \<open>
  When the scan comes through, the tool does: it ends with status 0 and the texts of its options in their order, or with status -1
  and nothing printed; it never follows a null pointer, for any arguments and any node number.
\<close>

lemma fmstopo_prints:
  assumes "fmd_topo_main fs mem = Inr (r, tp)"
  shows "\<exists>st ls. fmstopo_main lib fs mem args = Inr (st, ls) \<and>
    (args \<noteq> [] \<longrightarrow> (case lib of None \<Rightarrow> (st, ls) = (-1, [])
      | Some dlsym \<Rightarrow> (st, ls) = (-1, []) \<or> st = 0 \<and> fst (topo_tree_create tp) = 0 \<and>
          topo_options (snd (topo_tree_create tp)) (fst (getopt ''hcmdn:'' [] args)) = Inr ls))"
proof -
  have all: "\<exists>ls. topo_options (snd (topo_tree_create tp)) os = Inr ls" if "set os \<subseteq> set (fst (getopt ''hcmdn:'' [] args))" for os
    using that
  proof (induction os)
    case (Cons o' os)
    then show ?case using topo_option_ok [of o' args tp] by auto
  qed simp
  obtain ret tp1 where t: "topo_tree_create tp = (ret, tp1)" by fastforce
  then have ret: "ret = 0 \<or> ret = -1" by (auto simp: topo_tree_create_def split: prod.splits if_splits)
  obtain ls where "topo_options tp1 (fst (getopt ''hcmdn:'' [] args)) = Inr ls"
    using all [OF order_refl] t by auto
  then show ?thesis using assms t ret by (cases lib) (auto simp: fmstopo_main_def Let_def)
qed

section \<open>The hot-plug tool\<close>

text \<open>
  \<^verbatim>\<open>clear_caselist\<close>: the request and the answer go through the same queue. \<open>peer\<close> is what the other users of the queue do between
  the sending and the receiving. A message that fills the buffer has no terminator when it is printed.
\<close>

definition clear_caselist :: "mq_io \<Rightarrow> (mqueue \<Rightarrow> mqueue res) \<Rightarrow> string \<Rightarrow> mqueue \<Rightarrow> (int \<times> mqueue) res" where
  "clear_caselist mio peer dev q =
     (if \<not> mo_open mio then Inr (-1, q)
      else rbind (mq_send dev q) (\<lambda>(ret, q1).
        if ret < 0 then Inr (-1, q1)
        else rbind (peer q1) (\<lambda>q2.
          if \<not> mo_getattr mio then Inr (-1, q2)
          else if \<not> mo_malloc mio then Inr (-1, q2)
          else if \<not> mo_receive mio then Inr (-1, q2)
          else rbind (mq_receive q2) (\<lambda>(m, q3).
            if no_nul m \<and> mq_msgsize q3 \<le> length m then Inl Oob_access
            else Inr (if strstr (cstr m) ''success'' \<noteq> None then 0 else -1, q3)))))"

definition hotplug_main :: "mq_io \<Rightarrow> (mqueue \<Rightarrow> mqueue res) \<Rightarrow> string list \<Rightarrow> mqueue \<Rightarrow> (int \<times> mqueue) res" where
  "hotplug_main mio peer args q = (case args of [dev] \<Rightarrow> clear_caselist mio peer dev q | _ \<Rightarrow> Inr (-1, q))"

definition answering :: "string \<Rightarrow> mqueue \<Rightarrow> mqueue res" where
  "answering reply q = rbind (mq_receive q) (\<lambda>(m, q1). rbind (mq_send reply q1) (\<lambda>(r, q2). Inr q2))"

text \<open>
  The answer of a source that takes the request decides the status. When nobody takes it in time the tool receives its own request,
  and its status only depends on the name of the device.
\<close>

lemma hotplug_exchange:
  assumes "mq_ready mio q" "no_nul dev" "length dev < mq_msgsize q"
  shows "clear_caselist mio Inr dev q = Inr (if strstr dev ''success'' \<noteq> None then 0 else -1, q)"
    "no_nul reply \<Longrightarrow> length reply < mq_msgsize q \<Longrightarrow>
     clear_caselist mio (answering reply) dev q = Inr (if strstr reply ''success'' \<noteq> None then 0 else -1, q)"
  using assms by (auto simp: clear_caselist_def answering_def mq_ready_def mq_send_def mq_receive_def cstr_id)

lemma hotplug_message_unterminated:
  assumes "mq_ready mio q" "no_nul dev" "length dev = mq_msgsize q"
  shows "clear_caselist mio Inr dev q = Inl Oob_access"
  using assms by (auto simp: clear_caselist_def mq_ready_def mq_send_def mq_receive_def)

section \<open>The string helpers\<close>

text \<open>
  \<^verbatim>\<open>trim\<close> of \<^verbatim>\<open>fmd_string.h\<close>: what the new buffer holds, to its end; nothing writes a terminator. The backward loop of a string
  of blanks runs out of it.
\<close>

definition trim :: "string \<Rightarrow> string res" where
  "trim s =
     (let front = length (takeWhile isspace s); back = length (takeWhile isspace (rev s))
      in if back = length s then Inl Oob_access else Inr (take (length s - back - front) (drop front s)))"

lemma takeWhile_shorter: "y \<in> set xs \<Longrightarrow> \<not> P y \<Longrightarrow> length (takeWhile P xs) < length xs"
  by (induction xs) auto

lemma take_trailing: "take (length xs - length (takeWhile P (rev xs))) xs = rev (dropWhile P (rev xs))"
  by (simp add: dropWhile_eq_drop rev_drop)

lemma trim_spec:
  "trim s = (if list_all isspace s then Inl Oob_access else
     Inr (rev (dropWhile isspace (rev (dropWhile isspace s)))))"
proof (cases "list_all isspace s")
  case True
  then have "takeWhile isspace (rev s) = rev s" by (auto simp: list_all_iff takeWhile_eq_all_conv)
  then have "length (takeWhile isspace (rev s)) = length s" by (metis length_rev)
  then show ?thesis using True by (simp add: trim_def)
next
  case False
  then obtain y where y: "y \<in> set s" "\<not> isspace y" by (auto simp: list_all_iff)
  let ?d = "dropWhile isspace s"
  have d: "s = takeWhile isspace s @ ?d" "y \<in> set ?d"
    using y by (simp, metis set_takeWhileD set_append Un_iff takeWhile_dropWhile_id)
  have tr: "takeWhile isspace (rev s) = takeWhile isspace (rev ?d)"
    using d y(2) by (metis rev_append set_rev takeWhile_append1)
  have "length (takeWhile isspace (rev s)) < length s" using takeWhile_shorter [of y "rev s" isspace] y by simp
  moreover have "length s - length (takeWhile isspace (rev s)) - length (takeWhile isspace s) = length ?d - length (takeWhile isspace (rev s))"
    by (simp add: dropWhile_eq_drop)
  ultimately have "trim s = Inr (take (length ?d - length (takeWhile isspace (rev s))) ?d)"
    unfolding trim_def Let_def dropWhile_eq_drop [of isspace s] by simp
  then have "trim s = Inr (take (length ?d - length (takeWhile isspace (rev ?d))) ?d)" unfolding tr .
  also have "take (length ?d - length (takeWhile isspace (rev ?d))) ?d = rev (dropWhile isspace (rev ?d))"
    by (rule take_trailing)
  finally show ?thesis using False by simp
qed

text \<open>\<^verbatim>\<open>split\<close>: the pieces, as many as there are separators and one more.\<close>

fun split_at :: "char \<Rightarrow> string \<Rightarrow> string list" where
  "split_at ch [] = [[]]"
| "split_at ch (c # s) = (if c = ch then [] # split_at ch s else (case split_at ch s of p # ps \<Rightarrow> (c # p) # ps | [] \<Rightarrow> [[c]]))"

definition split :: "string \<Rightarrow> char \<Rightarrow> string list \<times> nat" where
  "split s ch = (split_at ch s, length (filter (\<lambda>c. c = ch) s) + 1)"

lemma split_pieces:
  "length (fst (split s ch)) = snd (split s ch)"
  "concat (map (\<lambda>p. ch # p) (fst (split s ch))) = ch # s"
  "\<forall>p \<in> set (fst (split s ch)). ch \<notin> set p"
proof -
  have ne: "split_at ch s \<noteq> []" for s by (cases s) (auto split: list.splits)
  show "length (fst (split s ch)) = snd (split s ch)"
    unfolding split_def by (induction s) (auto split: list.splits simp: ne)
  show "concat (map (\<lambda>p. ch # p) (fst (split s ch))) = ch # s"
    unfolding split_def by (induction s) (auto split: list.splits simp: ne)
  show "\<forall>p \<in> set (fst (split s ch)). ch \<notin> set p"
    unfolding split_def by (induction s) (auto split: list.splits)
qed

end
